(* ===== verification/Bridge_Prelude.thy ===== *)
theory Bridge_Prelude
  imports Main "HOL-Library.Word" "HOL-Library.Monad_Syntax"
begin

text \<open>
  Shared ground of the development: the machine types of \<open>common.h\<close>, the operating-system
  interface the program calls (a record of functions over an abstract world), the collections
  of facts the component theories feed, and generic lemmas on lists, options and words.
\<close>

unbundle bit_operations_syntax

section \<open>Collections of facts\<close>

named_theorems br_defs \<open>definitions of straight-line operations, unfolded to compute\<close>
named_theorems br_inv \<open>preservation of component invariants, one fact per operation\<close>
named_theorems br_frame \<open>which parts of the state an operation leaves alone\<close>

section \<open>Machine types of common.h\<close>

type_synonym u8 = "8 word"
type_synonym u16 = "16 word"
type_synonym u32 = "32 word"
type_synonym u64 = "64 word"

type_synonym bytes = "u8 list"

text \<open>
  The fields of \<open>struct sockaddr_in\<close> the program reads or writes. Both are kept in network
  byte order, as the code keeps them: it compares, copies and passes them on unchanged.
\<close>

record sockaddr_in =
  sin_addr :: u32
  sin_port :: u16

definition ETH_ALEN :: nat where
  "ETH_ALEN = 6"

text \<open>The comparison \<open>sin_addr.s_addr == ... \<and> sin_port == ...\<close> that the code repeats.\<close>

definition same_peer :: "sockaddr_in \<Rightarrow> sockaddr_in \<Rightarrow> bool" where
  "same_peer a b \<longleftrightarrow> sin_addr a = sin_addr b \<and> sin_port a = sin_port b"

lemma same_peer_iff [simp]: "same_peer a b \<longleftrightarrow> a = b"
  by (auto simp: same_peer_def intro: sockaddr_in.equality)

section \<open>Lists as stores\<close>

text \<open>
  Heap objects are kept in lists; the address of an object is its position and a fresh object
  goes to the end. \<open>modify_at i f xs\<close> is \<open>xs[i] = f(xs[i])\<close> through a valid pointer.
\<close>

definition modify_at :: "nat \<Rightarrow> ('a \<Rightarrow> 'a) \<Rightarrow> 'a list \<Rightarrow> 'a list" where
  "modify_at i f xs = (if i < length xs then xs[i := f (xs ! i)] else xs)"

lemma length_modify_at [simp]: "length (modify_at i f xs) = length xs"
  by (simp add: modify_at_def)

lemma nth_modify_at:
  "j < length xs \<Longrightarrow> modify_at i f xs ! j = (if i = j then f (xs ! j) else xs ! j)"
  by (simp add: modify_at_def)

lemma nth_modify_at_same [simp]: "i < length xs \<Longrightarrow> modify_at i f xs ! i = f (xs ! i)"
  by (simp add: nth_modify_at)

lemma nth_modify_at_other [simp]: "i \<noteq> j \<Longrightarrow> modify_at i f xs ! j = xs ! j"
  by (simp add: modify_at_def)


lemma map_nth_cong: "(\<And>i. i \<in> set ps \<Longrightarrow> xs ! i = ys ! i) \<Longrightarrow> map ((!) xs) ps = map ((!) ys) ps"
  by simp

lemma modify_at_append: "i < length xs \<Longrightarrow> modify_at i f (xs @ ys) = modify_at i f xs @ ys"
  by (simp add: modify_at_def list_update_append nth_append)

lemma map_modify_at_id:
  "(\<And>x. g (f x) = g x) \<Longrightarrow> map g (modify_at i f xs) = map g xs"
  by (simp add: modify_at_def map_update list_update_same_conv)


lemma distinct_concat_nth:
  assumes "\<And>i. i < length xss \<Longrightarrow> distinct (xss ! i)"
    and "\<And>i j. i < length xss \<Longrightarrow> j < length xss \<Longrightarrow> i \<noteq> j \<Longrightarrow> set (xss ! i) \<inter> set (xss ! j) = {}"
  shows "distinct (concat xss)"
  using assms
proof (induction xss)
  case Nil
  then show ?case by simp
next
  case (Cons xs xss)
  have "distinct xs" using Cons.prems(1) [of 0] by simp
  moreover have "distinct (concat xss)"
    using Cons.prems(1) [of "Suc i" for i] Cons.prems(2) [of "Suc i" "Suc j" for i j]
    by (intro Cons.IH) auto
  moreover have "set xs \<inter> set ys = {}" if "ys \<in> set xss" for ys
  proof -
    from that obtain i where "i < length xss" "ys = xss ! i" by (auto simp: in_set_conv_nth)
    with Cons.prems(2) [of 0 "Suc i"] show ?thesis by simp
  qed
  ultimately show ?case by auto
qed


section \<open>Loops that may leave the program\<close>

text \<open>
  A step that may end the process (\<open>exit\<close>) or not return has an \<open>option\<close> result; \<open>fold_opt\<close>
  runs it over a list, as a \<open>for\<close> loop does.
\<close>

fun fold_opt :: "('a \<Rightarrow> 's \<Rightarrow> 's option) \<Rightarrow> 'a list \<Rightarrow> 's \<Rightarrow> 's option" where
  "fold_opt f [] s = Some s"
| "fold_opt f (x # xs) s = do { s' \<leftarrow> f x s; fold_opt f xs s' }"

lemma fold_opt_append: "fold_opt f (xs @ ys) s = do { s' \<leftarrow> fold_opt f xs s; fold_opt f ys s' }"
  by (induction xs arbitrary: s) (auto split: Option.bind_splits)

lemma fold_opt_inv:
  assumes "fold_opt f xs s = Some s'" and "P s"
    and "\<And>x s s'. x \<in> set xs \<Longrightarrow> P s \<Longrightarrow> f x s = Some s' \<Longrightarrow> P s'"
  shows "P s'"
  using assms by (induction xs arbitrary: s) (auto simp: Option.bind_eq_Some_conv)

end
