(* ===== verification/Uthash.thy ===== *)
theory Uthash
  imports Bridge_Prelude
begin

text \<open>
  The hash table of \<open>src_lib/uthash/include/uthash.h\<close>, as the bridge uses it: the Jenkins hash,
  lookup, insertion with bucket expansion, deletion, and the application-order list.

  The element structures and the hash handles inside them live in \<open>ut_objs\<close>; the address of an
  element is its index there. A bucket's chain (\<open>hh_head\<close> and the \<open>hh_next\<close> links) is the list
  of the addresses on it, head first; the application order (\<open>head\<close>, \<open>next\<close>, \<open>tbl->tail\<close>) is
  the list of addresses in insertion order, and the head pointer is NULL iff it is empty.
  HASH\_BLOOM, HASH\_DEBUG, HASH\_EMIT\_KEYS and HASH\_NONFATAL\_OOM are not defined in the build,
  so an allocation failure ends the process (\<open>uthash_fatal\<close>, \<open>exit(-1)\<close>): the result \<open>None\<close>.
\<close>

section \<open>Hash functions\<close>

definition key_byte :: "bytes \<Rightarrow> nat \<Rightarrow> u32" where
  "key_byte k i = ucast (k ! i)"

text \<open>\<open>HASH_JEN_MIX(a,b,c)\<close>: three rounds of three lines, written as one line per variable.\<close>

definition hash_jen_mix :: "u32 \<Rightarrow> u32 \<Rightarrow> u32 \<Rightarrow> u32 \<times> u32 \<times> u32" where
  "hash_jen_mix a b c =
     (let a = (a - b - c) XOR drop_bit 13 c;
          b = (b - c - a) XOR push_bit 8 a;
          c = (c - a - b) XOR drop_bit 13 b;
          a = (a - b - c) XOR drop_bit 12 c;
          b = (b - c - a) XOR push_bit 16 a;
          c = (c - a - b) XOR drop_bit 5 b;
          a = (a - b - c) XOR drop_bit 3 c;
          b = (b - c - a) XOR push_bit 10 a;
          c = (c - a - b) XOR drop_bit 15 b
      in (a, b, c))"

definition jen_word :: "bytes \<Rightarrow> nat \<Rightarrow> u32" where
  "jen_word k i = key_byte k i + push_bit 8 (key_byte k (i + 1))
     + push_bit 16 (key_byte k (i + 2)) + push_bit 24 (key_byte k (i + 3))"

text \<open>The \<open>while (_hj_k >= 12U)\<close> loop; the last component is the unread rest of the key.\<close>

fun hash_jen_loop :: "u32 \<Rightarrow> u32 \<Rightarrow> u32 \<Rightarrow> bytes \<Rightarrow> u32 \<times> u32 \<times> u32 \<times> bytes" where
  "hash_jen_loop i j h k =
     (if 12 \<le> length k then
        (let (i', j', h') = hash_jen_mix (i + jen_word k 0) (j + jen_word k 4) (h + jen_word k 8)
         in hash_jen_loop i' j' h' (drop 12 k))
      else (i, j, h, k))"

declare hash_jen_loop.simps [simp del]

text \<open>The \<open>switch\<close> with its fall-through: case \<open>n\<close> runs the additions of \<open>n\<close>, \<open>n - 1\<close>, ..., 1.\<close>

definition hash_jen_tail :: "u32 \<Rightarrow> u32 \<Rightarrow> u32 \<Rightarrow> bytes \<Rightarrow> u32 \<times> u32 \<times> u32" where
  "hash_jen_tail i j h k =
     (let n = length k;
          h = (if 11 \<le> n then h + push_bit 24 (key_byte k 10) else h);
          h = (if 10 \<le> n then h + push_bit 16 (key_byte k 9) else h);
          h = (if 9 \<le> n then h + push_bit 8 (key_byte k 8) else h);
          j = (if 8 \<le> n then j + push_bit 24 (key_byte k 7) else j);
          j = (if 7 \<le> n then j + push_bit 16 (key_byte k 6) else j);
          j = (if 6 \<le> n then j + push_bit 8 (key_byte k 5) else j);
          j = (if 5 \<le> n then j + key_byte k 4 else j);
          i = (if 4 \<le> n then i + push_bit 24 (key_byte k 3) else i);
          i = (if 3 \<le> n then i + push_bit 16 (key_byte k 2) else i);
          i = (if 2 \<le> n then i + push_bit 8 (key_byte k 1) else i);
          i = (if 1 \<le> n then i + key_byte k 0 else i)
      in (i, j, h))"

definition hash_jen :: "bytes \<Rightarrow> u32" where
  "hash_jen key =
     (let (i, j, h, k) = hash_jen_loop 0x9e3779b9 0x9e3779b9 0xfeedbeef key;
          h = h + of_nat (length key);
          (i, j, h) = hash_jen_tail i j h k;
          (i, j, h) = hash_jen_mix i j h
      in h)"

section \<open>Tables\<close>

record ut_bucket =
  hh_chain :: "nat list"
  bkt_count :: u32
  expand_mult :: u32

record ut_table =
  buckets :: "ut_bucket list"
  num_buckets :: u32
  log2_num_buckets :: u32
  num_items :: u32
  ideal_chain_maxlen :: u32
  nonideal_items :: u32
  ineff_expands :: u32
  noexpand :: u32

record 'e ut_obj =
  hh_key :: bytes
  hh_hashv :: u32
  elt :: 'e

record 'e uthash =
  ut_objs :: "'e ut_obj list"
  app_order :: "nat list"
  ut_tbl :: "ut_table option"

definition empty_bucket :: ut_bucket where
  "empty_bucket = \<lparr>hh_chain = [], bkt_count = 0, expand_mult = 0\<rparr>"

definition uthash_empty :: "'e uthash" where
  "uthash_empty = \<lparr>ut_objs = [], app_order = [], ut_tbl = None\<rparr>"

text \<open>Sizes of the structures on the 64-bit Linux the program is built for.\<close>

definition sizeof_UT_hash_bucket :: nat where
  "sizeof_UT_hash_bucket = 16"

definition sizeof_UT_hash_table :: nat where
  "sizeof_UT_hash_table = 64"

type_synonym 'w allocator = "nat \<Rightarrow> 'w \<Rightarrow> bool \<times> 'w"

definition hash_to_bkt :: "u32 \<Rightarrow> u32 \<Rightarrow> nat" where
  "hash_to_bkt hashv num_bkts = unat (hashv AND (num_bkts - 1))"

subsection \<open>Lookup\<close>

text \<open>\<open>HASH_FIND_IN_BKT\<close>: hash value, key length and key bytes must agree.\<close>

fun hash_find_in_bkt :: "'e ut_obj list \<Rightarrow> nat list \<Rightarrow> bytes \<Rightarrow> u32 \<Rightarrow> nat option" where
  "hash_find_in_bkt os [] key hashv = None"
| "hash_find_in_bkt os (a # as) key hashv =
     (if hh_hashv (os ! a) = hashv \<and> length (hh_key (os ! a)) = length key
         \<and> hh_key (os ! a) = key
      then Some a else hash_find_in_bkt os as key hashv)"

definition hash_find_byhashvalue :: "'e uthash \<Rightarrow> bytes \<Rightarrow> u32 \<Rightarrow> nat option" where
  "hash_find_byhashvalue h key hashv =
     (case ut_tbl h of None \<Rightarrow> None
      | Some t \<Rightarrow> hash_find_in_bkt (ut_objs h)
                   (hh_chain (buckets t ! hash_to_bkt hashv (num_buckets t))) key hashv)"

definition hash_find :: "'e uthash \<Rightarrow> bytes \<Rightarrow> nat option" where
  "hash_find h key = hash_find_byhashvalue h key (hash_jen key)"

subsection \<open>Expansion\<close>

text \<open>The body of the inner loop of \<open>HASH_EXPAND_BUCKETS\<close>: one handle moves to its new bucket.\<close>

definition expand_move ::
  "'e ut_obj list \<Rightarrow> u32 \<Rightarrow> u32 \<Rightarrow> nat \<Rightarrow> ut_bucket list \<times> u32 \<Rightarrow> ut_bucket list \<times> u32" where
  "expand_move os nb ideal a = (\<lambda>(bs, nonideal).
     (let i = hash_to_bkt (hh_hashv (os ! a)) nb;
          b = bs ! i;
          c = bkt_count b + 1;
          over = ideal < c;
          nonideal' = (if over then nonideal + 1 else nonideal);
          m = (if over \<and> expand_mult b * ideal < c then expand_mult b + 1 else expand_mult b)
      in (bs[i := \<lparr>hh_chain = a # hh_chain b, bkt_count = c, expand_mult = m\<rparr>], nonideal')))"

definition hash_expand_buckets ::
  "'w allocator \<Rightarrow> 'e ut_obj list \<Rightarrow> ut_table \<Rightarrow> 'w \<Rightarrow> (ut_table \<times> 'w) option" where
  "hash_expand_buckets malloc os t w =
     (let n = unat (num_buckets t) * 2;
          (ok, w') = malloc (sizeof_UT_hash_bucket * n) w
      in if \<not> ok then None
         else
           (let ideal = drop_bit (unat (log2_num_buckets t + 1)) (num_items t)
                  + (if num_items t AND (num_buckets t * 2 - 1) \<noteq> 0 then 1 else 0);
                (bs, nonideal) =
                   fold (expand_move os (num_buckets t * 2) ideal)
                     (concat (map hh_chain (buckets t))) (replicate n empty_bucket, 0);
                ineff = (if drop_bit 1 (num_items t) < nonideal then ineff_expands t + 1 else 0)
            in Some (t\<lparr>buckets := bs, num_buckets := num_buckets t * 2,
                       log2_num_buckets := log2_num_buckets t + 1,
                       ideal_chain_maxlen := ideal, nonideal_items := nonideal,
                       ineff_expands := ineff,
                       noexpand := (if 1 < ineff then 1 else noexpand t)\<rparr>, w')))"

subsection \<open>Insertion\<close>

definition hash_add_to_bkt ::
  "'w allocator \<Rightarrow> 'e ut_obj list \<Rightarrow> ut_table \<Rightarrow> nat \<Rightarrow> nat \<Rightarrow> 'w \<Rightarrow> (ut_table \<times> 'w) option" where
  "hash_add_to_bkt malloc os t i a w =
     (let b = buckets t ! i;
          b' = b\<lparr>hh_chain := a # hh_chain b, bkt_count := bkt_count b + 1\<rparr>;
          t' = t\<lparr>buckets := (buckets t)[i := b']\<rparr>
      in if (expand_mult b' + 1) * 10 \<le> bkt_count b' \<and> noexpand t' = 0
         then hash_expand_buckets malloc os t' w
         else Some (t', w))"

definition hash_add_to_table ::
  "'w allocator \<Rightarrow> 'e ut_obj list \<Rightarrow> ut_table \<Rightarrow> u32 \<Rightarrow> nat \<Rightarrow> 'w \<Rightarrow> (ut_table \<times> 'w) option" where
  "hash_add_to_table malloc os t hashv a w =
     (let t' = t\<lparr>num_items := num_items t + 1\<rparr>
      in hash_add_to_bkt malloc os t' (hash_to_bkt hashv (num_buckets t')) a w)"

definition hash_make_table :: "'w allocator \<Rightarrow> 'w \<Rightarrow> (ut_table \<times> 'w) option" where
  "hash_make_table malloc w =
     (let (ok, w') = malloc sizeof_UT_hash_table w
      in if \<not> ok then None
         else (let (ok', w'') = malloc (32 * sizeof_UT_hash_bucket) w'
               in if \<not> ok' then None
                  else Some (\<lparr>buckets = replicate 32 empty_bucket, num_buckets = 32,
                              log2_num_buckets = 5, num_items = 0, ideal_chain_maxlen = 0,
                              nonideal_items = 0, ineff_expands = 0, noexpand = 0\<rparr>, w'')))"

text \<open>
  \<open>HASH_ADD_KEYPTR_BYHASHVALUE\<close>: the added element takes the next free address; it is appended
  to the application order (\<open>HASH_APPEND_LIST\<close>), or starts it when the head is NULL.
\<close>

definition hash_add_keyptr_byhashvalue ::
  "'w allocator \<Rightarrow> bytes \<Rightarrow> u32 \<Rightarrow> 'e \<Rightarrow> 'e uthash \<Rightarrow> 'w \<Rightarrow> ('e uthash \<times> 'w) option" where
  "hash_add_keyptr_byhashvalue malloc key hashv v h w =
     (let a = length (ut_objs h);
          os = ut_objs h @ [\<lparr>hh_key = key, hh_hashv = hashv, elt = v\<rparr>]
      in do {
        (t, w1) \<leftarrow> (case ut_tbl h of None \<Rightarrow> hash_make_table malloc w | Some t \<Rightarrow> Some (t, w));
        (t', w2) \<leftarrow> hash_add_to_table malloc os t hashv a w1;
        Some (\<lparr>ut_objs = os, app_order = app_order h @ [a], ut_tbl = Some t'\<rparr>, w2)
      })"

definition hash_add ::
  "'w allocator \<Rightarrow> bytes \<Rightarrow> 'e \<Rightarrow> 'e uthash \<Rightarrow> 'w \<Rightarrow> ('e uthash \<times> 'w) option" where
  "hash_add malloc key v h w = hash_add_keyptr_byhashvalue malloc key (hash_jen key) v h w"

subsection \<open>Deletion and access\<close>

definition hash_del_in_bkt :: "ut_table \<Rightarrow> nat \<Rightarrow> nat \<Rightarrow> ut_table" where
  "hash_del_in_bkt t i a =
     t\<lparr>buckets := modify_at i (\<lambda>b. b\<lparr>hh_chain := remove1 a (hh_chain b),
                                     bkt_count := bkt_count b - 1\<rparr>) (buckets t)\<rparr>"

text \<open>
  \<open>HASH_DELETE_HH\<close>: an element with neither neighbour is the only one, and the table goes with
  it; otherwise it is unlinked from the application order and from its bucket.
\<close>

definition hash_delete :: "nat \<Rightarrow> 'e uthash \<Rightarrow> 'e uthash" where
  "hash_delete a h =
     (case ut_tbl h of None \<Rightarrow> h
      | Some t \<Rightarrow>
          if app_order h = [a] then h\<lparr>app_order := [], ut_tbl := None\<rparr>
          else
            (let i = hash_to_bkt (hh_hashv (ut_objs h ! a)) (num_buckets t);
                 t' = hash_del_in_bkt t i a
             in h\<lparr>app_order := remove1 a (app_order h),
                  ut_tbl := Some (t'\<lparr>num_items := num_items t' - 1\<rparr>)\<rparr>))"

text \<open>Reading and writing an element through the pointer that a lookup returned.\<close>

definition ut_deref :: "'e uthash \<Rightarrow> nat \<Rightarrow> 'e" where
  "ut_deref h a = elt (ut_objs h ! a)"

definition ut_modify :: "nat \<Rightarrow> ('e \<Rightarrow> 'e) \<Rightarrow> 'e uthash \<Rightarrow> 'e uthash" where
  "ut_modify a f h = h\<lparr>ut_objs := modify_at a (\<lambda>ob. ob\<lparr>elt := f (elt ob)\<rparr>) (ut_objs h)\<rparr>"

definition hash_count :: "'e uthash \<Rightarrow> u32" where
  "hash_count h = (case ut_tbl h of None \<Rightarrow> 0 | Some t \<Rightarrow> num_items t)"

text \<open>The address the next added element takes: where the caller's pointer to it points.\<close>

definition ut_next_addr :: "'e uthash \<Rightarrow> nat" where
  "ut_next_addr h = length (ut_objs h)"

text \<open>Iteration in application order, the loop \<open>for (e = head; e; e = e->hh.next)\<close>.\<close>

definition ut_iter :: "'e uthash \<Rightarrow> nat list" where
  "ut_iter h = app_order h"


section \<open>Well-formed tables\<close>

text \<open>
  \<open>bkts_hold os nb bs S\<close>: the buckets \<open>bs\<close> of a table of \<open>nb\<close> buckets hold exactly the
  addresses in \<open>S\<close>, each in the bucket its hash value selects, and every count is right.
\<close>

definition bkts_hold :: "'e ut_obj list \<Rightarrow> u32 \<Rightarrow> ut_bucket list \<Rightarrow> nat set \<Rightarrow> bool" where
  "bkts_hold os nb bs S \<longleftrightarrow>
     (\<forall>i < length bs. distinct (hh_chain (bs ! i))
        \<and> set (hh_chain (bs ! i)) = {a \<in> S. hash_to_bkt (hh_hashv (os ! a)) nb = i}
        \<and> bkt_count (bs ! i) = of_nat (length (hh_chain (bs ! i))))"

definition tbl_wf :: "'e ut_obj list \<Rightarrow> nat list \<Rightarrow> ut_table \<Rightarrow> bool" where
  "tbl_wf os as t \<longleftrightarrow>
     unat (log2_num_buckets t) < 32 \<and> num_buckets t = 2 ^ unat (log2_num_buckets t)
     \<and> length (buckets t) = 2 ^ unat (log2_num_buckets t)
     \<and> num_items t = of_nat (length as) \<and> bkts_hold os (num_buckets t) (buckets t) (set as)"

definition ut_wf :: "'e uthash \<Rightarrow> bool" where
  "ut_wf h \<longleftrightarrow>
     distinct (app_order h) \<and> set (app_order h) \<subseteq> {..<length (ut_objs h)}
     \<and> (\<forall>a \<in> set (app_order h). hh_hashv (ut_objs h ! a) = hash_jen (hh_key (ut_objs h ! a)))
     \<and> (case ut_tbl h of None \<Rightarrow> app_order h = []
        | Some t \<Rightarrow> app_order h \<noteq> [] \<and> tbl_wf (ut_objs h) (app_order h) t)"

text \<open>The abstract value of a table: its keys and elements in application order.\<close>

definition ut_entries :: "'e uthash \<Rightarrow> (bytes \<times> 'e) list" where
  "ut_entries h =
     map (\<lambda>a. (hh_key (ut_objs h ! a), elt (ut_objs h ! a))) (app_order h)"

definition ut_inv :: "'e uthash \<Rightarrow> bool" where
  "ut_inv h \<longleftrightarrow> ut_wf h \<and> distinct (map fst (ut_entries h))"

text \<open>
  The allocator never hands out 64 GiB or more at once. Doubling a table of \<open>2 ^ 31\<close> buckets,
  which would wrap \<open>num_buckets\<close> to 0, asks for that much.
\<close>

definition mem_bounded :: "'w allocator \<Rightarrow> bool" where
  "mem_bounded malloc \<longleftrightarrow> (\<forall>n w. fst (malloc n w) \<longrightarrow> n < 2 ^ 36)"

subsection \<open>Bucket indices\<close>

lemma hash_to_bkt_less:
  assumes "n < 32"
  shows "hash_to_bkt hv (2 ^ n) < 2 ^ n"
proof -
  have "hv AND (2 ^ n - 1) = take_bit n hv"
    by (simp add: take_bit_eq_mask mask_eq_exp_minus_1)
  then show ?thesis
    using assms by (simp add: hash_to_bkt_def unsigned_take_bit_eq)
qed

lemma unat_two_power:
  assumes "n < 32"
  shows "unat ((2 :: u32) ^ n) = 2 ^ n"
proof -
  have "(2::nat) ^ n < 2 ^ 32"
    using assms by (intro power_strict_increasing) simp_all
  moreover have "unat (of_nat (2 ^ n) :: u32) = 2 ^ n mod 2 ^ 32"
    by (simp only: unat_of_nat len_num0 len_bit0 len_num1) simp
  ultimately show ?thesis by simp
qed

subsection \<open>Lookup finds exactly the stored keys\<close>

lemma hash_find_in_bkt_Some:
  "hash_find_in_bkt os as key hv = Some a \<Longrightarrow> a \<in> set as \<and> hh_key (os ! a) = key"
  by (induction as) (auto split: if_splits)

lemma hash_find_in_bkt_None:
  "hash_find_in_bkt os as key hv = None \<Longrightarrow> a \<in> set as \<Longrightarrow> hh_hashv (os ! a) = hv
    \<Longrightarrow> hh_key (os ! a) \<noteq> key"
  by (induction as) (auto split: if_splits)

lemma tbl_wf_bucket:
  assumes "tbl_wf os as t"
  shows "hash_to_bkt hv (num_buckets t) < length (buckets t)"
    and "set (hh_chain (buckets t ! hash_to_bkt hv (num_buckets t)))
       = {a \<in> set as. hash_to_bkt (hh_hashv (os ! a)) (num_buckets t) = hash_to_bkt hv (num_buckets t)}"
proof -
  show *: "hash_to_bkt hv (num_buckets t) < length (buckets t)"
    using assms hash_to_bkt_less by (simp add: tbl_wf_def)
  from assms have "bkts_hold os (num_buckets t) (buckets t) (set as)"
    unfolding tbl_wf_def by blast
  with * show "set (hh_chain (buckets t ! hash_to_bkt hv (num_buckets t)))
       = {a \<in> set as. hash_to_bkt (hh_hashv (os ! a)) (num_buckets t) = hash_to_bkt hv (num_buckets t)}"
    by (simp add: bkts_hold_def)
qed

lemma hash_find_Some:
  assumes "ut_wf h" and "hash_find h key = Some a"
  shows "a \<in> set (app_order h)" and "hh_key (ut_objs h ! a) = key"
proof -
  from assms(2) obtain t where t: "ut_tbl h = Some t"
    and f: "hash_find_in_bkt (ut_objs h)
      (hh_chain (buckets t ! hash_to_bkt (hash_jen key) (num_buckets t))) key (hash_jen key) = Some a"
    by (auto simp: hash_find_def hash_find_byhashvalue_def split: option.splits)
  from t assms(1) have "tbl_wf (ut_objs h) (app_order h) t" by (simp add: ut_wf_def)
  from tbl_wf_bucket(2) [OF this] hash_find_in_bkt_Some [OF f]
  show "a \<in> set (app_order h)" and "hh_key (ut_objs h ! a) = key" by auto
qed

lemma hash_find_None:
  assumes "ut_wf h" and "hash_find h key = None" and "a \<in> set (app_order h)"
  shows "hh_key (ut_objs h ! a) \<noteq> key"
proof
  assume k: "hh_key (ut_objs h ! a) = key"
  from assms(1,3) have hv: "hh_hashv (ut_objs h ! a) = hash_jen key"
    using k by (auto simp: ut_wf_def)
  from assms(1,3) obtain t where t: "ut_tbl h = Some t"
    and wf: "tbl_wf (ut_objs h) (app_order h) t"
    by (auto simp: ut_wf_def split: option.splits)
  have "a \<in> set (hh_chain (buckets t ! hash_to_bkt (hash_jen key) (num_buckets t)))"
    using tbl_wf_bucket(2) [OF wf] assms(3) hv by auto
  with assms(2) t hv k show False
    by (auto simp: hash_find_def hash_find_byhashvalue_def dest: hash_find_in_bkt_None)
qed

lemma map_of_map_addr:
  "distinct (map k as) \<Longrightarrow> a \<in> set as \<Longrightarrow> map_of (map (\<lambda>a. (k a, v a)) as) (k a) = Some (v a)"
  by (induction as) (auto simp: rev_image_eqI)

theorem hash_find_map_of:
  assumes "ut_inv h"
  shows "map_option (ut_deref h) (hash_find h key) = map_of (ut_entries h) key"
proof (cases "hash_find h key")
  case None
  have "key \<notin> fst ` set (ut_entries h)"
    using hash_find_None [OF _ None] assms unfolding ut_inv_def ut_entries_def by force
  then have "map_of (ut_entries h) key = None" by (simp add: map_of_eq_None_iff)
  with None show ?thesis by simp
next
  case (Some a)
  with assms have a: "a \<in> set (app_order h)" "hh_key (ut_objs h ! a) = key"
    by (auto simp: ut_inv_def dest: hash_find_Some)
  have "map_of (ut_entries h) (hh_key (ut_objs h ! a)) = Some (elt (ut_objs h ! a))"
    unfolding ut_entries_def using assms a(1)
    by (intro map_of_map_addr) (simp_all add: ut_inv_def ut_entries_def comp_def)
  with a Some show ?thesis by (simp add: ut_deref_def)
qed

subsection \<open>Insertion keeps the table well-formed\<close>

lemma bkts_hold_cong:
  assumes "\<And>a. a \<in> S \<Longrightarrow> hh_hashv (os' ! a) = hh_hashv (os ! a)"
  shows "bkts_hold os' nb bs S = bkts_hold os nb bs S"
proof -
  have "{a \<in> S. hash_to_bkt (hh_hashv (os' ! a)) nb = i}
      = {a \<in> S. hash_to_bkt (hh_hashv (os ! a)) nb = i}" for i
    using assms by auto
  then show ?thesis by (simp add: bkts_hold_def)
qed

lemma bkts_hold_push:
  assumes hold: "bkts_hold os nb bs S" and a: "a \<notin> S"
    and i: "i = hash_to_bkt (hh_hashv (os ! a)) nb" "i < length bs"
    and b: "hh_chain b = a # hh_chain (bs ! i)" "bkt_count b = bkt_count (bs ! i) + 1"
  shows "bkts_hold os nb (bs[i := b]) (insert a S)"
  unfolding bkts_hold_def
proof (intro allI impI)
  fix j assume "j < length (bs[i := b])"
  then have j: "j < length bs" by simp
  with hold have hj: "distinct (hh_chain (bs ! j))"
    "set (hh_chain (bs ! j)) = {a \<in> S. hash_to_bkt (hh_hashv (os ! a)) nb = j}"
    "bkt_count (bs ! j) = of_nat (length (hh_chain (bs ! j)))"
    by (auto simp: bkts_hold_def)
  show "distinct (hh_chain (bs[i := b] ! j))
      \<and> set (hh_chain (bs[i := b] ! j)) = {a' \<in> insert a S. hash_to_bkt (hh_hashv (os ! a')) nb = j}
      \<and> bkt_count (bs[i := b] ! j) = of_nat (length (hh_chain (bs[i := b] ! j)))"
  proof (cases "j = i")
    case True
    with hj a i b show ?thesis by auto
  next
    case False
    then have "{a' \<in> insert a S. hash_to_bkt (hh_hashv (os ! a')) nb = j}
        = {a' \<in> S. hash_to_bkt (hh_hashv (os ! a')) nb = j}"
      using i(1) by auto
    with False hj show ?thesis by simp
  qed
qed

lemma bkts_hold_empty: "bkts_hold os nb (replicate n empty_bucket) {}"
  by (simp add: bkts_hold_def empty_bucket_def)

lemma expand_move_hold:
  assumes "bkts_hold os nb bs S" and "a \<notin> S"
    and "hash_to_bkt (hh_hashv (os ! a)) nb < length bs"
  shows "bkts_hold os nb (fst (expand_move os nb ideal a (bs, ni))) (insert a S)"
    and "length (fst (expand_move os nb ideal a (bs, ni))) = length bs"
  using assms by (auto simp: expand_move_def Let_def intro!: bkts_hold_push)

lemma expand_fold_hold:
  assumes "distinct as" and "set as \<inter> S = {}" and "bkts_hold os nb (fst st) S"
    and "\<And>hv. hash_to_bkt hv nb < length (fst st)"
  shows "bkts_hold os nb (fst (fold (expand_move os nb ideal) as st)) (S \<union> set as)
    \<and> length (fst (fold (expand_move os nb ideal) as st)) = length (fst st)"
  using assms
proof (induction as arbitrary: st S)
  case Nil
  then show ?case by simp
next
  case (Cons a as)
  let ?st = "expand_move os nb ideal a st"
  have st: "bkts_hold os nb (fst ?st) (insert a S)" "length (fst ?st) = length (fst st)"
    using expand_move_hold [of os nb "fst st" S a ideal "snd st"] Cons.prems by simp_all
  have "bkts_hold os nb (fst (fold (expand_move os nb ideal) as ?st)) (insert a S \<union> set as)
      \<and> length (fst (fold (expand_move os nb ideal) as ?st)) = length (fst ?st)"
    using Cons.prems st by (intro Cons.IH) auto
  with st(2) show ?case by simp
qed

text \<open>The handles met by the nested loops of the expansion: each handle of the table once.\<close>

lemma chains_of_buckets:
  assumes "bkts_hold os nb bs S" and "\<And>hv. hash_to_bkt hv nb < length bs"
  shows "set (concat (map hh_chain bs)) = S" and "distinct (concat (map hh_chain bs))"
proof -
  have chain: "set (hh_chain (bs ! i)) = {a \<in> S. hash_to_bkt (hh_hashv (os ! a)) nb = i}"
    "distinct (hh_chain (bs ! i))" if "i < length bs" for i
    using assms(1) that by (auto simp: bkts_hold_def)
  have "set bs = (!) bs ` {..<length bs}"
    by (auto simp: set_conv_nth)
  then have "set (concat (map hh_chain bs)) = (\<Union>i < length bs. set (hh_chain (bs ! i)))"
    by simp
  also have "\<dots> = S" using chain(1) assms(2) by auto
  finally show "set (concat (map hh_chain bs)) = S" .
  show "distinct (concat (map hh_chain bs))"
    by (rule distinct_concat_nth) (auto simp: chain)
qed

lemma hash_expand_buckets_wf:
  assumes "mem_bounded malloc" and "tbl_wf os as t"
    and "hash_expand_buckets malloc os t w = Some (t', w')"
  shows "tbl_wf os as t'"
proof -
  let ?l = "unat (log2_num_buckets t)" and ?nb = "num_buckets t * 2"
  let ?st = "\<lambda>ideal. fold (expand_move os ?nb ideal) (concat (map hh_chain (buckets t)))
     (replicate (unat (num_buckets t) * 2) empty_bucket, 0)"
  from assms(2) have l: "?l < 32" and nb: "num_buckets t = 2 ^ ?l"
    and len: "length (buckets t) = 2 ^ ?l" and items: "num_items t = of_nat (length as)"
    and hold: "bkts_hold os (num_buckets t) (buckets t) (set as)"
    unfolding tbl_wf_def by blast+
  have un: "unat (num_buckets t) = 2 ^ ?l"
    using l by (simp add: nb unat_two_power)
  from assms(3) have "fst (malloc (sizeof_UT_hash_bucket * (unat (num_buckets t) * 2)) w)"
    by (auto simp: hash_expand_buckets_def Let_def split: prod.splits if_splits)
  with assms(1) have "sizeof_UT_hash_bucket * (unat (num_buckets t) * 2) < 2 ^ 36"
    unfolding mem_bounded_def by blast
  then have "(2::nat) ^ Suc (?l) < 2 ^ 32"
    by (simp add: sizeof_UT_hash_bucket_def un)
  then have l1: "Suc ?l < 32" by (simp only: power_strict_increasing_iff)
  then have ul: "unat (log2_num_buckets t + 1) = Suc ?l"
    by (simp add: unat_word_ariths)
  have nb2: "?nb = 2 ^ Suc ?l" by (simp add: nb)
  have idx: "hash_to_bkt hv ?nb < unat (num_buckets t) * 2" for hv
    using hash_to_bkt_less [OF l1, of hv] by (simp add: nb2 un)
  have chains: "set (concat (map hh_chain (buckets t))) = set as"
    "distinct (concat (map hh_chain (buckets t)))"
    using chains_of_buckets [OF hold] tbl_wf_bucket(1) [OF assms(2)] by simp_all
  have "bkts_hold os ?nb (fst (?st ideal)) ({} \<union> set as)
      \<and> length (fst (?st ideal)) = unat (num_buckets t) * 2" for ideal
    using expand_fold_hold [OF chains(2), of "{}" os ?nb
      "(replicate (unat (num_buckets t) * 2) empty_bucket, 0)" ideal] chains(1) idx
    by (simp add: bkts_hold_empty)
  then have new: "bkts_hold os ?nb (fst (?st ideal)) (set as)"
    "length (fst (?st ideal)) = 2 ^ Suc ?l" for ideal
    by (simp_all add: un)
  from assms(3) obtain ideal where t': "buckets t' = fst (?st ideal)" "num_buckets t' = ?nb"
    "log2_num_buckets t' = log2_num_buckets t + 1" "num_items t' = num_items t"
    by (auto simp: hash_expand_buckets_def Let_def split: prod.splits if_splits)
       (metis fst_conv)+
  show ?thesis
    unfolding tbl_wf_def using new [of ideal] t' ul l1 nb2 items by simp
qed

lemma hash_add_to_table_wf:
  assumes "mem_bounded malloc" and "tbl_wf os as t" and "a \<notin> set as"
    and "hash_add_to_table malloc os t (hh_hashv (os ! a)) a w = Some (t', w')"
  shows "tbl_wf os (as @ [a]) t'"
proof -
  let ?i = "hash_to_bkt (hh_hashv (os ! a)) (num_buckets t)"
  let ?b = "(buckets t ! ?i)\<lparr>hh_chain := a # hh_chain (buckets t ! ?i),
      bkt_count := bkt_count (buckets t ! ?i) + 1\<rparr>"
  let ?t = "t\<lparr>num_items := num_items t + 1, buckets := (buckets t)[?i := ?b]\<rparr>"
  from assms(2) have hold: "bkts_hold os (num_buckets t) (buckets t) (set as)"
    unfolding tbl_wf_def by blast
  have i: "?i < length (buckets t)" by (rule tbl_wf_bucket(1) [OF assms(2)])
  have hold': "bkts_hold os (num_buckets t) ((buckets t)[?i := ?b]) (insert a (set as))"
    by (rule bkts_hold_push [OF hold assms(3) refl i]) simp_all
  have wf: "tbl_wf os (as @ [a]) ?t"
    using assms(2) hold' unfolding tbl_wf_def by simp
  from assms(4) consider "t' = ?t" | "hash_expand_buckets malloc os ?t w = Some (t', w')"
    by (auto simp: hash_add_to_table_def hash_add_to_bkt_def Let_def split: if_splits)
  then show ?thesis
    by cases (use wf hash_expand_buckets_wf [OF assms(1) wf] in simp_all)
qed

lemma hash_make_table_wf: "hash_make_table malloc w = Some (t, w') \<Longrightarrow> tbl_wf os [] t"
  by (auto simp: hash_make_table_def tbl_wf_def bkts_hold_empty split: prod.splits if_splits)

lemma tbl_wf_objs_append:
  "tbl_wf os as t \<Longrightarrow> set as \<subseteq> {..<length os} \<Longrightarrow> tbl_wf (os @ xs) as t"
  using bkts_hold_cong [of "set as" "os @ xs" os] by (auto simp: tbl_wf_def nth_append subset_iff)

lemma hash_add_wf:
  assumes "mem_bounded malloc" and "ut_wf h" and "hash_add malloc key v h w = Some (h', w')"
  shows "ut_wf h'"
proof -
  let ?a = "length (ut_objs h)"
  let ?os = "ut_objs h @ [\<lparr>hh_key = key, hh_hashv = hash_jen key, elt = v\<rparr>]"
  from assms(3) obtain t w1 t' w2 where
    t: "(case ut_tbl h of None \<Rightarrow> hash_make_table malloc w | Some t \<Rightarrow> Some (t, w)) = Some (t, w1)"
    and t': "hash_add_to_table malloc ?os t (hash_jen key) ?a w1 = Some (t', w2)"
    and h': "h' = \<lparr>ut_objs = ?os, app_order = app_order h @ [?a], ut_tbl = Some t'\<rparr>"
    by (auto simp: hash_add_def hash_add_keyptr_byhashvalue_def Let_def
      Option.bind_eq_Some_conv)
  from assms(2) have sub: "set (app_order h) \<subseteq> {..<?a}" by (simp add: ut_wf_def)
  then have fresh: "?a \<notin> set (app_order h)" by auto
  have "tbl_wf ?os (app_order h) t"
  proof (cases "ut_tbl h")
    case None
    with assms(2) t show ?thesis by (simp add: ut_wf_def hash_make_table_wf)
  next
    case (Some t0)
    with assms(2) t sub show ?thesis by (simp add: ut_wf_def tbl_wf_objs_append)
  qed
  then have "tbl_wf ?os (app_order h @ [?a]) t'"
    using t' fresh hash_add_to_table_wf [OF assms(1), of ?os "app_order h" t ?a w1 t' w2]
    by (simp add: nth_append)
  moreover from sub have "ut_objs h ! a = ?os ! a" if "a \<in> set (app_order h)" for a
    using that by (auto simp: nth_append)
  ultimately show ?thesis
    using assms(2) fresh sub unfolding h' ut_wf_def by (auto simp: nth_append)
qed

lemma hash_add_entries:
  assumes "ut_wf h" and "hash_add malloc key v h w = Some (h', w')"
  shows "ut_entries h' = ut_entries h @ [(key, v)]"
proof -
  from assms(2) have h': "ut_objs h' = ut_objs h @ [\<lparr>hh_key = key, hh_hashv = hash_jen key, elt = v\<rparr>]"
    "app_order h' = app_order h @ [length (ut_objs h)]"
    by (auto simp: hash_add_def hash_add_keyptr_byhashvalue_def Let_def Option.bind_eq_Some_conv)
  from assms(1) have "\<And>a. a \<in> set (app_order h) \<Longrightarrow> a < length (ut_objs h)"
    by (auto simp: ut_wf_def)
  then show ?thesis by (auto simp: ut_entries_def h' nth_append)
qed

theorem hash_add_inv:
  assumes "mem_bounded malloc" and "ut_inv h" and "hash_find h key = None"
    and "hash_add malloc key v h w = Some (h', w')"
  shows "ut_inv h'"
proof -
  from assms(2) have wf: "ut_wf h" by (simp add: ut_inv_def)
  have "map_of (ut_entries h) key = None"
    using hash_find_map_of [OF assms(2), of key] assms(3) by simp
  then have "key \<notin> set (map fst (ut_entries h))"
    by (simp add: map_of_eq_None_iff)
  then have "distinct (map fst (ut_entries h @ [(key, v)]))"
    using assms(2) by (simp add: ut_inv_def)
  then show ?thesis
    unfolding ut_inv_def hash_add_entries [OF wf assms(4)]
    using hash_add_wf [OF assms(1) wf assms(4)] by simp
qed

lemma hash_find_added:
  assumes "mem_bounded malloc" and "ut_inv h" and "hash_find h key = None"
    and "hash_add malloc key v h w = Some (h', w')"
  shows "hash_find h' key = Some (ut_next_addr h)"
proof -
  let ?a = "length (ut_objs h)"
  have inv: "ut_inv h'" by (rule hash_add_inv [OF assms])
  from assms(4) have h': "app_order h' = app_order h @ [?a]" "hh_key (ut_objs h' ! ?a) = key"
    by (auto simp: hash_add_def hash_add_keyptr_byhashvalue_def Let_def Option.bind_eq_Some_conv)
  have "hash_find h' key \<noteq> None"
    using hash_find_None [of h' key ?a] inv h' by (auto simp: ut_inv_def)
  then obtain b where b: "hash_find h' key = Some b" by auto
  with inv have "b \<in> set (app_order h')" "hh_key (ut_objs h' ! b) = key"
    by (auto simp: ut_inv_def dest: hash_find_Some)
  moreover have "distinct (map (\<lambda>a. hh_key (ut_objs h' ! a)) (app_order h'))"
    using inv by (simp add: ut_inv_def ut_entries_def comp_def)
  ultimately have "b = ?a" using h' unfolding distinct_map inj_on_def by auto
  with b show ?thesis by (simp add: ut_next_addr_def)
qed

subsection \<open>Writing through a pointer\<close>

lemma ut_modify_sel [simp]:
  "app_order (ut_modify a f h) = app_order h" "ut_tbl (ut_modify a f h) = ut_tbl h"
  "length (ut_objs (ut_modify a f h)) = length (ut_objs h)"
  by (simp_all add: ut_modify_def)

lemma ut_modify_nth:
  assumes "b < length (ut_objs h)"
  shows "hh_key (ut_objs (ut_modify a f h) ! b) = hh_key (ut_objs h ! b)"
    and "hh_hashv (ut_objs (ut_modify a f h) ! b) = hh_hashv (ut_objs h ! b)"
    and "elt (ut_objs (ut_modify a f h) ! b)
      = (if b = a then f (elt (ut_objs h ! b)) else elt (ut_objs h ! b))"
  using assms by (auto simp: ut_modify_def nth_modify_at)

lemma ut_modify_wf:
  assumes "ut_wf h"
  shows "ut_wf (ut_modify a f h)"
proof -
  from assms have "\<And>b. b \<in> set (app_order h) \<Longrightarrow> b < length (ut_objs h)"
    by (auto simp: ut_wf_def)
  moreover from this have "bkts_hold (ut_objs (ut_modify a f h)) nb bs (set (app_order h))
      = bkts_hold (ut_objs h) nb bs (set (app_order h))" for nb bs
    by (intro bkts_hold_cong) (simp add: ut_modify_nth)
  ultimately show ?thesis
    using assms unfolding ut_wf_def tbl_wf_def
    by (auto simp: ut_modify_nth split: option.splits)
qed

lemma ut_modify_entries:
  assumes "ut_inv h" and "hash_find h key = Some a"
  shows "ut_entries (ut_modify a f h)
    = map (\<lambda>(k, e). (k, if k = key then f e else e)) (ut_entries h)"
proof -
  from assms have a: "a \<in> set (app_order h)" "hh_key (ut_objs h ! a) = key"
    by (auto simp: ut_inv_def dest: hash_find_Some)
  from assms(1) have lt: "\<And>b. b \<in> set (app_order h) \<Longrightarrow> b < length (ut_objs h)"
    by (auto simp: ut_inv_def ut_wf_def)
  have "distinct (map (\<lambda>a. hh_key (ut_objs h ! a)) (app_order h))"
    using assms(1) by (simp add: ut_inv_def ut_entries_def comp_def)
  then have "(b = a) = (hh_key (ut_objs h ! b) = key)" if "b \<in> set (app_order h)" for b
    using that a unfolding distinct_map inj_on_def by blast
  then show ?thesis
    using lt unfolding ut_entries_def map_map comp_def ut_modify_sel
    by (intro map_cong refl) (simp add: ut_modify_nth)
qed

lemma ut_modify_inv: "ut_inv h \<Longrightarrow> ut_inv (ut_modify a f h)"
proof -
  assume inv: "ut_inv h"
  then have "\<And>b. b \<in> set (app_order h) \<Longrightarrow> b < length (ut_objs h)"
    by (auto simp: ut_inv_def ut_wf_def)
  then have "map fst (ut_entries (ut_modify a f h)) = map fst (ut_entries h)"
    by (simp add: ut_entries_def ut_modify_nth)
  with inv show ?thesis by (simp add: ut_inv_def ut_modify_wf)
qed

section \<open>The interface of a keyed table\<close>

text \<open>
  What the forwarding database and the statistics use of uthash: a table is, abstractly, the
  list of its entries in the order they were added, with distinct keys. The laws say what a
  lookup finds, where an insertion goes and what a write through a found pointer changes.
\<close>

locale keyed_table =
  fixes empty :: "'t"
    and find :: "'t \<Rightarrow> bytes \<Rightarrow> nat option"
    and deref :: "'t \<Rightarrow> nat \<Rightarrow> 'e"
    and add :: "'w allocator \<Rightarrow> bytes \<Rightarrow> 'e \<Rightarrow> 't \<Rightarrow> 'w \<Rightarrow> ('t \<times> 'w) option"
    and modify :: "nat \<Rightarrow> ('e \<Rightarrow> 'e) \<Rightarrow> 't \<Rightarrow> 't"
    and next_addr :: "'t \<Rightarrow> nat"
    and iter :: "'t \<Rightarrow> nat list"
    and entries :: "'t \<Rightarrow> (bytes \<times> 'e) list"
    and inv :: "'t \<Rightarrow> bool"
  assumes inv_empty: "inv empty"
    and entries_empty: "entries empty = []"
    and keys_distinct: "inv t \<Longrightarrow> distinct (map fst (entries t))"
    and find_entries: "inv t \<Longrightarrow> map_option (deref t) (find t k) = map_of (entries t) k"
    and inv_add: "mem_bounded m \<Longrightarrow> inv t \<Longrightarrow> find t k = None
          \<Longrightarrow> add m k v t w = Some (t', w') \<Longrightarrow> inv t'"
    and entries_add: "inv t \<Longrightarrow> add m k v t w = Some (t', w')
          \<Longrightarrow> entries t' = entries t @ [(k, v)]"
    and find_add: "mem_bounded m \<Longrightarrow> inv t \<Longrightarrow> find t k = None
          \<Longrightarrow> add m k v t w = Some (t', w') \<Longrightarrow> find t' k = Some (next_addr t)"
    and inv_modify: "inv t \<Longrightarrow> inv (modify a f t)"
    and entries_modify: "inv t \<Longrightarrow> find t k = Some a
          \<Longrightarrow> entries (modify a f t) = map (\<lambda>(k', e). (k', if k' = k then f e else e)) (entries t)"
    and iter_entries: "inv t \<Longrightarrow> map (deref t) (iter t) = map snd (entries t)"
begin

lemma find_None_iff: "inv t \<Longrightarrow> find t k = None \<longleftrightarrow> k \<notin> fst ` set (entries t)"
  using find_entries [of t k] by (auto simp: map_of_eq_None_iff [symmetric])

lemma find_deref: "inv t \<Longrightarrow> find t k = Some a \<Longrightarrow> map_of (entries t) k = Some (deref t a)"
  using find_entries [of t k] by simp

lemma find_Some_iff: "inv t \<Longrightarrow> (\<exists>a. find t k = Some a) \<longleftrightarrow> k \<in> fst ` set (entries t)"
  using find_None_iff [of t k] by auto

lemma find_empty: "find empty k = None"
  by (simp add: find_None_iff inv_empty entries_empty)

lemma lookup_add:
  assumes "inv t" and "find t k = None" and "add m k v t w = Some (t', w')"
  shows "map_of (entries t') = (map_of (entries t))(k \<mapsto> v)"
proof -
  have "map_of (entries t) k = None"
    using find_entries [OF assms(1), of k] assms(2) by simp
  then show ?thesis
    by (auto simp: entries_add [OF assms(1,3)] map_add_def split: option.splits)
qed

lemma lookup_modify:
  assumes "inv t" and "find t k = Some a"
  shows "map_of (entries (modify a f t)) = (map_of (entries t))(k \<mapsto> f (deref t a))"
proof -
  have "map_of (map (\<lambda>(k', e). (k', if k' = k then f e else e)) es) j
      = (if j = k then map_option f (map_of es j) else map_of es j)" for es j
    by (induction es) auto
  then show ?thesis
    using find_deref [OF assms] by (auto simp: entries_modify [OF assms])
qed

lemma keys_modify:
  "inv t \<Longrightarrow> find t k = Some a \<Longrightarrow> map fst (entries (modify a f t)) = map fst (entries t)"
  by (auto simp: entries_modify)

lemma deref_modify:
  assumes "inv t" and "find t k = Some a"
  shows "map_option (deref (modify a f t)) (find (modify a f t) k) = Some (f (deref t a))"
  using find_entries [OF inv_modify [OF assms(1)], of a f k] lookup_modify [OF assms, of f]
  by simp

end

interpretation ut: keyed_table uthash_empty hash_find ut_deref hash_add ut_modify
  ut_next_addr ut_iter
  ut_entries ut_inv
proof (standard, goal_cases)
  case 1
  show ?case by (simp add: ut_inv_def ut_wf_def uthash_empty_def ut_entries_def)
next
  case 2
  show ?case by (simp add: uthash_empty_def ut_entries_def)
next
  case (3 t)
  then show ?case by (simp add: ut_inv_def)
next
  case (4 t k)
  then show ?case by (rule hash_find_map_of)
next
  case (5 m t k v w t' w')
  then show ?case by (rule hash_add_inv)
next
  case (6 t m k v w t' w')
  then show ?case by (intro hash_add_entries) (simp_all add: ut_inv_def)
next
  case (7 m t k v w t' w')
  then show ?case by (rule hash_find_added)
next
  case (8 t a f)
  then show ?case by (rule ut_modify_inv)
next
  case (9 t k a f)
  then show ?case by (rule ut_modify_entries)
next
  case (10 t)
  show ?case by (simp add: ut_iter_def ut_entries_def ut_deref_def)
qed

section \<open>Insertions that return\<close>

text \<open>
  \<open>mem_ok\<close>: every allocation below 64 GiB succeeds, none above does. A table has room for \<open>k\<close> more
  elements when \<open>k\<close> doublings stay below \<open>2 ^ 31\<close> buckets: an insertion doubles at most once.
\<close>

definition mem_ok :: "'w allocator \<Rightarrow> bool" where
  "mem_ok malloc \<longleftrightarrow> (\<forall>n w. fst (malloc n w) \<longleftrightarrow> n < 2 ^ 36)"

definition log2_buckets :: "'e uthash \<Rightarrow> nat" where
  "log2_buckets h = (case ut_tbl h of None \<Rightarrow> 5 | Some t \<Rightarrow> unat (log2_num_buckets t))"

definition ut_room :: "nat \<Rightarrow> 'e uthash \<Rightarrow> bool" where
  "ut_room k h \<longleftrightarrow> log2_buckets h + k \<le> 31"

lemma mem_ok_bounded: "mem_ok m \<Longrightarrow> mem_bounded m"
  by (simp add: mem_ok_def mem_bounded_def)

lemma ut_room_mono: "ut_room k h \<Longrightarrow> j \<le> k \<Longrightarrow> ut_room j h"
  by (simp add: ut_room_def)

lemma log2_buckets_modify [simp]: "log2_buckets (ut_modify a f h) = log2_buckets h"
  by (simp add: log2_buckets_def ut_modify_def)

lemma hash_make_table_returns:
  assumes "mem_ok m"
  shows "\<exists>t w'. hash_make_table m w = Some (t, w') \<and> num_buckets t = 32 \<and> log2_num_buckets t = 5"
  using assms
  by (auto simp: hash_make_table_def mem_ok_def Let_def split_beta sizeof_UT_hash_table_def
      sizeof_UT_hash_bucket_def)

lemma hash_expand_returns:
  assumes "mem_ok m" and "unat (log2_num_buckets t) < 31"
    and "num_buckets t = 2 ^ unat (log2_num_buckets t)"
  shows "\<exists>t' w'. hash_expand_buckets m os t w = Some (t', w')
    \<and> unat (log2_num_buckets t') = Suc (unat (log2_num_buckets t))"
proof -
  from assms(2) have "(2::nat) ^ unat (log2_num_buckets t) \<le> 2 ^ 30"
    by (intro power_increasing) auto
  moreover from assms(2,3) have "unat (num_buckets t) = 2 ^ unat (log2_num_buckets t)"
    by (simp add: unat_two_power)
  ultimately have ok: "fst (m (sizeof_UT_hash_bucket * (unat (num_buckets t) * 2)) w)"
    using assms(1) by (simp add: mem_ok_def sizeof_UT_hash_bucket_def)
  have "unat (log2_num_buckets t + 1) = Suc (unat (log2_num_buckets t))"
    using assms(2) by (simp add: unat_word_ariths)
  with ok show ?thesis
    by (auto simp: hash_expand_buckets_def Let_def split_beta)
qed

lemma hash_add_to_table_shape:
  "\<exists>t2. log2_num_buckets t2 = log2_num_buckets t \<and> num_buckets t2 = num_buckets t
     \<and> (hash_add_to_table m os t hv a w = hash_expand_buckets m os t2 w
       \<or> hash_add_to_table m os t hv a w = Some (t2, w))"
proof -
  let ?i = "hash_to_bkt hv (num_buckets t)"
  let ?b = "buckets t ! ?i"
  let ?t2 = "t\<lparr>num_items := num_items t + 1, buckets := (buckets t)[?i :=
      ?b\<lparr>hh_chain := a # hh_chain ?b, bkt_count := bkt_count ?b + 1\<rparr>]\<rparr>"
  have "hash_add_to_table m os t hv a w = hash_expand_buckets m os ?t2 w
       \<or> hash_add_to_table m os t hv a w = Some (?t2, w)"
    by (simp add: hash_add_to_table_def hash_add_to_bkt_def Let_def)
  then show ?thesis by (intro exI [of _ ?t2]) simp
qed

lemma hash_add_returns:
  assumes "mem_ok m" and "ut_inv h" and "ut_room (Suc k) h"
  shows "\<exists>h' w'. hash_add m key v h w = Some (h', w') \<and> ut_room k h'"
proof -
  let ?os = "ut_objs h @ [\<lparr>hh_key = key, hh_hashv = hash_jen key, elt = v\<rparr>]"
  obtain t w1 where t: "(case ut_tbl h of None \<Rightarrow> hash_make_table m w | Some t \<Rightarrow> Some (t, w)) = Some (t, w1)"
    and log2: "unat (log2_num_buckets t) = log2_buckets h"
    and nb: "num_buckets t = 2 ^ unat (log2_num_buckets t)"
  proof (cases "ut_tbl h")
    case None
    with hash_make_table_returns [OF assms(1), of w] that show ?thesis
      by (auto simp: log2_buckets_def)
  next
    case (Some t)
    with assms(2) that show ?thesis
      by (auto simp: log2_buckets_def ut_inv_def ut_wf_def tbl_wf_def)
  qed
  from assms(3) log2 have lt: "unat (log2_num_buckets t) < 31" by (simp add: ut_room_def)
  let ?a = "length (ut_objs h)"
  have "\<exists>t' w'. hash_add_to_table m ?os t (hash_jen key) ?a w1 = Some (t', w')
      \<and> unat (log2_num_buckets t') \<le> Suc (log2_buckets h)"
  proof -
    obtain t2 where t2: "log2_num_buckets t2 = log2_num_buckets t" "num_buckets t2 = num_buckets t"
      "hash_add_to_table m ?os t (hash_jen key) ?a w1 = hash_expand_buckets m ?os t2 w1
       \<or> hash_add_to_table m ?os t (hash_jen key) ?a w1 = Some (t2, w1)"
      using hash_add_to_table_shape [of t m ?os "hash_jen key" ?a w1] by blast
    with hash_expand_returns [OF assms(1), of t2 ?os w1] lt nb log2 show ?thesis by auto
  qed
  then obtain t' w' where "hash_add_to_table m ?os t (hash_jen key) ?a w1 = Some (t', w')"
    "unat (log2_num_buckets t') \<le> Suc (log2_buckets h)" by blast
  with t assms(3) show ?thesis
    by (auto simp: hash_add_def hash_add_keyptr_byhashvalue_def Let_def ut_room_def log2_buckets_def)
qed

section \<open>The world during an insertion\<close>

text \<open>An insertion touches the world through the allocator only.\<close>

lemma hash_expand_buckets_world:
  "hash_expand_buckets m os t w = Some (t', w')
     \<Longrightarrow> w' = snd (m (sizeof_UT_hash_bucket * (unat (num_buckets t) * 2)) w)"
  by (auto simp: hash_expand_buckets_def Let_def split: prod.splits if_splits)

lemma hash_make_table_world:
  "hash_make_table m w = Some (t, w')
     \<Longrightarrow> w' = snd (m (32 * sizeof_UT_hash_bucket) (snd (m sizeof_UT_hash_table w)))"
  by (auto simp: hash_make_table_def Let_def split: prod.splits if_splits)

lemma hash_add_to_table_world:
  "hash_add_to_table m os t hv a w = Some (t', w')
     \<Longrightarrow> w' = w \<or> (\<exists>n. w' = snd (m n w))"
  by (auto simp: hash_add_to_table_def hash_add_to_bkt_def Let_def split: if_splits
      dest: hash_expand_buckets_world)

lemma hash_add_frame:
  fixes h h' :: "'e uthash"
  assumes "\<And>n w. f (snd (m n w)) = f w" and "hash_add m key v h w = Some (h', w')"
  shows "f w' = f w"
proof -
  from assms(2) obtain t w1 hv a t' and os :: "'e ut_obj list" where
    make: "(case ut_tbl h of None \<Rightarrow> hash_make_table m w | Some t \<Rightarrow> Some (t, w)) = Some (t, w1)"
    and add: "hash_add_to_table m os t hv a w1 = Some (t', w')"
    unfolding hash_add_def hash_add_keyptr_byhashvalue_def Let_def
    by (auto simp: Option.bind_eq_Some_conv)
  from make have "f w1 = f w"
    by (auto simp: assms(1) split: option.splits dest!: hash_make_table_world)
  with hash_add_to_table_world [OF add] show ?thesis by (auto simp: assms(1))
qed

end
