(* ===== verification/Os_Interface.thy ===== *)
theory Os_Interface
  imports Bridge_Prelude Uthash
begin

text \<open>
  The operating system as the program sees it: the system calls it makes, as functions on an
  abstract world \<open>'w\<close>. None of this code is under \<open>src/\<close>, so it is a parameter of the model.
  A call returns its result and the world after it; \<open>os_errno\<close> reads \<open>errno\<close>, which the code
  sometimes consults after a call that did not fail. What the properties need of the calls is
  stated as hypotheses (\<open>mem_bounded\<close>, \<open>net_sends\<close> and others).
\<close>

record epoll_event =
  ev_in :: bool
  ev_fd :: int

text \<open>
  \<open>os_recvmmsg fd max_num max_len\<close> returns the result and the datagrams stored, each with its
  sender; \<open>os_sendmmsg fd msgs\<close> returns the result and the \<open>msg_len\<close> of each message.
  \<open>os_epoll_ctl epfd fd et\<close> adds \<open>fd\<close> for input, edge-triggered or not. \<open>os_sigusr1\<close> tells
  whether SIGUSR1 has arrived since it was asked last, and \<open>os_thread\<close> starts the named thread
  function with an argument.
\<close>

datatype sock_type = SOCK_DGRAM | SOCK_STREAM

text \<open>
  The fields of \<open>struct ifreq\<close> the client uses, and the requests it makes with it. \<open>os_ioctl\<close>
  returns the result and the structure as the kernel leaves it.
\<close>

record ifreq =
  ifr_name :: string
  ifr_flags :: u16
  ifr_hwaddr :: bytes
  ifr_mtu :: int

datatype ioctl_req = TUNSETIFF | TUNSETNOCSUM | TUNSETDEBUG | TUNSETPERSIST
  | SIOCSIFHWADDR | SIOCSIFMTU | SIOCGIFFLAGS | SIOCSIFFLAGS | SIOCGIFINDEX

record 'w os =
  os_malloc :: "'w allocator"
  os_errno :: "'w \<Rightarrow> int"
  os_socket :: "sock_type \<Rightarrow> 'w \<Rightarrow> int \<times> 'w"
  os_bind :: "int \<Rightarrow> sockaddr_in \<Rightarrow> 'w \<Rightarrow> int \<times> 'w"
  os_setsockopt :: "int \<Rightarrow> string \<Rightarrow> int \<Rightarrow> 'w \<Rightarrow> int \<times> 'w"
  os_close :: "int \<Rightarrow> 'w \<Rightarrow> 'w"
  os_sendto :: "int \<Rightarrow> bytes \<Rightarrow> sockaddr_in \<Rightarrow> 'w \<Rightarrow> int \<times> 'w"
  os_sendmmsg :: "int \<Rightarrow> (bytes \<times> sockaddr_in) list \<Rightarrow> 'w \<Rightarrow> (int \<times> nat list) \<times> 'w"
  os_recvfrom :: "int \<Rightarrow> nat \<Rightarrow> 'w \<Rightarrow> (int \<times> bytes \<times> sockaddr_in) \<times> 'w"
  os_recvmmsg :: "int \<Rightarrow> nat \<Rightarrow> nat \<Rightarrow> 'w \<Rightarrow> (int \<times> (bytes \<times> sockaddr_in) list) \<times> 'w"
  os_read :: "int \<Rightarrow> nat \<Rightarrow> 'w \<Rightarrow> (int \<times> bytes) \<times> 'w"
  os_write :: "int \<Rightarrow> bytes \<Rightarrow> 'w \<Rightarrow> int \<times> 'w"
  os_writev :: "int \<Rightarrow> bytes list \<Rightarrow> 'w \<Rightarrow> int \<times> 'w"
  os_readv :: "int \<Rightarrow> nat \<Rightarrow> nat \<Rightarrow> 'w \<Rightarrow> (int \<times> bytes list) \<times> 'w"
  os_open :: "string \<Rightarrow> 'w \<Rightarrow> int \<times> 'w"
  os_ioctl :: "int \<Rightarrow> ioctl_req \<Rightarrow> ifreq \<Rightarrow> 'w \<Rightarrow> (int \<times> ifreq) \<times> 'w"
  os_fcntl :: "int \<Rightarrow> string \<Rightarrow> u32 \<Rightarrow> 'w \<Rightarrow> int \<times> 'w"
  os_listen :: "int \<Rightarrow> nat \<Rightarrow> 'w \<Rightarrow> int \<times> 'w"
  os_accept :: "int \<Rightarrow> 'w \<Rightarrow> (int \<times> sockaddr_in) \<times> 'w"
  os_thread :: "string \<Rightarrow> int \<Rightarrow> 'w \<Rightarrow> int \<times> 'w"
  os_rand :: "'w \<Rightarrow> nat \<times> 'w"
  os_epoll_create :: "'w \<Rightarrow> int \<times> 'w"
  os_epoll_ctl :: "int \<Rightarrow> int \<Rightarrow> bool \<Rightarrow> 'w \<Rightarrow> int \<times> 'w"
  os_epoll_wait :: "int \<Rightarrow> nat \<Rightarrow> int \<Rightarrow> 'w \<Rightarrow> (int \<times> epoll_event list) \<times> 'w"
  os_usleep :: "nat \<Rightarrow> 'w \<Rightarrow> 'w"
  os_clock :: "'w \<Rightarrow> (int \<times> nat \<times> nat) \<times> 'w"
  os_sigusr1 :: "'w \<Rightarrow> bool \<times> 'w"

definition EAGAIN :: int where
  "EAGAIN = 11"

text \<open>Data a call stores at the start of a buffer: the rest of the buffer keeps its bytes.\<close>

definition buf_store :: "bytes \<Rightarrow> bytes \<Rightarrow> bytes" where
  "buf_store data buf = data @ drop (length data) buf"

lemma length_buf_store [simp]: "length data \<le> length buf \<Longrightarrow> length (buf_store data buf) = length buf"
  by (simp add: buf_store_def)

lemma take_buf_store [simp]: "take (length data) (buf_store data buf) = data"
  by (simp add: buf_store_def)

end
