(* ===== verification/Utlist.thy ===== *)
theory Utlist
  imports Bridge_Prelude
begin

text \<open>
  The circular doubly linked list of \<open>src_lib/uthash/include/utlist.h\<close>, at the level of its
  pointers. A list is its nodes (the address of a node is its index) and the head pointer, NULL
  being \<open>None\<close>. Prepending and deleting perform the macros' assignments in their order, and
  \<open>cdl_foreach_safe\<close> follows the links as the \<open>for\<close> loop does; a walk that has not come back
  to the head after as many steps as there are nodes never will, and its result is \<open>None\<close>.
  The lemmas show that the pointer structure refines a plain list.
\<close>

section \<open>Nodes and operations\<close>

record 'a cdl_node =
  cdl_val :: 'a
  cdl_prev :: nat
  cdl_next :: nat

record 'a cdl =
  cdl_nodes :: "'a cdl_node list"
  cdl_head :: "nat option"

definition cdl_empty :: "'a cdl" where
  "cdl_empty = \<lparr>cdl_nodes = [], cdl_head = None\<rparr>"

text \<open>\<open>CDL_PREPEND2\<close> of a freshly allocated element: it takes the next free address.\<close>

definition cdl_prepend :: "'a \<Rightarrow> 'a cdl \<Rightarrow> 'a cdl" where
  "cdl_prepend x l =
     (let a = length (cdl_nodes l)
      in case cdl_head l of
           Some h \<Rightarrow>
             (let ns = cdl_nodes l @ [\<lparr>cdl_val = x, cdl_prev = cdl_prev (cdl_nodes l ! h),
                                       cdl_next = h\<rparr>];
                  ns = modify_at h (\<lambda>n. n\<lparr>cdl_prev := a\<rparr>) ns;
                  ns = modify_at (cdl_prev (ns ! a)) (\<lambda>n. n\<lparr>cdl_next := a\<rparr>) ns
              in \<lparr>cdl_nodes = ns, cdl_head = Some a\<rparr>)
         | None \<Rightarrow>
             \<lparr>cdl_nodes = cdl_nodes l @ [\<lparr>cdl_val = x, cdl_prev = a, cdl_next = a\<rparr>],
              cdl_head = Some a\<rparr>)"

text \<open>\<open>CDL_APPEND2\<close>: the same links, but the head stays where it is.\<close>

definition cdl_append :: "'a \<Rightarrow> 'a cdl \<Rightarrow> 'a cdl" where
  "cdl_append x l =
     (case cdl_head l of
        Some h \<Rightarrow> (cdl_prepend x l)\<lparr>cdl_head := Some h\<rparr>
      | None \<Rightarrow> cdl_prepend x l)"

text \<open>\<open>CDL_DELETE2\<close> of the element at address \<open>d\<close>.\<close>

definition cdl_delete :: "nat \<Rightarrow> 'a cdl \<Rightarrow> 'a cdl" where
  "cdl_delete d l =
     (let n = cdl_nodes l ! d
      in if cdl_head l = Some d \<and> cdl_next n = d then l\<lparr>cdl_head := None\<rparr>
         else
           (let ns = modify_at (cdl_next n) (\<lambda>m. m\<lparr>cdl_prev := cdl_prev n\<rparr>) (cdl_nodes l);
                ns = modify_at (cdl_prev (ns ! d)) (\<lambda>m. m\<lparr>cdl_next := cdl_next (ns ! d)\<rparr>) ns
            in \<lparr>cdl_nodes = ns,
                cdl_head = (if cdl_head l = Some d then Some (cdl_next (ns ! d)) else cdl_head l)\<rparr>))"

text \<open>
  \<open>CDL_FOREACH_SAFE2(head,el,tmp1,tmp2)\<close>: \<open>tmp1\<close> is the last element, fixed at the start; the
  step is \<open>el = (el == tmp1 ? NULL : tmp2)\<close> with \<open>tmp2 = el->next\<close>. The result lists the
  elements visited.
\<close>

fun cdl_walk :: "nat \<Rightarrow> 'a cdl_node list \<Rightarrow> nat \<Rightarrow> nat \<Rightarrow> nat list option" where
  "cdl_walk 0 ns tmp1 el = None"
| "cdl_walk (Suc fuel) ns tmp1 el =
     (if el = tmp1 then Some [el]
      else map_option ((#) el) (cdl_walk fuel ns tmp1 (cdl_next (ns ! el))))"

definition cdl_foreach_safe :: "'a cdl \<Rightarrow> nat list option" where
  "cdl_foreach_safe l =
     (case cdl_head l of
        None \<Rightarrow> Some []
      | Some h \<Rightarrow> cdl_walk (length (cdl_nodes l)) (cdl_nodes l) (cdl_prev (cdl_nodes l ! h)) h)"

definition cdl_get :: "'a cdl \<Rightarrow> nat \<Rightarrow> 'a" where
  "cdl_get l a = cdl_val (cdl_nodes l ! a)"

section \<open>The list a pointer structure represents\<close>

fun linked :: "'a cdl_node list \<Rightarrow> nat list \<Rightarrow> bool" where
  "linked ns (u # v # as) \<longleftrightarrow> cdl_next (ns ! u) = v \<and> cdl_prev (ns ! v) = u \<and> linked ns (v # as)"
| "linked ns as \<longleftrightarrow> True"

text \<open>\<open>cdl_ok l as\<close>: following \<open>next\<close> from the head visits \<open>as\<close> and closes the circle.\<close>

definition cdl_ok :: "'a cdl \<Rightarrow> nat list \<Rightarrow> bool" where
  "cdl_ok l as \<longleftrightarrow>
     distinct as \<and> set as \<subseteq> {..<length (cdl_nodes l)} \<and> linked (cdl_nodes l) as
     \<and> (case cdl_head l of
          None \<Rightarrow> as = []
        | Some h \<Rightarrow> as \<noteq> [] \<and> hd as = h \<and> cdl_next (cdl_nodes l ! last as) = h
            \<and> cdl_prev (cdl_nodes l ! h) = last as)"

definition cdl_inv :: "'a cdl \<Rightarrow> bool" where
  "cdl_inv l \<longleftrightarrow> (\<exists>as. cdl_ok l as)"

definition cdl_list :: "'a cdl \<Rightarrow> 'a list" where
  "cdl_list l = (case cdl_foreach_safe l of None \<Rightarrow> [] | Some as \<Rightarrow> map (cdl_get l) as)"

lemma linked_cong:
  assumes "linked ns as"
    and "\<And>a. a \<in> set (butlast as) \<Longrightarrow> cdl_next (ns' ! a) = cdl_next (ns ! a)"
    and "\<And>a. a \<in> set (tl as) \<Longrightarrow> cdl_prev (ns' ! a) = cdl_prev (ns ! a)"
  shows "linked ns' as"
  using assms by (induction as rule: linked.induct) (auto split: if_splits)

lemma cdl_walk_linked:
  assumes "linked ns (a # as)" and "distinct (a # as)" and "length (a # as) \<le> fuel"
  shows "cdl_walk fuel ns (last (a # as)) a = Some (a # as)"
  using assms
proof (induction as arbitrary: a fuel)
  case Nil
  then show ?case by (cases fuel) auto
next
  case (Cons b as)
  then obtain k where k: "fuel = Suc k" by (cases fuel) auto
  have "a \<noteq> last (b # as)" using Cons.prems(2) last_in_set [of "b # as"] by auto
  moreover have "cdl_walk k ns (last (b # as)) b = Some (b # as)"
    using Cons.prems k by (intro Cons.IH) auto
  ultimately show ?case using Cons.prems(1) k by simp
qed

text \<open>The walk ends and visits each element once, in order; the fuel is enough.\<close>

lemma cdl_foreach_ok:
  assumes "cdl_ok l as"
  shows "cdl_foreach_safe l = Some as"
proof (cases as)
  case Nil
  with assms show ?thesis by (auto simp: cdl_ok_def cdl_foreach_safe_def split: option.splits)
next
  case (Cons a bs)
  with assms have h: "cdl_head l = Some a" "cdl_prev (cdl_nodes l ! a) = last as"
    "linked (cdl_nodes l) as" "distinct as" "set as \<subseteq> {..<length (cdl_nodes l)}"
    by (auto simp: cdl_ok_def split: option.splits)
  then have "length as \<le> length (cdl_nodes l)"
    using card_mono [of "{..<length (cdl_nodes l)}" "set as"] by (simp add: distinct_card)
  with h Cons show ?thesis
    by (simp add: cdl_foreach_safe_def cdl_walk_linked del: last.simps)
qed

lemma cdl_list_ok: "cdl_ok l as \<Longrightarrow> cdl_list l = map (cdl_get l) as"
  by (simp add: cdl_list_def cdl_foreach_ok)

section \<open>Prepending\<close>

lemma cdl_prepend_ok:
  assumes "cdl_ok l as"
  shows "cdl_ok (cdl_prepend x l) (length (cdl_nodes l) # as)"
    and "cdl_list (cdl_prepend x l) = x # cdl_list l"
proof -
  let ?a = "length (cdl_nodes l)" and ?l = "cdl_prepend x l"
  have "cdl_ok ?l (?a # as) \<and> map (cdl_get ?l) (?a # as) = x # map (cdl_get l) as"
  proof (cases "cdl_head l")
    case None
    with assms show ?thesis
      by (auto simp: cdl_ok_def cdl_prepend_def cdl_get_def Let_def)
  next
    case (Some h)
    let ?p = "last as"
    let ?ns = "cdl_nodes l @ [\<lparr>cdl_val = x, cdl_prev = ?p, cdl_next = h\<rparr>]"
    define ns' where
      "ns' = modify_at ?p (\<lambda>n. n\<lparr>cdl_next := ?a\<rparr>) (modify_at h (\<lambda>n. n\<lparr>cdl_prev := ?a\<rparr>) ?ns)"
    from Some assms obtain r where as: "as = h # r" by (cases as) (auto simp: cdl_ok_def)
    from Some assms have ok: "distinct as" "linked (cdl_nodes l) as"
      "cdl_next (cdl_nodes l ! ?p) = h" "cdl_prev (cdl_nodes l ! h) = ?p"
      and lt: "\<And>b. b \<in> set as \<Longrightarrow> b < ?a"
      by (auto simp: cdl_ok_def)
    have p: "?p \<in> set as" "?p < ?a" and h: "h < ?a" using as lt by auto
    have l': "?l = \<lparr>cdl_nodes = ns', cdl_head = Some ?a\<rparr>"
      using Some ok(4) h by (simp add: cdl_prepend_def Let_def nth_append ns'_def)
    have nxt: "cdl_next (ns' ! b) = (if b = ?p then ?a else cdl_next (?ns ! b))"
      and prv: "cdl_prev (ns' ! b) = (if b = h then ?a else cdl_prev (?ns ! b))"
      and val: "cdl_val (ns' ! b) = cdl_val (?ns ! b)" if "b \<le> ?a" for b
      using that p h by (auto simp: nth_modify_at ns'_def)
    have old: "?ns ! b = cdl_nodes l ! b" if "b \<in> set as" for b
      using lt [OF that] by (simp add: nth_append)
    have "linked ns' as"
    proof (rule linked_cong [OF ok(2)])
      fix b assume b: "b \<in> set (butlast as)"
      then have "b \<noteq> ?p" using ok(1) as
        by (metis append_butlast_last_id disjoint_iff distinct_append list.distinct(1) list.set_intros(1))
      with b in_set_butlastD [OF b] lt show "cdl_next (ns' ! b) = cdl_next (cdl_nodes l ! b)"
        by (simp add: nxt old less_imp_le)
    next
      fix b assume b: "b \<in> set (tl as)"
      with ok(1) as have "b \<noteq> h" "b \<in> set as" by auto
      with lt show "cdl_prev (ns' ! b) = cdl_prev (cdl_nodes l ! b)"
        by (simp add: prv old less_imp_le)
    qed
    moreover have "map (\<lambda>b. cdl_val (ns' ! b)) as = map (\<lambda>b. cdl_val (cdl_nodes l ! b)) as"
      using lt by (simp add: val old less_imp_le)
    moreover have "cdl_next (ns' ! ?a) = h" "cdl_prev (ns' ! ?a) = ?p" "cdl_val (ns' ! ?a) = x"
      "cdl_next (ns' ! ?p) = ?a" "cdl_prev (ns' ! h) = ?a" "length ns' = Suc ?a"
      using p h by (simp_all add: nxt prv val, simp add: ns'_def)
    ultimately show ?thesis
      using as ok(1) lt unfolding l'
      by (auto simp: cdl_ok_def cdl_get_def less_Suc_eq last_ConsR simp del: last.simps)
  qed
  then show "cdl_ok ?l (?a # as)" and "cdl_list ?l = x # cdl_list l"
    using cdl_list_ok [OF assms] by (auto simp: cdl_list_ok)
qed

section \<open>The interface of a sequence\<close>

text \<open>
  What the forwarding module relies on: an element prepended comes first, and a traversal ends
  and visits the elements in order.
\<close>

locale prepend_seq =
  fixes empty :: "'l"
    and prepend :: "'a \<Rightarrow> 'l \<Rightarrow> 'l"
    and foreach :: "'l \<Rightarrow> nat list option"
    and get :: "'l \<Rightarrow> nat \<Rightarrow> 'a"
    and to_list :: "'l \<Rightarrow> 'a list"
    and inv :: "'l \<Rightarrow> bool"
  assumes inv_empty: "inv empty"
    and to_list_empty: "to_list empty = []"
    and inv_prepend: "inv l \<Longrightarrow> inv (prepend x l)"
    and to_list_prepend: "inv l \<Longrightarrow> to_list (prepend x l) = x # to_list l"
    and foreach_to_list: "inv l \<Longrightarrow> \<exists>as. foreach l = Some as \<and> map (get l) as = to_list l"
begin

lemma foreach_returns: "inv l \<Longrightarrow> map_option (map (get l)) (foreach l) = Some (to_list l)"
  using foreach_to_list [of l] by auto

lemma foreach_empty: "map_option (map (get empty)) (foreach empty) = Some []"
  using foreach_returns [OF inv_empty] by (simp add: to_list_empty)

lemma inv_prepends: "inv l \<Longrightarrow> inv (fold prepend xs l)"
  by (induction xs arbitrary: l) (simp_all add: inv_prepend)

lemma to_list_prepends: "inv l \<Longrightarrow> to_list (fold prepend xs l) = rev xs @ to_list l"
  by (induction xs arbitrary: l) (simp_all add: inv_prepend to_list_prepend)

end

interpretation cdl: prepend_seq cdl_empty cdl_prepend cdl_foreach_safe cdl_get cdl_list cdl_inv
proof (standard, goal_cases)
  case 1
  have "cdl_ok cdl_empty []" by (simp add: cdl_ok_def cdl_empty_def)
  then show ?case by (auto simp: cdl_inv_def)
next
  case 2
  show ?case by (simp add: cdl_list_def cdl_foreach_safe_def cdl_empty_def)
next
  case (3 l x)
  then show ?case by (auto simp: cdl_inv_def dest: cdl_prepend_ok(1))
next
  case (4 l x)
  then show ?case by (auto simp: cdl_inv_def dest: cdl_prepend_ok(2))
next
  case (5 l)
  then show ?case by (auto simp: cdl_inv_def cdl_foreach_ok cdl_list_ok)
qed

end
