(* ===== verification/Text.thy ===== *)
theory Text
  imports Bridge_Prelude
begin

text \<open>
  The text conversions of the C library that the program's output and command arguments go
  through: the \<open>printf\<close> conversions it uses, \<open>inet_ntoa\<close>, \<open>atoi\<close>, \<open>sscanf("%u")\<close>,
  \<open>isdigit\<close> and \<open>strcasecmp\<close>. Strings are lists of characters without the terminating NUL.
\<close>

section \<open>Numbers\<close>

definition dec_digit :: "nat \<Rightarrow> char" where
  "dec_digit n = ''0123456789'' ! n"

fun dec_nat :: "nat \<Rightarrow> string" where
  "dec_nat n = (if n < 10 then [dec_digit n] else dec_nat (n div 10) @ [dec_digit (n mod 10)])"

declare dec_nat.simps [simp del]

definition dec_int :: "int \<Rightarrow> string" where
  "dec_int i = (if i < 0 then CHR ''-'' # dec_nat (nat (- i)) else dec_nat (nat i))"

text \<open>Field widths: \<open>%9lld\<close> pads on the left, \<open>%-8llu\<close> on the right.\<close>

definition pad_left :: "nat \<Rightarrow> string \<Rightarrow> string" where
  "pad_left n s = replicate (n - length s) CHR '' '' @ s"

definition pad_right :: "nat \<Rightarrow> string \<Rightarrow> string" where
  "pad_right n s = s @ replicate (n - length s) CHR '' ''"

text \<open>What \<open>snprintf(buf, len, ...)\<close> leaves in \<open>buf\<close>: at most \<open>len - 1\<close> characters.\<close>

definition snprintf_fit :: "nat \<Rightarrow> string \<Rightarrow> string" where
  "snprintf_fit len s = take (len - 1) s"

definition is_digit :: "char \<Rightarrow> bool" where
  "is_digit c \<longleftrightarrow> 48 \<le> (of_char c :: nat) \<and> (of_char c :: nat) \<le> 57"

definition digit_val :: "char \<Rightarrow> nat" where
  "digit_val c = of_char c - 48"

definition digits_val :: "string \<Rightarrow> nat" where
  "digits_val s = foldl (\<lambda>v c. 10 * v + digit_val c) 0 s"

definition is_space :: "char \<Rightarrow> bool" where
  "is_space c \<longleftrightarrow> c = CHR '' '' \<or> 9 \<le> (of_char c :: nat) \<and> (of_char c :: nat) \<le> 13"

text \<open>
  The number at the front of a string as \<open>strtol\<close> and \<open>strtoul\<close> read it in base 10: white
  space, a sign, digits; \<open>None\<close> when there is no digit.
\<close>

definition scan_sign :: "string \<Rightarrow> bool \<times> string" where
  "scan_sign s =
     (case s of c # cs \<Rightarrow> if c = CHR ''-'' then (True, cs)
                          else if c = CHR ''+'' then (False, cs) else (False, s)
              | [] \<Rightarrow> (False, s))"

definition scan_number :: "string \<Rightarrow> (bool \<times> nat) option" where
  "scan_number s =
     (let (neg, r) = scan_sign (dropWhile is_space s); ds = takeWhile is_digit r
      in if ds = [] then None else Some (neg, digits_val ds))"

text \<open>\<open>atoi\<close> is \<open>(int) strtol(s, NULL, 10)\<close>: clamped to \<open>long\<close>, then cut to 32 bits.\<close>

definition int32 :: "int \<Rightarrow> int" where
  "int32 i = sint (word_of_int i :: 32 word)"

definition atoi :: "string \<Rightarrow> int" where
  "atoi s =
     (case scan_number s of None \<Rightarrow> 0
      | Some (neg, v) \<Rightarrow>
          int32 (if neg then max (- (2 ^ 63)) (- int v) else min (2 ^ 63 - 1) (int v)))"

text \<open>\<open>sscanf(s, "%u", &x)\<close>: \<open>None\<close> leaves \<open>x\<close> alone; otherwise \<open>strtoul\<close> cut to 32 bits.\<close>

definition scan_u32 :: "string \<Rightarrow> u32 option" where
  "scan_u32 s =
     (case scan_number s of None \<Rightarrow> None
      | Some (neg, v) \<Rightarrow>
          Some (word_of_int (if 2 ^ 64 \<le> v then 2 ^ 64 - 1 else if neg then - int v else int v)))"

section \<open>Addresses and case\<close>

text \<open>\<open>inet_ntoa\<close>: the address is in network byte order, the first octet in the low byte.\<close>

definition octet :: "u32 \<Rightarrow> nat \<Rightarrow> nat" where
  "octet a i = unat (drop_bit (8 * i) a AND 0xff)"

definition inet_ntoa :: "u32 \<Rightarrow> string" where
  "inet_ntoa a = dec_nat (octet a 0) @ ''.'' @ dec_nat (octet a 1) @ ''.''
     @ dec_nat (octet a 2) @ ''.'' @ dec_nat (octet a 3)"

definition ntohs :: "u16 \<Rightarrow> u16" where
  "ntohs p = push_bit 8 p OR drop_bit 8 p"

definition to_lower :: "char \<Rightarrow> char" where
  "to_lower c = (if 65 \<le> (of_char c :: nat) \<and> (of_char c :: nat) \<le> 90
                 then char_of ((of_char c :: nat) + 32) else c)"

text \<open>\<open>strcasecmp(a, b) == 0\<close> in the C locale.\<close>

definition strcaseeq :: "string \<Rightarrow> string \<Rightarrow> bool" where
  "strcaseeq a b \<longleftrightarrow> map to_lower a = map to_lower b"

section \<open>Reading back what was printed\<close>

lemma digit_val_dec_digit: "n < 10 \<Longrightarrow> digit_val (dec_digit n) = n"
proof -
  assume "n < 10"
  then have "n \<in> {0, 1, 2, 3, 4, 5, 6, 7, 8, 9}" by auto
  then show ?thesis by (auto simp: digit_val_def dec_digit_def)
qed

lemma is_digit_dec_digit: "n < 10 \<Longrightarrow> is_digit (dec_digit n)"
proof -
  assume "n < 10"
  then have "n \<in> {0, 1, 2, 3, 4, 5, 6, 7, 8, 9}" by auto
  then show ?thesis by (auto simp: is_digit_def dec_digit_def)
qed

lemma digits_val_snoc: "digits_val (s @ [c]) = 10 * digits_val s + digit_val c"
  by (simp add: digits_val_def)

lemma digits_val_dec_nat: "digits_val (dec_nat n) = n"
proof (induction n rule: dec_nat.induct)
  case (1 n)
  show ?case
  proof (cases "n < 10")
    case True
    then show ?thesis
      by (simp add: dec_nat.simps [of n] digits_val_def digit_val_dec_digit)
  next
    case False
    with 1 show ?thesis
      by (simp add: dec_nat.simps [of n] digits_val_snoc digit_val_dec_digit)
  qed
qed

lemma dec_nat_digits: "\<forall>c \<in> set (dec_nat n). is_digit c"
proof (induction n rule: dec_nat.induct)
  case (1 n)
  then show ?case by (cases "n < 10") (auto simp: dec_nat.simps [of n] is_digit_dec_digit)
qed

lemma dec_nat_nonempty [simp]: "dec_nat n \<noteq> []"
  by (subst dec_nat.simps) simp

lemma dec_nat_inj: "dec_nat m = dec_nat n \<longleftrightarrow> m = n"
  using digits_val_dec_nat by metis

lemma length_pad_left [simp]: "length (pad_left n s) = max n (length s)"
  by (simp add: pad_left_def)

lemma length_pad_right [simp]: "length (pad_right n s) = max n (length s)"
  by (simp add: pad_right_def)

text \<open>\<open>atoi\<close> of a printed number is that number, as long as it fits an \<open>int\<close>.\<close>

lemma digit_not_space: "is_digit c \<Longrightarrow> \<not> is_space c"
  by (auto simp: is_digit_def is_space_def)

lemma digit_not_sign: "is_digit c \<Longrightarrow> c \<noteq> CHR ''-'' \<and> c \<noteq> CHR ''+''"
  by (auto simp: is_digit_def)

lemma scan_number_digits:
  assumes "s \<noteq> []" and "\<forall>c \<in> set s. is_digit c"
  shows "scan_number s = Some (False, digits_val s)"
proof -
  obtain c cs where s: "s = c # cs" using assms(1) by (cases s) auto
  then have "is_digit c" using assms(2) by simp
  then have "dropWhile is_space s = s" "scan_sign s = (False, s)"
    using s by (auto simp: scan_sign_def digit_not_space dest: digit_not_sign)
  moreover have "takeWhile is_digit s = s" using assms(2) by simp
  ultimately show ?thesis using assms(1) by (simp add: scan_number_def Let_def del: takeWhile_eq_all_conv)
qed

lemma int32_small: "- (2 ^ 31) \<le> i \<Longrightarrow> i < 2 ^ 31 \<Longrightarrow> int32 i = i"
  by (simp add: int32_def sint_sbintrunc' signed_take_bit_int_eq_self)

lemma atoi_digits:
  "s \<noteq> [] \<Longrightarrow> \<forall>c \<in> set s. is_digit c \<Longrightarrow> digits_val s < 2 ^ 31 \<Longrightarrow> atoi s = int (digits_val s)"
  by (simp add: atoi_def scan_number_digits int32_small)

end
