(* ===== verification/Ether.thy ===== *)
theory Ether
  imports Bridge_Prelude Text
begin

text \<open>
  Ethernet addresses and headers: \<open>ether_addr_to_str\<close> of \<open>common.h\<close> and the address predicates
  of \<open>wlan_br_server/wlan_br_forward.c\<close>. The C code reads an address through \<open>u16\<close> pointers;
  \<open>load_u16\<close> is that read on the little-endian machine the program is built for. The lemmas
  give each predicate its meaning on the six bytes.
\<close>

section \<open>Reading and testing addresses\<close>

definition load_u16 :: "bytes \<Rightarrow> nat \<Rightarrow> u16" where
  "load_u16 b i = ucast (b ! i) OR push_bit 8 (ucast (b ! (i + 1)))"

definition is_multicast_ether_addr :: "bytes \<Rightarrow> bool" where
  "is_multicast_ether_addr addr = (0x01 AND load_u16 addr 0 \<noteq> 0)"

definition is_zero_ether_addr :: "bytes \<Rightarrow> bool" where
  "is_zero_ether_addr addr = ((load_u16 addr 0 OR load_u16 addr 2 OR load_u16 addr 4) = 0)"

definition is_broadcast_ether_addr :: "bytes \<Rightarrow> bool" where
  "is_broadcast_ether_addr addr =
     ((load_u16 addr 0 AND load_u16 addr 2 AND load_u16 addr 4) = 0xffff)"

definition is_unicast_ether_addr :: "bytes \<Rightarrow> bool" where
  "is_unicast_ether_addr addr = (\<not> is_multicast_ether_addr addr)"

definition is_valid_ether_addr :: "bytes \<Rightarrow> bool" where
  "is_valid_ether_addr addr = (\<not> is_multicast_ether_addr addr \<and> \<not> is_zero_ether_addr addr)"

definition ether_addr_equal :: "bytes \<Rightarrow> bytes \<Rightarrow> bool" where
  "ether_addr_equal a b =
     (((load_u16 a 0 XOR load_u16 b 0) OR (load_u16 a 2 XOR load_u16 b 2)
        OR (load_u16 a 4 XOR load_u16 b 4)) = 0)"

definition store_u16 :: "nat \<Rightarrow> u16 \<Rightarrow> bytes \<Rightarrow> bytes" where
  "store_u16 i v b = b[i := ucast v, i + 1 := ucast (drop_bit 8 v)]"

definition ether_addr_copy :: "bytes \<Rightarrow> bytes \<Rightarrow> bytes" where
  "ether_addr_copy dst src =
     store_u16 4 (load_u16 src 4) (store_u16 2 (load_u16 src 2) (store_u16 0 (load_u16 src 0) dst))"

section \<open>Frames\<close>

text \<open>The fields of \<open>struct ethhdr\<close>, read from the start of a receive buffer.\<close>

definition h_dest :: "bytes \<Rightarrow> bytes" where
  "h_dest buf = take ETH_ALEN buf"

definition h_source :: "bytes \<Rightarrow> bytes" where
  "h_source buf = take ETH_ALEN (drop ETH_ALEN buf)"

definition ETH_HLEN :: nat where
  "ETH_HLEN = 14"

section \<open>Printing an address\<close>

definition hex_digit :: "nat \<Rightarrow> char" where
  "hex_digit n = ''0123456789abcdef'' ! n"

text \<open>The conversion \<open>%02x\<close> of one byte.\<close>

definition hex2 :: "u8 \<Rightarrow> string" where
  "hex2 b = [hex_digit (unat b div 16), hex_digit (unat b mod 16)]"

definition mac_string :: "bytes \<Rightarrow> string" where
  "mac_string a = hex2 (a ! 0) @ '':'' @ hex2 (a ! 1) @ '':'' @ hex2 (a ! 2) @ '':''
     @ hex2 (a ! 3) @ '':'' @ hex2 (a ! 4) @ '':'' @ hex2 (a ! 5)"

text \<open>\<open>has_buf\<close> is \<open>buf != NULL\<close>; the result \<open>None\<close> is the NULL the function returns.\<close>

definition ether_addr_to_str :: "bytes \<Rightarrow> bool \<Rightarrow> int \<Rightarrow> string option" where
  "ether_addr_to_str addr has_buf len =
     (if \<not> has_buf \<or> len < 17 then None
      else Some (snprintf_fit (nat len) (mac_string addr)))"

section \<open>What the predicates mean\<close>

lemma bit_load_u16:
  "bit (load_u16 b i) n \<longleftrightarrow> n < 8 \<and> bit (b ! i) n \<or> 8 \<le> n \<and> n < 16 \<and> bit (b ! (i + 1)) (n - 8)"
proof -
  have "bit (b ! i) n \<Longrightarrow> n < 8" and "bit (b ! (i + 1)) m \<Longrightarrow> m < 8" for m
    by (auto dest: bit_imp_le_length)
  then show ?thesis
    by (auto simp: load_u16_def bit_simps)
qed

lemma word8_eq_iff: "(x :: u8) = y \<longleftrightarrow> (\<forall>n < 8. bit x n = bit y n)"
  by (auto intro!: bit_word_eqI)

lemma word16_eq_iff: "(x :: u16) = y \<longleftrightarrow> (\<forall>n < 16. bit x n = bit y n)"
  by (auto intro!: bit_word_eqI)

lemma load_u16_eq_iff:
  "load_u16 a i = load_u16 b j \<longleftrightarrow> a ! i = b ! j \<and> a ! (i + 1) = b ! (j + 1)"
proof
  assume eq: "load_u16 a i = load_u16 b j"
  have "bit (a ! i) n = bit (b ! j) n" if "n < 8" for n
    using that arg_cong [OF eq, of "\<lambda>w. bit w n"] by (simp add: bit_load_u16)
  moreover have "bit (a ! (i + 1)) n = bit (b ! (j + 1)) n" if "n < 8" for n
    using that arg_cong [OF eq, of "\<lambda>w. bit w (n + 8)"] by (simp add: bit_load_u16)
  ultimately show "a ! i = b ! j \<and> a ! (i + 1) = b ! (j + 1)"
    by (simp add: word8_eq_iff)
qed (simp add: load_u16_def)

lemma is_multicast_bit: "is_multicast_ether_addr addr \<longleftrightarrow> bit (addr ! 0) 0"
proof -
  have "(1 :: u16) AND load_u16 addr 0 = of_bool (bit (load_u16 addr 0) 0)"
    by (simp add: one_and_eq mod_2_eq_odd bit_0)
  then show ?thesis by (simp add: is_multicast_ether_addr_def bit_load_u16)
qed

lemma nth_six:
  assumes "length a = 6"
  shows "a = [a ! 0, a ! 1, a ! 2, a ! 3, a ! 4, a ! 5]"
  using assms by (auto simp: eval_nat_numeral length_Suc_conv)

lemma six_eq_iff:
  assumes "length a = 6" and "length b = 6"
  shows "a = b \<longleftrightarrow> a ! 0 = b ! 0 \<and> a ! 1 = b ! 1 \<and> a ! 2 = b ! 2 \<and> a ! 3 = b ! 3
    \<and> a ! 4 = b ! 4 \<and> a ! 5 = b ! 5"
  using nth_six [OF assms(1)] nth_six [OF assms(2)] by (metis (no_types, lifting))

lemma xor_eq_0_iff: "(x :: 'a::len word) XOR y = 0 \<longleftrightarrow> x = y"
  by (metis xor.assoc xor.right_neutral xor_self_eq)

lemma ether_addr_equal_iff:
  assumes "length a = 6" and "length b = 6"
  shows "ether_addr_equal a b \<longleftrightarrow> a = b"
  by (simp add: ether_addr_equal_def or_eq_0_iff xor_eq_0_iff load_u16_eq_iff six_eq_iff [OF assms])

lemma load_u16_eq_0_iff: "load_u16 a i = 0 \<longleftrightarrow> a ! i = 0 \<and> a ! (i + 1) = 0"
  using load_u16_eq_iff [of a i "[0, 0]" 0] by (simp add: load_u16_def)

lemma is_zero_iff: "length a = 6 \<Longrightarrow> is_zero_ether_addr a \<longleftrightarrow> a = [0, 0, 0, 0, 0, 0]"
  by (simp add: is_zero_ether_addr_def or_eq_0_iff load_u16_eq_0_iff six_eq_iff)

lemma word16_and3_full:
  "(x :: u16) AND y AND z = 0xffff \<longleftrightarrow> x = 0xffff \<and> y = 0xffff \<and> z = 0xffff"
proof -
  have "(0xffff :: u16) = - 1" by simp
  moreover have "(u :: u16) AND v = - 1 \<longleftrightarrow> u = - 1 \<and> v = - 1" for u v
    by (auto simp: word16_eq_iff bit_simps)
  ultimately show ?thesis by metis
qed

lemma load_u16_full: "load_u16 a i = 0xffff \<longleftrightarrow> a ! i = 0xff \<and> a ! (i + 1) = 0xff"
  using load_u16_eq_iff [of a i "[0xff, 0xff]" 0] by (simp add: load_u16_def)

lemma is_broadcast_iff:
  "length a = 6 \<Longrightarrow> is_broadcast_ether_addr a \<longleftrightarrow> a = replicate 6 0xff"
  by (simp add: is_broadcast_ether_addr_def word16_and3_full load_u16_full six_eq_iff
      eval_nat_numeral)

lemma broadcast_is_multicast: "is_broadcast_ether_addr a \<Longrightarrow> is_multicast_ether_addr a"
  by (simp add: is_broadcast_ether_addr_def word16_and3_full load_u16_full is_multicast_bit)

lemma is_valid_iff:
  "length a = 6 \<Longrightarrow> is_valid_ether_addr a \<longleftrightarrow> \<not> bit (a ! 0) 0 \<and> a \<noteq> replicate 6 0"
  by (simp add: is_valid_ether_addr_def is_multicast_bit is_zero_iff eval_nat_numeral)

lemma ucast_load_u16:
  "(ucast (load_u16 s i) :: u8) = s ! i" "(ucast (drop_bit 8 (load_u16 s i)) :: u8) = s ! (i + 1)"
  by (auto simp: word8_eq_iff bit_simps bit_load_u16)

text \<open>The copy writes the six bytes of the source over the first six of the destination.\<close>

lemma ether_addr_copy_eq:
  assumes "6 \<le> length dst" and "length src = 6"
  shows "ether_addr_copy dst src = src @ drop 6 dst"
proof -
  obtain a b c d e f r where "dst = a # b # c # d # e # f # r"
    using assms(1) by (auto simp: eval_nat_numeral Suc_le_length_iff)
  moreover obtain t u v x y z where "src = [t, u, v, x, y, z]"
    using nth_six [OF assms(2)] by blast
  ultimately show ?thesis
    unfolding ether_addr_copy_def store_u16_def ucast_load_u16 by (simp add: eval_nat_numeral)
qed

lemma frame_addresses:
  "12 \<le> length buf \<Longrightarrow> length (h_dest buf) = 6" "12 \<le> length buf \<Longrightarrow> length (h_source buf) = 6"
  by (simp_all add: h_dest_def h_source_def ETH_ALEN_def)

section \<open>The printed address\<close>

lemma hex_digit_inj: "m < 16 \<Longrightarrow> n < 16 \<Longrightarrow> hex_digit m = hex_digit n \<longleftrightarrow> m = n"
  using nth_eq_iff_index_eq [of "''0123456789abcdef''" m n] by (simp add: hex_digit_def)

lemma length_hex2 [simp]: "length (hex2 b) = 2"
  by (simp add: hex2_def)

lemma hex2_inj: "hex2 a = hex2 b \<longleftrightarrow> a = b"
proof
  assume "hex2 a = hex2 b"
  moreover have "unat x < 256" for x :: u8
    using unsigned_less [of x] by simp
  then have "unat x div 16 < 16" for x :: u8
    by (intro less_mult_imp_div_less) simp
  ultimately have "unat a div 16 = unat b div 16" "unat a mod 16 = unat b mod 16"
    by (simp_all add: hex2_def hex_digit_inj)
  then have "unat a = unat b" by (metis div_mult_mod_eq)
  then show "a = b" by (simp add: word_unat_eq_iff)
qed simp

lemma length_mac_string [simp]: "length (mac_string a) = 17"
  by (simp add: mac_string_def)

lemma mac_string_inj:
  assumes "length a = 6" and "length b = 6" and "mac_string a = mac_string b"
  shows "a = b"
  using assms(3) by (simp add: mac_string_def hex2_inj six_eq_iff [OF assms(1,2)])

end
