(* ===== verification/Fdb.thy ===== *)
theory Fdb
  imports Bridge_Prelude Uthash
begin

text \<open>
  The forwarding database, \<open>wlan_br_server/wlan_fdb.c\<close>: a uthash table from a MAC address to
  the peer behind which it was first seen. An entry is never moved, aged or deleted.
\<close>

record wlan_fdb_entry =
  key_remote_mac :: bytes
  fdb_peer_addr :: sockaddr_in
  device_id :: bytes
  seq_id :: bytes

type_synonym fdb = "wlan_fdb_entry uthash"

definition sizeof_wlan_fdb_entry :: nat where
  "sizeof_wlan_fdb_entry = 208"

definition wlan_br_find :: "fdb \<Rightarrow> bytes \<Rightarrow> nat option" where
  "wlan_br_find h remote_mac = hash_find h (take ETH_ALEN remote_mac)"

text \<open>
  The result is 0 for a known address, -1 when the allocation fails and 1 for a new entry;
  \<open>None\<close> is the exit of the process when the hash table itself cannot get memory.
\<close>

definition wlan_fdb_update ::
  "'w allocator \<Rightarrow> sockaddr_in \<Rightarrow> bytes \<Rightarrow> fdb \<Rightarrow> 'w \<Rightarrow> (int \<times> fdb \<times> 'w) option" where
  "wlan_fdb_update calloc peer_addr remote_mac h w =
     (case wlan_br_find h remote_mac of
        Some _ \<Rightarrow> Some (0, h, w)
      | None \<Rightarrow>
          (let (ok, w1) = calloc sizeof_wlan_fdb_entry w
           in if \<not> ok then Some (-1, h, w1)
              else do {
                let mac = take ETH_ALEN remote_mac;
                (h', w2) \<leftarrow> hash_add calloc mac
                  \<lparr>key_remote_mac = mac, fdb_peer_addr = peer_addr,
                   device_id = replicate 64 0, seq_id = replicate 64 0\<rparr> h w1;
                Some (1, h', w2)
              }))"

section \<open>The address table it implements\<close>

text \<open>The abstract value: which peer each known MAC address was learned from.\<close>

definition fdb_map :: "fdb \<Rightarrow> (bytes \<rightharpoonup> sockaddr_in)" where
  "fdb_map h mac = map_option fdb_peer_addr (map_of (ut_entries h) mac)"

definition fdb_inv :: "fdb \<Rightarrow> bool" where
  "fdb_inv h \<longleftrightarrow> ut_inv h \<and> (\<forall>(k, e) \<in> set (ut_entries h). key_remote_mac e = k \<and> length k = 6)"

lemma fdb_inv_empty: "fdb_inv uthash_empty"
  by (simp add: fdb_inv_def ut.inv_empty ut.entries_empty)

lemma fdb_map_empty: "fdb_map uthash_empty = Map.empty"
  by (auto simp: fdb_map_def ut.entries_empty)

lemma fdb_map_find:
  "fdb_inv h \<Longrightarrow> fdb_map h mac = map_option (\<lambda>a. fdb_peer_addr (ut_deref h a)) (hash_find h mac)"
  using ut.find_entries [of h mac]
  by (auto simp: fdb_map_def fdb_inv_def option.map_comp comp_def simp flip: ut.find_entries)

lemma wlan_br_find_map:
  assumes "fdb_inv h"
  shows "map_option (\<lambda>a. fdb_peer_addr (ut_deref h a)) (wlan_br_find h mac)
    = fdb_map h (take ETH_ALEN mac)"
  by (simp add: wlan_br_find_def fdb_map_find [OF assms])

lemma wlan_br_find_key:
  assumes "fdb_inv h" and "wlan_br_find h mac = Some a"
  shows "key_remote_mac (ut_deref h a) = take ETH_ALEN mac"
proof -
  from assms have "map_of (ut_entries h) (take ETH_ALEN mac) = Some (ut_deref h a)"
    by (intro ut.find_deref) (auto simp: fdb_inv_def wlan_br_find_def)
  then have "(take ETH_ALEN mac, ut_deref h a) \<in> set (ut_entries h)" by (rule map_of_SomeD)
  with assms(1) show ?thesis by (auto simp: fdb_inv_def)
qed

text \<open>The three outcomes of an update.\<close>

lemma wlan_fdb_update_cases:
  assumes "wlan_fdb_update malloc p mac h w = Some (r, h', w')" and "fdb_inv h"
  obtains (known) q where "fdb_map h (take ETH_ALEN mac) = Some q" "r = 0" "h' = h" "w' = w"
  | (nomem) "fdb_map h (take ETH_ALEN mac) = None" "r = -1" "h' = h"
      "malloc sizeof_wlan_fdb_entry w = (False, w')"
  | (added) w1 where "fdb_map h (take ETH_ALEN mac) = None" "r = 1"
      "hash_find h (take ETH_ALEN mac) = None"
      "malloc sizeof_wlan_fdb_entry w = (True, w1)"
      "hash_add malloc (take ETH_ALEN mac)
         \<lparr>key_remote_mac = take ETH_ALEN mac, fdb_peer_addr = p,
          device_id = replicate 64 0, seq_id = replicate 64 0\<rparr> h w1 = Some (h', w')"
proof (cases "hash_find h (take ETH_ALEN mac)")
  case (Some a)
  with assms fdb_map_find [OF assms(2), of "take ETH_ALEN mac"] show ?thesis
    by (intro known) (auto simp: wlan_fdb_update_def wlan_br_find_def)
next
  case None
  then have m: "fdb_map h (take ETH_ALEN mac) = None"
    by (simp add: fdb_map_find [OF assms(2)])
  obtain ok w1 where mal: "malloc sizeof_wlan_fdb_entry w = (ok, w1)" by fastforce
  with None m assms(1) show ?thesis
    by (cases ok) (auto simp: wlan_fdb_update_def wlan_br_find_def Let_def
        Option.bind_eq_Some_conv intro: nomem added)
qed

lemma wlan_fdb_update_inv:
  assumes "mem_bounded malloc" and "fdb_inv h" and "6 \<le> length mac"
    and "wlan_fdb_update malloc p mac h w = Some (r, h', w')"
  shows "fdb_inv h'"
  using assms(4,2)
proof (cases rule: wlan_fdb_update_cases)
  case (added w1)
  from assms(2) have inv: "ut_inv h" by (simp add: fdb_inv_def)
  from ut.inv_add [OF assms(1) inv added(3,5)] ut.entries_add [OF inv added(5)] assms(2,3)
  show ?thesis by (auto simp: fdb_inv_def ETH_ALEN_def)
qed (use assms(2) in simp_all)

lemma wlan_fdb_update_map:
  assumes "fdb_inv h" and "wlan_fdb_update malloc p mac h w = Some (r, h', w')"
  shows "fdb_map h' = (if r = 1 then (fdb_map h)(take ETH_ALEN mac \<mapsto> p) else fdb_map h)"
  using assms(2,1)
proof (cases rule: wlan_fdb_update_cases)
  case (added w1)
  from assms(1) have inv: "ut_inv h" by (simp add: fdb_inv_def)
  from ut.lookup_add [OF inv added(3,5)] added(2) show ?thesis
    by (auto simp: fdb_map_def fun_eq_iff)
qed simp_all

lemma wlan_fdb_update_result:
  assumes "fdb_inv h" and "wlan_fdb_update malloc p mac h w = Some (r, h', w')"
  shows "r = 0 \<longleftrightarrow> fdb_map h (take ETH_ALEN mac) \<noteq> None" and "r \<in> {0, -1, 1}"
  using assms(2,1) by (cases rule: wlan_fdb_update_cases; simp)+

lemma wlan_fdb_update_keys:
  assumes "fdb_inv h" and "wlan_fdb_update malloc p mac h w = Some (r, h', w')"
  shows "map fst (ut_entries h') = map fst (ut_entries h) @ (if r = 1 then [take ETH_ALEN mac] else [])"
  using assms(2,1)
proof (cases rule: wlan_fdb_update_cases)
  case (added w1)
  from assms(1) have inv: "ut_inv h" by (simp add: fdb_inv_def)
  from ut.entries_add [OF inv added(5)] added(2) show ?thesis by simp
qed simp_all

lemma wlan_fdb_update_frame:
  assumes "\<And>n w. f (snd (malloc n w)) = f w" and "wlan_fdb_update malloc p mac h w = Some (r, h', w')"
  shows "f w' = f w"
proof (cases "wlan_br_find h mac")
  case (Some a)
  with assms(2) show ?thesis by (simp add: wlan_fdb_update_def)
next
  case None
  obtain ok w1 where m: "malloc sizeof_wlan_fdb_entry w = (ok, w1)" by fastforce
  then have "f w1 = f w" using assms(1) [of sizeof_wlan_fdb_entry w] by simp
  note frame = hash_add_frame [where f = f and m = malloc, OF assms(1)]
  from None m assms(2) \<open>f w1 = f w\<close> show ?thesis
    by (cases ok) (auto simp: wlan_fdb_update_def Let_def Option.bind_eq_Some_conv dest!: frame)
qed

text \<open>
  With memory, and room for every address of a set that the database does not know yet, the
  update returns and there still is room.
\<close>

definition fdb_room :: "bytes set \<Rightarrow> fdb \<Rightarrow> bool" where
  "fdb_room M h \<longleftrightarrow> ut_room (card {m \<in> M. fdb_map h m = None}) h"

lemma wlan_fdb_update_returns:
  assumes "mem_ok malloc" and "fdb_inv h" and "fdb_room M h" and "take ETH_ALEN mac \<in> M" and "finite M"
  shows "\<exists>r h' w'. wlan_fdb_update malloc p mac h w = Some (r, h', w') \<and> fdb_room M h'"
proof (cases "wlan_br_find h mac")
  case None
  let ?m = "take ETH_ALEN mac"
  have new: "fdb_map h ?m = None" using wlan_br_find_map [OF assms(2), of mac] None by simp
  have "{m \<in> M. fdb_map h m = None} = insert ?m {m \<in> M. m \<noteq> ?m \<and> fdb_map h m = None}"
    using new assms(4) by auto
  then have card: "card {m \<in> M. fdb_map h m = None} = Suc (card {m \<in> M. m \<noteq> ?m \<and> fdb_map h m = None})"
    using assms(5) by simp
  have inv: "ut_inv h" and room: "ut_room (Suc (card {m \<in> M. m \<noteq> ?m \<and> fdb_map h m = None})) h"
    using assms(2,3) card by (simp_all add: fdb_inv_def fdb_room_def)
  have "fst (malloc sizeof_wlan_fdb_entry w)"
    using assms(1) by (simp add: mem_ok_def sizeof_wlan_fdb_entry_def)
  then obtain w1 where m: "malloc sizeof_wlan_fdb_entry w = (True, w1)"
    by (cases "malloc sizeof_wlan_fdb_entry w") auto
  let ?e = "\<lparr>key_remote_mac = ?m, fdb_peer_addr = p,
      device_id = replicate 64 0, seq_id = replicate 64 0\<rparr>"
  obtain h' w' where "hash_add malloc ?m ?e h w1 = Some (h', w')"
    and r: "ut_room (card {m \<in> M. m \<noteq> ?m \<and> fdb_map h m = None}) h'"
    using hash_add_returns [OF assms(1) inv room] by blast
  with None m have u: "wlan_fdb_update malloc p mac h w = Some (1, h', w')"
    by (simp add: wlan_fdb_update_def Let_def)
  have "{m \<in> M. fdb_map h' m = None} = {m \<in> M. m \<noteq> ?m \<and> fdb_map h m = None}"
    using wlan_fdb_update_map [OF assms(2) u] by auto
  with u r show ?thesis by (simp add: fdb_room_def)
qed (use assms(3) in \<open>simp add: wlan_fdb_update_def\<close>)

lemma wlan_fdb_update_nomem:
  assumes "mem_ok malloc" and "wlan_fdb_update malloc p mac h w = Some (r, h', w')"
  shows "r \<noteq> -1"
proof -
  have "fst (malloc sizeof_wlan_fdb_entry w)"
    using assms(1) by (simp add: mem_ok_def sizeof_wlan_fdb_entry_def)
  with assms(2) show ?thesis
    by (auto simp: wlan_fdb_update_def Let_def split_beta Option.bind_eq_Some_conv split: option.splits)
qed

end
