(* ===== verification/Floats.thy ===== *)
theory Floats
  imports Complex_Main Text
begin

text \<open>
  The floating-point arithmetic of \<open>show_throuthput\<close>: IEEE 754 \<open>double\<close> and \<open>float\<close> values
  as rationals, every operation rounded to nearest, ties to even, at 53 or 24 bits. The values
  that occur are zero or between \<open>2 ^ -64\<close> and \<open>2 ^ 94\<close>, so neither overflow nor
  subnormal numbers arise, and signs do not occur.
\<close>

section \<open>Rounding\<close>

fun ilog2 :: "nat \<Rightarrow> nat" where
  "ilog2 n = (if n < 2 then 0 else Suc (ilog2 (n div 2)))"

declare ilog2.simps [simp del]

definition pow2 :: "int \<Rightarrow> rat" where
  "pow2 e = (if 0 \<le> e then 2 ^ nat e else 1 / 2 ^ nat (- e))"

definition round_half_even :: "rat \<Rightarrow> int" where
  "round_half_even x =
     (let f = \<lfloor>x\<rfloor>; r = x - of_int f
      in if r < 1 / 2 then f else if 1 / 2 < r then f + 1 else if even f then f else f + 1)"

text \<open>The exponent \<open>e\<close> with \<open>2 ^ e \<le> q < 2 ^ (e + 1)\<close> of a positive rational.\<close>

definition exponent :: "rat \<Rightarrow> int" where
  "exponent q =
     (let (n, d) = quotient_of q; e = int (ilog2 (nat n)) - int (ilog2 (nat d))
      in if q < pow2 e then e - 1 else e)"

definition round_bits :: "nat \<Rightarrow> rat \<Rightarrow> rat" where
  "round_bits p q =
     (if q \<le> 0 then 0
      else (let ulp = pow2 (exponent q - int p + 1)
            in of_int (round_half_even (q / ulp)) * ulp))"

definition to_double :: "rat \<Rightarrow> rat" where
  "to_double q = round_bits 53 q"

definition to_float :: "rat \<Rightarrow> rat" where
  "to_float q = round_bits 24 q"

definition u64_to_double :: "u64 \<Rightarrow> rat" where
  "u64_to_double x = to_double (of_nat (unat x))"

text \<open>The conversion back truncates; beyond \<open>2 ^ 64\<close> C leaves it undefined.\<close>

definition double_to_u64 :: "rat \<Rightarrow> u64" where
  "double_to_u64 q = word_of_int \<lfloor>q\<rfloor>"

text \<open>The conversion \<open>%.3f\<close>.\<close>

definition fixed3 :: "rat \<Rightarrow> string" where
  "fixed3 q =
     (let m = nat (round_half_even (q * 1000)); f = m mod 1000
      in dec_nat (m div 1000) @ ''.''
         @ [dec_digit (f div 100), dec_digit (f div 10 mod 10), dec_digit (f mod 10)])"

section \<open>Exactness\<close>

lemma round_half_even_int [simp]: "round_half_even (of_int i) = i"
  by (simp add: round_half_even_def)

lemma round_half_even_of_nat [simp]: "round_half_even (of_nat n) = int n"
  using round_half_even_int [of "int n"] by (simp del: round_half_even_int)

lemma ilog2_bounds: "0 < n \<Longrightarrow> 2 ^ ilog2 n \<le> n \<and> n < 2 ^ Suc (ilog2 n)"
proof (induction n rule: ilog2.induct)
  case (1 n)
  show ?case
  proof (cases "n < 2")
    case True
    with 1(2) show ?thesis by (simp add: ilog2.simps [of n])
  next
    case False
    with 1 have "2 ^ ilog2 (n div 2) \<le> n div 2 \<and> n div 2 < 2 ^ Suc (ilog2 (n div 2))" by simp
    with False show ?thesis by (simp add: ilog2.simps [of n]) linarith
  qed
qed

lemma ilog2_less:
  assumes "0 < n" and "n < 2 ^ k"
  shows "ilog2 n < k"
proof -
  from ilog2_bounds [OF assms(1)] assms(2) have "(2::nat) ^ ilog2 n < 2 ^ k" by linarith
  then show ?thesis by simp
qed

lemma exponent_of_nat:
  assumes "0 < n"
  shows "exponent (of_nat n) = int (ilog2 n)"
proof -
  have "quotient_of (of_nat n) = (int n, 1)"
    by (rule quotient_of_rat_of_nat)
  moreover have "ilog2 1 = 0" by (simp add: ilog2.simps)
  moreover have "of_nat (2 ^ ilog2 n) \<le> (of_nat n :: rat)"
    using ilog2_bounds [OF assms] by (simp only: of_nat_le_iff)
  then have "pow2 (int (ilog2 n)) \<le> of_nat n" by (simp add: pow2_def)
  ultimately show ?thesis by (simp add: exponent_def Let_def)
qed

lemma round_bits_exact:
  assumes "n < 2 ^ p"
  shows "round_bits p (of_nat n) = of_nat n"
proof (cases "n = 0")
  case True
  then show ?thesis by (simp add: round_bits_def)
next
  case False
  then have e: "exponent (of_nat n) = int (ilog2 n)" and l: "ilog2 n < p"
    using assms by (simp_all add: exponent_of_nat ilog2_less)
  define k where "k = p - Suc (ilog2 n)"
  have ulp: "pow2 (int (ilog2 n) - int p + 1) = 1 / 2 ^ k"
  proof (cases "k = 0")
    case True
    with l have "int (ilog2 n) - int p + 1 = 0" by (simp add: k_def)
    with True show ?thesis by (simp add: pow2_def)
  next
    case False
    with l have "int (ilog2 n) - int p + 1 = - int k" by (simp add: k_def)
    with False show ?thesis by (simp add: pow2_def)
  qed
  have "round_half_even (of_nat n / (1 / 2 ^ k)) = int (n * 2 ^ k)"
    using round_half_even_of_nat [of "n * 2 ^ k"] by (simp del: round_half_even_of_nat)
  with False show ?thesis by (simp add: round_bits_def Let_def e ulp)
qed

lemma to_double_exact: "n < 2 ^ 53 \<Longrightarrow> to_double (of_nat n) = of_nat n"
  by (simp add: to_double_def round_bits_exact)

lemma to_double_zero [simp]: "to_double 0 = 0"
  by (simp add: to_double_def round_bits_def)

lemma double_to_u64_of_nat: "double_to_u64 (of_nat n) = of_nat n"
  by (simp add: double_to_u64_def)

end
