(* ===== verification/Statistics.thy ===== *)
theory Statistics
  imports Bridge_Prelude Uthash Text Floats Os_Interface
begin

text \<open>
  The per-address traffic counters, \<open>wlan_br_server/statistics.c\<close>: a uthash table from an IPv4
  address to its current counters and to those of the last throughput report. Counters are
  64 bits wide and wrap.
\<close>

section \<open>Counters\<close>

record tatistics =
  rx_packets :: u64
  rx_bytes :: u64
  rx_err :: u64
  tx_packets :: u64
  tx_bytes :: u64
  tx_err :: u64
  time_ns :: u64

record wlan_ip_statistics =
  key_ip4_addr :: u32
  curr_stat :: tatistics
  prev_stat :: tatistics

type_synonym ip_stats = "wlan_ip_statistics uthash"

definition zero_stat :: tatistics where
  "zero_stat = \<lparr>rx_packets = 0, rx_bytes = 0, rx_err = 0, tx_packets = 0, tx_bytes = 0,
                tx_err = 0, time_ns = 0\<rparr>"

definition new_ip_stat :: "u32 \<Rightarrow> wlan_ip_statistics" where
  "new_ip_stat ip = \<lparr>key_ip4_addr = ip, curr_stat = zero_stat, prev_stat = zero_stat\<rparr>"

definition sizeof_wlan_ip_statistics :: nat where
  "sizeof_wlan_ip_statistics = 176"

text \<open>The four bytes of an \<open>int\<close> key, as \<open>HASH_FIND_INT\<close> hashes them.\<close>

definition int_key :: "u32 \<Rightarrow> bytes" where
  "int_key x = [ucast x, ucast (drop_bit 8 x), ucast (drop_bit 16 x), ucast (drop_bit 24 x)]"

definition wlan_ip_static_find :: "ip_stats \<Rightarrow> u32 \<Rightarrow> nat option" where
  "wlan_ip_static_find h ip = hash_find h (int_key ip)"

text \<open>
  The part the two update functions share: the address of the entry for \<open>ip\<close>, allocated and
  added when there is none. The inner \<open>None\<close> is the early return after a failed \<open>calloc\<close>.
\<close>

definition ip_stat_entry ::
  "'w allocator \<Rightarrow> u32 \<Rightarrow> ip_stats \<Rightarrow> 'w \<Rightarrow> (nat option \<times> ip_stats \<times> 'w) option" where
  "ip_stat_entry calloc ip h w =
     (case wlan_ip_static_find h ip of
        Some e \<Rightarrow> Some (Some e, h, w)
      | None \<Rightarrow>
          (let (ok, w1) = calloc sizeof_wlan_ip_statistics w
           in if \<not> ok then Some (None, h, w1)
              else do {
                (h', w2) \<leftarrow> hash_add calloc (int_key ip) (new_ip_stat ip) h w1;
                Some (Some (ut_next_addr h), h', w2)
              }))"

definition add_rx :: "u32 \<Rightarrow> u32 \<Rightarrow> wlan_ip_statistics \<Rightarrow> wlan_ip_statistics" where
  "add_rx pkts byts e =
     e\<lparr>curr_stat := (curr_stat e)\<lparr>rx_packets := rx_packets (curr_stat e) + ucast pkts,
                                  rx_bytes := rx_bytes (curr_stat e) + ucast byts\<rparr>\<rparr>"

definition add_tx :: "u32 \<Rightarrow> u32 \<Rightarrow> wlan_ip_statistics \<Rightarrow> wlan_ip_statistics" where
  "add_tx pkts byts e =
     e\<lparr>curr_stat := (curr_stat e)\<lparr>tx_packets := tx_packets (curr_stat e) + ucast pkts,
                                  tx_bytes := tx_bytes (curr_stat e) + ucast byts\<rparr>\<rparr>"

definition wlan_ip_static_update_rx ::
  "'w allocator \<Rightarrow> u32 \<Rightarrow> u32 \<Rightarrow> u32 \<Rightarrow> ip_stats \<Rightarrow> 'w \<Rightarrow> (ip_stats \<times> 'w) option" where
  "wlan_ip_static_update_rx calloc ip rx_packet rx_byte h w = do {
     (e, h', w') \<leftarrow> ip_stat_entry calloc ip h w;
     (case e of None \<Rightarrow> Some (h', w')
      | Some a \<Rightarrow> Some (ut_modify a (add_rx rx_packet rx_byte) h', w'))
   }"

definition wlan_ip_static_update_tx ::
  "'w allocator \<Rightarrow> u32 \<Rightarrow> u32 \<Rightarrow> u32 \<Rightarrow> ip_stats \<Rightarrow> 'w \<Rightarrow> (ip_stats \<times> 'w) option" where
  "wlan_ip_static_update_tx calloc ip tx_packet tx_byte h w = do {
     (e, h', w') \<leftarrow> ip_stat_entry calloc ip h w;
     (case e of None \<Rightarrow> Some (h', w')
      | Some a \<Rightarrow> Some (ut_modify a (add_tx tx_packet tx_byte) h', w'))
   }"

section \<open>Throughput\<close>

text \<open>\<open>counter > previous ? counter - previous : 0\<close>.\<close>

definition counter_diff :: "u64 \<Rightarrow> u64 \<Rightarrow> u64" where
  "counter_diff c p = (if p < c then c - p else 0)"

definition NS_PER_SEC :: rat where
  "NS_PER_SEC = 1000000000"

text \<open>\<open>diff_ns > 0 ? (double) d / diff_ns * NS_PER_SEC : 0\<close>, stored in a \<open>u64\<close>.\<close>

definition per_second :: "u64 \<Rightarrow> u64 \<Rightarrow> u64" where
  "per_second d diff_ns =
     (if 0 < diff_ns
      then double_to_u64 (to_double (to_double (u64_to_double d / u64_to_double diff_ns) * NS_PER_SEC))
      else 0)"

text \<open>\<open>ns = tv_sec * NS_PER_SEC; ns += tv_nsec\<close>.\<close>

definition clock_ns :: "nat \<Rightarrow> nat \<Rightarrow> u64" where
  "clock_ns sec nsec =
     double_to_u64 (to_double (to_double (of_nat sec) * NS_PER_SEC)) + of_nat nsec"

definition show_u64 :: "u64 \<Rightarrow> string" where
  "show_u64 x = dec_int (sint x)"

text \<open>One line of the report: the unit is chosen by the rate, with \<open>float\<close> division.\<close>

definition rate_line :: "string \<Rightarrow> u64 \<Rightarrow> u64 \<Rightarrow> string" where
  "rate_line dir pps bps =
     (let start = CHR 0x09 # dir @ ''-pps: '' @ pad_left 9 (show_u64 pps) @ ''  '' @ dir @ ''-bps: '';
          scaled = (\<lambda>k. fixed3 (to_float (to_float (of_nat (unat bps)) / k)))
      in if bps \<le> 1000 then start @ pad_left 9 (show_u64 bps) @ '' bps'' @ [CHR 0x0A]
         else if bps \<le> 1000000 then start @ scaled 1000 @ '' Kbps'' @ [CHR 0x0A]
         else if bps \<le> 1000000000 then start @ scaled 1000000 @ '' Mbps'' @ [CHR 0x0A]
         else start @ scaled 1000000000 @ '' Gbps'' @ [CHR 0x0A])"

record rates =
  pps_rx :: u64
  pps_tx :: u64
  bps_rx :: u64
  bps_tx :: u64

text \<open>
  \<open>clk\<close> is the result of \<open>clock_gettime\<close>: the return value, seconds and nanoseconds. Note
  that \<open>rx_packets\<close> of the previous counters is assigned twice, the second time from
  \<open>tx_packets\<close>, and \<open>tx_packets\<close> never: that is what the code does.
\<close>

definition throughput_update ::
  "int \<times> nat \<times> nat \<Rightarrow> wlan_ip_statistics \<Rightarrow> rates \<times> wlan_ip_statistics" where
  "throughput_update clk s =
     (let (ret, sec, nsec) = clk;
          cur = curr_stat s; ps = prev_stat s;
          ns = clock_ns sec nsec;
          diff_ns = (if ret = 0 \<and> time_ns ps \<noteq> 0 then ns - time_ns ps else 0);
          ps = (if ret = 0 then ps\<lparr>time_ns := ns\<rparr> else ps);
          diff_pkts_rx = counter_diff (rx_packets cur) (rx_packets ps);
          diff_pkts_tx = counter_diff (tx_packets cur) (tx_packets ps);
          ps = ps\<lparr>rx_packets := rx_packets cur\<rparr>;
          ps = ps\<lparr>rx_packets := tx_packets cur\<rparr>;
          diff_bytes_rx = counter_diff (rx_bytes cur) (rx_bytes ps);
          diff_bytes_tx = counter_diff (tx_bytes cur) (tx_bytes ps);
          ps = ps\<lparr>rx_bytes := rx_bytes cur\<rparr>;
          ps = ps\<lparr>tx_bytes := tx_bytes cur\<rparr>
      in (\<lparr>pps_rx = per_second diff_pkts_rx diff_ns, pps_tx = per_second diff_pkts_tx diff_ns,
           bps_rx = per_second diff_bytes_rx diff_ns * 8,
           bps_tx = per_second diff_bytes_tx diff_ns * 8\<rparr>,
          s\<lparr>prev_stat := ps\<rparr>))"

text \<open>The two \<open>snprintf\<close> calls into \<open>str_buf[512]\<close>, the second behind the first.\<close>

definition throughput_text :: "rates \<Rightarrow> string" where
  "throughput_text r =
     (let t1 = rate_line ''Rx'' (pps_rx r) (bps_rx r)
      in snprintf_fit 512 t1
         @ snprintf_fit (512 - length t1) (rate_line ''Tx'' (pps_tx r) (bps_tx r)))"

definition ip_stat_line :: "wlan_ip_statistics \<Rightarrow> string" where
  "ip_stat_line e =
     (let c = curr_stat e
      in snprintf_fit 255
           (pad_left 15 (inet_ntoa (key_ip4_addr e))
            @ '': rx_packets: '' @ pad_right 8 (dec_nat (unat (rx_packets c)))
            @ '' tx_packets: '' @ pad_right 8 (dec_nat (unat (tx_packets c)))
            @ '' rx_bytes: '' @ pad_right 10 (dec_nat (unat (rx_bytes c)))
            @ '' tx_bytes: '' @ pad_right 10 (dec_nat (unat (tx_bytes c)))))"

text \<open>
  \<open>wlan_ip_dump_static\<close> walks the table in insertion order and hands the lines to the
  callback \<open>fn\<close>; here they are returned, in the order of the calls.
\<close>

fun dump_static_from ::
  "('w \<Rightarrow> (int \<times> nat \<times> nat) \<times> 'w) \<Rightarrow> nat list \<Rightarrow> ip_stats \<Rightarrow> 'w \<Rightarrow> string list \<times> ip_stats \<times> 'w" where
  "dump_static_from clock [] h w = ([], h, w)"
| "dump_static_from clock (a # as) h w =
     (let e = ut_deref h a;
          (clk, w1) = clock w;
          (r, e') = throughput_update clk e;
          (out, h', w') = dump_static_from clock as (ut_modify a (\<lambda>_. e') h) w1
      in (ip_stat_line e # throughput_text r # out, h', w'))"

definition wlan_ip_dump_static :: "'w os \<Rightarrow> ip_stats \<Rightarrow> 'w \<Rightarrow> string list \<times> ip_stats \<times> 'w" where
  "wlan_ip_dump_static os h w = dump_static_from (os_clock os) (ut_iter h) h w"

section \<open>The table of counters\<close>

definition stat_map :: "ip_stats \<Rightarrow> u32 \<Rightarrow> wlan_ip_statistics option" where
  "stat_map h ip = map_of (ut_entries h) (int_key ip)"

definition stat_inv :: "ip_stats \<Rightarrow> bool" where
  "stat_inv h \<longleftrightarrow> ut_inv h \<and> (\<forall>(k, e) \<in> set (ut_entries h). k = int_key (key_ip4_addr e))"

lemma int_key_inj [simp]: "int_key x = int_key y \<longleftrightarrow> x = y"
proof
  assume eq: "int_key x = int_key y"
  have b: "bit x (8 * i + j) = bit y (8 * i + j)"
    if "(ucast (drop_bit (8 * i) x) :: u8) = ucast (drop_bit (8 * i) y)" "j < 8" for i j
  proof -
    from that(1) have "bit (ucast (drop_bit (8 * i) x) :: u8) j = bit (ucast (drop_bit (8 * i) y) :: u8) j"
      by simp
    with that(2) show ?thesis by (simp add: bit_simps)
  qed
  show "x = y"
  proof (rule bit_word_eqI)
    fix n assume "n < LENGTH(32)"
    then have n: "n = 8 * (n div 8) + n mod 8" "n mod 8 < 8" "n div 8 < 4" by auto
    then have "n div 8 \<in> {0, 1, 2, 3}" by auto
    with eq have "(ucast (drop_bit (8 * (n div 8)) x) :: u8) = ucast (drop_bit (8 * (n div 8)) y)"
      by (auto simp: int_key_def)
    from b [OF this n(2)] n(1) show "bit x n = bit y n" by simp
  qed
qed simp

lemma stat_inv_empty: "stat_inv uthash_empty"
  by (simp add: stat_inv_def ut.inv_empty ut.entries_empty)

lemma stat_map_empty: "stat_map uthash_empty ip = None"
  by (simp add: stat_map_def ut.entries_empty)

lemma ip_stat_entry_cases:
  assumes "ip_stat_entry m ip h w = Some (r, h', w')"
  obtains (found) a where "hash_find h (int_key ip) = Some a" "r = Some a" "h' = h" "w' = w"
  | (nomem) "hash_find h (int_key ip) = None" "r = None" "h' = h"
      "m sizeof_wlan_ip_statistics w = (False, w')"
  | (added) w1 where "hash_find h (int_key ip) = None" "r = Some (ut_next_addr h)"
      "m sizeof_wlan_ip_statistics w = (True, w1)"
      "hash_add m (int_key ip) (new_ip_stat ip) h w1 = Some (h', w')"
proof (cases "hash_find h (int_key ip)")
  case (Some a)
  with assms show ?thesis
    by (intro found [of a]) (auto simp: ip_stat_entry_def wlan_ip_static_find_def)
next
  case None
  obtain ok w1 where mal: "m sizeof_wlan_ip_statistics w = (ok, w1)" by fastforce
  with None assms show ?thesis
    by (cases ok) (auto simp: ip_stat_entry_def wlan_ip_static_find_def Option.bind_eq_Some_conv
        intro: nomem added)
qed

text \<open>What an entry lookup followed by a write through the returned pointer does to the table.\<close>

lemma ip_stat_entry_modify:
  assumes "mem_bounded m" and "stat_inv h" and "ip_stat_entry m ip h w = Some (Some a, h', w')"
    and f: "\<And>e. key_ip4_addr (f e) = key_ip4_addr e"
  shows "stat_inv (ut_modify a f h')"
    and "stat_map (ut_modify a f h') = (stat_map h)(ip \<mapsto> f (case stat_map h ip of
           None \<Rightarrow> new_ip_stat ip | Some e \<Rightarrow> e))"
    and "map fst (ut_entries (ut_modify a f h'))
           = map fst (ut_entries h) @ (if stat_map h ip = None then [int_key ip] else [])"
proof -
  from assms(2) have inv: "ut_inv h" by (simp add: stat_inv_def)
  have main: "ut_inv h' \<and> hash_find h' (int_key ip) = Some a
      \<and> ut_entries h' = ut_entries h @ (if stat_map h ip = None then [(int_key ip, new_ip_stat ip)] else [])"
    using assms(3)
  proof (cases rule: ip_stat_entry_cases)
    case (found b)
    with inv ut.find_deref [OF inv found(1)] show ?thesis by (simp add: stat_map_def)
  next
    case (added w1)
    with ut.inv_add [OF assms(1) inv added(1,4)] ut.entries_add [OF inv added(4)]
      ut.find_add [OF assms(1) inv added(1,4)] ut.find_None_iff [OF inv, of "int_key ip"]
    show ?thesis by (simp add: stat_map_def map_of_eq_None_iff)
  qed simp
  then have inv': "ut_inv h'" and fa: "hash_find h' (int_key ip) = Some a" by auto
  have keys: "\<forall>(k, e) \<in> set (ut_entries h'). k = int_key (key_ip4_addr e)"
    using main assms(2) by (auto simp: stat_inv_def new_ip_stat_def split: if_splits)
  show "stat_inv (ut_modify a f h')"
    unfolding stat_inv_def using ut.inv_modify [OF inv'] ut.entries_modify [OF inv' fa] keys f by auto
  have "map_of (ut_entries h') (int_key j) = (if j = ip then Some (case stat_map h ip of
      None \<Rightarrow> new_ip_stat ip | Some e \<Rightarrow> e) else stat_map h j)" for j
    using main by (auto simp: stat_map_def map_add_def split: option.splits)
  moreover from this [of ip] ut.find_deref [OF inv' fa]
  have "ut_deref h' a = (case stat_map h ip of None \<Rightarrow> new_ip_stat ip | Some e \<Rightarrow> e)" by simp
  ultimately show "stat_map (ut_modify a f h') = (stat_map h)(ip \<mapsto> f (case stat_map h ip of
           None \<Rightarrow> new_ip_stat ip | Some e \<Rightarrow> e))"
    using ut.lookup_modify [OF inv' fa, of f] by (auto simp: stat_map_def fun_eq_iff)
  show "map fst (ut_entries (ut_modify a f h'))
           = map fst (ut_entries h) @ (if stat_map h ip = None then [int_key ip] else [])"
    using main by (simp add: ut.keys_modify [OF inv' fa])
qed

text \<open>The current counters of an address; all zero for an address without an entry.\<close>

definition curr_of :: "ip_stats \<Rightarrow> u32 \<Rightarrow> tatistics" where
  "curr_of h ip = (case stat_map h ip of None \<Rightarrow> zero_stat | Some e \<Rightarrow> curr_stat e)"

definition count_rx :: "u32 \<Rightarrow> u32 \<Rightarrow> tatistics \<Rightarrow> tatistics" where
  "count_rx pkts byts c = c\<lparr>rx_packets := rx_packets c + ucast pkts, rx_bytes := rx_bytes c + ucast byts\<rparr>"

definition count_tx :: "u32 \<Rightarrow> u32 \<Rightarrow> tatistics \<Rightarrow> tatistics" where
  "count_tx pkts byts c = c\<lparr>tx_packets := tx_packets c + ucast pkts, tx_bytes := tx_bytes c + ucast byts\<rparr>"

lemma stat_map_None_iff:
  "stat_inv h \<Longrightarrow> hash_find h (int_key ip) = None \<longleftrightarrow> stat_map h ip = None"
  using ut.find_entries [of h "int_key ip"] by (auto simp: stat_inv_def stat_map_def)

text \<open>Both updates have one shape: find or add the entry, then write its current counters.\<close>

definition ip_stat_apply ::
  "'w allocator \<Rightarrow> (wlan_ip_statistics \<Rightarrow> wlan_ip_statistics) \<Rightarrow> u32 \<Rightarrow> ip_stats \<Rightarrow> 'w
     \<Rightarrow> (ip_stats \<times> 'w) option" where
  "ip_stat_apply m f ip h w = do {
     (e, h', w') \<leftarrow> ip_stat_entry m ip h w;
     (case e of None \<Rightarrow> Some (h', w') | Some a \<Rightarrow> Some (ut_modify a f h', w'))
   }"

lemma update_rx_apply: "wlan_ip_static_update_rx m ip p b h w = ip_stat_apply m (add_rx p b) ip h w"
  by (simp add: wlan_ip_static_update_rx_def ip_stat_apply_def)

lemma update_tx_apply: "wlan_ip_static_update_tx m ip p b h w = ip_stat_apply m (add_tx p b) ip h w"
  by (simp add: wlan_ip_static_update_tx_def ip_stat_apply_def)

lemma ip_stat_apply_spec:
  assumes "mem_bounded m" and "stat_inv h" and "ip_stat_apply m f ip h w = Some (h', w')"
    and f: "\<And>e. key_ip4_addr (f e) = key_ip4_addr e" "\<And>e. curr_stat (f e) = g (curr_stat e)"
  shows "stat_inv h' \<and> curr_of h' =
     (if stat_map h ip = None \<and> \<not> fst (m sizeof_wlan_ip_statistics w) then curr_of h
      else (curr_of h)(ip := g (curr_of h ip)))"
proof -
  from assms(3) obtain r h1 where e: "ip_stat_entry m ip h w = Some (r, h1, w')"
    and h': "h' = (case r of None \<Rightarrow> h1 | Some a \<Rightarrow> ut_modify a f h1)"
    by (auto simp: ip_stat_apply_def Option.bind_eq_Some_conv split: option.splits)
  show ?thesis
  proof (cases r)
    case None
    with e have "hash_find h (int_key ip) = None" "h1 = h" "\<not> fst (m sizeof_wlan_ip_statistics w)"
      by (auto elim!: ip_stat_entry_cases)
    with None h' assms(2) show ?thesis by (simp add: stat_map_None_iff)
  next
    case (Some a)
    from e Some have "hash_find h (int_key ip) \<noteq> None \<or> fst (m sizeof_wlan_ip_statistics w)"
      by (auto elim!: ip_stat_entry_cases)
    then have mem: "stat_map h ip \<noteq> None \<or> fst (m sizeof_wlan_ip_statistics w)"
      using assms(2) by (simp add: stat_map_None_iff)
    note mod = ip_stat_entry_modify [OF assms(1,2) e [unfolded Some] f(1)]
    from mod(1,2) mem h' Some f(2) show ?thesis
      by (auto simp: curr_of_def fun_eq_iff new_ip_stat_def split: option.splits)
  qed
qed

lemma update_rx_spec:
  assumes "mem_bounded m" and "stat_inv h"
    and "wlan_ip_static_update_rx m ip p b h w = Some (h', w')"
  shows "stat_inv h'"
    and "curr_of h' = (if stat_map h ip = None \<and> \<not> fst (m sizeof_wlan_ip_statistics w) then curr_of h
           else (curr_of h)(ip := count_rx p b (curr_of h ip)))"
  using ip_stat_apply_spec [OF assms(1,2) assms(3) [unfolded update_rx_apply], of "count_rx p b"]
  by (simp_all add: add_rx_def count_rx_def)

lemma update_tx_spec:
  assumes "mem_bounded m" and "stat_inv h"
    and "wlan_ip_static_update_tx m ip p b h w = Some (h', w')"
  shows "stat_inv h'"
    and "curr_of h' = (if stat_map h ip = None \<and> \<not> fst (m sizeof_wlan_ip_statistics w) then curr_of h
           else (curr_of h)(ip := count_tx p b (curr_of h ip)))"
  using ip_stat_apply_spec [OF assms(1,2) assms(3) [unfolded update_tx_apply], of "count_tx p b"]
  by (simp_all add: add_tx_def count_tx_def)

lemma ip_stat_apply_frame:
  assumes "\<And>n w. f (snd (m n w)) = f w" and "ip_stat_apply m g ip h w = Some (h', w')"
  shows "f w' = f w"
proof -
  from assms(2) obtain r h1 where e: "ip_stat_entry m ip h w = Some (r, h1, w')"
    by (auto simp: ip_stat_apply_def Option.bind_eq_Some_conv split: option.splits)
  then show ?thesis
  proof (cases rule: ip_stat_entry_cases)
    case nomem
    with assms(1) [of sizeof_wlan_ip_statistics w] show ?thesis by simp
  next
    case (added w1)
    with assms(1) [of sizeof_wlan_ip_statistics w] hash_add_frame [OF assms(1) added(4)]
    show ?thesis by simp
  qed simp
qed

text \<open>
  An update returns when there is memory and the table has room for every address of a set that
  it does not know yet, and then it still has.
\<close>

definition stat_room :: "u32 set \<Rightarrow> ip_stats \<Rightarrow> bool" where
  "stat_room I h \<longleftrightarrow> ut_room (card {ip \<in> I. stat_map h ip = None}) h"

lemma ip_stat_apply_returns:
  assumes "mem_ok m" and "stat_inv h" and "stat_room I h" and "ip \<in> I" and "finite I"
    and f: "\<And>e. key_ip4_addr (f e) = key_ip4_addr e"
  shows "\<exists>h' w'. ip_stat_apply m f ip h w = Some (h', w') \<and> stat_inv h' \<and> stat_room I h'"
proof -
  have "\<exists>a h1 w'. ip_stat_entry m ip h w = Some (Some a, h1, w')
      \<and> ut_room (card {j \<in> I. j \<noteq> ip \<and> stat_map h j = None}) h1"
  proof (cases "hash_find h (int_key ip)")
    case (Some a)
    then have "stat_map h ip \<noteq> None" using stat_map_None_iff [OF assms(2)] by (metis option.distinct(1))
    then have "{j \<in> I. j \<noteq> ip \<and> stat_map h j = None} = {j \<in> I. stat_map h j = None}" by auto
    with assms(3) have "ut_room (card {j \<in> I. j \<noteq> ip \<and> stat_map h j = None}) h"
      by (simp add: stat_room_def)
    moreover from Some have "ip_stat_entry m ip h w = Some (Some a, h, w)"
      by (simp add: ip_stat_entry_def wlan_ip_static_find_def)
    ultimately show ?thesis by blast
  next
    case None
    then have new: "stat_map h ip = None" using stat_map_None_iff [OF assms(2)] by simp
    have "card {j \<in> I. stat_map h j = None} = Suc (card {j \<in> I. j \<noteq> ip \<and> stat_map h j = None})"
    proof -
      have "{j \<in> I. stat_map h j = None} = insert ip {j \<in> I. j \<noteq> ip \<and> stat_map h j = None}"
        using new assms(4) by auto
      then show ?thesis using assms(5) by simp
    qed
    with assms(3) have room: "ut_room (Suc (card {j \<in> I. j \<noteq> ip \<and> stat_map h j = None})) h"
      by (simp add: stat_room_def)
    have "fst (m sizeof_wlan_ip_statistics w)"
      using assms(1) by (simp add: mem_ok_def sizeof_wlan_ip_statistics_def)
    then obtain w1 where m: "m sizeof_wlan_ip_statistics w = (True, w1)"
      by (cases "m sizeof_wlan_ip_statistics w") auto
    have inv: "ut_inv h" using assms(2) by (simp add: stat_inv_def)
    obtain h1 w2 where "hash_add m (int_key ip) (new_ip_stat ip) h w1 = Some (h1, w2)"
      and r: "ut_room (card {j \<in> I. j \<noteq> ip \<and> stat_map h j = None}) h1"
      using hash_add_returns [OF assms(1) inv room] by blast
    with None m have "ip_stat_entry m ip h w = Some (Some (ut_next_addr h), h1, w2)"
      by (simp add: ip_stat_entry_def wlan_ip_static_find_def)
    with r show ?thesis by blast
  qed
  then obtain a h1 w' where e: "ip_stat_entry m ip h w = Some (Some a, h1, w')"
    and room: "ut_room (card {j \<in> I. j \<noteq> ip \<and> stat_map h j = None}) h1" by blast
  note mod = ip_stat_entry_modify [OF mem_ok_bounded [OF assms(1)] assms(2) e f]
  have "{j \<in> I. stat_map (ut_modify a f h1) j = None} = {j \<in> I. j \<noteq> ip \<and> stat_map h j = None}"
    using mod(2) by auto
  then have "stat_room I (ut_modify a f h1)"
    using room by (simp add: stat_room_def ut_room_def)
  with mod(1) e show ?thesis by (simp add: ip_stat_apply_def)
qed

end
