(* ===== verification/Udp.thy ===== *)
theory Udp
  imports Bridge_Prelude Os_Interface Text
begin

text \<open>
  The server's socket, \<open>wlan_br_server/udp.c\<close>: opening and closing it, and sending and receiving
  one datagram or a burst. The static \<open>serv_sock\<close> is an argument; what the functions print is
  not modelled.
\<close>

section \<open>Opening and closing\<close>

text \<open>
  The result pairs the return value with the new \<open>serv_sock\<close>: after a failed \<open>bind\<close> the
  function returns -1 and the descriptor stays open in \<open>serv_sock\<close>.
\<close>

definition create_udp_server :: "'w os \<Rightarrow> u16 \<Rightarrow> 'w \<Rightarrow> int \<times> int \<times> 'w" where
  "create_udp_server os port w =
     (let (fd, w1) = os_socket os SOCK_DGRAM w
      in if fd = -1 then (-1, fd, w1)
         else
           (let (b, w2) = os_bind os fd \<lparr>sin_addr = 0, sin_port = ntohs port\<rparr> w1
            in if b = -1 then (-1, fd, w2)
               else
                 (let (_, w3) = os_setsockopt os fd ''SO_RCVBUF'' (1024 * 1024) w2;
                      (_, w4) = os_setsockopt os fd ''SO_SNDBUF'' (1024 * 1024) w3
                  in (fd, fd, w4))))"

definition destroy_udp_server :: "'w os \<Rightarrow> int \<Rightarrow> 'w \<Rightarrow> int \<times> 'w" where
  "destroy_udp_server os serv_sock w =
     (if serv_sock \<noteq> -1 then (-1, os_close os serv_sock w) else (serv_sock, w))"

section \<open>Sending\<close>

text \<open>A short or failed send is logged; the function returns what \<open>sendto\<close> returned.\<close>

definition send_data_to_udp_client ::
  "'w os \<Rightarrow> int \<Rightarrow> int \<Rightarrow> bytes \<Rightarrow> sockaddr_in \<Rightarrow> 'w \<Rightarrow> int \<times> 'w" where
  "send_data_to_udp_client os serv_sock len buf peer_addr w =
     (let (sendlen, w') = os_sendto os serv_sock (take (nat len) buf) peer_addr w
      in if sendlen \<noteq> len then (sendlen, w') else (sendlen, w'))"

definition burst_msgs ::
  "bytes list \<Rightarrow> nat list \<Rightarrow> sockaddr_in list \<Rightarrow> nat \<Rightarrow> (bytes \<times> sockaddr_in) list" where
  "burst_msgs buf data_len peer_addr n =
     map (\<lambda>i. (take (data_len ! i) (buf ! i), peer_addr ! i)) [0..<n]"

text \<open>
  \<open>send_data_to_udp_client_burst\<close>: when fewer messages went out than asked and \<open>errno\<close> says
  EAGAIN, the messages whose \<open>msg_len\<close> is not their length are sent again once.
\<close>

definition send_data_to_udp_client_burst ::
  "'w os \<Rightarrow> int \<Rightarrow> bytes list \<Rightarrow> nat list \<Rightarrow> sockaddr_in list \<Rightarrow> nat \<Rightarrow> 'w \<Rightarrow> int \<times> 'w" where
  "send_data_to_udp_client_burst os serv_sock buf data_len peer_addr msg_num w =
     (let mmsg = burst_msgs buf data_len peer_addr msg_num;
          ((retval, msg_len), w1) = os_sendmmsg os serv_sock mmsg w
      in if retval \<noteq> int msg_num then
           (if os_errno os w1 = EAGAIN then
              (let resend = map ((!) mmsg) (filter (\<lambda>i. msg_len ! i \<noteq> data_len ! i) [0..<msg_num])
               in if 0 < length resend then
                    (let w2 = os_usleep os 20 w1;
                         ((retval', _), w3) = os_sendmmsg os serv_sock resend w2
                     in if retval' = int (length resend) then (retval', w3) else (-1, w3))
                  else (-1, w1))
            else (-1, w1))
         else (retval, w1))"

section \<open>Receiving\<close>

text \<open>The pointers may be NULL, then the result is -1; \<open>errno\<close> EAGAIN gives -2.\<close>

definition read_data_from_udp_client ::
  "'w os \<Rightarrow> int \<Rightarrow> nat \<Rightarrow> bytes option \<Rightarrow> sockaddr_in option \<Rightarrow> 'w
     \<Rightarrow> int \<times> bytes option \<times> sockaddr_in option \<times> 'w" where
  "read_data_from_udp_client os serv_sock max_len buf peer_addr w =
     (case (buf, peer_addr) of
        (Some b, Some p) \<Rightarrow>
          (let ((recv_len, data, src), w1) = os_recvfrom os serv_sock max_len w
           in if recv_len \<le> 0 then
                (if os_errno os w1 = EAGAIN then -2 else -1,
                 Some b, Some (if recv_len = 0 then src else p), w1)
              else (recv_len, Some (buf_store data b), Some src, w1))
      | _ \<Rightarrow> (-1, buf, peer_addr, w))"

text \<open>Storing the \<open>i\<close>-th received message into the \<open>i\<close>-th buffer, length and address.\<close>

fun store_msgs ::
  "(bytes \<times> sockaddr_in) list \<Rightarrow> bytes list \<Rightarrow> nat list \<Rightarrow> sockaddr_in list
     \<Rightarrow> bytes list \<times> nat list \<times> sockaddr_in list" where
  "store_msgs ((d, p) # ms) (b # bs) (_ # ls) (_ # ps) =
     (let (bs', ls', ps') = store_msgs ms bs ls ps in (buf_store d b # bs', length d # ls', p # ps'))"
| "store_msgs _ bs ls ps = (bs, ls, ps)"

definition read_data_from_udp_client_burst ::
  "'w os \<Rightarrow> int \<Rightarrow> nat \<Rightarrow> bytes list \<Rightarrow> nat list \<Rightarrow> sockaddr_in list \<Rightarrow> nat \<Rightarrow> 'w
     \<Rightarrow> int \<times> bytes list \<times> nat list \<times> sockaddr_in list \<times> 'w" where
  "read_data_from_udp_client_burst os serv_sock max_len buf data_len peer_addr max_num w =
     (let ((recv_len, msgs), w1) = os_recvmmsg os serv_sock max_num max_len w
      in if recv_len \<le> 0 then
           (if os_errno os w1 = EAGAIN then -2 else -1, buf, data_len, peer_addr, w1)
         else
           (let (buf', len', peer') = store_msgs (take (nat recv_len) msgs) buf data_len peer_addr
            in (recv_len, buf', len', peer', w1)))"

section \<open>Facts\<close>

lemma length_burst_msgs [simp]: "length (burst_msgs b l p n) = n"
  by (simp add: burst_msgs_def)

lemma store_msgs_spec:
  assumes "store_msgs ms bs ls ps = (bs', ls', ps')" and "length bs = n" "length ls = n" "length ps = n"
    and "length ms \<le> n" and "\<forall>(d, p) \<in> set ms. length d \<le> k" and "\<forall>b \<in> set bs. length b = k"
  shows "burst_msgs bs' ls' ps' (length ms) = ms" and "\<forall>b \<in> set bs'. length b = k"
    and "length bs' = n" and "length ls' = n" and "length ps' = n"
    and "take (length ms) ps' = map snd ms" and "i < length ms \<Longrightarrow> ls' ! i = length (fst (ms ! i))"
proof -
  have "take (length ms) ls' = map (length \<circ> fst) ms \<and> take (length ms) ps' = map snd ms
      \<and> length bs' = n \<and> length ls' = n \<and> length ps' = n \<and> (\<forall>b \<in> set bs'. length b = k)
      \<and> (\<forall>i < length ms. take (length (fst (ms ! i))) (bs' ! i) = fst (ms ! i))"
    using assms
  proof (induction ms bs ls ps arbitrary: n bs' ls' ps' rule: store_msgs.induct)
    case (1 d p ms b bs l ls q ps)
    obtain bs1 ls1 ps1 where r: "store_msgs ms bs ls ps = (bs1, ls1, ps1)" by (cases "store_msgs ms bs ls ps")
    with "1.prems" have e: "bs' = buf_store d b # bs1" "ls' = length d # ls1" "ps' = p # ps1" by auto
    obtain m where n: "n = Suc m" using "1.prems" by (cases n) auto
    have "take (length ms) ls1 = map (length \<circ> fst) ms \<and> take (length ms) ps1 = map snd ms
      \<and> length bs1 = m \<and> length ls1 = m \<and> length ps1 = m \<and> (\<forall>b \<in> set bs1. length b = k)
      \<and> (\<forall>i < length ms. take (length (fst (ms ! i))) (bs1 ! i) = fst (ms ! i))"
      using "1.prems" n r by (intro "1.IH") auto
    then show ?case using "1.prems" n e by (auto simp: less_Suc_eq_0_disj)
  qed auto
  moreover from this have "ls' ! i = length (fst (ms ! i))" "ps' ! i = snd (ms ! i)"
    if "i < length ms" for i
    using that by (metis nth_take nth_map comp_apply length_map)+
  ultimately show "burst_msgs bs' ls' ps' (length ms) = ms" and "\<forall>b \<in> set bs'. length b = k"
    and "length bs' = n" and "length ls' = n" and "length ps' = n"
    and "take (length ms) ps' = map snd ms" and "i < length ms \<Longrightarrow> ls' ! i = length (fst (ms ! i))"
    by (auto simp: burst_msgs_def intro!: nth_equalityI)
qed

end
