(* ===== verification/Forward.thy ===== *)
theory Forward
  imports Bridge_Prelude Os_Interface Uthash Utlist Text Ether Fdb Statistics Udp
begin

text \<open>
  The forwarding plane, \<open>wlan_br_server/wlan_br_forward.c\<close>. Its state is the forwarding
  database, the circular list of learned addresses whose entries share one
  \<open>peer_addr_info\<close> per peer (an explicit store, the pointers are its indices), and the traffic
  counters. \<open>None\<close> is a run that does not come back: the process exits in uthash, or a NULL
  pointer is followed.
\<close>

section \<open>State\<close>

record peer_addr_info =
  pa_addr :: sockaddr_in
  pa_count :: u16
  flood_flag :: u16

record wlan_list_entry =
  le_mac :: bytes
  le_peer :: "nat option"

record 'w bridge =
  br_fdb :: fdb
  br_list :: "wlan_list_entry cdl"
  br_pas :: "peer_addr_info list"
  br_stats :: ip_stats
  br_sock :: int
  br_world :: 'w

definition sizeof_wlan_list_entry :: nat where
  "sizeof_wlan_list_entry = 32"

definition sizeof_peer_addr_info :: nat where
  "sizeof_peer_addr_info = 20"

section \<open>Calls into the other modules, on the whole state\<close>

definition br_malloc :: "'w os \<Rightarrow> nat \<Rightarrow> 'w bridge \<Rightarrow> bool \<times> 'w bridge" where
  "br_malloc os n s = (let (ok, w) = os_malloc os n (br_world s) in (ok, s\<lparr>br_world := w\<rparr>))"

definition br_send :: "'w os \<Rightarrow> int \<Rightarrow> bytes \<Rightarrow> sockaddr_in \<Rightarrow> 'w bridge \<Rightarrow> int \<times> 'w bridge" where
  "br_send os len buf p s =
     (let (r, w) = send_data_to_udp_client os (br_sock s) len buf p (br_world s)
      in (r, s\<lparr>br_world := w\<rparr>))"

definition br_update_rx :: "'w os \<Rightarrow> u32 \<Rightarrow> int \<Rightarrow> 'w bridge \<Rightarrow> 'w bridge option" where
  "br_update_rx os ip len s = do {
     (h, w) \<leftarrow> wlan_ip_static_update_rx (os_malloc os) ip 1 (word_of_int len) (br_stats s) (br_world s);
     Some (s\<lparr>br_stats := h, br_world := w\<rparr>)
   }"

definition br_update_tx :: "'w os \<Rightarrow> u32 \<Rightarrow> int \<Rightarrow> 'w bridge \<Rightarrow> 'w bridge option" where
  "br_update_tx os ip len s = do {
     (h, w) \<leftarrow> wlan_ip_static_update_tx (os_malloc os) ip 1 (word_of_int len) (br_stats s) (br_world s);
     Some (s\<lparr>br_stats := h, br_world := w\<rparr>)
   }"

definition bridge_fdb_update :: "'w os \<Rightarrow> sockaddr_in \<Rightarrow> bytes \<Rightarrow> 'w bridge \<Rightarrow> (int \<times> 'w bridge) option" where
  "bridge_fdb_update os p mac s = do {
     (r, h, w) \<leftarrow> wlan_fdb_update (os_malloc os) p mac (br_fdb s) (br_world s);
     Some (r, s\<lparr>br_fdb := h, br_world := w\<rparr>)
   }"

section \<open>Forwarding to one peer\<close>

definition wlan_br_forward ::
  "'w os \<Rightarrow> int \<Rightarrow> bytes \<Rightarrow> bytes \<Rightarrow> sockaddr_in \<Rightarrow> 'w bridge \<Rightarrow> int \<times> 'w bridge" where
  "wlan_br_forward os len buf dest_mac curr_addr s =
     (case wlan_br_find (br_fdb s) dest_mac of
        Some a \<Rightarrow>
          (let entry = ut_deref (br_fdb s) a
           in if same_peer (fdb_peer_addr entry) curr_addr then (0, s)
              else (let (send_len, s1) = br_send os len buf (fdb_peer_addr entry) s
                    in if send_len \<noteq> len then (-2, s1) else (send_len, s1)))
      | None \<Rightarrow> (-1, s))"

text \<open>The slot of the output arrays: length, buffer and address of a frame to be sent.\<close>

type_synonym out_frame = "nat \<times> bytes \<times> sockaddr_in"

definition wlan_br_forward_to_array ::
  "'w os \<Rightarrow> int \<Rightarrow> bytes \<Rightarrow> bytes \<Rightarrow> sockaddr_in \<Rightarrow> 'w bridge
     \<Rightarrow> (int \<times> out_frame option \<times> 'w bridge) option" where
  "wlan_br_forward_to_array os len buf dest_mac curr_addr s =
     (case wlan_br_find (br_fdb s) dest_mac of
        Some a \<Rightarrow> do {
          let entry = ut_deref (br_fdb s) a;
          s1 \<leftarrow> br_update_rx os (sin_addr curr_addr) len s;
          if same_peer (fdb_peer_addr entry) curr_addr then Some (0, None, s1)
          else do {
            s2 \<leftarrow> br_update_tx os (sin_addr (fdb_peer_addr entry)) len s1;
            Some (1, Some (nat len, buf, fdb_peer_addr entry), s2)
          }
        }
      | None \<Rightarrow> Some (-1, None, s))"

section \<open>Flooding\<close>

text \<open>
  The body of the first loop: entries without a peer, already flooded peers and the sender are
  passed over; a short send is logged and not counted.
\<close>

definition flood_entry ::
  "'w os \<Rightarrow> int \<Rightarrow> bytes \<Rightarrow> sockaddr_in \<Rightarrow> nat \<Rightarrow> 'w bridge \<Rightarrow> 'w bridge option" where
  "flood_entry os len buf curr_addr a s =
     (case le_peer (cdl_get (br_list s) a) of
        None \<Rightarrow> Some s
      | Some i \<Rightarrow>
          (let pa = br_pas s ! i
           in if flood_flag pa = 1 \<or> same_peer (pa_addr pa) curr_addr then Some s
              else
                (let s1 = s\<lparr>br_pas := modify_at i (\<lambda>q. q\<lparr>flood_flag := 1\<rparr>) (br_pas s)\<rparr>;
                     (send_len, s2) = br_send os len buf (pa_addr pa) s1
                 in if send_len \<noteq> len then Some s2
                    else br_update_tx os (sin_addr (pa_addr pa)) len s2)))"

definition clear_entry :: "nat \<Rightarrow> 'w bridge \<Rightarrow> 'w bridge" where
  "clear_entry a s =
     (case le_peer (cdl_get (br_list s) a) of
        None \<Rightarrow> s
      | Some i \<Rightarrow> s\<lparr>br_pas := modify_at i (\<lambda>q. q\<lparr>flood_flag := 0\<rparr>) (br_pas s)\<rparr>)"

definition wlan_br_flood ::
  "'w os \<Rightarrow> int \<Rightarrow> bytes \<Rightarrow> sockaddr_in \<Rightarrow> 'w bridge \<Rightarrow> 'w bridge option" where
  "wlan_br_flood os len buf curr_addr s = do {
     s1 \<leftarrow> br_update_rx os (sin_addr curr_addr) len s;
     as \<leftarrow> cdl_foreach_safe (br_list s1);
     s2 \<leftarrow> fold_opt (flood_entry os len buf curr_addr) as s1;
     bs \<leftarrow> cdl_foreach_safe (br_list s2);
     Some (fold clear_entry bs s2)
   }"

section \<open>Learning\<close>

text \<open>
  The search loop of \<open>wlan_list_update\<close>: the peer record of the first entry with this address.
  The outer \<open>None\<close> is the NULL dereference of an entry without a peer.
\<close>

fun list_search ::
  "peer_addr_info list \<Rightarrow> wlan_list_entry list \<Rightarrow> sockaddr_in \<Rightarrow> nat option option" where
  "list_search pas [] p = Some None"
| "list_search pas (e # es) p =
     (case le_peer e of
        None \<Rightarrow> None
      | Some i \<Rightarrow> if same_peer (pa_addr (pas ! i)) p then Some (Some i) else list_search pas es p)"

definition wlan_list_update ::
  "'w os \<Rightarrow> sockaddr_in \<Rightarrow> bytes \<Rightarrow> 'w bridge \<Rightarrow> (int \<times> 'w bridge) option" where
  "wlan_list_update os peer_addr remote_mac s =
     (let (ok, s1) = br_malloc os sizeof_wlan_list_entry s
      in if \<not> ok then Some (0, s1)
         else do {
           as \<leftarrow> cdl_foreach_safe (br_list s1);
           found \<leftarrow> list_search (br_pas s1) (map (cdl_get (br_list s1)) as) peer_addr;
           (case found of
              Some i \<Rightarrow>
                Some (1, s1\<lparr>br_pas := modify_at i (\<lambda>q. q\<lparr>pa_count := pa_count q + 1, flood_flag := 0\<rparr>)
                                        (br_pas s1),
                            br_list := cdl_prepend \<lparr>le_mac = take ETH_ALEN remote_mac, le_peer = Some i\<rparr>
                                        (br_list s1)\<rparr>)
            | None \<Rightarrow>
                (let (ok', s2) = br_malloc os sizeof_peer_addr_info s1
                 in if \<not> ok' then Some (0, s2)
                    else Some (1, s2\<lparr>br_pas := br_pas s2 @ [\<lparr>pa_addr = peer_addr, pa_count = 1,
                                                             flood_flag = 0\<rparr>],
                                     br_list := cdl_prepend \<lparr>le_mac = take ETH_ALEN remote_mac,
                                                             le_peer = Some (length (br_pas s2))\<rparr>
                                                 (br_list s2)\<rparr>)))
         })"

text \<open>The start of both handlers: learn the source address of the frame.\<close>

definition br_learn :: "'w os \<Rightarrow> bytes \<Rightarrow> sockaddr_in \<Rightarrow> 'w bridge \<Rightarrow> 'w bridge option" where
  "br_learn os buf peer_addr s = do {
     (r, s1) \<leftarrow> bridge_fdb_update os peer_addr (h_source buf) s;
     if r = 1 then map_option snd (wlan_list_update os peer_addr (h_source buf) s1) else Some s1
   }"

section \<open>Handlers\<close>

definition wlan_br_handle ::
  "'w os \<Rightarrow> int \<Rightarrow> bytes \<Rightarrow> sockaddr_in \<Rightarrow> 'w bridge \<Rightarrow> 'w bridge option" where
  "wlan_br_handle os len buf peer_addr s = do {
     s1 \<leftarrow> br_learn os buf peer_addr s;
     if is_multicast_ether_addr (h_dest buf) then wlan_br_flood os len buf peer_addr s1
     else (let (ret, s2) = wlan_br_forward os len buf (h_dest buf) peer_addr s1
           in if ret = -1 then wlan_br_flood os len buf peer_addr s2 else Some s2)
   }"

text \<open>
  One round of the loop of \<open>wlan_br_handle_burst\<close>: a frame is flooded at once or put into the
  output arrays, whose filled part is the second component.
\<close>

definition burst_frame ::
  "'w os \<Rightarrow> nat \<times> bytes \<times> sockaddr_in \<Rightarrow> 'w bridge \<times> out_frame list
     \<Rightarrow> ('w bridge \<times> out_frame list) option" where
  "burst_frame os = (\<lambda>(data_len, buf, peer_addr) (s, out). do {
     s1 \<leftarrow> br_learn os buf peer_addr s;
     if is_multicast_ether_addr (h_dest buf) then
       map_option (\<lambda>s2. (s2, out)) (wlan_br_flood os (int data_len) buf peer_addr s1)
     else do {
       (ret, slot, s2) \<leftarrow> wlan_br_forward_to_array os (int data_len) buf (h_dest buf) peer_addr s1;
       (case slot of
          Some fr \<Rightarrow> Some (s2, out @ [fr])
        | None \<Rightarrow> if ret = -1
                  then map_option (\<lambda>s3. (s3, out)) (wlan_br_flood os (int data_len) buf peer_addr s2)
                  else Some (s2, out))
     }
   })"

definition wlan_br_handle_burst ::
  "'w os \<Rightarrow> nat \<Rightarrow> bytes list \<Rightarrow> nat list \<Rightarrow> sockaddr_in list \<Rightarrow> 'w bridge \<Rightarrow> 'w bridge option" where
  "wlan_br_handle_burst os recv_count buf data_len peer_addr s = do {
     (s1, out) \<leftarrow> fold_opt (burst_frame os)
                   (map (\<lambda>i. (data_len ! i, buf ! i, peer_addr ! i)) [0..<recv_count]) (s, []);
     let j = length out;
     if 0 < j then
       (let (_, w) = send_data_to_udp_client_burst os (br_sock s1) (map (fst \<circ> snd) out) (map fst out)
                       (map (snd \<circ> snd) out) j (br_world s1)
        in Some (s1\<lparr>br_world := w\<rparr>))
     else Some s1
   }"

section \<open>Listing the database\<close>

definition fdb_line :: "peer_addr_info \<Rightarrow> bytes \<Rightarrow> string" where
  "fdb_line pa mac =
     snprintf_fit 127
       (pad_left 15 (inet_ntoa (sin_addr (pa_addr pa))) @ '':''
        @ pad_right 5 (dec_nat (unat (ntohs (sin_port (pa_addr pa))))) @ '' -> ''
        @ (case ether_addr_to_str mac True 20 of Some t \<Rightarrow> t | None \<Rightarrow> []))"

definition wlan_br_dump_fdb :: "'w bridge \<Rightarrow> string list option" where
  "wlan_br_dump_fdb s = do {
     as \<leftarrow> cdl_foreach_safe (br_list s);
     fold_opt (\<lambda>a out. (case le_peer (cdl_get (br_list s) a) of
          None \<Rightarrow> None
        | Some i \<Rightarrow> Some (out @ [fdb_line (br_pas s ! i) (le_mac (cdl_get (br_list s) a))]))) as []
   }"

end
