(* ===== verification/Switch.thy ===== *)
theory Switch
  imports Bridge_Prelude Ether Statistics "HOL-Library.Multiset"
begin

text \<open>
  The abstract specification of the server: a learning switch. It knows behind which peer each
  MAC address lives (the first peer it was heard from, never changed afterwards), the list of
  its ports (the peers it has heard from, most recently extended first), and counts traffic
  per IPv4 address. \<open>sw_handle\<close> is what one received frame does: the state after it and the
  datagrams sent. The section at the end holds what is true of every such switch.
\<close>

section \<open>The switch\<close>

record switch =
  sw_table :: "bytes \<rightharpoonup> sockaddr_in"
  sw_ports :: "sockaddr_in list"
  sw_count :: "u32 \<Rightarrow> tatistics"

definition sw_empty :: switch where
  "sw_empty = \<lparr>sw_table = Map.empty, sw_ports = [], sw_count = (\<lambda>_. zero_stat)\<rparr>"

text \<open>The first occurrence of each element, in order.\<close>

fun first_occ :: "'a list \<Rightarrow> 'a list" where
  "first_occ [] = []"
| "first_occ (x # xs) = x # removeAll x (first_occ xs)"

definition sw_learn :: "sockaddr_in \<Rightarrow> bytes \<Rightarrow> switch \<Rightarrow> switch" where
  "sw_learn p mac sw =
     (if sw_table sw mac \<noteq> None then sw
      else sw\<lparr>sw_table := (sw_table sw)(mac \<mapsto> p), sw_ports := p # removeAll p (sw_ports sw)\<rparr>)"

text \<open>Where a frame from \<open>p\<close> goes: \<open>None\<close> stands for a flood.\<close>

definition sw_route :: "switch \<Rightarrow> bytes \<Rightarrow> sockaddr_in option" where
  "sw_route sw frame =
     (if is_multicast_ether_addr (h_dest frame) then None else sw_table sw (h_dest frame))"

definition sw_dests :: "switch \<Rightarrow> sockaddr_in \<Rightarrow> bytes \<Rightarrow> sockaddr_in list" where
  "sw_dests sw p frame =
     (case sw_route sw frame of
        None \<Rightarrow> filter (\<lambda>q. q \<noteq> p) (sw_ports sw)
      | Some q \<Rightarrow> if q = p then [] else [q])"

definition sw_count_rx :: "u32 \<Rightarrow> u32 \<Rightarrow> (u32 \<Rightarrow> tatistics) \<Rightarrow> (u32 \<Rightarrow> tatistics)" where
  "sw_count_rx ip n cs = cs(ip := count_rx 1 n (cs ip))"

definition sw_count_tx :: "u32 \<Rightarrow> u32 \<Rightarrow> (u32 \<Rightarrow> tatistics) \<Rightarrow> (u32 \<Rightarrow> tatistics)" where
  "sw_count_tx ip n cs = cs(ip := count_tx 1 n (cs ip))"

definition sw_flood_counts ::
  "u32 \<Rightarrow> sockaddr_in \<Rightarrow> sockaddr_in list \<Rightarrow> (u32 \<Rightarrow> tatistics) \<Rightarrow> (u32 \<Rightarrow> tatistics)" where
  "sw_flood_counts n p qs cs = fold (\<lambda>q. sw_count_tx (sin_addr q) n) qs (sw_count_rx (sin_addr p) n cs)"

text \<open>
  One frame of the single-datagram handler. Only floods are counted: the handler does not touch
  the counters for a frame it forwards to a known peer.
\<close>

definition sw_handle :: "sockaddr_in \<Rightarrow> bytes \<Rightarrow> switch \<Rightarrow> switch \<times> (bytes \<times> sockaddr_in) list" where
  "sw_handle p frame sw =
     (let sw1 = sw_learn p (h_source frame) sw;
          qs = sw_dests sw1 p frame;
          out = map (Pair frame) qs
      in case sw_route sw1 frame of
           None \<Rightarrow> (sw1\<lparr>sw_count := sw_flood_counts (of_nat (length frame)) p qs (sw_count sw1)\<rparr>, out)
         | Some _ \<Rightarrow> (sw1, out))"

text \<open>
  One frame of the burst handler: the datagrams sent at once, and those put off to the end of
  the burst. Every frame is counted.
\<close>

definition sw_handle_burst1 ::
  "sockaddr_in \<Rightarrow> bytes \<Rightarrow> switch \<Rightarrow> switch \<times> (bytes \<times> sockaddr_in) list \<times> (bytes \<times> sockaddr_in) list" where
  "sw_handle_burst1 p frame sw =
     (let sw1 = sw_learn p (h_source frame) sw;
          qs = sw_dests sw1 p frame;
          out = map (Pair frame) qs;
          sw2 = sw1\<lparr>sw_count := sw_flood_counts (of_nat (length frame)) p qs (sw_count sw1)\<rparr>
      in case sw_route sw1 frame of None \<Rightarrow> (sw2, out, []) | Some _ \<Rightarrow> (sw2, [], out))"

fun sw_handle_burst ::
  "(sockaddr_in \<times> bytes) list \<Rightarrow> switch \<Rightarrow> switch \<times> (bytes \<times> sockaddr_in) list \<times> (bytes \<times> sockaddr_in) list" where
  "sw_handle_burst [] sw = (sw, [], [])"
| "sw_handle_burst ((p, frame) # fs) sw =
     (let (sw1, now1, later1) = sw_handle_burst1 p frame sw;
          (sw2, now2, later2) = sw_handle_burst fs sw1
      in (sw2, now1 @ now2, later1 @ later2))"

fun sw_run :: "(sockaddr_in \<times> bytes) list \<Rightarrow> switch \<Rightarrow> switch \<times> (bytes \<times> sockaddr_in) list" where
  "sw_run [] sw = (sw, [])"
| "sw_run ((p, frame) # fs) sw =
     (let (sw1, out1) = sw_handle p frame sw; (sw2, out2) = sw_run fs sw1 in (sw2, out1 @ out2))"

section \<open>First occurrences\<close>

lemma set_first_occ [simp]: "set (first_occ xs) = set xs"
  by (induction xs) auto

lemma distinct_first_occ [simp]: "distinct (first_occ xs)"
  by (induction xs) (auto simp: distinct_removeAll)

lemma filter_removeAll: "\<not> P x \<Longrightarrow> filter P (removeAll x xs) = filter P xs"
  by (induction xs) auto

lemma filter_removeAll_conj: "filter P (removeAll x xs) = filter (\<lambda>y. y \<noteq> x \<and> P y) xs"
  by (induction xs) auto

section \<open>Every switch\<close>

text \<open>A port is listed once, and every peer in the table is a port.\<close>

definition sw_inv :: "switch \<Rightarrow> bool" where
  "sw_inv sw \<longleftrightarrow> distinct (sw_ports sw) \<and> ran (sw_table sw) \<subseteq> set (sw_ports sw)"

lemma sw_learn_inv [br_inv]: "sw_inv sw \<Longrightarrow> sw_inv (sw_learn p mac sw)"
  by (auto simp: sw_inv_def sw_learn_def distinct_removeAll ran_def)

lemma sw_learn_sound: "sw_table sw \<subseteq>\<^sub>m sw_table (sw_learn p mac sw)"
  by (auto simp: sw_learn_def map_le_def)

lemma sw_learn_count [simp]: "sw_count (sw_learn p mac sw) = sw_count sw"
  by (simp add: sw_learn_def)

lemma sw_handle_state:
  "fst (sw_handle p frame sw) = sw_learn p (h_source frame) sw
     \<lparr>sw_count := sw_count (fst (sw_handle p frame sw))\<rparr>"
  by (simp add: sw_handle_def Let_def split: option.splits)

lemma sw_burst1_state:
  "fst (sw_handle_burst1 p frame sw) = sw_learn p (h_source frame) sw
     \<lparr>sw_count := sw_count (fst (sw_handle_burst1 p frame sw))\<rparr>"
  by (simp add: sw_handle_burst1_def Let_def split: option.splits)

text \<open>Both handlers send the same datagrams for a frame; they differ in when.\<close>

lemma sw_handle_out:
  "snd (sw_handle p frame sw) = map (Pair frame) (sw_dests (sw_learn p (h_source frame) sw) p frame)"
  by (simp add: sw_handle_def Let_def split: option.splits)

lemma sw_burst1_out:
  "fst (snd (sw_handle_burst1 p frame sw)) @ snd (snd (sw_handle_burst1 p frame sw))
     = snd (sw_handle p frame sw)"
  by (simp add: sw_handle_burst1_def sw_handle_def Let_def split: option.splits)

lemma sw_handle_cong:
  assumes "sw_table sw = sw_table sw'" and "sw_ports sw = sw_ports sw'"
  shows "snd (sw_handle p frame sw) = snd (sw_handle p frame sw')"
    and "sw_table (fst (sw_handle p frame sw)) = sw_table (fst (sw_handle p frame sw'))"
    and "sw_ports (fst (sw_handle p frame sw)) = sw_ports (fst (sw_handle p frame sw'))"
  using assms
  by (auto simp: sw_handle_out sw_dests_def sw_route_def sw_learn_def sw_handle_def Let_def
      split: option.splits)

lemma sw_dests_not_sender: "p \<notin> set (sw_dests sw p frame)"
  by (auto simp: sw_dests_def split: option.splits)

lemma sw_dests_distinct: "sw_inv sw \<Longrightarrow> distinct (sw_dests sw p frame)"
  by (auto simp: sw_dests_def sw_inv_def split: option.splits)

lemma sw_dests_ports: "sw_inv sw \<Longrightarrow> set (sw_dests sw p frame) \<subseteq> set (sw_ports sw)"
  by (auto simp: sw_dests_def sw_inv_def sw_route_def ran_def split: option.splits if_splits)

section \<open>A burst against its frames one by one\<close>

text \<open>
  Deferring the unicasts changes neither what is learned nor what is sent, only the order; and
  the floods keep their order among themselves, as do the unicasts.
\<close>

lemma sw_step_learns:
  "sw_table (fst (sw_handle p frame sw)) = sw_table (sw_learn p (h_source frame) sw)"
  "sw_ports (fst (sw_handle p frame sw)) = sw_ports (sw_learn p (h_source frame) sw)"
  "sw_table (fst (sw_handle_burst1 p frame sw)) = sw_table (sw_learn p (h_source frame) sw)"
  "sw_ports (fst (sw_handle_burst1 p frame sw)) = sw_ports (sw_learn p (h_source frame) sw)"
  by (simp_all add: sw_handle_def sw_handle_burst1_def Let_def split: option.split)

lemma sw_burst_same:
  assumes "sw_table sw = sw_table sw'" and "sw_ports sw = sw_ports sw'"
  shows "sw_table (fst (sw_handle_burst fs sw)) = sw_table (fst (sw_run fs sw'))
    \<and> sw_ports (fst (sw_handle_burst fs sw)) = sw_ports (fst (sw_run fs sw'))
    \<and> mset (fst (snd (sw_handle_burst fs sw)) @ snd (snd (sw_handle_burst fs sw))) = mset (snd (sw_run fs sw'))"
  using assms
proof (induction fs arbitrary: sw sw')
  case (Cons f fs)
  obtain p frame where f: "f = (p, frame)" by (cases f)
  let ?s1 = "fst (sw_handle_burst1 p frame sw)" and ?s1' = "fst (sw_handle p frame sw')"
  note cong = sw_handle_cong [OF Cons.prems, of p frame]
  have "sw_table ?s1 = sw_table ?s1'" "sw_ports ?s1 = sw_ports ?s1'"
    using Cons.prems by (simp_all add: sw_step_learns sw_learn_def)
  moreover have "mset (fst (snd (sw_handle_burst1 p frame sw))) + mset (snd (snd (sw_handle_burst1 p frame sw)))
      = mset (snd (sw_handle p frame sw'))"
    using arg_cong [OF sw_burst1_out [of p frame sw], of mset] cong(1) by simp
  ultimately show ?case
    using Cons.IH [of ?s1 ?s1'] by (simp add: f Let_def split_beta ac_simps)
qed simp

lemma sw_run_append:
  "sw_run (fs @ gs) sw = (fst (sw_run gs (fst (sw_run fs sw))), snd (sw_run fs sw) @ snd (sw_run gs (fst (sw_run fs sw))))"
  by (induction fs arbitrary: sw) (auto simp: split_beta Let_def)

text \<open>What a run learns and sends does not depend on the counters.\<close>

lemma sw_run_cong:
  assumes "sw_table sw = sw_table sw'" and "sw_ports sw = sw_ports sw'"
  shows "sw_table (fst (sw_run fs sw)) = sw_table (fst (sw_run fs sw'))
    \<and> sw_ports (fst (sw_run fs sw)) = sw_ports (fst (sw_run fs sw')) \<and> snd (sw_run fs sw) = snd (sw_run fs sw')"
  using assms
proof (induction fs arbitrary: sw sw')
  case (Cons f fs)
  obtain p frame where f: "f = (p, frame)" by (cases f)
  from Cons.IH [OF sw_handle_cong(2,3) [OF Cons.prems, of p frame]] sw_handle_cong(1) [OF Cons.prems, of p frame]
  show ?case by (simp add: f split_beta Let_def)
qed simp

end
