(* ===== verification/Bridge_Inv.thy ===== *)
theory Bridge_Inv
  imports Forward Switch
begin

text \<open>
  The invariant of the forwarding plane and the refinement to the abstract switch: what each
  operation of \<open>Forward\<close> does to the abstract state, to the trace of datagrams handed to the
  kernel and to the counters.
\<close>

section \<open>Hypotheses on the operating system\<close>

text \<open>
  \<open>sent\<close> reads a trace of the datagrams handed to the kernel from the world: \<open>sendto\<close> extends it by
  its datagram and allocation leaves it alone. \<open>sends_ok\<close>: a datagram is sent as a whole.
\<close>

definition logs_sends :: "'w os \<Rightarrow> ('w \<Rightarrow> (bytes \<times> sockaddr_in) list) \<Rightarrow> bool" where
  "logs_sends os sent \<longleftrightarrow> (\<forall>n w. sent (snd (os_malloc os n w)) = sent w)
     \<and> (\<forall>fd d p w. sent (snd (os_sendto os fd d p w)) = sent w @ [(d, p)])"

definition sends_ok :: "'w os \<Rightarrow> bool" where
  "sends_ok os \<longleftrightarrow> (\<forall>fd d p w. fst (os_sendto os fd d p w) = int (length d))"

section \<open>The invariant\<close>

text \<open>
  Every list entry points to the record of the peer the database maps its address to; there is
  one record per peer, each in use, with its number of entries; no flood is under way.
\<close>

definition links_ok ::
  "(bytes \<rightharpoonup> sockaddr_in) \<Rightarrow> wlan_list_entry list \<Rightarrow> peer_addr_info list \<Rightarrow> bool" where
  "links_ok T L pas \<longleftrightarrow>
     (\<forall>e \<in> set L. \<exists>i < length pas. le_peer e = Some i \<and> T (le_mac e) = Some (pa_addr (pas ! i)))
     \<and> distinct (map le_mac L) \<and> distinct (map pa_addr pas)
     \<and> set (map le_peer L) = Some ` {..<length pas}
     \<and> (\<forall>i < length pas. pa_count (pas ! i) = of_nat (count_list (map le_peer L) (Some i))
          \<and> flood_flag (pas ! i) = 0)"

definition bridge_inv :: "'w bridge \<Rightarrow> bool" where
  "bridge_inv s \<longleftrightarrow> fdb_inv (br_fdb s) \<and> stat_inv (br_stats s) \<and> cdl_inv (br_list s)
     \<and> links_ok (fdb_map (br_fdb s)) (cdl_list (br_list s)) (br_pas s)"

definition bridge_start :: "int \<Rightarrow> 'w \<Rightarrow> 'w bridge" where
  "bridge_start sock w =
     \<lparr>br_fdb = uthash_empty, br_list = cdl_empty, br_pas = [], br_stats = uthash_empty,
      br_sock = sock, br_world = w\<rparr>"

text \<open>The peer an entry points to, and the abstract state of the forwarding plane.\<close>

definition entry_port :: "peer_addr_info list \<Rightarrow> wlan_list_entry \<Rightarrow> sockaddr_in" where
  "entry_port pas e = pa_addr (pas ! the (le_peer e))"

definition ports_of :: "'w bridge \<Rightarrow> sockaddr_in list" where
  "ports_of s = first_occ (map (entry_port (br_pas s)) (cdl_list (br_list s)))"

definition switch_of :: "'w bridge \<Rightarrow> switch" where
  "switch_of s = \<lparr>sw_table = fdb_map (br_fdb s), sw_ports = ports_of s, sw_count = curr_of (br_stats s)\<rparr>"

lemma bridge_inv_start: "bridge_inv (bridge_start sock w)"
  by (simp add: bridge_inv_def bridge_start_def fdb_inv_empty stat_inv_empty cdl.inv_empty
      cdl.to_list_empty links_ok_def)

lemma switch_of_start:
  "switch_of (bridge_start sock w) = sw_empty"
  by (simp add: switch_of_def sw_empty_def bridge_start_def fdb_map_empty ports_of_def cdl.to_list_empty
      curr_of_def stat_map_empty fun_eq_iff)

section \<open>Counting\<close>

lemma br_update_rx_frame:
  assumes "br_update_rx os ip len s = Some s'"
  shows "br_fdb s' = br_fdb s" "br_list s' = br_list s" "br_pas s' = br_pas s" "br_sock s' = br_sock s"
    and "logs_sends os sent \<Longrightarrow> sent (br_world s') = sent (br_world s)"
  using assms
  by (auto simp: br_update_rx_def update_rx_apply Option.bind_eq_Some_conv logs_sends_def
      dest: ip_stat_apply_frame [where f = sent, rotated])

lemma br_update_tx_frame:
  assumes "br_update_tx os ip len s = Some s'"
  shows "br_fdb s' = br_fdb s" "br_list s' = br_list s" "br_pas s' = br_pas s" "br_sock s' = br_sock s"
    and "logs_sends os sent \<Longrightarrow> sent (br_world s') = sent (br_world s)"
  using assms
  by (auto simp: br_update_tx_def update_tx_apply Option.bind_eq_Some_conv logs_sends_def
      dest: ip_stat_apply_frame [where f = sent, rotated])

lemma br_update_rx_inv:
  assumes "br_update_rx os ip len s = Some s'" and "mem_bounded (os_malloc os)" and "stat_inv (br_stats s)"
  shows "stat_inv (br_stats s')"
  using assms update_rx_spec(1) [OF assms(2,3)]
  by (auto simp: br_update_rx_def Option.bind_eq_Some_conv)

lemma br_update_tx_inv:
  assumes "br_update_tx os ip len s = Some s'" and "mem_bounded (os_malloc os)" and "stat_inv (br_stats s)"
  shows "stat_inv (br_stats s')"
  using assms update_tx_spec(1) [OF assms(2,3)]
  by (auto simp: br_update_tx_def Option.bind_eq_Some_conv)

lemma mem_ok_stat: "mem_ok m \<Longrightarrow> fst (m sizeof_wlan_ip_statistics w)"
  by (simp add: mem_ok_def sizeof_wlan_ip_statistics_def)

lemma br_update_rx_count:
  assumes "br_update_rx os ip len s = Some s'" and "mem_ok (os_malloc os)" and "stat_inv (br_stats s)"
  shows "curr_of (br_stats s') = sw_count_rx ip (of_int len) (curr_of (br_stats s))"
  using assms update_rx_spec(2) [OF mem_ok_bounded [OF assms(2)] assms(3)]
  by (auto simp: br_update_rx_def Option.bind_eq_Some_conv sw_count_rx_def mem_ok_stat)

lemma br_update_tx_count:
  assumes "br_update_tx os ip len s = Some s'" and "mem_ok (os_malloc os)" and "stat_inv (br_stats s)"
  shows "curr_of (br_stats s') = sw_count_tx ip (of_int len) (curr_of (br_stats s))"
  using assms update_tx_spec(2) [OF mem_ok_bounded [OF assms(2)] assms(3)]
  by (auto simp: br_update_tx_def Option.bind_eq_Some_conv sw_count_tx_def mem_ok_stat)

section \<open>Flooding\<close>

text \<open>The flags of the records aside.\<close>

definition strip :: "peer_addr_info list \<Rightarrow> peer_addr_info list" where
  "strip pas = map (\<lambda>q. q\<lparr>flood_flag := 0\<rparr>) pas"

definition set_flag :: "nat \<Rightarrow> u16 \<Rightarrow> peer_addr_info list \<Rightarrow> peer_addr_info list" where
  "set_flag i f pas = modify_at i (\<lambda>q. q\<lparr>flood_flag := f\<rparr>) pas"

definition flagged :: "peer_addr_info list \<Rightarrow> sockaddr_in set" where
  "flagged pas = pa_addr ` {q \<in> set pas. flood_flag q = 1}"

lemma strip_set_flag [simp]: "strip (set_flag i f pas) = strip pas"
  by (simp add: strip_def set_flag_def map_modify_at_id)

lemma length_set_flag [simp]: "length (set_flag i f pas) = length pas"
  by (simp add: set_flag_def)

lemma strip_addrs: "map pa_addr (strip pas) = map pa_addr pas"
  by (simp add: strip_def)

lemma strip_eqD:
  assumes "strip pas = strip pas'"
  shows "length pas = length pas'" and "map pa_addr pas = map pa_addr pas'"
    and "i < length pas \<Longrightarrow> pa_addr (pas ! i) = pa_addr (pas' ! i)"
proof -
  show l: "length pas = length pas'" using arg_cong [OF assms, of length] by (simp add: strip_def)
  show a: "map pa_addr pas = map pa_addr pas'" using arg_cong [OF assms, of "map pa_addr"]
    by (simp add: strip_addrs)
  show "i < length pas \<Longrightarrow> pa_addr (pas ! i) = pa_addr (pas' ! i)" using l a by (metis nth_map)
qed

lemma strip_id: "(\<And>q. q \<in> set pas \<Longrightarrow> flood_flag q = 0) \<Longrightarrow> strip pas = pas"
  by (auto simp: strip_def intro!: map_idI)

lemma flagged_iff: "p \<in> flagged xs \<longleftrightarrow> (\<exists>j < length xs. flood_flag (xs ! j) = 1 \<and> pa_addr (xs ! j) = p)"
  by (auto simp: flagged_def set_conv_nth)

lemma flagged_set_flag:
  assumes "i < length pas"
  shows "flagged (set_flag i 1 pas) = insert (pa_addr (pas ! i)) (flagged pas)"
proof (rule set_eqI)
  fix p
  have "p \<in> flagged (set_flag i 1 pas)
      \<longleftrightarrow> (\<exists>j < length pas. (i = j \<or> flood_flag (pas ! j) = 1) \<and> pa_addr (pas ! j) = p)"
    unfolding flagged_iff set_flag_def by (simp add: nth_modify_at cong: conj_cong) auto
  with assms show "p \<in> flagged (set_flag i 1 pas) \<longleftrightarrow> p \<in> insert (pa_addr (pas ! i)) (flagged pas)"
    by (auto simp: flagged_iff)
qed

lemma in_flagged:
  assumes "i < length pas" and "distinct (map pa_addr pas)"
  shows "pa_addr (pas ! i) \<in> flagged pas \<longleftrightarrow> flood_flag (pas ! i) = 1"
proof
  assume "pa_addr (pas ! i) \<in> flagged pas"
  then obtain j where "j < length pas" "flood_flag (pas ! j) = 1" "pa_addr (pas ! j) = pa_addr (pas ! i)"
    by (auto simp: flagged_def set_conv_nth)
  with assms show "flood_flag (pas ! i) = 1" by (auto simp: distinct_conv_nth)
qed (use assms(1) in \<open>auto simp: flagged_def\<close>)

lemma flood_entry_cases:
  assumes "flood_entry os len buf c a s = Some s'" and "le_peer (cdl_get (br_list s) a) = Some i"
  obtains (skip) "flood_flag (br_pas s ! i) = 1 \<or> pa_addr (br_pas s ! i) = c" "s' = s"
  | (lost) r w where "flood_flag (br_pas s ! i) \<noteq> 1" "pa_addr (br_pas s ! i) \<noteq> c"
      "os_sendto os (br_sock s) (take (nat len) buf) (pa_addr (br_pas s ! i)) (br_world s) = (r, w)"
      "r \<noteq> len" "s' = s\<lparr>br_pas := set_flag i 1 (br_pas s), br_world := w\<rparr>"
  | (sent) w where "flood_flag (br_pas s ! i) \<noteq> 1" "pa_addr (br_pas s ! i) \<noteq> c"
      "os_sendto os (br_sock s) (take (nat len) buf) (pa_addr (br_pas s ! i)) (br_world s) = (len, w)"
      "br_update_tx os (sin_addr (pa_addr (br_pas s ! i))) len
         (s\<lparr>br_pas := set_flag i 1 (br_pas s), br_world := w\<rparr>) = Some s'"
proof -
  let ?pa = "br_pas s ! i"
  obtain r w where snd: "os_sendto os (br_sock s) (take (nat len) buf) (pa_addr ?pa) (br_world s) = (r, w)"
    by fastforce
  show ?thesis
  proof (cases "flood_flag ?pa = 1 \<or> pa_addr ?pa = c")
    case True
    with assms show ?thesis by (intro skip) (auto simp: flood_entry_def Let_def)
  next
    case False
    have e: "(if r \<noteq> len then Some (s\<lparr>br_pas := set_flag i 1 (br_pas s), br_world := w\<rparr>)
       else br_update_tx os (sin_addr (pa_addr ?pa)) len
              (s\<lparr>br_pas := set_flag i 1 (br_pas s), br_world := w\<rparr>)) = Some s'"
      using assms snd False
      by (simp add: flood_entry_def br_send_def send_data_to_udp_client_def Let_def set_flag_def
          split: if_splits)
    show ?thesis
    proof (cases "r = len")
      case True
      with False snd e show ?thesis by (intro sent) simp_all
    next
      case r: False
      with e have "s' = s\<lparr>br_pas := set_flag i 1 (br_pas s), br_world := w\<rparr>" by simp
      from lost [OF _ _ snd r this] False show ?thesis by simp
    qed
  qed
qed

text \<open>What a round of the loop leaves alone, and what it keeps.\<close>

lemma flood_entry_frame:
  assumes "flood_entry os len buf c a s = Some s'"
  shows "br_fdb s' = br_fdb s" "br_list s' = br_list s" "strip (br_pas s') = strip (br_pas s)"
    "br_sock s' = br_sock s"
    and "mem_bounded (os_malloc os) \<Longrightarrow> stat_inv (br_stats s) \<Longrightarrow> stat_inv (br_stats s')"
proof -
  have "br_fdb s' = br_fdb s \<and> br_list s' = br_list s \<and> strip (br_pas s') = strip (br_pas s)
    \<and> br_sock s' = br_sock s
    \<and> (mem_bounded (os_malloc os) \<longrightarrow> stat_inv (br_stats s) \<longrightarrow> stat_inv (br_stats s'))"
  proof (cases "le_peer (cdl_get (br_list s) a)")
    case None
    with assms show ?thesis by (simp add: flood_entry_def)
  next
    case (Some i)
    from assms Some show ?thesis
    proof (cases rule: flood_entry_cases)
      case (sent w)
      from br_update_tx_frame(1-4) [OF sent(4)] br_update_tx_inv [OF sent(4)] show ?thesis by simp
    qed simp_all
  qed
  then show "br_fdb s' = br_fdb s" "br_list s' = br_list s" "strip (br_pas s') = strip (br_pas s)"
    "br_sock s' = br_sock s"
    and "mem_bounded (os_malloc os) \<Longrightarrow> stat_inv (br_stats s) \<Longrightarrow> stat_inv (br_stats s')"
    by auto
qed

lemma flood_loop_frame:
  assumes "fold_opt (flood_entry os len buf c) as s = Some s'"
  shows "br_fdb s' = br_fdb s" "br_list s' = br_list s" "strip (br_pas s') = strip (br_pas s)"
    "br_sock s' = br_sock s"
    and "mem_bounded (os_malloc os) \<Longrightarrow> stat_inv (br_stats s) \<Longrightarrow> stat_inv (br_stats s')"
proof -
  have "br_fdb s' = br_fdb s \<and> br_list s' = br_list s \<and> strip (br_pas s') = strip (br_pas s)
    \<and> br_sock s' = br_sock s
    \<and> (mem_bounded (os_malloc os) \<longrightarrow> stat_inv (br_stats s) \<longrightarrow> stat_inv (br_stats s'))"
    using assms
  proof (induction as arbitrary: s)
    case (Cons a as)
    then obtain s1 where e: "flood_entry os len buf c a s = Some s1"
      and "fold_opt (flood_entry os len buf c) as s1 = Some s'"
      by (auto simp: Option.bind_eq_Some_conv)
    from Cons.IH [OF this(2)] flood_entry_frame [OF e] show ?case by simp
  qed simp
  then show "br_fdb s' = br_fdb s" "br_list s' = br_list s" "strip (br_pas s') = strip (br_pas s)"
    "br_sock s' = br_sock s"
    and "mem_bounded (os_malloc os) \<Longrightarrow> stat_inv (br_stats s) \<Longrightarrow> stat_inv (br_stats s')"
    by auto
qed

text \<open>
  The loop sends the frame once to every peer on the list that is neither flagged nor the
  sender, in the order of first appearance.
\<close>

definition flood_targets ::
  "sockaddr_in \<Rightarrow> peer_addr_info list \<Rightarrow> wlan_list_entry list \<Rightarrow> sockaddr_in list" where
  "flood_targets c pas L =
     filter (\<lambda>p. p \<noteq> c \<and> p \<notin> flagged pas) (first_occ (map (entry_port pas) L))"

lemma entry_port_strip:
  "strip pas = strip pas' \<Longrightarrow> le_peer e = Some i \<Longrightarrow> i < length pas \<Longrightarrow> entry_port pas e = entry_port pas' e"
  using strip_eqD(3) [of pas pas' i] by (simp add: entry_port_def)

lemma flood_targets_skip:
  assumes "le_peer e = Some i" and "i < length pas" and "distinct (map pa_addr pas)"
    and "flood_flag (pas ! i) = 1 \<or> pa_addr (pas ! i) = c"
  shows "flood_targets c pas (e # L) = flood_targets c pas L"
proof -
  have "\<not> (pa_addr (pas ! i) \<noteq> c \<and> pa_addr (pas ! i) \<notin> flagged pas)"
    using assms(4) in_flagged [OF assms(2,3)] by blast
  moreover have "entry_port pas e = pa_addr (pas ! i)" using assms(1) by (simp add: entry_port_def)
  ultimately show ?thesis
    by (simp add: flood_targets_def del: de_Morgan_conj
        add: filter_removeAll [of "\<lambda>p. p \<noteq> c \<and> p \<notin> flagged pas" "pa_addr (pas ! i)"])
qed

lemma flood_targets_send:
  assumes "le_peer e = Some i" and "i < length pas" and "distinct (map pa_addr pas)"
    and "flood_flag (pas ! i) \<noteq> 1" and "pa_addr (pas ! i) \<noteq> c"
    and "\<forall>x \<in> set L. \<exists>j < length pas. le_peer x = Some j"
  shows "flood_targets c pas (e # L) = pa_addr (pas ! i) # flood_targets c (set_flag i 1 pas) L"
proof -
  have m: "map (entry_port (set_flag i 1 pas)) L = map (entry_port pas) L"
  proof (rule map_cong [OF refl])
    fix x assume "x \<in> set L"
    with assms(6) obtain j where "le_peer x = Some j" "j < length (set_flag i 1 pas)" by auto
    then show "entry_port (set_flag i 1 pas) x = entry_port pas x"
      by (intro entry_port_strip) simp_all
  qed
  have "entry_port pas e = pa_addr (pas ! i)" using assms(1) by (simp add: entry_port_def)
  moreover have "pa_addr (pas ! i) \<notin> flagged pas" using assms(4) in_flagged [OF assms(2,3)] by simp
  moreover have "filter (\<lambda>p. p \<noteq> c \<and> p \<notin> flagged pas) (removeAll q xs)
      = filter (\<lambda>p. p \<noteq> c \<and> p \<notin> insert q (flagged pas)) xs" for q xs
    unfolding filter_removeAll_conj by (rule filter_cong) auto
  ultimately show ?thesis
    using assms(5) by (simp add: flood_targets_def m flagged_set_flag [OF assms(2)])
qed

text \<open>One round, seen on the trace and the flags; and on the counters when nothing fails.\<close>

lemma flood_entry_sends:
  assumes "flood_entry os len buf c a s = Some s'" and "logs_sends os sent"
    and "le_peer (cdl_get (br_list s) a) = Some i" and "i < length (br_pas s)"
  shows "(flood_flag (br_pas s ! i) = 1 \<or> pa_addr (br_pas s ! i) = c) \<and> s' = s
    \<or> flood_flag (br_pas s ! i) \<noteq> 1 \<and> pa_addr (br_pas s ! i) \<noteq> c
      \<and> br_pas s' = set_flag i 1 (br_pas s)
      \<and> sent (br_world s') = sent (br_world s) @ [(take (nat len) buf, pa_addr (br_pas s ! i))]"
  using assms(1,3)
proof (cases rule: flood_entry_cases)
  case (lost r w)
  then have "w = snd (os_sendto os (br_sock s) (take (nat len) buf) (pa_addr (br_pas s ! i)) (br_world s))"
    by simp
  with lost assms(2) show ?thesis by (simp add: logs_sends_def)
next
  case (sent w)
  then have "w = snd (os_sendto os (br_sock s) (take (nat len) buf) (pa_addr (br_pas s ! i)) (br_world s))"
    by simp
  with sent br_update_tx_frame [OF sent(4)] br_update_tx_frame(5) [OF sent(4) assms(2)] assms(2)
  show ?thesis by (simp add: logs_sends_def)
qed simp

lemma flood_loop_sends:
  assumes "fold_opt (flood_entry os len buf c) as s = Some s'" and "logs_sends os sent"
    and "distinct (map pa_addr (br_pas s))"
    and "\<forall>a \<in> set as. \<exists>i < length (br_pas s). le_peer (cdl_get (br_list s) a) = Some i"
  shows "sent (br_world s') = sent (br_world s)
    @ map (Pair (take (nat len) buf)) (flood_targets c (br_pas s) (map (cdl_get (br_list s)) as))"
  using assms
proof (induction as arbitrary: s)
  case Nil
  then show ?case by (simp add: flood_targets_def)
next
  case (Cons a as)
  from Cons.prems(1) obtain s1 where e: "flood_entry os len buf c a s = Some s1"
    and r: "fold_opt (flood_entry os len buf c) as s1 = Some s'"
    by (auto simp: Option.bind_eq_Some_conv)
  from Cons.prems(4) obtain i where i: "le_peer (cdl_get (br_list s) a) = Some i" "i < length (br_pas s)"
    by auto
  note fr = flood_entry_frame [OF e] and l = strip_eqD(1,2) [OF flood_entry_frame(3) [OF e]]
  have IH: "sent (br_world s') = sent (br_world s1)
    @ map (Pair (take (nat len) buf)) (flood_targets c (br_pas s1) (map (cdl_get (br_list s1)) as))"
    using Cons.prems fr l by (intro Cons.IH [OF r]) auto
  have ex: "\<forall>x \<in> set (map (cdl_get (br_list s)) as). \<exists>j < length (br_pas s). le_peer x = Some j"
    using Cons.prems(4) by auto
  from flood_entry_sends [OF e assms(2) i]
  consider (skip) "flood_flag (br_pas s ! i) = 1 \<or> pa_addr (br_pas s ! i) = c" "s1 = s"
    | (send) "flood_flag (br_pas s ! i) \<noteq> 1" "pa_addr (br_pas s ! i) \<noteq> c"
      "br_pas s1 = set_flag i 1 (br_pas s)"
      "sent (br_world s1) = sent (br_world s) @ [(take (nat len) buf, pa_addr (br_pas s ! i))]"
    by blast
  then show ?case
  proof cases
    case skip
    then show ?thesis using IH flood_targets_skip [OF i Cons.prems(3)] by simp
  next
    case send
    then show ?thesis using IH flood_targets_send [OF i Cons.prems(3) _ _ ex] fr(2) by simp
  qed
qed

lemma flood_loop_counts:
  assumes "fold_opt (flood_entry os len buf c) as s = Some s'" and "mem_ok (os_malloc os)"
    and "sends_ok os" and "0 \<le> len" "nat len \<le> length buf" and "stat_inv (br_stats s)"
    and "distinct (map pa_addr (br_pas s))"
    and "\<forall>a \<in> set as. \<exists>i < length (br_pas s). le_peer (cdl_get (br_list s) a) = Some i"
  shows "curr_of (br_stats s') = fold (\<lambda>q. sw_count_tx (sin_addr q) (of_int len))
    (flood_targets c (br_pas s) (map (cdl_get (br_list s)) as)) (curr_of (br_stats s))"
  using assms
proof (induction as arbitrary: s)
  case Nil
  then show ?case by (simp add: flood_targets_def)
next
  case (Cons a as)
  from Cons.prems(1) obtain s1 where e: "flood_entry os len buf c a s = Some s1"
    and r: "fold_opt (flood_entry os len buf c) as s1 = Some s'"
    by (auto simp: Option.bind_eq_Some_conv)
  from Cons.prems(8) obtain i where i: "le_peer (cdl_get (br_list s) a) = Some i" "i < length (br_pas s)"
    by auto
  note fr = flood_entry_frame [OF e] and l = strip_eqD(1,2) [OF flood_entry_frame(3) [OF e]]
  have inv: "stat_inv (br_stats s1)" using fr(5) mem_ok_bounded [OF assms(2)] Cons.prems(6) by simp
  have IH: "curr_of (br_stats s') = fold (\<lambda>q. sw_count_tx (sin_addr q) (of_int len))
    (flood_targets c (br_pas s1) (map (cdl_get (br_list s1)) as)) (curr_of (br_stats s1))"
    using Cons.prems fr(1,2,3,4) l inv by (intro Cons.IH [OF r]) auto
  have ex: "\<forall>x \<in> set (map (cdl_get (br_list s)) as). \<exists>j < length (br_pas s). le_peer x = Some j"
    using Cons.prems(8) by auto
  from e i(1) show ?case
  proof (cases rule: flood_entry_cases)
    case skip
    then show ?thesis using IH flood_targets_skip [OF i Cons.prems(7)] by simp
  next
    case (lost r w)
    with assms(3) have "r = int (length (take (nat len) buf))"
      by (metis fst_conv sends_ok_def)
    with lost(4) assms(4,5) show ?thesis by simp
  next
    case (sent w)
    with br_update_tx_count [OF sent(4) assms(2)] br_update_tx_frame(3) [OF sent(4)] Cons.prems(6)
    show ?thesis using IH flood_targets_send [OF i Cons.prems(7) sent(1,2) ex] fr(2) by simp
  qed
qed

text \<open>The second loop clears every flag it reaches.\<close>

lemma clear_loop_frame:
  "br_fdb (fold clear_entry as s) = br_fdb s \<and> br_list (fold clear_entry as s) = br_list s
    \<and> br_stats (fold clear_entry as s) = br_stats s \<and> br_sock (fold clear_entry as s) = br_sock s
    \<and> br_world (fold clear_entry as s) = br_world s
    \<and> strip (br_pas (fold clear_entry as s)) = strip (br_pas s)"
proof (induction as arbitrary: s)
  case (Cons a as)
  have "br_fdb (clear_entry a s) = br_fdb s \<and> br_list (clear_entry a s) = br_list s
    \<and> br_stats (clear_entry a s) = br_stats s \<and> br_sock (clear_entry a s) = br_sock s
    \<and> br_world (clear_entry a s) = br_world s \<and> strip (br_pas (clear_entry a s)) = strip (br_pas s)"
    by (simp add: clear_entry_def flip: set_flag_def split: option.split)
  with Cons.IH [of "clear_entry a s"] show ?case by simp
qed simp

lemma clear_loop_flags:
  assumes "i < length (br_pas s)"
    and "flood_flag (br_pas s ! i) = 0 \<or> (\<exists>a \<in> set as. le_peer (cdl_get (br_list s) a) = Some i)"
  shows "flood_flag (br_pas (fold clear_entry as s) ! i) = 0"
  using assms
proof (induction as arbitrary: s)
  case (Cons a as)
  have l: "length (br_pas (clear_entry a s)) = length (br_pas s)" "br_list (clear_entry a s) = br_list s"
    by (simp_all add: clear_entry_def split: option.split)
  have "flood_flag (br_pas (clear_entry a s) ! i) = 0
      \<or> (\<exists>b \<in> set as. le_peer (cdl_get (br_list s) b) = Some i)"
    using Cons.prems by (auto simp: clear_entry_def nth_modify_at split: option.split)
  with l Cons.prems(1) show ?case by (auto intro: Cons.IH)
qed simp

section \<open>Flooding under the invariant\<close>

lemma bridge_inv_list:
  assumes "bridge_inv s"
  obtains as where "cdl_foreach_safe (br_list s) = Some as"
    "map (cdl_get (br_list s)) as = cdl_list (br_list s)"
    "\<forall>a \<in> set as. \<exists>i < length (br_pas s). le_peer (cdl_get (br_list s) a) = Some i"
    "distinct (map pa_addr (br_pas s))"
    "\<forall>i < length (br_pas s). \<exists>a \<in> set as. le_peer (cdl_get (br_list s) a) = Some i"
    "\<forall>q \<in> set (br_pas s). flood_flag q = 0"
proof -
  from assms have L: "links_ok (fdb_map (br_fdb s)) (cdl_list (br_list s)) (br_pas s)"
    and c: "cdl_inv (br_list s)" by (auto simp: bridge_inv_def)
  from cdl.foreach_to_list [OF c] obtain as where as: "cdl_foreach_safe (br_list s) = Some as"
    "map (cdl_get (br_list s)) as = cdl_list (br_list s)" by auto
  have S: "set (map le_peer (cdl_list (br_list s))) = (\<lambda>a. le_peer (cdl_get (br_list s) a)) ` set as"
    by (simp add: image_image flip: as(2))
  show ?thesis
  proof (rule that [OF as])
    show "\<forall>a \<in> set as. \<exists>i < length (br_pas s). le_peer (cdl_get (br_list s) a) = Some i"
      using L by (simp add: links_ok_def flip: as(2)) blast
    show "\<forall>i < length (br_pas s). \<exists>a \<in> set as. le_peer (cdl_get (br_list s) a) = Some i"
    proof (intro allI impI)
      fix i assume "i < length (br_pas s)"
      then have "Some i \<in> set (map le_peer (cdl_list (br_list s)))"
        using L by (simp add: links_ok_def)
      then show "\<exists>a \<in> set as. le_peer (cdl_get (br_list s) a) = Some i" unfolding S by force
    qed
    show "distinct (map pa_addr (br_pas s))" using L by (simp add: links_ok_def)
    show "\<forall>q \<in> set (br_pas s). flood_flag q = 0" using L by (auto simp: links_ok_def in_set_conv_nth)
  qed
qed

text \<open>A flood restores the records and leaves the database and the list alone.\<close>

lemma wlan_br_flood_state:
  assumes "bridge_inv s" and "wlan_br_flood os len buf c s = Some s'"
  shows "br_fdb s' = br_fdb s" "br_list s' = br_list s" "br_pas s' = br_pas s" "br_sock s' = br_sock s"
    and "mem_bounded (os_malloc os) \<Longrightarrow> bridge_inv s'"
proof -
  from assms(1) obtain as where as: "cdl_foreach_safe (br_list s) = Some as"
    "\<forall>i < length (br_pas s). \<exists>a \<in> set as. le_peer (cdl_get (br_list s) a) = Some i"
    "\<forall>q \<in> set (br_pas s). flood_flag q = 0"
    by (rule bridge_inv_list)
  from assms(2) obtain s1 as1 s2 bs where
    u: "br_update_rx os (sin_addr c) len s = Some s1" and a1: "cdl_foreach_safe (br_list s1) = Some as1"
    and l: "fold_opt (flood_entry os len buf c) as1 s1 = Some s2"
    and b: "cdl_foreach_safe (br_list s2) = Some bs" and s': "s' = fold clear_entry bs s2"
    by (auto simp: wlan_br_flood_def Option.bind_eq_Some_conv)
  note U = br_update_rx_frame(1-4) [OF u] and F = flood_loop_frame [OF l]
    and C = clear_loop_frame [of bs s2]
  from a1 b as(1) U F have same: "as1 = as" "bs = as" by auto
  show fdb: "br_fdb s' = br_fdb s" and list: "br_list s' = br_list s" and "br_sock s' = br_sock s"
    using U F C s' by auto
  have st: "strip (br_pas s') = strip (br_pas s)" using U F C s' by simp
  have "flood_flag (br_pas s' ! i) = 0" if "i < length (br_pas s')" for i
  proof -
    have len: "length (br_pas s') = length (br_pas s)" "length (br_pas s') = length (br_pas s2)"
      using strip_eqD(1) [OF st] strip_eqD(1) [of "br_pas s'" "br_pas s2"] C s' by simp_all
    with that as(2) same U F have "\<exists>a \<in> set bs. le_peer (cdl_get (br_list s2) a) = Some i" by simp
    with that len(2) show ?thesis unfolding s' by (intro clear_loop_flags) simp_all
  qed
  then have "\<forall>q \<in> set (br_pas s'). flood_flag q = 0" by (metis in_set_conv_nth)
  then have "strip (br_pas s') = br_pas s'" by (intro strip_id) blast
  moreover have "strip (br_pas s) = br_pas s" using as(3) by (intro strip_id) blast
  ultimately show pas: "br_pas s' = br_pas s" using st by metis
  show "bridge_inv s'" if "mem_bounded (os_malloc os)"
  proof -
    have "stat_inv (br_stats s1)" using br_update_rx_inv [OF u that] assms(1) by (simp add: bridge_inv_def)
    then have "stat_inv (br_stats s')" using F(5) [OF that] C s' by simp
    with assms(1) show ?thesis by (simp add: bridge_inv_def fdb list pas)
  qed
qed

lemma flood_targets_ports:
  "\<forall>q \<in> set pas. flood_flag q = 0
     \<Longrightarrow> flood_targets c pas L = filter (\<lambda>p. p \<noteq> c) (first_occ (map (entry_port pas) L))"
  by (auto simp: flood_targets_def flagged_def intro!: filter_cong)

text \<open>It sends the frame to every port but the sender's, and counts it.\<close>

lemma wlan_br_flood_effect:
  assumes "bridge_inv s" and "wlan_br_flood os len buf c s = Some s'"
  shows "logs_sends os sent \<Longrightarrow> sent (br_world s') = sent (br_world s)
      @ map (Pair (take (nat len) buf)) (filter (\<lambda>p. p \<noteq> c) (ports_of s))"
    and "mem_ok (os_malloc os) \<Longrightarrow> sends_ok os \<Longrightarrow> 0 \<le> len \<Longrightarrow> nat len \<le> length buf
      \<Longrightarrow> curr_of (br_stats s') = sw_flood_counts (of_int len) c (filter (\<lambda>p. p \<noteq> c) (ports_of s))
            (curr_of (br_stats s))"
proof -
  from assms(1) obtain as where as: "cdl_foreach_safe (br_list s) = Some as"
    "map (cdl_get (br_list s)) as = cdl_list (br_list s)"
    "\<forall>a \<in> set as. \<exists>i < length (br_pas s). le_peer (cdl_get (br_list s) a) = Some i"
    "distinct (map pa_addr (br_pas s))" "\<forall>q \<in> set (br_pas s). flood_flag q = 0"
    by (rule bridge_inv_list)
  from assms(2) obtain s1 as1 s2 bs where
    u: "br_update_rx os (sin_addr c) len s = Some s1" and a1: "cdl_foreach_safe (br_list s1) = Some as1"
    and l: "fold_opt (flood_entry os len buf c) as1 s1 = Some s2"
    and s': "s' = fold clear_entry bs s2"
    by (auto simp: wlan_br_flood_def Option.bind_eq_Some_conv)
  note U = br_update_rx_frame [OF u] and C = clear_loop_frame [of bs s2]
  from a1 as(1) U have same: "as1 = as" by auto
  have ports: "flood_targets c (br_pas s1) (map (cdl_get (br_list s1)) as) = filter (\<lambda>p. p \<noteq> c) (ports_of s)"
    using U(2,3) as(2,5) by (simp add: flood_targets_ports ports_of_def)
  show "sent (br_world s') = sent (br_world s)
      @ map (Pair (take (nat len) buf)) (filter (\<lambda>p. p \<noteq> c) (ports_of s))" if "logs_sends os sent"
    using flood_loop_sends [OF l that] as(3,4) U(2,3) U(5) [OF that] C ports same s' by simp
  show "curr_of (br_stats s') = sw_flood_counts (of_int len) c (filter (\<lambda>p. p \<noteq> c) (ports_of s))
      (curr_of (br_stats s))"
    if "mem_ok (os_malloc os)" "sends_ok os" "0 \<le> len" "nat len \<le> length buf"
  proof -
    have inv: "stat_inv (br_stats s)" using assms(1) by (simp add: bridge_inv_def)
    from br_update_rx_inv [OF u mem_ok_bounded [OF that(1)] inv] br_update_rx_count [OF u that(1) inv]
      flood_loop_counts [OF l that] as(3,4) U(2,3) C ports same s'
    show ?thesis by (simp add: sw_flood_counts_def)
  qed
qed

end
