(* ===== verification/Bridge_Refine.thy ===== *)
theory Bridge_Refine
  imports Bridge_Inv
begin

text \<open>
  The simulation between the forwarding plane of \<open>Forward\<close> and the abstract switch: learning,
  the two handlers, and runs of many frames.
\<close>

section \<open>Learning\<close>

lemma list_search_spec:
  assumes "\<forall>e \<in> set L. \<exists>i < length pas. le_peer e = Some i"
  shows "(\<exists>i. list_search pas L p = Some (Some i) \<and> Some i \<in> le_peer ` set L \<and> pa_addr (pas ! i) = p)
    \<or> list_search pas L p = Some None \<and> (\<forall>e \<in> set L. entry_port pas e \<noteq> p)"
  using assms
proof (induction L)
  case (Cons e L)
  then obtain i where i: "le_peer e = Some i" by auto
  show ?case
  proof (cases "pa_addr (pas ! i) = p")
    case True
    with i show ?thesis by auto
  next
    case False
    have "\<forall>e \<in> set L. \<exists>i < length pas. le_peer e = Some i" using Cons.prems by simp
    from Cons.IH [OF this] False i show ?thesis by (auto simp: entry_port_def)
  qed
qed simp

text \<open>The list and the records after a new address \<open>m\<close> of peer \<open>p\<close>.\<close>

lemma links_ok_known_peer:
  assumes L: "links_ok T L pas" and T: "T m = None" and i: "i < length pas" "pa_addr (pas ! i) = p"
  shows "links_ok (T(m \<mapsto> p)) (\<lparr>le_mac = m, le_peer = Some i\<rparr> # L)
    (modify_at i (\<lambda>q. q\<lparr>pa_count := pa_count q + 1, flood_flag := 0\<rparr>) pas)" (is "links_ok ?T ?L ?pas")
proof -
  have pa: "pa_addr (?pas ! j) = pa_addr (pas ! j)" if "j < length pas" for j
    using that by (simp add: nth_modify_at)
  have mac: "T (le_mac e) \<noteq> None" if "e \<in> set L" for e
    using L that by (auto simp: links_ok_def)
  have "\<forall>e \<in> set ?L. \<exists>j < length ?pas. le_peer e = Some j \<and> ?T (le_mac e) = Some (pa_addr (?pas ! j))"
    using L i pa mac T by (fastforce simp: links_ok_def)
  moreover have "distinct (map le_mac ?L)"
    using L mac T by (force simp: links_ok_def)
  moreover have "distinct (map pa_addr ?pas)"
    using L by (simp add: links_ok_def map_modify_at_id)
  moreover have "set (map le_peer ?L) = Some ` {..<length ?pas}"
    using L i(1) by (auto simp: links_ok_def)
  moreover have "\<forall>j < length ?pas. pa_count (?pas ! j) = of_nat (count_list (map le_peer ?L) (Some j))
      \<and> flood_flag (?pas ! j) = 0"
    using L by (auto simp: links_ok_def nth_modify_at)
  ultimately show ?thesis unfolding links_ok_def by blast
qed

lemma links_ok_new_peer:
  assumes L: "links_ok T L pas" and T: "T m = None" and p: "p \<notin> pa_addr ` set pas"
  shows "links_ok (T(m \<mapsto> p)) (\<lparr>le_mac = m, le_peer = Some (length pas)\<rparr> # L)
    (pas @ [\<lparr>pa_addr = p, pa_count = 1, flood_flag = 0\<rparr>])" (is "links_ok ?T ?L ?pas")
proof -
  have mac: "T (le_mac e) \<noteq> None" if "e \<in> set L" for e
    using L that by (auto simp: links_ok_def)
  have lt: "\<exists>j < length pas. le_peer e = Some j \<and> T (le_mac e) = Some (pa_addr (pas ! j))" if "e \<in> set L" for e
    using L that by (simp add: links_ok_def)
  have "\<exists>j < length ?pas. le_peer e = Some j \<and> ?T (le_mac e) = Some (pa_addr (?pas ! j))"
    if e: "e \<in> set ?L" for e
  proof (cases "e \<in> set L")
    case True
    from lt [OF this] obtain j where "j < length pas" "le_peer e = Some j"
      "T (le_mac e) = Some (pa_addr (pas ! j))" by blast
    with T mac [OF True] show ?thesis by (intro exI [of _ j]) (auto simp: nth_append)
  next
    case False
    with e show ?thesis by (auto simp: nth_append)
  qed
  moreover have "distinct (map le_mac ?L)"
    using L mac T by (force simp: links_ok_def)
  moreover have "distinct (map pa_addr ?pas)"
    using L p by (auto simp: links_ok_def)
  moreover have "set (map le_peer ?L) = Some ` {..<length ?pas}"
    using L by (auto simp: links_ok_def lessThan_Suc)
  moreover have "pa_count (?pas ! j) = of_nat (count_list (map le_peer ?L) (Some j))
      \<and> flood_flag (?pas ! j) = 0" if "j < length ?pas" for j
  proof (cases "j = length pas")
    case True
    have "Some (length pas) \<notin> set (map le_peer L)" using L by (auto simp: links_ok_def)
    with True show ?thesis by (simp add: count_list_0_iff)
  next
    case False
    with that have "j < length pas" by simp
    with L show ?thesis by (simp add: links_ok_def nth_append)
  qed
  ultimately show ?thesis unfolding links_ok_def by blast
qed

text \<open>
  What learning does: nothing for a known address; otherwise, memory permitting, the address is
  mapped to the peer and the peer moves to the front of the ports.
\<close>

lemma wlan_list_update_spec:
  assumes "wlan_list_update os p mac s = Some (r, s')" and "fdb_inv (br_fdb s)" "stat_inv (br_stats s)"
    and "cdl_inv (br_list s)" and L: "links_ok T (cdl_list (br_list s)) (br_pas s)"
    and T: "T (take ETH_ALEN mac) = None"
  shows "br_fdb s' = br_fdb s" "br_stats s' = br_stats s" "br_sock s' = br_sock s"
    and "cdl_inv (br_list s')"
    and "r = 1 \<Longrightarrow> links_ok (T(take ETH_ALEN mac \<mapsto> p)) (cdl_list (br_list s')) (br_pas s')"
    and "r = 1 \<Longrightarrow> ports_of s' = p # removeAll p (ports_of s)"
    and "r \<noteq> 1 \<Longrightarrow> br_list s' = br_list s \<and> br_pas s' = br_pas s"
    and "r \<noteq> 1 \<Longrightarrow> \<not> mem_ok (os_malloc os)"
    and "logs_sends os sent \<Longrightarrow> sent (br_world s') = sent (br_world s)"
proof -
  have ex: "\<forall>e \<in> set (cdl_list (br_list s)). \<exists>i < length (br_pas s). le_peer e = Some i"
    using L by (auto simp: links_ok_def)
  obtain as where as: "cdl_foreach_safe (br_list s) = Some as"
    "map (cdl_get (br_list s)) as = cdl_list (br_list s)"
    using cdl.foreach_to_list [OF assms(4)] by auto
  obtain ok w1 where m1: "os_malloc os sizeof_wlan_list_entry (br_world s) = (ok, w1)" by fastforce
  have frame: "sent (snd (os_malloc os n w)) = sent w" if "logs_sends os sent" for sent n w
    using that by (simp add: logs_sends_def)
  have log1: "sent w1 = sent (br_world s)" if "logs_sends os sent" for sent
    using frame [OF that, of sizeof_wlan_list_entry "br_world s"] m1 by simp
  let ?m = "take ETH_ALEN mac"
  have main: "br_fdb s' = br_fdb s \<and> br_stats s' = br_stats s \<and> br_sock s' = br_sock s
    \<and> cdl_inv (br_list s') \<and> (r = 1 \<longrightarrow> links_ok (T(?m \<mapsto> p)) (cdl_list (br_list s')) (br_pas s')
        \<and> ports_of s' = p # removeAll p (ports_of s))
    \<and> (r \<noteq> 1 \<longrightarrow> br_list s' = br_list s \<and> br_pas s' = br_pas s \<and> \<not> mem_ok (os_malloc os))
    \<and> (\<forall>sent. logs_sends os sent \<longrightarrow> sent (br_world s') = sent (br_world s))"
  proof (cases ok)
    case False
    have "\<not> mem_ok (os_malloc os)"
    proof
      assume "mem_ok (os_malloc os)"
      then have "fst (os_malloc os sizeof_wlan_list_entry (br_world s))"
        by (simp add: mem_ok_def sizeof_wlan_list_entry_def)
      with False m1 show False by simp
    qed
    with False assms(1,4) m1 log1 show ?thesis
      by (auto simp: wlan_list_update_def br_malloc_def)
  next
    case True
    from list_search_spec [OF ex, of p] show ?thesis
    proof (elim disjE exE conjE)
      fix i
      assume i: "list_search (br_pas s) (cdl_list (br_list s)) p = Some (Some i)"
        "Some i \<in> le_peer ` set (cdl_list (br_list s))" "pa_addr (br_pas s ! i) = p"
      from i(2) ex have lt: "i < length (br_pas s)" by force
      let ?e = "\<lparr>le_mac = ?m, le_peer = Some i\<rparr>"
      let ?pas = "modify_at i (\<lambda>q. q\<lparr>pa_count := pa_count q + 1, flood_flag := 0\<rparr>) (br_pas s)"
      have s': "r = 1" "s' = s\<lparr>br_pas := ?pas, br_list := cdl_prepend ?e (br_list s), br_world := w1\<rparr>"
        using True assms(1) m1 i(1) as by (auto simp: wlan_list_update_def br_malloc_def)
      have "map (entry_port ?pas) (cdl_list (br_list s)) = map (entry_port (br_pas s)) (cdl_list (br_list s))"
        using ex by (auto simp: entry_port_def nth_modify_at)
      moreover have "entry_port ?pas ?e = p" using lt i(3) by (simp add: entry_port_def nth_modify_at)
      ultimately have "ports_of s' = p # removeAll p (ports_of s)"
        using s' by (simp add: ports_of_def cdl.to_list_prepend [OF assms(4)] del: map_eq_conv)
      with links_ok_known_peer [OF L T lt i(3)] s' log1 show ?thesis
        by (simp add: cdl.to_list_prepend [OF assms(4)] cdl.inv_prepend [OF assms(4)])
    next
      assume i: "list_search (br_pas s) (cdl_list (br_list s)) p = Some None"
        "\<forall>e \<in> set (cdl_list (br_list s)). entry_port (br_pas s) e \<noteq> p"
      obtain ok2 w2 where m2: "os_malloc os sizeof_peer_addr_info w1 = (ok2, w2)" by fastforce
      have log2: "sent w2 = sent (br_world s)" if "logs_sends os sent" for sent
        using frame [OF that, of sizeof_peer_addr_info w1] m2 log1 [OF that] by simp
      show ?thesis
      proof (cases ok2)
        case False
        have "\<not> mem_ok (os_malloc os)"
        proof
          assume "mem_ok (os_malloc os)"
          then have "fst (os_malloc os sizeof_peer_addr_info w1)"
            by (simp add: mem_ok_def sizeof_peer_addr_info_def)
          with False m2 show False by simp
        qed
        with False True assms(1,4) m1 m2 i(1) as log2 show ?thesis
          by (auto simp: wlan_list_update_def br_malloc_def)
      next
        case ok2: True
        let ?e = "\<lparr>le_mac = ?m, le_peer = Some (length (br_pas s))\<rparr>"
        let ?pas = "br_pas s @ [\<lparr>pa_addr = p, pa_count = 1, flood_flag = 0\<rparr>]"
        have s': "r = 1" "s' = s\<lparr>br_pas := ?pas, br_list := cdl_prepend ?e (br_list s), br_world := w2\<rparr>"
          using ok2 True assms(1) m1 m2 i(1) as by (auto simp: wlan_list_update_def br_malloc_def)
        have "map (entry_port ?pas) (cdl_list (br_list s)) = map (entry_port (br_pas s)) (cdl_list (br_list s))"
          using ex by (auto simp: entry_port_def nth_append)
        moreover have "entry_port ?pas ?e = p" by (simp add: entry_port_def)
        ultimately have "ports_of s' = p # removeAll p (ports_of s)"
          using s' by (simp add: ports_of_def cdl.to_list_prepend [OF assms(4)] del: map_eq_conv)
        moreover have "p \<notin> pa_addr ` set (br_pas s)"
        proof
          assume "p \<in> pa_addr ` set (br_pas s)"
          then obtain j where "j < length (br_pas s)" "pa_addr (br_pas s ! j) = p"
            by (auto simp: in_set_conv_nth)
          moreover from this(1) L have "Some j \<in> set (map le_peer (cdl_list (br_list s)))"
            by (simp add: links_ok_def)
          then obtain e where "e \<in> set (cdl_list (br_list s))" "le_peer e = Some j" by force
          ultimately show False using i(2) by (force simp: entry_port_def)
        qed
        ultimately show ?thesis using links_ok_new_peer [OF L T] s' log2
          by (simp add: cdl.to_list_prepend [OF assms(4)] cdl.inv_prepend [OF assms(4)])
      qed
    qed
  qed
  then show "br_fdb s' = br_fdb s" "br_stats s' = br_stats s" "br_sock s' = br_sock s"
    and "cdl_inv (br_list s')"
    and "r = 1 \<Longrightarrow> links_ok (T(?m \<mapsto> p)) (cdl_list (br_list s')) (br_pas s')"
    and "r = 1 \<Longrightarrow> ports_of s' = p # removeAll p (ports_of s)"
    and "r \<noteq> 1 \<Longrightarrow> br_list s' = br_list s \<and> br_pas s' = br_pas s"
    and "r \<noteq> 1 \<Longrightarrow> \<not> mem_ok (os_malloc os)"
    and "logs_sends os sent \<Longrightarrow> sent (br_world s') = sent (br_world s)"
    by auto
qed

lemma take_ETH_ALEN [simp]: "length mac = 6 \<Longrightarrow> take ETH_ALEN mac = mac"
  by (simp add: ETH_ALEN_def)

lemma bridge_fdb_update_eq:
  "bridge_fdb_update os p mac s = Some (r, s') \<longleftrightarrow>
     (\<exists>h w. wlan_fdb_update (os_malloc os) p mac (br_fdb s) (br_world s) = Some (r, h, w)
       \<and> s' = s\<lparr>br_fdb := h, br_world := w\<rparr>)"
  by (auto simp: bridge_fdb_update_def Option.bind_eq_Some_conv)

lemma links_ok_map_le:
  assumes "links_ok T L pas" and "T \<subseteq>\<^sub>m T'"
  shows "links_ok T' L pas"
proof -
  have "T' (le_mac e) = T (le_mac e)" if "e \<in> set L" for e
    using assms that by (fastforce simp: links_ok_def map_le_def dom_def)
  with assms(1) show ?thesis by (auto simp: links_ok_def)
qed

text \<open>
  Learning keeps the invariant whatever the allocator does; with memory it is exactly the
  abstract learning step. Without, a known address never loses or changes its peer.
\<close>

lemma br_learn_spec:
  assumes learn: "br_learn os buf p s = Some s'" and inv: "bridge_inv s"
    and mb: "mem_bounded (os_malloc os)" and len: "length (h_source buf) = 6"
  shows "bridge_inv s'" "br_stats s' = br_stats s" "br_sock s' = br_sock s"
    and "fdb_map (br_fdb s) \<subseteq>\<^sub>m fdb_map (br_fdb s')"
    and "mem_ok (os_malloc os) \<Longrightarrow> switch_of s' = sw_learn p (h_source buf) (switch_of s)"
    and "logs_sends os sent \<Longrightarrow> sent (br_world s') = sent (br_world s)"
proof -
  let ?m = "h_source buf"
  from inv have I: "fdb_inv (br_fdb s)" "stat_inv (br_stats s)" "cdl_inv (br_list s)"
    "links_ok (fdb_map (br_fdb s)) (cdl_list (br_list s)) (br_pas s)" by (auto simp: bridge_inv_def)
  from learn obtain r h w where u: "wlan_fdb_update (os_malloc os) p ?m (br_fdb s) (br_world s) = Some (r, h, w)"
    and rest: "(if r = 1 then map_option snd (wlan_list_update os p ?m (s\<lparr>br_fdb := h, br_world := w\<rparr>))
                else Some (s\<lparr>br_fdb := h, br_world := w\<rparr>)) = Some s'"
    by (auto simp: br_learn_def Option.bind_eq_Some_conv bridge_fdb_update_eq)
  note res = wlan_fdb_update_result [OF I(1) u] and map = wlan_fdb_update_map [OF I(1) u]
    and inv' = wlan_fdb_update_inv [OF mb I(1) _ u]
  have hinv: "fdb_inv h" using inv' len by simp
  have lw: "sent w = sent (br_world s)" if "logs_sends os sent" for sent
    using that wlan_fdb_update_frame [where f = sent and malloc = "os_malloc os", OF _ u]
    by (simp add: logs_sends_def)
  have "bridge_inv s' \<and> br_stats s' = br_stats s \<and> br_sock s' = br_sock s
    \<and> fdb_map (br_fdb s) \<subseteq>\<^sub>m fdb_map (br_fdb s')
    \<and> (mem_ok (os_malloc os) \<longrightarrow> switch_of s' = sw_learn p ?m (switch_of s))
    \<and> (\<forall>sent. logs_sends os sent \<longrightarrow> sent (br_world s') = sent (br_world s))"
  proof (cases "r = 1")
    case False
    with rest have s': "s' = s\<lparr>br_fdb := h, br_world := w\<rparr>" by simp
    from False map have m: "fdb_map h = fdb_map (br_fdb s)" by simp
    have "r = 0" if "mem_ok (os_malloc os)"
      using wlan_fdb_update_nomem [OF that u] res(2) False by auto
    then have "switch_of s' = sw_learn p ?m (switch_of s)" if "mem_ok (os_malloc os)"
      using that res(1) len m by (simp add: s' switch_of_def sw_learn_def ports_of_def)
    with s' m I hinv lw show ?thesis by (simp add: bridge_inv_def)
  next
    case True
    let ?s1 = "s\<lparr>br_fdb := h, br_world := w\<rparr>"
    from True rest obtain r2 where l: "wlan_list_update os p ?m ?s1 = Some (r2, s')" by auto
    have new: "fdb_map (br_fdb s) (take ETH_ALEN ?m) = None"
      using res(1) True by auto
    have m: "fdb_map h = (fdb_map (br_fdb s))(?m \<mapsto> p)" using map True len by simp
    note S = wlan_list_update_spec [OF l, where T = "fdb_map (br_fdb s)"]
    have le: "fdb_map (br_fdb s) \<subseteq>\<^sub>m fdb_map h" using new len m by (auto simp: map_le_def)
    have "links_ok (fdb_map h) (cdl_list (br_list s')) (br_pas s')"
    proof (cases "r2 = 1")
      case True
      with S(5) I hinv new len m show ?thesis by simp
    next
      case False
      with S(7) I hinv new have "br_list s' = br_list s" "br_pas s' = br_pas s" by simp_all
      with links_ok_map_le [OF I(4) le] show ?thesis by simp
    qed
    moreover have "switch_of s' = sw_learn p ?m (switch_of s)" if "mem_ok (os_malloc os)"
    proof -
      have "r2 = 1" using S(8) that I hinv new by auto
      then have "ports_of s' = p # removeAll p (ports_of s)"
        using S(6) I hinv new by (simp add: ports_of_def)
      then show ?thesis using S(1,2) I hinv new m len by (simp add: switch_of_def sw_learn_def)
    qed
    moreover have "sent (br_world s') = sent (br_world s)" if "logs_sends os sent" for sent
      using S(9) [OF _ _ _ _ _ that] I hinv new lw [OF that] by simp
    ultimately show ?thesis using S(1-4) I hinv new le by (simp add: bridge_inv_def)
  qed
  then show "bridge_inv s'" "br_stats s' = br_stats s" "br_sock s' = br_sock s"
    and "fdb_map (br_fdb s) \<subseteq>\<^sub>m fdb_map (br_fdb s')"
    and "mem_ok (os_malloc os) \<Longrightarrow> switch_of s' = sw_learn p ?m (switch_of s)"
    and "logs_sends os sent \<Longrightarrow> sent (br_world s') = sent (br_world s)"
    by auto
qed

section \<open>The handler of one datagram\<close>

lemma wlan_br_forward_known:
  assumes "fdb_inv (br_fdb s)" and "fdb_map (br_fdb s) (take ETH_ALEN mac) = Some q"
  shows "wlan_br_forward os len buf mac c s =
    (if q = c then (0, s)
     else (let (r, s1) = br_send os len buf q s in (if r \<noteq> len then -2 else r, s1)))"
proof -
  from wlan_br_find_map [OF assms(1), of mac] assms(2) obtain a where
    "wlan_br_find (br_fdb s) mac = Some a" "fdb_peer_addr (ut_deref (br_fdb s) a) = q" by auto
  then show ?thesis by (auto simp: wlan_br_forward_def Let_def split_beta)
qed

lemma wlan_br_forward_unknown:
  assumes "fdb_inv (br_fdb s)" and "fdb_map (br_fdb s) (take ETH_ALEN mac) = None"
  shows "wlan_br_forward os len buf mac c s = (-1, s)"
  using wlan_br_find_map [OF assms(1), of mac] assms(2) by (auto simp: wlan_br_forward_def)

text \<open>The two ways of a frame after learning.\<close>

lemma wlan_br_handle_cases:
  assumes "wlan_br_handle os len buf p s = Some s'" and "br_learn os buf p s = Some s1"
    and "bridge_inv s1" and "0 \<le> len" and "length (h_dest buf) = 6"
  obtains (flood) "sw_route (switch_of s1) buf = None" "wlan_br_flood os len buf p s1 = Some s'"
  | (own) "sw_route (switch_of s1) buf = Some p" "s' = s1"
  | (one) q r where "sw_route (switch_of s1) buf = Some q" "q \<noteq> p" "br_send os len buf q s1 = (r, s')"
proof (cases "is_multicast_ether_addr (h_dest buf)")
  case True
  with assms(1,2) show ?thesis
    by (intro flood) (simp_all add: sw_route_def wlan_br_handle_def)
next
  case False
  from assms(3) have inv: "fdb_inv (br_fdb s1)" by (simp add: bridge_inv_def)
  have mac: "take ETH_ALEN (h_dest buf) = h_dest buf" using assms(5) by simp
  show ?thesis
  proof (cases "fdb_map (br_fdb s1) (h_dest buf)")
    case None
    with wlan_br_forward_unknown [OF inv, of "h_dest buf" os len buf p] mac False assms(1,2)
    show ?thesis by (intro flood) (simp_all add: sw_route_def wlan_br_handle_def switch_of_def)
  next
    case (Some q)
    note fw = wlan_br_forward_known [OF inv, of "h_dest buf" q os len buf p]
    show ?thesis
    proof (cases "q = p")
      case True
      with fw Some mac False assms(1,2) show ?thesis
        by (intro own) (simp_all add: sw_route_def wlan_br_handle_def switch_of_def)
    next
      case q: False
      obtain r s2 where b: "br_send os len buf q s1 = (r, s2)" by fastforce
      with fw q Some mac False assms(1,2,4) have "s' = s2"
        by (auto simp: wlan_br_handle_def split: if_splits)
      with b q Some False show ?thesis
        by (intro one) (simp_all add: sw_route_def switch_of_def)
    qed
  qed
qed

lemma br_send_frame:
  assumes "br_send os len buf q s = (r, s')"
  shows "br_fdb s' = br_fdb s" "br_list s' = br_list s" "br_pas s' = br_pas s" "br_sock s' = br_sock s"
    "br_stats s' = br_stats s" and "bridge_inv s \<Longrightarrow> bridge_inv s'" and "switch_of s' = switch_of s"
    and "logs_sends os sent \<Longrightarrow> sent (br_world s') = sent (br_world s) @ [(take (nat len) buf, q)]"
  using assms
  by (auto simp: br_send_def split_beta Let_def send_data_to_udp_client_def logs_sends_def
      bridge_inv_def switch_of_def ports_of_def)

text \<open>The headers of a buffer and of the frame at its start are the same.\<close>

lemma frame_headers:
  assumes "14 \<le> nat len"
  shows "h_dest (take (nat len) buf) = h_dest buf" and "h_source (take (nat len) buf) = h_source buf"
  using assms by (simp_all add: h_dest_def h_source_def ETH_ALEN_def take_drop min_def)

lemma sw_route_frame: "14 \<le> nat len \<Longrightarrow> sw_route sw (take (nat len) buf) = sw_route sw buf"
  by (simp add: sw_route_def frame_headers)

lemma wlan_br_handle_learns:
  assumes "wlan_br_handle os len buf p s = Some s'"
  obtains s1 where "br_learn os buf p s = Some s1"
  using assms by (auto simp: wlan_br_handle_def Option.bind_eq_Some_conv)

text \<open>A buffer with room for an Ethernet header, and a frame inside it that has one.\<close>

definition frame_in :: "int \<Rightarrow> bytes \<Rightarrow> bool" where
  "frame_in len buf \<longleftrightarrow> 14 \<le> nat len \<and> nat len \<le> length buf"

lemma frame_in_facts:
  assumes "frame_in len buf"
  shows "0 \<le> len" "nat len \<le> length buf" "14 \<le> nat len" "length (h_dest buf) = 6"
    "length (h_source buf) = 6" "of_nat (length (take (nat len) buf)) = (of_int len :: u32)"
  using assms by (auto simp: frame_in_def h_dest_def h_source_def ETH_ALEN_def)

text \<open>Any received datagram, however short: the buffer holds the bytes the handler looks at.\<close>

definition hdr_in :: "int \<Rightarrow> bytes \<Rightarrow> bool" where
  "hdr_in len buf \<longleftrightarrow> 0 \<le> len \<and> 12 \<le> length buf"

lemma frame_in_hdr: "frame_in len buf \<Longrightarrow> hdr_in len buf"
  using frame_in_facts(1,2,3) [of len buf] by (simp add: hdr_in_def)

lemma hdr_in_facts:
  assumes "hdr_in len buf"
  shows "0 \<le> len" "length (h_dest buf) = 6" "length (h_source buf) = 6"
  using assms by (auto simp: hdr_in_def h_dest_def h_source_def ETH_ALEN_def)

lemma wlan_br_handle_invariant:
  assumes "wlan_br_handle os len buf p s = Some s'" and "bridge_inv s"
    and "mem_bounded (os_malloc os)" and "hdr_in len buf"
  shows "bridge_inv s'" and "fdb_map (br_fdb s) \<subseteq>\<^sub>m fdb_map (br_fdb s')" and "br_sock s' = br_sock s"
proof -
  note F = hdr_in_facts [OF assms(4)]
  from assms(1) obtain s1 where l: "br_learn os buf p s = Some s1" by (rule wlan_br_handle_learns)
  note L = br_learn_spec [OF l assms(2,3) F(3)]
  have "bridge_inv s' \<and> br_fdb s' = br_fdb s1 \<and> br_sock s' = br_sock s1"
    using assms(1) l L(1) F(1,2)
  proof (cases rule: wlan_br_handle_cases)
    case flood
    from wlan_br_flood_state [OF L(1) flood(2)] assms(3) show ?thesis by simp
  next
    case (one q r)
    from br_send_frame [OF one(3)] L(1) show ?thesis by simp
  qed (use L(1) in simp)
  with L(3,4) show "bridge_inv s'" and "fdb_map (br_fdb s) \<subseteq>\<^sub>m fdb_map (br_fdb s')"
    and "br_sock s' = br_sock s" by simp_all
qed

text \<open>The simulation: with memory and a network that takes whole datagrams.\<close>

lemma wlan_br_handle_simulates:
  assumes h: "wlan_br_handle os len buf p s = Some s'" and inv: "bridge_inv s"
    and env: "mem_ok (os_malloc os)" "sends_ok os" "logs_sends os sent" and fr: "frame_in len buf"
  shows "switch_of s' = fst (sw_handle p (take (nat len) buf) (switch_of s))"
    and "sent (br_world s') = sent (br_world s) @ snd (sw_handle p (take (nat len) buf) (switch_of s))"
proof -
  let ?f = "take (nat len) buf"
  note F = frame_in_facts [OF fr] and mb = mem_ok_bounded [OF env(1)]
  from h obtain s1 where l: "br_learn os buf p s = Some s1" by (rule wlan_br_handle_learns)
  note L = br_learn_spec [OF l inv mb F(5)]
  have sw1: "switch_of s1 = sw_learn p (h_source ?f) (switch_of s)"
    using L(5) [OF env(1)] frame_headers [OF F(3)] by simp
  have "switch_of s' = fst (sw_handle p ?f (switch_of s))
    \<and> sent (br_world s') = sent (br_world s) @ snd (sw_handle p ?f (switch_of s))"
    using h l L(1) F(1,4)
  proof (cases rule: wlan_br_handle_cases)
    case flood
    have route: "sw_route (switch_of s1) ?f = None" using flood(1) F(3) by (simp add: sw_route_frame)
    note S = wlan_br_flood_state(1-4) [OF L(1) flood(2)]
    note E = wlan_br_flood_effect(1) [OF L(1) flood(2) env(3)]
      wlan_br_flood_effect(2) [OF L(1) flood(2) env(1,2) F(1,2)]
    have ports: "sw_ports (switch_of s1) = ports_of s1" by (simp add: switch_of_def)
    have "switch_of s' = switch_of s1\<lparr>sw_count := sw_flood_counts (of_nat (length ?f)) p
        (sw_dests (switch_of s1) p ?f) (sw_count (switch_of s1))\<rparr>"
      using S E(2) F(6) route by (simp add: switch_of_def ports_of_def sw_dests_def)
    with E(1) L(6) [OF env(3)] route ports show ?thesis
      by (simp add: sw_handle_def Let_def sw_dests_def flip: sw1)
  next
    case own
    then have "sw_route (switch_of s1) ?f = Some p" using F(3) by (simp add: sw_route_frame)
    with own L(6) [OF env(3)] show ?thesis
      by (simp add: sw_handle_def Let_def sw_dests_def flip: sw1)
  next
    case (one q r)
    then have "sw_route (switch_of s1) ?f = Some q" using F(3) by (simp add: sw_route_frame)
    with one(2) br_send_frame(7) [OF one(3)] br_send_frame(8) [OF one(3) env(3)] L(6) [OF env(3)]
    show ?thesis by (simp add: sw_handle_def Let_def sw_dests_def flip: sw1)
  qed
  then show "switch_of s' = fst (sw_handle p ?f (switch_of s))"
    and "sent (br_world s') = sent (br_world s) @ snd (sw_handle p ?f (switch_of s))" by simp_all
qed

lemma ports_pas:
  assumes "bridge_inv s"
  shows "set (ports_of s) = pa_addr ` set (br_pas s)"
proof -
  from assms have L: "links_ok (fdb_map (br_fdb s)) (cdl_list (br_list s)) (br_pas s)"
    by (simp add: bridge_inv_def)
  let ?P = "map le_peer (cdl_list (br_list s))"
  have "set (ports_of s) = (\<lambda>o'. pa_addr (br_pas s ! the o')) ` set ?P"
    by (auto simp: ports_of_def entry_port_def image_image)
  also have "\<dots> = (\<lambda>i. pa_addr (br_pas s ! i)) ` {..<length (br_pas s)}"
    using L by (simp add: links_ok_def image_image)
  also have "\<dots> = pa_addr ` set (br_pas s)"
    by (auto simp: in_set_conv_nth intro!: image_eqI [OF _ nth_mem])
  finally show ?thesis .
qed

text \<open>
  Without any hypothesis on memory or on what the network takes: the datagrams sent are the
  frame, at most once to each peer, never to the sender.
\<close>

lemma ports_known:
  assumes "bridge_inv s"
  shows "set (ports_of s) \<subseteq> ran (fdb_map (br_fdb s))" and "distinct (ports_of s)"
  using assms by (fastforce simp: ports_of_def entry_port_def bridge_inv_def links_ok_def ran_def)+

lemma wlan_br_handle_sends:
  assumes h: "wlan_br_handle os len buf p s = Some s'" and inv: "bridge_inv s"
    and env: "mem_bounded (os_malloc os)" "logs_sends os sent" and fr: "hdr_in len buf"
  shows "\<exists>qs. sent (br_world s') = sent (br_world s) @ map (Pair (take (nat len) buf)) qs
    \<and> distinct qs \<and> p \<notin> set qs \<and> set qs \<subseteq> ran (fdb_map (br_fdb s'))"
proof -
  note F = hdr_in_facts [OF fr]
  from h obtain s1 where l: "br_learn os buf p s = Some s1" by (rule wlan_br_handle_learns)
  note L = br_learn_spec [OF l inv env(1) F(3)]
  from h l L(1) F(1,2) show ?thesis
  proof (cases rule: wlan_br_handle_cases)
    case flood
    from wlan_br_flood_effect(1) [OF L(1) flood(2) env(2)] wlan_br_flood_state(1) [OF L(1) flood(2)]
      L(6) [OF env(2)] ports_known [OF L(1)]
    show ?thesis by (intro exI [of _ "filter (\<lambda>q. q \<noteq> p) (ports_of s1)"]) auto
  next
    case own
    with L(6) [OF env(2)] show ?thesis by (intro exI [of _ "[]"]) simp
  next
    case (one q r)
    from br_send_frame(1) [OF one(3)] br_send_frame(8) [OF one(3) env(2)] L(6) [OF env(2)] one(1,2)
    show ?thesis
      by (intro exI [of _ "[q]"]) (auto simp: sw_route_def switch_of_def ran_def split: if_splits)
  qed
qed

section \<open>Runs of datagrams\<close>

type_synonym datagram = "int \<times> bytes \<times> sockaddr_in"

definition handle_all :: "'w os \<Rightarrow> datagram list \<Rightarrow> 'w bridge \<Rightarrow> 'w bridge option" where
  "handle_all os = fold_opt (\<lambda>(len, buf, p). wlan_br_handle os len buf p)"

definition sw_frames :: "datagram list \<Rightarrow> (sockaddr_in \<times> bytes) list" where
  "sw_frames = map (\<lambda>(len, buf, p). (p, take (nat len) buf))"

lemma handle_all_simulates:
  assumes "handle_all os ds s = Some s'" and "bridge_inv s"
    and env: "mem_ok (os_malloc os)" "sends_ok os" "logs_sends os sent"
    and "\<forall>(len, buf, p) \<in> set ds. frame_in len buf"
  shows "bridge_inv s' \<and> switch_of s' = fst (sw_run (sw_frames ds) (switch_of s))
    \<and> sent (br_world s') = sent (br_world s) @ snd (sw_run (sw_frames ds) (switch_of s))"
  using assms(1,2,6)
proof (induction ds arbitrary: s)
  case Nil
  then show ?case by (simp add: handle_all_def sw_frames_def)
next
  case (Cons d ds)
  obtain len buf p where d: "d = (len, buf, p)" by (cases d)
  with Cons.prems(1) obtain s1 where h: "wlan_br_handle os len buf p s = Some s1"
    and r: "handle_all os ds s1 = Some s'"
    by (auto simp: handle_all_def Option.bind_eq_Some_conv)
  from Cons.prems(3) d have fr: "frame_in len buf" by simp
  note S = wlan_br_handle_simulates [OF h Cons.prems(2) env fr]
  have "bridge_inv s1" by (rule wlan_br_handle_invariant(1) [OF h Cons.prems(2) mem_ok_bounded [OF env(1)] frame_in_hdr [OF fr]])
  from Cons.IH [OF r this] Cons.prems(3) S show ?case
    by (auto simp: sw_frames_def d Let_def split_beta)
qed

lemma handle_all_invariant:
  assumes "handle_all os ds s = Some s'" and "bridge_inv s" and "mem_bounded (os_malloc os)"
    and "\<forall>(len, buf, p) \<in> set ds. hdr_in len buf"
  shows "bridge_inv s' \<and> fdb_map (br_fdb s) \<subseteq>\<^sub>m fdb_map (br_fdb s')"
  using assms(1)[unfolded handle_all_def]
proof (rule fold_opt_inv)
  show "bridge_inv s \<and> fdb_map (br_fdb s) \<subseteq>\<^sub>m fdb_map (br_fdb s)" using assms(2) by simp
next
  fix d :: datagram and t t'
  assume d: "d \<in> set ds" and t: "bridge_inv t \<and> fdb_map (br_fdb s) \<subseteq>\<^sub>m fdb_map (br_fdb t)"
    and step: "(case d of (len, buf, p) \<Rightarrow> wlan_br_handle os len buf p) t = Some t'"
  obtain len buf p where e: "d = (len, buf, p)" by (cases d)
  with d assms(4) have "hdr_in len buf" by auto
  with wlan_br_handle_invariant(1,2) [of os len buf p t t'] step e t assms(3)
  show "bridge_inv t' \<and> fdb_map (br_fdb s) \<subseteq>\<^sub>m fdb_map (br_fdb t')"
    by (auto intro: map_le_trans)
qed

section \<open>The burst handler\<close>

definition out_msg :: "out_frame \<Rightarrow> bytes \<times> sockaddr_in" where
  "out_msg = (\<lambda>(n, b, q). (take n b, q))"

lemma to_array_known:
  assumes "fdb_inv (br_fdb s)" and "fdb_map (br_fdb s) (take ETH_ALEN mac) = Some q"
  shows "wlan_br_forward_to_array os len buf mac c s = do {
      s1 \<leftarrow> br_update_rx os (sin_addr c) len s;
      if q = c then Some (0, None, s1)
      else do {
        s2 \<leftarrow> br_update_tx os (sin_addr q) len s1;
        Some (1, Some (nat len, buf, q), s2)
      }
    }"
proof -
  from wlan_br_find_map [OF assms(1), of mac] assms(2) obtain a where
    "wlan_br_find (br_fdb s) mac = Some a" "fdb_peer_addr (ut_deref (br_fdb s) a) = q" by auto
  then show ?thesis by (simp add: wlan_br_forward_to_array_def Let_def cong: if_cong)
qed

lemma to_array_unknown:
  assumes "fdb_inv (br_fdb s)" and "fdb_map (br_fdb s) (take ETH_ALEN mac) = None"
  shows "wlan_br_forward_to_array os len buf mac c s = Some (-1, None, s)"
  using wlan_br_find_map [OF assms(1), of mac] assms(2) by (auto simp: wlan_br_forward_to_array_def)

text \<open>One round of the burst, by the way the frame takes.\<close>

lemma burst_frame_cases:
  assumes "burst_frame os (n, buf, p) (s, out) = Some (s', out')" and "br_learn os buf p s = Some s1"
    and "bridge_inv s1" and "length (h_dest buf) = 6"
  obtains (flood) "sw_route (switch_of s1) buf = None" "wlan_br_flood os (int n) buf p s1 = Some s'" "out' = out"
  | (own) "sw_route (switch_of s1) buf = Some p" "br_update_rx os (sin_addr p) (int n) s1 = Some s'" "out' = out"
  | (one) q s2 where "sw_route (switch_of s1) buf = Some q" "q \<noteq> p"
      "br_update_rx os (sin_addr p) (int n) s1 = Some s2"
      "br_update_tx os (sin_addr q) (int n) s2 = Some s'" "out' = out @ [(n, buf, q)]"
proof (cases "is_multicast_ether_addr (h_dest buf)")
  case True
  with assms(1,2) show ?thesis by (intro flood) (auto simp: sw_route_def burst_frame_def)
next
  case False
  from assms(3) have inv: "fdb_inv (br_fdb s1)" by (simp add: bridge_inv_def)
  have mac: "take ETH_ALEN (h_dest buf) = h_dest buf" using assms(4) by simp
  show ?thesis
  proof (cases "fdb_map (br_fdb s1) (h_dest buf)")
    case None
    with to_array_unknown [OF inv, of "h_dest buf" os "int n" buf p] mac False assms(1,2)
    show ?thesis by (intro flood) (auto simp: sw_route_def burst_frame_def switch_of_def)
  next
    case (Some q)
    note fw = to_array_known [OF inv, of "h_dest buf" q os "int n" buf p]
    have route: "sw_route (switch_of s1) buf = Some q"
      using Some False by (simp add: sw_route_def switch_of_def)
    show ?thesis
    proof (cases "q = p")
      case True
      with fw Some mac False assms(1,2) route show ?thesis
        by (intro own) (auto simp: burst_frame_def Option.bind_eq_Some_conv)
    next
      case q: False
      with fw Some mac False assms(1,2) obtain s2 where
        "br_update_rx os (sin_addr p) (int n) s1 = Some s2"
        "br_update_tx os (sin_addr q) (int n) s2 = Some s'" "out' = out @ [(n, buf, q)]"
        by (auto simp: burst_frame_def Option.bind_eq_Some_conv)
      with route q show ?thesis by (intro one)
    qed
  qed
qed

lemma counted_frame:
  assumes "br_fdb s' = br_fdb s" "br_list s' = br_list s" "br_pas s' = br_pas s"
    and "bridge_inv s" and "stat_inv (br_stats s')"
  shows "bridge_inv s'" and "switch_of s' = switch_of s\<lparr>sw_count := curr_of (br_stats s')\<rparr>"
  using assms by (simp_all add: bridge_inv_def switch_of_def ports_of_def)

lemma burst_frame_learns:
  assumes "burst_frame os (n, buf, p) (s, out) = Some r"
  obtains s1 where "br_learn os buf p s = Some s1"
  using assms by (auto simp: burst_frame_def Option.bind_eq_Some_conv)

lemma burst_frame_simulates:
  assumes h: "burst_frame os (n, buf, p) (s, out) = Some (s', out')" and inv: "bridge_inv s"
    and env: "mem_ok (os_malloc os)" "sends_ok os" "logs_sends os sent" and fr: "frame_in (int n) buf"
  defines "r \<equiv> sw_handle_burst1 p (take n buf) (switch_of s)"
  shows "bridge_inv s' \<and> switch_of s' = fst r \<and> sent (br_world s') = sent (br_world s) @ fst (snd r)
    \<and> map out_msg out' = map out_msg out @ snd (snd r)"
proof -
  let ?f = "take n buf"
  note F = frame_in_facts [OF fr] and mb = mem_ok_bounded [OF env(1)]
  from h obtain s1 where l: "br_learn os buf p s = Some s1" by (rule burst_frame_learns)
  note L = br_learn_spec [OF l inv mb F(5)] and H = frame_headers [OF F(3), of buf, simplified]
  have sw1: "switch_of s1 = sw_learn p (h_source ?f) (switch_of s)"
    using L(5) [OF env(1)] H by simp
  have n: "of_nat (length ?f) = (of_nat n :: u32)" using F(2) by simp
  have route: "sw_route (switch_of s1) ?f = sw_route (switch_of s1) buf"
    using sw_route_frame [OF F(3), of _ buf] by simp
  have st: "stat_inv (br_stats s1)" using L(1) by (simp add: bridge_inv_def)
  have cnt: "sw_count (switch_of s1) = curr_of (br_stats s1)" by (simp add: switch_of_def)
  from h l L(1) F(4) show ?thesis
  proof (cases rule: burst_frame_cases)
    case flood
    note S = wlan_br_flood_state(1-4) [OF L(1) flood(2)] wlan_br_flood_state(5) [OF L(1) flood(2) mb]
    note E = wlan_br_flood_effect(1) [OF L(1) flood(2) env(3)]
      wlan_br_flood_effect(2) [OF L(1) flood(2) env(1,2) F(1,2)]
    have ports: "sw_ports (switch_of s1) = ports_of s1" by (simp add: switch_of_def)
    have "switch_of s' = switch_of s1\<lparr>sw_count := sw_flood_counts (of_nat (length ?f)) p
        (sw_dests (switch_of s1) p ?f) (sw_count (switch_of s1))\<rparr>"
      using S E(2) n route flood(1) by (simp add: switch_of_def ports_of_def sw_dests_def)
    with E(1) L(6) [OF env(3)] route flood(1,3) ports S(5) show ?thesis
      by (simp add: r_def sw_handle_burst1_def Let_def sw_dests_def flip: sw1)
  next
    case own
    note U = br_update_rx_frame [OF own(2)] br_update_rx_inv [OF own(2) mb st]
      br_update_rx_count [OF own(2) env(1) st]
    from counted_frame [OF U(1-3) L(1) U(6)] U(5) [OF env(3)] U(7) L(6) [OF env(3)] own(1,3) route n
    show ?thesis
      by (simp add: r_def sw_handle_burst1_def Let_def sw_dests_def sw_flood_counts_def cnt flip: sw1)
  next
    case (one q s2)
    note U = br_update_rx_frame [OF one(3)] br_update_rx_inv [OF one(3) mb st]
      br_update_rx_count [OF one(3) env(1) st]
    note V = br_update_tx_frame [OF one(4)] br_update_tx_inv [OF one(4) mb U(6)]
      br_update_tx_count [OF one(4) env(1) U(6)]
    from counted_frame [OF V(1-3) _ V(6)] counted_frame [OF U(1-3) L(1) U(6)]
    have C: "bridge_inv s'" "switch_of s' = switch_of s1\<lparr>sw_count := curr_of (br_stats s')\<rparr>" by simp_all
    from C U(5) [OF env(3)] V(5) [OF env(3)] U(7) V(7) L(6) [OF env(3)] one(1,2,5) route n
    show ?thesis
      by (simp add: r_def sw_handle_burst1_def Let_def sw_dests_def sw_flood_counts_def out_msg_def
          cnt flip: sw1)
  qed
qed

lemma burst_frame_invariant:
  assumes h: "burst_frame os (n, buf, p) (s, out) = Some (s', out')" and inv: "bridge_inv s"
    and mb: "mem_bounded (os_malloc os)" and fr: "hdr_in (int n) buf"
  shows "bridge_inv s'"
proof -
  note F = hdr_in_facts [OF fr]
  from h obtain s1 where l: "br_learn os buf p s = Some s1" by (rule burst_frame_learns)
  note L = br_learn_spec [OF l inv mb F(3)]
  have st: "stat_inv (br_stats s1)" using L(1) by (simp add: bridge_inv_def)
  from h l L(1) F(2) show ?thesis
  proof (cases rule: burst_frame_cases)
    case flood
    from wlan_br_flood_state(5) [OF L(1) flood(2) mb] show ?thesis .
  next
    case own
    show ?thesis by (rule counted_frame(1) [OF br_update_rx_frame(1-3) [OF own(2)] L(1)
        br_update_rx_inv [OF own(2) mb st]])
  next
    case (one q s2)
    note st2 = br_update_rx_inv [OF one(3) mb st]
    have "bridge_inv s2" by (rule counted_frame(1) [OF br_update_rx_frame(1-3) [OF one(3)] L(1) st2])
    then show ?thesis by (rule counted_frame(1) [OF br_update_tx_frame(1-3) [OF one(4)] _
        br_update_tx_inv [OF one(4) mb st2]])
  qed
qed

lemma burst_loop_simulates:
  assumes "fold_opt (burst_frame os) fs (s, out) = Some (s', out')" and "bridge_inv s"
    and env: "mem_ok (os_malloc os)" "sends_ok os" "logs_sends os sent"
    and "\<forall>(n, buf, p) \<in> set fs. frame_in (int n) buf"
  shows "bridge_inv s'
    \<and> switch_of s' = fst (sw_handle_burst (map (\<lambda>(n, buf, p). (p, take n buf)) fs) (switch_of s))
    \<and> sent (br_world s') = sent (br_world s)
        @ fst (snd (sw_handle_burst (map (\<lambda>(n, buf, p). (p, take n buf)) fs) (switch_of s)))
    \<and> map out_msg out' = map out_msg out
        @ snd (snd (sw_handle_burst (map (\<lambda>(n, buf, p). (p, take n buf)) fs) (switch_of s)))"
  using assms(1,2,6)
proof (induction fs arbitrary: s out)
  case (Cons d fs)
  obtain n buf p where d: "d = (n, buf, p)" by (cases d)
  with Cons.prems(1) obtain s1 out1 where h: "burst_frame os (n, buf, p) (s, out) = Some (s1, out1)"
    and r: "fold_opt (burst_frame os) fs (s1, out1) = Some (s', out')"
    by (auto simp: Option.bind_eq_Some_conv)
  from Cons.prems(3) d have fr: "frame_in (int n) buf" by simp
  note S = burst_frame_simulates [OF h Cons.prems(2) env fr]
  from Cons.IH [OF r] Cons.prems(3) S show ?case by (simp add: d Let_def split_beta)
qed simp

text \<open>\<open>bursts_ok\<close>: \<open>sendmmsg\<close> takes the whole burst.\<close>

definition bursts_ok :: "'w os \<Rightarrow> ('w \<Rightarrow> (bytes \<times> sockaddr_in) list) \<Rightarrow> bool" where
  "bursts_ok os sent \<longleftrightarrow> (\<forall>fd ms w. fst (fst (os_sendmmsg os fd ms w)) = int (length ms)
     \<and> sent (snd (os_sendmmsg os fd ms w)) = sent w @ ms)"

definition burst_input :: "nat \<Rightarrow> bytes list \<Rightarrow> nat list \<Rightarrow> sockaddr_in list \<Rightarrow> (nat \<times> bytes \<times> sockaddr_in) list" where
  "burst_input k buf data_len peer_addr = map (\<lambda>i. (data_len ! i, buf ! i, peer_addr ! i)) [0..<k]"

lemma burst_msgs_out: "burst_msgs (map (fst \<circ> snd) out) (map fst out) (map (snd \<circ> snd) out) (length out)
  = map out_msg out"
  by (rule nth_equalityI) (auto simp: burst_msgs_def out_msg_def split_beta)

lemma send_burst_ok:
  assumes "bursts_ok os sent"
  shows "sent (snd (send_data_to_udp_client_burst os fd b l q n w)) = sent w @ burst_msgs b l q n"
proof -
  obtain r lens w1 where "os_sendmmsg os fd (burst_msgs b l q n) w = ((r, lens), w1)"
    by (metis prod.collapse)
  moreover from this assms have "r = int n" "sent w1 = sent w @ burst_msgs b l q n"
    by (auto simp: bursts_ok_def dest!: spec [where x = fd] spec [where x = "burst_msgs b l q n"]
        spec [where x = w])
  ultimately show ?thesis by (simp add: send_data_to_udp_client_burst_def Let_def)
qed

lemma wlan_br_handle_burst_simulates:
  assumes h: "wlan_br_handle_burst os k buf data_len peer_addr s = Some s'" and inv: "bridge_inv s"
    and env: "mem_ok (os_malloc os)" "sends_ok os" "logs_sends os sent" "bursts_ok os sent"
    and fr: "\<forall>i < k. frame_in (int (data_len ! i)) (buf ! i)"
  defines "r \<equiv> sw_handle_burst (map (\<lambda>i. (peer_addr ! i, take (data_len ! i) (buf ! i))) [0..<k]) (switch_of s)"
  shows "bridge_inv s' \<and> switch_of s' = fst r
    \<and> sent (br_world s') = sent (br_world s) @ fst (snd r) @ snd (snd r)"
proof -
  from h obtain s1 out where l: "fold_opt (burst_frame os) (burst_input k buf data_len peer_addr) (s, [])
      = Some (s1, out)"
    and rest: "(if 0 < length out then
       (let (_, w) = send_data_to_udp_client_burst os (br_sock s1) (map (fst \<circ> snd) out) (map fst out)
                       (map (snd \<circ> snd) out) (length out) (br_world s1)
        in Some (s1\<lparr>br_world := w\<rparr>))
     else Some s1) = Some s'"
    by (auto simp: wlan_br_handle_burst_def burst_input_def Option.bind_eq_Some_conv)
  have "\<forall>(n, buf, p) \<in> set (burst_input k buf data_len peer_addr). frame_in (int n) buf"
    using fr by (auto simp: burst_input_def)
  moreover have "map (\<lambda>(n, buf, p). (p, take n buf)) (burst_input k buf data_len peer_addr)
      = map (\<lambda>i. (peer_addr ! i, take (data_len ! i) (buf ! i))) [0..<k]"
    by (simp add: burst_input_def)
  ultimately have B: "bridge_inv s1 \<and> switch_of s1 = fst r \<and> sent (br_world s1) = sent (br_world s) @ fst (snd r)
      \<and> map out_msg out = snd (snd r)"
    using burst_loop_simulates [OF l inv env(1-3)] by (simp add: r_def)
  show ?thesis
  proof (cases "out = []")
    case True
    with rest B show ?thesis by auto
  next
    case False
    obtain x w where s: "send_data_to_udp_client_burst os (br_sock s1) (map (fst \<circ> snd) out) (map fst out)
                       (map (snd \<circ> snd) out) (length out) (br_world s1) = (x, w)" by fastforce
    with send_burst_ok [OF env(4), of "br_sock s1" "map (fst \<circ> snd) out" "map fst out"
        "map (snd \<circ> snd) out" "length out" "br_world s1"]
    have "sent w = sent (br_world s1) @ map out_msg out" by (simp add: burst_msgs_out)
    moreover from False rest s have "s' = s1\<lparr>br_world := w\<rparr>" by auto
    ultimately show ?thesis using B by (simp add: bridge_inv_def switch_of_def ports_of_def)
  qed
qed

end
