(* ===== verification/Bridge_Returns.thy ===== *)
theory Bridge_Returns
  imports Bridge_Refine
begin

text \<open>
  The handlers return: no run of them exits in uthash or follows a NULL pointer when there is
  memory and the two hash tables have room for the new addresses of the traffic.
\<close>

section \<open>Counting and flooding\<close>

lemma br_update_rx_returns:
  assumes "mem_ok (os_malloc os)" and "stat_inv (br_stats s)" and "stat_room I (br_stats s)"
    and "ip \<in> I" and "finite I"
  shows "\<exists>s'. br_update_rx os ip len s = Some s' \<and> stat_inv (br_stats s') \<and> stat_room I (br_stats s')"
  using ip_stat_apply_returns [OF assms, of "add_rx 1 (word_of_int len)" "br_world s"]
  by (auto simp: br_update_rx_def update_rx_apply add_rx_def)

lemma br_update_tx_returns:
  assumes "mem_ok (os_malloc os)" and "stat_inv (br_stats s)" and "stat_room I (br_stats s)"
    and "ip \<in> I" and "finite I"
  shows "\<exists>s'. br_update_tx os ip len s = Some s' \<and> stat_inv (br_stats s') \<and> stat_room I (br_stats s')"
  using ip_stat_apply_returns [OF assms, of "add_tx 1 (word_of_int len)" "br_world s"]
  by (auto simp: br_update_tx_def update_tx_apply add_tx_def)

lemma flood_loop_returns:
  assumes "mem_ok (os_malloc os)" and "stat_inv (br_stats s)" and "stat_room I (br_stats s)"
    and "sin_addr ` pa_addr ` set (br_pas s) \<subseteq> I" and "finite I"
    and "\<forall>a \<in> set as. \<exists>i < length (br_pas s). le_peer (cdl_get (br_list s) a) = Some i"
  shows "\<exists>s'. fold_opt (flood_entry os len buf c) as s = Some s' \<and> stat_room I (br_stats s')"
  using assms
proof (induction as arbitrary: s)
  case (Cons a as)
  from Cons.prems(6) obtain i where i: "le_peer (cdl_get (br_list s) a) = Some i" "i < length (br_pas s)"
    by auto
  have "\<exists>s1. flood_entry os len buf c a s = Some s1 \<and> stat_inv (br_stats s1) \<and> stat_room I (br_stats s1)"
  proof (cases "flood_flag (br_pas s ! i) = 1 \<or> pa_addr (br_pas s ! i) = c")
    case True
    with i Cons.prems(2,3) show ?thesis by (auto simp: flood_entry_def Let_def)
  next
    case False
    let ?p = "pa_addr (br_pas s ! i)"
    obtain r s2 where b: "br_send os len buf ?p
        (s\<lparr>br_pas := modify_at i (\<lambda>q. q\<lparr>flood_flag := 1\<rparr>) (br_pas s)\<rparr>) = (r, s2)"
      by fastforce
    then have st: "br_stats s2 = br_stats s" by (auto simp: br_send_def split_beta Let_def)
    have "sin_addr ?p \<in> I" using Cons.prems(4) i(2) by auto
    with br_update_tx_returns [OF assms(1), of s2 I "sin_addr ?p" len] st Cons.prems(2,3,5)
    obtain s3 where "br_update_tx os (sin_addr ?p) len s2 = Some s3" "stat_inv (br_stats s3)"
      "stat_room I (br_stats s3)" by auto
    with False i b st Cons.prems(2,3) show ?thesis
      by (cases "r = len") (auto simp: flood_entry_def Let_def)
  qed
  then obtain s1 where e: "flood_entry os len buf c a s = Some s1"
    and s1: "stat_inv (br_stats s1)" "stat_room I (br_stats s1)" by blast
  note F = flood_entry_frame [OF e] and L = strip_eqD(1,2) [OF flood_entry_frame(3) [OF e]]
  have "sin_addr ` pa_addr ` set (br_pas s1) = sin_addr ` pa_addr ` set (br_pas s)"
    using L(2) by (metis set_map)
  with Cons.prems F L s1 have "\<exists>s'. fold_opt (flood_entry os len buf c) as s1 = Some s' \<and> stat_room I (br_stats s')"
    by (intro Cons.IH) auto
  with e show ?case by simp
qed simp

text \<open>
  Room for traffic from addresses in \<open>I\<close> and stations in \<open>M\<close>: the address of every known peer is in \<open>I\<close>,
  and the two hash tables have room for what they do not know yet of \<open>I\<close> and \<open>M\<close>.
\<close>

definition room :: "u32 set \<Rightarrow> bytes set \<Rightarrow> 'w bridge \<Rightarrow> bool" where
  "room I M s \<longleftrightarrow> finite I \<and> finite M \<and> fdb_room M (br_fdb s) \<and> stat_room I (br_stats s)
     \<and> sin_addr ` ran (fdb_map (br_fdb s)) \<subseteq> I"

lemma br_update_rx_room:
  assumes "mem_ok (os_malloc os)" and "stat_inv (br_stats s)" and "room I M s" and "ip \<in> I"
  shows "\<exists>s'. br_update_rx os ip len s = Some s' \<and> room I M s'"
  using br_update_rx_returns [of os s I ip len] br_update_rx_frame(1-3) [of os ip len s] assms
  by (auto simp: room_def)

lemma br_update_tx_room:
  assumes "mem_ok (os_malloc os)" and "stat_inv (br_stats s)" and "room I M s" and "ip \<in> I"
  shows "\<exists>s'. br_update_tx os ip len s = Some s' \<and> room I M s'"
  using br_update_tx_returns [of os s I ip len] br_update_tx_frame(1-3) [of os ip len s] assms
  by (auto simp: room_def)

lemma wlan_br_flood_room:
  assumes "bridge_inv s" and "mem_ok (os_malloc os)" and "room I M s" and "sin_addr c \<in> I"
  shows "\<exists>s'. wlan_br_flood os len buf c s = Some s' \<and> room I M s'"
proof -
  from assms(1) obtain as where as: "cdl_foreach_safe (br_list s) = Some as"
    "\<forall>a \<in> set as. \<exists>i < length (br_pas s). le_peer (cdl_get (br_list s) a) = Some i"
    by (rule bridge_inv_list)
  have inv: "stat_inv (br_stats s)" using assms(1) by (simp add: bridge_inv_def)
  from assms(3) have R: "stat_room I (br_stats s)" "finite I" "sin_addr ` pa_addr ` set (br_pas s) \<subseteq> I"
    using ports_known(1) [OF assms(1)] ports_pas [OF assms(1)] by (auto simp: room_def)
  from br_update_rx_returns [OF assms(2) inv R(1) assms(4) R(2)] obtain s1 where
    u: "br_update_rx os (sin_addr c) len s = Some s1" "stat_inv (br_stats s1)" "stat_room I (br_stats s1)"
    by blast
  note U = br_update_rx_frame(1-4) [OF u(1)]
  have "\<exists>s2. fold_opt (flood_entry os len buf c) as s1 = Some s2 \<and> stat_room I (br_stats s2)"
    using u as(2) U R by (intro flood_loop_returns [OF assms(2)]) auto
  then obtain s2 where l: "fold_opt (flood_entry os len buf c) as s1 = Some s2"
    and r: "stat_room I (br_stats s2)" by blast
  from u as(1) l U flood_loop_frame(2) [OF l]
  have f: "wlan_br_flood os len buf c s = Some (fold clear_entry as s2)" by (simp add: wlan_br_flood_def)
  with wlan_br_flood_state(1,3) [OF assms(1) f] r assms(3) clear_loop_frame [of as s2] show ?thesis
    by (simp add: room_def)
qed

lemma wlan_list_update_returns:
  assumes "cdl_inv (br_list s)" and "links_ok T (cdl_list (br_list s)) (br_pas s)"
  shows "\<exists>r s'. wlan_list_update os p mac s = Some (r, s')"
proof -
  have ex: "\<forall>e \<in> set (cdl_list (br_list s)). \<exists>i < length (br_pas s). le_peer e = Some i"
    using assms(2) by (auto simp: links_ok_def)
  obtain as where as: "cdl_foreach_safe (br_list s) = Some as"
    "map (cdl_get (br_list s)) as = cdl_list (br_list s)"
    using cdl.foreach_to_list [OF assms(1)] by auto
  from list_search_spec [OF ex, of p] obtain f where
    "list_search (br_pas s) (cdl_list (br_list s)) p = Some f" by blast
  with as show ?thesis
    by (cases f) (auto simp: wlan_list_update_def br_malloc_def split_beta Let_def)
qed

lemma br_learn_room:
  assumes "mem_ok (os_malloc os)" and "bridge_inv s" and "room I M s"
    and "sin_addr p \<in> I" and "h_source buf \<in> M" and "length (h_source buf) = 6"
  shows "\<exists>s'. br_learn os buf p s = Some s' \<and> room I M s'"
proof -
  from assms(2) have I: "fdb_inv (br_fdb s)" "cdl_inv (br_list s)" "stat_inv (br_stats s)"
    "links_ok (fdb_map (br_fdb s)) (cdl_list (br_list s)) (br_pas s)" by (auto simp: bridge_inv_def)
  from assms(3,5,6) have R: "fdb_room M (br_fdb s)" "take ETH_ALEN (h_source buf) \<in> M" "finite M"
    by (simp_all add: room_def)
  from wlan_fdb_update_returns [OF assms(1) I(1) R] obtain r h w where
    u: "wlan_fdb_update (os_malloc os) p (h_source buf) (br_fdb s) (br_world s) = Some (r, h, w)"
      "fdb_room M h" by blast
  obtain r2 s2 where l: "wlan_list_update os p (h_source buf) (s\<lparr>br_fdb := h, br_world := w\<rparr>) = Some (r2, s2)"
    using wlan_list_update_returns [of "s\<lparr>br_fdb := h, br_world := w\<rparr>"] I by fastforce
  have "br_learn os buf p s = Some (if r = 1 then s2 else s\<lparr>br_fdb := h, br_world := w\<rparr>)"
    using u l by (simp add: br_learn_def bridge_fdb_update_def)
  then obtain s1 where s1: "br_learn os buf p s = Some s1"
    and "s1 = (if r = 1 then s2 else s\<lparr>br_fdb := h, br_world := w\<rparr>)" by blast
  moreover have "r = 1 \<Longrightarrow> br_fdb s2 = h"
    using wlan_list_update_spec(1) [OF l, where T = "fdb_map (br_fdb s)"] I
      wlan_fdb_update_inv [OF mem_ok_bounded [OF assms(1)] I(1) _ u(1)] assms(6)
      wlan_fdb_update_result(1) [OF I(1) u(1)] by simp
  ultimately have fdb: "br_fdb s1 = h" by auto
  note L = br_learn_spec [OF s1 assms(2) mem_ok_bounded [OF assms(1)] assms(6)]
  have "ran (fdb_map h) \<subseteq> insert p (ran (fdb_map (br_fdb s)))"
    using wlan_fdb_update_map [OF I(1) u(1)] by (auto simp: ran_def split: if_splits)
  then have "sin_addr ` ran (fdb_map h) \<subseteq> I" using assms(3,4) by (auto simp: room_def)
  with assms(3,4) u(2) fdb L(2) s1 show ?thesis by (auto simp: room_def)
qed

text \<open>The handlers return, and leave room for the same traffic.\<close>

lemma wlan_br_handle_returns:
  assumes "bridge_inv s" and "mem_ok (os_malloc os)" and "frame_in len buf" and "room I M s"
    and "sin_addr p \<in> I" and "h_source buf \<in> M"
  shows "\<exists>s'. wlan_br_handle os len buf p s = Some s' \<and> room I M s'"
proof -
  note F = frame_in_facts [OF assms(3)]
  obtain s1 where l: "br_learn os buf p s = Some s1" and r: "room I M s1"
    using br_learn_room [OF assms(2,1,4-6) F(5)] by blast
  note L = br_learn_spec [OF l assms(1) mem_ok_bounded [OF assms(2)] F(5)]
  obtain s' where f: "wlan_br_flood os len buf p s1 = Some s'" "room I M s'"
    using wlan_br_flood_room [OF L(1) assms(2) r assms(5)] by blast
  have inv: "fdb_inv (br_fdb s1)" using L(1) by (simp add: bridge_inv_def)
  show ?thesis
  proof (cases "fdb_map (br_fdb s1) (h_dest buf)")
    case None
    with wlan_br_forward_unknown [OF inv, of "h_dest buf" os len buf p] F(4) f l show ?thesis
      by (simp add: wlan_br_handle_def)
  next
    case (Some q)
    obtain x s2 where b: "br_send os len buf q s1 = (x, s2)" by fastforce
    have "room I M s2" using r br_send_frame(1,3,5) [OF b] by (simp add: room_def)
    with wlan_br_forward_known [OF inv, of "h_dest buf" q os len buf p] Some F(1,4) f l b r
    show ?thesis by (auto simp: wlan_br_handle_def)
  qed
qed

lemma burst_frame_returns:
  assumes "bridge_inv s" and "mem_ok (os_malloc os)" and "frame_in (int n) buf" and "room I M s"
    and "sin_addr p \<in> I" and "h_source buf \<in> M"
  shows "\<exists>s' out'. burst_frame os (n, buf, p) (s, out) = Some (s', out') \<and> room I M s'"
proof -
  note F = frame_in_facts [OF assms(3)]
  obtain s1 where l: "br_learn os buf p s = Some s1" and r: "room I M s1"
    using br_learn_room [OF assms(2,1,4-6) F(5)] by blast
  note mb = mem_ok_bounded [OF assms(2)]
  note L = br_learn_spec [OF l assms(1) mb F(5)]
  obtain s' where f: "wlan_br_flood os (int n) buf p s1 = Some s'" "room I M s'"
    using wlan_br_flood_room [OF L(1) assms(2) r assms(5)] by blast
  have inv: "fdb_inv (br_fdb s1)" and st: "stat_inv (br_stats s1)" using L(1) by (simp_all add: bridge_inv_def)
  show ?thesis
  proof (cases "is_multicast_ether_addr (h_dest buf)")
    case True
    with l f show ?thesis by (simp add: burst_frame_def)
  next
    case uni: False
    show ?thesis
    proof (cases "fdb_map (br_fdb s1) (h_dest buf)")
      case None
      with to_array_unknown [OF inv, of "h_dest buf" os "int n" buf p] F(4) f l uni show ?thesis
        by (simp add: burst_frame_def)
    next
      case (Some q)
      obtain s2 where u: "br_update_rx os (sin_addr p) (int n) s1 = Some s2" "room I M s2"
        using br_update_rx_room [OF assms(2) st r assms(5)] by blast
      have st2: "stat_inv (br_stats s2)" by (rule br_update_rx_inv [OF u(1) mb st])
      have "q \<in> ran (fdb_map (br_fdb s1))" using Some by (auto simp: ran_def)
      then have "sin_addr q \<in> I" using r by (auto simp: room_def)
      from br_update_tx_room [OF assms(2) st2 u(2) this] obtain s3 where
        v: "br_update_tx os (sin_addr q) (int n) s2 = Some s3" "room I M s3" by blast
      from to_array_known [OF inv, of "h_dest buf" q os "int n" buf p] Some F(4) l uni u v
      show ?thesis by (auto simp: burst_frame_def)
    qed
  qed
qed

lemma burst_loop_returns:
  assumes "bridge_inv s" and "mem_ok (os_malloc os)" and "room I M s"
    and "\<forall>(n, buf, p) \<in> set fs. frame_in (int n) buf \<and> sin_addr p \<in> I \<and> h_source buf \<in> M"
  shows "\<exists>s' out'. fold_opt (burst_frame os) fs (s, out) = Some (s', out') \<and> room I M s'"
  using assms
proof (induction fs arbitrary: s out)
  case (Cons d fs)
  obtain n buf p where d: "d = (n, buf, p)" by (cases d)
  with Cons.prems(4) have D: "frame_in (int n) buf" "sin_addr p \<in> I" "h_source buf \<in> M" by auto
  from burst_frame_returns [OF Cons.prems(1,2) D(1) Cons.prems(3) D(2,3)] obtain s1 out1 where
    h: "burst_frame os (n, buf, p) (s, out) = Some (s1, out1)" "room I M s1" by blast
  have "bridge_inv s1"
    by (rule burst_frame_invariant [OF h(1) Cons.prems(1) mem_ok_bounded [OF assms(2)] frame_in_hdr [OF D(1)]])
  from Cons.IH [OF this assms(2) h(2), of out1] Cons.prems(4) h(1) d show ?case by auto
qed simp

lemma wlan_br_handle_burst_room:
  assumes "bridge_inv s" and "mem_ok (os_malloc os)" and "room I M s"
    and "\<forall>i < k. frame_in (int (data_len ! i)) (buf ! i) \<and> sin_addr (peer_addr ! i) \<in> I
      \<and> h_source (buf ! i) \<in> M"
  shows "\<exists>s'. wlan_br_handle_burst os k buf data_len peer_addr s = Some s' \<and> room I M s'"
proof -
  have "\<exists>s' out. fold_opt (burst_frame os) (burst_input k buf data_len peer_addr) (s, []) = Some (s', out)
      \<and> room I M s'"
    using burst_loop_returns [OF assms(1-3), of "burst_input k buf data_len peer_addr" "[]"] assms(4)
    by (fastforce simp: burst_input_def)
  then show ?thesis
    by (auto simp: wlan_br_handle_burst_def burst_input_def split_beta Let_def room_def)
qed

lemma handle_all_returns:
  assumes "bridge_inv s" and "mem_ok (os_malloc os)" and "room I M s"
    and "\<forall>(len, buf, p) \<in> set ds. frame_in len buf \<and> sin_addr p \<in> I \<and> h_source buf \<in> M"
  shows "\<exists>s'. handle_all os ds s = Some s'"
  using assms
proof (induction ds arbitrary: s)
  case (Cons d ds)
  obtain len buf p where d: "d = (len, buf, p)" by (cases d)
  with Cons.prems(4) have D: "frame_in len buf" "sin_addr p \<in> I" "h_source buf \<in> M" by auto
  from wlan_br_handle_returns [OF Cons.prems(1,2) D(1) Cons.prems(3) D(2,3)] obtain s1 where
    h: "wlan_br_handle os len buf p s = Some s1" "room I M s1" by blast
  have "bridge_inv s1"
    by (rule wlan_br_handle_invariant(1) [OF h(1) Cons.prems(1) mem_ok_bounded [OF assms(2)] frame_in_hdr [OF D(1)]])
  from Cons.IH [OF this assms(2) h(2)] Cons.prems(4) h(1) d show ?case by (auto simp: handle_all_def)
qed (simp add: handle_all_def)

end
