(* ===== verification/Server.thy ===== *)
theory Server
  imports Bridge_Returns
begin

text \<open>
  The main program of the server, \<open>wlan_br_server/main.c\<close>: the event loops and \<open>main\<close>. The loops
  run until SIGUSR1 arrives or the socket is empty, so they are \<open>partial_function (option)\<close>: \<open>None\<close>
  is a run that never returns, or one in which the process exits. The threads of the command
  line interface run beside them and are not part of this theory.
\<close>

section \<open>State\<close>

record epoll_stat_info =
  epoll_timeout :: u64
  epoll_error :: u64
  epool_recv :: u64

record 'w server =
  sv_bridge :: "'w bridge"
  sv_epfd :: int
  sv_udp_fd :: int
  sv_running :: bool
  sv_stat :: epoll_stat_info

abbreviation sv_world :: "'w server \<Rightarrow> 'w" where
  "sv_world s \<equiv> br_world (sv_bridge s)"

definition sv_set_world :: "'w \<Rightarrow> 'w server \<Rightarrow> 'w server" where
  "sv_set_world w s = s\<lparr>sv_bridge := (sv_bridge s)\<lparr>br_world := w\<rparr>\<rparr>"

definition epoll_stat_zero :: epoll_stat_info where
  "epoll_stat_zero = \<lparr>epoll_timeout = 0, epoll_error = 0, epool_recv = 0\<rparr>"

definition MAX_DATA_LEN :: nat where
  "MAX_DATA_LEN = 1518"

definition MAX_NUM :: nat where
  "MAX_NUM = 32"

definition UDP_PORT :: u16 where
  "UDP_PORT = 29870"

text \<open>The handler of SIGUSR1, run when the signal has arrived by the next test of the flag.\<close>

definition usr1_handler :: "'w server \<Rightarrow> 'w server" where
  "usr1_handler s = s\<lparr>sv_running := False\<rparr>"

definition deliver_signal :: "'w os \<Rightarrow> 'w server \<Rightarrow> 'w server" where
  "deliver_signal os s =
     (let (arrived, w) = os_sigusr1 os (sv_world s); s1 = sv_set_world w s
      in if arrived then usr1_handler s1 else s1)"

section \<open>Emptying the socket\<close>

text \<open>
  The inner loop of \<open>server_runing\<close>. The buffer and the address are the ones of the function: a
  shorter datagram leaves the tail of a longer one behind it.
\<close>

partial_function (option) drain ::
  "'w os \<Rightarrow> bytes \<Rightarrow> sockaddr_in \<Rightarrow> 'w bridge \<Rightarrow> (bytes \<times> sockaddr_in \<times> 'w bridge) option" where
  "drain os buf peer s =
     (let (recv_len, b, p, w) = read_data_from_udp_client os (br_sock s) (length buf) (Some buf)
                                  (Some peer) (br_world s);
          buf' = the b; peer' = the p; s1 = s\<lparr>br_world := w\<rparr>
      in if recv_len \<le> 0 then Some (buf', peer', s1)
         else do {
           s2 \<leftarrow> wlan_br_handle os recv_len buf' peer' s1;
           drain os buf' peer' s2
         })"

type_synonym burst_bufs = "bytes list \<times> nat list \<times> sockaddr_in list"

partial_function (option) drain_burst ::
  "'w os \<Rightarrow> burst_bufs \<Rightarrow> 'w bridge \<Rightarrow> (burst_bufs \<times> 'w bridge) option" where
  "drain_burst os bufs s =
     (let (udp_buf, data_len, peer_addr) = bufs;
          (recv_len, udp_buf', data_len', peer_addr', w) =
             read_data_from_udp_client_burst os (br_sock s) MAX_DATA_LEN udp_buf data_len peer_addr MAX_NUM
               (br_world s);
          s1 = s\<lparr>br_world := w\<rparr>
      in if recv_len \<le> 0 then Some ((udp_buf', data_len', peer_addr'), s1)
         else do {
           s2 \<leftarrow> wlan_br_handle_burst os (nat recv_len) udp_buf' data_len' peer_addr' s1;
           drain_burst os (udp_buf', data_len', peer_addr') s2
         })"

section \<open>The event loops\<close>

text \<open>One event: input on the server's socket empties it, anything else is passed over.\<close>

definition server_event ::
  "'w os \<Rightarrow> epoll_event \<Rightarrow> (bytes \<times> sockaddr_in) \<times> 'w server \<Rightarrow> ((bytes \<times> sockaddr_in) \<times> 'w server) option" where
  "server_event os ev = (\<lambda>((buf, peer), s).
     if ev_in ev \<and> ev_fd ev = sv_udp_fd s
     then do { (buf', peer', b) \<leftarrow> drain os buf peer (sv_bridge s); Some ((buf', peer'), s\<lparr>sv_bridge := b\<rparr>) }
     else Some ((buf, peer), s))"

definition burst_event ::
  "'w os \<Rightarrow> epoll_event \<Rightarrow> burst_bufs \<times> 'w server \<Rightarrow> (burst_bufs \<times> 'w server) option" where
  "burst_event os ev = (\<lambda>(bufs, s).
     if ev_in ev \<and> ev_fd ev = sv_udp_fd s
     then do { (bufs', b) \<leftarrow> drain_burst os bufs (sv_bridge s); Some (bufs', s\<lparr>sv_bridge := b\<rparr>) }
     else Some (bufs, s))"

text \<open>
  One turn of the loop of \<open>server_runing\<close>, after its condition; a negative \<open>nfds\<close> runs the \<open>for\<close>
  loop not at all.
\<close>

definition server_round ::
  "'w os \<Rightarrow> (bytes \<times> sockaddr_in) \<times> 'w server \<Rightarrow> ((bytes \<times> sockaddr_in) \<times> 'w server) option" where
  "server_round os = (\<lambda>(bp, s).
     let ((nfds, evs), w) = os_epoll_wait os (sv_epfd s) 20 1000 (sv_world s)
     in fold_opt (server_event os) (take (nat nfds) evs) (bp, sv_set_world w s))"

partial_function (option) server_loop ::
  "'w os \<Rightarrow> bytes \<times> sockaddr_in \<Rightarrow> 'w server \<Rightarrow> 'w server option" where
  "server_loop os bp s =
     (let s0 = deliver_signal os s
      in if \<not> sv_running s0 then Some s0
         else do { (bp', s1) \<leftarrow> server_round os (bp, s0); server_loop os bp' s1 })"

definition server_runing :: "'w os \<Rightarrow> sockaddr_in \<Rightarrow> 'w server \<Rightarrow> 'w server option" where
  "server_runing os peer_addr s = server_loop os (replicate 1518 0, peer_addr) s"

text \<open>What the burst loop counts after \<open>epoll_wait\<close>.\<close>

definition count_wait :: "int \<Rightarrow> epoll_stat_info \<Rightarrow> epoll_stat_info" where
  "count_wait nfds t =
     (if nfds = 0 then t\<lparr>epoll_timeout := epoll_timeout t + 1\<rparr>
      else if nfds < 0 then t\<lparr>epoll_error := epoll_error t + 1\<rparr>
      else t\<lparr>epool_recv := epool_recv t + of_int nfds\<rparr>)"

definition burst_round :: "'w os \<Rightarrow> burst_bufs \<times> 'w server \<Rightarrow> (burst_bufs \<times> 'w server) option" where
  "burst_round os = (\<lambda>(bufs, s).
     let ((nfds, evs), w) = os_epoll_wait os (sv_epfd s) 20 1000 (sv_world s);
         s1 = sv_set_world w s;
         s2 = s1\<lparr>sv_stat := count_wait nfds (sv_stat s1)\<rparr>
     in if nfds \<le> 0 then Some (bufs, s2)
        else fold_opt (burst_event os) (take (nat nfds) evs) (bufs, s2))"

partial_function (option) burst_loop ::
  "'w os \<Rightarrow> burst_bufs \<Rightarrow> 'w server \<Rightarrow> 'w server option" where
  "burst_loop os bufs s =
     (let s0 = deliver_signal os s
      in if \<not> sv_running s0 then Some s0
         else do { (bufs', s1) \<leftarrow> burst_round os (bufs, s0); burst_loop os bufs' s1 })"

text \<open>
  The states the burst server goes through, whether its loop ends or not: a turn of the loop, or
  the arrival of the signal.
\<close>

inductive burst_reach :: "'w os \<Rightarrow> burst_bufs \<times> 'w server \<Rightarrow> burst_bufs \<times> 'w server \<Rightarrow> bool"
  for os and x0 where
  reach_start: "burst_reach os x0 x0"
| reach_signal: "burst_reach os x0 (bufs, s) \<Longrightarrow> burst_reach os x0 (bufs, deliver_signal os s)"
| reach_round: "burst_reach os x0 (bufs, s) \<Longrightarrow> sv_running s \<Longrightarrow> burst_round os (bufs, s) = Some x
    \<Longrightarrow> burst_reach os x0 x"

text \<open>
  The 32 buffers, whose contents are what \<open>malloc\<close> hands out: \<open>junk\<close> stands for it. A failed
  allocation ends the function.
\<close>

fun alloc_bufs :: "'w os \<Rightarrow> bytes list \<Rightarrow> 'w \<Rightarrow> bytes list option \<times> 'w" where
  "alloc_bufs os [] w = (Some [], w)"
| "alloc_bufs os (b # bs) w =
     (let (ok, w1) = os_malloc os MAX_DATA_LEN w
      in if \<not> ok then (None, w1)
         else (let (r, w2) = alloc_bufs os bs w1 in (map_option ((#) b) r, w2)))"

definition server_runing_burst :: "'w os \<Rightarrow> bytes list \<Rightarrow> 'w server \<Rightarrow> 'w server option" where
  "server_runing_burst os junk s =
     (case alloc_bufs os junk (sv_world s) of
        (None, w) \<Rightarrow> Some (sv_set_world w s)
      | (Some udp_buf, w) \<Rightarrow>
          burst_loop os (udp_buf, replicate MAX_NUM 0, replicate MAX_NUM \<lparr>sin_addr = 0, sin_port = 0\<rparr>)
            (sv_set_world w s))"

section \<open>The program\<close>

definition init_fun :: "'w server \<Rightarrow> 'w server" where
  "init_fun s = s\<lparr>sv_stat := epoll_stat_zero\<rparr>"

definition O_NONBLOCK :: u32 where
  "O_NONBLOCK = 0x800"

definition server_start :: "'w \<Rightarrow> 'w server" where
  "server_start w = \<lparr>sv_bridge = bridge_start (-1) w, sv_epfd = -1, sv_udp_fd = -1, sv_running = True,
     sv_stat = epoll_stat_zero\<rparr>"

text \<open>\<open>cli_main\<close> starts the thread that serves the command line.\<close>

definition cli_main :: "'w os \<Rightarrow> 'w \<Rightarrow> 'w" where
  "cli_main os w = snd (os_thread os ''cli_main_thread'' 0 w)"

definition server_main :: "'w os \<Rightarrow> bytes list \<Rightarrow> 'w server \<Rightarrow> (int \<times> 'w server) option" where
  "server_main os junk s =
     (let s0 = init_fun s;
          w0 = cli_main os (sv_world s0);
          (ret, serv_sock, w1) = create_udp_server os UDP_PORT w0;
          s1 = s0\<lparr>sv_bridge := (sv_bridge s0)\<lparr>br_world := w1, br_sock := serv_sock\<rparr>, sv_udp_fd := ret\<rparr>
      in if ret = -1 then Some (-1, s1)
         else
           (let (flags, w2) = os_fcntl os ret ''F_GETFL'' 0 w1;
                (_, w3) = os_fcntl os ret ''F_SETFL'' (word_of_int flags OR O_NONBLOCK) w2;
                (epfd, w4) = os_epoll_create os w3;
                (_, w5) = os_epoll_ctl os epfd ret True w4
            in do {
                 s2 \<leftarrow> server_runing_burst os junk (sv_set_world w5 (s1\<lparr>sv_epfd := epfd\<rparr>));
                 let (sock, w6) = destroy_udp_server os (br_sock (sv_bridge s2)) (sv_world s2);
                 Some (0, s2\<lparr>sv_bridge := (sv_bridge s2)\<lparr>br_world := w6, br_sock := sock\<rparr>\<rparr>)
               }))"

section \<open>Emptying the socket: termination and effect\<close>

text \<open>
  \<open>rx_queue os q\<close>: \<open>q\<close> reads the datagrams waiting in the socket from the world. Receiving takes the
  first one, cut to the buffer; from an empty socket it fails with EAGAIN; allocating and sending
  leave the queue alone, and receiving leaves the trace of what was sent.
\<close>

definition rx_queue ::
  "'w os \<Rightarrow> ('w \<Rightarrow> (bytes \<times> sockaddr_in) list) \<Rightarrow> ('w \<Rightarrow> (bytes \<times> sockaddr_in) list) \<Rightarrow> bool" where
  "rx_queue os q sent \<longleftrightarrow>
     (\<forall>fd n w. let ((r, d, p), w') = os_recvfrom os fd n w
       in (case q w of
             [] \<Rightarrow> r = -1 \<and> os_errno os w' = EAGAIN \<and> q w' = []
           | (d0, p0) # ds \<Rightarrow> d = take n d0 \<and> r = int (length d) \<and> p = p0 \<and> q w' = ds)
          \<and> sent w' = sent w)
     \<and> (\<forall>n w. q (snd (os_malloc os n w)) = q w)
     \<and> (\<forall>fd d p w. q (snd (os_sendto os fd d p w)) = q w)"

text \<open>Whatever allocation and sending leave alone, the handlers leave alone.\<close>

definition io_keeps :: "'w os \<Rightarrow> ('w \<Rightarrow> 'b) \<Rightarrow> bool" where
  "io_keeps os f \<longleftrightarrow> (\<forall>n w. f (snd (os_malloc os n w)) = f w)
     \<and> (\<forall>fd d p w. f (snd (os_sendto os fd d p w)) = f w)"

lemma br_update_rx_keeps:
  "io_keeps os f \<Longrightarrow> br_update_rx os ip len s = Some s' \<Longrightarrow> f (br_world s') = f (br_world s)"
  by (auto simp: br_update_rx_def update_rx_apply Option.bind_eq_Some_conv io_keeps_def
      dest: ip_stat_apply_frame [where f = f, rotated])

lemma br_update_tx_keeps:
  "io_keeps os f \<Longrightarrow> br_update_tx os ip len s = Some s' \<Longrightarrow> f (br_world s') = f (br_world s)"
  by (auto simp: br_update_tx_def update_tx_apply Option.bind_eq_Some_conv io_keeps_def
      dest: ip_stat_apply_frame [where f = f, rotated])

lemma br_send_keeps:
  "io_keeps os f \<Longrightarrow> br_send os len buf p s = (r, s') \<Longrightarrow> f (br_world s') = f (br_world s)"
  by (auto simp: br_send_def send_data_to_udp_client_def io_keeps_def split_beta Let_def)

lemma br_malloc_keeps:
  "io_keeps os f \<Longrightarrow> br_malloc os n s = (r, s') \<Longrightarrow> f (br_world s') = f (br_world s)"
  by (auto simp: br_malloc_def io_keeps_def split_beta Let_def)

lemma flood_entry_keeps:
  assumes "io_keeps os f" and "flood_entry os len buf c a s = Some s'"
  shows "f (br_world s') = f (br_world s)"
proof (cases "le_peer (cdl_get (br_list s) a)")
  case (Some i)
  show ?thesis
  proof (cases "flood_flag (br_pas s ! i) = 1 \<or> pa_addr (br_pas s ! i) = c")
    case True
    with assms(2) Some show ?thesis by (auto simp: flood_entry_def Let_def)
  next
    case False
    let ?s = "s\<lparr>br_pas := modify_at i (\<lambda>q. q\<lparr>flood_flag := 1\<rparr>) (br_pas s)\<rparr>"
    obtain r s2 where b: "br_send os len buf (pa_addr (br_pas s ! i)) ?s = (r, s2)" by fastforce
    with br_send_keeps [OF assms(1) b] br_update_tx_keeps [OF assms(1)] assms(2) Some False
    show ?thesis by (cases "r = len") (auto simp: flood_entry_def Let_def)
  qed
qed (use assms(2) in \<open>simp add: flood_entry_def\<close>)

lemma wlan_br_flood_keeps:
  assumes "io_keeps os f" and "wlan_br_flood os len buf c s = Some s'"
  shows "f (br_world s') = f (br_world s)"
proof -
  from assms(2) obtain s1 as1 s2 bs where
    u: "br_update_rx os (sin_addr c) len s = Some s1"
    and l: "fold_opt (flood_entry os len buf c) as1 s1 = Some s2" and s': "s' = fold clear_entry bs s2"
    by (auto simp: wlan_br_flood_def Option.bind_eq_Some_conv)
  have "f (br_world s2) = f (br_world s1)"
    by (rule fold_opt_inv [OF l]) (auto simp: flood_entry_keeps [OF assms(1)])
  with br_update_rx_keeps [OF assms(1) u] clear_loop_frame [of bs s2] s' show ?thesis by simp
qed

lemma br_learn_keeps:
  assumes "io_keeps os f" and "br_learn os buf p s = Some s'"
  shows "f (br_world s') = f (br_world s)"
proof -
  from assms(2) obtain r h w where u: "wlan_fdb_update (os_malloc os) p (h_source buf) (br_fdb s) (br_world s) = Some (r, h, w)"
    and rest: "(if r = 1 then map_option snd (wlan_list_update os p (h_source buf) (s\<lparr>br_fdb := h, br_world := w\<rparr>))
                else Some (s\<lparr>br_fdb := h, br_world := w\<rparr>)) = Some s'"
    by (auto simp: br_learn_def Option.bind_eq_Some_conv bridge_fdb_update_eq)
  have k: "\<And>n w. f (snd (os_malloc os n w)) = f w" using assms(1) by (simp add: io_keeps_def)
  note w = wlan_fdb_update_frame [where f = f and malloc = "os_malloc os", OF k u]
  have "f (br_world s2) = f (br_world s1)" if l: "wlan_list_update os p m s1 = Some (r2, s2)" for m s1 r2 s2
  proof -
    obtain ok t1 where m1: "br_malloc os sizeof_wlan_list_entry s1 = (ok, t1)" by fastforce
    obtain ok2 t2 where m2: "br_malloc os sizeof_peer_addr_info t1 = (ok2, t2)" by fastforce
    from br_malloc_keeps [OF assms(1) m1] br_malloc_keeps [OF assms(1) m2] l m1 m2 show ?thesis
      by (auto simp: wlan_list_update_def Option.bind_eq_Some_conv split: if_splits option.splits)
  qed
  with w rest show ?thesis by (auto split: if_splits)
qed

lemma wlan_br_handle_keeps:
  assumes "io_keeps os f" and "wlan_br_handle os len buf p s = Some s'"
  shows "f (br_world s') = f (br_world s)"
proof -
  from assms(2) obtain s1 where l: "br_learn os buf p s = Some s1" by (rule wlan_br_handle_learns)
  have fw: "f (br_world s2) = f (br_world s1)" if w: "wlan_br_forward os len buf m p s1 = (r, s2)" for m r s2
  proof (cases "wlan_br_find (br_fdb s1) m")
    case (Some a)
    obtain x t where b: "br_send os len buf (fdb_peer_addr (ut_deref (br_fdb s1) a)) s1 = (x, t)" by fastforce
    with br_send_keeps [OF assms(1) b] w Some show ?thesis
      by (auto simp: wlan_br_forward_def Let_def split: if_splits)
  qed (use w in \<open>simp add: wlan_br_forward_def\<close>)
  obtain ret s2 where w: "wlan_br_forward os len buf (h_dest buf) p s1 = (ret, s2)" by fastforce
  show ?thesis
  proof (cases "is_multicast_ether_addr (h_dest buf)")
    case True
    with assms(2) l have "wlan_br_flood os len buf p s1 = Some s'" by (simp add: wlan_br_handle_def)
    with wlan_br_flood_keeps [OF assms(1)] br_learn_keeps [OF assms(1) l] show ?thesis by simp
  next
    case False
    with assms(2) l w have "wlan_br_flood os len buf p s2 = Some s' \<or> s' = s2"
      by (auto simp: wlan_br_handle_def split: if_splits)
    with wlan_br_flood_keeps [OF assms(1)] br_learn_keeps [OF assms(1) l] fw [OF w] show ?thesis by auto
  qed
qed

text \<open>The datagrams as the frames of the abstract switch.\<close>

definition queue_frames :: "(bytes \<times> sockaddr_in) list \<Rightarrow> (sockaddr_in \<times> bytes) list" where
  "queue_frames = map (\<lambda>(d, p). (p, d))"

lemma drain_empties:
  assumes env: "mem_ok (os_malloc os)" "sends_ok os" "logs_sends os sent" "rx_queue os q sent"
    and "bridge_inv s" and "room I M s" and "length buf = 1518"
    and "\<forall>(d, p) \<in> set (q (br_world s)). 14 \<le> length d \<and> length d \<le> 1518 \<and> sin_addr p \<in> I \<and> h_source d \<in> M"
  shows "\<exists>buf' peer' s'. drain os buf peer s = Some (buf', peer', s') \<and> q (br_world s') = []
    \<and> bridge_inv s' \<and> switch_of s' = fst (sw_run (queue_frames (q (br_world s))) (switch_of s))
    \<and> sent (br_world s') = sent (br_world s) @ snd (sw_run (queue_frames (q (br_world s))) (switch_of s))"
  using assms(5-8)
proof (induction "q (br_world s)" arbitrary: s buf peer)
  case Nil
  obtain r d p w' where rv: "os_recvfrom os (br_sock s) (length buf) (br_world s) = ((r, d, p), w')"
    by (metis prod.collapse)
  with env(4) Nil.hyps have "r = -1" "os_errno os w' = EAGAIN" "q w' = []" "sent w' = sent (br_world s)"
    by (auto simp: rx_queue_def dest!: spec [where x = "br_sock s"] spec [where x = "length buf"]
        spec [where x = "br_world s"])
  with rv Nil.hyps Nil.prems(1) show ?case
    by (subst drain.simps)
      (simp add: read_data_from_udp_client_def queue_frames_def bridge_inv_def switch_of_def ports_of_def)
next
  case (Cons dp ds)
  obtain d0 p0 where dp: "dp = (d0, p0)" by (cases dp)
  have D: "14 \<le> length d0" "length d0 \<le> 1518" "sin_addr p0 \<in> I" "h_source d0 \<in> M"
    using Cons.prems(4) Cons.hyps(2) dp by (auto simp flip: Cons.hyps(2))
  obtain r d p w' where rv: "os_recvfrom os (br_sock s) (length buf) (br_world s) = ((r, d, p), w')"
    by (metis prod.collapse)
  with env(4) Cons.hyps(2) dp D Cons.prems(3) have R: "r = int (length d0)" "d = d0" "p = p0" "q w' = ds"
    "sent w' = sent (br_world s)"
    by (auto simp: rx_queue_def simp flip: Cons.hyps(2) dest!: spec [where x = "br_sock s"]
        spec [where x = "length buf"] spec [where x = "br_world s"])
  let ?b = "buf_store d0 buf" and ?s1 = "s\<lparr>br_world := w'\<rparr>"
  have lb: "length ?b = 1518" using D(2) Cons.prems(3) by simp
  have fr: "frame_in r ?b" using D(1,2) lb R(1) by (simp add: frame_in_def)
  have tk: "take (nat r) ?b = d0" using R(1) by simp
  have src: "h_source ?b \<in> M" using D(1,4) frame_headers(2) [of r ?b] tk R(1) by simp
  have inv1: "bridge_inv ?s1" and room1: "room I M ?s1" and sw1: "switch_of ?s1 = switch_of s"
    using Cons.prems(1,2) by (simp_all add: bridge_inv_def room_def switch_of_def ports_of_def)
  obtain s2 where h: "wlan_br_handle os r ?b p0 ?s1 = Some s2" and room2: "room I M s2"
    using wlan_br_handle_returns [OF inv1 env(1) fr room1 D(3) src] by blast
  have inv2: "bridge_inv s2"
    by (rule wlan_br_handle_invariant(1) [OF h inv1 mem_ok_bounded [OF env(1)] frame_in_hdr [OF fr]])
  have "io_keeps os q" using env(4) by (simp add: rx_queue_def io_keeps_def)
  from wlan_br_handle_keeps [OF this h] R(4) have q2: "q (br_world s2) = ds" by simp
  note S = wlan_br_handle_simulates [OF h inv1 env(1-3) fr]
  have "d0 \<noteq> []" using D(1) by auto
  then have "drain os buf peer s = drain os ?b p0 s2"
    using rv R h by (subst drain.simps) (simp add: read_data_from_udp_client_def)
  with Cons.hyps(1) [of s2 ?b p0] q2 inv2 room2 lb Cons.prems(4) S tk sw1 R(5) dp show ?case
    by (auto simp: queue_frames_def split_beta Let_def simp flip: Cons.hyps(2))
qed

section \<open>The burst server keeps the invariant\<close>

text \<open>
  \<open>recv_fits\<close>: \<open>recvmmsg\<close> stores as many datagrams as it says, no more than asked for and none
  longer than the buffers.
\<close>

definition recv_fits :: "'w os \<Rightarrow> bool" where
  "recv_fits os \<longleftrightarrow> (\<forall>fd k n w. let ((r, msgs), w') = os_recvmmsg os fd k n w
     in r \<le> int k \<and> (0 < r \<longrightarrow> nat r \<le> length msgs) \<and> (\<forall>(d, p) \<in> set msgs. length d \<le> n))"

text \<open>The arrays of the burst server: 32 buffers of 1518 bytes, 32 lengths, 32 addresses.\<close>

definition bufs_ok :: "burst_bufs \<Rightarrow> bool" where
  "bufs_ok = (\<lambda>(bs, ls, ps). length bs = MAX_NUM \<and> length ls = MAX_NUM \<and> length ps = MAX_NUM
     \<and> (\<forall>b \<in> set bs. length b = MAX_DATA_LEN))"

lemma wlan_br_handle_burst_invariant:
  assumes "wlan_br_handle_burst os k buf data_len peer_addr s = Some s'" and "bridge_inv s"
    and "mem_bounded (os_malloc os)" and "\<forall>i < k. 12 \<le> length (buf ! i)"
  shows "bridge_inv s'"
proof -
  from assms(1) obtain s1 out where l: "fold_opt (burst_frame os) (burst_input k buf data_len peer_addr) (s, [])
      = Some (s1, out)" and rest: "s' = s1 \<or> (\<exists>w. s' = s1\<lparr>br_world := w\<rparr>)"
    by (auto simp: wlan_br_handle_burst_def burst_input_def Option.bind_eq_Some_conv split_beta Let_def
        split: if_splits)
  have "bridge_inv (fst (s1, out))"
  proof (rule fold_opt_inv [OF l, where P = "\<lambda>x. bridge_inv (fst x)"])
    fix d x x'
    assume d: "d \<in> set (burst_input k buf data_len peer_addr)" and x: "bridge_inv (fst x)"
      and step: "burst_frame os d x = Some x'"
    obtain n b p where e: "d = (n, b, p)" by (cases d)
    with d assms(4) have "hdr_in (int n) b" by (auto simp: burst_input_def hdr_in_def)
    then show "bridge_inv (fst x')"
      using burst_frame_invariant [of os n b p "fst x" "snd x" "fst x'" "snd x'"] step x assms(3) e by simp
  qed (use assms(2) in simp)
  with rest show ?thesis by (auto simp: bridge_inv_def)
qed

lemma read_burst_bufs:
  assumes "recv_fits os" and "bufs_ok (bs, ls, ps)"
    and "read_data_from_udp_client_burst os fd MAX_DATA_LEN bs ls ps MAX_NUM w = (r, bs', ls', ps', w')"
  shows "bufs_ok (bs', ls', ps')" and "r \<le> int MAX_NUM"
proof -
  obtain n msgs w1 where m: "os_recvmmsg os fd MAX_NUM MAX_DATA_LEN w = ((n, msgs), w1)"
    by (metis prod.collapse)
  then have fit: "n \<le> int MAX_NUM" "0 < n \<Longrightarrow> nat n \<le> length msgs" "\<forall>(d, p) \<in> set msgs. length d \<le> MAX_DATA_LEN"
    using assms(1) [unfolded recv_fits_def, rule_format, of fd MAX_NUM MAX_DATA_LEN w] by auto
  have "bufs_ok (bs', ls', ps') \<and> r \<le> int MAX_NUM"
  proof (cases "n \<le> 0")
    case True
    with m assms(2,3) show ?thesis
      by (auto simp: read_data_from_udp_client_burst_def MAX_NUM_def split: if_splits)
  next
    case False
    obtain b1 l1 p1 where st: "store_msgs (take (nat n) msgs) bs ls ps = (b1, l1, p1)"
      by (cases "store_msgs (take (nat n) msgs) bs ls ps")
    have B: "length bs = MAX_NUM" "length ls = MAX_NUM" "length ps = MAX_NUM" "\<forall>b \<in> set bs. length b = MAX_DATA_LEN"
      using assms(2) by (simp_all add: bufs_ok_def)
    have "length (take (nat n) msgs) \<le> MAX_NUM" using fit(1) by auto
    moreover have "\<forall>(d, p) \<in> set (take (nat n) msgs). length d \<le> MAX_DATA_LEN"
      using fit(3) by (auto dest: in_set_takeD)
    ultimately have "bufs_ok (b1, l1, p1)"
      using store_msgs_spec(2-5) [OF st B(1-3) _ _ B(4)] by (simp add: bufs_ok_def)
    with m st False assms(3) fit(1) show ?thesis
      by (auto simp: read_data_from_udp_client_burst_def)
  qed
  then show "bufs_ok (bs', ls', ps')" and "r \<le> int MAX_NUM" by auto
qed

lemma drain_burst_invariant:
  assumes "drain_burst os bufs s = Some (bufs', s')" and "mem_bounded (os_malloc os)" and "recv_fits os"
    and "bufs_ok bufs" and "bridge_inv s"
  shows "bufs_ok bufs' \<and> bridge_inv s'"
proof -
  define P where "P = (\<lambda>(os :: 'a os) bufs (s :: 'a bridge) (y :: burst_bufs \<times> 'a bridge). mem_bounded (os_malloc os) \<longrightarrow> recv_fits os \<longrightarrow> bufs_ok bufs
      \<longrightarrow> bridge_inv s \<longrightarrow> bufs_ok (fst y) \<and> bridge_inv (snd y))"
  have "P os bufs s (bufs', s')"
  proof (rule drain_burst.raw_induct [OF _ assms(1)])
    fix rec :: "'a os \<Rightarrow> burst_bufs \<Rightarrow> 'a bridge \<Rightarrow> (burst_bufs \<times> 'a bridge) option" and os bufs s y
    assume IH: "\<And>os bufs s y. rec os bufs s = Some y \<Longrightarrow> P os bufs s y"
      and step: "(let (udp_buf, data_len, peer_addr) = bufs;
          (recv_len, udp_buf', data_len', peer_addr', w) =
             read_data_from_udp_client_burst os (br_sock s) MAX_DATA_LEN udp_buf data_len peer_addr MAX_NUM
               (br_world s);
          s1 = s\<lparr>br_world := w\<rparr>
      in if recv_len \<le> 0 then Some ((udp_buf', data_len', peer_addr'), s1)
         else do {
           s2 \<leftarrow> wlan_br_handle_burst os (nat recv_len) udp_buf' data_len' peer_addr' s1;
           rec os (udp_buf', data_len', peer_addr') s2
         }) = Some y"
    obtain bs ls ps where b: "bufs = (bs, ls, ps)" by (cases bufs)
    obtain r bs' ls' ps' w where rd: "read_data_from_udp_client_burst os (br_sock s) MAX_DATA_LEN bs ls ps MAX_NUM
        (br_world s) = (r, bs', ls', ps', w)" by (metis prod_cases5)
    show "P os bufs s y"
      unfolding P_def
    proof (intro impI)
      assume H: "mem_bounded (os_malloc os)" "recv_fits os" "bufs_ok bufs" "bridge_inv s"
      note RB = read_burst_bufs [OF H(2) H(3)[unfolded b] rd]
      have inv1: "bridge_inv (s\<lparr>br_world := w\<rparr>)" using H(4) by (simp add: bridge_inv_def)
      show "bufs_ok (fst y) \<and> bridge_inv (snd y)"
      proof (cases "r \<le> 0")
        case True
        with step b rd RB(1) inv1 show ?thesis by auto
      next
        case False
        with step b rd obtain s2 where
          h: "wlan_br_handle_burst os (nat r) bs' ls' ps' (s\<lparr>br_world := w\<rparr>) = Some s2"
          and rec: "rec os (bs', ls', ps') s2 = Some y" by (auto simp: Option.bind_eq_Some_conv)
        have "\<forall>i < nat r. 12 \<le> length (bs' ! i)"
          using RB by (auto simp: bufs_ok_def MAX_DATA_LEN_def)
        from wlan_br_handle_burst_invariant [OF h inv1 H(1) this] have "bridge_inv s2" .
        with IH [OF rec] H(1,2) RB(1) show ?thesis by (simp add: P_def)
      qed
    qed
  qed
  with assms(2-5) show ?thesis by (simp add: P_def)
qed

definition sv_inv :: "burst_bufs \<times> 'w server \<Rightarrow> bool" where
  "sv_inv = (\<lambda>(bufs, s). bufs_ok bufs \<and> bridge_inv (sv_bridge s))"

lemma bridge_inv_world [simp]: "bridge_inv (s\<lparr>br_world := w\<rparr>) = bridge_inv s"
  by (simp add: bridge_inv_def)

lemma burst_event_invariant:
  assumes "burst_event os ev x = Some x'" and "mem_bounded (os_malloc os)" and "recv_fits os" and "sv_inv x"
  shows "sv_inv x'"
  using assms drain_burst_invariant [OF _ assms(2,3)]
  by (cases x) (auto simp: burst_event_def sv_inv_def Option.bind_eq_Some_conv split: if_splits)

lemma burst_round_invariant:
  assumes "burst_round os x = Some x'" and "mem_bounded (os_malloc os)" and "recv_fits os" and "sv_inv x"
  shows "sv_inv x'"
proof -
  obtain bufs s where x: "x = (bufs, s)" by (cases x)
  obtain nfds evs w where e: "os_epoll_wait os (sv_epfd s) 20 1000 (sv_world s) = ((nfds, evs), w)"
    by (metis prod.collapse)
  let ?s2 = "(sv_set_world w s)\<lparr>sv_stat := count_wait nfds (sv_stat (sv_set_world w s))\<rparr>"
  have inv2: "sv_inv (bufs, ?s2)" using assms(4) x by (simp add: sv_inv_def sv_set_world_def)
  show ?thesis
  proof (cases "nfds \<le> 0")
    case True
    with assms(1) x e inv2 show ?thesis by (auto simp: burst_round_def Let_def)
  next
    case False
    with assms(1) x e have "fold_opt (burst_event os) (take (nat nfds) evs) (bufs, ?s2) = Some x'"
      by (simp add: burst_round_def Let_def)
    from fold_opt_inv [OF this, of sv_inv] inv2 burst_event_invariant [OF _ assms(2,3)] show ?thesis by blast
  qed
qed

lemma burst_reach_invariant:
  assumes "burst_reach os x0 x" and "mem_bounded (os_malloc os)" and "recv_fits os" and "sv_inv x0"
  shows "sv_inv x"
  using assms
proof (induction rule: burst_reach.induct)
  case (reach_signal bufs s)
  then show ?case by (auto simp: sv_inv_def deliver_signal_def usr1_handler_def sv_set_world_def split_beta Let_def)
next
  case (reach_round bufs s x)
  then show ?case using burst_round_invariant by blast
qed simp

text \<open>What the loop returns is a state it reached.\<close>

lemma burst_loop_reach:
  assumes "burst_loop os bufs s = Some s'" and "burst_reach os x0 (bufs, s)"
  shows "\<exists>bufs'. burst_reach os x0 (bufs', s') \<and> \<not> sv_running s'"
proof -
  define P where "P = (\<lambda>(os :: 'a os) bufs (s :: 'a server) (y :: 'a server). burst_reach os x0 (bufs, s)
      \<longrightarrow> (\<exists>bufs'. burst_reach os x0 (bufs', y) \<and> \<not> sv_running y))"
  have "P os bufs s s'"
  proof (rule burst_loop.raw_induct [OF _ assms(1)])
    fix rec :: "'a os \<Rightarrow> burst_bufs \<Rightarrow> 'a server \<Rightarrow> 'a server option" and os bufs s y
    assume IH: "\<And>os bufs s y. rec os bufs s = Some y \<Longrightarrow> P os bufs s y"
      and step: "(let s0 = deliver_signal os s
        in if \<not> sv_running s0 then Some s0
           else do { (bufs', s1) \<leftarrow> burst_round os (bufs, s0); rec os bufs' s1 }) = Some y"
    show "P os bufs s y"
      unfolding P_def
    proof
      assume r: "burst_reach os x0 (bufs, s)"
      let ?s0 = "deliver_signal os s"
      note r0 = reach_signal [OF r]
      show "\<exists>bufs'. burst_reach os x0 (bufs', y) \<and> \<not> sv_running y"
      proof (cases "sv_running ?s0")
        case False
        with step have "y = ?s0" by (simp add: Let_def)
        with r0 False show ?thesis by blast
      next
        case True
        with step obtain b1 s1 where rd: "burst_round os (bufs, ?s0) = Some (b1, s1)"
          and rec: "rec os b1 s1 = Some y" by (auto simp: Let_def Option.bind_eq_Some_conv)
        from IH [OF rec] reach_round [OF r0 True rd] show ?thesis by (simp add: P_def)
      qed
    qed
  qed
  with assms(2) show ?thesis by (simp add: P_def)
qed

section \<open>The burst server empties the socket\<close>

text \<open>
  \<open>rx_burst os q sent\<close>: as \<open>rx_queue\<close>, for \<open>recvmmsg\<close>, which takes as many datagrams as there are and
  it has room for.
\<close>

definition rx_burst ::
  "'w os \<Rightarrow> ('w \<Rightarrow> (bytes \<times> sockaddr_in) list) \<Rightarrow> ('w \<Rightarrow> (bytes \<times> sockaddr_in) list) \<Rightarrow> bool" where
  "rx_burst os q sent \<longleftrightarrow>
     (\<forall>fd k n w. let ((r, msgs), w') = os_recvmmsg os fd k n w
       in (if q w = [] then r = -1 \<and> os_errno os w' = EAGAIN \<and> q w' = []
           else r = int (length msgs) \<and> msgs = map (\<lambda>(d, p). (take n d, p)) (take k (q w)) \<and> q w' = drop k (q w))
          \<and> sent w' = sent w)
     \<and> io_keeps os q \<and> (\<forall>fd ms w. q (snd (os_sendmmsg os fd ms w)) = q w)"

lemma wlan_br_handle_burst_keeps:
  assumes "io_keeps os f" and "\<And>fd ms w. f (snd (os_sendmmsg os fd ms w)) = f w" and "bursts_ok os sent"
    and "wlan_br_handle_burst os k buf data_len peer_addr s = Some s'"
  shows "f (br_world s') = f (br_world s)"
proof -
  from assms(4) obtain s1 out where l: "fold_opt (burst_frame os) (burst_input k buf data_len peer_addr) (s, [])
      = Some (s1, out)" and rest: "s' = s1 \<or> s' = s1\<lparr>br_world := snd (send_data_to_udp_client_burst os (br_sock s1)
        (map (fst \<circ> snd) out) (map fst out) (map (snd \<circ> snd) out) (length out) (br_world s1))\<rparr>"
    by (auto simp: wlan_br_handle_burst_def burst_input_def Option.bind_eq_Some_conv split_beta Let_def
        split: if_splits)
  have "f (br_world (fst (s1, out))) = f (br_world s)"
  proof (rule fold_opt_inv [OF l, where P = "\<lambda>x. f (br_world (fst x)) = f (br_world s)"])
    fix d x x'
    assume x: "f (br_world (fst x)) = f (br_world s)" and step: "burst_frame os d x = Some x'"
    obtain n b p t out t' out' where e: "d = (n, b, p)" "x = (t, out)" "x' = (t', out')"
      by (cases d, cases x, cases x')
    with step obtain t1 where t1: "br_learn os b p t = Some t1" by (auto elim: burst_frame_learns)
    have fw: "f (br_world t2) = f (br_world t1)"
      if w: "wlan_br_forward_to_array os len b m p t1 = Some (r, slot, t2)" for len m r slot t2
      using w br_update_rx_keeps [OF assms(1)] br_update_tx_keeps [OF assms(1)]
      by (fastforce simp: wlan_br_forward_to_array_def Let_def Option.bind_eq_Some_conv
          split: option.splits if_splits)
    from step e t1 have "f (br_world t') = f (br_world t1)"
      using fw wlan_br_flood_keeps [OF assms(1)]
      by (auto simp: burst_frame_def Option.bind_eq_Some_conv split: if_splits option.splits)
    with br_learn_keeps [OF assms(1) t1] x e show "f (br_world (fst x')) = f (br_world s)" by simp
  qed simp
  moreover have "f (snd (send_data_to_udp_client_burst os fd b l q n w)) = f w" for fd b l q n w
  proof -
    obtain r lens w1 where m: "os_sendmmsg os fd (burst_msgs b l q n) w = ((r, lens), w1)"
      by (metis prod.collapse)
    have "r = int n" using assms(3) [unfolded bursts_ok_def, rule_format, of fd "burst_msgs b l q n" w] m by simp
    moreover have "f w1 = f w" using assms(2) [of fd "burst_msgs b l q n" w] m by simp
    ultimately show ?thesis using m by (simp add: send_data_to_udp_client_burst_def Let_def)
  qed
  ultimately show ?thesis using rest by auto
qed

text \<open>Receiving a chunk of the queue.\<close>

lemma read_burst_chunk:
  assumes "rx_burst os q sent" and "bufs_ok (bs, ls, ps)" and "q w \<noteq> []"
    and "\<forall>(d, p) \<in> set (q w). length d \<le> 1518"
  obtains bs' ls' ps' w' where "read_data_from_udp_client_burst os fd MAX_DATA_LEN bs ls ps MAX_NUM w
      = (int (length (take MAX_NUM (q w))), bs', ls', ps', w')"
    "bufs_ok (bs', ls', ps')" "q w' = drop MAX_NUM (q w)" "sent w' = sent w"
    "burst_msgs bs' ls' ps' (length (take MAX_NUM (q w))) = take MAX_NUM (q w)"
    "\<forall>i < length (take MAX_NUM (q w)). ls' ! i = length (fst (take MAX_NUM (q w) ! i))"
proof -
  let ?c = "take MAX_NUM (q w)"
  obtain r msgs w1 where m: "os_recvmmsg os fd MAX_NUM MAX_DATA_LEN w = ((r, msgs), w1)"
    by (metis prod.collapse)
  have "map (\<lambda>(d, p). (take MAX_DATA_LEN d, p)) ?c = ?c"
    using assms(4) by (auto simp: MAX_DATA_LEN_def dest!: in_set_takeD intro!: map_idI)
  with assms(1,3) m have R: "msgs = ?c" "r = int (length ?c)" "q w1 = drop MAX_NUM (q w)" "sent w1 = sent w"
    using assms(1) [unfolded rx_burst_def, THEN conjunct1, rule_format, of fd MAX_NUM MAX_DATA_LEN w] by auto
  have B: "length bs = MAX_NUM" "length ls = MAX_NUM" "length ps = MAX_NUM" "\<forall>b \<in> set bs. length b = MAX_DATA_LEN"
    using assms(2) by (simp_all add: bufs_ok_def)
  obtain b1 l1 p1 where st: "store_msgs ?c bs ls ps = (b1, l1, p1)" by (cases "store_msgs ?c bs ls ps")
  have "length ?c \<le> MAX_NUM" "\<forall>(d, p) \<in> set ?c. length d \<le> MAX_DATA_LEN"
    using assms(4) by (auto simp: MAX_DATA_LEN_def dest: in_set_takeD)
  note S = store_msgs_spec [OF st B(1-3) this B(4)]
  have "take (nat r) msgs = ?c" unfolding R(1,2) nat_int by (rule take_all) simp
  moreover have "\<not> r \<le> 0" using assms(3) R(2) by (simp add: MAX_NUM_def)
  ultimately have "read_data_from_udp_client_burst os fd MAX_DATA_LEN bs ls ps MAX_NUM w = (r, b1, l1, p1, w1)"
    using m st by (simp add: read_data_from_udp_client_burst_def)
  then have "read_data_from_udp_client_burst os fd MAX_DATA_LEN bs ls ps MAX_NUM w
      = (int (length ?c), b1, l1, p1, w1)"
    using R(2) by simp
  with that [of b1 l1 p1 w1] S R show ?thesis by (simp add: bufs_ok_def)
qed

lemma drain_burst_empties:
  assumes env: "mem_ok (os_malloc os)" "sends_ok os" "logs_sends os sent" "bursts_ok os sent" "rx_burst os q sent"
    and "bridge_inv s" and "room I M s" and "bufs_ok bufs"
    and "\<forall>(d, p) \<in> set (q (br_world s)). 14 \<le> length d \<and> length d \<le> 1518 \<and> sin_addr p \<in> I \<and> h_source d \<in> M"
    and "sw_table sw = fdb_map (br_fdb s)" and "sw_ports sw = ports_of s"
  shows "\<exists>bufs' s' new. drain_burst os bufs s = Some (bufs', s') \<and> q (br_world s') = [] \<and> bridge_inv s'
    \<and> fdb_map (br_fdb s') = sw_table (fst (sw_run (queue_frames (q (br_world s))) sw))
    \<and> ports_of s' = sw_ports (fst (sw_run (queue_frames (q (br_world s))) sw))
    \<and> sent (br_world s') = sent (br_world s) @ new
    \<and> mset new = mset (snd (sw_run (queue_frames (q (br_world s))) sw))"
  using assms(6-)
proof (induction "length (q (br_world s))" arbitrary: s bufs sw rule: less_induct)
  case less
  obtain bs ls ps where b: "bufs = (bs, ls, ps)" by (cases bufs)
  show ?case
  proof (cases "q (br_world s) = []")
    case True
    obtain r msgs w1 where m: "os_recvmmsg os (br_sock s) MAX_NUM MAX_DATA_LEN (br_world s) = ((r, msgs), w1)"
      by (metis prod.collapse)
    have R: "r = -1" "q w1 = []" "sent w1 = sent (br_world s)"
      using env(5) [unfolded rx_burst_def, THEN conjunct1, rule_format, of "br_sock s" MAX_NUM MAX_DATA_LEN "br_world s"]
        m True by auto
    from m R(1) b have "drain_burst os bufs s = Some (bufs, s\<lparr>br_world := w1\<rparr>)"
      by (subst drain_burst.simps) (auto simp: read_data_from_udp_client_burst_def)
    with R True less.prems b show ?thesis by (simp add: queue_frames_def ports_of_def)
  next
    case False
    let ?q = "q (br_world s)" and ?c = "take MAX_NUM (q (br_world s))"
    have "\<forall>(d, p) \<in> set ?q. length d \<le> 1518" using less.prems(4) by auto
    from read_burst_chunk [OF env(5) less.prems(3)[unfolded b] False this, of "br_sock s"]
    obtain bs' ls' ps' w' where rd: "read_data_from_udp_client_burst os (br_sock s) MAX_DATA_LEN bs ls ps MAX_NUM
        (br_world s) = (int (length ?c), bs', ls', ps', w')"
      and B: "bufs_ok (bs', ls', ps')" "q w' = drop MAX_NUM ?q" "sent w' = sent (br_world s)"
        "burst_msgs bs' ls' ps' (length ?c) = ?c" "\<forall>i < length ?c. ls' ! i = length (fst (?c ! i))" by metis
    let ?s1 = "s\<lparr>br_world := w'\<rparr>" and ?k = "length ?c"
    have k: "0 < ?k" "?k \<le> MAX_NUM" using False by (simp_all add: MAX_NUM_def)
    have el: "take (ls' ! i) (bs' ! i) = fst (?c ! i) \<and> ps' ! i = snd (?c ! i)" if "i < ?k" for i
    proof -
      have "(take (ls' ! i) (bs' ! i), ps' ! i) = ?c ! i"
        using arg_cong [OF B(4), of "\<lambda>xs. xs ! i"] that by (simp add: burst_msgs_def)
      then show ?thesis by (metis fst_conv snd_conv)
    qed
    have D: "14 \<le> length (fst (?c ! i))" "length (fst (?c ! i)) \<le> 1518" "sin_addr (snd (?c ! i)) \<in> I"
      "h_source (fst (?c ! i)) \<in> M" if "i < ?k" for i
    proof -
      have "?c ! i \<in> set ?q" using that nth_mem [of i ?c] by (meson in_set_takeD)
      then show "14 \<le> length (fst (?c ! i))" "length (fst (?c ! i)) \<le> 1518" "sin_addr (snd (?c ! i)) \<in> I"
      "h_source (fst (?c ! i)) \<in> M" using less.prems(4) by (auto simp: split_beta)
    qed
    have lb: "length (bs' ! i) = 1518" if "i < ?k" for i
      using B(1) k(2) that by (auto simp: bufs_ok_def MAX_DATA_LEN_def)
    have fr: "frame_in (int (ls' ! i)) (bs' ! i)" if "i < ?k" for i
      using D [OF that] B(5) that lb [OF that] by (simp add: frame_in_def)
    have ok: "\<forall>i < ?k. frame_in (int (ls' ! i)) (bs' ! i) \<and> sin_addr (ps' ! i) \<in> I \<and> h_source (bs' ! i) \<in> M"
    proof (intro allI impI conjI)
      fix i assume i: "i < ?k"
      show "frame_in (int (ls' ! i)) (bs' ! i)" by (rule fr [OF i])
      show "sin_addr (ps' ! i) \<in> I" using D(3) [OF i] el [OF i] by simp
      show "h_source (bs' ! i) \<in> M"
        using D(4) [OF i] el [OF i] frame_headers(2) [of "int (ls' ! i)" "bs' ! i"] fr [OF i]
        by (simp add: frame_in_def)
    qed
    have inv1: "bridge_inv ?s1" and room1: "room I M ?s1" and sw1: "switch_of ?s1 = switch_of s"
      using less.prems(1,2) by (simp_all add: room_def switch_of_def ports_of_def)
    obtain s2 where h: "wlan_br_handle_burst os ?k bs' ls' ps' ?s1 = Some s2" and room2: "room I M s2"
      using wlan_br_handle_burst_room [OF inv1 env(1) room1 ok] by blast
    let ?fs = "map (\<lambda>i. (ps' ! i, take (ls' ! i) (bs' ! i))) [0..<?k]"
    have fs: "?fs = queue_frames ?c"
      by (rule nth_equalityI) (use el in \<open>auto simp: queue_frames_def split_beta\<close>)
    have T: "bridge_inv s2" "switch_of s2 = fst (sw_handle_burst (queue_frames ?c) (switch_of s))"
      "sent (br_world s2) = sent (br_world s) @ fst (snd (sw_handle_burst (queue_frames ?c) (switch_of s)))
        @ snd (snd (sw_handle_burst (queue_frames ?c) (switch_of s)))"
      using wlan_br_handle_burst_simulates [OF h inv1 env(1-4)] ok fs sw1 B(3) by auto
    have same: "sw_table (switch_of s) = sw_table sw" "sw_ports (switch_of s) = sw_ports sw"
      using less.prems(5,6) by (simp_all add: switch_of_def)
    note BS = sw_burst_same [OF same, of "queue_frames ?c"]
    let ?sw = "fst (sw_run (queue_frames ?c) sw)"
    have "sw_table ?sw = sw_table (switch_of s2)" "sw_ports ?sw = sw_ports (switch_of s2)"
      using BS T(2) by simp_all
    then have sw2: "sw_table ?sw = fdb_map (br_fdb s2)" "sw_ports ?sw = ports_of s2"
      by (simp_all add: switch_of_def)
    have "q (br_world s2) = q (br_world ?s1)"
      by (rule wlan_br_handle_burst_keeps [OF _ _ env(4) h]) (use env(5) in \<open>auto simp: rx_burst_def\<close>)
    then have q2: "q (br_world s2) = drop MAX_NUM ?q" using B(2) by simp
    have lt: "length (q (br_world s2)) < length ?q" using q2 False by (simp add: MAX_NUM_def)
    have rest: "\<forall>(d, p) \<in> set (q (br_world s2)). 14 \<le> length d \<and> length d \<le> 1518 \<and> sin_addr p \<in> I \<and> h_source d \<in> M"
      using less.prems(4) unfolding q2 by (auto dest: in_set_dropD)
    from less.hyps [OF lt T(1) room2 B(1) rest sw2] obtain bufs' s' new where
      N: "drain_burst os (bs', ls', ps') s2 = Some (bufs', s')" "q (br_world s') = []" "bridge_inv s'"
        "fdb_map (br_fdb s') = sw_table (fst (sw_run (queue_frames (q (br_world s2))) ?sw))"
        "ports_of s' = sw_ports (fst (sw_run (queue_frames (q (br_world s2))) ?sw))"
        "sent (br_world s') = sent (br_world s2) @ new"
        "mset new = mset (snd (sw_run (queue_frames (q (br_world s2))) ?sw))" by blast
    have "drain_burst os bufs s = Some (bufs', s')"
    proof -
      obtain n where n: "?k = n" "0 < n" using k(1) by blast
      from rd h N(1) b n(2) show ?thesis
        unfolding n(1) by (subst drain_burst.simps) (simp add: Let_def)
    qed
    moreover have "queue_frames ?q = queue_frames ?c @ queue_frames (q (br_world s2))"
      unfolding q2 queue_frames_def by (simp flip: map_append)
    ultimately show ?thesis
      using N(2-7) T(3) BS
      by (intro exI [of _ bufs'] exI [of _ s']
          exI [of _ "fst (snd (sw_handle_burst (queue_frames ?c) (switch_of s)))
            @ snd (snd (sw_handle_burst (queue_frames ?c) (switch_of s))) @ new"])
        (simp add: sw_run_append)
  qed
qed

end
