(* ===== verification/Libcli_Types.thy ===== *)
theory Libcli_Types
  imports Text
begin

text \<open>
  The data of the command line library \<open>src_lib/libcli\<close> (\<open>libcli.h\<close>, first part of \<open>libcli.c\<close>).
  The pointers of the command tree are lists: \<open>next\<close> and \<open>children\<close> become the list of the children
  of a command, and \<open>cmd_id\<close>, a number given out at the allocation, is the address by which a caller
  names a command. A function pointer is a value that names the function; those of the application
  are interpreted by the record \<open>cli_env\<close>.
\<close>

section \<open>Constants of libcli.h\<close>

definition CLI_OK :: int where "CLI_OK = 0"
definition CLI_ERROR :: int where "CLI_ERROR = -1"
definition CLI_QUIT :: int where "CLI_QUIT = -2"
definition CLI_ERROR_ARG :: int where "CLI_ERROR_ARG = -3"
definition CLI_AMBIGUOUS :: int where "CLI_AMBIGUOUS = -4"
definition CLI_MISSING_ARGUMENT :: int where "CLI_MISSING_ARGUMENT = -6"
definition CLI_MISSING_VALUE :: int where "CLI_MISSING_VALUE = -7"
definition CLI_BUILDMODE_START :: int where "CLI_BUILDMODE_START = -8"
definition CLI_BUILDMODE_ERROR :: int where "CLI_BUILDMODE_ERROR = -9"
definition CLI_BUILDMODE_EXTEND :: int where "CLI_BUILDMODE_EXTEND = -10"
definition CLI_BUILDMODE_CANCEL :: int where "CLI_BUILDMODE_CANCEL = -11"
definition CLI_BUILDMODE_EXIT :: int where "CLI_BUILDMODE_EXIT = -12"

lemmas cli_codes = CLI_OK_def CLI_ERROR_def CLI_QUIT_def CLI_ERROR_ARG_def CLI_AMBIGUOUS_def
  CLI_MISSING_ARGUMENT_def CLI_MISSING_VALUE_def CLI_BUILDMODE_START_def CLI_BUILDMODE_ERROR_def
  CLI_BUILDMODE_EXTEND_def CLI_BUILDMODE_CANCEL_def CLI_BUILDMODE_EXIT_def

definition MAX_HISTORY :: nat where "MAX_HISTORY = 256"

definition PRIVILEGE_UNPRIVILEGED :: int where "PRIVILEGE_UNPRIVILEGED = 0"
definition PRIVILEGE_PRIVILEGED :: int where "PRIVILEGE_PRIVILEGED = 15"
definition MODE_ANY :: int where "MODE_ANY = -1"
definition MODE_EXEC :: int where "MODE_EXEC = 0"
definition MODE_CONFIG :: int where "MODE_CONFIG = 1"

definition CLI_MAX_LINE_LENGTH :: nat where "CLI_MAX_LINE_LENGTH = 4096"
definition CLI_MAX_LINE_WORDS :: nat where "CLI_MAX_LINE_WORDS = 128"

lemmas cli_modes = PRIVILEGE_UNPRIVILEGED_def PRIVILEGE_PRIVILEGED_def MODE_ANY_def MODE_EXEC_def MODE_CONFIG_def

text \<open>The flags of an option or argument.\<close>

definition CLI_CMD_OPTIONAL_FLAG :: u32 where "CLI_CMD_OPTIONAL_FLAG = 1"
definition CLI_CMD_OPTIONAL_ARGUMENT :: u32 where "CLI_CMD_OPTIONAL_ARGUMENT = 2"
definition CLI_CMD_ARGUMENT :: u32 where "CLI_CMD_ARGUMENT = 4"
definition CLI_CMD_ALLOW_BUILDMODE :: u32 where "CLI_CMD_ALLOW_BUILDMODE = 8"
definition CLI_CMD_OPTION_MULTIPLE :: u32 where "CLI_CMD_OPTION_MULTIPLE = 16"
definition CLI_CMD_TRANSIENT_MODE :: u32 where "CLI_CMD_TRANSIENT_MODE = 64"
definition CLI_CMD_DO_NOT_RECORD :: u32 where "CLI_CMD_DO_NOT_RECORD = 128"
definition CLI_CMD_REMAINDER_OF_LINE :: u32 where "CLI_CMD_REMAINDER_OF_LINE = 256"
definition CLI_CMD_HYPHENATED_OPTION :: u32 where "CLI_CMD_HYPHENATED_OPTION = 512"
definition CLI_CMD_SPOT_CHECK :: u32 where "CLI_CMD_SPOT_CHECK = 1024"

lemmas cli_flags = CLI_CMD_OPTIONAL_FLAG_def CLI_CMD_OPTIONAL_ARGUMENT_def CLI_CMD_ARGUMENT_def
  CLI_CMD_ALLOW_BUILDMODE_def CLI_CMD_OPTION_MULTIPLE_def CLI_CMD_TRANSIENT_MODE_def
  CLI_CMD_DO_NOT_RECORD_def CLI_CMD_REMAINDER_OF_LINE_def CLI_CMD_HYPHENATED_OPTION_def
  CLI_CMD_SPOT_CHECK_def

definition has_flag :: "u32 \<Rightarrow> u32 \<Rightarrow> bool" where
  "has_flag flags f \<longleftrightarrow> flags AND f \<noteq> 0"

section \<open>Function pointers\<close>

text \<open>The commands of the library itself, and those of the application by name.\<close>

datatype command_fn = Cli_help | Cli_quit | Cli_exit | Cli_history | Cli_enable | Cli_disable
  | Cli_configure_terminal | Buildmode_cmd | Buildmode_flag | Buildmode_flag_multiple
  | Buildmode_cancel | Buildmode_execute | Buildmode_show | Buildmode_unset | App_command string

datatype filter_fn = Match_filter | Range_filter | Count_filter

datatype validator_fn = Search_flags_validator | Unset_validator | App_validator string

datatype completor_fn = Unset_completor | App_completor string

datatype idle_fn = Int_idle_timeout | App_idle string

section \<open>The structures\<close>

datatype command_types = CLI_ANY_COMMAND | CLI_REGULAR_COMMAND | CLI_FILTER_COMMAND | CLI_BUILDMODE_COMMAND

datatype cli_states = STATE_LOGIN | STATE_PASSWORD | STATE_NORMAL | STATE_ENABLE_PASSWORD | STATE_ENABLE

record cli_optarg =
  oa_name :: string
  oa_flags :: u32
  oa_help :: "string option"
  oa_mode :: int
  oa_privilege :: int
  oa_unique_len :: nat
  oa_get_completions :: "completor_fn option"
  oa_validator :: "validator_fn option"
  oa_transient_mode :: "string option"

record command_data =
  c_command :: string
  c_full_command_name :: string
  c_callback :: "command_fn option"
  c_unique_len :: nat
  c_help :: "string option"
  c_privilege :: int
  c_mode :: int
  c_optargs :: "cli_optarg list"
  c_filter :: "filter_fn option"
  c_init :: "filter_fn option"
  c_command_type :: command_types
  c_flags :: u32

datatype cli_command =
  Cli_Command (cmd_id: nat) (cmd_data: command_data) (cmd_children: "cli_command list")

text \<open>\<open>num_entries\<close> is \<open>-1\<close> when a command has no options to show help for.\<close>

record cli_comphelp =
  ch_comma_separated :: bool
  ch_entries :: "string list"
  ch_num_entries :: int

text \<open>The options found on a command line: name and value, in the order they were found.\<close>

type_synonym optarg_pairs = "(string \<times> string) list"

text \<open>
  \<open>words\<close> points into the words of the whole line, so a stage can see the words after its own: the
  list holds all words from its first to the end of the line, and \<open>num_words\<close> says which are its own.
\<close>

record cli_pipeline_stage =
  st_command :: "cli_command option"
  st_found_optargs :: optarg_pairs
  st_words :: "string list"
  st_num_words :: nat
  st_status :: int
  st_first_unmatched :: nat
  st_first_optarg :: nat
  st_stage_num :: nat
  st_error_word :: "string option"

record cli_pipeline =
  pl_cmdline :: string
  pl_words :: "string list"
  pl_stages :: "cli_pipeline_stage list"
  pl_current_stage :: "nat option"

record cli_buildmode =
  bm_command :: cli_command
  bm_found_optargs :: optarg_pairs
  bm_cname :: string
  bm_mode :: int
  bm_transient_mode :: int
  bm_mode_text :: "string option"

text \<open>
  The state of a filter. A match filter has a union of a string and a compiled regular expression;
  which of them is read depends on the flag MATCH_REGEX, not on what was stored.
\<close>

datatype match_state = Match_string string | Match_regex (re_extended: bool) (re_icase: bool) (re_pattern: string)

datatype filter_state = No_state
  | Match_state (ms_regex: bool) (ms_invert: bool) (ms_match: match_state)
  | Range_state (rs_matched: bool) (rs_from: string) (rs_to: "string option")
  | Count_state (cs_count: int)

record cli_filter =
  fl_filter :: "filter_fn option"
  fl_data :: filter_state

text \<open>
  \<open>cli_def\<close>. \<open>cli_hist\<close> holds the used slots of \<open>history\<close>, which are the first ones;
  \<open>cli_mem\<close> tells for the coming allocations whether they succeed (those after the list do),
  \<open>cli_out\<close> is what has been written to the client, and \<open>cli_app\<close> the state of the application
  and the operating system. \<open>cli_client\<close> is set while the stream to the client is open.
\<close>

record 'u cli_def =
  cli_commands :: "cli_command list"
  cli_auth_callback :: "string option"
  cli_regular_callback :: "string option"
  cli_enable_callback :: "string option"
  cli_banner :: "string option"
  cli_users :: "(string \<times> string) list"
  cli_enable_password :: "string option"
  cli_hist :: "string list"
  cli_showprompt :: bool
  cli_promptchar :: "string option"
  cli_hostname :: "string option"
  cli_modestring :: "string option"
  cli_privilege :: int
  cli_mode :: int
  cli_state :: cli_states
  cli_filters :: "cli_filter list"
  cli_print_cb :: "string option"
  cli_client :: bool
  cli_buffer :: string
  cli_buf_size :: nat
  cli_timeout_sec :: int
  cli_timeout_usec :: int
  cli_idle_timeout :: int
  cli_idle_callback :: "idle_fn option"
  cli_last_action :: int
  cli_last_regular :: int
  cli_telnet :: bool
  cli_user_context :: "nat option"
  cli_service :: "nat option"
  cli_found_optargs :: optarg_pairs
  cli_transient_mode :: int
  cli_disallow_buildmode :: bool
  cli_pipeline :: "cli_pipeline option"
  cli_buildmode :: "cli_buildmode option"
  cli_next_id :: nat
  cli_mem :: "bool list"
  cli_out :: string
  cli_app :: 'u

text \<open>
  What the library is given: the functions of the application its pointers name, and the C library
  functions that are not spelled out here (regular expressions, \<open>crypt\<close>, the clock, the socket);
  \<open>env_regex_bytes\<close> is what a compiled expression holds when it is read as a string.
  A callback may do anything to the state it is passed; a command may also crash or not return (\<open>None\<close>).
\<close>

record 'u cli_env =
  env_command :: "string \<Rightarrow> string \<Rightarrow> string list \<Rightarrow> int \<Rightarrow> 'u cli_def \<Rightarrow> (int \<times> 'u cli_def) option"
  env_validator :: "string \<Rightarrow> string option \<Rightarrow> string option \<Rightarrow> 'u cli_def \<Rightarrow> int \<times> 'u cli_def"
  env_completor :: "string \<Rightarrow> string \<Rightarrow> string option \<Rightarrow> cli_comphelp \<Rightarrow> 'u cli_def \<Rightarrow> cli_comphelp \<times> 'u cli_def"
  env_transient :: "string \<Rightarrow> string \<Rightarrow> string option \<Rightarrow> 'u cli_def \<Rightarrow> int \<times> 'u cli_def"
  env_print :: "string \<Rightarrow> string \<Rightarrow> 'u cli_def \<Rightarrow> 'u cli_def"
  env_auth :: "string \<Rightarrow> string \<Rightarrow> string \<Rightarrow> 'u cli_def \<Rightarrow> int \<times> 'u cli_def"
  env_enable :: "string \<Rightarrow> string \<Rightarrow> 'u cli_def \<Rightarrow> int \<times> 'u cli_def"
  env_regular :: "string \<Rightarrow> 'u cli_def \<Rightarrow> int \<times> 'u cli_def"
  env_idle :: "string \<Rightarrow> 'u cli_def \<Rightarrow> int \<times> 'u cli_def"
  env_regcomp :: "bool \<Rightarrow> bool \<Rightarrow> string \<Rightarrow> bool"
  env_regexec :: "bool \<Rightarrow> bool \<Rightarrow> string \<Rightarrow> string \<Rightarrow> bool"
  env_regex_bytes :: "bool \<Rightarrow> bool \<Rightarrow> string \<Rightarrow> string"
  env_crypt :: "string \<Rightarrow> string \<Rightarrow> string option"
  env_time :: "'u \<Rightarrow> int \<times> 'u"
  env_select :: "int \<Rightarrow> int \<Rightarrow> 'u \<Rightarrow> (int \<times> int \<times> int) \<times> 'u"
  env_read :: "'u \<Rightarrow> (int \<times> char) \<times> 'u"
  env_eintr :: "'u \<Rightarrow> bool"

section \<open>Allocation\<close>

definition cli_alloc :: "'u cli_def \<Rightarrow> bool \<times> 'u cli_def" where
  "cli_alloc s = (case cli_mem s of [] \<Rightarrow> (True, s) | ok # oks \<Rightarrow> (ok, s\<lparr>cli_mem := oks\<rparr>))"

text \<open>\<open>n\<close> allocations in a row, given up at the first that fails.\<close>

fun cli_allocs :: "nat \<Rightarrow> 'u cli_def \<Rightarrow> bool \<times> 'u cli_def" where
  "cli_allocs 0 s = (True, s)"
| "cli_allocs (Suc n) s = (case cli_alloc s of (True, s') \<Rightarrow> cli_allocs n s' | (False, s') \<Rightarrow> (False, s'))"

text \<open>\<open>p = strdup(str)\<close>: NULL when there is no memory.\<close>

definition cli_strdup :: "string \<Rightarrow> 'u cli_def \<Rightarrow> string option \<times> 'u cli_def" where
  "cli_strdup str s = (case cli_alloc s of (ok, s') \<Rightarrow> (if ok then Some str else None, s'))"

lemma cli_alloc_ample [simp]: "cli_mem s = [] \<Longrightarrow> cli_alloc s = (True, s)"
  by (simp add: cli_alloc_def)

lemma cli_allocs_ample [simp]: "cli_mem s = [] \<Longrightarrow> cli_allocs n s = (True, s)"
  by (induction n) simp_all

lemma cli_strdup_ample [simp]: "cli_mem s = [] \<Longrightarrow> cli_strdup str s = (Some str, s)"
  by (simp add: cli_strdup_def)

section \<open>Strings as the library compares them\<close>

text \<open>\<open>strncmp\<close> and \<open>strncasecmp\<close> being zero: the terminating NUL takes part.\<close>

definition strneq :: "nat \<Rightarrow> string \<Rightarrow> string \<Rightarrow> bool" where
  "strneq n a b \<longleftrightarrow> take n (a @ [CHR 0x00]) = take n (b @ [CHR 0x00])"

definition strncaseeq :: "nat \<Rightarrow> string \<Rightarrow> string \<Rightarrow> bool" where
  "strncaseeq n a b \<longleftrightarrow> map to_lower (take n (a @ [CHR 0x00])) = map to_lower (take n (b @ [CHR 0x00]))"

text \<open>\<open>strstr(hay, needle) != NULL\<close>.\<close>

fun strstr :: "string \<Rightarrow> string \<Rightarrow> bool" where
  "strstr [] needle \<longleftrightarrow> needle = []"
| "strstr (c # hay) needle \<longleftrightarrow> take (length needle) (c # hay) = needle \<or> strstr hay needle"

text \<open>\<open>arr[i]\<close> of a NULL-terminated array.\<close>

definition word_at :: "string list \<Rightarrow> nat \<Rightarrow> string option" where
  "word_at ws i = (if i < length ws then Some (ws ! i) else None)"

lemma strstr_iff: "strstr hay needle \<longleftrightarrow> (\<exists>p q. hay = p @ needle @ q)"
proof (induction hay)
  case Nil
  then show ?case by simp
next
  case (Cons c hay)
  have "take (length needle) (c # hay) = needle \<longleftrightarrow> (\<exists>q. c # hay = needle @ q)"
    by (metis append_eq_conv_conj append_take_drop_id)
  with Cons show ?case by (auto simp: Cons_eq_append_conv)
qed

lemma strneq_refl [simp]: "strneq n a a"
  by (simp add: strneq_def)

lemma strncaseeq_refl [simp]: "strncaseeq n a a"
  by (simp add: strncaseeq_def)

lemma strncaseeq_sym: "strncaseeq n a b \<longleftrightarrow> strncaseeq n b a"
  by (auto simp: strncaseeq_def)

lemma strncaseeq_trans: "strncaseeq n a b \<Longrightarrow> strncaseeq n b c \<Longrightarrow> strncaseeq n a c"
  by (simp add: strncaseeq_def)

lemma strncaseeq_le: "strncaseeq n a b \<Longrightarrow> m \<le> n \<Longrightarrow> strncaseeq m a b"
  unfolding strncaseeq_def by (metis min.absorb1 take_map take_take)

end
