(* ===== verification/Libcli_Output.thy ===== *)
theory Libcli_Output
  imports Libcli_Types
begin

text \<open>
  Printing to the client: the line buffer of \<open>_print\<close>, the filters a line passes on its way
  (\<open>cli_match_filter\<close>, \<open>cli_range_filter\<close>, \<open>cli_count_filter\<close>), and the print functions of the
  library. A format and its arguments are given as the text they make.
\<close>

section \<open>Filters\<close>

text \<open>What a filter does with a line: its verdict, CLI_OK to let the line pass, and its state.\<close>

definition cli_match_filter :: "'u cli_env \<Rightarrow> string \<Rightarrow> filter_state \<Rightarrow> int \<times> filter_state" where
  "cli_match_filter e str st =
     (case st of
        Match_state regex invert m \<Rightarrow>
          (let hit = (case m of
                 Match_string pat \<Rightarrow> strstr str pat
               | Match_regex ext icase pat \<Rightarrow>
                   (if regex then env_regexec e ext icase pat str else strstr str (env_regex_bytes e ext icase pat)))
           in (if hit \<noteq> invert then CLI_OK else CLI_ERROR, st))
      | _ \<Rightarrow> (CLI_ERROR, st))"

definition cli_range_filter :: "string \<Rightarrow> filter_state \<Rightarrow> int \<times> filter_state" where
  "cli_range_filter str st =
     (case st of
        Range_state matched from until \<Rightarrow>
          (let on = matched \<or> strstr str from
           in if on then (CLI_OK, Range_state (case until of None \<Rightarrow> True | Some t \<Rightarrow> \<not> strstr str t) from until)
              else (CLI_ERROR, Range_state False from until))
      | _ \<Rightarrow> (CLI_ERROR, st))"

definition cli_count_filter :: "string \<Rightarrow> filter_state \<Rightarrow> int \<times> filter_state" where
  "cli_count_filter str st =
     (case st of
        Count_state n \<Rightarrow> (CLI_ERROR, Count_state (if dropWhile is_space str = [] then n else n + 1))
      | _ \<Rightarrow> (CLI_ERROR, st))"

text \<open>The call through the pointer \<open>f->filter\<close>.\<close>

definition filter_line :: "'u cli_env \<Rightarrow> string \<Rightarrow> cli_filter \<Rightarrow> int \<times> cli_filter" where
  "filter_line e str f =
     (case fl_filter f of
        Some Match_filter \<Rightarrow> (case cli_match_filter e str (fl_data f) of (rc, st) \<Rightarrow> (rc, f\<lparr>fl_data := st\<rparr>))
      | Some Range_filter \<Rightarrow> (case cli_range_filter str (fl_data f) of (rc, st) \<Rightarrow> (rc, f\<lparr>fl_data := st\<rparr>))
      | Some Count_filter \<Rightarrow> (case cli_count_filter str (fl_data f) of (rc, st) \<Rightarrow> (rc, f\<lparr>fl_data := st\<rparr>))
      | None \<Rightarrow> (CLI_ERROR, f))"

text \<open>A line goes from filter to filter until one keeps it back.\<close>

fun filter_chain :: "'u cli_env \<Rightarrow> string \<Rightarrow> cli_filter list \<Rightarrow> bool \<times> cli_filter list" where
  "filter_chain e str [] = (True, [])"
| "filter_chain e str (f # fs) =
     (case filter_line e str f of (rc, f') \<Rightarrow>
        if rc = CLI_OK then (case filter_chain e str fs of (pass, fs') \<Rightarrow> (pass, f' # fs'))
        else (False, f' # fs))"

section \<open>Output\<close>

text \<open>\<open>fprintf(cli->client, ...)\<close>, behind its test that the stream is open.\<close>

definition client_write :: "string \<Rightarrow> 'u cli_def \<Rightarrow> 'u cli_def" where
  "client_write text s = (if cli_client s then s\<lparr>cli_out := cli_out s @ text\<rparr> else s)"

abbreviation crlf :: string where
  "crlf \<equiv> [CHR 0x0D, CHR 0x0A]"

text \<open>A line that passed the filters.\<close>

definition emit_line :: "'u cli_env \<Rightarrow> string \<Rightarrow> 'u cli_def \<Rightarrow> 'u cli_def" where
  "emit_line e line s =
     (case cli_print_cb s of Some cb \<Rightarrow> env_print e cb line s | None \<Rightarrow> client_write (line @ crlf) s)"

definition print_line :: "'u cli_env \<Rightarrow> bool \<Rightarrow> string \<Rightarrow> 'u cli_def \<Rightarrow> 'u cli_def" where
  "print_line e filtered line s =
     (if filtered then
        (case filter_chain e line (cli_filters s) of (pass, fs) \<Rightarrow>
           (let s1 = s\<lparr>cli_filters := fs\<rparr> in if pass then emit_line e line s1 else s1))
      else emit_line e line s)"

text \<open>
  The loop over the lines of the buffer: \<open>acc\<close> is the line being cut off. When the output is
  buffered the text after the last newline is not printed; it is returned, and stays in the buffer.
\<close>

fun print_lines :: "'u cli_env \<Rightarrow> bool \<Rightarrow> bool \<Rightarrow> string \<Rightarrow> string \<Rightarrow> 'u cli_def \<Rightarrow> string \<times> 'u cli_def" where
  "print_lines e filtered buffered acc [] s =
     (if buffered then (acc, s) else ([], print_line e filtered acc s))"
| "print_lines e filtered buffered acc (c # cs) s =
     (if c = CHR 0x0A then print_lines e filtered buffered [] cs (print_line e filtered acc s)
      else print_lines e filtered buffered (acc @ [c]) cs s)"

definition print_mode :: "'u cli_env \<Rightarrow> bool \<Rightarrow> bool \<Rightarrow> string \<Rightarrow> 'u cli_def \<Rightarrow> 'u cli_def" where
  "print_mode e filtered buffered text s =
     (case cli_alloc s of
        (False, s1) \<Rightarrow> s1
      | (True, s1) \<Rightarrow>
          (let size = length (cli_buffer s1) + length text + 1;
               (ok, s2) = (if cli_buf_size s1 < size then
                   (case cli_alloc s1 of (ok, t) \<Rightarrow> (ok, if ok then t\<lparr>cli_buf_size := size\<rparr> else t))
                 else (True, s1))
           in if \<not> ok then s2
              else (case print_lines e filtered buffered [] (cli_buffer s2 @ text) s2 of
                      (rest, s3) \<Rightarrow> s3\<lparr>cli_buffer := rest\<rparr>)))"

definition cli_bufprint :: "'u cli_env \<Rightarrow> string \<Rightarrow> 'u cli_def \<Rightarrow> 'u cli_def" where
  "cli_bufprint e text s = print_mode e True True text s"

definition cli_vabufprint :: "'u cli_env \<Rightarrow> string \<Rightarrow> 'u cli_def \<Rightarrow> 'u cli_def" where
  "cli_vabufprint e text s = print_mode e False True text s"

definition cli_print :: "'u cli_env \<Rightarrow> string \<Rightarrow> 'u cli_def \<Rightarrow> 'u cli_def" where
  "cli_print e text s = print_mode e True False text s"

definition cli_error :: "'u cli_env \<Rightarrow> string \<Rightarrow> 'u cli_def \<Rightarrow> 'u cli_def" where
  "cli_error e text s = print_mode e False False text s"

text \<open>The end of a filter, called with a NULL string: the count is printed.\<close>

definition filter_end :: "cli_filter \<Rightarrow> 'u cli_def \<Rightarrow> 'u cli_def" where
  "filter_end f s =
     (case (fl_filter f, fl_data f) of
        (Some Count_filter, Count_state n) \<Rightarrow> client_write (dec_int n @ crlf) s
      | _ \<Rightarrow> s)"

section \<open>What the print functions change\<close>

text \<open>
  The state a print function may change, when no print callback of the application is installed:
  the output, the buffer, the filters' states and the memory. \<open>same_ctl s s'\<close> says the rest is the same.
\<close>

definition same_ctl :: "'u cli_def \<Rightarrow> 'u cli_def \<Rightarrow> bool" where
  "same_ctl s s' \<longleftrightarrow> (\<exists>flt ob buf n m.
     s' = s\<lparr>cli_filters := flt, cli_out := ob, cli_buffer := buf, cli_buf_size := n, cli_mem := m\<rparr>
     \<and> map fl_filter flt = map fl_filter (cli_filters s))"

lemma same_ctl_refl [simp, intro]: "same_ctl s s"
  unfolding same_ctl_def
  by (rule exI [of _ "cli_filters s"], rule exI [of _ "cli_out s"], rule exI [of _ "cli_buffer s"],
      rule exI [of _ "cli_buf_size s"], rule exI [of _ "cli_mem s"]) simp

lemma same_ctl_trans: "same_ctl s t \<Longrightarrow> same_ctl t u \<Longrightarrow> same_ctl s u"
  unfolding same_ctl_def by (elim exE conjE) (simp, blast)

lemma same_ctlD:
  assumes "same_ctl s s'"
  shows "cli_commands s' = cli_commands s" "cli_auth_callback s' = cli_auth_callback s"
    "cli_regular_callback s' = cli_regular_callback s" "cli_enable_callback s' = cli_enable_callback s"
    "cli_users s' = cli_users s" "cli_enable_password s' = cli_enable_password s" "cli_hist s' = cli_hist s"
    "cli_privilege s' = cli_privilege s" "cli_mode s' = cli_mode s" "cli_state s' = cli_state s"
    "cli_print_cb s' = cli_print_cb s" "cli_client s' = cli_client s" "cli_found_optargs s' = cli_found_optargs s"
    "cli_transient_mode s' = cli_transient_mode s" "cli_disallow_buildmode s' = cli_disallow_buildmode s"
    "cli_pipeline s' = cli_pipeline s" "cli_buildmode s' = cli_buildmode s" "cli_app s' = cli_app s"
    "map fl_filter (cli_filters s') = map fl_filter (cli_filters s)" "cli_next_id s' = cli_next_id s"
    "cli_showprompt s' = cli_showprompt s"
  using assms by (auto simp: same_ctl_def)

lemma same_ctl_mem: "same_ctl s (s\<lparr>cli_mem := m\<rparr>)"
  unfolding same_ctl_def
  by (rule exI [of _ "cli_filters s"], rule exI [of _ "cli_out s"], rule exI [of _ "cli_buffer s"],
      rule exI [of _ "cli_buf_size s"], rule exI [of _ m]) simp

lemma same_ctl_buffer: "same_ctl s (s\<lparr>cli_buffer := b\<rparr>)"
  unfolding same_ctl_def
  by (rule exI [of _ "cli_filters s"], rule exI [of _ "cli_out s"], rule exI [of _ b],
      rule exI [of _ "cli_buf_size s"], rule exI [of _ "cli_mem s"]) simp

lemma same_ctl_buf_size: "same_ctl s (s\<lparr>cli_buf_size := n\<rparr>)"
  unfolding same_ctl_def
  by (rule exI [of _ "cli_filters s"], rule exI [of _ "cli_out s"], rule exI [of _ "cli_buffer s"],
      rule exI [of _ n], rule exI [of _ "cli_mem s"]) simp

lemma same_ctl_out: "same_ctl s (s\<lparr>cli_out := t\<rparr>)"
  unfolding same_ctl_def
  by (rule exI [of _ "cli_filters s"], rule exI [of _ t], rule exI [of _ "cli_buffer s"],
      rule exI [of _ "cli_buf_size s"], rule exI [of _ "cli_mem s"]) simp

lemma same_ctl_filters: "map fl_filter fs = map fl_filter (cli_filters s) \<Longrightarrow> same_ctl s (s\<lparr>cli_filters := fs\<rparr>)"
  unfolding same_ctl_def
  by (rule exI [of _ fs], rule exI [of _ "cli_out s"], rule exI [of _ "cli_buffer s"],
      rule exI [of _ "cli_buf_size s"], rule exI [of _ "cli_mem s"]) simp

lemma same_ctl_alloc: "cli_alloc s = (b, s') \<Longrightarrow> same_ctl s s'"
  by (auto simp: cli_alloc_def same_ctl_mem split: list.splits)

lemma filter_line_fn: "filter_line e str f = (rc, f') \<Longrightarrow> fl_filter f' = fl_filter f"
  by (auto simp: filter_line_def split: option.splits filter_fn.splits prod.splits)

lemma filter_chain_fn: "filter_chain e str fs = (b, fs') \<Longrightarrow> map fl_filter fs' = map fl_filter fs"
  by (induction fs arbitrary: b fs') (auto split: prod.splits if_splits dest: filter_line_fn)

lemma client_write_ctl [simp]: "same_ctl s (client_write t s)"
  by (simp add: client_write_def same_ctl_out)

lemma emit_line_ctl: "cli_print_cb s = None \<Longrightarrow> same_ctl s (emit_line e l s)"
  by (simp add: emit_line_def)

lemma print_line_ctl:
  assumes "cli_print_cb s = None"
  shows "same_ctl s (print_line e filtered l s)"
proof (cases filtered)
  case True
  obtain b fs where f: "filter_chain e l (cli_filters s) = (b, fs)" by fastforce
  have "same_ctl s (s\<lparr>cli_filters := fs\<rparr>)" using filter_chain_fn [OF f] by (rule same_ctl_filters)
  moreover have "same_ctl (s\<lparr>cli_filters := fs\<rparr>) (emit_line e l (s\<lparr>cli_filters := fs\<rparr>))"
    using assms by (intro emit_line_ctl) simp
  ultimately show ?thesis using True f by (auto simp: print_line_def Let_def intro: same_ctl_trans)
qed (use assms in \<open>simp add: print_line_def emit_line_ctl\<close>)

lemma print_lines_ctl:
  "cli_print_cb s = None \<Longrightarrow> print_lines e filtered buffered acc cs s = (rest, s') \<Longrightarrow> same_ctl s s'"
proof (induction cs arbitrary: acc s)
  case Nil
  then show ?case by (auto simp: print_line_ctl split: if_splits)
next
  case (Cons c cs)
  have p: "same_ctl s (print_line e filtered acc s)" using Cons.prems(1) by (rule print_line_ctl)
  then have "cli_print_cb (print_line e filtered acc s) = None" using Cons.prems(1) by (simp add: same_ctlD)
  with Cons p show ?case by (auto split: if_splits intro: same_ctl_trans)
qed

lemma print_mode_ctl:
  assumes "cli_print_cb s = None"
  shows "same_ctl s (print_mode e filtered buffered text s)"
proof -
  obtain ok s1 where a: "cli_alloc s = (ok, s1)" by fastforce
  have 1: "same_ctl s s1" using a by (rule same_ctl_alloc)
  obtain ok2 s2 where r: "(if cli_buf_size s1 < length (cli_buffer s1) + length text + 1 then
      (case cli_alloc s1 of (ok, t) \<Rightarrow> (ok, if ok then t\<lparr>cli_buf_size := length (cli_buffer s1) + length text + 1\<rparr> else t))
      else (True, s1)) = (ok2, s2)" by fastforce
  then have 2: "same_ctl s1 s2"
    by (auto split: if_splits prod.splits intro: same_ctl_alloc same_ctl_trans [OF same_ctl_alloc same_ctl_buf_size])
  obtain rest s3 where p: "print_lines e filtered buffered [] (cli_buffer s2 @ text) s2 = (rest, s3)" by fastforce
  have "cli_print_cb s2 = None" using assms same_ctlD(11) [OF same_ctl_trans [OF 1 2]] by simp
  then have 3: "same_ctl s2 (s3\<lparr>cli_buffer := rest\<rparr>)"
    using print_lines_ctl [OF _ p] by (blast intro: same_ctl_trans same_ctl_buffer)
  have "print_mode e filtered buffered text s = (if \<not> ok then s1 else if \<not> ok2 then s2 else s3\<lparr>cli_buffer := rest\<rparr>)"
    unfolding print_mode_def a Let_def by (cases ok) (simp_all only: prod.case bool.case if_True if_False not_True_eq_False not_False_eq_True r p)
  with 1 2 3 show ?thesis by (auto intro: same_ctl_trans)
qed

lemma cli_print_ctl: "cli_print_cb s = None \<Longrightarrow> same_ctl s (cli_print e text s)"
  unfolding cli_print_def by (rule print_mode_ctl)

lemma cli_error_ctl: "cli_print_cb s = None \<Longrightarrow> same_ctl s (cli_error e text s)"
  unfolding cli_error_def by (rule print_mode_ctl)

lemma filter_end_ctl: "same_ctl s (filter_end f s)"
  by (auto simp: filter_end_def split: option.split filter_fn.split filter_state.split)

lemmas print_ctl = cli_print_ctl cli_error_ctl filter_end_ctl

end
