(* ===== verification/Libcli_Line.thy ===== *)
theory Libcli_Line
  imports Libcli_Types
begin

text \<open>
  From a command line to its words, and back: \<open>cli_int_return_newword\<close>, \<open>cli_parse_line\<close>,
  \<open>join_words\<close>, with the history and the check of passwords (\<open>libcli.c\<close> 751-877 and 1031-1050).
\<close>

section \<open>Words\<close>

text \<open>
  A word is copied without its backslashes. The loop stops only at \<open>end\<close>, which a step of one
  character cannot miss.
\<close>

fun newword :: "string \<Rightarrow> string" where
  "newword [] = []"
| "newword (c # cs) = (if c = CHR 0x5C then newword cs else c # newword cs)"

text \<open>
  The state of \<open>cli_parse_line\<close>: the words so far, the text from \<open>word_start\<close> to \<open>p\<close> when a word has
  started, and the quote character inside a quoted section.
\<close>

record line_state =
  ln_words :: "string list"
  ln_word :: "string option"
  ln_inquote :: "char option"

definition line_start :: line_state where
  "line_start = \<lparr>ln_words = [], ln_word = None, ln_inquote = None\<rparr>"

definition end_word :: "line_state \<Rightarrow> line_state" where
  "end_word st = (case ln_word st of None \<Rightarrow> st
     | Some w \<Rightarrow> st\<lparr>ln_words := ln_words st @ [newword w], ln_word := None\<rparr>)"

text \<open>\<open>ln_word\<close> grows with every character passed while a word has started.\<close>

definition pass_chars :: "string \<Rightarrow> line_state \<Rightarrow> line_state" where
  "pass_chars cs st = st\<lparr>ln_word := map_option (\<lambda>w. w @ cs) (ln_word st)\<rparr>"

text \<open>One round of the loop at a character \<open>c\<close>, and whether \<open>p\<close> moves past it.\<close>

definition line_char :: "char \<Rightarrow> line_state \<Rightarrow> bool \<times> line_state" where
  "line_char c st =
     (if ln_inquote st = Some c
         \<or> (ln_word st \<noteq> None \<and> ln_inquote st = None \<and> (is_space c \<or> c = CHR ''|''))
      then (ln_inquote st \<noteq> None, (end_word st)\<lparr>ln_word := None, ln_inquote := None\<rparr>)
      else if ln_inquote st = None \<and> (c = CHR 0x22 \<or> c = CHR 0x27)
      then (True, (case ln_word st of Some (x # w) \<Rightarrow> end_word st | _ \<Rightarrow> st)\<lparr>ln_word := Some [], ln_inquote := Some c\<rparr>)
      else (True,
        if ln_word st \<noteq> None then pass_chars [c] st
        else if c = CHR ''|'' then st\<lparr>ln_words := ln_words st @ [''|'']\<rparr>
        else if \<not> is_space c then st\<lparr>ln_word := Some [c]\<rparr>
        else st))"

text \<open>
  The loop. \<open>n\<close> bounds the rounds: each passes a character or ends a word, so two per character and
  two for the end are enough (\<open>parse_loop_enough\<close>). A backslash and the character after it are
  passed over first.
\<close>

definition skip_escape :: "string \<Rightarrow> line_state \<Rightarrow> string \<times> line_state" where
  "skip_escape p st = (case p of c # d # p' \<Rightarrow> if c = CHR 0x5C then (p', pass_chars [c, d] st) else (p, st)
     | _ \<Rightarrow> (p, st))"

fun parse_loop :: "nat \<Rightarrow> nat \<Rightarrow> string \<Rightarrow> line_state \<Rightarrow> line_state" where
  "parse_loop 0 max_words p st = st"
| "parse_loop (Suc n) max_words p st =
     (if max_words - 1 \<le> length (ln_words st) then st
      else (case skip_escape p st of (p1, st1) \<Rightarrow>
        (case p1 of [] \<Rightarrow> end_word st1
         | c # p2 \<Rightarrow> (case line_char c st1 of (moved, st2) \<Rightarrow>
             parse_loop n max_words (if moved then p2 else c # p2) st2))))"

definition line_first :: "string \<Rightarrow> line_state" where
  "line_first p = line_start\<lparr>ln_word := if p = [] then None else Some []\<rparr>"

definition cli_parse_line :: "string \<Rightarrow> nat \<Rightarrow> string list" where
  "cli_parse_line line max_words =
     (let p = dropWhile is_space line
      in ln_words (parse_loop (2 * length p + 2) max_words p (line_first p)))"

fun join_words :: "string list \<Rightarrow> string" where
  "join_words [] = []"
| "join_words [w] = w"
| "join_words (w # ws) = w @ '' '' @ join_words ws"

section \<open>History\<close>

text \<open>An entry that repeats the last one is not added, unless the history is full.\<close>

definition cli_add_history :: "string \<Rightarrow> 'u cli_def \<Rightarrow> int \<times> 'u cli_def" where
  "cli_add_history cmd s =
     (if length (cli_hist s) < MAX_HISTORY then
        (if cli_hist s = [] \<or> \<not> strcaseeq (last (cli_hist s)) cmd then
           (case cli_strdup cmd s of
              (None, s1) \<Rightarrow> (CLI_ERROR, s1)
            | (Some c, s1) \<Rightarrow> (CLI_OK, s1\<lparr>cli_hist := cli_hist s @ [c]\<rparr>))
         else (CLI_OK, s))
      else
        (case cli_strdup cmd (s\<lparr>cli_hist := tl (cli_hist s)\<rparr>) of
           (None, s1) \<Rightarrow> (CLI_ERROR, s1)
         | (Some c, s1) \<Rightarrow> (CLI_OK, s1\<lparr>cli_hist := cli_hist s1 @ [c]\<rparr>)))"

definition cli_free_history :: "'u cli_def \<Rightarrow> 'u cli_def" where
  "cli_free_history s = s\<lparr>cli_hist := []\<rparr>"

section \<open>Passwords\<close>

definition DES_PREFIX :: string where "DES_PREFIX = ''{crypt}''"
definition MD5_PREFIX :: string where "MD5_PREFIX = ''$1$''"

definition pass_matches :: "'u cli_env \<Rightarrow> string \<Rightarrow> string \<Rightarrow> bool" where
  "pass_matches e pass attempt =
     (let des = strncaseeq (length DES_PREFIX) pass DES_PREFIX;
          pass' = if des then drop (length DES_PREFIX) pass else pass;
          attempt' = if des \<or> strneq (length MD5_PREFIX) pass' MD5_PREFIX
                     then env_crypt e attempt pass' else Some attempt
      in case attempt' of None \<Rightarrow> False | Some a \<Rightarrow> pass' = a)"

section \<open>Bounds and shape of the words\<close>

lemma newword_clean: "CHR 0x5C \<notin> set (newword w)"
  by (induction w) auto

lemma newword_plain: "CHR 0x5C \<notin> set w \<Longrightarrow> newword w = w"
  by (induction w) auto

lemma end_word_words: "length (ln_words (end_word st)) \<le> Suc (length (ln_words st))"
  by (simp add: end_word_def split: option.split)

lemma line_char_words: "line_char c st = (m, st') \<Longrightarrow> length (ln_words st') \<le> Suc (length (ln_words st))"
  using end_word_words [of st]
  by (auto simp: line_char_def pass_chars_def split: if_splits option.splits list.splits)

lemma skip_escape_words: "skip_escape p st = (p', st') \<Longrightarrow> ln_words st' = ln_words st \<and> ln_inquote st' = ln_inquote st"
  by (auto simp: skip_escape_def pass_chars_def split: if_splits list.splits)

lemma parse_loop_bound:
  "length (ln_words st) \<le> k - 1 \<Longrightarrow> length (ln_words (parse_loop n k p st)) \<le> k - 1"
proof (induction n arbitrary: p st)
  case 0
  then show ?case by simp
next
  case (Suc n)
  obtain p1 st1 where e: "skip_escape p st = (p1, st1)" by fastforce
  then have w: "ln_words st1 = ln_words st" using skip_escape_words [OF e] by simp
  show ?case
  proof (cases "k - 1 \<le> length (ln_words st) \<or> p1 = []")
    case True
    then show ?thesis using Suc.prems e w end_word_words [of st1] by auto
  next
    case False
    then obtain c p2 where p: "p1 = c # p2" by (cases p1) auto
    obtain m st2 where l: "line_char c st1 = (m, st2)" by fastforce
    with line_char_words [OF l] w False have "length (ln_words st2) \<le> k - 1" by simp
    from Suc.IH [OF this] False e l p show ?thesis by simp
  qed
qed

lemma cli_parse_line_bound: "length (cli_parse_line line n) \<le> n - 1"
  unfolding cli_parse_line_def Let_def
  by (rule parse_loop_bound) (simp add: line_first_def line_start_def)

definition clean_words :: "line_state \<Rightarrow> bool" where
  "clean_words st \<longleftrightarrow> (\<forall>w \<in> set (ln_words st). CHR 0x5C \<notin> set w)"

lemma end_word_clean: "clean_words st \<Longrightarrow> clean_words (end_word st)"
  by (auto simp: clean_words_def end_word_def newword_clean split: option.split)

lemma line_char_clean: "clean_words st \<Longrightarrow> line_char c st = (m, st') \<Longrightarrow> clean_words st'"
  using end_word_clean [of st]
  by (auto simp: line_char_def clean_words_def pass_chars_def split: if_splits option.splits list.splits)

lemma parse_loop_clean: "clean_words st \<Longrightarrow> clean_words (parse_loop n k p st)"
proof (induction n arbitrary: p st)
  case 0
  then show ?case by simp
next
  case (Suc n)
  obtain p1 st1 where e: "skip_escape p st = (p1, st1)" by fastforce
  then have c: "clean_words st1" using skip_escape_words [OF e] Suc.prems by (simp add: clean_words_def)
  show ?case
  proof (cases "k - 1 \<le> length (ln_words st) \<or> p1 = []")
    case True
    then show ?thesis using Suc.prems e c end_word_clean [OF c] by auto
  next
    case False
    then obtain x p2 where p: "p1 = x # p2" by (cases p1) auto
    obtain m st2 where l: "line_char x st1 = (m, st2)" by fastforce
    from Suc.IH [OF line_char_clean [OF c l]] False e l p show ?thesis by simp
  qed
qed

lemma cli_parse_line_clean: "w \<in> set (cli_parse_line line n) \<Longrightarrow> CHR 0x5C \<notin> set w"
  using parse_loop_clean [of "line_first (dropWhile is_space line)"]
  by (auto simp: cli_parse_line_def Let_def clean_words_def line_first_def line_start_def simp del: parse_loop.simps)

section \<open>The rounds are enough\<close>

text \<open>The rounds a state still needs: two for each character, one more for the end.\<close>

lemma skip_escape_length: "skip_escape p st = (p', st') \<Longrightarrow> length p' \<le> length p"
  by (auto simp: skip_escape_def split: if_splits list.splits)

lemma line_char_stays: "line_char c st = (False, st') \<Longrightarrow> ln_word st \<noteq> None \<and> ln_word st' = None \<and> ln_inquote st' = None"
  by (auto simp: line_char_def split: if_splits)

definition rounds :: "string \<Rightarrow> line_state \<Rightarrow> nat" where
  "rounds p st = 2 * length p + (if ln_word st = None then 0 else 1)"

lemma skip_escape_rounds: "skip_escape p st = (p', st') \<Longrightarrow> rounds p' st' \<le> rounds p st"
  by (auto simp: rounds_def skip_escape_def pass_chars_def split: if_splits list.splits)

lemma line_char_rounds:
  "line_char c st = (m, st') \<Longrightarrow> rounds (if m then p else c # p) st' < rounds (c # p) st"
  using line_char_stays [of c st st'] by (auto simp: rounds_def)

lemma parse_loop_enough:
  "rounds p st < n \<Longrightarrow> rounds p st < m \<Longrightarrow> parse_loop n k p st = parse_loop m k p st"
proof (induction "rounds p st" arbitrary: n m p st rule: less_induct)
  case less
  obtain n' where n: "n = Suc n'" using less.prems by (cases n) auto
  obtain m' where m: "m = Suc m'" using less.prems by (cases m) auto
  obtain p1 st1 where e: "skip_escape p st = (p1, st1)" by fastforce
  show ?case
  proof (cases p1)
    case Nil
    then show ?thesis using n m e by simp
  next
    case (Cons c p2)
    obtain b st2 where l: "line_char c st1 = (b, st2)" by fastforce
    have "rounds (if b then p2 else c # p2) st2 < rounds p st"
      using line_char_rounds [OF l, of p2] skip_escape_rounds [OF e] Cons by simp
    with less.hyps [of "if b then p2 else c # p2" st2 n' m'] less.prems n m e l Cons show ?thesis by simp
  qed
qed

text \<open>\<open>parse_run\<close> is the loop run to its end; its equations need no count of the rounds.\<close>

definition parse_run :: "nat \<Rightarrow> string \<Rightarrow> line_state \<Rightarrow> line_state" where
  "parse_run k p st = parse_loop (Suc (rounds p st)) k p st"

lemma parse_loop_run: "rounds p st < n \<Longrightarrow> parse_loop n k p st = parse_run k p st"
  unfolding parse_run_def by (rule parse_loop_enough) auto

lemma parse_run_full: "k - 1 \<le> length (ln_words st) \<Longrightarrow> parse_run k p st = st"
  by (simp add: parse_run_def)

lemma parse_run_nil: "length (ln_words st) < k - 1 \<Longrightarrow> parse_run k [] st = end_word st"
  by (simp add: parse_run_def skip_escape_def)

lemma parse_run_char:
  assumes "length (ln_words st) < k - 1" and "c \<noteq> CHR 0x5C" and "line_char c st = (m, st')"
  shows "parse_run k (c # p) st = parse_run k (if m then p else c # p) st'"
proof -
  have "skip_escape (c # p) st = (c # p, st)" using assms(2) by (simp add: skip_escape_def split: list.split)
  then have "parse_run k (c # p) st = parse_loop (rounds (c # p) st) k (if m then p else c # p) st'"
    using assms(1,3) by (simp add: parse_run_def)
  with line_char_rounds [OF assms(3), of p] show ?thesis by (simp add: parse_loop_run)
qed

lemma cli_parse_line_run:
  "cli_parse_line line k = ln_words (parse_run k (dropWhile is_space line) (line_first (dropWhile is_space line)))"
  unfolding cli_parse_line_def Let_def
  by (subst parse_loop_run) (simp_all add: rounds_def line_first_def)

section \<open>Parsing a line of plain words\<close>

definition plain_char :: "char \<Rightarrow> bool" where
  "plain_char c \<longleftrightarrow> \<not> is_space c \<and> c \<notin> {CHR 0x5C, CHR ''|'', CHR 0x22, CHR 0x27}"

definition plain_word :: "string \<Rightarrow> bool" where
  "plain_word w \<longleftrightarrow> w \<noteq> [] \<and> (\<forall>c \<in> set w. plain_char c)"

definition words_state :: "string list \<Rightarrow> string option \<Rightarrow> line_state" where
  "words_state ws w = \<lparr>ln_words = ws, ln_word = w, ln_inquote = None\<rparr>"

lemma line_char_plain:
  "plain_char c \<Longrightarrow> line_char c (words_state ws (Some v)) = (True, words_state ws (Some (v @ [c])))"
  by (simp add: line_char_def plain_char_def words_state_def pass_chars_def)

lemma line_char_start: "plain_char c \<Longrightarrow> line_char c (words_state ws None) = (True, words_state ws (Some [c]))"
  by (simp add: line_char_def plain_char_def words_state_def)

lemma line_char_space:
  "line_char CHR '' '' (words_state ws (Some v)) = (False, words_state (ws @ [newword v]) None)"
  "line_char CHR '' '' (words_state ws None) = (True, words_state ws None)"
  by (simp_all add: line_char_def words_state_def end_word_def is_space_def)

lemma words_state_words [simp]: "ln_words (words_state ws w) = ws"
  by (simp add: words_state_def)

lemma parse_run_step:
  assumes "length ws < k - 1" and "c \<noteq> CHR 0x5C" and "line_char c (words_state ws w) = (True, st')"
  shows "parse_run k (c # p) (words_state ws w) = parse_run k p st'"
  using parse_run_char [OF _ assms(2,3), of k p] assms(1) by simp

lemma plain_not_escape: "plain_char c \<Longrightarrow> c \<noteq> CHR 0x5C"
  by (auto simp: plain_char_def)

lemma parse_run_plain:
  assumes "\<forall>c \<in> set w. plain_char c" and "length ws < k - 1"
  shows "parse_run k (w @ rest) (words_state ws (Some v)) = parse_run k rest (words_state ws (Some (v @ w)))"
  using assms(1)
proof (induction w arbitrary: v)
  case Nil
  then show ?case by simp
next
  case (Cons c w)
  then have c: "plain_char c" by simp
  have "parse_run k (c # w @ rest) (words_state ws (Some v)) = parse_run k (w @ rest) (words_state ws (Some (v @ [c])))"
    by (rule parse_run_step [OF assms(2) plain_not_escape [OF c] line_char_plain [OF c]])
  with Cons show ?case by simp
qed

lemma plain_newword: "plain_word w \<Longrightarrow> newword w = w"
  by (rule newword_plain) (auto simp: plain_word_def plain_char_def)

lemma parse_run_word:
  assumes "plain_word w" and "length us < k - 1"
  shows "parse_run k (w @ rest) (words_state us None) = parse_run k rest (words_state us (Some w))"
proof -
  obtain c cs where w: "w = c # cs" "plain_char c" "\<forall>d \<in> set cs. plain_char d"
    using assms(1) by (cases w) (auto simp: plain_word_def)
  then have "parse_run k (c # cs @ rest) (words_state us None) = parse_run k (cs @ rest) (words_state us (Some [c]))"
    by (intro parse_run_step [OF assms(2) plain_not_escape line_char_start])
  with parse_run_plain [OF w(3) assms(2), of rest "[c]"] w(1) show ?thesis by simp
qed

lemma parse_run_words:
  assumes "\<forall>w \<in> set ws. plain_word w" and "length us + length ws \<le> k - 1"
  shows "ln_words (parse_run k (join_words ws) (words_state us None)) = us @ ws"
  using assms
proof (induction ws arbitrary: us rule: join_words.induct)
  case 1
  show ?case
  proof (cases "length us < k - 1")
    case True
    then show ?thesis by (simp add: parse_run_nil words_state_def end_word_def)
  next
    case False
    then show ?thesis by (simp add: parse_run_full words_state_def)
  qed
next
  case (2 w)
  then show ?case using parse_run_word [of w us k "[]"]
    by (simp add: parse_run_nil words_state_def end_word_def plain_newword)
next
  case (3 w x xs)
  let ?us = "us @ [w]" and ?ws = "join_words (x # xs)"
  have "parse_run k (join_words (w # x # xs)) (words_state us None) = parse_run k (CHR '' '' # ?ws) (words_state us (Some w))"
    using "3.prems" parse_run_word [of w us k "CHR '' '' # ?ws"] by simp
  also have "\<dots> = parse_run k (CHR '' '' # ?ws) (words_state ?us None)"
    using "3.prems" parse_run_char [OF _ _ line_char_space(1), of us w k ?ws] by (simp add: words_state_def plain_newword)
  also have "\<dots> = parse_run k ?ws (words_state ?us None)"
    using "3.prems" parse_run_char [OF _ _ line_char_space(2), of ?us k ?ws] by (simp add: words_state_def)
  finally show ?case using "3.IH" [of ?us] "3.prems" by simp
qed

lemma plain_not_space: "plain_word w \<Longrightarrow> dropWhile is_space (w @ rest) = w @ rest"
  by (cases w) (auto simp: plain_word_def plain_char_def)

lemma join_words_first: "ws \<noteq> [] \<Longrightarrow> \<exists>rest. join_words ws = hd ws @ rest"
  by (cases ws rule: join_words.cases) auto

lemma parse_join_words:
  assumes "\<forall>w \<in> set ws. plain_word w" and "length ws < k"
  shows "cli_parse_line (join_words ws) k = ws"
proof (cases "ws = []")
  case True
  then show ?thesis using parse_run_words [of "[]" "[]" k]
    by (simp add: cli_parse_line_run line_first_def line_start_def words_state_def)
next
  case False
  then obtain rest where j: "join_words ws = hd ws @ rest" and h: "plain_word (hd ws)"
    using join_words_first [OF False] assms(1) by auto
  then obtain c p where cp: "join_words ws = c # p" "plain_char c" by (cases "hd ws") (auto simp: plain_word_def)
  have d: "dropWhile is_space (join_words ws) = join_words ws" unfolding j by (rule plain_not_space [OF h])
  have k: "0 < k - 1" using assms(2) False by (cases ws) auto
  have f: "line_first (join_words ws) = words_state [] (Some [])"
    using cp by (simp add: line_first_def line_start_def words_state_def)
  have nb: "c \<noteq> CHR 0x5C" using cp(2) by (auto simp: plain_char_def)
  have "parse_run k (c # p) (words_state [] (Some [])) = parse_run k p (words_state [] (Some [c]))"
    by (rule parse_run_step [OF _ nb]) (use k line_char_plain [OF cp(2)] in simp_all)
  moreover have "parse_run k (c # p) (words_state [] None) = parse_run k p (words_state [] (Some [c]))"
    by (rule parse_run_step [OF _ nb]) (use k line_char_start [OF cp(2)] in simp_all)
  ultimately have "parse_run k (join_words ws) (words_state [] (Some [])) = parse_run k (join_words ws) (words_state [] None)"
    using cp by simp
  with parse_run_words [of ws "[]" k] assms d f show ?thesis by (simp add: cli_parse_line_run)
qed

end
