(* ===== verification/Libcli_Commands.thy ===== *)
theory Libcli_Commands
  imports Libcli_Output Libcli_Line
begin

text \<open>
  The command tree of \<open>libcli.c\<close> and the settings of a session (lines 190-600 and 703-720):
  registration, removal, abbreviations, privilege and mode, users, and the library's own commands.
\<close>

section \<open>The tree\<close>

definition first_some :: "'a option list \<Rightarrow> 'a option" where
  "first_some xs = (case filter (\<lambda>x. x \<noteq> None) xs of [] \<Rightarrow> None | x # _ \<Rightarrow> x)"

text \<open>The command at an address, and the names on the way to it (the chain of \<open>parent\<close> pointers).\<close>

fun find_command :: "nat \<Rightarrow> cli_command \<Rightarrow> cli_command option" where
  "find_command i (Cli_Command j d ch) =
     (if i = j then Some (Cli_Command j d ch) else first_some (map (find_command i) ch))"

fun names_to :: "nat \<Rightarrow> cli_command \<Rightarrow> string list option" where
  "names_to i (Cli_Command j d ch) =
     (if i = j then Some [c_command d]
      else map_option (\<lambda>ns. c_command d # ns) (first_some (map (names_to i) ch)))"

text \<open>Changing the command at an address.\<close>

fun at_command :: "nat \<Rightarrow> (cli_command \<Rightarrow> cli_command) \<Rightarrow> cli_command \<Rightarrow> cli_command" where
  "at_command i f (Cli_Command j d ch) =
     (if i = j then f (Cli_Command j d ch) else Cli_Command j d (map (at_command i f) ch))"

fun add_child :: "cli_command \<Rightarrow> cli_command \<Rightarrow> cli_command" where
  "add_child c (Cli_Command j d ch) = Cli_Command j d (ch @ [c])"

section \<open>Registration\<close>

text \<open>\<open>cli_int_command_name\<close>: one \<open>calloc\<close> and one \<open>asprintf\<close> for each level.\<close>

definition cli_int_command_name :: "nat option \<Rightarrow> string \<Rightarrow> 'u cli_def \<Rightarrow> string option \<times> 'u cli_def" where
  "cli_int_command_name parent name s =
     (let names = (case parent of None \<Rightarrow> []
                   | Some i \<Rightarrow> (case first_some (map (names_to i) (cli_commands s)) of None \<Rightarrow> [] | Some ns \<Rightarrow> ns)) @ [name];
          (ok, s1) = cli_allocs (Suc (length names)) s
      in (if ok then Some (join_words names) else None, s1))"

definition new_command :: "string \<Rightarrow> command_types \<Rightarrow> int \<Rightarrow> int \<Rightarrow> string option \<Rightarrow> command_data" where
  "new_command command type privilege mode help =
     \<lparr>c_command = command, c_full_command_name = [], c_callback = None, c_unique_len = 0, c_help = help,
      c_privilege = privilege, c_mode = mode, c_optargs = [], c_filter = None, c_init = None,
      c_command_type = type, c_flags = 0\<rparr>"

definition cli_register_command_core :: "nat option \<Rightarrow> command_data \<Rightarrow> 'u cli_def \<Rightarrow> nat option \<times> 'u cli_def" where
  "cli_register_command_core parent d s =
     (case cli_int_command_name parent (c_command d) s of
        (None, s1) \<Rightarrow> (None, s1)
      | (Some full, s1) \<Rightarrow>
          (let i = cli_next_id s1; c = Cli_Command i (d\<lparr>c_full_command_name := full\<rparr>) [];
               s2 = s1\<lparr>cli_next_id := Suc i\<rparr>
           in (Some i,
               case parent of
                 None \<Rightarrow> s2\<lparr>cli_commands := cli_commands s2 @ [c]\<rparr>
               | Some p \<Rightarrow> s2\<lparr>cli_commands := map (at_command p (add_child c)) (cli_commands s2)\<rparr>)))"

text \<open>The allocations of a new command: the structure, its name, its help text when there is one.\<close>

definition alloc_command :: "string option \<Rightarrow> 'u cli_def \<Rightarrow> bool \<times> 'u cli_def" where
  "alloc_command help s = cli_allocs (if help = None then 2 else 3) s"

definition cli_register_command ::
  "nat option \<Rightarrow> string \<Rightarrow> command_fn option \<Rightarrow> int \<Rightarrow> int \<Rightarrow> string option \<Rightarrow> 'u cli_def \<Rightarrow> nat option \<times> 'u cli_def" where
  "cli_register_command parent command callback privilege mode help s =
     (case alloc_command help s of
        (False, s1) \<Rightarrow> (None, s1)
      | (True, s1) \<Rightarrow> cli_register_command_core parent
          ((new_command command CLI_REGULAR_COMMAND privilege mode help)\<lparr>c_callback := callback\<rparr>) s1)"

definition cli_register_filter ::
  "string \<Rightarrow> filter_fn option \<Rightarrow> filter_fn option \<Rightarrow> int \<Rightarrow> int \<Rightarrow> string option \<Rightarrow> 'u cli_def \<Rightarrow> nat option \<times> 'u cli_def" where
  "cli_register_filter command init flt privilege mode help s =
     (case alloc_command help s of
        (False, s1) \<Rightarrow> (None, s1)
      | (True, s1) \<Rightarrow> cli_register_command_core None
          ((new_command command CLI_FILTER_COMMAND privilege mode help)\<lparr>c_init := init, c_filter := flt\<rparr>) s1)"

text \<open>The help of a buildmode command ends at the first vertical tab.\<close>

definition cli_int_register_buildmode_command ::
  "string \<Rightarrow> command_fn option \<Rightarrow> u32 \<Rightarrow> int \<Rightarrow> int \<Rightarrow> string option \<Rightarrow> 'u cli_def \<Rightarrow> nat option \<times> 'u cli_def" where
  "cli_int_register_buildmode_command command callback flags privilege mode help s =
     (case alloc_command help s of
        (False, s1) \<Rightarrow> (None, s1)
      | (True, s1) \<Rightarrow> cli_register_command_core None
          ((new_command command CLI_BUILDMODE_COMMAND privilege mode
              (map_option (takeWhile (\<lambda>c. c \<noteq> CHR 0x0B)) help))\<lparr>c_callback := callback, c_flags := flags\<rparr>) s1)"

section \<open>Removal\<close>

text \<open>\<open>cli_free_command\<close> takes a command and all below it out of the tree.\<close>

fun remove_first :: "('a \<Rightarrow> bool) \<Rightarrow> 'a list \<Rightarrow> 'a list" where
  "remove_first P [] = []"
| "remove_first P (x # xs) = (if P x then xs else x # remove_first P xs)"

definition cli_free_command :: "nat \<Rightarrow> 'u cli_def \<Rightarrow> 'u cli_def" where
  "cli_free_command i s = s\<lparr>cli_commands := remove_first (\<lambda>c. cmd_id c = i) (cli_commands s)\<rparr>"

definition cli_int_unregister_command_core :: "string \<Rightarrow> command_types \<Rightarrow> 'u cli_def \<Rightarrow> int \<times> 'u cli_def" where
  "cli_int_unregister_command_core command type s =
     (CLI_OK,
      case filter (\<lambda>c. c_command (cmd_data c) = command \<and> c_command_type (cmd_data c) = type) (cli_commands s) of
        [] \<Rightarrow> s | c # _ \<Rightarrow> cli_free_command (cmd_id c) s)"

definition cli_unregister_command :: "string \<Rightarrow> 'u cli_def \<Rightarrow> int \<times> 'u cli_def" where
  "cli_unregister_command command s = cli_int_unregister_command_core command CLI_REGULAR_COMMAND s"

definition cli_unregister_filter :: "string \<Rightarrow> 'u cli_def \<Rightarrow> int \<times> 'u cli_def" where
  "cli_unregister_filter command s = cli_int_unregister_command_core command CLI_FILTER_COMMAND s"

definition cli_int_unregister_buildmode_command :: "string \<Rightarrow> 'u cli_def \<Rightarrow> int \<times> 'u cli_def" where
  "cli_int_unregister_buildmode_command command s = cli_int_unregister_command_core command CLI_BUILDMODE_COMMAND s"

text \<open>Removal of the commands of a type, from \<open>start\<close> on in the top level chain.\<close>

definition cli_unregister_tree :: "nat option \<Rightarrow> command_types \<Rightarrow> 'u cli_def \<Rightarrow> 'u cli_def" where
  "cli_unregister_tree start type s =
     (let here = (\<lambda>c. start = Some (cmd_id c)); cs = cli_commands s;
          goes = (\<lambda>c. c_command_type (cmd_data c) = type \<or> type = CLI_ANY_COMMAND)
      in s\<lparr>cli_commands := (if start = None then [] else takeWhile (\<lambda>c. \<not> here c) cs)
             @ filter (\<lambda>c. \<not> goes c) (if start = None then cs else dropWhile (\<lambda>c. \<not> here c) cs)\<rparr>)"

definition cli_unregister_all :: "nat option \<Rightarrow> 'u cli_def \<Rightarrow> 'u cli_def" where
  "cli_unregister_all start s = cli_unregister_tree start CLI_REGULAR_COMMAND s"

definition cli_unregister_all_commands :: "'u cli_def \<Rightarrow> 'u cli_def" where
  "cli_unregister_all_commands s = cli_unregister_tree None CLI_REGULAR_COMMAND s"

definition cli_unregister_all_filters :: "'u cli_def \<Rightarrow> 'u cli_def" where
  "cli_unregister_all_filters s = cli_unregister_tree None CLI_FILTER_COMMAND s"

section \<open>Abbreviations\<close>

text \<open>One more than the length of the common start of two names.\<close>

fun common_len :: "string \<Rightarrow> string \<Rightarrow> nat" where
  "common_len (c # cs) (d # ds) = (if c = d then Suc (common_len cs ds) else 1)"
| "common_len _ _ = 1"

definition visible :: "int \<Rightarrow> int \<Rightarrow> command_data \<Rightarrow> bool" where
  "visible mode privilege d \<longleftrightarrow> (c_mode d = MODE_ANY \<or> c_mode d = mode) \<and> c_privilege d \<le> privilege"

definition unique_len :: "int \<Rightarrow> int \<Rightarrow> cli_command list \<Rightarrow> nat \<Rightarrow> command_data \<Rightarrow> nat" where
  "unique_len mode privilege siblings i d =
     foldl max 1
       (map (\<lambda>p. common_len (c_command d) (c_command (cmd_data p)))
         (filter (\<lambda>p. cmd_id p \<noteq> i \<and> c_command_type (cmd_data p) = c_command_type d \<and> visible mode privilege (cmd_data p))
           siblings))"

fun shortest :: "int \<Rightarrow> int \<Rightarrow> cli_command list \<Rightarrow> cli_command \<Rightarrow> cli_command" where
  "shortest mode privilege siblings (Cli_Command i d ch) =
     (if visible mode privilege d
      then Cli_Command i (d\<lparr>c_unique_len := unique_len mode privilege siblings i d\<rparr>)
             (map (shortest mode privilege ch) ch)
      else Cli_Command i (d\<lparr>c_unique_len := length (c_command d)\<rparr>) ch)"

definition cli_build_shortest :: "'u cli_def \<Rightarrow> 'u cli_def" where
  "cli_build_shortest s =
     s\<lparr>cli_commands := map (shortest (cli_mode s) (cli_privilege s) (cli_commands s)) (cli_commands s)\<rparr>"

section \<open>Settings\<close>

definition cli_set_auth_callback :: "string option \<Rightarrow> 'u cli_def \<Rightarrow> 'u cli_def" where
  "cli_set_auth_callback f s = s\<lparr>cli_auth_callback := f\<rparr>"

definition cli_set_enable_callback :: "string option \<Rightarrow> 'u cli_def \<Rightarrow> 'u cli_def" where
  "cli_set_enable_callback f s = s\<lparr>cli_enable_callback := f\<rparr>"

definition cli_allow_user :: "string \<Rightarrow> string \<Rightarrow> 'u cli_def \<Rightarrow> 'u cli_def" where
  "cli_allow_user username password s =
     (case cli_allocs 3 s of (ok, s1) \<Rightarrow>
        if ok then s1\<lparr>cli_users := cli_users s1 @ [(username, password)]\<rparr> else s1)"

definition cli_allow_enable :: "string \<Rightarrow> 'u cli_def \<Rightarrow> 'u cli_def" where
  "cli_allow_enable password s = (case cli_strdup password s of (p, s1) \<Rightarrow> s1\<lparr>cli_enable_password := p\<rparr>)"

definition cli_deny_user :: "string \<Rightarrow> 'u cli_def \<Rightarrow> 'u cli_def" where
  "cli_deny_user username s = s\<lparr>cli_users := remove_first (\<lambda>(u, p). username = u) (cli_users s)\<rparr>"

text \<open>\<open>strdup\<close> of a string that is neither NULL nor empty.\<close>

definition dup_nonempty :: "string option \<Rightarrow> 'u cli_def \<Rightarrow> string option \<times> 'u cli_def" where
  "dup_nonempty str s = (case str of None \<Rightarrow> (None, s) | Some t \<Rightarrow> if t = [] then (None, s) else cli_strdup t s)"

definition cli_set_banner :: "string option \<Rightarrow> 'u cli_def \<Rightarrow> 'u cli_def" where
  "cli_set_banner banner s = (case dup_nonempty banner s of (b, s1) \<Rightarrow> s1\<lparr>cli_banner := b\<rparr>)"

definition cli_set_hostname :: "string option \<Rightarrow> 'u cli_def \<Rightarrow> 'u cli_def" where
  "cli_set_hostname hostname s = (case dup_nonempty hostname s of (h, s1) \<Rightarrow> s1\<lparr>cli_hostname := h\<rparr>)"

definition cli_set_promptchar :: "string \<Rightarrow> 'u cli_def \<Rightarrow> 'u cli_def" where
  "cli_set_promptchar promptchar s = (case cli_strdup promptchar s of (p, s1) \<Rightarrow> s1\<lparr>cli_promptchar := p\<rparr>)"

definition cli_set_modestring :: "string option \<Rightarrow> 'u cli_def \<Rightarrow> 'u cli_def" where
  "cli_set_modestring modestring s =
     (case modestring of None \<Rightarrow> s\<lparr>cli_modestring := None\<rparr>
      | Some m \<Rightarrow> (case cli_strdup m s of (m', s1) \<Rightarrow> s1\<lparr>cli_modestring := m'\<rparr>))"

definition cli_set_privilege :: "int \<Rightarrow> 'u cli_def \<Rightarrow> int \<times> 'u cli_def" where
  "cli_set_privilege priv s =
     (let old = cli_privilege s; s1 = s\<lparr>cli_privilege := priv\<rparr>
      in (old, if priv \<noteq> old then
           cli_build_shortest (cli_set_promptchar (if priv = PRIVILEGE_PRIVILEGED then ''# '' else ''> '') s1)
         else s1))"

definition cli_set_configmode :: "int \<Rightarrow> string option \<Rightarrow> 'u cli_def \<Rightarrow> int \<times> 'u cli_def" where
  "cli_set_configmode mode config_desc s =
     (let old = cli_mode s; s1 = s\<lparr>cli_mode := mode\<rparr>
      in (old, if mode \<noteq> old then
           cli_build_shortest
             (if mode = 0 then cli_set_modestring None s1
              else case config_desc of
                Some (c # cs) \<Rightarrow> cli_set_modestring (Some (snprintf_fit 64 (''(config-'' @ (c # cs) @ '')''))) s1
              | _ \<Rightarrow> cli_set_modestring (Some ''(config)'') s1)
         else s1))"

definition cli_reprompt :: "'u cli_def \<Rightarrow> 'u cli_def" where
  "cli_reprompt s = s\<lparr>cli_showprompt := True\<rparr>"

definition cli_regular :: "string option \<Rightarrow> 'u cli_def \<Rightarrow> 'u cli_def" where
  "cli_regular callback s = s\<lparr>cli_regular_callback := callback\<rparr>"

definition cli_regular_interval :: "int \<Rightarrow> 'u cli_def \<Rightarrow> 'u cli_def" where
  "cli_regular_interval seconds s =
     s\<lparr>cli_timeout_sec := (if seconds < 1 then 1 else seconds), cli_timeout_usec := 0\<rparr>"

definition cli_print_callback :: "string option \<Rightarrow> 'u cli_def \<Rightarrow> 'u cli_def" where
  "cli_print_callback callback s = s\<lparr>cli_print_cb := callback\<rparr>"

text \<open>\<open>time(&x)\<close>.\<close>

definition cli_time :: "'u cli_env \<Rightarrow> 'u cli_def \<Rightarrow> int \<times> 'u cli_def" where
  "cli_time e s = (case env_time e (cli_app s) of (t, u) \<Rightarrow> (t, s\<lparr>cli_app := u\<rparr>))"

definition cli_set_idle_timeout :: "'u cli_env \<Rightarrow> nat \<Rightarrow> 'u cli_def \<Rightarrow> 'u cli_def" where
  "cli_set_idle_timeout e seconds s =
     (case cli_time e s of (t, s1) \<Rightarrow> s1\<lparr>cli_idle_timeout := int seconds, cli_last_action := t\<rparr>)"

definition cli_set_idle_timeout_callback :: "'u cli_env \<Rightarrow> nat \<Rightarrow> idle_fn option \<Rightarrow> 'u cli_def \<Rightarrow> 'u cli_def" where
  "cli_set_idle_timeout_callback e seconds callback s =
     (cli_set_idle_timeout e seconds s)\<lparr>cli_idle_callback := callback\<rparr>"

definition cli_telnet_protocol :: "int \<Rightarrow> 'u cli_def \<Rightarrow> 'u cli_def" where
  "cli_telnet_protocol telnet s = s\<lparr>cli_telnet := (telnet \<noteq> 0)\<rparr>"

definition cli_set_context :: "nat option \<Rightarrow> 'u cli_def \<Rightarrow> 'u cli_def" where
  "cli_set_context context s = s\<lparr>cli_user_context := context\<rparr>"

definition cli_get_context :: "'u cli_def \<Rightarrow> nat option" where
  "cli_get_context s = cli_user_context s"

definition cli_set_transient_mode :: "int \<Rightarrow> 'u cli_def \<Rightarrow> 'u cli_def" where
  "cli_set_transient_mode mode s = s\<lparr>cli_transient_mode := mode\<rparr>"

section \<open>The commands of the library\<close>

fun show_help :: "'u cli_env \<Rightarrow> cli_command \<Rightarrow> 'u cli_def \<Rightarrow> 'u cli_def" where
  "show_help e (Cli_Command i d ch) s =
     fold (show_help e) ch
       (if c_callback d \<noteq> None \<and> c_privilege d \<le> cli_privilege s \<and> (c_mode d = cli_mode s \<or> c_mode d = MODE_ANY)
        then cli_error e (''  '' @ pad_right 20 (c_full_command_name d) @ '' ''
               @ (case c_help d of None \<Rightarrow> [] | Some h \<Rightarrow> h)) s
        else s)"

definition cli_show_help :: "'u cli_env \<Rightarrow> cli_command list \<Rightarrow> 'u cli_def \<Rightarrow> int \<times> 'u cli_def" where
  "cli_show_help e cs s = (CLI_OK, fold (show_help e) cs s)"

definition cli_enable :: "'u cli_def \<Rightarrow> int \<times> 'u cli_def" where
  "cli_enable s =
     (CLI_OK,
      if cli_privilege s = PRIVILEGE_PRIVILEGED then s
      else if cli_enable_password s = None \<and> cli_enable_callback s = None then
        snd (cli_set_configmode MODE_EXEC None (snd (cli_set_privilege PRIVILEGE_PRIVILEGED s)))
      else s\<lparr>cli_state := STATE_ENABLE_PASSWORD\<rparr>)"

definition cli_disable :: "'u cli_def \<Rightarrow> int \<times> 'u cli_def" where
  "cli_disable s =
     (CLI_OK, snd (cli_set_configmode MODE_EXEC None (snd (cli_set_privilege PRIVILEGE_UNPRIVILEGED s))))"

definition cli_help :: "'u cli_env \<Rightarrow> 'u cli_def \<Rightarrow> int \<times> 'u cli_def" where
  "cli_help e s =
     (let s1 = cli_error e (CHR 0x0A # ''Commands available:'') s
      in (CLI_OK, snd (cli_show_help e (cli_commands s1) s1)))"

definition cli_history :: "'u cli_env \<Rightarrow> 'u cli_def \<Rightarrow> int \<times> 'u cli_def" where
  "cli_history e s =
     (let s1 = cli_error e (CHR 0x0A # ''Command history:'') s
      in (CLI_OK, fold (\<lambda>(i, h). cli_error e (pad_left 3 (dec_nat i) @ ''. '' @ h))
            (enumerate 0 (cli_hist s1)) s1))"

definition cli_quit :: "'u cli_def \<Rightarrow> int \<times> 'u cli_def" where
  "cli_quit s =
     (CLI_QUIT, snd (cli_set_configmode MODE_EXEC None (snd (cli_set_privilege PRIVILEGE_UNPRIVILEGED s))))"

definition cli_exit :: "'u cli_def \<Rightarrow> int \<times> 'u cli_def" where
  "cli_exit s =
     (if cli_mode s = MODE_EXEC then cli_quit s
      else (CLI_OK,
        (snd (cli_set_configmode (if MODE_CONFIG < cli_mode s then MODE_CONFIG else MODE_EXEC) None s))\<lparr>cli_service := None\<rparr>))"

definition cli_int_idle_timeout :: "'u cli_env \<Rightarrow> 'u cli_def \<Rightarrow> int \<times> 'u cli_def" where
  "cli_int_idle_timeout e s = (CLI_QUIT, cli_print e ''Idle timeout'' s)"

definition cli_int_configure_terminal :: "'u cli_def \<Rightarrow> int \<times> 'u cli_def" where
  "cli_int_configure_terminal s = (CLI_OK, snd (cli_set_configmode MODE_CONFIG None s))"

end
