(* ===== verification/Libcli_Optargs.thy ===== *)
theory Libcli_Optargs
  imports Libcli_Commands
begin

text \<open>
  Options and arguments of a command: their registration (\<open>libcli.c\<close> 2229-2309), the values found
  for them on a command line (2188-2203, 2311-2388), and the filters that are set up from such
  values (1947-2127). An operation that would follow a NULL pointer has no result (\<open>None\<close>).
\<close>

section \<open>Values found on the line\<close>

text \<open>
  A value that was returned is named by its position; \<open>find_after\<close> is such a position. The code
  compares the pointers, and each pair owns its value.
\<close>

fun find_pair :: "nat \<Rightarrow> optarg_pairs \<Rightarrow> string \<Rightarrow> nat option \<Rightarrow> (nat \<times> string) option" where
  "find_pair i [] name find_after = None"
| "find_pair i ((n, v) # ps) name find_after =
     (if n = name then
        (if find_after = Some i then find_pair (Suc i) ps name None else Some (i, v))
      else find_pair (Suc i) ps name find_after)"

definition cli_find_optarg_value :: "string \<Rightarrow> nat option \<Rightarrow> 'u cli_def \<Rightarrow> (nat \<times> string) option" where
  "cli_find_optarg_value name find_after s = find_pair 0 (cli_found_optargs s) name find_after"

fun get_pair :: "nat \<Rightarrow> optarg_pairs \<Rightarrow> string \<Rightarrow> nat option \<Rightarrow> (nat \<times> string) option" where
  "get_pair i [] name find_after = None"
| "get_pair i ((n, v) # ps) name find_after =
     (if \<not> strcaseeq n name then get_pair (Suc i) ps name find_after
      else if find_after = Some i then get_pair (Suc i) ps name None
      else if find_after = None then Some (i, v)
      else get_pair (Suc i) ps name find_after)"

definition cli_get_optarg_value :: "string \<Rightarrow> nat option \<Rightarrow> 'u cli_def \<Rightarrow> (nat \<times> string) option" where
  "cli_get_optarg_value name find_after s = get_pair 0 (cli_found_optargs s) name find_after"

definition cli_get_all_found_optargs :: "'u cli_def \<Rightarrow> optarg_pairs" where
  "cli_get_all_found_optargs s = cli_found_optargs s"

text \<open>The first pair of that name gets the value, or a new pair at the end.\<close>

fun set_pair :: "optarg_pairs \<Rightarrow> string \<Rightarrow> string \<Rightarrow> optarg_pairs" where
  "set_pair [] name value = []"
| "set_pair ((n, v) # ps) name value = (if n = name then (n, value) # ps else (n, v) # set_pair ps name value)"

text \<open>The results of \<open>strdup\<close> for name and value are not checked by the code; they are taken to be there.\<close>

definition cli_set_optarg_value :: "string \<Rightarrow> string \<Rightarrow> bool \<Rightarrow> 'u cli_def \<Rightarrow> int \<times> 'u cli_def" where
  "cli_set_optarg_value name value allow_multiple s =
     (let ps = cli_found_optargs s
      in if \<not> allow_multiple \<and> name \<in> fst ` set ps then (CLI_OK, s\<lparr>cli_found_optargs := set_pair ps name value\<rparr>)
         else (case cli_alloc s of
             (False, s1) \<Rightarrow> (CLI_ERROR, s1)
           | (True, s1) \<Rightarrow> (CLI_OK, s1\<lparr>cli_found_optargs := ps @ [(name, value)]\<rparr>)))"

definition cli_int_unset_optarg_value :: "string \<Rightarrow> 'u cli_def \<Rightarrow> 'u cli_def" where
  "cli_int_unset_optarg_value name s =
     s\<lparr>cli_found_optargs := filter (\<lambda>(n, v). n \<noteq> name) (cli_found_optargs s)\<rparr>"

section \<open>Registration of options\<close>

definition optarg_build_shortest :: "cli_optarg list \<Rightarrow> cli_optarg list" where
  "optarg_build_shortest os =
     map (\<lambda>i. (os ! i)\<lparr>oa_unique_len :=
            foldl max 1 (map (\<lambda>j. common_len (oa_name (os ! i)) (oa_name (os ! j)))
              (filter (\<lambda>j. j \<noteq> i) [0..<length os]))\<rparr>)
       [0..<length os]"

definition set_optargs :: "(cli_optarg list \<Rightarrow> cli_optarg list) \<Rightarrow> cli_command \<Rightarrow> cli_command" where
  "set_optargs f c = Cli_Command (cmd_id c) ((cmd_data c)\<lparr>c_optargs := f (c_optargs (cmd_data c))\<rparr>) (cmd_children c)"

definition command_at :: "nat \<Rightarrow> 'u cli_def \<Rightarrow> cli_command option" where
  "command_at i s = first_some (map (find_command i) (cli_commands s))"

text \<open>
  On every error path the code goes to its clean-up with whatever it has allocated: \<open>cli_free_optarg\<close>
  then follows the pointer, which is still NULL when the name was there already or the structure
  could not be allocated. Only the two \<open>strdup\<close> failures are survived.
\<close>

definition cli_register_optarg ::
  "nat \<Rightarrow> string \<Rightarrow> u32 \<Rightarrow> int \<Rightarrow> int \<Rightarrow> string option \<Rightarrow> completor_fn option \<Rightarrow> validator_fn option \<Rightarrow> string option
     \<Rightarrow> 'u cli_def \<Rightarrow> (bool \<times> 'u cli_def) option" where
  "cli_register_optarg cmd name flags privilege mode help get_completions validator transient_mode s =
     (case command_at cmd s of
        None \<Rightarrow> None
      | Some c \<Rightarrow>
          (if \<exists>oa \<in> set (c_optargs (cmd_data c)). oa_name oa = name \<and> oa_mode oa = mode \<and> oa_privilege oa = privilege then None
           else
             (case cli_alloc s of
                (False, s1) \<Rightarrow> None
              | (True, s1) \<Rightarrow>
                  (case cli_allocs (if help = None then 1 else 2) s1 of
                     (False, s2) \<Rightarrow> Some (False, s2)
                   | (True, s2) \<Rightarrow>
                       (let oa = \<lparr>oa_name = name, oa_flags = flags, oa_help = help, oa_mode = mode,
                              oa_privilege = privilege, oa_unique_len = 0, oa_get_completions = get_completions,
                              oa_validator = validator, oa_transient_mode = transient_mode\<rparr>
                        in Some (True, s2\<lparr>cli_commands := map (at_command cmd
                             (set_optargs (\<lambda>os. optarg_build_shortest (os @ [oa])))) (cli_commands s2)\<rparr>))))))"

definition cli_unregister_optarg :: "nat \<Rightarrow> string \<Rightarrow> 'u cli_def \<Rightarrow> (int \<times> 'u cli_def) option" where
  "cli_unregister_optarg cmd name s =
     (case command_at cmd s of
        None \<Rightarrow> None
      | Some c \<Rightarrow>
          Some (if \<exists>oa \<in> set (c_optargs (cmd_data c)). oa_name oa = name
            then (CLI_OK, s\<lparr>cli_commands := map (at_command cmd
                    (set_optargs (\<lambda>os. optarg_build_shortest (remove_first (\<lambda>oa. oa_name oa = name) os)))) (cli_commands s)\<rparr>)
            else (CLI_ERROR, s)))"

text \<open>\<open>%s\<close> of a NULL help text prints \<open>(null)\<close>.\<close>

definition null_text :: "string option \<Rightarrow> string" where
  "null_text str = (case str of None \<Rightarrow> ''(null)'' | Some t \<Rightarrow> t)"

definition cli_optarg_addhelp :: "string \<Rightarrow> string \<Rightarrow> cli_optarg \<Rightarrow> 'u cli_def \<Rightarrow> (int \<times> cli_optarg) \<times> 'u cli_def" where
  "cli_optarg_addhelp helpname helptext oa s =
     (case cli_alloc s of
        (False, s1) \<Rightarrow> ((CLI_ERROR, oa), s1)
      | (True, s1) \<Rightarrow>
          ((CLI_OK, oa\<lparr>oa_help := Some (null_text (oa_help oa) @ [CHR 0x0B] @ helpname @ [CHR 0x09] @ helptext)\<rparr>), s1))"

section \<open>Setting up the filters\<close>

text \<open>Valid search flags start with a hyphen, then at least one of \<open>v\<close>, \<open>i\<close>, \<open>e\<close> and nothing else.\<close>

definition cli_search_flags_validator :: "string option \<Rightarrow> int option" where
  "cli_search_flags_validator value =
     (case value of None \<Rightarrow> None
      | Some [] \<Rightarrow> Some CLI_ERROR
      | Some (c # cs) \<Rightarrow>
          Some (if c = CHR ''-'' \<and> cs \<noteq> [] \<and> (\<forall>d \<in> set cs. d \<in> set ''vie'') then CLI_OK else CLI_ERROR))"

text \<open>
  The filter is chosen by the first word of the stage as it was typed. \<open>search_pattern\<close> is a
  required argument, so its value is there when a pipeline that was validated is executed.
\<close>

definition current_words :: "'u cli_def \<Rightarrow> string list" where
  "current_words s =
     (case cli_pipeline s of None \<Rightarrow> []
      | Some p \<Rightarrow> (case pl_current_stage p of None \<Rightarrow> []
          | Some i \<Rightarrow> if i < length (pl_stages p) then st_words (pl_stages p ! i) else []))"

definition cli_match_filter_init :: "'u cli_env \<Rightarrow> cli_filter \<Rightarrow> 'u cli_def \<Rightarrow> ((int \<times> cli_filter) \<times> 'u cli_def) option" where
  "cli_match_filter_init e filt s =
     (let f = filt\<lparr>fl_filter := Some Match_filter\<rparr> in
      case cli_alloc s of
        (False, s1) \<Rightarrow> Some ((CLI_ERROR, f), s1)
      | (True, s1) \<Rightarrow> do {
          (_, search_pattern) \<leftarrow> cli_get_optarg_value ''search_pattern'' None s1;
          word \<leftarrow> word_at (current_words s1) 0;
          Some (if word = ''include'' then ((CLI_OK, f\<lparr>fl_data := Match_state False False (Match_string search_pattern)\<rparr>), s1)
            else if word = ''exclude'' then ((CLI_OK, f\<lparr>fl_data := Match_state False True (Match_string search_pattern)\<rparr>), s1)
            else
              (let search_flags = (case cli_get_optarg_value ''search_flags'' None s1 of None \<Rightarrow> [] | Some (_, v) \<Rightarrow> v);
                   invert = CHR ''v'' \<in> set search_flags; icase = CHR ''i'' \<in> set search_flags;
                   ext = (word = ''egrep'');
                   f1 = f\<lparr>fl_data := Match_state (word = ''grep'' \<or> word = ''egrep'') invert (Match_regex ext icase search_pattern)\<rparr>
               in if env_regcomp e ext icase search_pattern then ((CLI_OK, f1), s1)
                  else ((CLI_ERROR, f1),
                    client_write (''Invalid pattern '' @ [CHR 0x22] @ search_pattern @ [CHR 0x22] @ crlf) s1)))
        })"

definition cli_range_filter_init :: "cli_filter \<Rightarrow> 'u cli_def \<Rightarrow> ((int \<times> cli_filter) \<times> 'u cli_def) option" where
  "cli_range_filter_init filt s =
     (case cli_alloc s of
        (False, s1) \<Rightarrow> Some ((CLI_ERROR, filt\<lparr>fl_filter := Some Range_filter\<rparr>), s1)
      | (True, s1) \<Rightarrow> do {
          (_, from) \<leftarrow> cli_get_optarg_value ''range_start'' None s1;
          Some ((CLI_OK, filt\<lparr>fl_filter := Some Range_filter,
              fl_data := Range_state False from (map_option snd (cli_get_optarg_value ''range_end'' None s1))\<rparr>), s1)
        })"

definition cli_count_filter_init :: "int \<Rightarrow> cli_filter \<Rightarrow> 'u cli_def \<Rightarrow> ((int \<times> cli_filter) \<times> 'u cli_def) option" where
  "cli_count_filter_init argc filt s =
     Some (if 1 < argc then ((CLI_ERROR, filt), client_write (''Count filter does not take arguments'' @ crlf) s)
       else (case cli_alloc s of
           (False, s1) \<Rightarrow> ((CLI_ERROR, filt\<lparr>fl_filter := Some Count_filter\<rparr>), s1)
         | (True, s1) \<Rightarrow> ((CLI_OK, filt\<lparr>fl_filter := Some Count_filter, fl_data := Count_state 0\<rparr>), s1)))"

section \<open>Values: what is set is found\<close>

lemma set_pair_names: "map fst (set_pair ps name val) = map fst ps"
  by (induction ps name val rule: set_pair.induct) auto

lemma find_pair_set:
  "name \<in> fst ` set ps \<Longrightarrow> \<exists>j. find_pair i (set_pair ps name val) name None = Some (j, val)"
  by (induction ps name val arbitrary: i rule: set_pair.induct) auto

lemma find_pair_set_other:
  "other \<noteq> name \<Longrightarrow> find_pair i (set_pair ps name val) other a = find_pair i ps other a"
  by (induction ps name val arbitrary: i a rule: set_pair.induct) auto

lemma find_pair_append:
  "find_pair i (ps @ qs) name None =
     (case find_pair i ps name None of Some r \<Rightarrow> Some r | None \<Rightarrow> find_pair (i + length ps) qs name None)"
  by (induction ps arbitrary: i) (auto simp: add.commute add.left_commute split: option.split)

lemma find_pair_none: "find_pair i ps name None = None \<longleftrightarrow> name \<notin> fst ` set ps"
proof (induction ps arbitrary: i)
  case (Cons p ps)
  then show ?case by (cases p) auto
qed simp

lemma find_pair_unset:
  "find_pair i (filter (\<lambda>(n, v). n \<noteq> name) ps) name a = None"
  by (induction ps arbitrary: i) auto

text \<open>All values of a name, one after the other.\<close>

fun get_all :: "nat \<Rightarrow> nat option \<Rightarrow> string \<Rightarrow> 'u cli_def \<Rightarrow> string list" where
  "get_all 0 after name s = []"
| "get_all (Suc n) after name s =
     (case cli_get_optarg_value name after s of None \<Rightarrow> [] | Some (i, v) \<Rightarrow> v # get_all n (Some i) name s)"

lemma get_pair_ge: "get_pair i ps name a = Some (j, v) \<Longrightarrow> i \<le> j \<and> j < i + length ps"
  by (induction ps arbitrary: i a) (fastforce split: if_splits)+

lemma get_pair_after:
  assumes "i \<le> k" "k < i + length ps" "strcaseeq (fst (ps ! (k - i))) name"
  shows "get_pair i ps name (Some k) = get_pair (Suc k) (drop (Suc k - i) ps) name None"
  using assms
proof (induction ps arbitrary: i)
  case Nil
  then show ?case by simp
next
  case (Cons p ps)
  obtain n v where p: "p = (n, v)" by (cases p)
  show ?case
  proof (cases "i = k")
    case True
    then show ?thesis using Cons.prems p by simp
  next
    case False
    with Cons.prems have "strcaseeq (fst (ps ! (k - Suc i))) name" "Suc i \<le> k" "k < Suc i + length ps"
      by (auto simp: nth_Cons' Suc_diff_Suc)
    then have e: "get_pair (Suc i) ps name (Some k) = get_pair (Suc k) (drop (Suc k - Suc i) ps) name None"
      by (intro Cons.IH) auto
    have d: "drop (Suc k - i) (p # ps) = drop (Suc k - Suc i) ps" using \<open>Suc i \<le> k\<close> by (simp add: Suc_diff_le)
    show ?thesis unfolding d using False e p by simp
  qed
qed

lemma get_pair_none_filter:
  "get_pair i ps name None =
     (case filter (\<lambda>j. strcaseeq (fst (ps ! j)) name) [0..<length ps] of [] \<Rightarrow> None | j # _ \<Rightarrow> Some (i + j, snd (ps ! j)))"
proof (induction ps arbitrary: i)
  case Nil
  then show ?case by simp
next
  case (Cons p ps)
  obtain n v where p: "p = (n, v)" by (cases p)
  have e: "[0..<length (p # ps)] = 0 # map Suc [0..<length ps]" by (simp add: upt_conv_Cons map_Suc_upt del: upt_Suc)
  show ?case unfolding e using Cons [of "Suc i"] p
    by (auto simp: filter_map comp_def split: list.splits)
qed

end
