(* ===== verification/Libcli_Help.thy ===== *)
theory Libcli_Help
  imports Libcli_Optargs
begin

text \<open>
  Help and completion entries: \<open>cli_add_comphelp_entry\<close>, the wrapping of help texts
  (\<open>cli_int_wrap_help_line\<close>) and \<open>cli_get_optarg_comphelp\<close> (\<open>libcli.c\<close> 2846-2870 and 3150-3341).
  These functions are taken to have memory.
\<close>

section \<open>Entries\<close>

definition comphelp_empty :: cli_comphelp where
  "comphelp_empty = \<lparr>ch_comma_separated = False, ch_entries = [], ch_num_entries = 0\<rparr>"

definition cli_add_comphelp_entry :: "string \<Rightarrow> cli_comphelp \<Rightarrow> cli_comphelp" where
  "cli_add_comphelp_entry entry ch =
     ch\<lparr>ch_entries := ch_entries ch @ [entry], ch_num_entries := ch_num_entries ch + 1\<rparr>"

section \<open>Wrapping\<close>

definition MAXWIDTHCOL1 :: nat where "MAXWIDTHCOL1 = 22"

text \<open>The last white space at or before \<open>avail\<close>; without one the line is cut at \<open>avail\<close>.\<close>

definition wrap_at :: "nat \<Rightarrow> string \<Rightarrow> nat" where
  "wrap_at avail help =
     (if length help \<le> avail then length help
      else (case filter (\<lambda>t. is_space (help ! t)) (rev [0..<Suc avail]) of [] \<Rightarrow> avail | t # _ \<Rightarrow> t))"

definition is_crlf :: "char \<Rightarrow> bool" where
  "is_crlf c \<longleftrightarrow> c = CHR 0x0A \<or> c = CHR 0x0D"

text \<open>A line break in the text ends the line earlier.\<close>

definition toprint :: "nat \<Rightarrow> string \<Rightarrow> nat" where
  "toprint avail help = min (wrap_at avail help) (length (takeWhile (\<lambda>c. \<not> is_crlf c) help))"

lemma wrap_at_le: "wrap_at avail help \<le> length help"
proof (cases "filter (\<lambda>t. is_space (help ! t)) (rev [0..<Suc avail])")
  case (Cons t ts)
  then have "t \<in> set (rev [0..<Suc avail])" by (metis filter_is_subset list.set_intros(1) subsetD)
  with Cons show ?thesis by (auto simp: wrap_at_def)
qed (simp add: wrap_at_def)

lemma wrap_at_avail: "wrap_at avail help \<le> avail"
proof (cases "filter (\<lambda>t. is_space (help ! t)) (rev [0..<Suc avail])")
  case (Cons t ts)
  then have "t \<in> set (rev [0..<Suc avail])" by (metis filter_is_subset list.set_intros(1) subsetD)
  with Cons show ?thesis by (auto simp: wrap_at_def)
qed (simp add: wrap_at_def)

lemma wrap_at_space:
  assumes "wrap_at avail help = 0" "0 < avail" "help \<noteq> []"
  shows "is_space (help ! 0)"
proof (cases "filter (\<lambda>t. is_space (help ! t)) (rev [0..<Suc avail])")
  case Nil
  then show ?thesis using assms by (auto simp: wrap_at_def split: if_splits)
next
  case (Cons t ts)
  then have "t \<in> set (filter (\<lambda>t. is_space (help ! t)) (rev [0..<Suc avail]))" by (metis list.set_intros(1))
  then have "is_space (help ! t)" by (simp only: set_filter mem_Collect_eq)
  with Cons assms show ?thesis by (auto simp: wrap_at_def split: if_splits)
qed

lemma is_crlf_space: "is_crlf c \<Longrightarrow> is_space c"
  by (auto simp: is_crlf_def is_space_def)

text \<open>Each round passes at least one character, so the loop ends.\<close>

lemma wrap_progress:
  assumes "0 < avail" and "dropWhile is_space (drop (toprint avail help) help) \<noteq> []"
  shows "length (dropWhile is_space (drop (toprint avail help) help)) < length help"
proof (cases "toprint avail help = 0")
  case True
  obtain c cs where h: "help = c # cs" using assms(2) by (cases "help") auto
  have "is_space c"
  proof (cases "wrap_at avail help = 0")
    case True
    then show ?thesis using wrap_at_space [OF True assms(1)] h by simp
  next
    case False
    with \<open>toprint avail help = 0\<close> have "takeWhile (\<lambda>c. \<not> is_crlf c) help = []" by (auto simp: toprint_def min_def split: if_splits)
    then show ?thesis using h by (auto intro: is_crlf_space split: if_splits)
  qed
  then have "dropWhile is_space help = dropWhile is_space cs" using h by simp
  moreover have "length (dropWhile is_space cs) \<le> length cs" by (rule length_dropWhile_le)
  ultimately show ?thesis using True h by simp
next
  case False
  have "length (dropWhile is_space (drop (toprint avail help) help)) \<le> length help - toprint avail help"
    using length_dropWhile_le [of is_space "drop (toprint avail help) help"] by simp
  moreover have "help \<noteq> []" using assms(2) by auto
  ultimately show ?thesis using False by (cases "help") auto
qed

definition wrap_avail :: nat where
  "wrap_avail = 80 - MAXWIDTHCOL1 - 1"

lemma wrap_avail_pos: "0 < wrap_avail"
  by (simp add: wrap_avail_def MAXWIDTHCOL1_def)

text \<open>
  A name that does not fit the first column gets a line of its own. The rest of the name column is
  empty from the second line on.
\<close>

function wrap_lines :: "string \<Rightarrow> string \<Rightarrow> string list" where
  "wrap_lines name help =
     (let (own, name') = (if MAXWIDTHCOL1 < length name then ([name], []) else ([], name));
          n = toprint wrap_avail help;
          rest = dropWhile is_space (drop n help)
      in own @ (pad_right MAXWIDTHCOL1 name' @ '' '' @ take n help)
           # (if rest = [] then [] else wrap_lines [] rest))"
  by auto
termination
  by (relation "measure (\<lambda>(name, help). length help)")
    (auto intro: wrap_progress [OF wrap_avail_pos])

declare wrap_lines.simps [simp del]

definition cli_int_wrap_help_line :: "string \<Rightarrow> string option \<Rightarrow> cli_comphelp \<Rightarrow> cli_comphelp" where
  "cli_int_wrap_help_line name help ch =
     fold cli_add_comphelp_entry (wrap_lines name (case help of None \<Rightarrow> [] | Some h \<Rightarrow> h)) ch"

section \<open>Help and completions of an option\<close>

text \<open>\<open>strtok\<close> with one separator: the parts between separators, without the empty ones.\<close>

fun split_at :: "char \<Rightarrow> string \<Rightarrow> string \<Rightarrow> string list" where
  "split_at sep acc [] = (if acc = [] then [] else [acc])"
| "split_at sep acc (c # cs) =
     (if c = sep then (if acc = [] then split_at sep [] cs else acc # split_at sep [] cs)
      else split_at sep (acc @ [c]) cs)"

definition strtok :: "char \<Rightarrow> string \<Rightarrow> string list" where
  "strtok sep str = split_at sep [] str"

text \<open>
  The lines of the help after the first: name and text, up to the first that lacks one, and of
  these the ones whose name starts with the word under the cursor.
\<close>

fun help_lines :: "string option \<Rightarrow> string list \<Rightarrow> (string \<times> string) list" where
  "help_lines next_word [] = []"
| "help_lines next_word (l # ls) =
     (case strtok CHR 0x09 l of
        name # text # _ \<Rightarrow>
          (case next_word of
             Some w \<Rightarrow> if strneq (length w) w name then (name, text) # help_lines next_word ls else help_lines next_word ls
           | None \<Rightarrow> (name, text) # help_lines next_word ls)
      | _ \<Rightarrow> [])"

definition CTRL :: "char \<Rightarrow> char" where
  "CTRL c = char_of ((of_char c :: nat) - 64)"

text \<open>The names of the settings made so far, in buildmode.\<close>

definition buildmode_names :: "'u cli_def \<Rightarrow> string list" where
  "buildmode_names s =
     map (\<lambda>c. c_command (cmd_data c))
       (filter (\<lambda>c. c_command_type (cmd_data c) = CLI_BUILDMODE_COMMAND) (cli_commands s))"

definition cli_int_buildmode_unset_completor :: "string option \<Rightarrow> cli_comphelp \<Rightarrow> 'u cli_def \<Rightarrow> cli_comphelp" where
  "cli_int_buildmode_unset_completor word ch s =
     fold cli_add_comphelp_entry
       (concat (map (\<lambda>(n, v). concat (map (\<lambda>c. if c = n \<and> (case word of None \<Rightarrow> True | Some w \<Rightarrow> strneq (length w) w n)
                                               then [n] else []) (buildmode_names s)))
         (cli_found_optargs s))) ch"

definition call_completor ::
  "'u cli_env \<Rightarrow> completor_fn \<Rightarrow> string \<Rightarrow> string option \<Rightarrow> cli_comphelp \<Rightarrow> 'u cli_def \<Rightarrow> cli_comphelp \<times> 'u cli_def" where
  "call_completor e f name word ch s =
     (case f of Unset_completor \<Rightarrow> (cli_int_buildmode_unset_completor word ch s, s)
      | App_completor g \<Rightarrow> env_completor e g name word ch s)"

text \<open>
  \<open>starts anchor name\<close>: the word under the cursor is there and begins the name. \<open>on_value\<close>: the
  word is the value of an optional argument, not its name.
\<close>

definition starts :: "string option \<Rightarrow> string \<Rightarrow> bool" where
  "starts anchor name \<longleftrightarrow> (case anchor of None \<Rightarrow> False | Some w \<Rightarrow> strneq (length w) w name)"

text \<open>The delimiters, whether the standard text for a name is shown, and the completor that applies.\<close>

definition comphelp_style :: "cli_optarg \<Rightarrow> string option \<Rightarrow> bool \<Rightarrow> string \<times> string \<times> bool \<times> completor_fn option" where
  "comphelp_style oa anchor on_value =
     (let completor = oa_get_completions oa in
      if has_flag (oa_flags oa) CLI_CMD_OPTIONAL_FLAG then
        (if starts anchor (oa_name oa) then ([], [], False, completor) else (''['', '']'', False, None))
      else if has_flag (oa_flags oa) CLI_CMD_HYPHENATED_OPTION then (''['', '']'', False, completor)
      else if has_flag (oa_flags oa) CLI_CMD_ARGUMENT then (''<'', ''>'', False, completor)
      else if has_flag (oa_flags oa) CLI_CMD_OPTIONAL_ARGUMENT then
        (if on_value then (if completor = None then (''<'', ''>'', False, None) else ([], [], False, completor))
         else if starts anchor (oa_name oa) then ([], [], True, None)
         else (''['', '']'', True, None))
      else ([], [], False, completor))"

definition cli_get_optarg_comphelp ::
  "'u cli_env \<Rightarrow> cli_optarg \<Rightarrow> cli_comphelp \<Rightarrow> char \<Rightarrow> string option \<Rightarrow> string option \<Rightarrow> bool \<Rightarrow> 'u cli_def
     \<Rightarrow> cli_comphelp \<times> 'u cli_def" where
  "cli_get_optarg_comphelp e oa ch lastchar anchor next_word on_value s =
     (if cli_find_optarg_value (oa_name oa) None s \<noteq> None \<and> \<not> has_flag (oa_flags oa) CLI_CMD_OPTION_MULTIPLE then (ch, s)
      else (case comphelp_style oa anchor on_value of (delim_start, delim_end, help_insert, completor) \<Rightarrow>
        if lastchar = CHR ''?'' then
          (let star = (if has_flag (oa_flags oa) CLI_CMD_ALLOW_BUILDMODE then ''* '' else []);
               working = star @ (if help_insert then ''type '' @ [CHR 0x27] @ oa_name oa @ [CHR 0x27] @ '' to select '' @ oa_name oa
                                 else null_text (oa_help oa));
               ls = strtok CHR 0x0B working;
               first = (case ls of [] \<Rightarrow> None | l # _ \<Rightarrow> Some l)
           in (fold (\<lambda>(n, t). cli_int_wrap_help_line (''    '' @ n) (Some t)) (help_lines next_word (drop 1 ls))
                 (cli_int_wrap_help_line (''  '' @ delim_start @ oa_name oa @ delim_end) first ch), s))
        else if lastchar = CTRL CHR ''I'' then
          (case completor of
             Some f \<Rightarrow> call_completor e f (oa_name oa) next_word ch s
           | None \<Rightarrow>
               (if anchor = None \<or> starts anchor (oa_name oa)
                then (cli_add_comphelp_entry (delim_start @ oa_name oa @ delim_end) ch, s) else (ch, s)))
        else (ch, s)))"

section \<open>What wrapping keeps\<close>

definition ink :: "string \<Rightarrow> string" where
  "ink str = filter (\<lambda>c. \<not> is_space c) str"

lemma ink_append [simp]: "ink (a @ b) = ink a @ ink b"
  by (simp add: ink_def)

lemma ink_Nil [simp]: "ink [] = []"
  by (simp add: ink_def)

lemma ink_dropWhile [simp]: "ink (dropWhile is_space str) = ink str"
  by (induction str) (auto simp: ink_def)

lemma ink_pad_right [simp]: "ink (pad_right n str) = ink str"
  by (simp add: pad_right_def ink_def is_space_def)

lemma ink_space [simp]: "ink ('' '' @ str) = ink str" "ink (CHR '' '' # str) = ink str"
  by (simp_all add: ink_def is_space_def)

definition wrap_rest :: "string \<Rightarrow> string" where
  "wrap_rest str = dropWhile is_space (drop (toprint wrap_avail str) str)"

lemma wrap_lines_eq:
  "wrap_lines name str =
     (if MAXWIDTHCOL1 < length name then [name] else [])
       @ (pad_right MAXWIDTHCOL1 (if MAXWIDTHCOL1 < length name then [] else name) @ '' '' @ take (toprint wrap_avail str) str)
         # (if wrap_rest str = [] then [] else wrap_lines [] (wrap_rest str))"
  by (subst wrap_lines.simps) (simp add: wrap_rest_def Let_def)

lemma wrap_induct:
  assumes "\<And>name str. (wrap_rest str \<noteq> [] \<Longrightarrow> P [] (wrap_rest str)) \<Longrightarrow> P name str"
  shows "P name str"
proof (induction "length str" arbitrary: name str rule: less_induct)
  case less
  show ?case
    by (rule assms, rule less) (use wrap_progress [OF wrap_avail_pos] in \<open>simp add: wrap_rest_def\<close>)
qed

lemma wrap_rest_ink: "ink (take (toprint wrap_avail str) str) @ ink (wrap_rest str) = ink str"
  unfolding wrap_rest_def ink_dropWhile by (metis append_take_drop_id ink_append)

lemma wrap_lines_ink: "ink (concat (wrap_lines name str)) = ink name @ ink str"
proof (induction name str rule: wrap_induct)
  case (1 name str)
  then show ?case using wrap_rest_ink [of str]
    by (subst wrap_lines_eq) (auto simp: append_assoc)
qed

lemma toprint_width: "toprint wrap_avail str \<le> 57"
  using wrap_at_avail [of wrap_avail str] by (simp add: toprint_def wrap_avail_def MAXWIDTHCOL1_def)

lemma wrap_lines_width: "l \<in> set (wrap_lines name str) \<Longrightarrow> length l \<le> 80 \<or> l = name"
proof (induction name str arbitrary: l rule: wrap_induct)
  case (1 name str)
  from "1.prems" have "l = name \<or> length l \<le> 80 \<or> (wrap_rest str \<noteq> [] \<and> l \<in> set (wrap_lines [] (wrap_rest str)))"
    using toprint_width [of str]
    by (subst (asm) wrap_lines_eq) (auto simp: MAXWIDTHCOL1_def split: if_splits)
  then show ?case using "1.IH" [of l] by (cases l) auto
qed

end
