(* ===== verification/Libcli_Buildmode.thy ===== *)
theory Libcli_Buildmode
  imports Libcli_Help
begin

text \<open>
  Build mode (\<open>libcli.c\<close> 2399-2840): a command whose arguments are given one by one, as commands of
  their own, and that is run when the user says \<open>execute\<close>. An operation that would follow a NULL
  pointer has no result (\<open>None\<close>).
\<close>

section \<open>Leaving\<close>

definition cli_int_free_buildmode :: "'u cli_def \<Rightarrow> 'u cli_def" where
  "cli_int_free_buildmode s =
     (case cli_buildmode s of None \<Rightarrow> s
      | Some bm \<Rightarrow> (cli_unregister_tree None CLI_BUILDMODE_COMMAND s)\<lparr>cli_mode := bm_mode bm, cli_buildmode := None\<rparr>)"

section \<open>The help of the command unset\<close>

text \<open>
  The first build mode command named \<open>unset\<close>, and in it the first option named \<open>setting\<close>: its help
  is cut at the first vertical tab and gets a line for each setting made.
\<close>

definition setting_lines :: "'u cli_def \<Rightarrow> string list" where
  "setting_lines s =
     concat (map (\<lambda>(n, v). map (\<lambda>c. n) (filter (\<lambda>c. c = n) (buildmode_names s))) (cli_found_optargs s))"

fun add_setting_help :: "string list \<Rightarrow> cli_optarg \<Rightarrow> 'u cli_def \<Rightarrow> cli_optarg \<times> 'u cli_def" where
  "add_setting_help [] oa s = (oa, s)"
| "add_setting_help (n # ns) oa s =
     (case cli_alloc s of
        (False, s1) \<Rightarrow> add_setting_help ns oa s1
      | (True, s1) \<Rightarrow>
          (case cli_optarg_addhelp n (''unset '' @ n) oa s1 of ((rc, oa1), s2) \<Rightarrow> add_setting_help ns oa1 s2))"

definition unset_help :: "'u cli_def \<Rightarrow> cli_optarg list \<Rightarrow> cli_optarg list \<times> 'u cli_def" where
  "unset_help s os =
     (case dropWhile (\<lambda>oa. oa_name oa \<noteq> ''setting'') os of
        [] \<Rightarrow> (os, s)
      | oa # rest \<Rightarrow>
          (case add_setting_help (setting_lines s)
                  (oa\<lparr>oa_help := map_option (takeWhile (\<lambda>c. c \<noteq> CHR 0x0B)) (oa_help oa)\<rparr>) s of
             (oa1, s1) \<Rightarrow> (takeWhile (\<lambda>oa. oa_name oa \<noteq> ''setting'') os @ oa1 # rest, s1)))"

definition cli_int_buildmode_reset_unset_help :: "'u cli_def \<Rightarrow> 'u cli_def" where
  "cli_int_buildmode_reset_unset_help s =
     (case filter (\<lambda>c. c_command_type (cmd_data c) = CLI_BUILDMODE_COMMAND \<and> c_command (cmd_data c) = ''unset'')
             (cli_commands s) of
        [] \<Rightarrow> s
      | c # _ \<Rightarrow>
          (case unset_help s (c_optargs (cmd_data c)) of (os, s1) \<Rightarrow>
             s1\<lparr>cli_commands := map (at_command (cmd_id c) (set_optargs (\<lambda>_. os))) (cli_commands s1)\<rparr>))"

section \<open>Entering\<close>

text \<open>An option of the command that cannot be set in build mode, by its flags or its mode.\<close>

definition not_offered :: "cli_optarg \<Rightarrow> 'u cli_def \<Rightarrow> bool" where
  "not_offered oa s \<longleftrightarrow>
     has_flag (oa_flags oa) (CLI_CMD_ALLOW_BUILDMODE OR CLI_CMD_TRANSIENT_MODE OR CLI_CMD_SPOT_CHECK)
     \<or> (oa_mode oa \<noteq> cli_mode s \<and> oa_mode oa \<noteq> cli_transient_mode s)"

text \<open>The command that sets an option: one with an argument, or a flag.\<close>

definition bm_command_for :: "cli_optarg \<Rightarrow> 'u cli_def \<Rightarrow> (int \<times> 'u cli_def) option" where
  "bm_command_for oa s =
     (if has_flag (oa_flags oa) (CLI_CMD_OPTIONAL_ARGUMENT OR CLI_CMD_ARGUMENT) then
        (case cli_int_register_buildmode_command (oa_name oa) (Some Buildmode_cmd) (oa_flags oa)
                (oa_privilege oa) (cli_mode s) (oa_help oa) s of
           (None, s1) \<Rightarrow> Some (CLI_BUILDMODE_ERROR, s1)
         | (Some c, s1) \<Rightarrow> do {
             (_, s2) \<leftarrow> cli_register_optarg c (oa_name oa)
                (CLI_CMD_ARGUMENT OR (oa_flags oa AND CLI_CMD_OPTION_MULTIPLE)) (oa_privilege oa) (cli_mode s1)
                (oa_help oa) (oa_get_completions oa) (oa_validator oa) None s1;
             Some (CLI_BUILDMODE_START, s2)
           })
      else
        (case cli_int_register_buildmode_command (oa_name oa)
                (Some (if has_flag (oa_flags oa) CLI_CMD_OPTION_MULTIPLE then Buildmode_flag_multiple else Buildmode_flag))
                (oa_flags oa) (oa_privilege oa) (cli_mode s) (oa_help oa) s of
           (None, s1) \<Rightarrow> Some (CLI_BUILDMODE_ERROR, s1)
         | (Some c, s1) \<Rightarrow> Some (CLI_BUILDMODE_START, s1)))"

fun bm_commands :: "'u cli_env \<Rightarrow> cli_optarg list \<Rightarrow> 'u cli_def \<Rightarrow> (int \<times> 'u cli_def) option" where
  "bm_commands e [] s = Some (CLI_BUILDMODE_START, s)"
| "bm_commands e (oa # os) s =
     (if oa_name oa \<in> {''cancel'', ''execute'', ''show'', ''unset''} then
        Some (CLI_BUILDMODE_ERROR, cli_error e (''Default buildmode command conflicts with optarg named '' @ oa_name oa) s)
      else if not_offered oa s then bm_commands e os s
      else do {
        (rc, s1) \<leftarrow> bm_command_for oa s;
        if rc = CLI_BUILDMODE_START then bm_commands e os s1 else Some (rc, s1)
      })"

text \<open>The four commands that are always there.\<close>

fun bm_standard :: "(string \<times> command_fn \<times> string) list \<Rightarrow> 'u cli_def \<Rightarrow> (int \<times> nat) \<times> 'u cli_def" where
  "bm_standard [] s = ((CLI_BUILDMODE_START, 0), s)"
| "bm_standard ((name, f, descr) # cs) s =
     (case cli_int_register_buildmode_command name (Some f) 0 PRIVILEGE_UNPRIVILEGED (cli_mode s) (Some descr) s of
        (None, s1) \<Rightarrow> ((CLI_BUILDMODE_ERROR, 0), s1)
      | (Some c, s1) \<Rightarrow> if cs = [] then ((CLI_BUILDMODE_START, c), s1) else bm_standard cs s1)"

definition bm_finish :: "'u cli_def \<Rightarrow> (int \<times> 'u cli_def) option" where
  "bm_finish s =
     (case bm_standard
        [(''cancel'', Buildmode_cancel, ''Cancel command''), (''execute'', Buildmode_execute, ''Execute command''),
         (''show'', Buildmode_show, ''Show current settings''), (''unset'', Buildmode_unset, ''Unset a setting'')] s of
        ((rc, c), s1) \<Rightarrow>
          if rc \<noteq> CLI_BUILDMODE_START then Some (rc, s1)
          else do {
            (ok, s2) \<leftarrow> cli_register_optarg c ''setting'' (CLI_CMD_ARGUMENT OR CLI_CMD_DO_NOT_RECORD)
               PRIVILEGE_UNPRIVILEGED (cli_mode s1) (Some ''setting to clear'') (Some Unset_completor)
               (Some Unset_validator) None s1;
            Some (if ok then CLI_BUILDMODE_START else CLI_BUILDMODE_ERROR, s2)
          })"

definition cli_int_enter_buildmode ::
  "'u cli_env \<Rightarrow> cli_command \<Rightarrow> string option \<Rightarrow> 'u cli_def \<Rightarrow> (int \<times> 'u cli_def) option" where
  "cli_int_enter_buildmode e cmd mode_text s = do {
     (rc, s1) \<leftarrow>
       (case cli_alloc s of
          (False, s1) \<Rightarrow> Some (CLI_BUILDMODE_ERROR,
             cli_error e (''Unable to build buildmode mode for command '' @ c_command (cmd_data cmd)) s1)
        | (True, s1) \<Rightarrow>
            (let s2 = cli_int_free_buildmode s1;
                 (text, s3) = (case mode_text of None \<Rightarrow> (None, s2) | Some t \<Rightarrow> cli_strdup t s2);
                 bm = \<lparr>bm_command = cmd, bm_found_optargs = [], bm_cname = [], bm_mode = cli_mode s3,
                       bm_transient_mode = cli_transient_mode s3, bm_mode_text = text\<rparr>
             in do {
                  (rc, s4) \<leftarrow> bm_commands e
                     (dropWhile (\<lambda>oa. \<not> has_flag (oa_flags oa) CLI_CMD_ALLOW_BUILDMODE) (c_optargs (cmd_data cmd)))
                     (s3\<lparr>cli_buildmode := Some bm\<rparr>);
                  if rc \<noteq> CLI_BUILDMODE_START then Some (rc, s4)
                  else bm_finish (s4\<lparr>cli_buildmode :=
                    map_option (\<lambda>b. b\<lparr>bm_cname := c_full_command_name (cmd_data cmd)\<rparr>) (cli_buildmode s4)\<rparr>)
                }));
     let s5 = cli_int_buildmode_reset_unset_help s1;
     Some (rc, if rc \<noteq> CLI_BUILDMODE_START then cli_int_free_buildmode s5 else s5)
   }"

section \<open>The commands of build mode\<close>

definition extra_arguments :: "'u cli_env \<Rightarrow> bool \<Rightarrow> int \<Rightarrow> 'u cli_def \<Rightarrow> int \<times> 'u cli_def" where
  "extra_arguments e extra rc s =
     (if extra then (CLI_ERROR, cli_error e ''Extra arguments on command line, command ignored.'' s) else (rc, s))"

definition cli_int_buildmode_cmd_cback :: "'u cli_env \<Rightarrow> int \<Rightarrow> 'u cli_def \<Rightarrow> int \<times> 'u cli_def" where
  "cli_int_buildmode_cmd_cback e argc s =
     (case extra_arguments e (argc \<noteq> 0) CLI_BUILDMODE_EXTEND s of
        (rc, s1) \<Rightarrow> (rc, cli_int_buildmode_reset_unset_help s1))"

definition buildmode_flag :: "'u cli_env \<Rightarrow> bool \<Rightarrow> string \<Rightarrow> int \<Rightarrow> 'u cli_def \<Rightarrow> int \<times> 'u cli_def" where
  "buildmode_flag e multiple command argc s =
     (case extra_arguments e (argc \<noteq> 0) CLI_BUILDMODE_EXTEND s of (rc, s1) \<Rightarrow>
        (case cli_set_optarg_value command command multiple s1 of (r, s2) \<Rightarrow>
           (let (rc', s3) = (if r \<noteq> 0 then (CLI_ERROR, cli_error e (''Problem setting value for optional flag '' @ command) s2)
                             else (rc, s2))
            in (rc', cli_int_buildmode_reset_unset_help s3))))"

definition cli_int_buildmode_flag_cback :: "'u cli_env \<Rightarrow> string \<Rightarrow> int \<Rightarrow> 'u cli_def \<Rightarrow> int \<times> 'u cli_def" where
  "cli_int_buildmode_flag_cback e command argc s = buildmode_flag e False command argc s"

definition cli_int_buildmode_flag_multiple_cback :: "'u cli_env \<Rightarrow> string \<Rightarrow> int \<Rightarrow> 'u cli_def \<Rightarrow> int \<times> 'u cli_def" where
  "cli_int_buildmode_flag_multiple_cback e command argc s = buildmode_flag e True command argc s"

definition cli_int_buildmode_cancel_cback :: "'u cli_env \<Rightarrow> int \<Rightarrow> 'u cli_def \<Rightarrow> int \<times> 'u cli_def" where
  "cli_int_buildmode_cancel_cback e argc s = extra_arguments e (0 < argc) CLI_BUILDMODE_CANCEL s"

definition cli_int_buildmode_execute_cback :: "'u cli_env \<Rightarrow> int \<Rightarrow> 'u cli_def \<Rightarrow> int \<times> 'u cli_def" where
  "cli_int_buildmode_execute_cback e argc s = extra_arguments e (0 < argc) CLI_BUILDMODE_EXIT s"

definition cli_int_buildmode_show_cback :: "'u cli_env \<Rightarrow> 'u cli_def \<Rightarrow> int \<times> 'u cli_def" where
  "cli_int_buildmode_show_cback e s =
     (CLI_OK, fold (\<lambda>(n, v) t. if n \<in> set (buildmode_names t) then cli_print e (''  '' @ pad_right 20 n @ '' = '' @ v) t else t)
        (cli_found_optargs s) s)"

definition cli_int_buildmode_unset_cback :: "'u cli_env \<Rightarrow> string list \<Rightarrow> 'u cli_def \<Rightarrow> (int \<times> 'u cli_def) option" where
  "cli_int_buildmode_unset_cback e argv s =
     (case argv of
        (c # cs) # _ \<Rightarrow> do {
          bm \<leftarrow> cli_buildmode s;
          let settable = (\<lambda>d. c_command_type d = CLI_BUILDMODE_COMMAND \<and> c_privilege d \<le> cli_privilege s
                \<and> (c_mode d = bm_mode bm \<or> c_mode d = bm_transient_mode bm \<or> c_mode d = MODE_ANY));
          Some (CLI_OK,
            if \<exists>k \<in> set (cli_commands s). settable (cmd_data k) \<and> c_command (cmd_data k) = c # cs
            then cli_int_buildmode_reset_unset_help (cli_int_unset_optarg_value (c # cs) s) else s)
        }
      | _ \<Rightarrow> Some (CLI_ERROR,
          cli_error e (''Incomplete command, missing required argument '' @ [CHR 0x27] @ ''setting'' @ [CHR 0x27]
            @ '' for command  '' @ [CHR 0x27] @ ''unset'' @ [CHR 0x27]) s))"

definition cli_int_buildmode_unset_validator ::
  "'u cli_env \<Rightarrow> string option \<Rightarrow> string option \<Rightarrow> 'u cli_def \<Rightarrow> int \<times> 'u cli_def" where
  "cli_int_buildmode_unset_validator e name val s =
     (case name of
        Some (_ # _) \<Rightarrow>
          (if \<exists>(n, v) \<in> set (cli_found_optargs s). n \<in> set (buildmode_names s) \<and> val = Some n then CLI_OK else CLI_ERROR, s)
      | _ \<Rightarrow> (CLI_ERROR, cli_error e ''No setting given to unset'' s))"

section \<open>The command line that was built\<close>

text \<open>
  The quote put around a word: a double quote when the word is empty or has a space, and otherwise
  the opposite of the first quote in it. An escaped character is passed over.
\<close>

fun quote_for :: "string \<Rightarrow> char option \<Rightarrow> char option" where
  "quote_for [] q = q"
| "quote_for (c # cs) q =
     (if c = CHR 0x5C \<and> cs \<noteq> [] then quote_for (tl cs) q
      else if c = CHR '' '' \<and> q = None then quote_for cs (Some CHR 0x22)
      else if c = CHR 0x22 then Some CHR 0x27
      else if c = CHR 0x27 then Some CHR 0x22
      else quote_for cs q)"

definition cli_int_buildmode_extend_cmdline :: "string \<Rightarrow> string \<Rightarrow> string" where
  "cli_int_buildmode_extend_cmdline cmdline word =
     (let q = (case quote_for word (if word = [] then Some CHR 0x22 else None) of None \<Rightarrow> [] | Some c \<Rightarrow> [c])
      in cmdline @ '' '' @ q @ word @ q)"

text \<open>\<open>realloc\<close> failing loses the line: the code reports the error, but after the name of an
  option it goes on to append the value to the NULL pointer.\<close>

definition extend_line :: "'u cli_env \<Rightarrow> string \<Rightarrow> string \<Rightarrow> 'u cli_def \<Rightarrow> (int \<times> string) \<times> 'u cli_def" where
  "extend_line e cmdline word s =
     (case cli_alloc s of
        (True, s1) \<Rightarrow> ((CLI_OK, cli_int_buildmode_extend_cmdline cmdline word), s1)
      | (False, s1) \<Rightarrow> ((CLI_ERROR, []), cli_error e ''Unable to allocate memory to process buildmode commandline'' s1))"

text \<open>
  The rounds of the inner loop for one option: one value after the other when it may be given several
  times. \<open>n\<close> bounds the rounds; a value is found at a later position each time, so one more than
  the number of pairs is enough.
\<close>

fun bm_option :: "'u cli_env \<Rightarrow> nat \<Rightarrow> cli_optarg \<Rightarrow> nat option \<Rightarrow> string \<Rightarrow> 'u cli_def \<Rightarrow> ((int \<times> string) \<times> 'u cli_def) option" where
  "bm_option e 0 oa after cmdline s = None"
| "bm_option e (Suc n) oa after cmdline s =
     (case cli_get_optarg_value (oa_name oa) after s of
        None \<Rightarrow>
          (if has_flag (oa_flags oa) CLI_CMD_ARGUMENT
           then Some ((CLI_MISSING_ARGUMENT, cmdline), cli_error e (''Missing required argument '' @ oa_name oa) s)
           else Some ((CLI_OK, cmdline), s))
      | Some (i, v) \<Rightarrow> do {
          ((rc, line), s1) \<leftarrow>
             (if has_flag (oa_flags oa) (CLI_CMD_OPTIONAL_FLAG OR CLI_CMD_ARGUMENT) then Some (extend_line e cmdline v s)
              else (case extend_line e cmdline (oa_name oa) s of
                  ((rc1, line1), t) \<Rightarrow> if rc1 = CLI_OK then Some (extend_line e line1 v t) else None));
          if rc = CLI_OK \<and> has_flag (oa_flags oa) CLI_CMD_OPTION_MULTIPLE
          then bm_option e n oa (Some i) line s1
          else Some ((rc, line), s1)
        })"

fun bm_cmdline :: "'u cli_env \<Rightarrow> cli_optarg list \<Rightarrow> string \<Rightarrow> 'u cli_def \<Rightarrow> ((int \<times> string) \<times> 'u cli_def) option" where
  "bm_cmdline e [] cmdline s = Some ((CLI_OK, cmdline), s)"
| "bm_cmdline e (oa # os) cmdline s = do {
     bm \<leftarrow> cli_buildmode s;
     ((rc, line), s1) \<leftarrow>
       (if cli_privilege s < oa_privilege oa
           \<or> (oa_mode oa \<noteq> bm_mode bm \<and> oa_mode oa \<noteq> bm_transient_mode bm \<and> oa_mode oa \<noteq> MODE_ANY)
        then Some ((CLI_OK, cmdline), s)
        else bm_option e (Suc (length (cli_found_optargs s))) oa None cmdline s);
     if rc = CLI_OK then bm_cmdline e os line s1 else Some ((rc, line), s1)
   }"

end
