(* ===== verification/Libcli_Parse.thy ===== *)
theory Libcli_Parse
  imports Libcli_Buildmode
begin

text \<open>
  \<open>cli_int_parse_optargs\<close> (\<open>libcli.c\<close> 3343-3596): the words of a stage after the command are matched
  against the options of the command, checked, and recorded. With \<open>lastchar\<close> NUL the line is to be
  executed; with a tab or a question mark the completions or the help of the last word are
  collected. No result (\<open>None\<close>) is a NULL pointer followed.
\<close>

section \<open>Candidates for a word\<close>

definition call_validator ::
  "'u cli_env \<Rightarrow> validator_fn \<Rightarrow> string option \<Rightarrow> string option \<Rightarrow> 'u cli_def \<Rightarrow> (int \<times> 'u cli_def) option" where
  "call_validator e f name val s =
     (case f of
        Search_flags_validator \<Rightarrow> map_option (\<lambda>rc. (rc, s)) (cli_search_flags_validator val)
      | Unset_validator \<Rightarrow> Some (cli_int_buildmode_unset_validator e name val s)
      | App_validator g \<Rightarrow> Some (env_validator e g name val s))"

text \<open>An option applies when the privilege is high enough and its mode is any, the current or the transient one.\<close>

definition applies :: "cli_optarg \<Rightarrow> 'u cli_def \<Rightarrow> bool" where
  "applies oa s \<longleftrightarrow> oa_privilege oa \<le> cli_privilege s
     \<and> (oa_mode oa = cli_mode s \<or> oa_mode oa = cli_transient_mode s \<or> oa_mode oa = MODE_ANY)"

text \<open>A word that is an option by its form: a hyphen, the name of a flag or what its validator takes, the name of an argument.\<close>

definition exact_match ::
  "'u cli_env \<Rightarrow> cli_optarg \<Rightarrow> string option \<Rightarrow> 'u cli_def \<Rightarrow> (bool \<times> 'u cli_def) option" where
  "exact_match e oa word s =
     (case word of
        None \<Rightarrow> Some (False, s)
      | Some w \<Rightarrow>
          if w \<noteq> [] \<and> hd w = CHR ''-'' \<and> has_flag (oa_flags oa) CLI_CMD_HYPHENATED_OPTION then Some (True, s)
          else do {
            (flag, s1) \<leftarrow>
              (if has_flag (oa_flags oa) CLI_CMD_OPTIONAL_FLAG then
                 (case oa_validator oa of
                    None \<Rightarrow> Some (oa_name oa = w, s)
                  | Some f \<Rightarrow> do { (rc, t) \<leftarrow> call_validator e f (Some (oa_name oa)) (Some w) s; Some (rc = CLI_OK, t) })
               else Some (False, s));
            Some (flag \<or> has_flag (oa_flags oa) CLI_CMD_OPTIONAL_ARGUMENT \<and> oa_name oa = w, s1)
          })"

text \<open>
  The scan of the options for one word. A candidate is kept with the options after it. A spot check
  that fails ends the scan with its status.
\<close>

datatype scan = Spot_failed int | Candidates "cli_optarg list list"

fun scan_optargs ::
  "'u cli_env \<Rightarrow> string option \<Rightarrow> cli_optarg list \<Rightarrow> cli_optarg list list \<Rightarrow> 'u cli_def \<Rightarrow> (scan \<times> 'u cli_def) option" where
  "scan_optargs e word [] cands s = Some (Candidates cands, s)"
| "scan_optargs e word (oa # os) cands s =
     (if \<not> applies oa s then scan_optargs e word os cands s
      else
        (let go = (\<lambda>cs t. if has_flag (oa_flags oa) CLI_CMD_ARGUMENT then Some (Candidates cs, t)
                          else scan_optargs e word os cs t)
         in if has_flag (oa_flags oa) CLI_CMD_SPOT_CHECK \<and> cands = [] then do {
              f \<leftarrow> oa_validator oa;
              (rc, s1) \<leftarrow> call_validator e f None None s;
              if rc \<noteq> CLI_OK then Some (Spot_failed rc, cli_reprompt s1) else go cands s1
            }
            else do {
              (exact, s1) \<leftarrow> exact_match e oa word s;
              if exact then Some (Candidates [oa # os], s1)
              else if (case word of None \<Rightarrow> True
                       | Some w \<Rightarrow> has_flag (oa_flags oa) CLI_CMD_ARGUMENT \<or> strncaseeq (length w) (oa_name oa) w)
              then go (cands @ [oa # os]) s1
              else go cands s1
            }))"

section \<open>Help for the last word\<close>

definition at_end :: "cli_optarg \<Rightarrow> nat \<Rightarrow> nat \<Rightarrow> bool" where
  "at_end oa idx num_words \<longleftrightarrow>
     has_flag (oa_flags oa) (CLI_CMD_OPTIONAL_FLAG OR CLI_CMD_ARGUMENT OR CLI_CMD_OPTIONAL_ARGUMENT OR CLI_CMD_HYPHENATED_OPTION)
     \<and> Suc idx = num_words"

definition value_at_end :: "cli_optarg \<Rightarrow> nat \<Rightarrow> nat \<Rightarrow> bool" where
  "value_at_end oa idx num_words \<longleftrightarrow> has_flag (oa_flags oa) CLI_CMD_OPTIONAL_ARGUMENT \<and> idx + 2 = num_words"

fun comphelp_candidates ::
  "'u cli_env \<Rightarrow> cli_optarg list \<Rightarrow> char \<Rightarrow> cli_pipeline_stage \<Rightarrow> nat \<Rightarrow> bool \<Rightarrow> cli_comphelp \<Rightarrow> 'u cli_def
     \<Rightarrow> bool \<times> cli_comphelp \<times> 'u cli_def" where
  "comphelp_candidates e [] lastchar st idx called ch s = (called, ch, s)"
| "comphelp_candidates e (oa # os) lastchar st idx called ch s =
     (let w = word_at (st_words st) idx in
      if at_end oa idx (st_num_words st) then
        (case cli_get_optarg_comphelp e oa ch lastchar w w False s of
           (ch1, s1) \<Rightarrow> comphelp_candidates e os lastchar st idx True ch1 s1)
      else if value_at_end oa idx (st_num_words st) then
        (case cli_get_optarg_comphelp e oa ch lastchar w (word_at (st_words st) (Suc idx)) True s of
           (ch1, s1) \<Rightarrow> comphelp_candidates e os lastchar st idx True ch1 s1)
      else comphelp_candidates e os lastchar st idx called ch s)"

section \<open>One word\<close>

text \<open>
  How a round of the loop ends: \<open>Done\<close> leaves the function, \<open>Break\<close> the loop, \<open>Next idx os\<close> goes on at a
  word with the options from \<open>os\<close> on.
\<close>

datatype round_end = Done | Break | Next nat "cli_optarg list"

type_synonym 'u parsing = "cli_pipeline_stage \<times> cli_comphelp \<times> 'u cli_def"

definition stop_with :: "int \<Rightarrow> nat \<Rightarrow> cli_pipeline_stage \<Rightarrow> cli_pipeline_stage" where
  "stop_with status idx st = st\<lparr>st_status := status, st_error_word := word_at (st_words st) idx\<rparr>"

definition join_args :: "nat \<Rightarrow> string list \<Rightarrow> string option" where
  "join_args n ws = (if n \<le> length ws then Some (join_words (take n ws)) else None)"

definition nl_unless :: "bool \<Rightarrow> string" where
  "nl_unless b = (if b then [] else [CHR 0x0A])"

text \<open>Recording the value: the rest of the line joined, or the word itself; with the message for a failure.\<close>

definition record_value ::
  "'u cli_env \<Rightarrow> cli_optarg \<Rightarrow> cli_pipeline_stage \<Rightarrow> nat \<Rightarrow> string option \<Rightarrow> 'u cli_def
     \<Rightarrow> ((int \<times> string) \<times> 'u cli_def) option" where
  "record_value e oa st idx val s =
     (let msg = ''Problem setting value for command argument '' @ null_text (word_at (st_words st) idx) in
      if has_flag (oa_flags oa) CLI_CMD_REMAINDER_OF_LINE then do {
        combined \<leftarrow> join_args (st_num_words st - idx) (drop idx (st_words st));
        (case cli_alloc s of
           (False, s1) \<Rightarrow> Some ((CLI_ERROR, ''Unable to allocate memory for command processing''), s1)
         | (True, s1) \<Rightarrow>
             (case cli_set_optarg_value (oa_name oa) combined False s1 of (rc, s2) \<Rightarrow> Some ((rc, msg), s2)))
      }
      else do {
        v \<leftarrow> val;
        let (rc, s1) = cli_set_optarg_value (oa_name oa) v (has_flag (oa_flags oa) CLI_CMD_OPTION_MULTIPLE) s;
        Some ((rc, msg), s1)
      })"

text \<open>What follows a recorded value: the transient mode, build mode, the next word.\<close>

definition after_value ::
  "'u cli_env \<Rightarrow> cli_optarg list \<Rightarrow> cli_optarg list \<Rightarrow> nat \<Rightarrow> nat \<Rightarrow> string option \<Rightarrow> 'u parsing
     \<Rightarrow> (round_end \<times> 'u parsing) option" where
  "after_value e oas optarg idx incr val p =
     (case p of (st, ch, s) \<Rightarrow>
        (let oa = hd oas;
             last_word = has_flag (oa_flags oa) (CLI_CMD_OPTIONAL_FLAG OR CLI_CMD_ARGUMENT) \<and> Suc idx = st_num_words st
               \<or> value_at_end oa idx (st_num_words st);
             (bad, s1) = (case oa_transient_mode oa of None \<Rightarrow> (False, s)
               | Some f \<Rightarrow> (case env_transient e f (oa_name oa) val s of (rc, t) \<Rightarrow> (rc \<noteq> 0, t)))
         in if bad then Some (Done, stop_with CLI_ERROR idx st, ch, s1)
            else if \<not> cli_disallow_buildmode s1 \<and> st_status st = CLI_OK
                \<and> has_flag (oa_flags oa) CLI_CMD_ALLOW_BUILDMODE \<and> last_word then do {
              cmd \<leftarrow> st_command st;
              (rc, s2) \<leftarrow> cli_int_enter_buildmode e cmd val s1;
              Some (Done, st\<lparr>st_status := rc\<rparr>, ch, s2)
            }
            else Some (Next (idx + incr) (if has_flag (oa_flags oa) CLI_CMD_ARGUMENT then tl oas else optarg),
                   st\<lparr>st_first_unmatched := idx + incr\<rparr>, ch, s1)))"

definition take_value ::
  "'u cli_env \<Rightarrow> cli_optarg list \<Rightarrow> cli_optarg list \<Rightarrow> char \<Rightarrow> nat \<Rightarrow> 'u parsing \<Rightarrow> (round_end \<times> 'u parsing) option" where
  "take_value e oas optarg lastchar idx p =
     (case p of (st, ch, s) \<Rightarrow>
        (let oa = hd oas;
             w = word_at (st_words st) idx;
             is_arg = has_flag (oa_flags oa) CLI_CMD_OPTIONAL_ARGUMENT;
             value_idx = (if is_arg then Suc idx else idx);
             val = word_at (st_words st) value_idx;
             incr = (if is_arg then 2 else 1)
         in if is_arg \<and> val = None \<and> lastchar = CHR 0x00 then
              Some (Done, stop_with CLI_MISSING_VALUE idx st, ch,
                cli_error e (''Optional argument '' @ null_text w @ '' requires a value'') s)
            else do {
              (rc, s1) \<leftarrow> (case oa_validator oa of None \<Rightarrow> Some (CLI_OK, s)
                 | Some f \<Rightarrow> call_validator e f (Some (oa_name oa)) val s);
              if rc \<noteq> CLI_OK then
                Some (Done, stop_with CLI_ERROR idx st, ch,
                  cli_reprompt (cli_error e (nl_unless (lastchar = CHR 0x00) @ ''Problem parsing command setting ''
                    @ oa_name oa @ '' with value '' @ null_text val) s1))
              else if has_flag (oa_flags oa) CLI_CMD_DO_NOT_RECORD then Some (Break, st, ch, s1)
              else do {
                ((rc1, msg), s2) \<leftarrow> record_value e oa st idx val s1;
                if rc1 \<noteq> CLI_OK then
                  Some (Done, stop_with CLI_ERROR idx st, ch,
                    cli_reprompt (cli_error e (nl_unless (lastchar = CHR 0x00) @ msg) s2))
                else after_value e oas optarg idx incr val (st, ch, s2)
              }
            }))"

text \<open>A round of the loop at the word \<open>idx\<close>; the number says how many candidates there were.\<close>

definition optarg_round ::
  "'u cli_env \<Rightarrow> cli_optarg list \<Rightarrow> char \<Rightarrow> nat \<Rightarrow> 'u parsing \<Rightarrow> ((nat \<times> round_end) \<times> 'u parsing) option" where
  "optarg_round e optarg lastchar idx p =
     (case p of (st, ch, s) \<Rightarrow> do {
        (sc, s1) \<leftarrow> scan_optargs e (word_at (st_words st) idx) optarg [] s;
        (case sc of
           Spot_failed rc \<Rightarrow> Some ((0, Done), stop_with rc idx st, ch, s1)
         | Candidates cands \<Rightarrow>
             (if cands = [] then Some ((0, Break), st, ch, s1)
              else if 1 < length cands \<and> (lastchar = CHR 0x00 \<or> Suc idx < st_num_words st) then do {
                cmd \<leftarrow> st_command st;
                Some ((0, Done), stop_with CLI_AMBIGUOUS idx st, ch,
                  cli_error e (CHR 0x0A # ''Ambiguous option/argument for command '' @ c_command (cmd_data cmd)) s1)
              }
              else
                (let (called, ch1, s2) = (if lastchar \<noteq> CHR 0x00
                       then comphelp_candidates e (map hd cands) lastchar st idx False ch s1 else (False, ch, s1))
                 in if called then Some ((0, Done), st\<lparr>st_status := CLI_OK\<rparr>, ch1, s2)
                    else do {
                      (r, p1) \<leftarrow> take_value e (hd cands) optarg lastchar idx (st, ch1, s2);
                      Some ((length cands, r), p1)
                    })))
      })"

section \<open>All words\<close>

text \<open>
  The loop. Its result says whether the check for missing arguments is still to come, and with which
  options. \<open>n\<close> bounds the rounds; each goes at least one word further, so the number of words is
  enough.
\<close>

fun optarg_loop ::
  "'u cli_env \<Rightarrow> nat \<Rightarrow> cli_optarg list \<Rightarrow> char \<Rightarrow> nat \<Rightarrow> 'u parsing \<Rightarrow> (cli_optarg list option \<times> 'u parsing) option" where
  "optarg_loop e 0 optarg lastchar idx p = None"
| "optarg_loop e (Suc n) optarg lastchar idx p =
     (if optarg = [] \<or> st_num_words (fst p) \<le> idx then Some (Some optarg, p)
      else do {
        ((cands, r), p1) \<leftarrow> optarg_round e optarg lastchar idx p;
        (case r of
           Done \<Rightarrow> Some (None, p1)
         | Break \<Rightarrow> Some (Some optarg, p1)
         | Next idx1 optarg1 \<Rightarrow>
             if 1 < cands then Some (Some optarg1, p1) else optarg_loop e n optarg1 lastchar idx1 p1)
      })"

text \<open>The required arguments that are left.\<close>

definition missing_optargs :: "cli_optarg list \<Rightarrow> 'u cli_def \<Rightarrow> cli_optarg list" where
  "missing_optargs os s =
     filter (\<lambda>oa. applies oa s \<and> \<not> has_flag (oa_flags oa) CLI_CMD_DO_NOT_RECORD \<and> has_flag (oa_flags oa) CLI_CMD_ARGUMENT) os"

definition check_required :: "'u cli_env \<Rightarrow> cli_command \<Rightarrow> char \<Rightarrow> cli_optarg list \<Rightarrow> 'u parsing \<Rightarrow> 'u parsing" where
  "check_required e cmd lastchar os p =
     (case p of (st, ch, s) \<Rightarrow>
        if lastchar \<noteq> CHR 0x00 then (st, ch, s)
        else (case missing_optargs os s of
            [] \<Rightarrow> (st, ch, s)
          | oa # _ \<Rightarrow> (st\<lparr>st_status := CLI_MISSING_ARGUMENT\<rparr>, ch,
              cli_error e (''Incomplete command, missing required argument '' @ [CHR 0x27] @ oa_name oa @ [CHR 0x27]
                @ '' for command '' @ [CHR 0x27] @ c_command (cmd_data cmd) @ [CHR 0x27]) s)))"

definition found_here :: "cli_pipeline_stage \<Rightarrow> 'u cli_def \<Rightarrow> optarg_pairs" where
  "found_here st s = (case cli_buildmode s of Some bm \<Rightarrow> bm_found_optargs bm | None \<Rightarrow> st_found_optargs st)"

definition save_found :: "'u parsing \<Rightarrow> 'u parsing" where
  "save_found p =
     (case p of (st, ch, s) \<Rightarrow>
        (case cli_buildmode s of
           Some bm \<Rightarrow> (st, ch, s\<lparr>cli_buildmode := Some (bm\<lparr>bm_found_optargs := cli_found_optargs s\<rparr>)\<rparr>)
         | None \<Rightarrow> (st\<lparr>st_found_optargs := cli_found_optargs s\<rparr>, ch, s)))"

definition cli_int_parse_optargs ::
  "'u cli_env \<Rightarrow> cli_command \<Rightarrow> char \<Rightarrow> 'u parsing \<Rightarrow> 'u parsing option" where
  "cli_int_parse_optargs e cmd lastchar p =
     (case p of (st, ch, s) \<Rightarrow> do {
        (left, p1) \<leftarrow> optarg_loop e (Suc (st_num_words st)) (c_optargs (cmd_data cmd)) lastchar (st_first_unmatched st)
            (st\<lparr>st_error_word := None\<rparr>, ch, s\<lparr>cli_found_optargs := found_here st s\<rparr>);
        Some (save_found (case left of None \<Rightarrow> p1 | Some os \<Rightarrow> check_required e cmd lastchar os p1))
      })"

end
