(* ===== verification/Libcli_Pipeline.thy ===== *)
theory Libcli_Pipeline
  imports Libcli_Parse
begin

text \<open>
  Running a command line: \<open>cli_int_generate_pipeline\<close>, \<open>cli_int_locate_command\<close>,
  \<open>cli_int_validate_pipeline\<close>, \<open>cli_int_execute_pipeline\<close>, \<open>cli_run_command\<close>,
  \<open>cli_int_execute_buildmode\<close> and \<open>cli_get_completions\<close> (\<open>libcli.c\<close> 879-996, 2558-2611 and
  2872-3147). A stage keeps the command it was matched with as a value.
\<close>

section \<open>Stages\<close>

definition is_pipe :: "string \<Rightarrow> bool" where
  "is_pipe w \<longleftrightarrow> w \<noteq> [] \<and> hd w = CHR ''|''"

text \<open>Each stage: the words from its first on, and how many are its own.\<close>

fun split_stages :: "string list \<Rightarrow> (string list \<times> nat) list" where
  "split_stages [] = [([], 0)]"
| "split_stages (w # ws) =
     (if is_pipe w then (w # ws, 0) # split_stages ws
      else (case split_stages ws of (_, n) # rest \<Rightarrow> (w # ws, Suc n) # rest | [] \<Rightarrow> []))"

definition new_stage :: "nat \<Rightarrow> string list \<times> nat \<Rightarrow> cli_pipeline_stage" where
  "new_stage i p =
     \<lparr>st_command = None, st_found_optargs = [], st_words = fst p, st_num_words = snd p, st_status = 0,
      st_first_unmatched = 0, st_first_optarg = 0, st_stage_num = i, st_error_word = None\<rparr>"

definition cli_int_generate_pipeline :: "'u cli_env \<Rightarrow> string \<Rightarrow> 'u cli_def \<Rightarrow> cli_pipeline option \<times> 'u cli_def" where
  "cli_int_generate_pipeline e command s =
     (let s0 = s\<lparr>cli_found_optargs := (case cli_buildmode s of None \<Rightarrow> [] | Some bm \<Rightarrow> bm_found_optargs bm)\<rparr>;
          line = dropWhile is_space command
      in case cli_alloc s0 of
           (False, s1) \<Rightarrow> (None, s1)
         | (True, s1) \<Rightarrow>
             (let parsed = cli_parse_line line CLI_MAX_LINE_WORDS;
                  (ok, s2) = cli_allocs (length parsed) s1;
                  words = (if ok then parsed else [])
              in if cli_buildmode s2 \<noteq> None \<and> list_ex is_pipe words
                 then (None, cli_error e (CHR 0x0A # ''Pipelines are not allowed in buildmode'') s2)
                 else (Some \<lparr>pl_cmdline = line, pl_words = words,
                         pl_stages = map (\<lambda>(i, p). new_stage i p) (enumerate 0 (split_stages words)),
                         pl_current_stage = None\<rparr>, s2)))"

section \<open>Finding the command\<close>

text \<open>A word abbreviates a command when it has at least the unique letters and is its start.\<close>

definition abbreviates :: "string \<Rightarrow> command_data \<Rightarrow> bool" where
  "abbreviates w d \<longleftrightarrow> strncaseeq (c_unique_len d) (c_command d) w \<and> strncaseeq (length w) (c_command d) w"

text \<open>
  The loop over the commands of a level: one of the current mode is taken, one of the configuration
  mode or of any mode is remembered; a second one of any mode is taken when there is one already.
\<close>

datatype pick = Taken cli_command | Again_config cli_command | Again_any cli_command | No_match

fun pick_command ::
  "int \<Rightarrow> int \<Rightarrow> command_types \<Rightarrow> string \<Rightarrow> cli_command list \<Rightarrow> cli_command option \<Rightarrow> cli_command option \<Rightarrow> pick" where
  "pick_command mode priv type w [] again_config again_any =
     (case again_config of Some c \<Rightarrow> Again_config c
      | None \<Rightarrow> (case again_any of Some c \<Rightarrow> Again_any c | None \<Rightarrow> No_match))"
| "pick_command mode priv type w (c # cs) again_config again_any =
     (let d = cmd_data c in
      if c_command_type d \<noteq> type \<or> priv < c_privilege d \<or> \<not> abbreviates w d
      then pick_command mode priv type w cs again_config again_any
      else if c_mode d = mode \<or> c_mode d = MODE_ANY \<and> again_any \<noteq> None then Taken c
      else if MODE_CONFIG < mode \<and> c_mode d = MODE_CONFIG then pick_command mode priv type w cs (Some c) again_any
      else if c_mode d = MODE_ANY then pick_command mode priv type w cs again_config (Some c)
      else pick_command mode priv type w cs again_config again_any)"

type_synonym 'u located = "int \<times> cli_pipeline_stage \<times> 'u cli_def"

text \<open>The label CORRECT_CHECKS: the command is found, its options are parsed.\<close>

definition found_command :: "'u cli_env \<Rightarrow> cli_command \<Rightarrow> nat \<Rightarrow> cli_pipeline_stage \<Rightarrow> 'u cli_def \<Rightarrow> 'u located option" where
  "found_command e c start st s = do {
     (st1, _, s1) \<leftarrow> cli_int_parse_optargs e c CHR 0x00
        (st\<lparr>st_command := Some c, st_first_unmatched := Suc start, st_first_optarg := Suc start\<rparr>, comphelp_empty, s);
     Some (st_status st1, st1, s1)
   }"

definition quoted :: "string \<Rightarrow> string" where
  "quoted t = [CHR 0x22] @ t @ [CHR 0x22]"

text \<open>
  A word is used up at each level and the last word goes no deeper, so the number of words bounds
  the depth \<open>n\<close>.
\<close>

fun cli_int_locate_command ::
  "'u cli_env \<Rightarrow> nat \<Rightarrow> command_types \<Rightarrow> nat \<Rightarrow> cli_command list \<Rightarrow> cli_pipeline_stage \<Rightarrow> 'u cli_def \<Rightarrow> 'u located option" where
  "cli_int_locate_command e 0 type start cs st s = None"
| "cli_int_locate_command e (Suc n) type start cs st s = do {
     w \<leftarrow> word_at (st_words st) start;
     let take_command = (\<lambda>c u.
       (let d = cmd_data c in
        if cmd_children c = [] then
          (if c_callback d = None \<and> c_filter d = None
           then Some (CLI_ERROR, st, cli_error e (''No callback for '' @ quoted (c_full_command_name d)) u)
           else found_command e c start st u)
        else if Suc start = st_num_words st then
          (if c_callback d \<noteq> None then found_command e c start st u else Some (CLI_ERROR, st, cli_error e ''Incomplete command'' u))
        else do {
          (rc, st1, u1) \<leftarrow> cli_int_locate_command e n type (Suc start) (cmd_children c) st u;
          if rc \<noteq> CLI_ERROR_ARG then Some (rc, st1, u1)
          else if c_callback d \<noteq> None then found_command e c start st1 u1
          else Some (CLI_ERROR, st1, cli_error e (''Invalid command '' @
              quoted (c_full_command_name d @ '' '' @ null_text (word_at (st_words st1) (Suc start)))) u1)
        }));
     (case pick_command (cli_mode s) (cli_privilege s) type w cs None None of
        Taken c \<Rightarrow> take_command c s
      | Again_any c \<Rightarrow> take_command c s
      | Again_config c \<Rightarrow>
          (let s1 = snd (cli_set_configmode MODE_CONFIG None s)
           in do { c1 \<leftarrow> command_at (cmd_id c) s1; take_command c1 s1 })
      | No_match \<Rightarrow> Some (CLI_ERROR_ARG, st, if start = 0 then cli_error e (''Invalid command '' @ quoted w) s else s))
   }"

section \<open>Validation\<close>

definition stage_type :: "nat \<Rightarrow> 'u cli_def \<Rightarrow> command_types" where
  "stage_type i s =
     (if cli_buildmode s \<noteq> None \<and> i = 0 then CLI_BUILDMODE_COMMAND
      else if 0 < i then CLI_FILTER_COMMAND else CLI_REGULAR_COMMAND)"

definition validate_stage :: "'u cli_env \<Rightarrow> nat \<Rightarrow> cli_pipeline_stage \<Rightarrow> 'u cli_def \<Rightarrow> 'u located option" where
  "validate_stage e i st s = do {
     let s0 = s\<lparr>cli_found_optargs := (case cli_buildmode s of None \<Rightarrow> [] | Some bm \<Rightarrow> bm_found_optargs bm)\<rparr>;
     (rc, st1, s1) \<leftarrow> cli_int_locate_command e (st_num_words st) (stage_type i s) 0 (cli_commands s0) st s0;
     Some (case cli_buildmode s1 of
         Some bm \<Rightarrow> (rc, st1, s1\<lparr>cli_buildmode := Some (bm\<lparr>bm_found_optargs := cli_found_optargs s1\<rparr>)\<rparr>)
       | None \<Rightarrow> (rc, st1\<lparr>st_found_optargs := cli_found_optargs s1\<rparr>, s1))
   }"

text \<open>An empty stage returns at once; any other end of the loop forgets the pipeline.\<close>

fun validate_stages :: "'u cli_env \<Rightarrow> nat \<Rightarrow> cli_pipeline \<Rightarrow> 'u cli_def \<Rightarrow> (int \<times> cli_pipeline \<times> 'u cli_def) option" where
  "validate_stages e 0 p s = Some (CLI_OK, p, s\<lparr>cli_pipeline := None\<rparr>)"
| "validate_stages e (Suc n) p s =
     (let i = length (pl_stages p) - Suc n; st = pl_stages p ! i; p0 = p\<lparr>pl_current_stage := Some i\<rparr> in
      if st_num_words st = 0 then Some (CLI_ERROR, p, cli_error e ''Empty command given'' s)
      else do {
        (rc, st1, s1) \<leftarrow> validate_stage e i st (s\<lparr>cli_pipeline := Some p0\<rparr>);
        let p1 = p0\<lparr>pl_stages := (pl_stages p0)[i := st1]\<rparr>;
        if rc = CLI_OK then validate_stages e n p1 s1 else Some (rc, p1, s1\<lparr>cli_pipeline := None\<rparr>)
      })"

definition cli_int_validate_pipeline :: "'u cli_env \<Rightarrow> cli_pipeline \<Rightarrow> 'u cli_def \<Rightarrow> (int \<times> cli_pipeline \<times> 'u cli_def) option" where
  "cli_int_validate_pipeline e p s =
     (let s0 = s\<lparr>cli_pipeline := Some p, cli_found_optargs := []\<rparr>
      in if pl_words p = [] then Some (CLI_ERROR, p, s0)
         else validate_stages e (length (pl_stages p)) p s0)"

section \<open>Execution\<close>

definition call_command ::
  "'u cli_env \<Rightarrow> command_fn \<Rightarrow> string \<Rightarrow> string list \<Rightarrow> int \<Rightarrow> 'u cli_def \<Rightarrow> (int \<times> 'u cli_def) option" where
  "call_command e f name argv argc s =
     (case f of
        Cli_help \<Rightarrow> Some (cli_help e s)
      | Cli_quit \<Rightarrow> Some (cli_quit s)
      | Cli_exit \<Rightarrow> Some (cli_exit s)
      | Cli_history \<Rightarrow> Some (cli_history e s)
      | Cli_enable \<Rightarrow> Some (cli_enable s)
      | Cli_disable \<Rightarrow> Some (cli_disable s)
      | Cli_configure_terminal \<Rightarrow> Some (cli_int_configure_terminal s)
      | Buildmode_cmd \<Rightarrow> Some (cli_int_buildmode_cmd_cback e argc s)
      | Buildmode_flag \<Rightarrow> Some (cli_int_buildmode_flag_cback e name argc s)
      | Buildmode_flag_multiple \<Rightarrow> Some (cli_int_buildmode_flag_multiple_cback e name argc s)
      | Buildmode_cancel \<Rightarrow> Some (cli_int_buildmode_cancel_cback e argc s)
      | Buildmode_execute \<Rightarrow> Some (cli_int_buildmode_execute_cback e argc s)
      | Buildmode_show \<Rightarrow> Some (cli_int_buildmode_show_cback e s)
      | Buildmode_unset \<Rightarrow> cli_int_buildmode_unset_cback e argv s
      | App_command g \<Rightarrow> env_command e g name argv argc s)"

definition call_init ::
  "'u cli_env \<Rightarrow> filter_fn \<Rightarrow> int \<Rightarrow> cli_filter \<Rightarrow> 'u cli_def \<Rightarrow> ((int \<times> cli_filter) \<times> 'u cli_def) option" where
  "call_init e f argc filt s =
     (case f of
        Match_filter \<Rightarrow> cli_match_filter_init e filt s
      | Range_filter \<Rightarrow> cli_range_filter_init filt s
      | Count_filter \<Rightarrow> cli_count_filter_init argc filt s)"

text \<open>
  The filters are set up one after the other. A filter whose structure cannot be allocated is left
  out; a failing \<open>init\<close> ends the loop with the value of the comparison, 1.
\<close>

fun init_filters :: "'u cli_env \<Rightarrow> cli_pipeline \<Rightarrow> nat list \<Rightarrow> 'u cli_def \<Rightarrow> (int \<times> 'u cli_def) option" where
  "init_filters e p [] s = Some (CLI_OK, s)"
| "init_filters e p (i # is) s =
     (let st = pl_stages p ! i;
          s0 = s\<lparr>cli_pipeline := Some (p\<lparr>pl_current_stage := Some i\<rparr>), cli_found_optargs := st_found_optargs st\<rparr>
      in case cli_alloc s0 of
           (False, s1) \<Rightarrow> init_filters e p is s1
         | (True, s1) \<Rightarrow> do {
             c \<leftarrow> st_command st;
             f \<leftarrow> c_init (cmd_data c);
             ((rc, filt), s2) \<leftarrow> call_init e f (int (st_num_words st)) \<lparr>fl_filter = None, fl_data = No_state\<rparr> s1;
             let s3 = s2\<lparr>cli_filters := cli_filters s2 @ [filt]\<rparr>;
             if rc \<noteq> CLI_OK then Some (1, s3) else init_filters e p is s3
           })"

definition run_stage :: "'u cli_env \<Rightarrow> cli_pipeline \<Rightarrow> 'u cli_def \<Rightarrow> (int \<times> 'u cli_def) option" where
  "run_stage e p s =
     (let st = pl_stages p ! 0 in do {
        c \<leftarrow> st_command st;
        (case c_callback (cmd_data c) of
           None \<Rightarrow> Some (CLI_OK, s)
         | Some f \<Rightarrow> do {
             let in_buildmode = (c_command_type (cmd_data c) = CLI_BUILDMODE_COMMAND);
             found \<leftarrow> (if in_buildmode then map_option bm_found_optargs (cli_buildmode s) else Some (st_found_optargs st));
             (rc, s1) \<leftarrow> call_command e f (c_full_command_name (cmd_data c)) (drop (st_first_unmatched st) (st_words st))
                (int (st_num_words st) - int (st_first_unmatched st))
                (s\<lparr>cli_pipeline := Some (p\<lparr>pl_current_stage := Some 0\<rparr>), cli_found_optargs := found\<rparr>);
             s2 \<leftarrow> (if in_buildmode
                then map_option (\<lambda>bm. s1\<lparr>cli_buildmode := Some (bm\<lparr>bm_found_optargs := cli_found_optargs s1\<rparr>)\<rparr>) (cli_buildmode s1)
                else Some s1);
             Some (rc, s2)
           })
      })"

text \<open>The end of the filters, in order.\<close>

definition end_filters :: "'u cli_def \<Rightarrow> 'u cli_def" where
  "end_filters s = (fold filter_end (cli_filters s) s)\<lparr>cli_filters := []\<rparr>"

definition cli_int_execute_pipeline :: "'u cli_env \<Rightarrow> cli_pipeline \<Rightarrow> 'u cli_def \<Rightarrow> (int \<times> 'u cli_def) option" where
  "cli_int_execute_pipeline e p s = do {
     (rc, s1) \<leftarrow> init_filters e p [1..<length (pl_stages p)] (s\<lparr>cli_filters := [], cli_pipeline := Some p\<rparr>);
     (rc1, s2) \<leftarrow> (if rc = CLI_OK then run_stage e p s1 else Some (rc, s1));
     Some (rc1, (end_filters s2)\<lparr>cli_found_optargs := [], cli_pipeline := None\<rparr>)
   }"

definition cli_run_command :: "'u cli_env \<Rightarrow> string \<Rightarrow> 'u cli_def \<Rightarrow> (int \<times> 'u cli_def) option" where
  "cli_run_command e command s =
     (case cli_int_generate_pipeline e command s of
        (None, s1) \<Rightarrow> Some (CLI_ERROR, s1)
      | (Some p, s1) \<Rightarrow> do {
          (rc, p1, s2) \<leftarrow> cli_int_validate_pipeline e p s1;
          if rc = CLI_OK then cli_int_execute_pipeline e p1 s2 else Some (rc, s2)
        })"

text \<open>Build mode ends by running the line it has put together.\<close>

definition cli_int_execute_buildmode :: "'u cli_env \<Rightarrow> 'u cli_def \<Rightarrow> (int \<times> 'u cli_def) option" where
  "cli_int_execute_buildmode e s = do {
     bm \<leftarrow> cli_buildmode s;
     (case cli_strdup (c_full_command_name (cmd_data (bm_command bm))) s of
        (None, s1) \<Rightarrow> Some (CLI_ERROR, cli_error e ''Unable to allocate memory to process buildmode commandline'' s1)
      | (Some name, s1) \<Rightarrow> do {
          ((rc, cmdline), s2) \<leftarrow> bm_cmdline e (c_optargs (cmd_data (bm_command bm))) name s1;
          if rc \<noteq> CLI_OK then Some (rc, s2)
          else cli_run_command e cmdline
            ((snd (cli_add_history cmdline (cli_int_free_buildmode s2)))\<lparr>cli_disallow_buildmode := True\<rparr>)
        })
   }"

section \<open>Completions\<close>

text \<open>In build mode a setting that was made already is not offered again, unless it may be repeated.\<close>

definition already_set :: "command_data \<Rightarrow> 'u cli_def \<Rightarrow> bool" where
  "already_set d s \<longleftrightarrow>
     (case cli_buildmode s of None \<Rightarrow> False
      | Some bm \<Rightarrow>
          (case filter (\<lambda>oa. oa_name oa = c_command d) (c_optargs (cmd_data (bm_command bm))) of
             [] \<Rightarrow> False
           | oa # _ \<Rightarrow> cli_find_optarg_value (oa_name oa) None s \<noteq> None \<and> \<not> has_flag (oa_flags oa) CLI_CMD_OPTION_MULTIPLE))"

definition not_completed :: "command_types \<Rightarrow> string option \<Rightarrow> command_data \<Rightarrow> 'u cli_def \<Rightarrow> bool" where
  "not_completed type word d s \<longleftrightarrow>
     c_command_type d \<noteq> type \<or> cli_privilege s < c_privilege d
     \<or> (c_mode d \<noteq> cli_mode s \<and> c_mode d \<noteq> MODE_ANY)
     \<or> (case word of None \<Rightarrow> False | Some w \<Rightarrow> \<not> strncaseeq (length w) (c_command d) w)
     \<or> already_set d s"

definition complete_entry :: "char \<Rightarrow> command_types \<Rightarrow> command_data \<Rightarrow> cli_comphelp \<Rightarrow> cli_comphelp" where
  "complete_entry lastchar type d ch =
     (if lastchar = CHR ''?'' then
        (let opt = type = CLI_BUILDMODE_COMMAND
               \<and> has_flag (c_flags d) (CLI_CMD_OPTIONAL_FLAG OR CLI_CMD_OPTIONAL_ARGUMENT)
         in cli_int_wrap_help_line (''  '' @ (if opt then ''['' else []) @ c_command d @ (if opt then '']'' else []))
              (c_help d) ch)
      else cli_add_comphelp_entry (c_command d) ch)"

text \<open>
  The loop over the commands, which goes down a level for each word before the last; it ends with a
  command that has no level below it, and the position of its word.
\<close>

function complete_commands ::
  "char \<Rightarrow> command_types \<Rightarrow> string list \<Rightarrow> nat \<Rightarrow> 'u cli_def \<Rightarrow> cli_command list \<Rightarrow> nat \<Rightarrow> cli_comphelp
     \<Rightarrow> (cli_command \<times> nat) option \<times> cli_comphelp" where
  "complete_commands lastchar type words num s [] i ch = (None, ch)"
| "complete_commands lastchar type words num s (Cli_Command k d kids # cs) i ch =
     (if not_completed type (word_at words i) d s then complete_commands lastchar type words num s cs i ch
      else if Suc i < num then
        (if (case word_at words i of None \<Rightarrow> False | Some w \<Rightarrow> length w < c_unique_len d \<and> w \<noteq> c_command d)
         then complete_commands lastchar type words num s cs i ch
         else if kids = [] then (Some (Cli_Command k d kids, i), ch)
         else complete_commands lastchar type words num s kids (Suc i) ch)
      else complete_commands lastchar type words num s cs i (complete_entry lastchar type d ch))"
  by pat_completeness auto
termination
  by (relation "measure (\<lambda>(lastchar, type, words, num, s, cs, i, ch). size_list size cs)") auto

definition cli_get_completions ::
  "'u cli_env \<Rightarrow> string \<Rightarrow> char \<Rightarrow> cli_comphelp \<Rightarrow> 'u cli_def \<Rightarrow> (cli_comphelp \<times> 'u cli_def) option" where
  "cli_get_completions e command lastchar ch s =
     (case cli_int_generate_pipeline e command s of
        (None, s1) \<Rightarrow> Some (ch, s1)
      | (Some p, s1) \<Rightarrow>
          (let st = last (pl_stages p);
               more = (st_words st = [] \<or> command \<noteq> [] \<and> last command = CHR '' '');
               st1 = (if more then st\<lparr>st_num_words := Suc (st_num_words st)\<rparr> else st);
               type = (if cli_buildmode s1 \<noteq> None then CLI_BUILDMODE_COMMAND
                       else if length (pl_stages p) = 1 then CLI_REGULAR_COMMAND else CLI_FILTER_COMMAND)
           in (case complete_commands lastchar type (st_words st1) (st_num_words st1) s1 (cli_commands s1) 0 ch of
                 (None, ch1) \<Rightarrow> Some (ch1, s1)
               | (Some (c, i), ch1) \<Rightarrow> do {
                   let st2 = st1\<lparr>st_command := Some c, st_first_unmatched := Suc i\<rparr>;
                   (st3, ch2, s2) \<leftarrow>
                     (if c_optargs (cmd_data c) \<noteq> [] then cli_int_parse_optargs e c lastchar (st2, ch1, s1)
                      else Some (st2, if lastchar = CHR ''?'' then ch1\<lparr>ch_num_entries := -1\<rparr> else ch1, s1));
                   Some (ch2, if st_status st3 \<noteq> 0 then cli_reprompt s2 else s2)
                 })))"

end
