(* ===== verification/Libcli_Init.thy ===== *)
theory Libcli_Init
  imports Libcli_Pipeline
begin

text \<open>
  \<open>cli_init\<close>, \<open>cli_done\<close> and \<open>cli_file\<close> (\<open>libcli.c\<close> 596-749 and 1821-1854).
\<close>

section \<open>A fresh session\<close>

text \<open>\<open>calloc\<close>: everything zero. \<open>mem\<close> is the fate of the allocations to come, \<open>u\<close> the application.\<close>

definition cli_zero :: "bool list \<Rightarrow> 'u \<Rightarrow> 'u cli_def" where
  "cli_zero mem u =
     \<lparr>cli_commands = [], cli_auth_callback = None, cli_regular_callback = None, cli_enable_callback = None,
      cli_banner = None, cli_users = [], cli_enable_password = None, cli_hist = [], cli_showprompt = False,
      cli_promptchar = None, cli_hostname = None, cli_modestring = None, cli_privilege = 0, cli_mode = 0,
      cli_state = STATE_LOGIN, cli_filters = [], cli_print_cb = None, cli_client = False, cli_buffer = [],
      cli_buf_size = 0, cli_timeout_sec = 0, cli_timeout_usec = 0, cli_idle_timeout = 0, cli_idle_callback = None,
      cli_last_action = 0, cli_last_regular = 0, cli_telnet = False, cli_user_context = None, cli_service = None,
      cli_found_optargs = [], cli_transient_mode = 0, cli_disallow_buildmode = False, cli_pipeline = None,
      cli_buildmode = None, cli_next_id = 0, cli_mem = mem, cli_out = [], cli_app = u\<rparr>"

definition init_commands :: "'u cli_def \<Rightarrow> nat option \<times> 'u cli_def" where
  "init_commands s0 =
     (let (_, s1) = cli_register_command None ''help'' (Some Cli_help) PRIVILEGE_UNPRIVILEGED MODE_ANY
            (Some ''Show available commands'') s0;
          (_, s2) = cli_register_command None ''quit'' (Some Cli_quit) PRIVILEGE_UNPRIVILEGED MODE_ANY (Some ''Disconnect'') s1;
          (_, s3) = cli_register_command None ''logout'' (Some Cli_quit) PRIVILEGE_UNPRIVILEGED MODE_ANY (Some ''Disconnect'') s2;
          (_, s4) = cli_register_command None ''exit'' (Some Cli_exit) PRIVILEGE_UNPRIVILEGED MODE_ANY
            (Some ''Exit from current mode'') s3;
          (_, s5) = cli_register_command None ''history'' (Some Cli_history) PRIVILEGE_UNPRIVILEGED MODE_ANY
            (Some ''Show a list of previously run commands'') s4;
          (_, s6) = cli_register_command None ''enable'' (Some Cli_enable) PRIVILEGE_UNPRIVILEGED MODE_EXEC
            (Some ''Turn on privileged commands'') s5;
          (_, s7) = cli_register_command None ''disable'' (Some Cli_disable) PRIVILEGE_PRIVILEGED MODE_EXEC
            (Some ''Turn off privileged commands'') s6
      in cli_register_command None ''configure'' None PRIVILEGE_PRIVILEGED MODE_EXEC
            (Some ''Enter configuration mode'') s7)"

text \<open>An option of a filter: name, flags, help, validator.\<close>

definition filter_optarg ::
  "nat \<Rightarrow> string \<Rightarrow> u32 \<Rightarrow> string \<Rightarrow> validator_fn option \<Rightarrow> 'u cli_def \<Rightarrow> 'u cli_def option" where
  "filter_optarg c name flags descr validator s =
     map_option snd (cli_register_optarg c name flags PRIVILEGE_UNPRIVILEGED MODE_ANY (Some descr) None validator None s)"

text \<open>
  The built-in filters: each with its options. A filter that cannot be registered ends the set-up
  (\<open>False\<close>); for \<open>count\<close>, which has no options, the result is not looked at.
\<close>

fun filter_optargs :: "nat \<Rightarrow> (string \<times> u32 \<times> string \<times> validator_fn option) list \<Rightarrow> 'u cli_def \<Rightarrow> 'u cli_def option" where
  "filter_optargs c [] s = Some s"
| "filter_optargs c ((name, flags, descr, v) # os) s = do { s1 \<leftarrow> filter_optarg c name flags descr v s; filter_optargs c os s1 }"

fun init_filter_commands ::
  "(string \<times> filter_fn \<times> string \<times> (string \<times> u32 \<times> string \<times> validator_fn option) list) list \<Rightarrow> 'u cli_def
     \<Rightarrow> (bool \<times> 'u cli_def) option" where
  "init_filter_commands [] s = Some (True, s)"
| "init_filter_commands ((name, f, descr, os) # fs) s =
     (case cli_register_filter name (Some f) (Some f) PRIVILEGE_UNPRIVILEGED MODE_ANY (Some descr) s of
        (None, s1) \<Rightarrow> if os = [] then init_filter_commands fs s1 else Some (False, s1)
      | (Some c, s1) \<Rightarrow> do { s2 \<leftarrow> filter_optargs c os s1; init_filter_commands fs s2 })"

definition builtin_filters :: "(string \<times> filter_fn \<times> string \<times> (string \<times> u32 \<times> string \<times> validator_fn option) list) list" where
  "builtin_filters =
     (let rest = CLI_CMD_ARGUMENT OR CLI_CMD_REMAINDER_OF_LINE;
          pattern = (''search_pattern'', rest, ''Search pattern'', None);
          flags = (''search_flags'', CLI_CMD_HYPHENATED_OPTION, ''Search flags (-[ivx]'', Some Search_flags_validator)
      in [(''begin'', Range_filter, ''Begin with lines that match'',
             [(''range_start'', rest, ''Begin showing lines that match'', None)]),
          (''between'', Range_filter, ''Between lines that match'',
             [(''range_start'', CLI_CMD_ARGUMENT, ''Begin showing lines that match'', None),
              (''range_end'', rest, ''Stop showing lines that match'', None)]),
          (''count'', Count_filter, ''Count of lines'', []),
          (''exclude'', Match_filter, ''Exclude lines that match'', [pattern]),
          (''include'', Match_filter, ''Include lines that match'', [pattern]),
          (''grep'', Match_filter, ''Include lines that match regex (options: -v, -i, -e)'', [flags, pattern]),
          (''egrep'', Match_filter, ''Include lines that match extended regex'', [flags, pattern])])"

text \<open>The outer \<open>None\<close> is a crash, the inner one the result NULL.\<close>

definition cli_init :: "'u cli_env \<Rightarrow> bool list \<Rightarrow> 'u \<Rightarrow> 'u cli_def option option" where
  "cli_init e mem u =
     (case cli_allocs 2 (cli_zero mem u) of
        (False, _) \<Rightarrow> Some None
      | (True, s0) \<Rightarrow>
          (case init_commands (s0\<lparr>cli_buf_size := 1024, cli_telnet := True\<rparr>) of
             (None, _) \<Rightarrow> Some None
           | (Some c, s1) \<Rightarrow> do {
               let (_, s2) = cli_register_command (Some c) ''terminal'' (Some Cli_configure_terminal) PRIVILEGE_PRIVILEGED
                      MODE_EXEC (Some ''Conlfigure from the terminal'') s1;
               (ok, s3) \<leftarrow> init_filter_commands builtin_filters s2;
               Some (if \<not> ok then None
                 else
                   (let s4 = snd (cli_set_privilege PRIVILEGE_UNPRIVILEGED (s3\<lparr>cli_privilege := -1, cli_mode := -1\<rparr>));
                        s5 = snd (cli_set_configmode MODE_EXEC None s4)
                    in Some (cli_set_idle_timeout_callback e 0 (Some Int_idle_timeout)
                         (s5\<lparr>cli_timeout_sec := 1, cli_timeout_usec := 0\<rparr>))))
             }))"

text \<open>\<open>cli_done\<close> frees the session; what is left is the application.\<close>

definition cli_done :: "'u cli_def option \<Rightarrow> int \<times> 'u option" where
  "cli_done cli =
     (CLI_OK,
      case cli of None \<Rightarrow> None
      | Some s \<Rightarrow> Some (cli_app (cli_unregister_tree None CLI_ANY_COMMAND (cli_int_free_buildmode (cli_free_history s)))))"

definition cli_command_name :: "cli_command \<Rightarrow> string" where
  "cli_command_name c = c_full_command_name (cmd_data c)"

definition cli_dump_optargs_and_args :: "'u cli_env \<Rightarrow> string \<Rightarrow> string list \<Rightarrow> int \<Rightarrow> 'u cli_def \<Rightarrow> 'u cli_def" where
  "cli_dump_optargs_and_args e text argv argc s =
     (let s1 = cli_print e (text @ '': mode = '' @ dec_int (cli_mode s) @ '', transient_mode = ''
                 @ dec_int (cli_transient_mode s)) s;
          s2 = cli_print e ''Identified optargs'' s1;
          s3 = fold (\<lambda>(i, n, v). cli_print e (pad_left 2 (dec_nat i) @ ''  '' @ n @ ''='' @ v))
                 (enumerate 0 (cli_get_all_found_optargs s2)) s2;
          s4 = cli_print e ''Extra args'' s3
      in fold (\<lambda>(i, a). cli_print e (pad_left 2 (dec_nat i) @ '' '' @ a)) (enumerate 0 (take (nat argc) argv)) s4)"

section \<open>Commands from a file\<close>

text \<open>A line up to a comment or its end, without the white space around it.\<close>

definition file_line :: "string \<Rightarrow> string" where
  "file_line buf =
     (let t = dropWhile is_space (takeWhile (\<lambda>c. c \<notin> {CHR ''#'', CHR 0x0D, CHR 0x0A}) buf)
      in rev (dropWhile is_space (rev t)))"

text \<open>The lines as \<open>fgets\<close> delivers them.\<close>

fun run_file :: "'u cli_env \<Rightarrow> string list \<Rightarrow> 'u cli_def \<Rightarrow> 'u cli_def option" where
  "run_file e [] s = Some s"
| "run_file e (buf # bufs) s =
     (let cmd = file_line buf in
      if cmd = [] then run_file e bufs s
      else if strcaseeq cmd ''quit'' then Some s
      else do {
        (rc, s1) \<leftarrow> cli_run_command e cmd s;
        if rc = CLI_QUIT then Some s1 else run_file e bufs s1
      })"

definition cli_file :: "'u cli_env \<Rightarrow> string list \<Rightarrow> int \<Rightarrow> int \<Rightarrow> 'u cli_def \<Rightarrow> (int \<times> 'u cli_def) option" where
  "cli_file e bufs privilege mode s =
     (let (oldpriv, s1) = cli_set_privilege privilege s;
          (oldmode, s2) = cli_set_configmode mode None s1
      in do {
           s3 \<leftarrow> run_file e bufs s2;
           Some (CLI_OK, snd (cli_set_configmode oldmode None (snd (cli_set_privilege oldpriv s3))))
         })"

end
