(* ===== verification/Libcli_Edit.thy ===== *)
theory Libcli_Edit
  imports Libcli_Init
begin

text \<open>
  The line editor of \<open>cli_loop\<close> (\<open>libcli.c\<close> 998-1014, 1052-1067 and 1219-1714): what a character
  read from the client does to the line, the screen and the session.
\<close>

section \<open>The line being edited\<close>

text \<open>
  \<open>ed_cmd\<close> is the whole buffer of 4096 characters; \<open>ed_l\<close> the length of the line and \<open>ed_cursor\<close> the place
  in it. The line a later \<open>strdup(cmd)\<close> sees goes up to the first NUL, which need not be at \<open>ed_l\<close>.
  \<open>ed_esc\<close> and \<open>ed_telnet\<close> hold the character of an escape sequence or telnet command being read.
  \<open>ed_old\<close> is \<open>oldl\<close> while \<open>oldcmd\<close> is set.
\<close>

record 'u edit =
  ed_cmd :: string
  ed_l :: nat
  ed_cursor :: nat
  ed_lastchar :: char
  ed_in_history :: int
  ed_telnet :: nat
  ed_esc :: nat
  ed_old :: "nat option"
  ed_username :: "string option"
  ed_password :: "string option"
  ed_tm :: "int \<times> int"
  ed_cli :: "'u cli_def"

definition cstr :: "string \<Rightarrow> string" where
  "cstr buf = takeWhile (\<lambda>c. c \<noteq> CHR 0x00) buf"

text \<open>Storing characters in the buffer; past its end there is no result.\<close>

definition put :: "nat \<Rightarrow> string \<Rightarrow> string \<Rightarrow> string" where
  "put i t buf = take i buf @ t @ drop (i + length t) buf"

definition put_opt :: "nat \<Rightarrow> string \<Rightarrow> string \<Rightarrow> string option" where
  "put_opt i t buf = (if i + length t \<le> length buf then Some (put i t buf) else None)"

definition zeros :: "nat \<Rightarrow> string" where
  "zeros n = replicate n CHR 0x00"

definition slice :: "nat \<Rightarrow> nat \<Rightarrow> string \<Rightarrow> string" where
  "slice i j buf = take (j - i) (drop i buf)"

section \<open>The screen\<close>

definition sock_write :: "string \<Rightarrow> 'u cli_def \<Rightarrow> 'u cli_def" where
  "sock_write t s = s\<lparr>cli_out := cli_out s @ t\<rparr>"

definition ed_write :: "string \<Rightarrow> 'u edit \<Rightarrow> 'u edit" where
  "ed_write t ed = ed\<lparr>ed_cli := sock_write t (ed_cli ed)\<rparr>"

definition hidden :: "'u edit \<Rightarrow> bool" where
  "hidden ed \<longleftrightarrow> cli_state (ed_cli ed) \<in> {STATE_PASSWORD, STATE_ENABLE_PASSWORD}"

definition no_completion :: "'u edit \<Rightarrow> bool" where
  "no_completion ed \<longleftrightarrow> cli_state (ed_cli ed) \<in> {STATE_LOGIN, STATE_PASSWORD, STATE_ENABLE_PASSWORD}"

text \<open>What is shown while a password is typed is nothing.\<close>

definition ed_echo :: "string \<Rightarrow> 'u edit \<Rightarrow> 'u edit" where
  "ed_echo t ed = (if hidden ed then ed else ed_write t ed)"

definition bell :: string where "bell = [CHR 0x07]"
definition backspaces :: "nat \<Rightarrow> string" where "backspaces n = replicate n CHR 0x08"
definition blanks :: "nat \<Rightarrow> string" where "blanks n = replicate n CHR '' ''"

text \<open>\<open>show_prompt\<close>: a prompt character that is NULL is followed.\<close>

definition prompt_text :: "'u cli_def \<Rightarrow> string option" where
  "prompt_text s =
     map_option (\<lambda>p. (case cli_hostname s of None \<Rightarrow> [] | Some h \<Rightarrow> h) @ (case cli_modestring s of None \<Rightarrow> [] | Some m \<Rightarrow> m)
         @ (case cli_buildmode s of None \<Rightarrow> []
            | Some bm \<Rightarrow> ''['' @ bm_cname bm @ ''...'' @ (case bm_mode_text bm of None \<Rightarrow> [] | Some t \<Rightarrow> t) @ '']'')
         @ p) (cli_promptchar s)"

definition show_prompt :: "'u cli_def \<Rightarrow> 'u cli_def option" where
  "show_prompt s = map_option (\<lambda>t. sock_write t s) (prompt_text s)"

definition ed_prompt :: "'u edit \<Rightarrow> 'u edit option" where
  "ed_prompt ed = map_option (\<lambda>s. ed\<lparr>ed_cli := s\<rparr>) (show_prompt (ed_cli ed))"

text \<open>\<open>cli_clear_line\<close>: back to the start, blanks over the line, back again; the line is zeroed.\<close>

definition cli_clear_line :: "'u edit \<Rightarrow> 'u edit" where
  "cli_clear_line ed =
     (ed_write (backspaces (ed_cursor ed) @ blanks (ed_l ed) @ backspaces (ed_l ed)) ed)
       \<lparr>ed_cmd := put 0 (zeros (ed_l ed)) (ed_cmd ed)\<rparr>"

section \<open>Telnet commands and escape sequences\<close>

text \<open>The result: the character to act on, or nothing to do yet.\<close>

definition telnet_filter :: "char \<Rightarrow> 'u edit \<Rightarrow> char option \<times> 'u edit" where
  "telnet_filter c ed =
     (let n = (of_char c :: nat) in
      if n = 255 \<and> ed_telnet ed = 0 then (None, ed\<lparr>ed_telnet := 1\<rparr>)
      else if ed_telnet ed \<noteq> 0 then
        (if 251 \<le> n \<and> n \<le> 254 then (None, ed\<lparr>ed_telnet := n\<rparr>)
         else if n \<noteq> 255 then (None, ed\<lparr>ed_telnet := 0\<rparr>)
         else (Some c, ed\<lparr>ed_telnet := 0\<rparr>))
      else (Some c, ed))"

definition arrow :: "char \<Rightarrow> char" where
  "arrow c = (if c = CHR ''A'' then CTRL CHR ''P'' else if c = CHR ''B'' then CTRL CHR ''N''
     else if c = CHR ''C'' then CTRL CHR ''F'' else if c = CHR ''D'' then CTRL CHR ''B'' else CHR 0x00)"

definition escape_filter :: "char \<Rightarrow> 'u edit \<Rightarrow> char option \<times> 'u edit" where
  "escape_filter c ed =
     (if ed_esc ed = 0 then (Some c, ed)
      else if ed_esc ed = of_char CHR ''['' then (Some (arrow c), ed\<lparr>ed_esc := 0\<rparr>)
      else (None, ed\<lparr>ed_esc := (if c = CHR ''['' then of_char c else 0)\<rparr>))"

section \<open>Deleting\<close>

text \<open>
  One character to the left of the cursor. In the middle of a line the buffer is moved only when the
  line is shown, but the length and the cursor are always changed.
\<close>

definition erase_char :: "'u edit \<Rightarrow> 'u edit" where
  "erase_char ed =
     (let l = ed_l ed; cur = ed_cursor ed in
      if l = cur then
        (ed_echo ([CHR 0x08] @ '' '' @ [CHR 0x08]) ed)\<lparr>ed_cmd := put (cur - 1) (zeros 1) (ed_cmd ed), ed_cursor := cur - 1, ed_l := l - 1\<rparr>
      else if hidden ed then ed\<lparr>ed_cursor := cur - 1, ed_l := l - 1\<rparr>
      else
        (ed_write ([CHR 0x08] @ slice cur l (ed_cmd ed) @ '' '' @ backspaces (Suc (l - cur))) ed)
          \<lparr>ed_cmd := put (cur - 1) (slice cur l (ed_cmd ed) @ zeros 1) (ed_cmd ed), ed_cursor := cur - 1, ed_l := l - 1\<rparr>)"

fun erase_chars :: "nat \<Rightarrow> 'u edit \<Rightarrow> 'u edit" where
  "erase_chars 0 ed = ed"
| "erase_chars (Suc n) ed = erase_chars n (erase_char ed)"

text \<open>Control-W: the blanks before the cursor and the word before them.\<close>

definition word_back :: "'u edit \<Rightarrow> nat" where
  "word_back ed =
     (let before = rev (take (ed_cursor ed) (ed_cmd ed));
          sp = takeWhile (\<lambda>c. c = CHR '' '') before
      in length sp + length (takeWhile (\<lambda>c. c \<noteq> CHR '' '') (drop (length sp) before)))"

definition key_back :: "char \<Rightarrow> 'u edit \<Rightarrow> 'u edit" where
  "key_back c ed =
     (if c = CTRL CHR ''W'' then
        (if ed_l ed = 0 \<or> ed_cursor ed = 0 then ed else erase_chars (word_back ed) ed)
      else if ed_l ed = 0 \<or> ed_cursor ed = 0 then ed_write bell ed
      else erase_chars 1 ed)"

definition key_clear :: "'u edit \<Rightarrow> 'u edit" where
  "key_clear ed =
     (if hidden ed then ed\<lparr>ed_cmd := put 0 (zeros (ed_l ed)) (ed_cmd ed)\<rparr> else cli_clear_line ed)\<lparr>ed_l := 0, ed_cursor := 0\<rparr>"

definition key_kill :: "'u edit \<Rightarrow> 'u edit" where
  "key_kill ed =
     (let n = ed_l ed - ed_cursor ed in
      if ed_cursor ed = ed_l ed then ed
      else (ed_echo (blanks n @ backspaces n) ed)
        \<lparr>ed_cmd := put (ed_cursor ed) (zeros n) (ed_cmd ed), ed_l := ed_cursor ed\<rparr>)"

section \<open>Completion and help\<close>

text \<open>Back to the start of the word under the cursor.\<close>

definition word_start :: "bool \<Rightarrow> string \<Rightarrow> nat \<Rightarrow> nat" where
  "word_start commas buf l =
     l - length (takeWhile (\<lambda>c. c \<noteq> CHR '' '' \<and> c \<noteq> CHR ''|'' \<and> \<not> (commas \<and> c = CHR '','')) (rev (take l buf)))"

text \<open>The word is replaced by a text, with a blank after it or not.\<close>

definition replace_word :: "bool \<Rightarrow> string \<Rightarrow> bool \<Rightarrow> 'u edit \<Rightarrow> 'u edit option" where
  "replace_word commas text blank ed =
     (let l0 = word_start commas (ed_cmd ed) (ed_l ed);
          shown = text @ (if blank then '' '' else []);
          l1 = l0 + length shown
      in do {
        buf \<leftarrow> put_opt l0 (if blank then text @ zeros 1 else text) (ed_cmd ed);
        Some ((ed_write (backspaces (ed_l ed - l0) @ shown) ed)
          \<lparr>ed_cmd := put l0 shown buf, ed_l := l1, ed_cursor := l1\<rparr>)
      })"

fun show_entries :: "nat \<Rightarrow> string list \<Rightarrow> string" where
  "show_entries i [] = crlf"
| "show_entries i (t # ts) = (if i mod 4 = 0 then crlf else '' '') @ t @ show_entries (Suc i) ts"

text \<open>How far the entries agree; a leading bracket is skipped, and one that starts with \<open><\<close> stops it.\<close>

definition unbracket :: "string \<Rightarrow> string" where
  "unbracket t = (case t of c # cs \<Rightarrow> if c = CHR ''['' then cs else t | [] \<Rightarrow> t)"

definition angle :: "string \<Rightarrow> bool" where
  "angle t \<longleftrightarrow> (case t of c # _ \<Rightarrow> c = CHR ''<'' | [] \<Rightarrow> False)"

fun agree :: "string \<Rightarrow> string \<Rightarrow> nat" where
  "agree (c # cs) (d # ds) = (if c = d then Suc (agree cs ds) else 0)"
| "agree _ _ = 0"

fun common_entry :: "nat \<Rightarrow> string \<Rightarrow> string list \<Rightarrow> nat" where
  "common_entry k t [] = k"
| "common_entry k t (w # ws) =
     (if k = 0 then 0 else common_entry (if angle w then 0 else min k (agree t (unbracket w))) t ws)"

text \<open>
  The tab key. One entry: the word is completed with it unless it is only a hint. Several: the part
  they agree on is filled in; a second tab lists them.
\<close>

definition key_tab :: "'u cli_env \<Rightarrow> 'u edit \<Rightarrow> 'u edit option" where
  "key_tab e ed =
     (if no_completion ed \<or> ed_cursor ed \<noteq> ed_l ed then Some ed
      else do {
        (ch, s) \<leftarrow> cli_get_completions e (cstr (ed_cmd ed)) (CTRL CHR ''I'') comphelp_empty (ed_cli ed);
        let ed1 = ed\<lparr>ed_cli := s\<rparr>;
        let entries = ch_entries ch;
        let tab = CTRL CHR ''I'';
        (case entries of
           [] \<Rightarrow> Some (ed_write bell ed1)
         | t # ts \<Rightarrow>
             if ed_lastchar ed1 = tab then
               Some (let ed2 = ed_write (show_entries 0 entries) ed1 in ed2\<lparr>ed_cli := cli_reprompt (ed_cli ed2)\<rparr>)
             else if ts = [] then
               (if angle t \<or> unbracket t \<noteq> t then Some (ed1\<lparr>ed_lastchar := tab\<rparr>)
                else map_option (\<lambda>d. d\<lparr>ed_lastchar := CHR 0x00\<rparr>) (replace_word (ch_comma_separated ch) t True ed1))
             else
               (let k = common_entry (if angle t then 0 else length t) (unbracket t) ts;
                    ed2 = ed1\<lparr>ed_lastchar := tab\<rparr>; z = last entries
                in if k \<noteq> 0 \<and> unbracket z = z
                   then replace_word (ch_comma_separated ch) (take k (unbracket t)) False ed2
                   else Some (ed_write bell ed2)))
      })"

text \<open>
  The question mark at the end of the line. The result says whether it was dealt with; a command
  without options leaves it to be typed into the line.
\<close>

definition key_help :: "'u cli_env \<Rightarrow> 'u edit \<Rightarrow> (bool \<times> 'u edit) option" where
  "key_help e ed =
     (if no_completion ed then Some (True, ed)
      else do {
        (ch, s) \<leftarrow> cli_get_completions e (cstr (ed_cmd ed)) CHR ''?'' comphelp_empty (ed_cli ed);
        let ed1 = ed\<lparr>ed_cli := s\<rparr>;
        if ch_num_entries ch = 0 then Some (True, ed_write bell ed1)
        else if 0 < ch_num_entries ch then
          (let s1 = sock_write crlf (cli_reprompt s);
               s2 = fold (cli_error e) (ch_entries ch) s1;
               show_cr = (\<forall>t \<in> set (ch_entries ch). 2 < length t \<and> t ! 2 = CHR ''['')
           in Some (True, ed1\<lparr>ed_cli := if show_cr then cli_error e ''  <cr>'' s2 else s2\<rparr>))
        else Some (False, ed1)
      })"

section \<open>History and cursor\<close>

definition history_pick :: "char \<Rightarrow> 'u edit \<Rightarrow> int \<times> bool" where
  "history_pick c ed =
     (let n = int (length (cli_hist (ed_cli ed))) in
      if c = CTRL CHR ''P'' then
        (let i = ed_in_history ed - 1 in if i < 0 then (n - 1, 0 < n) else (i, i < n))
      else
        (let i = ed_in_history ed + 1 in
         if int MAX_HISTORY \<le> i \<or> n \<le> i then (if 0 < n then (0, True) else (i, False)) else (i, True)))"

definition key_history :: "char \<Rightarrow> 'u edit \<Rightarrow> 'u edit" where
  "key_history c ed =
     (if no_completion ed then ed
      else
        (let (i, found) = history_pick c ed; ed1 = ed\<lparr>ed_in_history := i\<rparr> in
         if found then
           (let text = take (CLI_MAX_LINE_LENGTH - 1) (cli_hist (ed_cli ed) ! nat i);
                ed2 = cli_clear_line ed1
            in (ed_write text ed2)\<lparr>ed_cmd := put 0 text (zeros CLI_MAX_LINE_LENGTH), ed_l := length text, ed_cursor := length text\<rparr>)
         else ed1))"

definition key_left :: "'u edit \<Rightarrow> 'u edit" where
  "key_left ed = (if ed_cursor ed = 0 then ed else (ed_echo [CHR 0x08] ed)\<lparr>ed_cursor := ed_cursor ed - 1\<rparr>)"

definition key_right :: "'u edit \<Rightarrow> 'u edit" where
  "key_right ed =
     (if ed_cursor ed < ed_l ed
      then (ed_echo (slice (ed_cursor ed) (Suc (ed_cursor ed)) (ed_cmd ed)) ed)\<lparr>ed_cursor := Suc (ed_cursor ed)\<rparr> else ed)"

definition key_home :: "'u edit \<Rightarrow> 'u edit option" where
  "key_home ed =
     (if ed_cursor ed = 0 then Some ed
      else do {
        ed1 \<leftarrow> (if hidden ed then Some ed else ed_prompt (ed_write [CHR 0x0D] ed));
        Some (ed1\<lparr>ed_cursor := 0\<rparr>)
      })"

definition key_end :: "'u edit \<Rightarrow> 'u edit" where
  "key_end ed =
     (if ed_cursor ed < ed_l ed then (ed_echo (slice (ed_cursor ed) (ed_l ed) (ed_cmd ed)) ed)\<lparr>ed_cursor := ed_l ed\<rparr> else ed)"

definition key_redraw :: "'u edit \<Rightarrow> 'u edit option" where
  "key_redraw ed =
     (if hidden ed then Some ed
      else do {
        ed1 \<leftarrow> ed_prompt (ed_write crlf ed);
        Some (ed_write (slice 0 (ed_l ed) (ed_cmd ed) @ backspaces (ed_l ed - ed_cursor ed)) ed1)
      })"

text \<open>Control-Z: back to the exec mode, out of build mode.\<close>

definition key_disable :: "'u edit \<Rightarrow> 'u edit" where
  "key_disable ed =
     (if cli_mode (ed_cli ed) = MODE_EXEC then ed
      else
        (let ed1 = cli_clear_line (ed\<lparr>ed_cli := cli_int_free_buildmode (ed_cli ed)\<rparr>)
         in ed1\<lparr>ed_cli := cli_reprompt (snd (cli_set_configmode MODE_EXEC None (ed_cli ed1))), ed_l := 0, ed_cursor := 0\<rparr>))"

section \<open>A character of the line\<close>

definition insert_char :: "char \<Rightarrow> 'u edit \<Rightarrow> 'u edit option" where
  "insert_char c ed =
     (let l = ed_l ed; cur = ed_cursor ed in
      if cur = l then
        (if l < CLI_MAX_LINE_LENGTH - 1
         then Some (ed\<lparr>ed_cmd := put cur [c] (ed_cmd ed), ed_l := Suc l, ed_cursor := Suc cur\<rparr>)
         else None)
      else
        (let buf = put cur (c # slice cur l (ed_cmd ed)) (ed_cmd ed);
             full = (l = CLI_MAX_LINE_LENGTH - 1);
             l1 = (if full then l else Suc l);
             buf1 = (if full then put l (zeros 1) buf else buf)
         in Some ((ed_write (slice cur l1 buf1 @ backspaces (l1 - cur)) ed)
              \<lparr>ed_cmd := buf1, ed_l := l1, ed_cursor := Suc cur\<rparr>)))"

text \<open>How a character ends: the next one is read, the line is complete, or the session is over.\<close>

datatype key_end = Again | Entered | Closed

definition key_plain :: "char \<Rightarrow> 'u edit \<Rightarrow> key_end \<times> 'u edit" where
  "key_plain c ed =
     (case insert_char c ed of
        None \<Rightarrow> (Again, (ed_write bell ed)\<lparr>ed_cmd := put (ed_cursor ed) (zeros 1) (ed_cmd ed)\<rparr>)
      | Some ed1 \<Rightarrow>
          if \<not> hidden ed1 \<and> c = CHR ''?'' \<and> ed_cursor ed1 = ed_l ed1
          then (Entered, (ed_write crlf ed1)\<lparr>ed_old := Some (ed_l ed1 - 1), ed_cursor := ed_l ed1 - 1\<rparr>)
          else (Again, (ed_echo [c] ed1)\<lparr>ed_old := None, ed_lastchar := c\<rparr>))"

text \<open>The character after telnet and escape sequences are taken out.\<close>

definition key_char :: "'u cli_env \<Rightarrow> char \<Rightarrow> 'u edit \<Rightarrow> (key_end \<times> 'u edit) option" where
  "key_char e c ed =
     (if c = CHR 0x00 \<or> c = CHR 0x0A then Some (Again, ed)
      else if c = CHR 0x0D then Some (Entered, ed_echo crlf ed)
      else if c = CHR 0x1B then Some (Again, ed\<lparr>ed_esc := 1\<rparr>)
      else if c = CTRL CHR ''C'' then Some (Again, ed_write bell ed)
      else if c = CTRL CHR ''W'' \<or> c = CTRL CHR ''H'' \<or> c = CHR 0x7F then Some (Again, key_back c ed)
      else if c = CTRL CHR ''L'' then map_option (\<lambda>d. (Again, d)) (key_redraw ed)
      else if c = CTRL CHR ''U'' then Some (Again, key_clear ed)
      else if c = CTRL CHR ''K'' then Some (Again, key_kill ed)
      else if c = CTRL CHR ''D'' then Some (if hidden ed then Entered else if ed_l ed \<noteq> 0 then Again else Closed, ed)
      else if c = CTRL CHR ''Z'' then Some (Again, key_disable ed)
      else if c = CTRL CHR ''I'' then map_option (\<lambda>d. (Again, d)) (key_tab e ed)
      else do {
        (dealt, ed1) \<leftarrow> (if c = CHR ''?'' \<and> ed_cursor ed = ed_l ed then key_help e ed else Some (False, ed));
        if dealt then Some (Again, ed1)
        else if c = CTRL CHR ''P'' \<or> c = CTRL CHR ''N'' then Some (Again, key_history c ed1)
        else if c = CTRL CHR ''B'' then Some (Again, key_left ed1)
        else if c = CTRL CHR ''F'' then Some (Again, key_right ed1)
        else if c = CTRL CHR ''A'' then map_option (\<lambda>d. (Again, d)) (key_home ed1)
        else if c = CTRL CHR ''E'' then Some (Again, key_end ed1)
        else Some (key_plain c ed1)
      })"

definition edit_key :: "'u cli_env \<Rightarrow> char \<Rightarrow> 'u edit \<Rightarrow> (key_end \<times> 'u edit) option" where
  "edit_key e c ed =
     (case telnet_filter c ed of
        (None, ed1) \<Rightarrow> Some (Again, ed1)
      | (Some c1, ed1) \<Rightarrow>
          (case escape_filter c1 ed1 of
             (None, ed2) \<Rightarrow> Some (Again, ed2)
           | (Some c2, ed2) \<Rightarrow> key_char e c2 ed2))"

end
