(* ===== verification/Libcli_Loop.thy ===== *)
theory Libcli_Loop
  imports Libcli_Edit
begin

text \<open>
  The session: \<open>cli_loop\<close> (\<open>libcli.c\<close> 1069-1220 and 1716-1819). The inner loop reads characters until a
  line is complete; the outer loop acts on the line according to the state of the session: user
  name, password, command, enable password.
\<close>

section \<open>Waiting for a character\<close>

text \<open>
  \<open>loop_head\<close> is the start of a round of the inner loop: modes reset, the prompt shown when it is due.
\<close>

definition state_prompt :: "'u edit \<Rightarrow> 'u edit option" where
  "state_prompt ed =
     (case cli_state (ed_cli ed) of
        STATE_LOGIN \<Rightarrow> Some (ed_write ''Username: '' ed)
      | STATE_PASSWORD \<Rightarrow> Some (ed_write ''Password: '' ed)
      | STATE_ENABLE_PASSWORD \<Rightarrow> Some (ed_write ''Password: '' ed)
      | _ \<Rightarrow> map_option (ed_write (slice 0 (ed_l ed) (ed_cmd ed) @ backspaces (ed_l ed - ed_cursor ed))) (ed_prompt ed))"

definition loop_head :: "'u edit \<Rightarrow> 'u edit option" where
  "loop_head ed =
     (let s = ed_cli ed;
          ed0 = ed\<lparr>ed_cli := s\<lparr>cli_transient_mode := cli_mode s, cli_disallow_buildmode := (cli_buildmode s \<noteq> None)\<rparr>\<rparr>
      in if cli_showprompt s
         then map_option (\<lambda>d. d\<lparr>ed_cli := (ed_cli d)\<lparr>cli_showprompt := False\<rparr>\<rparr>) (state_prompt (ed_echo crlf ed0))
         else Some ed0)"

definition with_cli :: "'u edit \<Rightarrow> 'u cli_def \<Rightarrow> 'u edit" where
  "with_cli ed s = ed\<lparr>ed_cli := s\<rparr>"

text \<open>The regular callback, when its time has come. \<open>False\<close>: it ended the session.\<close>

definition regular_step :: "'u cli_env \<Rightarrow> 'u cli_def \<Rightarrow> bool \<times> 'u cli_def" where
  "regular_step e s =
     (case cli_regular_callback s of
        None \<Rightarrow> (True, s)
      | Some f \<Rightarrow>
          (case cli_time e s of (now, s1) \<Rightarrow>
             if cli_timeout_sec s1 \<le> now - cli_last_regular s1 then
               (case env_regular e f s1 of (rc, s2) \<Rightarrow>
                  if rc \<noteq> CLI_OK then (False, s2)
                  else (case cli_time e s2 of (t, s3) \<Rightarrow> (True, s3\<lparr>cli_last_regular := t\<rparr>)))
             else (True, s1)))"

definition call_idle :: "'u cli_env \<Rightarrow> idle_fn \<Rightarrow> 'u cli_def \<Rightarrow> int \<times> 'u cli_def" where
  "call_idle e f s = (case f of Int_idle_timeout \<Rightarrow> cli_int_idle_timeout e s | App_idle g \<Rightarrow> env_idle e g s)"

text \<open>No input in time: \<open>False\<close> when the session has been idle for too long.\<close>

definition idle_step :: "'u cli_env \<Rightarrow> 'u edit \<Rightarrow> bool \<times> 'u edit" where
  "idle_step e ed =
     (let s = ed_cli ed; rest = (\<lambda>t. (True, (with_cli ed t)\<lparr>ed_tm := (cli_timeout_sec t, cli_timeout_usec t)\<rparr>)) in
      if cli_idle_timeout s = 0 then rest s
      else (case cli_time e s of (now, s1) \<Rightarrow>
        if now - cli_last_action s1 < cli_idle_timeout s1 then rest s1
        else (case cli_idle_callback s1 of
            None \<Rightarrow> (False, with_cli ed s1)
          | Some f \<Rightarrow>
              (case call_idle e f s1 of (rc, s2) \<Rightarrow>
                 if rc = CLI_OK then (case cli_time e s2 of (t, s3) \<Rightarrow> (True, with_cli ed (s3\<lparr>cli_last_action := t\<rparr>)))
                 else (False, with_cli ed s2)))))"

definition note_action :: "'u cli_env \<Rightarrow> 'u cli_def \<Rightarrow> 'u cli_def" where
  "note_action e s =
     (if cli_idle_timeout s = 0 then s else (case cli_time e s of (t, s1) \<Rightarrow> s1\<lparr>cli_last_action := t\<rparr>))"

text \<open>\<open>cli_socket_wait\<close> and \<open>read\<close>. An interrupted call is made again in the next round.\<close>

datatype waited = Char char | Nothing | Lost

definition cli_socket_wait :: "'u cli_env \<Rightarrow> int \<times> int \<Rightarrow> 'u cli_def \<Rightarrow> (int \<times> int \<times> int) \<times> 'u cli_def" where
  "cli_socket_wait e tm s = (case env_select e (fst tm) (snd tm) (cli_app s) of (r, u) \<Rightarrow> (r, s\<lparr>cli_app := u\<rparr>))"

definition wait_char :: "'u cli_env \<Rightarrow> 'u edit \<Rightarrow> waited \<times> 'u edit" where
  "wait_char e ed =
     (case cli_socket_wait e (ed_tm ed) (ed_cli ed) of ((sr, tm), s1) \<Rightarrow>
        (let ed1 = (with_cli ed s1)\<lparr>ed_tm := tm\<rparr> in
         if sr < 0 then (if env_eintr e (cli_app s1) then Nothing else Lost, ed1)
         else if sr = 0 then (case idle_step e ed1 of (ok, ed2) \<Rightarrow> (if ok then Nothing else Lost, ed2))
         else (case env_read e (cli_app s1) of ((n, c), u) \<Rightarrow>
             (let s2 = s1\<lparr>cli_app := u\<rparr> in
              if n < 0 then (if env_eintr e u then Nothing else Lost, with_cli ed1 s2)
              else (let s3 = note_action e s2 in (if n = 0 then Lost else Char c, with_cli ed1 s3))))))"

definition inner_round :: "'u cli_env \<Rightarrow> 'u edit \<Rightarrow> (key_end \<times> 'u edit) option" where
  "inner_round e ed = do {
     ed0 \<leftarrow> loop_head ed;
     (case regular_step e (ed_cli ed0) of
        (False, s1) \<Rightarrow> Some (Closed, with_cli ed0 s1)
      | (True, s1) \<Rightarrow>
          (case wait_char e (with_cli ed0 s1) of
             (Nothing, ed1) \<Rightarrow> Some (Again, ed1)
           | (Lost, ed1) \<Rightarrow> Some (Closed, ed1)
           | (Char c, ed1) \<Rightarrow> edit_key e c ed1))
   }"

section \<open>A complete line\<close>

text \<open>How the outer loop goes on.\<close>

datatype line_end = More | Finished | Returned

definition line_login :: "'u edit \<Rightarrow> line_end \<times> 'u edit" where
  "line_login ed =
     (if ed_l ed = 0 then (More, ed)
      else (case cli_strdup (cstr (ed_cmd ed)) (ed_cli ed) of
          (None, s1) \<Rightarrow> (Returned, (with_cli ed s1)\<lparr>ed_username := None\<rparr>)
        | (Some u, s1) \<Rightarrow> (More, (with_cli ed (cli_reprompt (s1\<lparr>cli_state := STATE_PASSWORD\<rparr>)))\<lparr>ed_username := Some u\<rparr>)))"

text \<open>The callback of the application is asked first, then the list of users.\<close>

definition login_allowed :: "'u cli_env \<Rightarrow> string \<Rightarrow> string \<Rightarrow> 'u cli_def \<Rightarrow> bool \<times> 'u cli_def" where
  "login_allowed e username password s =
     (let (ok, s1) = (case cli_auth_callback s of None \<Rightarrow> (False, s)
            | Some f \<Rightarrow> (case env_auth e f username password s of (rc, t) \<Rightarrow> (rc = CLI_OK, t)))
      in (ok \<or> (\<exists>(u, p) \<in> set (cli_users s1). u = username \<and> pass_matches e p password), s1))"

definition line_password :: "'u cli_env \<Rightarrow> 'u edit \<Rightarrow> line_end \<times> 'u edit" where
  "line_password e ed =
     (case cli_strdup (cstr (ed_cmd ed)) (ed_cli ed) of
        (None, s1) \<Rightarrow> (Returned, (with_cli ed s1)\<lparr>ed_password := None\<rparr>)
      | (Some pw, s1) \<Rightarrow>
          (case login_allowed e (null_text (ed_username ed)) pw s1 of
             (True, s2) \<Rightarrow> (More, (with_cli ed (cli_reprompt ((cli_error e '' '' s2)\<lparr>cli_state := STATE_NORMAL\<rparr>)))
                  \<lparr>ed_password := Some pw\<rparr>)
           | (False, s2) \<Rightarrow> (More, (with_cli ed (cli_reprompt
                  ((cli_error e ([CHR 0x0A, CHR 0x0A] @ ''Access denied'') s2)\<lparr>cli_state := STATE_LOGIN\<rparr>)))
                  \<lparr>ed_username := None, ed_password := None\<rparr>)))"

text \<open>The callback allows the mode with any result but zero.\<close>

definition enable_allowed :: "'u cli_env \<Rightarrow> string \<Rightarrow> 'u cli_def \<Rightarrow> bool \<times> 'u cli_def" where
  "enable_allowed e password s =
     (if (case cli_enable_password s of None \<Rightarrow> False | Some p \<Rightarrow> pass_matches e p password) then (True, s)
      else (case cli_enable_callback s of None \<Rightarrow> (False, s)
          | Some f \<Rightarrow> (case env_enable e f password s of (rc, t) \<Rightarrow> (rc \<noteq> 0, t))))"

definition line_enable :: "'u cli_env \<Rightarrow> 'u edit \<Rightarrow> line_end \<times> 'u edit" where
  "line_enable e ed =
     (case enable_allowed e (cstr (ed_cmd ed)) (ed_cli ed) of
        (True, s1) \<Rightarrow> (More, with_cli ed (snd (cli_set_privilege PRIVILEGE_PRIVILEGED (s1\<lparr>cli_state := STATE_ENABLE\<rparr>))))
      | (False, s1) \<Rightarrow> (More, with_cli ed
          ((cli_error e ([CHR 0x0A, CHR 0x0A] @ ''Access denied'') s1)\<lparr>cli_state := STATE_NORMAL\<rparr>)))"

text \<open>A command; what its result means for build mode. A build mode that is gone is followed.\<close>

definition command_result :: "'u cli_env \<Rightarrow> int \<Rightarrow> 'u cli_def \<Rightarrow> ((bool \<times> int) \<times> 'u cli_def) option" where
  "command_result e rc s =
     (if rc = CLI_BUILDMODE_ERROR then do {
        bm \<leftarrow> cli_buildmode s;
        Some ((False, rc), cli_int_free_buildmode (cli_print e (''Failure entering build mode for '' @ [CHR 0x27] @ bm_cname bm @ [CHR 0x27]) s))
      }
      else if rc = CLI_BUILDMODE_CANCEL then do {
        bm \<leftarrow> cli_buildmode s;
        Some ((True, rc), cli_int_free_buildmode (cli_print e (''Canceling build mode for '' @ [CHR 0x27] @ bm_cname bm @ [CHR 0x27]) s))
      }
      else if rc = CLI_BUILDMODE_EXIT then do {
        bm \<leftarrow> cli_buildmode s;
        (rc1, s1) \<leftarrow> cli_int_execute_buildmode e (s\<lparr>cli_found_optargs := bm_found_optargs bm\<rparr>);
        Some ((True, rc1), s1)
      }
      else Some ((True, rc), s))"

definition line_command :: "'u cli_env \<Rightarrow> 'u edit \<Rightarrow> (line_end \<times> 'u edit) option" where
  "line_command e ed =
     (if ed_l ed = 0 then Some (More, ed)
      else
        (let cmd = cstr (ed_cmd ed);
             s0 = (if ed_cmd ed ! (ed_l ed - 1) \<noteq> CHR ''?'' \<and> \<not> strcaseeq cmd ''history''
                   then snd (cli_add_history cmd (ed_cli ed)) else ed_cli ed)
         in do {
              (rc, s1) \<leftarrow> cli_run_command e cmd s0;
              ((to_end, rc1), s2) \<leftarrow> command_result e rc s1;
              Some (if to_end \<and> rc1 = CLI_QUIT then (Finished, with_cli ed s2)
                else (More, with_cli ed (if to_end then note_action e s2 else s2)))
            }))"

text \<open>
  After a line the time of the last action is set, except where the code continues at once: an empty
  line and a failure to enter build mode.
\<close>

definition line_done :: "'u cli_env \<Rightarrow> line_end \<times> 'u edit \<Rightarrow> line_end \<times> 'u edit" where
  "line_done e r = (case r of (x, ed) \<Rightarrow> (x, if x = More then with_cli ed (note_action e (ed_cli ed)) else ed))"

definition line_entered :: "'u cli_env \<Rightarrow> 'u edit \<Rightarrow> (line_end \<times> 'u edit) option" where
  "line_entered e ed =
     (case cli_state (ed_cli ed) of
        STATE_LOGIN \<Rightarrow> Some (if ed_l ed = 0 then (More, ed) else line_done e (line_login ed))
      | STATE_PASSWORD \<Rightarrow> Some (line_done e (line_password e ed))
      | STATE_ENABLE_PASSWORD \<Rightarrow> Some (line_done e (line_enable e ed))
      | _ \<Rightarrow> line_command e ed)"

section \<open>The loops\<close>

text \<open>The start of a round of the outer loop: an old line is kept up to its question mark.\<close>

definition next_line :: "'u edit \<Rightarrow> 'u edit" where
  "next_line ed =
     (let s = (ed_cli ed)\<lparr>cli_showprompt := True\<rparr>;
          ed0 = ed\<lparr>ed_cli := s, ed_lastchar := CHR 0x00, ed_in_history := 0,
                  ed_tm := (cli_timeout_sec s, cli_timeout_usec s), ed_old := None\<rparr>
      in case ed_old ed of
           Some l \<Rightarrow> ed0\<lparr>ed_cmd := put l (zeros 1) (ed_cmd ed), ed_l := l, ed_cursor := l\<rparr>
         | None \<Rightarrow> ed0\<lparr>ed_cmd := zeros CLI_MAX_LINE_LENGTH, ed_l := 0, ed_cursor := 0\<rparr>)"

text \<open>One round of either loop; \<open>None\<close> in the second place: the session goes on.\<close>

definition session_step :: "'u cli_env \<Rightarrow> 'u edit \<Rightarrow> (line_end \<times> 'u edit) option" where
  "session_step e ed = do {
     (k, ed1) \<leftarrow> inner_round e ed;
     (case k of
        Again \<Rightarrow> Some (More, ed1)
      | Closed \<Rightarrow> Some (Finished, ed1)
      | Entered \<Rightarrow> map_option (\<lambda>(x, d). (x, if x = More then next_line d else d)) (line_entered e ed1))
   }"

partial_function (option) session_loop :: "'u cli_env \<Rightarrow> 'u edit \<Rightarrow> (line_end \<times> 'u edit) option" where
  "session_loop e ed = do {
     (x, ed1) \<leftarrow> session_step e ed;
     if x = More then session_loop e ed1 else Some (x, ed1)
   }"

definition FD_SETSIZE :: int where "FD_SETSIZE = 1024"

text \<open>The telnet options offered: echo and suppressing go-ahead, both ways.\<close>

definition negotiate :: string where
  "negotiate = [CHR 0xFF, CHR 0xFB, CHR 0x03, CHR 0xFF, CHR 0xFB, CHR 0x01,
                CHR 0xFF, CHR 0xFD, CHR 0x03, CHR 0xFF, CHR 0xFD, CHR 0x01]"

definition session_start :: "'u cli_env \<Rightarrow> 'u cli_def \<Rightarrow> 'u edit" where
  "session_start e s =
     (let s1 = (case cli_banner s of None \<Rightarrow> s | Some b \<Rightarrow> cli_error e b s);
          s2 = note_action e s1;
          s3 = (if cli_regular_callback s2 = None then s2
                else (case cli_time e s2 of (t, u) \<Rightarrow> u\<lparr>cli_last_regular := t\<rparr>));
          s4 = snd (cli_set_configmode MODE_EXEC None (snd (cli_set_privilege PRIVILEGE_UNPRIVILEGED s3)));
          s5 = (if cli_users s4 = [] \<and> cli_auth_callback s4 = None then s4\<lparr>cli_state := STATE_NORMAL\<rparr> else s4)
      in next_line \<lparr>ed_cmd = [], ed_l = 0, ed_cursor = 0, ed_lastchar = CHR 0x00, ed_in_history = 0, ed_telnet = 0,
           ed_esc = 0, ed_old = None, ed_username = None, ed_password = None, ed_tm = (0, 0), ed_cli = s5\<rparr>)"

text \<open>The steps before the session; two allocations, the line and the stream.\<close>

definition loop_prepare :: "'u cli_def \<Rightarrow> bool \<times> 'u cli_def" where
  "loop_prepare s =
     (let s1 = cli_free_history ((cli_build_shortest s)\<lparr>cli_state := STATE_LOGIN\<rparr>)
      in cli_allocs 2 (if cli_telnet s1 then sock_write negotiate s1 else s1))"

definition cli_loop :: "'u cli_env \<Rightarrow> int \<Rightarrow> 'u cli_def \<Rightarrow> (int \<times> 'u cli_def) option" where
  "cli_loop e sockfd s =
     (case loop_prepare s of
        (False, s1) \<Rightarrow> Some (CLI_ERROR, s1)
      | (True, s1) \<Rightarrow>
          (let s2 = s1\<lparr>cli_client := True\<rparr> in
           if FD_SETSIZE \<le> sockfd then
             Some (CLI_ERROR, cli_error e (''CLI_LOOP() called with sockfd > FD_SETSIZE - exiting cli_loop'' @ [CHR 0x0A]) s2)
           else do {
             (x, ed) \<leftarrow> session_loop e (session_start e s2);
             Some (CLI_OK, if x = Returned then ed_cli ed else (cli_free_history (ed_cli ed))\<lparr>cli_client := False\<rparr>)
           }))"

end
