(* ===== verification/Server_Cli.thy ===== *)
theory Server_Cli
  imports Server Libcli_Loop
begin

text \<open>
  The command line of the server, \<open>wlan_br_server/cli.c\<close>: its commands, the session of a client
  (\<open>run_child\<close>) and the thread that accepts clients. A command works on the state of the bridge
  directly; that the bridge thread runs at the same time is not modelled.
\<close>

section \<open>State\<close>

text \<open>The state of the program, and the variables of \<open>cli.c\<close> and \<open>log_level\<close>.\<close>

record 'm cli_app =
  app_main :: 'm
  app_regular_count :: u32
  app_debug_regular :: u32
  app_log_level :: int

type_synonym 'm app_cli = "'m cli_app cli_def"

definition CLITEST_PORT :: u16 where "CLITEST_PORT = 8000"
definition MODE_CONFIG_INT :: int where "MODE_CONFIG_INT = 10"

section \<open>Commands of both programs\<close>

definition cmd_test :: "'u cli_env \<Rightarrow> string \<Rightarrow> string list \<Rightarrow> int \<Rightarrow> 'u cli_def \<Rightarrow> int \<times> 'u cli_def" where
  "cmd_test e command argv argc s =
     (let s1 = cli_print e (''called cmd_test with '' @ quoted command) s;
          s2 = cli_print e (dec_int argc @ '' arguments:'') s1
      in (CLI_OK, fold (\<lambda>a. cli_print e (''        '' @ a)) (take (nat argc) argv) s2))"

text \<open>The test of \<open>argv[1]\<close> inside is never true: it asks for a NULL pointer to an empty string.\<close>

definition cmd_set :: "'u cli_env \<Rightarrow> string list \<Rightarrow> int \<Rightarrow> 'u cli_def \<Rightarrow> (int \<times> 'u cli_def) option" where
  "cmd_set e argv argc s =
     (if argc < 2 then Some (CLI_OK, cli_print e ''Specify a variable to set'' s)
      else do {
        name \<leftarrow> word_at argv 0;
        val \<leftarrow> word_at argv 1;
        Some (CLI_OK,
          if name = ''?'' then cli_print e ''Specify a variable to set'' s
          else if val = ''?'' then cli_print e ''Specify a value'' s
          else if name = ''regular_interval'' then
            (let sec = (case scan_u32 val of None \<Rightarrow> 0 | Some x \<Rightarrow> x) in
             if sec < 1 then cli_print e ''Specify a regular callback interval in seconds'' s
             else cli_print e (''Regular callback interval is now '' @ dec_int (sint sec) @ '' seconds'')
                    (s\<lparr>cli_timeout_sec := uint sec, cli_timeout_usec := 0\<rparr>))
          else cli_print e (''Setting '' @ quoted name @ '' to '' @ quoted val) s)
      })"

definition cmd_config_int_exit :: "'u cli_def \<Rightarrow> int \<times> 'u cli_def" where
  "cmd_config_int_exit s = (CLI_OK, snd (cli_set_configmode MODE_CONFIG None s))"

definition check_auth :: "string \<Rightarrow> string \<Rightarrow> int" where
  "check_auth username password =
     (if \<not> strcaseeq username ''admin'' then CLI_ERROR
      else if \<not> strcaseeq password ''admin'' then CLI_ERROR else CLI_OK)"

definition regular_callback :: "'m cli_app cli_env \<Rightarrow> 'm app_cli \<Rightarrow> int \<times> 'm app_cli" where
  "regular_callback e s =
     (let s1 = s\<lparr>cli_app := (cli_app s)\<lparr>app_regular_count := app_regular_count (cli_app s) + 1\<rparr>\<rparr>
      in (CLI_OK,
          if app_debug_regular (cli_app s1) \<noteq> 0
          then cli_reprompt (cli_print e (''Regular callback - '' @ dec_nat (unat (app_regular_count (cli_app s1)))
                 @ '' times so far'') s1)
          else s1))"

definition check_enable :: "string \<Rightarrow> int" where
  "check_enable password = (if strcaseeq password ''admin'' then 1 else 0)"

definition idle_timeout :: "'u cli_env \<Rightarrow> 'u cli_def \<Rightarrow> int \<times> 'u cli_def" where
  "idle_timeout e s = (CLI_QUIT, cli_print e ''Custom idle timeout'' s)"

definition epoll_stat_line :: "epoll_stat_info \<Rightarrow> string" where
  "epoll_stat_line st =
     ''epoll recv: '' @ pad_right 15 (dec_nat (unat (epool_recv st))) @ '' timeout: ''
     @ pad_right 15 (dec_nat (unat (epoll_timeout st))) @ '' error: '' @ dec_nat (unat (epoll_error st))"

fun is_number :: "string \<Rightarrow> bool" where
  "is_number [] = True"
| "is_number (c # cs) = (if \<not> is_digit c then False else is_number cs)"

text \<open>\<open>cmd_set_log_level\<close> after its \<open>memset\<close>.\<close>

definition set_log_level :: "'m cli_app cli_env \<Rightarrow> string list \<Rightarrow> int \<Rightarrow> 'm app_cli \<Rightarrow> int \<times> 'm app_cli" where
  "set_log_level e argv argc s =
     (let bad = (CLI_ERROR, cli_print e ''[Error] please input log level.(1: info, 2: debug)'' s) in
      if argc < 1 then bad
      else (case argv of
          [] \<Rightarrow> bad
        | a # _ \<Rightarrow>
            if \<not> is_number a then bad
            else
              (let s1 = s\<lparr>cli_app := (cli_app s)\<lparr>app_log_level := atoi a\<rparr>\<rparr>
               in (CLI_OK, cli_print e ('' set log level '' @ dec_int (atoi a) @ '' success.'') s1))))"

definition cli_print_fn :: "'u cli_env \<Rightarrow> string list \<Rightarrow> 'u cli_def \<Rightarrow> 'u cli_def" where
  "cli_print_fn e lines s = fold (cli_print e) lines s"

section \<open>Commands of the server\<close>

definition set_server :: "('w server \<Rightarrow> 'w server) \<Rightarrow> 'w server app_cli \<Rightarrow> 'w server app_cli" where
  "set_server f s = s\<lparr>cli_app := (cli_app s)\<lparr>app_main := f (app_main (cli_app s))\<rparr>\<rparr>"

definition cmd_show_epoll_stat :: "'w server cli_app cli_env \<Rightarrow> 'w server app_cli \<Rightarrow> int \<times> 'w server app_cli" where
  "cmd_show_epoll_stat e s = (CLI_OK, cli_print e (epoll_stat_line (sv_stat (app_main (cli_app s)))) s)"

definition cmd_clean_epoll_stat :: "'w server cli_app cli_env \<Rightarrow> 'w server app_cli \<Rightarrow> int \<times> 'w server app_cli" where
  "cmd_clean_epoll_stat e s = (CLI_OK, cli_print e ''clean success.'' (set_server (\<lambda>m. m\<lparr>sv_stat := epoll_stat_zero\<rparr>) s))"

text \<open>The counters of epoll are cleared here too.\<close>

definition cmd_set_log_level ::
  "'w server cli_app cli_env \<Rightarrow> string list \<Rightarrow> int \<Rightarrow> 'w server app_cli \<Rightarrow> int \<times> 'w server app_cli" where
  "cmd_set_log_level e argv argc s = set_log_level e argv argc (set_server (\<lambda>m. m\<lparr>sv_stat := epoll_stat_zero\<rparr>) s)"

definition cmd_show_fdb_list :: "'w server cli_app cli_env \<Rightarrow> 'w server app_cli \<Rightarrow> (int \<times> 'w server app_cli) option" where
  "cmd_show_fdb_list e s =
     map_option (\<lambda>lines. (CLI_OK, cli_print_fn e lines s)) (wlan_br_dump_fdb (sv_bridge (app_main (cli_app s))))"

definition cmd_show_ip_stat :: "'w os \<Rightarrow> 'w server cli_app cli_env \<Rightarrow> 'w server app_cli \<Rightarrow> int \<times> 'w server app_cli" where
  "cmd_show_ip_stat os e s =
     (let b = sv_bridge (app_main (cli_app s));
          (lines, h, w) = wlan_ip_dump_static os (br_stats b) (br_world b)
      in (CLI_OK, cli_print_fn e lines
            (set_server (\<lambda>m. m\<lparr>sv_bridge := b\<lparr>br_stats := h, br_world := w\<rparr>\<rparr>) s)))"

text \<open>The functions behind the names the session's pointers carry.\<close>

definition server_command ::
  "'w os \<Rightarrow> 'w server cli_app cli_env \<Rightarrow> string \<Rightarrow> string \<Rightarrow> string list \<Rightarrow> int \<Rightarrow> 'w server app_cli
     \<Rightarrow> (int \<times> 'w server app_cli) option" where
  "server_command os e f name argv argc s =
     (if f = ''cmd_test'' then Some (cmd_test e name argv argc s)
      else if f = ''cmd_set'' then cmd_set e argv argc s
      else if f = ''cmd_config_int_exit'' then Some (cmd_config_int_exit s)
      else if f = ''cmd_show_epoll_stat'' then Some (cmd_show_epoll_stat e s)
      else if f = ''cmd_clean_epoll_stat'' then Some (cmd_clean_epoll_stat e s)
      else if f = ''cmd_set_log_level'' then Some (cmd_set_log_level e argv argc s)
      else if f = ''cmd_show_fdb_list'' then cmd_show_fdb_list e s
      else if f = ''cmd_show_ip_stat'' then Some (cmd_show_ip_stat os e s)
      else None)"

definition server_env :: "'w os \<Rightarrow> 'w server cli_app cli_env \<Rightarrow> 'w server cli_app cli_env" where
  "server_env os e =
     e\<lparr>env_command := server_command os e, env_auth := (\<lambda>f u p s. (check_auth u p, s)),
       env_enable := (\<lambda>f p s. (check_enable p, s)), env_regular := (\<lambda>f. regular_callback e),
       env_idle := (\<lambda>f. idle_timeout e)\<rparr>"

section \<open>The session of a client\<close>

definition exec_command ::
  "nat option \<Rightarrow> string \<Rightarrow> string \<Rightarrow> string option \<Rightarrow> 'u cli_def \<Rightarrow> 'u cli_def" where
  "exec_command parent name f descr s =
     snd (cli_register_command parent name (Some (App_command f)) PRIVILEGE_UNPRIVILEGED MODE_EXEC descr s)"

definition child_commands :: "'u cli_def \<Rightarrow> 'u cli_def" where
  "child_commands s0 =
     (let s1 = exec_command None ''test'' ''cmd_test'' None s0;
          (show_c, s2) = cli_register_command None ''show'' None PRIVILEGE_UNPRIVILEGED MODE_EXEC None s1;
          s3 = exec_command show_c ''epoll_stat'' ''cmd_show_epoll_stat'' (Some ''Show epoll statistics'') s2;
          s4 = exec_command show_c ''fdb'' ''cmd_show_fdb_list'' (Some ''Show fdb list'') s3;
          s5 = exec_command show_c ''ip_stat'' ''cmd_show_ip_stat'' (Some ''Show ip statistics'') s4;
          s6 = exec_command show_c ''counters'' ''cmd_test'' (Some ''Show the counters that the system uses'') s5;
          (set_cli, s7) = cli_register_command None ''set'' None PRIVILEGE_UNPRIVILEGED MODE_EXEC None s6;
          s8 = exec_command set_cli ''epoll_stat_clean'' ''cmd_clean_epoll_stat'' (Some ''clean epoll statistics'') s7;
          s9 = exec_command set_cli ''log_level'' ''cmd_set_log_level'' (Some ''set log level 1: info, 2: debug'') s8;
          s10 = exec_command set_cli ''counters'' ''cmd_set'' (Some ''set the counters that the system uses'') s9
      in snd (cli_register_command None ''exit'' (Some (App_command ''cmd_config_int_exit'')) PRIVILEGE_PRIVILEGED
           MODE_CONFIG_INT (Some ''Exit from interface configuration'') s10))"

definition child_settings :: "'u cli_env \<Rightarrow> 'u cli_def \<Rightarrow> 'u cli_def" where
  "child_settings e s =
     cli_set_idle_timeout_callback e 1800 (Some (App_idle ''idle_timeout''))
       (cli_regular_interval 5 (cli_regular (Some ''regular_callback'') (cli_telnet_protocol 1
         (cli_set_hostname (Some ''cli'') (cli_set_banner (Some ''-------wlan bridge server environment-------'') s)))))"

definition child_login :: "'u cli_def \<Rightarrow> 'u cli_def" where
  "child_login s = cli_set_enable_callback (Some ''check_enable'') (cli_set_auth_callback (Some ''check_auth'') s)"

text \<open>\<open>None\<close>: the session crashes, among others on a NULL result of \<open>cli_init\<close>, or does not end.\<close>

definition child_session ::
  "'u cli_env \<Rightarrow> ('u cli_def \<Rightarrow> 'u cli_def) \<Rightarrow> bool list \<Rightarrow> int \<Rightarrow> 'u \<Rightarrow> 'u option" where
  "child_session e commands mem x u = do {
     cli \<leftarrow> cli_init e mem u;
     s0 \<leftarrow> cli;
     (_, s1) \<leftarrow> cli_loop e x (child_login (commands (child_settings e s0)));
     snd (cli_done (Some s1))
   }"

definition run_child ::
  "'w os \<Rightarrow> 'w server cli_app cli_env \<Rightarrow> bool list \<Rightarrow> int \<Rightarrow> 'w server cli_app \<Rightarrow> 'w server cli_app option" where
  "run_child os e mem x u = child_session (server_env os e) child_commands mem x u"

section \<open>The threads\<close>

text \<open>The thread of a client closes the connection after the session.\<close>

definition cli_client_thread ::
  "'w os \<Rightarrow> 'w server cli_app cli_env \<Rightarrow> bool list \<Rightarrow> int \<Rightarrow> 'w server cli_app \<Rightarrow> 'w server cli_app option" where
  "cli_client_thread os e mem connect_fd u =
     map_option (\<lambda>u1. u1\<lparr>app_main := sv_set_world (os_close os connect_fd (sv_world (app_main u1))) (app_main u1)\<rparr>)
       (run_child os e mem connect_fd u)"

text \<open>
  The thread is given the address of the variable \<open>connect_fd\<close> of its creator; here it gets the value
  the variable has when the thread is created.
\<close>

definition cli_create_client_thread :: "'w os \<Rightarrow> int \<Rightarrow> 'w \<Rightarrow> 'w" where
  "cli_create_client_thread os connect_fd w = snd (os_thread os ''cli_client_thread'' connect_fd w)"

partial_function (option) accept_loop :: "'w os \<Rightarrow> int \<Rightarrow> 'w \<Rightarrow> 'w option" where
  "accept_loop os cli_sock w =
     (case os_accept os cli_sock w of ((connect_fd, client_addr), w1) \<Rightarrow>
        if connect_fd \<le> 0 then Some w1
        else accept_loop os cli_sock (cli_create_client_thread os connect_fd w1))"

definition cli_main_thread :: "'w os \<Rightarrow> u16 \<Rightarrow> 'w \<Rightarrow> (int \<times> 'w) option" where
  "cli_main_thread os port w =
     (case os_socket os SOCK_STREAM w of (cli_sock, w1) \<Rightarrow>
        if cli_sock < 0 then Some (cli_sock, w1)
        else
          (let (_, w2) = os_setsockopt os cli_sock ''SO_REUSEADDR'' 1 w1;
               (bound, w3) = os_bind os cli_sock \<lparr>sin_addr = 0, sin_port = ntohs port\<rparr> w2
           in if bound < 0 then Some (cli_sock, w3)
              else (case os_listen os cli_sock 50 w3 of (listening, w4) \<Rightarrow>
                if listening < 0 then Some (cli_sock, w4)
                else map_option (\<lambda>w5. (cli_sock, w5)) (accept_loop os cli_sock w4))))"

end
