(* ===== verification/App_Facts.thy ===== *)
theory App_Facts
  imports Server_Cli
begin

text \<open>
  The operations of the library that leave the state of the application (\<open>cli_app\<close>) alone.
\<close>

section \<open>Operations that leave the application alone\<close>

lemma app_alloc: "cli_alloc s = (b, s1) \<Longrightarrow> cli_app s1 = cli_app s"
  by (auto simp: cli_alloc_def split: list.splits)

lemma app_allocs: "cli_allocs n s = (b, s1) \<Longrightarrow> cli_app s1 = cli_app s"
  by (induction n arbitrary: s) (auto split: prod.splits bool.splits dest: app_alloc)

lemma app_strdup: "cli_strdup t s = (x, s1) \<Longrightarrow> cli_app s1 = cli_app s"
  by (auto simp: cli_strdup_def split: prod.splits dest: app_alloc)

lemma app_client_write [simp]: "cli_app (client_write t s) = cli_app s"
  by (simp add: client_write_def)

lemma app_filter_end [simp]: "cli_app (filter_end f s) = cli_app s"
  by (simp add: filter_end_def split: option.split filter_fn.split filter_state.split)

lemma app_end_filters [simp]: "cli_app (end_filters s) = cli_app s"
proof -
  have "cli_app (fold filter_end fs t) = cli_app t" for fs t
    by (induction fs arbitrary: t) simp_all
  then show ?thesis by (simp add: end_filters_def)
qed

lemma app_add_history: "cli_add_history c s = (rc, s1) \<Longrightarrow> cli_app s1 = cli_app s"
  by (auto simp: cli_add_history_def split: if_splits prod.splits option.splits dest!: app_strdup)

lemma app_add_history_snd [simp]: "cli_app (snd (cli_add_history c s)) = cli_app s"
  using app_add_history [of c s] by (cases "cli_add_history c s") simp

lemma app_command_name: "cli_int_command_name p n s = (x, s1) \<Longrightarrow> cli_app s1 = cli_app s"
  by (auto simp: cli_int_command_name_def Let_def simp del: cli_allocs.simps split: prod.splits dest: app_allocs)

lemma app_register_core: "cli_register_command_core p d s = (x, s1) \<Longrightarrow> cli_app s1 = cli_app s"
  by (auto simp: cli_register_command_core_def Let_def split: prod.splits option.splits dest!: app_command_name)

lemma app_register_command: "cli_register_command p c cb pr m h s = (x, s1) \<Longrightarrow> cli_app s1 = cli_app s"
  by (auto simp: cli_register_command_def alloc_command_def simp del: cli_allocs.simps split: prod.splits bool.splits dest!: app_allocs app_register_core)

lemma app_register_filter: "cli_register_filter c i f pr m h s = (x, s1) \<Longrightarrow> cli_app s1 = cli_app s"
  by (auto simp: cli_register_filter_def alloc_command_def simp del: cli_allocs.simps split: prod.splits bool.splits dest!: app_allocs app_register_core)

lemma app_register_buildmode:
  "cli_int_register_buildmode_command c cb fl pr m h s = (x, s1) \<Longrightarrow> cli_app s1 = cli_app s"
  by (auto simp: cli_int_register_buildmode_command_def alloc_command_def simp del: cli_allocs.simps split: prod.splits bool.splits
      dest!: app_allocs app_register_core)

lemma app_unregister_tree [simp]: "cli_app (cli_unregister_tree st ty s) = cli_app s"
  by (simp add: cli_unregister_tree_def Let_def)

lemma app_free_buildmode [simp]: "cli_app (cli_int_free_buildmode s) = cli_app s"
  by (simp add: cli_int_free_buildmode_def split: option.split)

lemma app_build_shortest [simp]: "cli_app (cli_build_shortest s) = cli_app s"
  by (simp add: cli_build_shortest_def)

lemma app_settings [simp]:
  "cli_app (cli_set_promptchar p s) = cli_app s" "cli_app (cli_set_modestring ms s) = cli_app s"
  "cli_app (cli_set_banner b s) = cli_app s" "cli_app (cli_set_hostname h s) = cli_app s"
  by (auto simp: cli_set_promptchar_def cli_set_modestring_def cli_set_banner_def cli_set_hostname_def dup_nonempty_def
      split: prod.splits option.splits if_splits dest!: app_strdup)

lemma app_set_privilege [simp]: "cli_app (snd (cli_set_privilege p s)) = cli_app s"
  by (simp add: cli_set_privilege_def Let_def)

lemma app_set_configmode [simp]: "cli_app (snd (cli_set_configmode m d s)) = cli_app s"
  by (simp add: cli_set_configmode_def Let_def split: option.split list.split)

lemma app_more_settings [simp]:
  "cli_app (cli_reprompt s) = cli_app s" "cli_app (sock_write t s) = cli_app s" "cli_app (cli_free_history s) = cli_app s"
  "cli_app (cli_regular cb s) = cli_app s" "cli_app (cli_regular_interval n s) = cli_app s"
  "cli_app (cli_telnet_protocol n s) = cli_app s" "cli_app (cli_set_auth_callback f s) = cli_app s"
  "cli_app (cli_set_enable_callback f s) = cli_app s" "cli_app (cli_int_unset_optarg_value nm s) = cli_app s"
  by (simp_all add: cli_reprompt_def sock_write_def cli_free_history_def cli_regular_def cli_regular_interval_def
      cli_telnet_protocol_def cli_set_auth_callback_def cli_set_enable_callback_def cli_int_unset_optarg_value_def)

lemma app_library_commands [simp]:
  "cli_app (snd (cli_enable s)) = cli_app s" "cli_app (snd (cli_disable s)) = cli_app s"
  "cli_app (snd (cli_quit s)) = cli_app s" "cli_app (snd (cli_exit s)) = cli_app s"
  "cli_app (snd (cli_int_configure_terminal s)) = cli_app s"
  by (simp_all add: cli_enable_def cli_disable_def cli_quit_def cli_exit_def cli_int_configure_terminal_def)

lemma app_set_value: "cli_set_optarg_value n v m s = (rc, s1) \<Longrightarrow> cli_app s1 = cli_app s"
  by (auto simp: cli_set_optarg_value_def Let_def split: if_splits prod.splits bool.splits dest: app_alloc)

lemma app_register_optarg: "cli_register_optarg c n fl pr m h g v t s = Some (b, s1) \<Longrightarrow> cli_app s1 = cli_app s"
  by (auto simp: cli_register_optarg_def Let_def simp del: cli_allocs.simps split: option.splits if_splits prod.splits bool.splits
      dest!: app_alloc app_allocs)

lemma app_addhelp: "cli_optarg_addhelp n t oa s = (x, s1) \<Longrightarrow> cli_app s1 = cli_app s"
  by (auto simp: cli_optarg_addhelp_def split: prod.splits bool.splits dest: app_alloc)

lemma app_setting_help: "add_setting_help ns oa s = (oa1, s1) \<Longrightarrow> cli_app s1 = cli_app s"
  by (induction ns oa s rule: add_setting_help.induct)
    (auto split: prod.splits bool.splits dest!: app_alloc app_addhelp)

lemma app_reset_unset_help [simp]: "cli_app (cli_int_buildmode_reset_unset_help s) = cli_app s"
  by (auto simp: cli_int_buildmode_reset_unset_help_def unset_help_def split: list.split prod.splits dest: app_setting_help)

lemma app_bm_command_for: "bm_command_for oa s = Some (rc, s1) \<Longrightarrow> cli_app s1 = cli_app s"
  by (auto simp: bm_command_for_def Option.bind_eq_Some_conv split: if_splits prod.splits option.splits
      dest!: app_register_buildmode app_register_optarg)

lemma app_bm_standard: "bm_standard cs s = (x, s1) \<Longrightarrow> cli_app s1 = cli_app s"
  by (induction cs s rule: bm_standard.induct)
    (auto split: prod.splits option.splits if_splits dest!: app_register_buildmode)

lemma app_bm_finish: "bm_finish s = Some (rc, s1) \<Longrightarrow> cli_app s1 = cli_app s"
  by (auto simp: bm_finish_def Option.bind_eq_Some_conv simp del: bm_standard.simps split: prod.splits if_splits
      dest!: app_bm_standard app_register_optarg)

lemma app_match_init: "cli_match_filter_init e f s = Some (x, s1) \<Longrightarrow> cli_app s1 = cli_app s"
  by (auto simp: cli_match_filter_init_def Option.bind_eq_Some_conv Let_def split: prod.splits bool.splits if_splits
      dest!: app_alloc)

lemma app_range_init: "cli_range_filter_init f s = Some (x, s1) \<Longrightarrow> cli_app s1 = cli_app s"
  by (auto simp: cli_range_filter_init_def Option.bind_eq_Some_conv split: prod.splits bool.splits dest!: app_alloc)

lemma app_count_init: "cli_count_filter_init n f s = Some (x, s1) \<Longrightarrow> cli_app s1 = cli_app s"
  by (auto simp: cli_count_filter_init_def split: prod.splits bool.splits if_splits dest!: app_alloc)

lemma app_call_init: "call_init e f n flt s = Some (x, s1) \<Longrightarrow> cli_app s1 = cli_app s"
  by (auto simp: call_init_def split: filter_fn.splits dest: app_match_init app_range_init app_count_init)

lemma app_init_filters: "init_filters e p is s = Some (rc, s1) \<Longrightarrow> cli_app s1 = cli_app s"
proof (induction "is" arbitrary: s)
  case (Cons i "is")
  obtain b t where al: "cli_alloc (s\<lparr>cli_pipeline := Some (p\<lparr>pl_current_stage := Some i\<rparr>),
      cli_found_optargs := st_found_optargs (pl_stages p ! i)\<rparr>) = (b, t)" by fastforce
  from app_alloc [OF al] have t: "cli_app t = cli_app s" by simp
  show ?case
  proof (cases b)
    case True
    with Cons.prems al obtain f filt rc2 s2 where "call_init e f (int (st_num_words (pl_stages p ! i)))
          \<lparr>fl_filter = None, fl_data = No_state\<rparr> t = Some ((rc2, filt), s2)"
        and "(if rc2 \<noteq> CLI_OK then Some (1, s2\<lparr>cli_filters := cli_filters s2 @ [filt]\<rparr>)
              else init_filters e p is (s2\<lparr>cli_filters := cli_filters s2 @ [filt]\<rparr>)) = Some (rc, s1)"
      by (auto simp: Let_def Option.bind_eq_Some_conv)
    with t show ?thesis by (auto split: if_split_asm dest!: app_call_init Cons.IH)
  next
    case False
    with Cons.prems al show ?thesis using t by (auto simp: Let_def dest!: Cons.IH)
  qed
qed simp

lemma app_set_value_snd [simp]: "cli_app (snd (cli_set_optarg_value n v m s)) = cli_app s"
  by (rule app_set_value [OF surjective_pairing])

lemma app_alloc_snd [simp]: "cli_app (snd (cli_alloc s)) = cli_app s"
  by (rule app_alloc [OF surjective_pairing])

lemma app_record_value: "record_value e oa st i v s = Some (x, s1) \<Longrightarrow> cli_app s1 = cli_app s"
  by (cases "fst (cli_alloc s)")
    (auto simp: record_value_def Let_def Option.bind_eq_Some_conv split_beta split: if_split_asm)

lemma app_save_found: "snd (snd (save_found p)) = s1 \<Longrightarrow> cli_app s1 = cli_app (snd (snd p))"
  by (auto simp: save_found_def split: prod.splits option.splits)

lemmas same_app = app_alloc app_allocs app_strdup app_add_history app_register_command app_register_filter
  app_register_buildmode app_set_value app_register_optarg app_bm_command_for app_bm_finish app_call_init
  app_init_filters app_record_value

section \<open>The editor\<close>

lemma app_ed_write [simp]: "cli_app (ed_cli (ed_write t ed)) = cli_app (ed_cli ed)"
  by (simp add: ed_write_def)

lemma app_ed_echo [simp]: "cli_app (ed_cli (ed_echo t ed)) = cli_app (ed_cli ed)"
  by (simp add: ed_echo_def)

lemma app_with_cli [simp]: "ed_cli (with_cli ed s) = s"
  by (simp add: with_cli_def)

lemma app_prompt: "ed_prompt ed = Some ed1 \<Longrightarrow> cli_app (ed_cli ed1) = cli_app (ed_cli ed)"
  by (auto simp: ed_prompt_def show_prompt_def)

lemma app_clear_line [simp]: "cli_app (ed_cli (cli_clear_line ed)) = cli_app (ed_cli ed)"
  by (simp add: cli_clear_line_def)

lemma app_erase_char [simp]: "cli_app (ed_cli (erase_char ed)) = cli_app (ed_cli ed)"
  by (simp add: erase_char_def Let_def)

lemma app_erase_chars [simp]: "cli_app (ed_cli (erase_chars n ed)) = cli_app (ed_cli ed)"
  by (induction n arbitrary: ed) simp_all

lemma app_keys [simp]:
  "cli_app (ed_cli (key_back c ed)) = cli_app (ed_cli ed)" "cli_app (ed_cli (key_clear ed)) = cli_app (ed_cli ed)"
  "cli_app (ed_cli (key_kill ed)) = cli_app (ed_cli ed)" "cli_app (ed_cli (key_left ed)) = cli_app (ed_cli ed)"
  "cli_app (ed_cli (key_right ed)) = cli_app (ed_cli ed)" "cli_app (ed_cli (key_end ed)) = cli_app (ed_cli ed)"
  "cli_app (ed_cli (key_disable ed)) = cli_app (ed_cli ed)" "cli_app (ed_cli (key_history c ed)) = cli_app (ed_cli ed)"
  by (simp_all add: key_back_def key_clear_def key_kill_def key_left_def key_right_def key_end_def key_disable_def
      key_history_def Let_def split: prod.split)

lemma app_home: "key_home ed = Some ed1 \<Longrightarrow> cli_app (ed_cli ed1) = cli_app (ed_cli ed)"
  by (auto simp: key_home_def Option.bind_eq_Some_conv split: if_splits dest!: app_prompt)

lemma app_redraw: "key_redraw ed = Some ed1 \<Longrightarrow> cli_app (ed_cli ed1) = cli_app (ed_cli ed)"
  by (auto simp: key_redraw_def Option.bind_eq_Some_conv split: if_splits dest!: app_prompt)

lemma app_insert: "insert_char c ed = Some ed1 \<Longrightarrow> cli_app (ed_cli ed1) = cli_app (ed_cli ed)"
  by (auto simp: insert_char_def Let_def split: if_splits)

lemma app_plain: "key_plain c ed = (k, ed1) \<Longrightarrow> cli_app (ed_cli ed1) = cli_app (ed_cli ed)"
  by (auto simp: key_plain_def split: option.splits if_splits dest!: app_insert)

lemma app_replace_word: "replace_word b t bl ed = Some ed1 \<Longrightarrow> cli_app (ed_cli ed1) = cli_app (ed_cli ed)"
  by (auto simp: replace_word_def Let_def Option.bind_eq_Some_conv)

lemma app_telnet: "telnet_filter c ed = (x, ed1) \<Longrightarrow> cli_app (ed_cli ed1) = cli_app (ed_cli ed)"
  by (auto simp: telnet_filter_def Let_def split: if_splits)

lemma app_escape: "escape_filter c ed = (x, ed1) \<Longrightarrow> cli_app (ed_cli ed1) = cli_app (ed_cli ed)"
  by (auto simp: escape_filter_def split: if_splits)

lemma app_state_prompt: "state_prompt ed = Some ed1 \<Longrightarrow> cli_app (ed_cli ed1) = cli_app (ed_cli ed)"
  by (auto simp: state_prompt_def split: cli_states.splits dest!: app_prompt)

lemma app_head: "loop_head ed = Some ed1 \<Longrightarrow> cli_app (ed_cli ed1) = cli_app (ed_cli ed)"
  by (auto simp: loop_head_def Let_def split: if_splits dest!: app_state_prompt)

lemma app_next_line [simp]: "cli_app (ed_cli (next_line ed)) = cli_app (ed_cli ed)"
  by (simp add: next_line_def Let_def split: option.split)

section \<open>The start of a session\<close>

lemma app_register_snd [simp]: "cli_app (snd (cli_register_command p c cb pr m h s)) = cli_app s"
  by (rule app_register_command [OF surjective_pairing])

lemma app_init_commands: "init_commands s = (c, s1) \<Longrightarrow> cli_app s1 = cli_app s"
  by (auto simp: init_commands_def Let_def split: prod.split_asm dest!: app_register_command)

lemma app_filter_optargs: "filter_optargs c os s = Some s1 \<Longrightarrow> cli_app s1 = cli_app s"
proof (induction c os s rule: filter_optargs.induct)
  case (2 c name flags descr v os s)
  then show ?case by (fastforce simp: filter_optarg_def Option.bind_eq_Some_conv dest: app_register_optarg)
qed simp

lemma app_init_filter_commands: "init_filter_commands fs s = Some (b, s1) \<Longrightarrow> cli_app s1 = cli_app s"
proof (induction fs arbitrary: s)
  case (Cons f fs)
  obtain name fn descr os where f: "f = (name, fn, descr, os)" by (metis prod.exhaust)
  obtain c s2 where r: "cli_register_filter name (Some fn) (Some fn) PRIVILEGE_UNPRIVILEGED MODE_ANY (Some descr) s = (c, s2)"
    by fastforce
  with Cons.prems f app_register_filter [OF r] show ?case
    by (cases c) (fastforce simp: Option.bind_eq_Some_conv split: if_split_asm dest: Cons.IH app_filter_optargs)+
qed simp

lemma app_exec_command [simp]: "cli_app (exec_command p n f d s) = cli_app s"
  by (simp add: exec_command_def)

lemma app_child_commands [simp]: "cli_app (child_commands s) = cli_app s"
  by (simp only: child_commands_def Let_def split_beta app_register_snd app_exec_command)

lemma app_child_login [simp]: "cli_app (child_login s) = cli_app s"
  by (simp add: child_login_def)

text \<open>The steps of a \<open>cli_init\<close> that succeeds.\<close>

lemma init_cases:
  assumes "cli_init e mem u = Some (Some s)"
  obtains s0 c s1 x s2 s3 where "cli_allocs 2 (cli_zero mem u) = (True, s0)"
    "init_commands (s0\<lparr>cli_buf_size := 1024, cli_telnet := True\<rparr>) = (Some c, s1)"
    "cli_register_command (Some c) ''terminal'' (Some Cli_configure_terminal) PRIVILEGE_PRIVILEGED
                      MODE_EXEC (Some ''Conlfigure from the terminal'') s1 = (x, s2)"
    "init_filter_commands builtin_filters s2 = Some (True, s3)"
    "s = cli_set_idle_timeout_callback e 0 (Some Int_idle_timeout)
       ((snd (cli_set_configmode MODE_EXEC None (snd (cli_set_privilege PRIVILEGE_UNPRIVILEGED
          (s3\<lparr>cli_privilege := -1, cli_mode := -1\<rparr>)))))\<lparr>cli_timeout_sec := 1, cli_timeout_usec := 0\<rparr>)"
proof -
  obtain ok s0 where a: "cli_allocs 2 (cli_zero mem u) = (ok, s0)" by fastforce
  obtain c s1 where b: "init_commands (s0\<lparr>cli_buf_size := 1024, cli_telnet := True\<rparr>) = (c, s1)" by fastforce
  from assms a b obtain c' where c: "c = Some c'" "ok"
    by (auto simp: cli_init_def simp del: cli_allocs.simps split: bool.split_asm option.split_asm)
  obtain x s2 where t: "cli_register_command (Some c') ''terminal'' (Some Cli_configure_terminal) PRIVILEGE_PRIVILEGED
                      MODE_EXEC (Some ''Conlfigure from the terminal'') s1 = (x, s2)" by fastforce
  from assms a b c t obtain s3 where "init_filter_commands builtin_filters s2 = Some (True, s3)"
    and "s = cli_set_idle_timeout_callback e 0 (Some Int_idle_timeout)
       ((snd (cli_set_configmode MODE_EXEC None (snd (cli_set_privilege PRIVILEGE_UNPRIVILEGED
          (s3\<lparr>cli_privilege := -1, cli_mode := -1\<rparr>)))))\<lparr>cli_timeout_sec := 1, cli_timeout_usec := 0\<rparr>)"
    by (auto simp: cli_init_def Let_def Option.bind_eq_Some_conv simp del: cli_allocs.simps split: if_split_asm)
  with a b c t that show ?thesis by simp
qed

end
