(* ===== verification/Session_Keeps.thy ===== *)
theory Session_Keeps
  imports App_Facts
begin

text \<open>
  A predicate on the state of the application that the callbacks, the clock and the socket keep is
  kept by every operation of a session (\<open>app_keeps\<close>); for what only prints and asks for the time,
  the printing and the clock are enough (\<open>app_io\<close>).
\<close>

section \<open>Output and the clock\<close>

locale app_io =
  fixes e :: "'u cli_env" and P :: "'u \<Rightarrow> bool"
  assumes print_app: "P (cli_app s) \<Longrightarrow> P (cli_app (env_print e cb l s))"
    and time_app: "P u \<Longrightarrow> P (snd (env_time e u))"
begin

lemma app_P: "cli_app s1 = cli_app s \<Longrightarrow> P (cli_app s) \<Longrightarrow> P (cli_app s1)"
  by simp

lemma snd_P: "P (cli_app (snd p)) \<Longrightarrow> p = (x, s1) \<Longrightarrow> P (cli_app s1)"
  by simp

lemmas keeps_same = same_app [THEN app_P]

lemma emit_line_app [simp]: "P (cli_app s) \<Longrightarrow> P (cli_app (emit_line e l s))"
  by (simp add: emit_line_def print_app split: option.split)

lemma print_line_app [simp]: "P (cli_app s) \<Longrightarrow> P (cli_app (print_line e f l s))"
  by (simp add: print_line_def Let_def split: prod.split)

lemma print_lines_app [simp]: "P (cli_app s) \<Longrightarrow> P (cli_app (snd (print_lines e f b acc cs s)))"
  by (induction cs arbitrary: acc s) simp_all

lemma print_mode_app [simp]:
  assumes "P (cli_app s)"
  shows "P (cli_app (print_mode e f b t s))"
proof -
  obtain ok s1 where a: "cli_alloc s = (ok, s1)" by fastforce
  obtain ok2 s2 where r: "(if cli_buf_size s1 < length (cli_buffer s1) + length t + 1 then
      (case cli_alloc s1 of (ok, u) \<Rightarrow> (ok, if ok then u\<lparr>cli_buf_size := length (cli_buffer s1) + length t + 1\<rparr> else u))
      else (True, s1)) = (ok2, s2)" by fastforce
  then have 2: "cli_app s2 = cli_app s" using app_alloc [OF a]
    by (auto split: if_splits prod.splits dest: app_alloc)
  obtain rest s3 where p: "print_lines e f b [] (cli_buffer s2 @ t) s2 = (rest, s3)" by fastforce
  have "P (cli_app s3)" using print_lines_app [of s2 f b "[]" "cli_buffer s2 @ t"] assms 2 p by simp
  moreover have "print_mode e f b t s = (if \<not> ok then s1 else if \<not> ok2 then s2 else s3\<lparr>cli_buffer := rest\<rparr>)"
    unfolding print_mode_def a Let_def
    by (cases ok) (simp_all only: prod.case bool.case if_True if_False not_True_eq_False not_False_eq_True r p)
  ultimately show ?thesis using assms 2 app_alloc [OF a] by simp
qed

lemma cli_print_app [simp]: "P (cli_app s) \<Longrightarrow> P (cli_app (cli_print e t s))"
  by (simp add: cli_print_def)

lemma cli_error_app [simp]: "P (cli_app s) \<Longrightarrow> P (cli_app (cli_error e t s))"
  by (simp add: cli_error_def)

lemma fold_app: "P (cli_app s) \<Longrightarrow> (\<And>x t. x \<in> set xs \<Longrightarrow> P (cli_app t) \<Longrightarrow> P (cli_app (f x t))) \<Longrightarrow> P (cli_app (fold f xs s))"
  by (induction xs arbitrary: s) simp_all

lemma cli_time_app [simp]: "P (cli_app s) \<Longrightarrow> P (cli_app (snd (cli_time e s)))"
  using time_app [of "cli_app s"] by (simp add: cli_time_def split_beta)

lemma show_help_app [simp]: "P (cli_app s) \<Longrightarrow> P (cli_app (show_help e c s))"
  by (induction c arbitrary: s) (auto intro!: fold_app)

lemma cli_help_app [simp]: "P (cli_app s) \<Longrightarrow> P (cli_app (snd (cli_help e s)))"
  by (simp add: cli_help_def cli_show_help_def Let_def fold_app)

lemma cli_history_app [simp]: "P (cli_app s) \<Longrightarrow> P (cli_app (snd (cli_history e s)))"
  by (simp add: cli_history_def Let_def split_beta fold_app)

lemma int_idle_app [simp]: "P (cli_app s) \<Longrightarrow> P (cli_app (snd (cli_int_idle_timeout e s)))"
  by (simp add: cli_int_idle_timeout_def)

lemma idle_callback_app [simp]: "P (cli_app s) \<Longrightarrow> P (cli_app (cli_set_idle_timeout_callback e n f s))"
  by (simp add: cli_set_idle_timeout_callback_def cli_set_idle_timeout_def Let_def split_beta)

end

section \<open>The operations of a session\<close>

locale app_keeps = app_io e P for e :: "'u cli_env" and P :: "'u \<Rightarrow> bool" +
  assumes command_app: "env_command e f n av ac s = Some (rc, s1) \<Longrightarrow> P (cli_app s) \<Longrightarrow> P (cli_app s1)"
    and validator_app: "P (cli_app s) \<Longrightarrow> P (cli_app (snd (env_validator e f v w s)))"
    and completor_app: "P (cli_app s) \<Longrightarrow> P (cli_app (snd (env_completor e f n w ch s)))"
    and transient_app: "P (cli_app s) \<Longrightarrow> P (cli_app (snd (env_transient e f n w s)))"
    and auth_app: "P (cli_app s) \<Longrightarrow> P (cli_app (snd (env_auth e f un p s)))"
    and enable_app: "P (cli_app s) \<Longrightarrow> P (cli_app (snd (env_enable e f p s)))"
    and regular_app: "P (cli_app s) \<Longrightarrow> P (cli_app (snd (env_regular e f s)))"
    and idle_app: "P (cli_app s) \<Longrightarrow> P (cli_app (snd (env_idle e f s)))"
    and select_app: "P u \<Longrightarrow> P (snd (env_select e a b u))"
    and read_app: "P u \<Longrightarrow> P (snd (env_read e u))"
begin

lemmas env_app [simp] = validator_app completor_app transient_app auth_app enable_app regular_app idle_app
  select_app read_app

lemma comphelp_app [simp]: "P (cli_app s) \<Longrightarrow> P (cli_app (snd (cli_get_optarg_comphelp e oa ch c a w v s)))"
  by (auto simp: cli_get_optarg_comphelp_def call_completor_def Let_def split_beta
      split: option.split completor_fn.split)

lemma bm_commands_app: "bm_commands e os s = Some (rc, s1) \<Longrightarrow> P (cli_app s) \<Longrightarrow> P (cli_app s1)"
proof (induction os arbitrary: s)
  case (Cons oa os)
  show ?case
  proof (cases "oa_name oa \<in> {''cancel'', ''execute'', ''show'', ''unset''}")
    case False
    with Cons.prems show ?thesis
      by (auto simp only: bm_commands.simps if_False Option.bind_eq_Some_conv split: if_split_asm prod.split_asm
          intro: Cons.IH dest: keeps_same)
  next
    case True
    with Cons.prems show ?thesis
      by (simp only: bm_commands.simps if_True option.inject prod.inject) (auto intro: cli_error_app)
  qed
qed simp

lemma enter_buildmode_app:
  assumes "cli_int_enter_buildmode e c t s = Some (rc, s1)" and "P (cli_app s)"
  shows "P (cli_app s1)"
proof -
  obtain ok s2 where al: "cli_alloc s = (ok, s2)" by fastforce
  have 2: "P (cli_app s2)" using app_alloc [OF al] assms(2) by simp
  obtain tx s3 where d: "(case t of None \<Rightarrow> (None, cli_int_free_buildmode s2)
      | Some t \<Rightarrow> cli_strdup t (cli_int_free_buildmode s2)) = (tx, s3)" by fastforce
  have 3: "P (cli_app s3)" using d 2 by (auto split: option.split_asm dest: keeps_same)
  define body where "body = (do {
      (rc, s4) \<leftarrow> bm_commands e
         (dropWhile (\<lambda>oa. \<not> has_flag (oa_flags oa) CLI_CMD_ALLOW_BUILDMODE) (c_optargs (cmd_data c)))
         (s3\<lparr>cli_buildmode := Some \<lparr>bm_command = c, bm_found_optargs = [], bm_cname = [], bm_mode = cli_mode s3,
            bm_transient_mode = cli_transient_mode s3, bm_mode_text = tx\<rparr>\<rparr>);
      if rc \<noteq> CLI_BUILDMODE_START then Some (rc, s4)
      else bm_finish (s4\<lparr>cli_buildmode :=
        map_option (\<lambda>b. b\<lparr>bm_cname := c_full_command_name (cmd_data c)\<rparr>) (cli_buildmode s4)\<rparr>)
    })"
  have b: "P (cli_app s5)" if body: "body = Some (rc, s5)" for rc s5
  proof -
    from body obtain rc4 s4 where "bm_commands e
         (dropWhile (\<lambda>oa. \<not> has_flag (oa_flags oa) CLI_CMD_ALLOW_BUILDMODE) (c_optargs (cmd_data c)))
         (s3\<lparr>cli_buildmode := Some \<lparr>bm_command = c, bm_found_optargs = [], bm_cname = [], bm_mode = cli_mode s3,
            bm_transient_mode = cli_transient_mode s3, bm_mode_text = tx\<rparr>\<rparr>) = Some (rc4, s4)"
      and rest: "(if rc4 \<noteq> CLI_BUILDMODE_START then Some (rc4, s4)
      else bm_finish (s4\<lparr>cli_buildmode :=
        map_option (\<lambda>b. b\<lparr>bm_cname := c_full_command_name (cmd_data c)\<rparr>) (cli_buildmode s4)\<rparr>)) = Some (rc, s5)"
      by (auto simp: body_def Option.bind_eq_Some_conv)
    then have "P (cli_app s4)" using 3 by (auto intro: bm_commands_app)
    with rest show ?thesis by (auto split: if_split_asm dest!: app_bm_finish)
  qed
  have "cli_int_enter_buildmode e c t s = do {
     (rc, s1) \<leftarrow> (if ok then body else Some (CLI_BUILDMODE_ERROR,
             cli_error e (''Unable to build buildmode mode for command '' @ c_command (cmd_data c)) s2));
     let s5 = cli_int_buildmode_reset_unset_help s1;
     Some (rc, if rc \<noteq> CLI_BUILDMODE_START then cli_int_free_buildmode s5 else s5) }"
    unfolding cli_int_enter_buildmode_def al body_def Let_def
    by (cases ok) (simp_all only: prod.case bool.case d if_True if_False)
  with assms(1) 2 b show ?thesis
    by (auto simp: Let_def Option.bind_eq_Some_conv split: if_split_asm)
qed

lemma extra_arguments_app [simp]: "P (cli_app s) \<Longrightarrow> P (cli_app (snd (extra_arguments e b rc s)))"
  by (simp add: extra_arguments_def)

lemma buildmode_callbacks_app [simp]:
  assumes "P (cli_app s)"
  shows "P (cli_app (snd (cli_int_buildmode_cmd_cback e n s)))"
    "P (cli_app (snd (cli_int_buildmode_flag_cback e c n s)))"
    "P (cli_app (snd (cli_int_buildmode_flag_multiple_cback e c n s)))"
    "P (cli_app (snd (cli_int_buildmode_cancel_cback e n s)))"
    "P (cli_app (snd (cli_int_buildmode_execute_cback e n s)))"
    "P (cli_app (snd (cli_int_buildmode_show_cback e s)))"
  using assms by (auto simp: cli_int_buildmode_cmd_cback_def cli_int_buildmode_flag_cback_def buildmode_flag_def
      cli_int_buildmode_flag_multiple_cback_def cli_int_buildmode_cancel_cback_def cli_int_buildmode_execute_cback_def
      cli_int_buildmode_show_cback_def split_beta Let_def intro!: fold_app)

lemma unset_cback_app:
  "cli_int_buildmode_unset_cback e av s = Some (rc, s1) \<Longrightarrow> P (cli_app s) \<Longrightarrow> P (cli_app s1)"
  by (auto simp: cli_int_buildmode_unset_cback_def Option.bind_eq_Some_conv Let_def split: list.split_asm if_split_asm)

lemma unset_validator_app [simp]: "P (cli_app s) \<Longrightarrow> P (cli_app (snd (cli_int_buildmode_unset_validator e n v s)))"
  by (auto simp: cli_int_buildmode_unset_validator_def split: option.split list.split)

lemma extend_line_app: "extend_line e l w s = (r, s1) \<Longrightarrow> P (cli_app s) \<Longrightarrow> P (cli_app s1)"
  by (auto simp: extend_line_def split: prod.split_asm bool.split_asm dest: keeps_same)

lemma bm_option_app: "bm_option e n oa a l s = Some (r, s1) \<Longrightarrow> P (cli_app s) \<Longrightarrow> P (cli_app s1)"
proof (induction n arbitrary: a l s)
  case (Suc n)
  then show ?case
    by (fastforce simp: Option.bind_eq_Some_conv split: option.split_asm if_split_asm prod.split_asm dest: extend_line_app)
qed simp

lemma bm_cmdline_app: "bm_cmdline e os l s = Some (r, s1) \<Longrightarrow> P (cli_app s) \<Longrightarrow> P (cli_app s1)"
proof (induction os arbitrary: l s)
  case (Cons oa os)
  then show ?case
    by (fastforce simp: Option.bind_eq_Some_conv simp del: bm_option.simps split: if_split_asm dest: bm_option_app)
qed simp

lemma call_validator_app: "call_validator e f n v s = Some (rc, s1) \<Longrightarrow> P (cli_app s) \<Longrightarrow> P (cli_app s1)"
  by (auto simp: call_validator_def split: validator_fn.split_asm
      dest: unset_validator_app [THEN snd_P, rotated] validator_app [THEN snd_P, rotated])

lemma exact_match_app: "exact_match e oa w s = Some (b, s1) \<Longrightarrow> P (cli_app s) \<Longrightarrow> P (cli_app s1)"
  by (auto simp: exact_match_def Option.bind_eq_Some_conv split: option.split_asm if_split_asm dest: call_validator_app)

lemma scan_app: "scan_optargs e w os cs s = Some (r, s1) \<Longrightarrow> P (cli_app s) \<Longrightarrow> P (cli_app s1)"
proof (induction os arbitrary: cs s)
  case (Cons oa os)
  have go: "(if has_flag (oa_flags oa) CLI_CMD_ARGUMENT then Some (Candidates ds, t) else scan_optargs e w os ds t)
       = Some (r, s1) \<Longrightarrow> P (cli_app t) \<Longrightarrow> P (cli_app s1)" for ds t
    using Cons.IH by (auto split: if_split_asm)
  show ?case
  proof (cases "has_flag (oa_flags oa) CLI_CMD_SPOT_CHECK \<and> cs = []")
    case True
    with Cons.prems show ?thesis
      by (auto simp: Let_def Option.bind_eq_Some_conv split: if_split_asm dest: call_validator_app Cons.IH)
  next
    case False
    with Cons.prems show ?thesis
      by (auto simp: Let_def Option.bind_eq_Some_conv simp del: has_flag_def split: if_split_asm dest: exact_match_app Cons.IH)
  qed
qed simp

lemma comphelp_candidates_app: "P (cli_app s) \<Longrightarrow> P (cli_app (snd (snd (comphelp_candidates e os c st i b ch s))))"
  by (induction os arbitrary: b ch s) (simp_all add: Let_def split_beta)

lemma after_value_app:
  "after_value e oas os i k v (st, ch, s) = Some (r, st1, ch1, s1) \<Longrightarrow> P (cli_app s) \<Longrightarrow> P (cli_app s1)"
  by (auto simp: after_value_def Let_def Option.bind_eq_Some_conv split_beta
      split: option.split_asm if_split_asm dest: enter_buildmode_app)

lemma take_value_app:
  assumes "take_value e oas os c i (st, ch, s) = Some (r, st1, ch1, s1)" and "P (cli_app s)"
  shows "P (cli_app s1)"
proof -
  define oa where "oa = hd oas"
  define is_arg where "is_arg = has_flag (oa_flags oa) CLI_CMD_OPTIONAL_ARGUMENT"
  define val where "val = word_at (st_words st) (if is_arg then Suc i else i)"
  note tv = assms(1) [unfolded take_value_def prod.case Let_def, folded oa_def, folded is_arg_def, folded val_def]
  show ?thesis
  proof (cases "is_arg \<and> val = None \<and> c = CHR 0x00")
    case True
    with tv assms(2) show ?thesis by auto
  next
    case False
    then have tv1: "(case oa_validator oa of None \<Rightarrow> Some (CLI_OK, s)
         | Some f \<Rightarrow> call_validator e f (Some (oa_name oa)) val s) \<bind> (\<lambda>(rc, s1).
           if rc \<noteq> CLI_OK then Some (Done, stop_with CLI_ERROR i st, ch,
                  cli_reprompt (cli_error e (nl_unless (c = CHR 0x00) @ ''Problem parsing command setting ''
                    @ oa_name oa @ '' with value '' @ null_text val) s1))
           else if has_flag (oa_flags oa) CLI_CMD_DO_NOT_RECORD then Some (Break, st, ch, s1)
           else record_value e oa st i val s1 \<bind> (\<lambda>((rc1, msg), s2).
             if rc1 \<noteq> CLI_OK then Some (Done, stop_with CLI_ERROR i st, ch,
                    cli_reprompt (cli_error e (nl_unless (c = CHR 0x00) @ msg) s2))
             else after_value e oas os i (if is_arg then 2 else 1) val (st, ch, s2))) = Some (r, st1, ch1, s1)"
      using tv by (simp only: if_False)
    then obtain rc s2 where
      v: "(case oa_validator oa of None \<Rightarrow> Some (CLI_OK, s)
                 | Some f \<Rightarrow> call_validator e f (Some (oa_name oa)) val s) = Some (rc, s2)"
      by (auto simp: Option.bind_eq_Some_conv)
    have 2: "P (cli_app s2)" using v assms(2) by (auto split: option.split_asm dest: call_validator_app)
    from tv1 [unfolded v Option.bind.simps prod.case] 2 show ?thesis
      by (auto simp: Option.bind_eq_Some_conv split: if_split_asm dest: keeps_same after_value_app)
  qed
qed

lemma optarg_round_app:
  assumes "optarg_round e os c i (st, ch, s) = Some (r, st1, ch1, s1)" and "P (cli_app s)"
  shows "P (cli_app s1)"
proof -
  from assms(1) obtain sc s2 where sc: "scan_optargs e (word_at (st_words st) i) os [] s = Some (sc, s2)"
    by (auto simp: optarg_round_def Option.bind_eq_Some_conv)
  have 2: "P (cli_app s2)" using scan_app [OF sc assms(2)] .
  show ?thesis
  proof (cases sc)
    case (Spot_failed rc)
    with assms(1) sc 2 show ?thesis by (auto simp: optarg_round_def)
  next
    case (Candidates cands)
    obtain called ch2 s3 where cp: "(if c \<noteq> CHR 0x00 then comphelp_candidates e (map hd cands) c st i False ch s2
        else (False, ch, s2)) = (called, ch2, s3)" by (metis prod_cases3)
    then have 3: "P (cli_app s3)"
      using comphelp_candidates_app [OF 2, of "map hd cands" c st i False ch] 2 by (auto split: if_split_asm)
    from assms(1) sc Candidates have "(if cands = [] then Some ((0, Break), st, ch, s2)
        else if 1 < length cands \<and> (c = CHR 0x00 \<or> Suc i < st_num_words st) then do {
          cmd \<leftarrow> st_command st;
          Some ((0, Done), stop_with CLI_AMBIGUOUS i st, ch,
            cli_error e (CHR 0x0A # ''Ambiguous option/argument for command '' @ c_command (cmd_data cmd)) s2) }
        else if called then Some ((0, Done), st\<lparr>st_status := CLI_OK\<rparr>, ch2, s3)
        else do { (r, p1) \<leftarrow> take_value e (hd cands) os c i (st, ch2, s3); Some ((length cands, r), p1) })
      = Some (r, st1, ch1, s1)"
      unfolding optarg_round_def by (simp only: prod.case Option.bind.simps scan.case cp Let_def)
    with 2 3 show ?thesis
      by (auto simp: Option.bind_eq_Some_conv split: if_split_asm dest: take_value_app)
  qed
qed

lemma optarg_loop_app:
  "optarg_loop e n os c i (st, ch, s) = Some (r, st1, ch1, s1) \<Longrightarrow> P (cli_app s) \<Longrightarrow> P (cli_app s1)"
proof (induction n arbitrary: os i st ch s)
  case (Suc n)
  show ?case
  proof (cases "os = [] \<or> st_num_words st \<le> i")
    case False
    with Suc.prems(1) obtain k x st2 ch2 s2 where
      r: "optarg_round e os c i (st, ch, s) = Some ((k, x), st2, ch2, s2)"
      and x: "(case x of Done \<Rightarrow> Some (None, st2, ch2, s2) | Break \<Rightarrow> Some (Some os, st2, ch2, s2)
         | Next i1 os1 \<Rightarrow> if 1 < k then Some (Some os1, st2, ch2, s2) else optarg_loop e n os1 c i1 (st2, ch2, s2))
         = Some (r, st1, ch1, s1)"
      by (auto simp: Option.bind_eq_Some_conv)
    from optarg_round_app [OF r Suc.prems(2)] x show ?thesis
      by (auto split: round_end.split_asm if_split_asm intro: Suc.IH)
  qed (use Suc.prems in auto)
qed simp

lemma check_required_app [simp]: "P (cli_app s) \<Longrightarrow> P (cli_app (snd (snd (check_required e cmd c os (st, ch, s)))))"
  by (auto simp: check_required_def split: list.split)

lemma save_found_app [simp]: "cli_app (snd (snd (save_found p))) = cli_app (snd (snd p))"
  by (cases p) (auto simp: save_found_def split: option.split)

lemma parse_optargs_app:
  assumes "cli_int_parse_optargs e cmd c (st, ch, s) = Some (st1, ch1, s1)" and "P (cli_app s)"
  shows "P (cli_app s1)"
proof -
  from assms(1) obtain left st2 ch2 s2 where
    l: "optarg_loop e (Suc (st_num_words st)) (c_optargs (cmd_data cmd)) c (st_first_unmatched st)
            (st\<lparr>st_error_word := None\<rparr>, ch, s\<lparr>cli_found_optargs := found_here st s\<rparr>) = Some (left, st2, ch2, s2)"
    and s1: "save_found (case left of None \<Rightarrow> (st2, ch2, s2) | Some os \<Rightarrow> check_required e cmd c os (st2, ch2, s2)) = (st1, ch1, s1)"
    by (auto simp: cli_int_parse_optargs_def Option.bind_eq_Some_conv simp del: optarg_loop.simps)
  have "P (cli_app s2)" using optarg_loop_app [OF l] assms(2) by simp
  then have "P (cli_app (snd (snd (save_found
      (case left of None \<Rightarrow> (st2, ch2, s2) | Some os \<Rightarrow> check_required e cmd c os (st2, ch2, s2))))))"
    by (simp split: option.split)
  then show ?thesis unfolding s1 by simp
qed

lemma generate_app:
  assumes "cli_int_generate_pipeline e t s = (r, s1)" and "P (cli_app s)"
  shows "P (cli_app s1)"
proof -
  obtain ok s2 where al: "cli_alloc (s\<lparr>cli_found_optargs :=
      (case cli_buildmode s of None \<Rightarrow> [] | Some bm \<Rightarrow> bm_found_optargs bm)\<rparr>) = (ok, s2)" by fastforce
  obtain ok3 s3 where al3: "cli_allocs (length (cli_parse_line (dropWhile is_space t) CLI_MAX_LINE_WORDS)) s2 = (ok3, s3)"
    by fastforce
  have "P (cli_app s2)" "P (cli_app s3)" using assms(2) app_alloc [OF al] app_allocs [OF al3] by simp_all
  with assms(1) al al3 show ?thesis
    unfolding cli_int_generate_pipeline_def by (cases ok) (auto simp: Let_def split: if_split_asm)
qed

lemma found_command_app:
  "found_command e c k st s = Some (rc, st1, s1) \<Longrightarrow> P (cli_app s) \<Longrightarrow> P (cli_app s1)"
  by (auto simp: found_command_def Option.bind_eq_Some_conv dest: parse_optargs_app)

lemma locate_app:
  "cli_int_locate_command e n type k cs st s = Some (rc, st1, s1) \<Longrightarrow> P (cli_app s) \<Longrightarrow> P (cli_app s1)"
proof (induction n arbitrary: k cs st s rc st1 s1)
  case (Suc n)
  define tak where "tak = (\<lambda>c u.
       (let d = cmd_data c in
        if cmd_children c = [] then
          (if c_callback d = None \<and> c_filter d = None
           then Some (CLI_ERROR, st, cli_error e (''No callback for '' @ quoted (c_full_command_name d)) u)
           else found_command e c k st u)
        else if Suc k = st_num_words st then
          (if c_callback d \<noteq> None then found_command e c k st u else Some (CLI_ERROR, st, cli_error e ''Incomplete command'' u))
        else do {
          (rc, st1, u1) \<leftarrow> cli_int_locate_command e n type (Suc k) (cmd_children c) st u;
          if rc \<noteq> CLI_ERROR_ARG then Some (rc, st1, u1)
          else if c_callback d \<noteq> None then found_command e c k st1 u1
          else Some (CLI_ERROR, st1, cli_error e (''Invalid command '' @
              quoted (c_full_command_name d @ '' '' @ null_text (word_at (st_words st1) (Suc k)))) u1)
        }))"
  have tk: "P (cli_app u1)" if t: "tak c u = Some (rc, st1, u1)" and u: "P (cli_app u)" for c u rc st1 u1
  proof (cases "cmd_children c = [] \<or> Suc k = st_num_words st")
    case True
    with t u show ?thesis unfolding tak_def Let_def by (auto split: if_split_asm dest: found_command_app)
  next
    case False
    with t obtain rc2 st2 u2 where l: "cli_int_locate_command e n type (Suc k) (cmd_children c) st u = Some (rc2, st2, u2)"
      and r: "(if rc2 \<noteq> CLI_ERROR_ARG then Some (rc2, st2, u2)
          else if c_callback (cmd_data c) \<noteq> None then found_command e c k st2 u2
          else Some (CLI_ERROR, st2, cli_error e (''Invalid command '' @
              quoted (c_full_command_name (cmd_data c) @ '' '' @ null_text (word_at (st_words st2) (Suc k)))) u2))
        = Some (rc, st1, u1)"
      unfolding tak_def Let_def by (auto simp: Option.bind_eq_Some_conv)
    from Suc.IH [OF l u] r show ?thesis by (auto split: if_split_asm dest: found_command_app)
  qed
  from Suc.prems(1) obtain w where w: "word_at (st_words st) k = Some w" by (auto simp: Option.bind_eq_Some_conv)
  note r = Suc.prems(1) [unfolded cli_int_locate_command.simps w Option.bind.simps, folded tak_def]
  from r [unfolded Let_def] Suc.prems(2) show ?case
    by (auto simp: Option.bind_eq_Some_conv split: pick.split_asm if_split_asm dest: tk)
qed simp

lemma validate_stage_app:
  assumes "validate_stage e i st s = Some (rc, st1, s1)" and "P (cli_app s)"
  shows "P (cli_app s1)"
  using assms unfolding validate_stage_def
  by (auto simp: Let_def Option.bind_eq_Some_conv simp del: cli_int_locate_command.simps
      split: option.split_asm dest!: locate_app)

lemma validate_stages_app:
  "validate_stages e n p s = Some (rc, p1, s1) \<Longrightarrow> P (cli_app s) \<Longrightarrow> P (cli_app s1)"
proof (induction n arbitrary: p s)
  case (Suc n)
  then show ?case
    by (auto simp: Let_def Option.bind_eq_Some_conv split: if_split_asm dest!: validate_stage_app)
qed auto

lemma validate_app:
  "cli_int_validate_pipeline e p s = Some (rc, p1, s1) \<Longrightarrow> P (cli_app s) \<Longrightarrow> P (cli_app s1)"
  by (auto simp: cli_int_validate_pipeline_def Let_def split: if_split_asm dest!: validate_stages_app)

lemma library_commands_app:
  assumes "P (cli_app s)"
  shows "P (cli_app (snd (cli_enable s)))" "P (cli_app (snd (cli_disable s)))" "P (cli_app (snd (cli_quit s)))"
    "P (cli_app (snd (cli_exit s)))" "P (cli_app (snd (cli_int_configure_terminal s)))"
  using assms by simp_all

lemmas callbacks_app = buildmode_callbacks_app library_commands_app cli_help_app cli_history_app

lemma call_command_app:
  "call_command e f n av ac s = Some (rc, s1) \<Longrightarrow> P (cli_app s) \<Longrightarrow> P (cli_app s1)"
  by (cases f) (auto simp: call_command_def dest: unset_cback_app command_app callbacks_app [THEN snd_P, rotated])

lemma stage_app:
  assumes "run_stage e p s = Some (rc, s1)" and "P (cli_app s)"
  shows "P (cli_app s1)"
  using assms unfolding run_stage_def
  by (auto simp: Let_def Option.bind_eq_Some_conv split: option.split_asm if_split_asm dest!: call_command_app)

lemma execute_app:
  "cli_int_execute_pipeline e p s = Some (rc, s1) \<Longrightarrow> P (cli_app s) \<Longrightarrow> P (cli_app s1)"
  by (auto simp: cli_int_execute_pipeline_def Option.bind_eq_Some_conv split: if_split_asm
      dest!: app_init_filters dest: stage_app)

lemma run_command_app:
  "cli_run_command e t s = Some (rc, s1) \<Longrightarrow> P (cli_app s) \<Longrightarrow> P (cli_app s1)"
  by (auto simp: cli_run_command_def Option.bind_eq_Some_conv split: option.split_asm prod.split_asm if_split_asm
      dest: generate_app validate_app execute_app)

lemma execute_buildmode_app:
  assumes "cli_int_execute_buildmode e s = Some (rc, s1)" and "P (cli_app s)"
  shows "P (cli_app s1)"
proof -
  from assms(1) obtain bm where bm: "cli_buildmode s = Some bm"
    by (auto simp: cli_int_execute_buildmode_def Option.bind_eq_Some_conv)
  obtain x s2 where d: "cli_strdup (c_full_command_name (cmd_data (bm_command bm))) s = (x, s2)" by fastforce
  note r = assms(1) [unfolded cli_int_execute_buildmode_def bm Option.bind.simps d prod.case]
  have 2: "P (cli_app s2)" using app_strdup [OF d] assms(2) by simp
  show ?thesis
  proof (cases x)
    case (Some name)
    with r obtain rc3 l s3 where b: "bm_cmdline e (c_optargs (cmd_data (bm_command bm))) name s2 = Some ((rc3, l), s3)"
      and r3: "(if rc3 \<noteq> CLI_OK then Some (rc3, s3) else cli_run_command e l
            ((snd (cli_add_history l (cli_int_free_buildmode s3)))\<lparr>cli_disallow_buildmode := True\<rparr>)) = Some (rc, s1)"
      by (auto simp: Option.bind_eq_Some_conv)
    from bm_cmdline_app [OF b 2] r3 show ?thesis by (auto split: if_split_asm dest!: run_command_app)
  qed (use r 2 in auto)
qed

lemma completions_app:
  assumes "cli_get_completions e t c ch s = Some (ch1, s1)" and "P (cli_app s)"
  shows "P (cli_app s1)"
proof -
  obtain g s2 where g: "cli_int_generate_pipeline e t s = (g, s2)" by fastforce
  have 2: "P (cli_app s2)" using generate_app [OF g assms(2)] .
  note r = assms(1) [unfolded cli_get_completions_def g prod.case]
  show ?thesis
  proof (cases g)
    case (Some p)
    define st1 where "st1 = (if st_words (last (pl_stages p)) = [] \<or> t \<noteq> [] \<and> last t = CHR '' ''
       then last (pl_stages p) \<lparr>st_num_words := Suc (st_num_words (last (pl_stages p)))\<rparr> else last (pl_stages p))"
    obtain x ch2 where x: "complete_commands c (if cli_buildmode s2 \<noteq> None then CLI_BUILDMODE_COMMAND
        else if length (pl_stages p) = 1 then CLI_REGULAR_COMMAND else CLI_FILTER_COMMAND)
      (st_words st1) (st_num_words st1) s2 (cli_commands s2) 0 ch = (x, ch2)" by fastforce
    note r1 = r [unfolded Some option.case Let_def, folded st1_def, unfolded x prod.case]
    show ?thesis
    proof (cases x)
      case (Some y)
      obtain cm i where y: "y = (cm, i)" by fastforce
      from r1 Some y obtain st3 ch3 s3 where
        q: "(if c_optargs (cmd_data cm) \<noteq> [] then cli_int_parse_optargs e cm c (st1\<lparr>st_command := Some cm, st_first_unmatched := Suc i\<rparr>, ch2, s2)
             else Some (st1\<lparr>st_command := Some cm, st_first_unmatched := Suc i\<rparr>,
                if c = CHR ''?'' then ch2\<lparr>ch_num_entries := -1\<rparr> else ch2, s2)) = Some (st3, ch3, s3)"
        and s1: "s1 = (if st_status st3 \<noteq> 0 then cli_reprompt s3 else s3)"
        by (simp only: option.case prod.case) (auto simp only: Option.bind_eq_Some_conv option.inject prod.inject)
      from q 2 have "P (cli_app s3)" by (auto split: if_split_asm dest: parse_optargs_app)
      then show ?thesis by (simp add: s1)
    qed (use r1 2 in simp)
  qed (use r 2 in simp)
qed

section \<open>The line editor and the session\<close>

lemma key_tab_app:
  assumes "key_tab e ed = Some ed1" and "P (cli_app (ed_cli ed))"
  shows "P (cli_app (ed_cli ed1))"
proof (cases "no_completion ed \<or> ed_cursor ed \<noteq> ed_l ed")
  case False
  with assms(1) obtain ch s where
    g: "cli_get_completions e (cstr (ed_cmd ed)) (CTRL CHR ''I'') comphelp_empty (ed_cli ed) = Some (ch, s)"
    by (auto simp: key_tab_def Option.bind_eq_Some_conv)
  have "P (cli_app s)" using completions_app [OF g assms(2)] .
  then show ?thesis
    using assms(1) False g unfolding key_tab_def
    by (cases "ch_entries ch") (auto simp: Let_def split: if_split_asm dest!: app_replace_word)
qed (use assms in \<open>auto simp: key_tab_def\<close>)

lemma key_help_app:
  assumes "key_help e ed = Some (b, ed1)" and "P (cli_app (ed_cli ed))"
  shows "P (cli_app (ed_cli ed1))"
proof (cases "no_completion ed")
  case False
  with assms(1) obtain ch s where
    g: "cli_get_completions e (cstr (ed_cmd ed)) CHR ''?'' comphelp_empty (ed_cli ed) = Some (ch, s)"
    by (auto simp: key_help_def Option.bind_eq_Some_conv)
  have 1: "P (cli_app s)" using completions_app [OF g assms(2)] .
  then have "P (cli_app (fold (cli_error e) (ch_entries ch) (sock_write crlf (cli_reprompt s))))"
    by (simp add: fold_app)
  with 1 show ?thesis using assms(1) False g unfolding key_help_def by (auto simp: Let_def split: if_split_asm)
qed (use assms in \<open>auto simp: key_help_def\<close>)

lemma key_char_app:
  assumes "key_char e c ed = Some (k, ed1)" and "P (cli_app (ed_cli ed))"
  shows "P (cli_app (ed_cli ed1))"
proof -
  define Q where "Q = (\<lambda>r. \<forall>k (d :: 'u edit). r = Some (k :: key_end, d) \<longrightarrow> P (cli_app (ed_cli d)))"
  have q_if: "Q x \<Longrightarrow> Q y \<Longrightarrow> Q (if b then x else y)" for b x y by simp
  have q_some: "P (cli_app (ed_cli d)) \<Longrightarrow> Q (Some (k, d))" for k d by (simp add: Q_def)
  have q_plain: "P (cli_app (ed_cli d)) \<Longrightarrow> Q (Some (key_plain c d))" for d
    by (auto simp: Q_def dest: app_plain)
  have q_map: "(\<And>d. x = Some d \<Longrightarrow> P (cli_app (ed_cli d))) \<Longrightarrow> Q (map_option (\<lambda>d. (j, d)) x)" for x j
    by (auto simp: Q_def)
  have q_bind: "Q (x \<bind> (\<lambda>(b, d). f b d))" if "\<And>b d. x = Some (b, d) \<Longrightarrow> Q (f b d)" for x and f :: "bool \<Rightarrow> 'u edit \<Rightarrow> _"
    using that by (auto simp: Q_def Option.bind_eq_Some_conv)
  have h: "P (cli_app (ed_cli d))"
    if "(if c = CHR ''?'' \<and> ed_cursor ed = ed_l ed then key_help e ed else Some (False, ed)) = Some (b, d)" for b d
    using that assms(2) by (auto split: if_split_asm dest: key_help_app)
  have "Q (key_char e c ed)"
    unfolding key_char_def
    by (intro q_if q_some q_map q_plain q_bind; (drule app_redraw [THEN app_P] h key_tab_app)?)
      (simp_all add: assms(2) app_home)
  then show ?thesis using assms(1) by (simp add: Q_def)
qed

lemma edit_key_app: "edit_key e c ed = Some (k, ed1) \<Longrightarrow> P (cli_app (ed_cli ed)) \<Longrightarrow> P (cli_app (ed_cli ed1))"
  by (auto simp: edit_key_def split: prod.split_asm option.split_asm dest!: app_telnet app_escape key_char_app)

lemma regular_step_app: "P (cli_app s) \<Longrightarrow> P (cli_app (snd (regular_step e s)))"
  by (auto simp: regular_step_def split_beta split: option.split)

lemma idle_step_app: "P (cli_app (ed_cli ed)) \<Longrightarrow> P (cli_app (ed_cli (snd (idle_step e ed))))"
  by (auto simp: idle_step_def call_idle_def Let_def split_beta split: option.split idle_fn.split)

lemma note_action_app [simp]: "P (cli_app s) \<Longrightarrow> P (cli_app (note_action e s))"
  by (simp add: note_action_def split_beta)

lemma wait_char_app:
  assumes "wait_char e ed = (w, ed1)" and "P (cli_app (ed_cli ed))"
  shows "P (cli_app (ed_cli ed1))"
proof -
  obtain sr tm u where sel: "env_select e (fst (ed_tm ed)) (snd (ed_tm ed)) (cli_app (ed_cli ed)) = ((sr, tm), u)"
    by (metis prod.exhaust)
  have u: "P u" using select_app [OF assms(2), of "fst (ed_tm ed)" "snd (ed_tm ed)"] sel by simp
  obtain n c v where rd: "env_read e u = ((n, c), v)" by (metis prod.exhaust)
  have v: "P v" using read_app [OF u] rd by simp
  let ?ed = "(with_cli ed ((ed_cli ed)\<lparr>cli_app := u\<rparr>))\<lparr>ed_tm := tm\<rparr>"
  obtain ok ed2 where idl: "idle_step e ?ed = (ok, ed2)" by fastforce
  have "P (cli_app (ed_cli ed2))" using idle_step_app [of ?ed] idl u by simp
  then show ?thesis
    using assms(1) sel rd u v idl unfolding wait_char_def cli_socket_wait_def
    by (auto simp: Let_def split: if_split_asm)
qed

lemma inner_round_app:
  assumes "inner_round e ed = Some (k, ed1)" and "P (cli_app (ed_cli ed))"
  shows "P (cli_app (ed_cli ed1))"
proof -
  from assms(1) obtain ed0 where h: "loop_head ed = Some ed0"
    by (auto simp: inner_round_def Option.bind_eq_Some_conv)
  obtain ok s2 where g: "regular_step e (ed_cli ed0) = (ok, s2)" by fastforce
  have 2: "P (cli_app s2)" using regular_step_app [of "ed_cli ed0"] g app_head [OF h] assms(2) by simp
  obtain w ed2 where w: "wait_char e (with_cli ed0 s2) = (w, ed2)" by fastforce
  have "P (cli_app (ed_cli ed2))" using wait_char_app [OF w] 2 by simp
  with 2 show ?thesis using assms(1) h g w
    by (cases w) (auto simp: inner_round_def split: bool.split_asm dest: edit_key_app)
qed

lemma login_app [simp]: "P (cli_app s) \<Longrightarrow> P (cli_app (snd (login_allowed e u p s)))"
  by (auto simp: login_allowed_def Let_def split_beta split: option.split)

lemma enable_allowed_app [simp]: "P (cli_app s) \<Longrightarrow> P (cli_app (snd (enable_allowed e p s)))"
  by (auto simp: enable_allowed_def split_beta split: option.split)

lemma line_login_app [simp]: "P (cli_app (ed_cli ed)) \<Longrightarrow> P (cli_app (ed_cli (snd (line_login ed))))"
  by (auto simp: line_login_def split: prod.split option.split dest: keeps_same)

lemma line_password_app [simp]:
  assumes "P (cli_app (ed_cli ed))"
  shows "P (cli_app (ed_cli (snd (line_password e ed))))"
proof -
  obtain x s1 where d: "cli_strdup (cstr (ed_cmd ed)) (ed_cli ed) = (x, s1)" by fastforce
  then have 1: "P (cli_app s1)" using app_strdup [OF d] assms by simp
  show ?thesis
  proof (cases x)
    case (Some pw)
    obtain ok s2 where l: "login_allowed e (null_text (ed_username ed)) pw s1 = (ok, s2)" by fastforce
    have "P (cli_app s2)" using login_app [OF 1, of "null_text (ed_username ed)" pw] l by simp
    then show ?thesis using d Some l by (cases ok) (simp_all add: line_password_def)
  qed (use d 1 in \<open>simp add: line_password_def\<close>)
qed

lemma line_enable_app [simp]:
  assumes "P (cli_app (ed_cli ed))"
  shows "P (cli_app (ed_cli (snd (line_enable e ed))))"
proof -
  obtain ok s1 where d: "enable_allowed e (cstr (ed_cmd ed)) (ed_cli ed) = (ok, s1)" by fastforce
  then have "P (cli_app s1)" using enable_allowed_app [OF assms, of "cstr (ed_cmd ed)"] by simp
  then show ?thesis using d by (cases ok) (simp_all add: line_enable_def)
qed

lemma command_result_app:
  "command_result e rc s = Some (r, s1) \<Longrightarrow> P (cli_app s) \<Longrightarrow> P (cli_app s1)"
  by (auto simp: command_result_def Option.bind_eq_Some_conv split: if_split_asm dest!: execute_buildmode_app)

lemma line_command_app:
  assumes "line_command e ed = Some (x, ed1)" and "P (cli_app (ed_cli ed))"
  shows "P (cli_app (ed_cli ed1))"
proof (cases "ed_l ed = 0")
  case False
  define s0 where "s0 = (if ed_cmd ed ! (ed_l ed - 1) \<noteq> CHR ''?'' \<and> \<not> strcaseeq (cstr (ed_cmd ed)) ''history''
                   then snd (cli_add_history (cstr (ed_cmd ed)) (ed_cli ed)) else ed_cli ed)"
  have 0: "P (cli_app s0)" using assms(2) by (simp add: s0_def)
  from assms(1) False obtain rc s1 to_end rc1 s2 where
    r: "cli_run_command e (cstr (ed_cmd ed)) s0 = Some (rc, s1)"
    and c: "command_result e rc s1 = Some ((to_end, rc1), s2)"
    and x: "(x, ed1) = (if to_end \<and> rc1 = CLI_QUIT then (Finished, with_cli ed s2)
                else (More, with_cli ed (if to_end then note_action e s2 else s2)))"
    unfolding line_command_def Let_def s0_def [symmetric] by (auto simp: Option.bind_eq_Some_conv)
  from command_result_app [OF c run_command_app [OF r 0]] x show ?thesis by (auto split: if_split_asm)
qed (use assms in \<open>simp add: line_command_def\<close>)

lemma line_done_app [simp]: "P (cli_app (ed_cli (snd r))) \<Longrightarrow> P (cli_app (ed_cli (snd (line_done e r))))"
  by (cases r) (simp add: line_done_def)

lemma line_done_step:
  "line_done e r = (x, ed1) \<Longrightarrow> P (cli_app (ed_cli (snd r))) \<Longrightarrow> P (cli_app (ed_cli ed1))"
  using line_done_app [of r] by simp

lemma line_entered_app:
  "line_entered e ed = Some (x, ed1) \<Longrightarrow> P (cli_app (ed_cli ed)) \<Longrightarrow> P (cli_app (ed_cli ed1))"
  by (auto simp: line_entered_def split: cli_states.split_asm if_split_asm dest: line_command_app dest!: line_done_step)

theorem session_step_app:
  assumes "session_step e ed = Some (x, ed1)" and "P (cli_app (ed_cli ed))"
  shows "P (cli_app (ed_cli ed1))"
proof -
  from assms(1) obtain k ed2 where i: "inner_round e ed = Some (k, ed2)"
    by (auto simp: session_step_def Option.bind_eq_Some_conv)
  from inner_round_app [OF i assms(2)] assms(1) i show ?thesis
    by (cases k) (auto simp: session_step_def split: if_split_asm dest: line_entered_app)
qed

lemma session_start_app: "P (cli_app s) \<Longrightarrow> P (cli_app (ed_cli (session_start e s)))"
  by (auto simp: session_start_def Let_def split_beta split: option.split)

lemma prepare_app: "loop_prepare s = (b, s1) \<Longrightarrow> P (cli_app s) \<Longrightarrow> P (cli_app s1)"
  by (auto simp: loop_prepare_def Let_def simp del: cli_allocs.simps split: if_split_asm dest!: app_allocs)

lemma init_app:
  assumes "cli_init e mem u = Some (Some s)" and "P u"
  shows "P (cli_app s)"
  using assms(1)
proof (cases rule: init_cases)
  case (1 s0 c s1 x s2 s3)
  have "cli_app s3 = cli_app (cli_zero mem u)"
    using app_allocs [OF 1(1)] app_init_commands [OF 1(2)] app_register_command [OF 1(3)] app_init_filter_commands [OF 1(4)]
    by simp
  with assms(2) show ?thesis by (simp add: 1(5) cli_zero_def)
qed

end

end
