(* ===== verification/Editor_Facts.thy ===== *)
theory Editor_Facts
  imports Server_Cli
begin

text \<open>
  The line editor seen as a text with a cursor: the buffer stays within its bounds, and the keys
  that edit do to the text before and after the cursor what they are meant to do.
\<close>

section \<open>The buffer\<close>

text \<open>Storing.\<close>

lemma length_put: "i + length t \<le> length buf \<Longrightarrow> length (put i t buf) = length buf"
  by (simp add: put_def)

lemma length_zeros [simp]: "length (zeros n) = n"
  by (simp add: zeros_def)

lemma length_slice: "j \<le> length buf \<Longrightarrow> i \<le> j \<Longrightarrow> length (slice i j buf) = j - i"
  by (simp add: slice_def)

lemma slice_full: "slice 0 j buf = take j buf"
  by (simp add: slice_def)

text \<open>A line that fits: the cursor is in it and there is room for its end.\<close>

definition fits :: "'u edit \<Rightarrow> bool" where
  "fits ed \<longleftrightarrow> length (ed_cmd ed) = CLI_MAX_LINE_LENGTH \<and> ed_cursor ed \<le> ed_l ed
     \<and> ed_l ed < CLI_MAX_LINE_LENGTH \<and> (\<forall>l. ed_old ed = Some l \<longrightarrow> l < CLI_MAX_LINE_LENGTH)"

lemma fits_simps [simp]:
  "fits (ed\<lparr>ed_cli := s\<rparr>) = fits ed" "fits (ed\<lparr>ed_lastchar := c\<rparr>) = fits ed"
  "fits (ed\<lparr>ed_telnet := n\<rparr>) = fits ed" "fits (ed\<lparr>ed_esc := n\<rparr>) = fits ed"
  "fits (ed\<lparr>ed_in_history := i\<rparr>) = fits ed" "fits (ed_write t ed) = fits ed" "fits (ed_echo t ed) = fits ed"
  "fits (ed\<lparr>ed_tm := tm\<rparr>) = fits ed" "fits (ed\<lparr>ed_username := un\<rparr>) = fits ed" "fits (ed\<lparr>ed_password := pw\<rparr>) = fits ed"
  by (simp_all add: fits_def ed_write_def ed_echo_def)

lemma ed_write_fields [simp]:
  "ed_cmd (ed_write t ed) = ed_cmd ed" "ed_l (ed_write t ed) = ed_l ed" "ed_cursor (ed_write t ed) = ed_cursor ed"
  "ed_old (ed_write t ed) = ed_old ed" "ed_lastchar (ed_write t ed) = ed_lastchar ed"
  "ed_esc (ed_write t ed) = ed_esc ed" "ed_telnet (ed_write t ed) = ed_telnet ed"
  "cli_state (ed_cli (ed_write t ed)) = cli_state (ed_cli ed)" "hidden (ed_write t ed) = hidden ed"
  by (simp_all add: ed_write_def sock_write_def hidden_def)

lemma ed_echo_fields [simp]:
  "ed_cmd (ed_echo t ed) = ed_cmd ed" "ed_l (ed_echo t ed) = ed_l ed" "ed_cursor (ed_echo t ed) = ed_cursor ed"
  "ed_old (ed_echo t ed) = ed_old ed" "ed_esc (ed_echo t ed) = ed_esc ed" "ed_telnet (ed_echo t ed) = ed_telnet ed"
  "hidden (ed_echo t ed) = hidden ed"
  by (simp_all add: ed_echo_def)

lemma hidden_simps [simp]:
  "hidden (ed\<lparr>ed_cmd := b\<rparr>) = hidden ed" "hidden (ed\<lparr>ed_l := n\<rparr>) = hidden ed" "hidden (ed\<lparr>ed_cursor := n\<rparr>) = hidden ed"
  "hidden (ed\<lparr>ed_old := x\<rparr>) = hidden ed" "hidden (ed\<lparr>ed_lastchar := c\<rparr>) = hidden ed"
  "hidden (ed\<lparr>ed_telnet := n\<rparr>) = hidden ed" "hidden (ed\<lparr>ed_esc := n\<rparr>) = hidden ed"
  by (simp_all add: hidden_def)

lemma ed_prompt_fields:
  "ed_prompt ed = Some ed1 \<Longrightarrow> ed_cmd ed1 = ed_cmd ed \<and> ed_l ed1 = ed_l ed \<and> ed_cursor ed1 = ed_cursor ed
    \<and> ed_old ed1 = ed_old ed \<and> hidden ed1 = hidden ed \<and> ed_esc ed1 = ed_esc ed \<and> ed_telnet ed1 = ed_telnet ed"
  by (auto simp: ed_prompt_def show_prompt_def sock_write_def hidden_def)

section \<open>Every key keeps the line in its buffer\<close>

lemma erase_char_fits: "fits ed \<Longrightarrow> 0 < ed_cursor ed \<Longrightarrow> fits (erase_char ed)"
  by (auto simp: fits_def erase_char_def Let_def length_put length_slice)

lemma erase_char_cursor [simp]: "ed_cursor (erase_char ed) = ed_cursor ed - 1"
  by (simp add: erase_char_def Let_def)

lemma erase_chars_fits: "fits ed \<Longrightarrow> n \<le> ed_cursor ed \<Longrightarrow> fits (erase_chars n ed)"
  by (induction n arbitrary: ed) (auto simp: erase_char_fits)

lemma word_back_le: "ed_cursor ed \<le> length (ed_cmd ed) \<Longrightarrow> word_back ed \<le> ed_cursor ed"
proof -
  assume c: "ed_cursor ed \<le> length (ed_cmd ed)"
  let ?b = "rev (take (ed_cursor ed) (ed_cmd ed))"
  have "length (takeWhile P (drop n xs)) \<le> length xs - n" for P n and xs :: string
    by (metis length_drop length_takeWhile_le)
  then have "length (takeWhile (\<lambda>c. c = CHR '' '') ?b) + length (takeWhile (\<lambda>c. c \<noteq> CHR '' '')
      (drop (length (takeWhile (\<lambda>c. c = CHR '' '') ?b)) ?b)) \<le> length ?b"
    by (metis add_le_cancel_left le_add_diff_inverse length_takeWhile_le)
  with c show ?thesis by (simp add: word_back_def Let_def)
qed

lemma key_back_fits: "fits ed \<Longrightarrow> fits (key_back c ed)"
proof -
  assume f: "fits ed"
  then have "word_back ed \<le> ed_cursor ed" by (intro word_back_le) (simp add: fits_def)
  with f show ?thesis by (simp add: key_back_def erase_char_fits erase_chars_fits)
qed

lemma key_clear_fits: "fits ed \<Longrightarrow> fits (key_clear ed)"
  by (auto simp: fits_def key_clear_def cli_clear_line_def length_put)

lemma key_kill_fits: "fits ed \<Longrightarrow> fits (key_kill ed)"
  by (auto simp: fits_def key_kill_def Let_def length_put)

lemma cli_clear_line_fits: "fits ed \<Longrightarrow> fits (cli_clear_line ed)"
  by (auto simp: fits_def cli_clear_line_def length_put)

lemma key_history_fits: "fits ed \<Longrightarrow> fits (key_history c ed)"
  using cli_clear_line_fits [of "ed\<lparr>ed_in_history := i\<rparr>" for i]
  by (auto simp: key_history_def Let_def length_put fits_def CLI_MAX_LINE_LENGTH_def split: prod.split)

lemma key_move_fits: "fits ed \<Longrightarrow> fits (key_left ed)" "fits ed \<Longrightarrow> fits (key_right ed)" "fits ed \<Longrightarrow> fits (key_end ed)"
  by (auto simp: key_left_def key_right_def key_end_def fits_def)

lemma key_home_fits: "fits ed \<Longrightarrow> key_home ed = Some ed1 \<Longrightarrow> fits ed1"
  by (auto simp: key_home_def fits_def Option.bind_eq_Some_conv split: if_splits dest!: ed_prompt_fields)

lemma key_redraw_fits: "fits ed \<Longrightarrow> key_redraw ed = Some ed1 \<Longrightarrow> fits ed1"
  by (auto simp: key_redraw_def fits_def Option.bind_eq_Some_conv split: if_splits dest!: ed_prompt_fields)

lemma key_disable_fits: "fits ed \<Longrightarrow> fits (key_disable ed)"
  by (auto simp: key_disable_def Let_def fits_def cli_clear_line_def length_put)

lemma insert_char_fits: "fits ed \<Longrightarrow> insert_char c ed = Some ed1 \<Longrightarrow> fits ed1 \<and> 0 < ed_l ed1"
  by (auto simp: insert_char_def fits_def Let_def length_put length_slice split: if_splits)

lemma key_plain_fits: "fits ed \<Longrightarrow> key_plain c ed = (k, ed1) \<Longrightarrow> fits ed1"
proof -
  assume f: "fits ed" and k: "key_plain c ed = (k, ed1)"
  show ?thesis
  proof (cases "insert_char c ed")
    case None
    then show ?thesis using f k by (auto simp: key_plain_def fits_def length_put)
  next
    case (Some ed2)
    with insert_char_fits [OF f Some] k show ?thesis by (auto simp: key_plain_def fits_def split: if_splits)
  qed
qed

lemma replace_word_fits:
  "fits ed \<Longrightarrow> replace_word commas text blank ed = Some ed1 \<Longrightarrow> ed_l ed1 < CLI_MAX_LINE_LENGTH \<Longrightarrow> fits ed1"
  by (auto simp: replace_word_def put_opt_def Option.bind_eq_Some_conv fits_def Let_def length_put split: if_splits)

lemma key_tab_fits:
  assumes "fits ed" and "key_tab e ed = Some ed1" and "ed_l ed1 < CLI_MAX_LINE_LENGTH"
  shows "fits ed1"
proof (cases "no_completion ed \<or> ed_cursor ed \<noteq> ed_l ed")
  case True
  then show ?thesis using assms by (simp add: key_tab_def)
next
  case False
  then obtain ch s where g: "cli_get_completions e (cstr (ed_cmd ed)) (CTRL CHR ''I'') comphelp_empty (ed_cli ed) = Some (ch, s)"
    using assms(2) by (auto simp: key_tab_def Option.bind_eq_Some_conv)
  have f: "fits (ed\<lparr>ed_cli := s\<rparr>)" using assms(1) by simp
  show ?thesis
  proof (cases "ch_entries ch")
    case Nil
    then show ?thesis using assms(2) g False f by (auto simp: key_tab_def)
  next
    case (Cons t ts)
    have f2: "fits (ed\<lparr>ed_cli := s, ed_lastchar := CTRL CHR ''I''\<rparr>)" using f by simp
    note r = replace_word_fits [OF f] replace_word_fits [OF f2]
    show ?thesis
      using assms g False Cons by (auto simp: key_tab_def Let_def split: if_splits intro: r)
  qed
qed

lemma key_help_fits: "fits ed \<Longrightarrow> key_help e ed = Some (b, ed1) \<Longrightarrow> fits ed1"
  by (auto simp: key_help_def Let_def Option.bind_eq_Some_conv split: if_splits)

text \<open>The control characters.\<close>

lemma ctrl_keys:
  "CTRL CHR ''A'' = CHR 0x01" "CTRL CHR ''B'' = CHR 0x02" "CTRL CHR ''C'' = CHR 0x03" "CTRL CHR ''D'' = CHR 0x04"
  "CTRL CHR ''E'' = CHR 0x05" "CTRL CHR ''F'' = CHR 0x06" "CTRL CHR ''H'' = CHR 0x08" "CTRL CHR ''I'' = CHR 0x09"
  "CTRL CHR ''K'' = CHR 0x0B" "CTRL CHR ''L'' = CHR 0x0C" "CTRL CHR ''N'' = CHR 0x0E" "CTRL CHR ''P'' = CHR 0x10"
  "CTRL CHR ''U'' = CHR 0x15" "CTRL CHR ''W'' = CHR 0x17" "CTRL CHR ''Z'' = CHR 0x1A"
  by (simp_all add: CTRL_def) (code_simp+)

lemma key_char_fits:
  assumes "fits ed" and "key_char e c ed = Some (k, ed1)" and "c = CTRL CHR ''I'' \<Longrightarrow> ed_l ed1 < CLI_MAX_LINE_LENGTH"
  shows "fits ed1"
proof (cases "c = CTRL CHR ''I''")
  case True
  have "key_tab e ed = Some ed1" using assms(2) unfolding key_char_def True by (simp add: ctrl_keys)
  then show ?thesis using key_tab_fits [OF assms(1)] assms(3) True by blast
next
  case False
  let ?ctrl = "{CHR 0x00, CHR 0x0A, CHR 0x0D, CHR 0x1B, CTRL CHR ''C'', CTRL CHR ''W'', CTRL CHR ''H'', CHR 0x7F,
    CTRL CHR ''L'', CTRL CHR ''U'', CTRL CHR ''K'', CTRL CHR ''D'', CTRL CHR ''Z''}"
  show ?thesis
  proof (cases "c \<in> ?ctrl")
    case True
    then show ?thesis using assms(1,2)
      by (elim insertE emptyE; hypsubst; simp add: key_char_def ctrl_keys key_back_fits key_clear_fits key_kill_fits
          key_disable_fits; auto simp: key_back_fits key_clear_fits key_kill_fits key_disable_fits intro: key_redraw_fits split: if_splits)
  next
    case ctrl: False
    obtain b ed2 where h: "(if c = CHR ''?'' \<and> ed_cursor ed = ed_l ed then key_help e ed else Some (False, ed)) = Some (b, ed2)"
      and r: "(if b then Some (Again, ed2)
        else if c = CTRL CHR ''P'' \<or> c = CTRL CHR ''N'' then Some (Again, key_history c ed2)
        else if c = CTRL CHR ''B'' then Some (Again, key_left ed2)
        else if c = CTRL CHR ''F'' then Some (Again, key_right ed2)
        else if c = CTRL CHR ''A'' then map_option (\<lambda>d. (Again, d)) (key_home ed2)
        else if c = CTRL CHR ''E'' then Some (Again, key_end ed2)
        else Some (key_plain c ed2)) = Some (k, ed1)"
      using assms(2) ctrl False by (auto simp: key_char_def Option.bind_eq_Some_conv simp del: split_paired_Ex)
    have f2: "fits ed2" using h assms(1) key_help_fits by (auto split: if_splits)
    from r show ?thesis using f2
      by (auto simp: key_history_fits key_move_fits split: if_splits intro: key_home_fits key_plain_fits)
  qed
qed

lemma telnet_filter_fits: "telnet_filter c ed = (x, ed1) \<Longrightarrow> fits ed1 = fits ed \<and> (x = Some c1 \<longrightarrow> c1 = c)"
  by (auto simp: telnet_filter_def Let_def split: if_splits)

lemma arrow_no_tab: "arrow c \<noteq> CTRL CHR ''I''"
  by (simp add: arrow_def ctrl_keys)

lemma escape_filter_fits:
  "escape_filter c ed = (x, ed1) \<Longrightarrow> fits ed1 = fits ed \<and> (x = Some (CTRL CHR ''I'') \<longrightarrow> c = CTRL CHR ''I'')"
  using arrow_no_tab [of c] unfolding escape_filter_def by (cases "ed_esc ed = 0") (auto split: if_splits)

lemma edit_key_fits:
  assumes "fits ed" and "edit_key e c ed = Some (k, ed1)" and "c = CTRL CHR ''I'' \<Longrightarrow> ed_l ed1 < CLI_MAX_LINE_LENGTH"
  shows "fits ed1"
proof -
  obtain x ed2 where t: "telnet_filter c ed = (x, ed2)" by fastforce
  with assms(1) have f2: "fits ed2" using telnet_filter_fits by blast
  show ?thesis
  proof (cases x)
    case None
    with t f2 assms(2) show ?thesis by (simp add: edit_key_def)
  next
    case (Some c1)
    obtain y ed3 where z: "escape_filter c1 ed2 = (y, ed3)" by fastforce
    with f2 have f3: "fits ed3" using escape_filter_fits by blast
    show ?thesis
    proof (cases y)
      case None
      with t Some z f3 assms(2) show ?thesis by (simp add: edit_key_def)
    next
      case (Some c2)
      have "key_char e c2 ed3 = Some (k, ed1)" using assms(2) t \<open>x = Some c1\<close> z Some by (simp add: edit_key_def)
      moreover have "c2 = CTRL CHR ''I'' \<Longrightarrow> c = CTRL CHR ''I''"
        using escape_filter_fits [OF z] Some telnet_filter_fits [OF t] \<open>x = Some c1\<close> by blast
      ultimately show ?thesis using key_char_fits [OF f3] assms(3) by blast
    qed
  qed
qed

section \<open>The editor as a text and a cursor\<close>

text \<open>
  \<open>edits ed b a\<close>: the line has the text \<open>b\<close> before and \<open>a\<close> after the cursor, the rest of the buffer is
  zero, the line is shown, and no escape sequence or telnet command is being read.
\<close>

definition edits :: "'u edit \<Rightarrow> string \<Rightarrow> string \<Rightarrow> bool" where
  "edits ed b a \<longleftrightarrow> ed_cmd ed = b @ a @ zeros (CLI_MAX_LINE_LENGTH - (length b + length a))
     \<and> ed_cursor ed = length b \<and> ed_l ed = length b + length a \<and> length b + length a < CLI_MAX_LINE_LENGTH
     \<and> CHR 0x00 \<notin> set b \<union> set a \<and> \<not> hidden ed \<and> ed_esc ed = 0 \<and> ed_telnet ed = 0
     \<and> cli_promptchar (ed_cli ed) \<noteq> None"

text \<open>What the keys do to such a text.\<close>

definition rub_word :: "string \<Rightarrow> string" where
  "rub_word b = rev (dropWhile (\<lambda>c. c \<noteq> CHR '' '') (dropWhile (\<lambda>c. c = CHR '' '') (rev b)))"

definition printable :: "char \<Rightarrow> bool" where
  "printable c \<longleftrightarrow> 32 \<le> (of_char c :: nat) \<and> (of_char c :: nat) < 127 \<and> c \<noteq> CHR ''?''"

definition text_key :: "char \<Rightarrow> string \<times> string \<Rightarrow> string \<times> string" where
  "text_key c t =
     (case t of (b, a) \<Rightarrow>
        if c = CTRL CHR ''H'' \<or> c = CHR 0x7F then (butlast b, a)
        else if c = CTRL CHR ''W'' then (rub_word b, a)
        else if c = CTRL CHR ''U'' then ([], [])
        else if c = CTRL CHR ''K'' then (b, [])
        else if c = CTRL CHR ''B'' then (if b = [] then (b, a) else (butlast b, last b # a))
        else if c = CTRL CHR ''F'' then (case a of [] \<Rightarrow> (b, a) | x # xs \<Rightarrow> (b @ [x], xs))
        else if c = CTRL CHR ''A'' then ([], b @ a)
        else if c = CTRL CHR ''E'' then (b @ a, [])
        else if length b + length a < CLI_MAX_LINE_LENGTH - 1 then (b @ [c], a)
        else if a = [] then (b, a) else (b @ [c], butlast a))"

definition text_char :: "char \<Rightarrow> bool" where
  "text_char c \<longleftrightarrow> printable c \<or> c \<in> {CTRL CHR ''H'', CHR 0x7F, CTRL CHR ''W'', CTRL CHR ''U'', CTRL CHR ''K'',
     CTRL CHR ''B'', CTRL CHR ''F'', CTRL CHR ''A'', CTRL CHR ''E''}"

lemma printable_keys:
  "printable c \<Longrightarrow> c \<noteq> CHR 0x00 \<and> c \<noteq> CHR 0x0A \<and> c \<noteq> CHR 0x0D \<and> c \<noteq> CHR 0x1B \<and> c \<noteq> CHR 0x7F \<and> c \<noteq> CHR ''?''
     \<and> c \<noteq> CTRL CHR ''A'' \<and> c \<noteq> CTRL CHR ''B'' \<and> c \<noteq> CTRL CHR ''C'' \<and> c \<noteq> CTRL CHR ''D'' \<and> c \<noteq> CTRL CHR ''E''
     \<and> c \<noteq> CTRL CHR ''F'' \<and> c \<noteq> CTRL CHR ''H'' \<and> c \<noteq> CTRL CHR ''I'' \<and> c \<noteq> CTRL CHR ''K'' \<and> c \<noteq> CTRL CHR ''L''
     \<and> c \<noteq> CTRL CHR ''N'' \<and> c \<noteq> CTRL CHR ''P'' \<and> c \<noteq> CTRL CHR ''U'' \<and> c \<noteq> CTRL CHR ''W'' \<and> c \<noteq> CTRL CHR ''Z''"
  by (intro conjI; clarsimp simp: printable_def ctrl_keys)

text \<open>Only the output of the session changes.\<close>

definition shown_only :: "'u edit \<Rightarrow> 'u edit \<Rightarrow> bool" where
  "shown_only ed ed' \<longleftrightarrow> (\<exists>t. ed_cli ed' = (ed_cli ed)\<lparr>cli_out := t\<rparr>)"

lemma shown_only_refl [simp]: "shown_only ed ed"
  unfolding shown_only_def by (rule exI [of _ "cli_out (ed_cli ed)"]) simp

lemma shown_only_trans: "shown_only ed ed1 \<Longrightarrow> shown_only ed1 ed2 \<Longrightarrow> shown_only ed ed2"
  by (auto simp: shown_only_def)

lemma shown_only_write [simp]: "shown_only ed (ed_write t ed)" "shown_only ed (ed_echo t ed)"
proof -
  show 1: "shown_only ed (ed_write t ed)" unfolding shown_only_def ed_write_def sock_write_def by (rule exI) simp
  show "shown_only ed (ed_echo t ed)" using 1 by (cases "hidden ed") (simp_all add: ed_echo_def)
qed

lemma shown_only_fields [simp]:
  "shown_only ed (ed'\<lparr>ed_cmd := x\<rparr>) = shown_only ed ed'" "shown_only ed (ed'\<lparr>ed_l := n\<rparr>) = shown_only ed ed'"
  "shown_only ed (ed'\<lparr>ed_cursor := n\<rparr>) = shown_only ed ed'" "shown_only ed (ed'\<lparr>ed_old := y\<rparr>) = shown_only ed ed'"
  "shown_only ed (ed'\<lparr>ed_lastchar := c\<rparr>) = shown_only ed ed'"
  by (simp_all add: shown_only_def)

lemma promptchar_write [simp]:
  "cli_promptchar (ed_cli (ed_write t ed)) = cli_promptchar (ed_cli ed)"
  "cli_promptchar (ed_cli (ed_echo t ed)) = cli_promptchar (ed_cli ed)"
  by (simp_all add: ed_write_def ed_echo_def sock_write_def)

lemma zeros_append: "zeros m @ zeros n = zeros (m + n)"
  by (simp add: zeros_def replicate_add)

lemma drop_zeros [simp]: "drop n (zeros m) = zeros (m - n)"
  by (simp add: zeros_def)

lemma edits_cstr: "edits ed b a \<Longrightarrow> cstr (ed_cmd ed) = b @ a"
  by (cases "CLI_MAX_LINE_LENGTH - (length b + length a)")
    (auto simp: edits_def cstr_def zeros_def takeWhile_append)

lemma edits_slice: "edits ed b a \<Longrightarrow> slice (ed_cursor ed) (ed_l ed) (ed_cmd ed) = a"
  by (simp add: edits_def slice_def)

text \<open>Each key.\<close>

lemma erase_char_edits:
  assumes "edits ed (b @ [x]) a"
  shows "edits (erase_char ed) b a \<and> shown_only ed (erase_char ed)"
proof -
  have z: "zeros (CLI_MAX_LINE_LENGTH - (length b + length a)) = zeros (Suc (CLI_MAX_LINE_LENGTH - Suc (length b + length a)))"
    using assms by (intro arg_cong [where f = zeros]) (auto simp: edits_def)
  show ?thesis
  proof (cases "a = []")
    case True
    with assms z show ?thesis
      by (auto simp: edits_def erase_char_def put_def Let_def) (simp add: zeros_def)
  next
    case False
    with assms z show ?thesis
      by (auto simp: edits_def erase_char_def put_def Let_def slice_def) (simp add: zeros_def)
  qed
qed

lemma erase_chars_edits:
  "edits ed (b @ t) a \<Longrightarrow> edits (erase_chars (length t) ed) b a \<and> shown_only ed (erase_chars (length t) ed)"
proof (induction t arbitrary: ed rule: rev_induct)
  case (snoc x t)
  then have "edits (erase_char ed) (b @ t) a \<and> shown_only ed (erase_char ed)"
    using erase_char_edits [of ed "b @ t" x a] by simp
  with snoc.IH [of "erase_char ed"] show ?case by (auto intro: shown_only_trans)
qed simp

lemma word_back_edits:
  assumes "edits ed b a"
  shows "\<exists>t. b = rub_word b @ t \<and> word_back ed = length t"
proof -
  let ?r = "rev b"
  let ?sp = "takeWhile (\<lambda>c. c = CHR '' '') ?r" and ?d = "dropWhile (\<lambda>c. c = CHR '' '') ?r"
  let ?w = "takeWhile (\<lambda>c. c \<noteq> CHR '' '') ?d" and ?k = "dropWhile (\<lambda>c. c \<noteq> CHR '' '') ?d"
  have "?r = ?sp @ ?w @ ?k" by (simp only: takeWhile_dropWhile_id)
  then have "rev ?r = rev (?sp @ ?w @ ?k)" by (rule arg_cong)
  then have "b = rev (?sp @ ?w @ ?k)" unfolding rev_rev_ident .
  moreover have "rev (?sp @ ?w @ ?k) = rub_word b @ rev (?sp @ ?w)"
    unfolding rub_word_def by (simp only: rev_append append_assoc)
  ultimately have "b = rub_word b @ rev (?sp @ ?w)" by (rule trans)
  moreover have "word_back ed = length (rev (?sp @ ?w))"
    using assms by (simp add: word_back_def edits_def Let_def dropWhile_eq_drop)
  ultimately show ?thesis by blast
qed

lemma key_back_edits:
  assumes "edits ed b a" and "c \<in> {CTRL CHR ''H'', CHR 0x7F, CTRL CHR ''W''}"
  shows "edits (key_back c ed) (fst (text_key c (b, a))) (snd (text_key c (b, a))) \<and> shown_only ed (key_back c ed)"
proof (cases "b = []")
  case True
  with assms show ?thesis
    by (auto simp: key_back_def text_key_def ctrl_keys rub_word_def edits_def)
next
  case False
  then have cur: "0 < ed_cursor ed" "ed_l ed \<noteq> 0" using assms(1) by (auto simp: edits_def)
  show ?thesis
  proof (cases "c = CTRL CHR ''W''")
    case True
    from word_back_edits [OF assms(1)] obtain t where t: "b = rub_word b @ t" "word_back ed = length t" by blast
    with assms(1) have "edits ed (rub_word b @ t) a" by simp
    from erase_chars_edits [OF this] show ?thesis
      using cur t True by (simp add: key_back_def text_key_def ctrl_keys)
  next
    case False
    have "edits ed (butlast b @ [last b]) a" using \<open>b \<noteq> []\<close> assms(1) by simp
    from erase_char_edits [OF this] show ?thesis
      using cur False assms(2) by (auto simp: key_back_def text_key_def ctrl_keys)
  qed
qed

lemma key_clear_edits: "edits ed b a \<Longrightarrow> edits (key_clear ed) [] [] \<and> shown_only ed (key_clear ed)"
  by (auto simp: edits_def key_clear_def cli_clear_line_def put_def zeros_append CLI_MAX_LINE_LENGTH_def)

lemma key_kill_edits: "edits ed b a \<Longrightarrow> edits (key_kill ed) b [] \<and> shown_only ed (key_kill ed)"
  by (auto simp: edits_def key_kill_def put_def zeros_append Let_def)

lemma key_left_edits:
  "edits ed b a \<Longrightarrow> (if b = [] then edits (key_left ed) b a else edits (key_left ed) (butlast b) (last b # a))
     \<and> shown_only ed (key_left ed)"
proof (cases b rule: rev_cases)
  case (snoc c x)
  then show "edits ed b a \<Longrightarrow> ?thesis" by (auto simp: edits_def key_left_def)
qed (auto simp: edits_def key_left_def)

lemma key_right_edits:
  "edits ed b a \<Longrightarrow> (case a of [] \<Rightarrow> edits (key_right ed) b a | x # xs \<Rightarrow> edits (key_right ed) (b @ [x]) xs)
     \<and> shown_only ed (key_right ed)"
  by (cases a) (auto simp: edits_def key_right_def)

lemma key_end_edits: "edits ed b a \<Longrightarrow> edits (key_end ed) (b @ a) [] \<and> shown_only ed (key_end ed)"
  by (cases a) (auto simp: edits_def key_end_def)

lemma ed_prompt_edits:
  assumes "cli_promptchar (ed_cli ed) \<noteq> None"
  obtains t where "ed_prompt ed = Some (ed_write t ed)"
  using assms by (auto simp: ed_prompt_def show_prompt_def prompt_text_def ed_write_def)

lemma key_home_edits:
  assumes "edits ed b a"
  shows "\<exists>ed'. key_home ed = Some ed' \<and> edits ed' [] (b @ a) \<and> shown_only ed ed'"
proof (cases "ed_cursor ed = 0")
  case True
  with assms show ?thesis by (auto simp: key_home_def edits_def)
next
  case False
  have "cli_promptchar (ed_cli (ed_write [CHR 0x0D] ed)) \<noteq> None" using assms by (simp add: edits_def)
  then obtain t where t: "ed_prompt (ed_write [CHR 0x0D] ed) = Some (ed_write t (ed_write [CHR 0x0D] ed))"
    by (rule ed_prompt_edits)
  have h: "\<not> hidden ed" using assms by (simp add: edits_def)
  have "shown_only ed (ed_write t (ed_write [CHR 0x0D] ed))"
    by (rule shown_only_trans [OF shown_only_write(1) shown_only_write(1)])
  with assms show ?thesis by (simp add: key_home_def False h t edits_def)
qed

lemma insert_char_edits:
  assumes "edits ed b a" and "c \<noteq> CHR 0x00"
  shows "case insert_char c ed of
      None \<Rightarrow> a = [] \<and> length b = CLI_MAX_LINE_LENGTH - 1
    | Some ed1 \<Rightarrow> edits ed1 (b @ [c]) (if length b + length a < CLI_MAX_LINE_LENGTH - 1 then a else butlast a)
        \<and> shown_only ed ed1 \<and> (a = [] \<longrightarrow> length b < CLI_MAX_LINE_LENGTH - 1)"
proof (cases "a = []")
  case True
  have "length b < CLI_MAX_LINE_LENGTH - 1 \<Longrightarrow>
      put (length b) [c] (b @ zeros (CLI_MAX_LINE_LENGTH - length b)) = b @ c # zeros (CLI_MAX_LINE_LENGTH - Suc (length b))"
    by (simp add: put_def)
  with True assms show ?thesis by (auto simp: insert_char_def edits_def Let_def)
next
  case False
  show ?thesis
  proof (cases "length b + length a < CLI_MAX_LINE_LENGTH - 1")
    case True
    then show ?thesis using assms \<open>a \<noteq> []\<close>
      by (auto simp: insert_char_def edits_def Let_def put_def slice_def)
  next
    case full: False
    then have n: "length b + length a = CLI_MAX_LINE_LENGTH - 1" using assms(1) unfolding edits_def by linarith
    obtain a' x where a: "a = a' @ [x]" using False by (metis rev_exhaust)
    have m: "CLI_MAX_LINE_LENGTH = length b + length a' + 2" using n a by (simp add: CLI_MAX_LINE_LENGTH_def)
    have x: "x \<noteq> CHR 0x00" using assms(1) a by (auto simp: edits_def)
    have "put (length b + Suc (length a')) (zeros 1) (put (length b) (c # a) (b @ a @ zeros 1)) = b @ c # a' @ zeros 1"
      by (simp add: put_def a zeros_def)
    then show ?thesis using assms \<open>a \<noteq> []\<close> n m a
      by (auto simp: insert_char_def edits_def Let_def slice_def)
  qed
qed

lemma key_plain_edits:
  assumes "edits ed b a" and "printable c"
  shows "\<exists>ed'. key_plain c ed = (Again, ed') \<and> edits ed' (fst (text_key c (b, a))) (snd (text_key c (b, a))) \<and> shown_only ed ed'"
proof -
  have c: "c \<noteq> CHR 0x00" "c \<noteq> CHR ''?''" "c \<notin> {CTRL CHR ''H'', CHR 0x7F, CTRL CHR ''W'', CTRL CHR ''U'', CTRL CHR ''K'',
     CTRL CHR ''B'', CTRL CHR ''F'', CTRL CHR ''A'', CTRL CHR ''E''}"
    using printable_keys [OF assms(2)] by simp_all
  note i = insert_char_edits [OF assms(1) c(1)]
  show ?thesis
  proof (cases "insert_char c ed")
    case None
    with i have "a = []" "length b = CLI_MAX_LINE_LENGTH - 1" by simp_all
    moreover have "put (length b) (zeros 1) (b @ zeros (CLI_MAX_LINE_LENGTH - length b)) = b @ zeros (CLI_MAX_LINE_LENGTH - length b)"
      using \<open>length b = _\<close> by (simp add: put_def CLI_MAX_LINE_LENGTH_def zeros_append)
    ultimately show ?thesis using assms(1) None c by (simp add: key_plain_def text_key_def edits_def)
  next
    case (Some ed1)
    let ?a = "if length b + length a < CLI_MAX_LINE_LENGTH - 1 then a else butlast a"
    from i Some have e: "edits ed1 (b @ [c]) ?a" "shown_only ed ed1" "a = [] \<longrightarrow> length b < CLI_MAX_LINE_LENGTH - 1" by simp_all
    have h: "\<not> hidden ed1" using e(1) by (simp add: edits_def)
    have "text_key c (b, a) = (b @ [c], ?a)" using e(3) c by (auto simp: text_key_def)
    moreover have "edits ((ed_echo [c] ed1)\<lparr>ed_old := None, ed_lastchar := c\<rparr>) (b @ [c]) ?a" using e(1) by (auto simp: edits_def)
    moreover have "shown_only ed (ed_echo [c] ed1)" using e(2) by (blast intro: shown_only_trans shown_only_write)
    ultimately show ?thesis using Some c h by (simp add: key_plain_def)
  qed
qed

lemma edit_key_direct:
  assumes "edits ed b a" and "c \<noteq> CHR 0xFF"
  shows "edit_key e c ed = key_char e c ed"
proof -
  have "(of_char c :: nat) \<noteq> 255"
  proof
    assume "(of_char c :: nat) = 255"
    then have "char_of (of_char c :: nat) = (char_of (255 :: nat) :: char)" by (rule arg_cong)
    moreover have "(char_of (255 :: nat) :: char) = CHR 0xFF" by code_simp
    ultimately show False using assms(2) by simp
  qed
  with assms(1) show ?thesis by (simp add: edit_key_def telnet_filter_def escape_filter_def edits_def)
qed

lemma text_char_cases:
  assumes "text_char c"
  obtains "printable c" | "c = CTRL CHR ''H''" | "c = CHR 0x7F" | "c = CTRL CHR ''W''" | "c = CTRL CHR ''U''"
    | "c = CTRL CHR ''K''" | "c = CTRL CHR ''B''" | "c = CTRL CHR ''F''" | "c = CTRL CHR ''A''" | "c = CTRL CHR ''E''"
  using assms by (auto simp: text_char_def)

text \<open>Every key that edits.\<close>

lemma edit_key_edits:
  assumes "edits ed b a" and "text_char c"
  shows "\<exists>ed'. edit_key e c ed = Some (Again, ed') \<and> edits ed' (fst (text_key c (b, a))) (snd (text_key c (b, a))) \<and> shown_only ed ed'"
proof -
  have "c \<noteq> CHR 0xFF" using assms(2) by (auto simp: text_char_def printable_def ctrl_keys)
  note d = edit_key_direct [OF assms(1) this, of e]
  from assms(2) show ?thesis unfolding d
  proof (cases rule: text_char_cases)
    case 1
    then have "key_char e c ed = Some (key_plain c ed)"
      using printable_keys [OF 1] by (simp add: key_char_def)
    with key_plain_edits [OF assms(1) 1] show "\<exists>ed'. key_char e c ed = Some (Again, ed') \<and>
        edits ed' (fst (text_key c (b, a))) (snd (text_key c (b, a))) \<and> shown_only ed ed'" by auto
  next
    case 9
    with key_home_edits [OF assms(1)] show "\<exists>ed'. key_char e c ed = Some (Again, ed') \<and>
        edits ed' (fst (text_key c (b, a))) (snd (text_key c (b, a))) \<and> shown_only ed ed'"
      by (auto simp: key_char_def text_key_def ctrl_keys)
  qed (use key_back_edits [OF assms(1), of c] key_clear_edits [OF assms(1)] key_kill_edits [OF assms(1)]
      key_left_edits [OF assms(1)] key_right_edits [OF assms(1)] key_end_edits [OF assms(1)] in
      \<open>auto simp: key_char_def text_key_def ctrl_keys split: list.splits\<close>)
qed

text \<open>A sequence of keys.\<close>

fun type_keys :: "'u cli_env \<Rightarrow> string \<Rightarrow> 'u edit \<Rightarrow> 'u edit option" where
  "type_keys e [] ed = Some ed"
| "type_keys e (c # cs) ed =
     (case edit_key e c ed of Some (Again, ed1) \<Rightarrow> type_keys e cs ed1 | _ \<Rightarrow> None)"

lemma type_keys_edits:
  "edits ed b a \<Longrightarrow> \<forall>c \<in> set cs. text_char c \<Longrightarrow>
     \<exists>ed'. type_keys e cs ed = Some ed' \<and> edits ed' (fst (fold text_key cs (b, a))) (snd (fold text_key cs (b, a))) \<and> shown_only ed ed'"
proof (induction cs arbitrary: ed b a)
  case Nil
  then show ?case by simp
next
  case (Cons c cs)
  obtain ed1 where 1: "edit_key e c ed = Some (Again, ed1)"
      "edits ed1 (fst (text_key c (b, a))) (snd (text_key c (b, a)))" "shown_only ed ed1"
    using edit_key_edits [OF Cons.prems(1), of c e] Cons.prems(2) by auto
  from Cons.IH [OF 1(2)] Cons.prems(2) 1 show ?case by (auto intro: shown_only_trans)
qed

lemma enter_edits:
  assumes "edits ed b a"
  shows "\<exists>ed'. edit_key e CHR 0x0D ed = Some (Entered, ed') \<and> ed_l ed' = length (b @ a) \<and> cstr (ed_cmd ed') = b @ a \<and> shown_only ed ed'"
proof -
  have "edit_key e CHR 0x0D ed = Some (Entered, ed_echo crlf ed)"
    using edit_key_direct [OF assms, of "CHR 0x0D" e] by (simp add: key_char_def ctrl_keys)
  then show ?thesis using edits_cstr [OF assms] assms by (simp add: edits_def)
qed

lemma fold_printable:
  "\<forall>c \<in> set cs. printable c \<Longrightarrow> length b + length cs < CLI_MAX_LINE_LENGTH \<Longrightarrow> fold text_key cs (b, []) = (b @ cs, [])"
proof (induction cs arbitrary: b)
  case (Cons c cs)
  then have "text_key c (b, []) = (b @ [c], [])"
    using printable_keys [of c] by (simp add: text_key_def)
  with Cons.IH [of "b @ [c]"] Cons.prems show ?case by simp
qed simp

end
