(* ===== verification/Session_Facts.thy ===== *)
theory Session_Facts
  imports Editor_Facts
begin

text \<open>
  Sessions: what a session may change before a user is logged in, what leads out of the states that
  ask for a password, and how a line that is typed comes to be acted on.
\<close>

section \<open>What guards a session\<close>

text \<open>
  The part of a session that decides who gets in and with what privilege, and the callbacks that
  could change it.
\<close>

definition door where
  "door s = (cli_state s, cli_privilege s, cli_users s, cli_auth_callback s, cli_enable_password s, cli_enable_callback s,
     cli_print_cb s, cli_regular_callback s, cli_idle_callback s)"

definition entry where
  "entry ed = (door (ed_cli ed), ed_username ed)"

text \<open>
  Printing goes to the client; the callbacks of the application that run beside the commands leave
  what guards the session alone.
\<close>

definition quiet :: "'u cli_def \<Rightarrow> bool" where
  "quiet s \<longleftrightarrow> cli_print_cb s = None"

definition fair_callbacks :: "'u cli_env \<Rightarrow> bool" where
  "fair_callbacks e \<longleftrightarrow> (\<forall>f u p s. quiet s \<longrightarrow> door (snd (env_auth e f u p s)) = door s)
     \<and> (\<forall>f p s. quiet s \<longrightarrow> door (snd (env_enable e f p s)) = door s)
     \<and> (\<forall>f s. quiet s \<longrightarrow> door (snd (env_regular e f s)) = door s)
     \<and> (\<forall>f s. quiet s \<longrightarrow> door (snd (env_idle e f s)) = door s)"

lemma fair_callbacksD:
  assumes "fair_callbacks e" and "quiet s"
  shows "env_auth e f u p s = (rc, t) \<Longrightarrow> door t = door s" "env_enable e f p s = (rc, t) \<Longrightarrow> door t = door s"
    "env_regular e f s = (rc, t) \<Longrightarrow> door t = door s" "env_idle e f s = (rc, t) \<Longrightarrow> door t = door s"
  using assms by (metis fair_callbacks_def snd_conv)+

lemma door_quiet: "door s = door t \<Longrightarrow> quiet s = quiet t"
  by (simp add: door_def quiet_def)

lemma same_ctl_door: "same_ctl s s' \<Longrightarrow> door s' = door s"
  by (auto simp: same_ctl_def door_def)

lemma door_simps [simp]:
  "door (s\<lparr>cli_out := t\<rparr>) = door s" "door (s\<lparr>cli_app := u\<rparr>) = door s" "door (s\<lparr>cli_mem := m\<rparr>) = door s"
  "door (s\<lparr>cli_showprompt := b\<rparr>) = door s" "door (s\<lparr>cli_last_action := n\<rparr>) = door s"
  "door (s\<lparr>cli_transient_mode := i\<rparr>) = door s" "door (s\<lparr>cli_disallow_buildmode := b\<rparr>) = door s"
  "door (s\<lparr>cli_mode := i\<rparr>) = door s" "door (s\<lparr>cli_buildmode := x\<rparr>) = door s" "door (s\<lparr>cli_commands := cs\<rparr>) = door s"
  "door (s\<lparr>cli_modestring := ms\<rparr>) = door s" "door (s\<lparr>cli_client := b\<rparr>) = door s" "door (s\<lparr>cli_last_regular := n\<rparr>) = door s"
  by (simp_all add: door_def)

lemma door_steps [simp]:
  "door (sock_write t s) = door s" "door (cli_reprompt s) = door s" "door (cli_build_shortest s) = door s"
  "door (cli_set_modestring ms s) = door s" "door (cli_unregister_tree p ty s) = door s"
  by (auto simp: sock_write_def cli_reprompt_def cli_build_shortest_def cli_set_modestring_def cli_strdup_def cli_alloc_def
      cli_unregister_tree_def Let_def split: option.split list.split)

lemma door_more [simp]:
  "door (cli_int_free_buildmode s) = door s" "door (snd (cli_set_configmode m d s)) = door s"
  by (auto simp: cli_int_free_buildmode_def cli_set_configmode_def Let_def split: option.split list.split)

lemma door_time: "cli_time e s = (n, s1) \<Longrightarrow> door s1 = door s"
  by (auto simp: cli_time_def split: prod.splits)

lemma door_note [simp]: "door (note_action e s) = door s"
  by (auto simp: note_action_def door_time split: prod.split)

lemma entry_simps [simp]:
  "entry (ed\<lparr>ed_cmd := b\<rparr>) = entry ed" "entry (ed\<lparr>ed_l := n\<rparr>) = entry ed" "entry (ed\<lparr>ed_cursor := n\<rparr>) = entry ed"
  "entry (ed\<lparr>ed_old := x\<rparr>) = entry ed" "entry (ed\<lparr>ed_lastchar := c\<rparr>) = entry ed" "entry (ed\<lparr>ed_telnet := n\<rparr>) = entry ed"
  "entry (ed\<lparr>ed_esc := n\<rparr>) = entry ed" "entry (ed\<lparr>ed_in_history := i\<rparr>) = entry ed" "entry (ed\<lparr>ed_tm := tm\<rparr>) = entry ed"
  "entry (ed\<lparr>ed_password := pw\<rparr>) = entry ed"
  "entry (ed_write t ed) = entry ed" "entry (ed_echo t ed) = entry ed"
  by (simp_all add: entry_def ed_write_def ed_echo_def)

section \<open>Keys before the login\<close>

lemma entry_erase [simp]: "entry (erase_char ed) = entry ed"
  by (simp add: erase_char_def Let_def)

lemma entry_erases [simp]: "entry (erase_chars n ed) = entry ed"
  by (induction n arbitrary: ed) simp_all

lemma entry_clear_line [simp]: "entry (cli_clear_line ed) = entry ed"
  by (simp add: cli_clear_line_def)

lemma entry_prompt: "ed_prompt ed = Some ed1 \<Longrightarrow> entry ed1 = entry ed"
  by (auto simp: ed_prompt_def show_prompt_def entry_def)

lemma entry_disable [simp]: "entry (key_disable ed) = entry ed"
proof -
  let ?c = "cli_clear_line (ed\<lparr>ed_cli := cli_int_free_buildmode (ed_cli ed)\<rparr>)"
  have "entry ?c = entry ed" by simp (simp add: entry_def)
  then have "door (ed_cli ?c) = door (ed_cli ed)" "ed_username ?c = ed_username ed" by (simp_all add: entry_def)
  then show ?thesis by (simp add: key_disable_def Let_def entry_def)
qed

lemma entry_keys [simp]:
  "entry (key_back c ed) = entry ed" "entry (key_clear ed) = entry ed" "entry (key_kill ed) = entry ed"
  "entry (key_left ed) = entry ed" "entry (key_right ed) = entry ed" "entry (key_end ed) = entry ed"
  "no_completion ed \<Longrightarrow> key_history c ed = ed"
  by (simp_all add: key_back_def key_clear_def key_kill_def Let_def key_left_def key_right_def key_end_def key_history_def)

lemma entry_home: "key_home ed = Some ed1 \<Longrightarrow> entry ed1 = entry ed"
  by (auto simp: key_home_def Option.bind_eq_Some_conv split: if_splits dest!: entry_prompt)

lemma entry_redraw: "key_redraw ed = Some ed1 \<Longrightarrow> entry ed1 = entry ed"
  by (auto simp: key_redraw_def Option.bind_eq_Some_conv split: if_splits dest!: entry_prompt)

lemma entry_plain: "key_plain c ed = (k, ed1) \<Longrightarrow> entry ed1 = entry ed"
proof -
  have "insert_char c ed = Some ed2 \<Longrightarrow> entry ed2 = entry ed" for ed2
    by (auto simp: insert_char_def Let_def split: if_splits)
  then show "key_plain c ed = (k, ed1) \<Longrightarrow> ?thesis"
    by (auto simp: key_plain_def split: option.splits if_splits)
qed

lemma entry_char:
  assumes "no_completion ed" and "key_char e c ed = Some (k, ed1)"
  shows "entry ed1 = entry ed"
proof (cases "c \<in> {CHR 0x00, CHR 0x0A, CHR 0x0D, CHR 0x1B, CTRL CHR ''C'', CTRL CHR ''W'', CTRL CHR ''H'', CHR 0x7F,
    CTRL CHR ''L'', CTRL CHR ''U'', CTRL CHR ''K'', CTRL CHR ''D'', CTRL CHR ''Z'', CTRL CHR ''I''}")
  case True
  then show ?thesis using assms
    by (elim insertE emptyE; hypsubst; simp add: key_char_def ctrl_keys; auto intro: entry_redraw simp: key_tab_def split: if_splits)
next
  case False
  obtain b ed2 where h: "(if c = CHR ''?'' \<and> ed_cursor ed = ed_l ed then key_help e ed else Some (False, ed)) = Some (b, ed2)"
    and r: "(if b then Some (Again, ed2)
      else if c = CTRL CHR ''P'' \<or> c = CTRL CHR ''N'' then Some (Again, key_history c ed2)
      else if c = CTRL CHR ''B'' then Some (Again, key_left ed2)
      else if c = CTRL CHR ''F'' then Some (Again, key_right ed2)
      else if c = CTRL CHR ''A'' then map_option (\<lambda>d. (Again, d)) (key_home ed2)
      else if c = CTRL CHR ''E'' then Some (Again, key_end ed2)
      else Some (key_plain c ed2)) = Some (k, ed1)"
    using assms(2) False by (auto simp: key_char_def Option.bind_eq_Some_conv simp del: split_paired_Ex)
  have "ed2 = ed" using h assms(1) by (auto simp: key_help_def split: if_splits)
  with r assms(1) show ?thesis by (auto split: if_splits intro: entry_home entry_plain)
qed

lemma no_completion_entry: "entry ed = entry ed' \<Longrightarrow> no_completion ed = no_completion ed'"
  by (simp add: entry_def door_def no_completion_def)

lemma entry_key:
  assumes "no_completion ed" and "edit_key e c ed = Some (k, ed1)"
  shows "entry ed1 = entry ed"
proof -
  obtain x ed2 where t: "telnet_filter c ed = (x, ed2)" by fastforce
  then have 2: "entry ed2 = entry ed" by (auto simp: telnet_filter_def Let_def split: if_splits)
  show ?thesis
  proof (cases x)
    case None
    with t 2 assms(2) show ?thesis by (simp add: edit_key_def)
  next
    case (Some c1)
    obtain y ed3 where z: "escape_filter c1 ed2 = (y, ed3)" by fastforce
    then have 3: "entry ed3 = entry ed2" by (auto simp: escape_filter_def split: if_splits)
    have n: "no_completion ed3" using assms(1) no_completion_entry 2 3 by metis
    show ?thesis
    proof (cases y)
      case None
      with t Some z 2 3 assms(2) show ?thesis by (simp add: edit_key_def)
    next
      case (Some c2)
      have "key_char e c2 ed3 = Some (k, ed1)" using assms(2) t \<open>x = Some c1\<close> z Some by (simp add: edit_key_def)
      from entry_char [OF n this] 2 3 show ?thesis by simp
    qed
  qed
qed

section \<open>A round before the login\<close>

lemma entry_head:
  assumes "loop_head ed = Some ed0"
  shows "entry ed0 = entry ed"
proof -
  have "state_prompt d = Some d' \<Longrightarrow> entry d' = entry d" for d d' :: "'a edit"
    by (auto simp: state_prompt_def split: cli_states.splits dest: entry_prompt)
  moreover have "entry (d\<lparr>ed_cli := (ed_cli d)\<lparr>cli_showprompt := b\<rparr>\<rparr>) = entry d" for d :: "'a edit" and b
    by (simp add: entry_def)
  moreover have "entry (ed\<lparr>ed_cli := (ed_cli ed)\<lparr>cli_transient_mode := i, cli_disallow_buildmode := b\<rparr>\<rparr>) = entry ed" for i b
    by (simp add: entry_def)
  ultimately show ?thesis using assms by (auto simp: loop_head_def Let_def split: if_splits)
qed

lemma with_cli_entry: "door s = door (ed_cli ed) \<Longrightarrow> entry (with_cli ed s) = entry ed"
  by (simp add: with_cli_def entry_def)

lemma regular_door:
  assumes "fair_callbacks e" and "quiet s" and "regular_step e s = (ok, s1)"
  shows "door s1 = door s"
proof (cases "cli_regular_callback s")
  case None
  then show ?thesis using assms(3) by (simp add: regular_step_def)
next
  case (Some f)
  obtain now t where t: "cli_time e s = (now, t)" by fastforce
  have d: "door t = door s" using door_time [OF t] .
  then have q: "quiet t" using assms(2) door_quiet by metis
  obtain rc u where u: "env_regular e f t = (rc, u)" by fastforce
  have du: "door u = door s" using fair_callbacksD(3) [OF assms(1) q u] d by simp
  obtain n v where v: "cli_time e u = (n, v)" by fastforce
  show ?thesis using assms(3) Some t u v d du door_time [OF v] by (auto simp: regular_step_def split: if_splits)
qed

lemma idle_door:
  assumes "fair_callbacks e" and "quiet (ed_cli ed)" and "idle_step e ed = (ok, ed1)"
  shows "entry ed1 = entry ed"
proof (cases "cli_idle_timeout (ed_cli ed) = 0")
  case True
  then show ?thesis using assms(3) by (auto simp: idle_step_def Let_def with_cli_entry)
next
  case False
  obtain now s1 where t: "cli_time e (ed_cli ed) = (now, s1)" by fastforce
  have d: "door s1 = door (ed_cli ed)" using door_time [OF t] .
  then have q: "quiet s1" using assms(2) door_quiet by metis
  have c: "door t1 = door (ed_cli ed)" if "call_idle e f s1 = (rc, t1)" for f rc t1
  proof (cases f)
    case Int_idle_timeout
    have "door (cli_print e m s1) = door s1" for m
      using q by (intro same_ctl_door cli_print_ctl) (simp add: quiet_def)
    then show ?thesis using that Int_idle_timeout d by (auto simp: call_idle_def cli_int_idle_timeout_def)
  next
    case (App_idle g)
    then show ?thesis using that d fair_callbacksD(4) [OF assms(1) q] by (simp add: call_idle_def)
  qed
  have e: "entry (with_cli ed u) = entry ed" if "door u = door (ed_cli ed)" for u using that by (rule with_cli_entry)
  show ?thesis
    using assms(3) False t d
    by (auto simp: idle_step_def Let_def e split: if_splits option.splits prod.splits dest!: c door_time)
qed

lemma entry_wait:
  assumes "fair_callbacks e" and "quiet (ed_cli ed)" and "wait_char e ed = (w, ed1)"
  shows "entry ed1 = entry ed"
proof -
  obtain sr tm s1 where s: "cli_socket_wait e (ed_tm ed) (ed_cli ed) = ((sr, tm), s1)" by (metis prod.exhaust)
  then have d: "door s1 = door (ed_cli ed)" by (auto simp: cli_socket_wait_def split: prod.splits)
  define ed2 where "ed2 = (with_cli ed s1)\<lparr>ed_tm := tm\<rparr>"
  have e2: "entry ed2 = entry ed" "ed_cli ed2 = s1" using d by (simp_all add: ed2_def with_cli_entry) (simp add: with_cli_def)
  have q: "quiet (ed_cli ed2)" using assms(2) d door_quiet e2(2) by metis
  consider "sr < 0" | "sr = 0" | "0 < sr" by linarith
  then show ?thesis
  proof cases
    case 1
    then show ?thesis using assms(3) s e2 by (simp add: wait_char_def ed2_def Let_def)
  next
    case 2
    obtain ok ed3 where i: "idle_step e ed2 = (ok, ed3)" by fastforce
    from idle_door [OF assms(1) q i] show ?thesis using assms(3) s e2 i 2 by (auto simp: wait_char_def ed2_def [symmetric] Let_def)
  next
    case 3
    obtain n c u where r: "env_read e (cli_app s1) = ((n, c), u)" by (metis prod.exhaust)
    have "entry (with_cli ed2 s2) = entry ed" if "door s2 = door s1" for s2
      using that e2 by (simp add: with_cli_entry)
    then show ?thesis using assms(3) s 3 r
      by (auto simp: wait_char_def ed2_def [symmetric] Let_def split: if_splits)
  qed
qed

lemma entry_round:
  assumes "fair_callbacks e" and "quiet (ed_cli ed)" and "no_completion ed" and "inner_round e ed = Some (k, ed1)"
  shows "entry ed1 = entry ed"
proof -
  obtain ed0 where h: "loop_head ed = Some ed0" using assms(4) by (auto simp: inner_round_def Option.bind_eq_Some_conv)
  have e0: "entry ed0 = entry ed" using entry_head [OF h] .
  then have "door (ed_cli ed0) = door (ed_cli ed)" by (simp add: entry_def)
  then have q: "quiet (ed_cli ed0)" using assms(2) door_quiet by metis
  obtain ok s1 where r: "regular_step e (ed_cli ed0) = (ok, s1)" by fastforce
  have d1: "door s1 = door (ed_cli ed0)" using regular_door [OF assms(1) q r] .
  then have q1: "quiet (ed_cli (with_cli ed0 s1))" using q door_quiet by (metis with_cli_def edit.select_convs(12) edit.update_convs(12) edit.surjective)
  have e1: "entry (with_cli ed0 s1) = entry ed" using with_cli_entry [OF d1] e0 by simp
  show ?thesis
  proof (cases ok)
    case False
    then show ?thesis using assms(4) h r e1 by (simp add: inner_round_def)
  next
    case True
    obtain w ed2 where w: "wait_char e (with_cli ed0 s1) = (w, ed2)" by fastforce
    have e2: "entry ed2 = entry ed" using entry_wait [OF assms(1) q1 w] e1 by simp
    show ?thesis
    proof (cases w)
      case (Char c)
      then have "edit_key e c ed2 = Some (k, ed1)" using assms(4) h r True w by (simp add: inner_round_def)
      moreover have "no_completion ed2" using assms(3) no_completion_entry [OF e2] by blast
      ultimately show ?thesis using entry_key e2 by metis
    qed (use assms(4) h r True w e2 in \<open>auto simp: inner_round_def\<close>)
  qed
qed

section \<open>The way in\<close>

text \<open>
  The states before a login. In the second a user name has been given.
\<close>

definition outside :: "'u edit \<Rightarrow> bool" where
  "outside ed \<longleftrightarrow> cli_state (ed_cli ed) = STATE_LOGIN
     \<or> cli_state (ed_cli ed) = STATE_PASSWORD \<and> ed_username ed \<noteq> None"

text \<open>A user name and a password are accepted: by the callback or by the list of users.\<close>

definition accepts :: "'u cli_env \<Rightarrow> (string \<times> string) list \<Rightarrow> string option \<Rightarrow> string \<Rightarrow> string \<Rightarrow> bool" where
  "accepts e users auth u p \<longleftrightarrow> (\<exists>(n, w) \<in> set users. n = u \<and> pass_matches e w p)
     \<or> (\<exists>f s. auth = Some f \<and> fst (env_auth e f u p s) = CLI_OK)"

text \<open>The settings a login does not change.\<close>

definition settings where
  "settings s = (cli_users s, cli_auth_callback s, cli_enable_password s, cli_enable_callback s,
     cli_print_cb s, cli_regular_callback s, cli_idle_callback s)"

lemma door_settings: "door s = door t \<Longrightarrow> settings s = settings t"
  by (simp add: door_def settings_def)

lemma settings_quiet: "settings s = settings t \<Longrightarrow> quiet s = quiet t"
  by (simp add: settings_def quiet_def)

lemma strdup_door: "cli_strdup t s = (x, s1) \<Longrightarrow> door s1 = door s"
  by (auto simp: cli_strdup_def cli_alloc_def split: list.splits)

lemma login_allowed_door:
  assumes "fair_callbacks e" and "quiet s" and "login_allowed e u p s = (ok, s1)"
  shows "door s1 = door s \<and> (ok \<longrightarrow> accepts e (cli_users s) (cli_auth_callback s) u p)"
proof (cases "cli_auth_callback s")
  case None
  then show ?thesis using assms(3) by (auto simp: login_allowed_def accepts_def)
next
  case (Some f)
  obtain rc t where t: "env_auth e f u p s = (rc, t)" by fastforce
  then have d: "door t = door s" using fair_callbacksD(1) [OF assms(1,2) t] by simp
  then have "cli_users t = cli_users s" by (simp add: door_def)
  with assms(3) t d Some show ?thesis by (auto simp: login_allowed_def accepts_def) (metis fst_conv)
qed

lemma error_door: "quiet s \<Longrightarrow> door (cli_error e t s) = door s"
  by (intro same_ctl_door cli_error_ctl) (simp add: quiet_def)

text \<open>While a password is asked for, the character that ends the line does not change it.\<close>

lemma entered_char:
  assumes "hidden ed" and "key_char e c ed = Some (Entered, ed1)"
  shows "ed_cmd ed1 = ed_cmd ed"
proof -
  have p: "key_plain c ed \<noteq> (Entered, ed1)"
  proof -
    have "insert_char c ed = Some ed2 \<Longrightarrow> ed_cli ed2 = ed_cli ed \<or> (\<exists>t. ed_cli ed2 = sock_write t (ed_cli ed))" for ed2
      by (auto simp: insert_char_def ed_write_def Let_def split: if_splits)
    then have "insert_char c ed = Some ed2 \<Longrightarrow> hidden ed2" for ed2
      using assms(1) by (fastforce simp: hidden_def sock_write_def)
    then show ?thesis by (auto simp: key_plain_def split: option.splits)
  qed
  have "no_completion ed" using assms(1) by (auto simp: hidden_def no_completion_def)
  then have "key_help e ed = Some (True, ed)" by (simp add: key_help_def)
  with assms(2) p show ?thesis
    by (auto simp: key_char_def Option.bind_eq_Some_conv split: if_splits)
qed

lemma entered_key:
  assumes "hidden ed" and "edit_key e c ed = Some (Entered, ed1)"
  shows "ed_cmd ed1 = ed_cmd ed"
proof -
  obtain x ed2 where t: "telnet_filter c ed = (x, ed2)" by fastforce
  then have 2: "hidden ed2" "ed_cmd ed2 = ed_cmd ed" using assms(1) by (auto simp: telnet_filter_def Let_def split: if_splits)
  obtain c1 where [simp]: "x = Some c1" using assms(2) t by (cases x) (simp_all add: edit_key_def)
  obtain y ed3 where z: "escape_filter c1 ed2 = (y, ed3)" by fastforce
  then have 3: "hidden ed3" "ed_cmd ed3 = ed_cmd ed" using 2 by (auto simp: escape_filter_def split: if_splits)
  obtain c2 where "y = Some c2" using assms(2) t z by (cases y) (simp_all add: edit_key_def)
  then have "key_char e c2 ed3 = Some (Entered, ed1)" using assms(2) t z by (simp add: edit_key_def)
  from entered_char [OF 3(1) this] 3(2) show ?thesis by simp
qed

lemma entered_line:
  assumes "fair_callbacks e" and "quiet (ed_cli ed)" and "hidden ed" and "inner_round e ed = Some (Entered, ed1)"
  shows "ed_cmd ed1 = ed_cmd ed"
proof -
  have cmd: "ed_cmd (ed_write t d) = ed_cmd d" "ed_cmd (with_cli d s) = ed_cmd d" for d :: "'a edit" and t s
    by (simp_all add: with_cli_def)
  obtain ed0 where h: "loop_head ed = Some ed0" using assms(4) by (auto simp: inner_round_def Option.bind_eq_Some_conv)
  have e0: "entry ed0 = entry ed" using entry_head [OF h] .
  have c0: "ed_cmd ed0 = ed_cmd ed"
    using h by (auto simp: loop_head_def state_prompt_def Let_def cmd split: if_splits cli_states.splits dest!: ed_prompt_fields)
  have "door (ed_cli ed0) = door (ed_cli ed)" using e0 by (simp add: entry_def)
  then have q: "quiet (ed_cli ed0)" using assms(2) door_quiet by blast
  obtain ok s1 where r: "regular_step e (ed_cli ed0) = (ok, s1)" by fastforce
  have d1: "door s1 = door (ed_cli ed0)" using regular_door [OF assms(1) q r] .
  have e1: "entry (with_cli ed0 s1) = entry ed" using with_cli_entry [OF d1] e0 by simp
  have q1: "quiet (ed_cli (with_cli ed0 s1))" using q d1 door_quiet [of s1 "ed_cli ed0"] by (simp add: with_cli_def)
  have [simp]: ok using assms(4) h r by (cases ok) (simp_all add: inner_round_def)
  obtain w ed2 where w: "wait_char e (with_cli ed0 s1) = (w, ed2)" by fastforce
  have e2: "entry ed2 = entry ed" using entry_wait [OF assms(1) q1 w] e1 by simp
  have "ed_cmd ed2 = ed_cmd (with_cli ed0 s1)"
    using w by (auto simp: wait_char_def idle_step_def Let_def with_cli_def split: prod.splits if_splits option.splits)
  then have c2: "ed_cmd ed2 = ed_cmd ed" using c0 by (simp add: with_cli_def)
  obtain c where "w = Char c" using assms(4) h r w by (cases w) (simp_all add: inner_round_def)
  then have k: "edit_key e c ed2 = Some (Entered, ed1)" using assms(4) h r w by (simp add: inner_round_def)
  have "hidden ed2" using e2 assms(3) by (simp add: entry_def door_def hidden_def)
  from entered_key [OF this k] c2 show ?thesis by simp
qed

text \<open>The end of a line before the login.\<close>

lemma line_outside:
  assumes "fair_callbacks e" and "quiet (ed_cli ed)" and "outside ed" and "line_entered e ed = Some (More, ed1)"
  shows "settings (ed_cli ed1) = settings (ed_cli ed) \<and> cli_privilege (ed_cli ed1) = cli_privilege (ed_cli ed)
    \<and> (outside ed1 \<or> cli_state (ed_cli ed1) = STATE_NORMAL \<and> hidden ed \<and> (\<exists>u. ed_username ed = Some u
         \<and> accepts e (cli_users (ed_cli ed)) (cli_auth_callback (ed_cli ed)) u (cstr (ed_cmd ed))))"
proof (cases "cli_state (ed_cli ed) = STATE_LOGIN")
  case True
  show ?thesis
  proof (cases "ed_l ed = 0")
    case True
    with assms(4) \<open>cli_state (ed_cli ed) = STATE_LOGIN\<close> show ?thesis by (simp add: line_entered_def outside_def)
  next
    case False
    obtain x s1 where x: "cli_strdup (cstr (ed_cmd ed)) (ed_cli ed) = (x, s1)" by fastforce
    note d = strdup_door [OF x]
    obtain u where [simp]: "x = Some u"
      using assms(4) True False x by (cases x) (auto simp: line_entered_def line_login_def line_done_def)
    have ed1: "ed1 = with_cli ((with_cli ed (cli_reprompt (s1\<lparr>cli_state := STATE_PASSWORD\<rparr>)))\<lparr>ed_username := Some u\<rparr>)
        (note_action e (cli_reprompt (s1\<lparr>cli_state := STATE_PASSWORD\<rparr>)))"
      using assms(4) True False x by (auto simp: line_entered_def line_login_def line_done_def with_cli_def)
    have "door (ed_cli ed1) = door (s1\<lparr>cli_state := STATE_PASSWORD\<rparr>)" "ed_username ed1 = Some u"
      by (simp_all add: ed1 with_cli_def)
    with d show ?thesis by (simp add: outside_def door_def settings_def)
  qed
next
  case False
  with assms(3) obtain u where st: "cli_state (ed_cli ed) = STATE_PASSWORD" and u: "ed_username ed = Some u"
    by (auto simp: outside_def)
  let ?p = "cstr (ed_cmd ed)"
  obtain x s1 where x: "cli_strdup ?p (ed_cli ed) = (x, s1)" by fastforce
  note d = strdup_door [OF x]
  have [simp]: "x = Some ?p"
    using assms(4) st x by (auto simp: line_entered_def line_password_def line_done_def cli_strdup_def split: if_splits prod.splits)
  obtain ok s2 where l: "login_allowed e u ?p s1 = (ok, s2)" by fastforce
  have "quiet s1" using d assms(2) door_quiet by metis
  note a = login_allowed_door [OF assms(1) this l]
  have q: "quiet s2" using a d assms(2) door_quiet by metis
  define s3 where "s3 = (if ok then cli_reprompt ((cli_error e '' '' s2)\<lparr>cli_state := STATE_NORMAL\<rparr>)
      else cli_reprompt ((cli_error e ([CHR 0x0A, CHR 0x0A] @ ''Access denied'') s2)\<lparr>cli_state := STATE_LOGIN\<rparr>))"
  have "null_text (Some u) = u" by (simp add: null_text_def)
  then have "ed_cli ed1 = note_action e s3"
    using assms(4) st x l u by (auto simp: line_entered_def line_password_def line_done_def with_cli_def s3_def)
  then have "door (ed_cli ed1) = door s3" by simp
  moreover have "door s3 = door (s2\<lparr>cli_state := (if ok then STATE_NORMAL else STATE_LOGIN)\<rparr>)"
    using error_door [OF q] by (auto simp: s3_def door_def cli_reprompt_def)
  ultimately show ?thesis using a d u st by (cases ok) (auto simp: outside_def door_def settings_def hidden_def)
qed

lemma next_line_entry [simp]: "entry (next_line ed) = entry ed"
  by (auto simp: next_line_def Let_def entry_def split: option.split)

text \<open>A step of a session before the login.\<close>

lemma step_outside:
  assumes "fair_callbacks e" and "quiet (ed_cli ed)" and "outside ed" and "session_step e ed = Some (More, ed1)"
  shows "settings (ed_cli ed1) = settings (ed_cli ed) \<and> cli_privilege (ed_cli ed1) = cli_privilege (ed_cli ed)
    \<and> (outside ed1 \<or> cli_state (ed_cli ed1) = STATE_NORMAL \<and> hidden ed \<and> (\<exists>u. ed_username ed = Some u
         \<and> accepts e (cli_users (ed_cli ed)) (cli_auth_callback (ed_cli ed)) u (cstr (ed_cmd ed))))"
proof -
  have n: "no_completion ed" using assms(3) by (auto simp: outside_def no_completion_def)
  obtain k ed2 where r: "inner_round e ed = Some (k, ed2)"
    using assms(4) by (auto simp: session_step_def Option.bind_eq_Some_conv)
  have e2: "entry ed2 = entry ed" using entry_round [OF assms(1,2) n r] .
  have same: "outside ed' \<longleftrightarrow> outside ed''" "settings (ed_cli ed') = settings (ed_cli ed'')"
      "cli_privilege (ed_cli ed') = cli_privilege (ed_cli ed'')" "cli_state (ed_cli ed') = cli_state (ed_cli ed'')"
      "ed_username ed' = ed_username ed''" "quiet (ed_cli ed') = quiet (ed_cli ed'')"
      "cli_users (ed_cli ed') = cli_users (ed_cli ed'')" "hidden ed' = hidden ed''" "cli_auth_callback (ed_cli ed') = cli_auth_callback (ed_cli ed'')"
    if "entry ed' = entry ed''" for ed' ed'' :: "'a edit"
    using that by (auto simp: entry_def door_def outside_def settings_def quiet_def hidden_def)
  show ?thesis
  proof (cases k)
    case Again
    with assms(3,4) r same [OF e2] show ?thesis by (simp add: session_step_def)
  next
    case Closed
    with assms(4) r show ?thesis by (simp add: session_step_def)
  next
    case Entered
    then obtain ed3 where l: "line_entered e ed2 = Some (More, ed3)" and ed1: "ed1 = next_line ed3"
      using assms(4) r by (auto simp: session_step_def split: if_splits)
    have "quiet (ed_cli ed2)" "outside ed2" using assms(2,3) same [OF e2] by simp_all
    note line_outside [OF assms(1) this l]
    moreover have "ed_cmd ed2 = ed_cmd ed" if "hidden ed2"
      using entered_line [OF assms(1,2)] r Entered that same [OF e2] by simp
    ultimately show ?thesis using same [OF e2] same [of ed1 ed3] ed1 by auto
  qed
qed

text \<open>Runs of a session.\<close>

inductive session_reach :: "'u cli_env \<Rightarrow> 'u edit \<Rightarrow> 'u edit \<Rightarrow> bool" for e :: "'u cli_env" where
  reach_start: "session_reach e ed ed"
| reach_step: "session_reach e ed ed1 \<Longrightarrow> session_step e ed1 = Some (More, ed2) \<Longrightarrow> session_reach e ed ed2"

lemma reach_trans: "session_reach e b c \<Longrightarrow> session_reach e a b \<Longrightarrow> session_reach e a c"
  by (induction rule: session_reach.induct) (auto intro: reach_step)

lemma reach_first: "session_step e a = Some (More, b) \<Longrightarrow> session_reach e b c \<Longrightarrow> session_reach e a c"
  using reach_trans reach_step reach_start by metis

text \<open>A run stays outside or has passed a password prompt with a line that was accepted.\<close>

lemma reach_outside:
  assumes "session_reach e ed0 ed" and "fair_callbacks e" and "quiet (ed_cli ed0)" and "outside ed0"
  shows "settings (ed_cli ed) = settings (ed_cli ed0) \<and> cli_privilege (ed_cli ed) = cli_privilege (ed_cli ed0) \<and> outside ed
    \<or> (\<exists>ed1 ed2 u. session_reach e ed0 ed1 \<and> session_step e ed1 = Some (More, ed2) \<and> session_reach e ed2 ed
        \<and> cli_state (ed_cli ed1) = STATE_PASSWORD \<and> ed_username ed1 = Some u
        \<and> accepts e (cli_users (ed_cli ed0)) (cli_auth_callback (ed_cli ed0)) u (cstr (ed_cmd ed1)))"
  (is "?out ed \<or> ?in ed")
  using assms
proof (induction rule: session_reach.induct)
  case (reach_step ed ed1 ed2)
  from reach_step.IH [OF reach_step.prems] show ?case
  proof
    assume "\<exists>d1 d2 u. session_reach e ed d1 \<and> session_step e d1 = Some (More, d2) \<and> session_reach e d2 ed1
        \<and> cli_state (ed_cli d1) = STATE_PASSWORD \<and> ed_username d1 = Some u
        \<and> accepts e (cli_users (ed_cli ed)) (cli_auth_callback (ed_cli ed)) u (cstr (ed_cmd d1))"
    then show ?case using session_reach.reach_step [OF _ reach_step.hyps(2)] by blast
  next
    assume s: "settings (ed_cli ed1) = settings (ed_cli ed) \<and> cli_privilege (ed_cli ed1) = cli_privilege (ed_cli ed) \<and> outside ed1"
    then have "quiet (ed_cli ed1)" using reach_step.prems settings_quiet by metis
    note o = step_outside [OF reach_step.prems(1) this _ reach_step.hyps(2)]
    show ?case
    proof (cases "outside ed2")
      case True
      then show ?thesis using o s by simp
    next
      case False
      then obtain u where "hidden ed1" "ed_username ed1 = Some u"
        and "accepts e (cli_users (ed_cli ed)) (cli_auth_callback (ed_cli ed)) u (cstr (ed_cmd ed1))"
        using o s by (auto simp: settings_def)
      moreover from this(1) s have "cli_state (ed_cli ed1) = STATE_PASSWORD" by (auto simp: hidden_def outside_def)
      ultimately show ?thesis using reach_step.hyps reach_start by blast
    qed
  qed
qed simp

section \<open>A line that is typed\<close>

text \<open>A client whose characters are those of the list that is the state of the application.\<close>

definition feeds :: "string cli_env \<Rightarrow> bool" where
  "feeds e \<longleftrightarrow> (\<forall>a b u. env_select e a b u = ((1, a, b), u)) \<and> (\<forall>c u. env_read e (c # u) = ((1, c), u))"

text \<open>A session that takes commands, with no regular callback and no idle timeout.\<close>

definition calm :: "'u cli_def \<Rightarrow> bool" where
  "calm s \<longleftrightarrow> cli_state s \<in> {STATE_NORMAL, STATE_ENABLE} \<and> cli_regular_callback s = None \<and> cli_idle_timeout s = 0"

text \<open>The session without what reading and showing a line changes.\<close>

definition core where
  "core s = s\<lparr>cli_out := [], cli_transient_mode := 0, cli_disallow_buildmode := False, cli_showprompt := False, cli_app := []\<rparr>"

lemma core_simps [simp]:
  "core (s\<lparr>cli_out := t\<rparr>) = core s" "core (s\<lparr>cli_transient_mode := i\<rparr>) = core s"
  "core (s\<lparr>cli_disallow_buildmode := b\<rparr>) = core s" "core (s\<lparr>cli_showprompt := b\<rparr>) = core s" "core (s\<lparr>cli_app := u\<rparr>) = core s"
  by (simp_all add: core_def)

lemma core_fields:
  "cli_state (core s) = cli_state s" "cli_regular_callback (core s) = cli_regular_callback s"
  "cli_idle_timeout (core s) = cli_idle_timeout s" "cli_promptchar (core s) = cli_promptchar s"
  by (simp_all add: core_def)

lemma core_calm:
  assumes "core s = core t"
  shows "calm s = calm t"
proof -
  have "cli_state s = cli_state t" "cli_regular_callback s = cli_regular_callback t" "cli_idle_timeout s = cli_idle_timeout t"
    using core_fields(1-3) assms by metis+
  then show ?thesis by (simp add: calm_def)
qed

lemma shown_core: "shown_only ed ed' \<Longrightarrow> core (ed_cli ed') = core (ed_cli ed) \<and> cli_app (ed_cli ed') = cli_app (ed_cli ed)"
  by (auto simp: shown_only_def)

lemma edits_with:
  "edits ed b a \<Longrightarrow> cli_state s = cli_state (ed_cli ed) \<Longrightarrow> cli_promptchar s = cli_promptchar (ed_cli ed) \<Longrightarrow>
     edits (ed\<lparr>ed_cli := s\<rparr>) b a"
  by (simp add: edits_def hidden_def)

lemma edits_tm [simp]: "edits (ed\<lparr>ed_tm := tm\<rparr>) b a = edits ed b a"
  by (simp add: edits_def hidden_def)

lemma edits_write [simp]: "edits (ed_write t ed) b a = edits ed b a" "edits (ed_echo t ed) b a = edits ed b a"
  by (simp_all add: edits_def)

lemma head_text:
  assumes "edits ed b a" and "calm (ed_cli ed)"
  shows "\<exists>ed0. loop_head ed = Some ed0 \<and> edits ed0 b a \<and> core (ed_cli ed0) = core (ed_cli ed)
    \<and> cli_app (ed_cli ed0) = cli_app (ed_cli ed)"
proof -
  let ?s = "ed_cli ed"
  define ed1 where "ed1 = ed\<lparr>ed_cli := ?s\<lparr>cli_transient_mode := cli_mode ?s, cli_disallow_buildmode := (cli_buildmode ?s \<noteq> None)\<rparr>\<rparr>"
  have e1: "edits ed1 b a" using assms(1) by (auto simp: ed1_def intro: edits_with)
  have c1: "core (ed_cli ed1) = core ?s" "cli_app (ed_cli ed1) = cli_app ?s" "cli_state (ed_cli ed1) = cli_state ?s"
    by (simp_all add: ed1_def)
  show ?thesis
  proof (cases "cli_showprompt ?s")
    case False
    then have "loop_head ed = Some ed1" unfolding loop_head_def Let_def ed1_def by simp
    with e1 c1 show ?thesis by simp
  next
    case True
    let ?d = "ed_echo crlf ed1"
    have p: "cli_promptchar (ed_cli ?d) \<noteq> None" using e1 by (simp add: edits_def)
    then obtain t where t: "ed_prompt ?d = Some (ed_write t ?d)" by (rule ed_prompt_edits)
    have st: "cli_state (ed_cli ?d) \<in> {STATE_NORMAL, STATE_ENABLE}"
      using assms(2) c1(3) by (auto simp: calm_def ed_echo_def ed_write_def sock_write_def)
    define ed2 where "ed2 = ed_write (slice 0 (ed_l ?d) (ed_cmd ?d) @ backspaces (ed_l ?d - ed_cursor ?d)) (ed_write t ?d)"
    have sp: "state_prompt ?d = Some ed2" using st t by (auto simp: state_prompt_def ed2_def)
    have sh: "shown_only ed1 ed2" unfolding ed2_def by (blast intro: shown_only_trans shown_only_write)
    define ed3 where "ed3 = ed2\<lparr>ed_cli := (ed_cli ed2)\<lparr>cli_showprompt := False\<rparr>\<rparr>"
    have "loop_head ed = Some ed3"
      using True sp unfolding loop_head_def Let_def ed3_def ed1_def by simp
    moreover have "edits ed2 b a" using e1 by (simp add: ed2_def)
    then have "edits ed3 b a" by (simp add: ed3_def edits_with)
    moreover have "core (ed_cli ed3) = core ?s" "cli_app (ed_cli ed3) = cli_app ?s"
      using shown_core [OF sh] c1 by (simp_all add: ed3_def)
    ultimately show ?thesis by blast
  qed
qed

lemma round_text:
  assumes "feeds e" and "edits ed b a" and "calm (ed_cli ed)" and "cli_app (ed_cli ed) = c # rest"
  shows "\<exists>ed0. inner_round e ed = edit_key e c ed0 \<and> edits ed0 b a \<and> core (ed_cli ed0) = core (ed_cli ed)
    \<and> cli_app (ed_cli ed0) = rest"
proof -
  from head_text [OF assms(2,3)] obtain ed0 where h: "loop_head ed = Some ed0" "edits ed0 b a"
    "core (ed_cli ed0) = core (ed_cli ed)" "cli_app (ed_cli ed0) = c # rest" using assms(4) by auto
  have c: "calm (ed_cli ed0)" using assms(3) h(3) core_calm by metis
  then have r: "regular_step e (ed_cli ed0) = (True, ed_cli ed0)" by (simp add: regular_step_def calm_def)
  let ?s = "(ed_cli ed0)\<lparr>cli_app := rest\<rparr>" and ?t = "(ed_cli ed0)\<lparr>cli_app := c # rest\<rparr>"
  define ed1 where "ed1 = (with_cli ((with_cli ed0 ?t)\<lparr>ed_tm := ed_tm ed0\<rparr>) ?s)"
  have "note_action e ?s = ?s" using c by (simp add: note_action_def calm_def)
  then have "wait_char e (with_cli ed0 (ed_cli ed0)) = (Char c, ed1)"
    using assms(1) h(4) by (simp add: wait_char_def cli_socket_wait_def feeds_def with_cli_def ed1_def Let_def)
  then have "inner_round e ed = edit_key e c ed1" using h(1) r by (simp add: inner_round_def)
  moreover have "edits ed1 b a" using h(2) by (auto simp: ed1_def with_cli_def intro: edits_with)
  moreover have "ed_cli ed1 = ?s" by (simp add: ed1_def with_cli_def)
  ultimately show ?thesis using h(3) by auto
qed

text \<open>The session reads the keys of a line one by one.\<close>

lemma keys_reach:
  assumes "feeds e" and "edits ed b a" and "calm (ed_cli ed)" and "\<forall>c \<in> set cs. text_char c"
    and "cli_app (ed_cli ed) = cs @ rest"
  shows "\<exists>ed'. session_reach e ed ed' \<and> edits ed' (fst (fold text_key cs (b, a))) (snd (fold text_key cs (b, a)))
    \<and> core (ed_cli ed') = core (ed_cli ed) \<and> cli_app (ed_cli ed') = rest"
  using assms
proof (induction cs arbitrary: ed b a)
  case Nil
  then show ?case by (auto intro: reach_start)
next
  case (Cons c cs)
  from round_text [OF Cons.prems(1-3)] Cons.prems(5) obtain ed0 where
    r: "inner_round e ed = edit_key e c ed0" "edits ed0 b a" "core (ed_cli ed0) = core (ed_cli ed)" "cli_app (ed_cli ed0) = cs @ rest"
    by auto
  obtain ed1 where k: "edit_key e c ed0 = Some (Again, ed1)"
      "edits ed1 (fst (text_key c (b, a))) (snd (text_key c (b, a)))" "shown_only ed0 ed1"
    using edit_key_edits [OF r(2), of c e] Cons.prems(4) by auto
  have s: "session_step e ed = Some (More, ed1)" using r(1) k(1) by (simp add: session_step_def)
  have c1: "core (ed_cli ed1) = core (ed_cli ed)" "cli_app (ed_cli ed1) = cs @ rest" using shown_core [OF k(3)] r(3,4) by simp_all
  then have "calm (ed_cli ed1)" using Cons.prems(3) core_calm by metis
  from Cons.IH [OF Cons.prems(1) k(2) this _ c1(2)] Cons.prems(4) c1(1) reach_first [OF s]
  show ?case by auto
qed

lemma enter_step:
  assumes "feeds e" and "edits ed b a" and "calm (ed_cli ed)" and "cli_app (ed_cli ed) = CHR 0x0D # rest"
  shows "\<exists>ed2. session_step e ed = map_option (\<lambda>(x, d). (x, if x = More then next_line d else d)) (line_command e ed2)
    \<and> cstr (ed_cmd ed2) = b @ a \<and> ed_l ed2 = length (b @ a) \<and> core (ed_cli ed2) = core (ed_cli ed) \<and> cli_app (ed_cli ed2) = rest"
proof -
  from round_text [OF assms] obtain ed0 where
    r: "inner_round e ed = edit_key e CHR 0x0D ed0" "edits ed0 b a" "core (ed_cli ed0) = core (ed_cli ed)" "cli_app (ed_cli ed0) = rest"
    by auto
  from enter_edits [OF r(2)] obtain ed2 where
    k: "edit_key e CHR 0x0D ed0 = Some (Entered, ed2)" "ed_l ed2 = length (b @ a)" "cstr (ed_cmd ed2) = b @ a" "shown_only ed0 ed2"
    by blast
  have c2: "core (ed_cli ed2) = core (ed_cli ed)" "cli_app (ed_cli ed2) = rest" using shown_core [OF k(4)] r(3,4) by simp_all
  then have "calm (ed_cli ed2)" using assms(3) core_calm by metis
  then have "line_entered e ed2 = line_command e ed2" by (auto simp: line_entered_def calm_def)
  then show ?thesis using r(1) k c2 by (auto simp: session_step_def)
qed

end
