(* ===== verification/Command_Facts.thy ===== *)
theory Command_Facts
  imports Server_Cli
begin

text \<open>
  Lemmas on the command line library that its properties rest on: abbreviations and the commands
  they find, filters over several lines, the history, the end of a pipeline.
\<close>

section \<open>Abbreviations\<close>

lemma common_len_sym: "common_len a b = common_len b a"
  by (induction a b rule: common_len.induct) (auto elim: common_len.elims)

lemma common_len_differ:
  "CHR 0x00 \<notin> set a \<Longrightarrow> CHR 0x00 \<notin> set b \<Longrightarrow>
   take (common_len a b) (a @ [CHR 0x00]) = take (common_len a b) (b @ [CHR 0x00]) \<Longrightarrow> a = b"
proof (induction a arbitrary: b)
  case Nil
  then show ?case by (cases b) auto
next
  case (Cons c cs)
  note step = Cons
  show ?case
  proof (cases b)
    case (Cons d ds)
    then show ?thesis using step(2-4) step(1) [of ds] by (cases "c = d") auto
  qed (use step(2-4) in auto)
qed

lemma foldl_max_ge: "x \<in> set xs \<Longrightarrow> (x::nat) \<le> foldl max m xs"
proof (induction xs arbitrary: m)
  case (Cons y ys)
  have "n \<le> foldl max n zs" for n :: nat and zs
    by (induction zs arbitrary: n) (auto intro: le_trans [OF max.cobounded1])
  then have "y \<le> foldl max (max m y) ys" by (meson le_trans max.cobounded2)
  with Cons show ?case by auto
qed simp

text \<open>A name as commands have them: lower case, no NUL.\<close>

definition plain_name :: "string \<Rightarrow> bool" where
  "plain_name n \<longleftrightarrow> map to_lower n = n \<and> CHR 0x00 \<notin> set n"

lemma strncaseeq_names:
  assumes "plain_name a" "plain_name b" "strncaseeq n a w" "strncaseeq n b w"
  shows "take n (a @ [CHR 0x00]) = take n (b @ [CHR 0x00])"
proof -
  have "map to_lower (take n (a @ [CHR 0x00])) = map to_lower (take n (b @ [CHR 0x00]))"
    using assms(3,4) by (simp add: strncaseeq_def)
  moreover have "map to_lower (x @ [CHR 0x00]) = x @ [CHR 0x00]" if "plain_name x" for x
    using that by (simp add: plain_name_def to_lower_def)
  ultimately show ?thesis using assms(1,2) by (simp add: take_map [symmetric])
qed

text \<open>What \<open>cli_build_shortest\<close> makes of a command and its siblings.\<close>

lemma shortest_data:
  "cmd_data (shortest m p sibs c) = (cmd_data c)\<lparr>c_unique_len :=
     (if visible m p (cmd_data c) then unique_len m p sibs (cmd_id c) (cmd_data c) else length (c_command (cmd_data c)))\<rparr>"
  by (cases c) auto

lemma shortest_id: "cmd_id (shortest m p sibs c) = cmd_id c"
  by (cases c) auto

lemma unique_len_ge:
  assumes "d \<in> set sibs" "cmd_id d \<noteq> i" "visible m p (cmd_data d)" "c_command_type (cmd_data d) = c_command_type c"
  shows "common_len (c_command c) (c_command (cmd_data d)) \<le> unique_len m p sibs i c"
  unfolding unique_len_def using assms by (intro foldl_max_ge) auto

lemma shortest_unambiguous:
  assumes "c \<in> set sibs" "d \<in> set sibs" "cmd_id c \<noteq> cmd_id d"
    and "visible m p (cmd_data c)" "visible m p (cmd_data d)"
    and "c_command_type (cmd_data c) = c_command_type (cmd_data d)"
    and "plain_name (c_command (cmd_data c))" "plain_name (c_command (cmd_data d))"
    and "abbreviates w (cmd_data (shortest m p sibs c))" "abbreviates w (cmd_data (shortest m p sibs d))"
  shows "c_command (cmd_data c) = c_command (cmd_data d)"
proof -
  let ?a = "c_command (cmd_data c)" and ?b = "c_command (cmd_data d)"
  have "common_len ?a ?b \<le> c_unique_len (cmd_data (shortest m p sibs c))"
    using unique_len_ge [of d sibs "cmd_id c" m p "cmd_data c"] assms by (simp add: shortest_data)
  moreover have "common_len ?a ?b \<le> c_unique_len (cmd_data (shortest m p sibs d))"
    using unique_len_ge [of c sibs "cmd_id d" m p "cmd_data d"] assms
    by (simp add: shortest_data common_len_sym)
  ultimately have "strncaseeq (common_len ?a ?b) ?a w" "strncaseeq (common_len ?a ?b) ?b w"
    using assms(9,10) by (auto simp: abbreviates_def shortest_data intro: strncaseeq_le)
  from strncaseeq_names [OF assms(7,8) this] common_len_differ assms(7,8)
  show ?thesis by (auto simp: plain_name_def)
qed

section \<open>The command that is found\<close>

definition allowed :: "command_types \<Rightarrow> int \<Rightarrow> cli_command \<Rightarrow> bool" where
  "allowed type p c \<longleftrightarrow> c_command_type (cmd_data c) = type \<and> c_privilege (cmd_data c) \<le> p"

lemma pick_command_member:
  "pick_command m p type w cs ac aa \<in> {Taken c, Again_any c, Again_config c} \<Longrightarrow>
   (\<forall>d \<in> set cs. allowed type p d \<longrightarrow> P d) \<Longrightarrow> (\<forall>d. ac = Some d \<longrightarrow> P d) \<Longrightarrow> (\<forall>d. aa = Some d \<longrightarrow> P d) \<Longrightarrow> P c"
proof (induction cs arbitrary: ac aa)
  case Nil
  then show ?case by (auto split: option.splits)
next
  case (Cons x xs)
  let ?d = "cmd_data x"
  show ?case
  proof (cases "c_command_type ?d \<noteq> type \<or> p < c_privilege ?d \<or> \<not> abbreviates w ?d")
    case True
    then show ?thesis using Cons.prems Cons.IH [of ac aa] by simp
  next
    case False
    then have "P x" using Cons.prems(2) by (simp add: allowed_def)
    with False show ?thesis
      using Cons.prems Cons.IH [of ac aa] Cons.IH [of "Some x" aa] Cons.IH [of ac "Some x"]
      by (auto simp: Let_def split: if_splits)
  qed
qed

text \<open>Parsing the options does not change which command a stage has.\<close>

lemma after_value_command:
  "after_value e oas os i inc v (st, ch, s) = Some (r, st', ch', s') \<Longrightarrow> st_command st' = st_command st"
  by (auto simp: after_value_def stop_with_def Let_def Option.bind_eq_Some_conv
      split: if_splits prod.splits option.splits)

lemma take_value_command:
  "take_value e oas os lc i (st, ch, s) = Some (r, st', ch', s') \<Longrightarrow> st_command st' = st_command st"
  by (auto simp: take_value_def stop_with_def Let_def Option.bind_eq_Some_conv
      split: if_splits prod.splits option.splits dest!: after_value_command)

lemma optarg_round_command:
  assumes "optarg_round e os lc i (st, ch, s) = Some (r, st', ch', s')"
  shows "st_command st' = st_command st"
proof -
  obtain sc s1 where sc: "scan_optargs e (word_at (st_words st) i) os [] s = Some (sc, s1)"
    using assms by (auto simp: optarg_round_def Option.bind_eq_Some_conv)
  show ?thesis
  proof (cases sc)
    case (Spot_failed rc)
    then show ?thesis using assms sc by (auto simp: optarg_round_def stop_with_def)
  next
    case (Candidates cands)
    obtain called ch1 s2 where c: "(if lc \<noteq> CHR 0x00
         then comphelp_candidates e (map hd cands) lc st i False ch s1 else (False, ch, s1)) = (called, ch1, s2)"
      by (metis prod_cases3)
    consider "cands = []" | "cands \<noteq> []" "1 < length cands \<and> (lc = CHR 0x00 \<or> Suc i < st_num_words st)"
      | "cands \<noteq> []" "\<not> (1 < length cands \<and> (lc = CHR 0x00 \<or> Suc i < st_num_words st))" by blast
    then show ?thesis
    proof cases
      case 3
      show ?thesis
      proof (cases called)
        case True
        then show ?thesis using assms sc Candidates c 3 by (auto simp: optarg_round_def)
      next
        case False
        then show ?thesis using assms sc Candidates c 3
          by (auto simp: optarg_round_def Option.bind_eq_Some_conv dest!: take_value_command)
      qed
    qed (use assms sc Candidates in \<open>auto simp: optarg_round_def stop_with_def Option.bind_eq_Some_conv\<close>)
  qed
qed

lemma optarg_loop_command:
  "optarg_loop e n os lc i (st, ch, s) = Some (l, st', ch', s') \<Longrightarrow> st_command st' = st_command st"
proof (induction n arbitrary: os i st ch s)
  case 0
  then show ?case by simp
next
  case (Suc n)
  show ?case
  proof (cases "os = [] \<or> st_num_words st \<le> i")
    case True
    then show ?thesis using Suc.prems by auto
  next
    case False
    then obtain c r st1 ch1 s1 where o: "optarg_round e os lc i (st, ch, s) = Some ((c, r), st1, ch1, s1)"
      using Suc.prems by (auto simp: Option.bind_eq_Some_conv)
    then have 1: "st_command st1 = st_command st" by (rule optarg_round_command)
    show ?thesis using Suc.prems False o 1 Suc.IH
      by (auto split: round_end.splits if_splits)
  qed
qed

lemma save_found_command: "save_found (st, ch, s) = (st', ch', s') \<Longrightarrow> st_command st' = st_command st"
  by (auto simp: save_found_def split: option.splits)

lemma check_required_command: "check_required e c lc os (st, ch, s) = (st', ch', s') \<Longrightarrow> st_command st' = st_command st"
  by (auto simp: check_required_def split: if_splits list.splits)

lemma parse_optargs_command:
  assumes "cli_int_parse_optargs e c lc (st, ch, s) = Some (st', ch', s')"
  shows "st_command st' = st_command st"
proof -
  obtain l st1 ch1 s1 where
    l: "optarg_loop e (Suc (st_num_words st)) (c_optargs (cmd_data c)) lc (st_first_unmatched st)
          (st\<lparr>st_error_word := None\<rparr>, ch, s\<lparr>cli_found_optargs := found_here st s\<rparr>) = Some (l, st1, ch1, s1)"
    and r: "save_found (case l of None \<Rightarrow> (st1, ch1, s1) | Some os \<Rightarrow> check_required e c lc os (st1, ch1, s1)) = (st', ch', s')"
    using assms by (auto simp: cli_int_parse_optargs_def Option.bind_eq_Some_conv)
  obtain st2 ch2 s2 where c: "(case l of None \<Rightarrow> (st1, ch1, s1) | Some os \<Rightarrow> check_required e c lc os (st1, ch1, s1)) = (st2, ch2, s2)"
    by (metis prod_cases3)
  have "st_command st2 = st_command st1" using c by (auto split: option.splits dest: check_required_command)
  then show ?thesis using optarg_loop_command [OF l] save_found_command [OF r [unfolded c]] by simp
qed

text \<open>The commands of a tree, and their addresses.\<close>

fun all_commands :: "cli_command \<Rightarrow> cli_command list" where
  "all_commands (Cli_Command i d ch) = Cli_Command i d ch # concat (map all_commands ch)"

definition tree_commands :: "cli_command list \<Rightarrow> cli_command list" where
  "tree_commands cs = concat (map all_commands cs)"

definition distinct_ids :: "cli_command list \<Rightarrow> bool" where
  "distinct_ids cs \<longleftrightarrow> distinct (map cmd_id (tree_commands cs))"

lemma tree_commands_simps [simp]:
  "tree_commands [] = []" "tree_commands (c # cs) = all_commands c @ tree_commands cs"
  by (simp_all add: tree_commands_def)

lemma all_commands_self: "c \<in> set (all_commands c)"
  by (cases c) auto

lemma tree_commands_self: "c \<in> set cs \<Longrightarrow> c \<in> set (tree_commands cs)"
  using all_commands_self by (auto simp: tree_commands_def)

lemma tree_commands_children:
  "c \<in> set (tree_commands cs) \<Longrightarrow> set (cmd_children c) \<subseteq> set (tree_commands cs)"
proof -
  have "c \<in> set (all_commands t) \<Longrightarrow> k \<in> set (cmd_children c) \<Longrightarrow> k \<in> set (all_commands t)" for t k
  proof (induction t rule: all_commands.induct)
    case (1 i d ch)
    then show ?case using all_commands_self [of k] by auto
  qed
  then show "c \<in> set (tree_commands cs) \<Longrightarrow> set (cmd_children c) \<subseteq> set (tree_commands cs)"
    by (auto simp: tree_commands_def)
qed

lemma first_some_Nil [simp]: "first_some [] = None"
  by (simp add: first_some_def)

lemma first_some_Cons [simp]: "first_some (x # xs) = (case x of None \<Rightarrow> first_some xs | Some y \<Rightarrow> Some y)"
  by (auto simp: first_some_def split: option.split)

lemma first_some_None: "first_some xs = None \<longleftrightarrow> (\<forall>x \<in> set xs. x = None)"
  by (induction xs) (auto split: option.split)

lemma first_some_Some: "first_some xs = Some y \<Longrightarrow> Some y \<in> set xs"
  by (induction xs) (auto split: option.splits)

lemma find_command_Some: "find_command i t = Some c \<Longrightarrow> c \<in> set (all_commands t) \<and> cmd_id c = i"
proof (induction t rule: find_command.induct)
  case (1 i j d ch)
  show ?case
  proof (cases "i = j")
    case False
    then have "Some c \<in> set (map (find_command i) ch)" using 1(2) by (auto dest: first_some_Some)
    with 1(1) [OF False] show ?thesis by fastforce
  qed (use 1 in auto)
qed

lemma find_command_None: "find_command i t = None \<longleftrightarrow> i \<notin> cmd_id ` set (all_commands t)"
proof (induction t rule: find_command.induct)
  case (1 i j d ch)
  then show ?case by (auto simp: first_some_None)
qed

lemma find_in_tree:
  assumes "distinct_ids cs" and "c \<in> set (tree_commands cs)"
  shows "first_some (map (find_command (cmd_id c)) cs) = Some c"
proof -
  have "first_some (map (find_command (cmd_id c)) cs) \<noteq> None"
    using assms(2) by (auto simp: first_some_None find_command_None tree_commands_def)
  then obtain d where d: "first_some (map (find_command (cmd_id c)) cs) = Some d" by auto
  then have "Some d \<in> set (map (find_command (cmd_id c)) cs)" by (rule first_some_Some)
  then have "d \<in> set (tree_commands cs) \<and> cmd_id d = cmd_id c"
    by (auto simp: tree_commands_def dest!: find_command_Some [OF sym])
  then have "d = c" using assms by (auto simp: distinct_ids_def distinct_map inj_on_def)
  with d show ?thesis by simp
qed

text \<open>\<open>cli_build_shortest\<close> changes nothing but the abbreviations.\<close>

definition same_command :: "cli_command \<Rightarrow> cli_command \<Rightarrow> bool" where
  "same_command c d \<longleftrightarrow> cmd_id c = cmd_id d \<and> (\<exists>n. cmd_data d = (cmd_data c)\<lparr>c_unique_len := n\<rparr>)"

lemma shortest_ids: "map cmd_id (all_commands (shortest m p sibs t)) = map cmd_id (all_commands t)"
proof (induction t arbitrary: sibs rule: all_commands.induct)
  case (1 i d ch)
  have "map cmd_id (concat (map all_commands (map (shortest m p ch) ch))) = map cmd_id (concat (map all_commands ch))"
    using 1 by (simp add: map_concat comp_def cong: map_cong)
  then show ?case by simp
qed

lemma shortest_find:
  "find_command i (shortest m p sibs t) = Some c \<Longrightarrow> \<exists>c0. find_command i t = Some c0 \<and> same_command c0 c"
proof (induction t arbitrary: sibs rule: find_command.induct)
  case (1 i j d ch)
  show ?case
  proof (cases "i = j")
    case True
    then show ?thesis using 1(2) by (auto simp: same_command_def split: if_splits)
  next
    case False
    show ?thesis
    proof (cases "visible m p d")
      case True
      then have f: "first_some (map (find_command i) (map (shortest m p ch) ch)) = Some c" using 1(2) False by simp
      have "first_some (map (find_command i) (map (shortest m p us) ts)) = Some c \<Longrightarrow> set ts \<subseteq> set ch \<Longrightarrow>
          \<exists>c0. first_some (map (find_command i) ts) = Some c0 \<and> same_command c0 c" for ts us
      proof (induction ts)
        case (Cons t ts)
        have "find_command i (shortest m p us t) = None \<longleftrightarrow> find_command i t = None"
          unfolding find_command_None by (metis (no_types, lifting) image_set shortest_ids)
        then show ?case using Cons 1(1) [OF False, of t us]
          by (cases "find_command i t"; cases "find_command i (shortest m p us t)") auto
      qed simp
      from this [OF f] False show ?thesis by simp
    next
      case False
      then show ?thesis using 1(2) \<open>i \<noteq> j\<close> by (auto simp: same_command_def split: option.splits intro!: exI [of _ "c_unique_len (cmd_data c)"])
    qed
  qed
qed

lemma build_shortest_frame [simp]:
  "cli_privilege (cli_build_shortest s) = cli_privilege s" "cli_mode (cli_build_shortest s) = cli_mode s"
  by (simp_all add: cli_build_shortest_def)

lemma build_shortest_ids: "distinct_ids (cli_commands s) \<Longrightarrow> distinct_ids (cli_commands (cli_build_shortest s))"
  by (simp add: distinct_ids_def tree_commands_def cli_build_shortest_def map_concat comp_def shortest_ids)

lemma build_shortest_at:
  assumes "command_at i (cli_build_shortest s) = Some c"
  shows "\<exists>c0. command_at i s = Some c0 \<and> same_command c0 c"
proof -
  have "first_some (map (find_command i) (map (shortest m p us) ts)) = Some c \<Longrightarrow>
      \<exists>c0. first_some (map (find_command i) ts) = Some c0 \<and> same_command c0 c" for m p us ts
  proof (induction ts)
    case (Cons t ts)
    have "find_command i (shortest m p us t) = None \<longleftrightarrow> find_command i t = None"
      unfolding find_command_None by (metis (no_types, lifting) image_set shortest_ids)
    then show ?case using Cons shortest_find [of i m p us t c]
      by (cases "find_command i t"; cases "find_command i (shortest m p us t)") auto
  qed simp
  then show ?thesis using assms by (simp add: command_at_def cli_build_shortest_def)
qed

lemma set_modestring_commands [simp]:
  "cli_commands (cli_set_modestring m s) = cli_commands s"
  "cli_privilege (cli_set_modestring m s) = cli_privilege s" "cli_mode (cli_set_modestring m s) = cli_mode s"
  by (auto simp: cli_set_modestring_def cli_strdup_def cli_alloc_def split: option.split list.split prod.split)

lemma set_configmode_cases:
  "\<exists>t. cli_commands t = cli_commands s \<and> cli_privilege t = cli_privilege s \<and> cli_mode t = m
     \<and> (snd (cli_set_configmode m d s) = cli_build_shortest t \<or> snd (cli_set_configmode m d s) = t)"
proof (cases "m = cli_mode s")
  case True
  then show ?thesis by (intro exI [of _ "s\<lparr>cli_mode := m\<rparr>"]) (simp add: cli_set_configmode_def)
next
  case False
  define x where "x = (if m = 0 then None else case d of
    Some (c # cs) \<Rightarrow> Some (snprintf_fit 64 (''(config-'' @ (c # cs) @ '')'')) | _ \<Rightarrow> Some ''(config)'')"
  have "snd (cli_set_configmode m d s) = cli_build_shortest (cli_set_modestring x (s\<lparr>cli_mode := m\<rparr>))"
    using False by (simp add: cli_set_configmode_def x_def split: option.split list.split)
  then show ?thesis by (intro exI [of _ "cli_set_modestring x (s\<lparr>cli_mode := m\<rparr>)"]) simp
qed

lemma set_configmode_at:
  assumes "command_at i (snd (cli_set_configmode m d s)) = Some c"
  shows "\<exists>c0. command_at i s = Some c0 \<and> same_command c0 c"
proof -
  obtain t where t: "cli_commands t = cli_commands s"
    and "snd (cli_set_configmode m d s) = cli_build_shortest t \<or> snd (cli_set_configmode m d s) = t"
    using set_configmode_cases [of s m d] by blast
  then consider "command_at i (cli_build_shortest t) = Some c" | "command_at i t = Some c" using assms by metis
  then show ?thesis
  proof cases
    case 1
    then show ?thesis using build_shortest_at [of i t c] t by (simp add: command_at_def)
  next
    case 2
    have "c = (case c of Cli_Command i d ch \<Rightarrow> Cli_Command i (d\<lparr>c_unique_len := c_unique_len d\<rparr>) ch)" by (cases c) simp
    then have "same_command c c" by (auto simp: same_command_def intro!: exI [of _ "c_unique_len (cmd_data c)"])
    with 2 t show ?thesis by (auto simp: command_at_def)
  qed
qed

lemma set_configmode_ids:
  "distinct_ids (cli_commands s) \<Longrightarrow> distinct_ids (cli_commands (snd (cli_set_configmode m d s)))"
  using set_configmode_cases [of s m d] build_shortest_ids by metis

lemma set_configmode_privilege [simp]: "cli_privilege (snd (cli_set_configmode m d s)) = cli_privilege s"
  using set_configmode_cases [of s m d] by auto

lemma command_at_member: "command_at i s = Some c \<Longrightarrow> c \<in> set (tree_commands (cli_commands s)) \<and> cmd_id c = i"
  unfolding command_at_def by (auto simp: tree_commands_def dest!: first_some_Some find_command_Some [OF sym])

lemma found_command_stage:
  "found_command e c i st s = Some (rc, st', s') \<Longrightarrow> st_command st' = Some c"
  by (auto simp: found_command_def Option.bind_eq_Some_conv dest!: parse_optargs_command)

lemma same_command_allowed: "same_command c d \<Longrightarrow> allowed type p d = allowed type p c"
  by (auto simp: same_command_def allowed_def)

lemma locate_allowed:
  assumes "cli_int_locate_command e n type i cs st s = Some (CLI_OK, st', s')"
    and "distinct_ids (cli_commands s)" and "set cs \<subseteq> set (tree_commands (cli_commands s))"
  shows "\<exists>c. st_command st' = Some c \<and> allowed type (cli_privilege s) c"
  using assms
proof (induction n arbitrary: i cs st s)
  case 0
  then show ?case by simp
next
  case (Suc n)
  let ?take = "\<lambda>c u. (let d = cmd_data c in
        if cmd_children c = [] then
          (if c_callback d = None \<and> c_filter d = None
           then Some (CLI_ERROR, st, cli_error e (''No callback for '' @ quoted (c_full_command_name d)) u)
           else found_command e c i st u)
        else if Suc i = st_num_words st then
          (if c_callback d \<noteq> None then found_command e c i st u else Some (CLI_ERROR, st, cli_error e ''Incomplete command'' u))
        else do {
          (rc, st1, u1) \<leftarrow> cli_int_locate_command e n type (Suc i) (cmd_children c) st u;
          if rc \<noteq> CLI_ERROR_ARG then Some (rc, st1, u1)
          else if c_callback d \<noteq> None then found_command e c i st1 u1
          else Some (CLI_ERROR, st1, cli_error e (''Invalid command '' @
              quoted (c_full_command_name d @ '' '' @ null_text (word_at (st_words st1) (Suc i)))) u1)
        })"
  have taken: "\<exists>c'. st_command st' = Some c' \<and> allowed type (cli_privilege s) c'"
    if t: "?take c u = Some (CLI_OK, st', s')" and a: "allowed type (cli_privilege s) c"
      and p: "cli_privilege u = cli_privilege s" and d: "distinct_ids (cli_commands u)"
      and m: "c \<in> set (tree_commands (cli_commands u))" for c u
  proof -
    have kids: "set (cmd_children c) \<subseteq> set (tree_commands (cli_commands u))" by (rule tree_commands_children [OF m])
    have ne: "CLI_ERROR \<noteq> CLI_OK" by (simp add: cli_codes)
    consider (found) st0 u0 where "found_command e c i st0 u0 = Some (CLI_OK, st', s')"
      | (down) "cli_int_locate_command e n type (Suc i) (cmd_children c) st u = Some (CLI_OK, st', s')"
      using t ne by (auto simp: Let_def Option.bind_eq_Some_conv split: if_splits)
    then show ?thesis
    proof cases
      case found
      then show ?thesis using a found_command_stage by blast
    next
      case down
      from Suc.IH [OF this d kids] p show ?thesis by simp
    qed
  qed
  obtain w where w: "word_at (st_words st) i = Some w" using Suc.prems(1) by (auto simp: Option.bind_eq_Some_conv)
  let ?p = "pick_command (cli_mode s) (cli_privilege s) type w cs None None"
  have pick: "allowed type (cli_privilege s) c \<and> c \<in> set cs" if "?p \<in> {Taken c, Again_any c, Again_config c}" for c
    using that by (rule pick_command_member) auto
  have run: "(case ?p of Taken c \<Rightarrow> ?take c s | Again_any c \<Rightarrow> ?take c s
      | Again_config c \<Rightarrow> (let s1 = snd (cli_set_configmode MODE_CONFIG None s)
                           in do { c1 \<leftarrow> command_at (cmd_id c) s1; ?take c1 s1 })
      | No_match \<Rightarrow> Some (CLI_ERROR_ARG, st, if i = 0 then cli_error e (''Invalid command '' @ quoted w) s else s))
      = Some (CLI_OK, st', s')"
    using Suc.prems(1) w by simp
  show ?case
  proof (cases ?p)
    case (Taken c)
    then have t: "?take c s = Some (CLI_OK, st', s')" using run by simp
    from taken [OF t _ refl Suc.prems(2)] pick [of c] Taken Suc.prems(3) show ?thesis by auto
  next
    case (Again_any c)
    then have t: "?take c s = Some (CLI_OK, st', s')" using run by simp
    from taken [OF t _ refl Suc.prems(2)] pick [of c] Again_any Suc.prems(3) show ?thesis by auto
  next
    case (Again_config c)
    let ?s1 = "snd (cli_set_configmode MODE_CONFIG None s)"
    obtain c1 where c1: "command_at (cmd_id c) ?s1 = Some c1" and t: "?take c1 ?s1 = Some (CLI_OK, st', s')"
      using run Again_config by (auto simp: Let_def Option.bind_eq_Some_conv)
    obtain c0 where c0: "command_at (cmd_id c) s = Some c0" "same_command c0 c1" using set_configmode_at [OF c1] by blast
    have c: "allowed type (cli_privilege s) c" "c \<in> set (tree_commands (cli_commands s))"
      using pick [of c] Again_config Suc.prems(3) by auto
    have "c0 = c" using find_in_tree [OF Suc.prems(2) c(2)] c0(1) by (simp add: command_at_def)
    with c0(2) c(1) have "allowed type (cli_privilege s) c1" by (simp add: same_command_allowed)
    from taken [OF t this _ set_configmode_ids [OF Suc.prems(2)] command_at_member [OF c1, THEN conjunct1]]
    show ?thesis by simp
  next
    case No_match
    then show ?thesis using run by (auto simp: cli_codes)
  qed
qed

end
