(* ===== verification/Filter_Facts.thy ===== *)
theory Filter_Facts
  imports Server_Cli
begin

text \<open>
  Printing through filters: the output of a session is the lines its filters let pass, in order.
\<close>

section \<open>One line\<close>

text \<open>A session that prints: memory is there, nothing is in the buffer, the output goes to the client.\<close>

definition ready :: "'u cli_def \<Rightarrow> bool" where
  "ready s \<longleftrightarrow> cli_mem s = [] \<and> cli_buffer s = [] \<and> cli_print_cb s = None \<and> cli_client s"

lemma ready_simps [simp]:
  "ready (s\<lparr>cli_filters := fs\<rparr>) = ready s" "ready (s\<lparr>cli_pipeline := p\<rparr>) = ready s"
  "ready (s\<lparr>cli_found_optargs := o'\<rparr>) = ready s" "ready (s\<lparr>cli_out := t\<rparr>) = ready s"
  "ready (s\<lparr>cli_buf_size := n\<rparr>) = ready s"
  by (simp_all add: ready_def)

definition one_line :: "string \<Rightarrow> bool" where
  "one_line l \<longleftrightarrow> CHR 0x0A \<notin> set l"

lemma print_lines_one:
  "one_line l \<Longrightarrow> print_lines e flt False acc l s = ([], print_line e flt (acc @ l) s)"
  by (induction l arbitrary: acc) (auto simp: one_line_def)

lemma print_line_ready:
  assumes "ready s" and "filter_chain e l (cli_filters s) = (b, fs)"
  shows "print_line e True l s = s\<lparr>cli_filters := fs, cli_out := cli_out s @ (if b then l @ crlf else [])\<rparr>"
  using assms by (auto simp: print_line_def emit_line_def client_write_def ready_def)

lemma cli_print_ready:
  assumes "ready s" and "one_line l" and "filter_chain e l (cli_filters s) = (b, fs)"
  shows "ready (cli_print e l s) \<and> cli_filters (cli_print e l s) = fs
    \<and> cli_out (cli_print e l s) = cli_out s @ (if b then l @ crlf else [])"
proof -
  define s2 where "s2 = (if cli_buf_size s < length l + 1 then s\<lparr>cli_buf_size := length l + 1\<rparr> else s)"
  have r: "ready s2" "cli_filters s2 = cli_filters s" "cli_out s2 = cli_out s" "cli_buffer s2 = []"
    using assms(1) by (auto simp: s2_def) (auto simp: ready_def)
  have "cli_print e l s = (print_line e True l s2)\<lparr>cli_buffer := []\<rparr>"
    using assms(1) print_lines_one [OF assms(2), of e True "[]" s2]
    by (auto simp: cli_print_def print_mode_def s2_def ready_def Let_def)
  with print_line_ready [OF r(1)] assms(3) r show ?thesis by (simp add: ready_def)
qed

section \<open>Several lines\<close>

fun filter_text :: "'u cli_env \<Rightarrow> string list \<Rightarrow> cli_filter list \<Rightarrow> string list \<times> cli_filter list" where
  "filter_text e [] fs = ([], fs)"
| "filter_text e (l # ls) fs =
     (case filter_chain e l fs of (pass, fs1) \<Rightarrow>
        (case filter_text e ls fs1 of (ks, fs2) \<Rightarrow> ((if pass then l # ks else ks), fs2)))"

definition as_lines :: "string list \<Rightarrow> string" where
  "as_lines ls = concat (map (\<lambda>l. l @ crlf) ls)"

lemma as_lines_simps [simp]: "as_lines [] = []" "as_lines (l # ls) = l @ crlf @ as_lines ls"
  by (simp_all add: as_lines_def)

lemma cli_prints_ready:
  assumes "ready s" and "\<forall>l \<in> set ls. one_line l" and "filter_text e ls (cli_filters s) = (ks, fs)"
  shows "ready (cli_print_fn e ls s) \<and> cli_filters (cli_print_fn e ls s) = fs
    \<and> cli_out (cli_print_fn e ls s) = cli_out s @ as_lines ks"
  using assms
proof (induction ls arbitrary: s ks)
  case Nil
  then show ?case by (simp add: cli_print_fn_def)
next
  case (Cons l ls)
  obtain b fs1 where c: "filter_chain e l (cli_filters s) = (b, fs1)" by fastforce
  obtain ks1 where t: "filter_text e ls fs1 = (ks1, fs)" and k: "ks = (if b then l # ks1 else ks1)"
    using Cons.prems(3) c by (auto split: prod.splits)
  have p: "ready (cli_print e l s)" "cli_filters (cli_print e l s) = fs1"
      "cli_out (cli_print e l s) = cli_out s @ (if b then l @ crlf else [])"
    using cli_print_ready [OF Cons.prems(1) _ c] Cons.prems(2) by auto
  have f: "cli_print_fn e (l # ls) s = cli_print_fn e ls (cli_print e l s)" by (simp add: cli_print_fn_def)
  from Cons.IH [OF p(1)] Cons.prems(2) t p(2,3) k show ?case unfolding f by auto
qed

text \<open>The filters of the library, one at a time.\<close>

definition blank :: "string \<Rightarrow> bool" where
  "blank l \<longleftrightarrow> dropWhile is_space l = []"

definition count_of :: "int \<Rightarrow> cli_filter" where
  "count_of n = \<lparr>fl_filter = Some Count_filter, fl_data = Count_state n\<rparr>"

lemma count_text:
  "filter_text e ls [count_of n] = ([], [count_of (n + int (length (filter (\<lambda>l. \<not> blank l) ls)))])"
  by (induction ls arbitrary: n)
    (auto simp: filter_line_def cli_count_filter_def count_of_def cli_codes blank_def)

definition match_of :: "bool \<Rightarrow> string \<Rightarrow> cli_filter" where
  "match_of invert pat = \<lparr>fl_filter = Some Match_filter, fl_data = Match_state False invert (Match_string pat)\<rparr>"

lemma match_text:
  "filter_text e ls [match_of invert pat] = (filter (\<lambda>l. strstr l pat \<noteq> invert) ls, [match_of invert pat])"
  by (induction ls) (auto simp: filter_line_def cli_match_filter_def match_of_def cli_codes)

definition range_of :: "bool \<Rightarrow> string \<Rightarrow> string option \<Rightarrow> cli_filter" where
  "range_of on from until = \<lparr>fl_filter = Some Range_filter, fl_data = Range_state on from until\<rparr>"

lemma begin_text:
  "fst (filter_text e ls [range_of on from None]) = (if on then ls else dropWhile (\<lambda>l. \<not> strstr l from) ls)"
proof (induction ls arbitrary: on)
  case (Cons l ls)
  have "filter_chain e l [range_of on from None] = (on \<or> strstr l from, [range_of (on \<or> strstr l from) from None])"
    by (auto simp: filter_line_def cli_range_filter_def range_of_def cli_codes Let_def)
  then show ?case using Cons [of "on \<or> strstr l from"] by (auto split: prod.splits)
qed (simp add: range_of_def)

text \<open>The lines of a \<open>between\<close> filter: from each line with the first text to the next with the second.\<close>

fun between :: "string \<Rightarrow> string \<Rightarrow> bool \<Rightarrow> string list \<Rightarrow> string list" where
  "between from until on [] = []"
| "between from until on (l # ls) =
     (if on \<or> strstr l from then l # between from until (\<not> strstr l until) ls else between from until False ls)"

lemma between_text: "fst (filter_text e ls [range_of on from (Some until)]) = between from until on ls"
proof (induction ls arbitrary: on)
  case (Cons l ls)
  let ?on = "(on \<or> strstr l from) \<and> \<not> strstr l until"
  have "filter_chain e l [range_of on from (Some until)] = (on \<or> strstr l from, [range_of ?on from (Some until)])"
    by (auto simp: filter_line_def cli_range_filter_def range_of_def cli_codes Let_def)
  then show ?case using Cons [of ?on] by (auto split: prod.splits)
qed simp

section \<open>A pipeline of a command and a filter\<close>

lemma dec_int_count: "filter_end (count_of n) s = client_write (dec_int n @ crlf) s"
  by (simp add: filter_end_def count_of_def)

lemma run_stage_app:
  assumes "st_command st = Some c" and "c_callback (cmd_data c) = Some (App_command g)"
    and "c_command_type (cmd_data c) = CLI_REGULAR_COMMAND" and "pl_stages p ! 0 = st"
  shows "run_stage e p s = env_command e g (c_full_command_name (cmd_data c)) (drop (st_first_unmatched st) (st_words st))
     (int (st_num_words st) - int (st_first_unmatched st))
     (s\<lparr>cli_pipeline := Some (p\<lparr>pl_current_stage := Some 0\<rparr>), cli_found_optargs := st_found_optargs st\<rparr>)"
  using assms by (simp add: run_stage_def Let_def call_command_def bind_def split: option.split)

end
