(* ===== verification/Commandline.thy ===== *)
theory Commandline
  imports Command_Facts Filter_Facts
begin

text \<open>The properties of the command line library: words, commands, options and filters.\<close>

section \<open>Words\<close>

text \<open>C14: Parsing undoes joining. Words without white space, quotes, backslashes or pipes, joined by
blanks, are the words the parser finds again, as long as they fit the array.\<close>

theorem words_roundtrip:
  assumes "\<forall>w \<in> set ws. plain_word w" and "length ws < k"
  shows "cli_parse_line (join_words ws) k = ws"
  using assms by (rule parse_join_words)

theorem words_roundtrip_witness:
  "cli_parse_line (join_words [''show'', ''ip_stat'', ''10.0.0.1'']) 128 = [''show'', ''ip_stat'', ''10.0.0.1'']"
  by (rule words_roundtrip) (auto simp: plain_word_def plain_char_def is_space_def)

text \<open>Whatever the line, the parser leaves the last slot of its array free, which terminates the
array, and no word has a backslash in it.\<close>

theorem words_bounded:
  "length (cli_parse_line line CLI_MAX_LINE_WORDS) < CLI_MAX_LINE_WORDS
   \<and> CHR 0x5C \<notin> set (concat (cli_parse_line line CLI_MAX_LINE_WORDS))"
  using cli_parse_line_bound [of line CLI_MAX_LINE_WORDS] cli_parse_line_clean
  by (fastforce simp: CLI_MAX_LINE_WORDS_def)

lemma split_stages_nonempty: "split_stages ws \<noteq> []"
  by (induction ws rule: split_stages.induct) (auto split: list.splits)

lemma split_stages_own:
  "concat (map (\<lambda>(ws, n). take n ws) (split_stages ws)) = filter (\<lambda>w. \<not> is_pipe w) ws
   \<and> length (split_stages ws) = Suc (length (filter is_pipe ws))"
proof (induction ws)
  case (Cons w ws)
  then obtain v n rest where "split_stages ws = (v, n) # rest"
    by (metis list.exhaust prod.exhaust split_stages_nonempty)
  moreover have "(v, n) # rest = split_stages ws \<Longrightarrow> v = ws" for v n rest
    by (cases ws) (auto split: list.splits prod.splits if_splits)
  ultimately show ?case using Cons by auto
qed simp

text \<open>C25: A line is cut into stages without losing a word: there is one stage more than pipes, the
stages' own words are the words that are not pipes, in order, and the stages fit their array.\<close>

theorem pipeline_keeps_words:
  assumes "cli_int_generate_pipeline e command s = (Some p, s')"
  shows "concat (map (\<lambda>st. take (st_num_words st) (st_words st)) (pl_stages p)) = filter (\<lambda>w. \<not> is_pipe w) (pl_words p)
    \<and> length (pl_stages p) = Suc (length (filter is_pipe (pl_words p)))
    \<and> length (pl_stages p) \<le> CLI_MAX_LINE_WORDS"
proof -
  have p: "pl_stages p = map (\<lambda>(i, q). new_stage i q) (enumerate 0 (split_stages (pl_words p)))"
    and l: "length (pl_words p) \<le> CLI_MAX_LINE_WORDS - 1"
    using assms cli_parse_line_bound
    by (auto simp: cli_int_generate_pipeline_def Let_def split: prod.splits bool.splits if_splits)
  have own: "(\<lambda>st. take (st_num_words st) (st_words st)) \<circ> (\<lambda>(i, q). new_stage i q) = (\<lambda>(ws, n). take n ws) \<circ> snd"
    by (auto simp: new_stage_def)
  have "map (\<lambda>st. take (st_num_words st) (st_words st)) (pl_stages p)
      = map (\<lambda>(ws, n). take n ws) (map snd (enumerate 0 (split_stages (pl_words p))))"
    unfolding p map_map own ..
  then have "concat (map (\<lambda>st. take (st_num_words st) (st_words st)) (pl_stages p)) = filter (\<lambda>w. \<not> is_pipe w) (pl_words p)"
    using split_stages_own [of "pl_words p"] by simp
  moreover have n: "length (pl_stages p) = Suc (length (filter is_pipe (pl_words p)))"
    using split_stages_own [of "pl_words p"] by (simp add: p)
  moreover have "length (filter is_pipe (pl_words p)) \<le> CLI_MAX_LINE_WORDS - 1"
    using l length_filter_le le_trans by blast
  ultimately show ?thesis using l by (simp add: CLI_MAX_LINE_WORDS_def)
qed

text \<open>An environment and a session for the witnesses.\<close>

definition demo_env :: "unit cli_env" where
  "demo_env =
     \<lparr>env_command = (\<lambda>f name argv argc s. None), env_validator = (\<lambda>f n v s. (0, s)),
      env_completor = (\<lambda>f n v ch s. (ch, s)), env_transient = (\<lambda>f n v s. (0, s)), env_print = (\<lambda>f t s. s),
      env_auth = (\<lambda>f u p s. (CLI_ERROR, s)), env_enable = (\<lambda>f p s. (0, s)), env_regular = (\<lambda>f s. (0, s)),
      env_idle = (\<lambda>f s. (CLI_QUIT, s)), env_regcomp = (\<lambda>x i p. True), env_regexec = (\<lambda>x i p t. strstr t p),
      env_regex_bytes = (\<lambda>x i p. []), env_crypt = (\<lambda>a p. None), env_time = (\<lambda>u. (0, u)),
      env_select = (\<lambda>a b u. ((1, a, b), u)), env_read = (\<lambda>u. ((1, CHR ''x''), u)), env_eintr = (\<lambda>u. False)\<rparr>"

lemma generate_ample:
  "cli_mem s = [] \<Longrightarrow> cli_buildmode s = None \<Longrightarrow> \<exists>p. cli_int_generate_pipeline e command s =
    (Some p, s\<lparr>cli_found_optargs := []\<rparr>) \<and> pl_words p = cli_parse_line (dropWhile is_space command) CLI_MAX_LINE_WORDS"
  by (simp add: cli_int_generate_pipeline_def Let_def)

theorem pipeline_keeps_words_witness:
  "\<exists>p s'. cli_int_generate_pipeline demo_env ''show fdb | count'' (cli_zero [] ()) = (Some p, s')
     \<and> length (pl_stages p) \<le> CLI_MAX_LINE_WORDS"
proof -
  obtain p s' where g: "cli_int_generate_pipeline demo_env ''show fdb | count'' (cli_zero [] ()) = (Some p, s')"
    using generate_ample [of "cli_zero [] ()" demo_env "''show fdb | count''"] by (auto simp: cli_zero_def)
  from pipeline_keeps_words [OF g] g show ?thesis by blast
qed

section \<open>Commands\<close>

text \<open>C23: Abbreviations are unambiguous. After the unique lengths are built, a word that abbreviates two
different commands of one kind that can both be used in the current mode is an abbreviation of the
same name: lower case names are told apart by any word the code accepts for them.\<close>

theorem abbreviations_unambiguous:
  assumes "c \<in> set (cli_commands (cli_build_shortest s))" and "d \<in> set (cli_commands (cli_build_shortest s))"
    and "cmd_id c \<noteq> cmd_id d" and "c_command_type (cmd_data c) = c_command_type (cmd_data d)"
    and "visible (cli_mode s) (cli_privilege s) (cmd_data c)" and "visible (cli_mode s) (cli_privilege s) (cmd_data d)"
    and "plain_name (c_command (cmd_data c))" and "plain_name (c_command (cmd_data d))"
    and "abbreviates w (cmd_data c)" and "abbreviates w (cmd_data d)"
  shows "c_command (cmd_data c) = c_command (cmd_data d)"
proof -
  let ?f = "shortest (cli_mode s) (cli_privilege s) (cli_commands s)"
  obtain c0 d0 where "c0 \<in> set (cli_commands s)" "c = ?f c0" "d0 \<in> set (cli_commands s)" "d = ?f d0"
    using assms(1,2) by (auto simp: cli_build_shortest_def)
  with assms show ?thesis
    using shortest_unambiguous [of c0 "cli_commands s" d0 "cli_mode s" "cli_privilege s" w]
    by (auto simp: shortest_id shortest_data visible_def)
qed

definition demo_session :: "unit cli_def" where
  "demo_session = (cli_zero [] ())\<lparr>cli_commands :=
     [Cli_Command 0 ((new_command ''show'' CLI_REGULAR_COMMAND 0 0 None)\<lparr>c_callback := Some (App_command ''cmd_test'')\<rparr>) [],
      Cli_Command 1 (new_command ''set'' CLI_REGULAR_COMMAND 0 0 None) []]\<rparr>"

lemma demo_session_cmds:
  "cli_commands demo_session =
     [Cli_Command 0 ((new_command ''show'' CLI_REGULAR_COMMAND 0 0 None)\<lparr>c_callback := Some (App_command ''cmd_test'')\<rparr>) [],
      Cli_Command 1 (new_command ''set'' CLI_REGULAR_COMMAND 0 0 None) []]"
  "cli_mode demo_session = 0" "cli_privilege demo_session = 0" "cli_mem demo_session = []"
  by (simp_all add: demo_session_def cli_zero_def)

theorem abbreviations_unambiguous_witness:
  "\<not> (abbreviates ''s'' (cmd_data (hd (cli_commands (cli_build_shortest demo_session))))
      \<and> abbreviates ''s'' (cmd_data (cli_commands (cli_build_shortest demo_session) ! 1)))"
proof
  let ?c = "hd (cli_commands (cli_build_shortest demo_session))"
    and ?d = "cli_commands (cli_build_shortest demo_session) ! 1"
  assume a: "abbreviates ''s'' (cmd_data ?c) \<and> abbreviates ''s'' (cmd_data ?d)"
  have data: "cmd_data ?c = (cmd_data (hd (cli_commands demo_session)))\<lparr>c_unique_len := c_unique_len (cmd_data ?c)\<rparr>"
    "cmd_data ?d = (cmd_data (cli_commands demo_session ! 1))\<lparr>c_unique_len := c_unique_len (cmd_data ?d)\<rparr>"
    by (simp_all add: demo_session_cmds cli_build_shortest_def shortest_data)
  have ids: "cmd_id ?c = 0" "cmd_id ?d = 1"
    by (simp_all add: demo_session_cmds cli_build_shortest_def shortest_id)
  have mem: "?c \<in> set (cli_commands (cli_build_shortest demo_session))" "?d \<in> set (cli_commands (cli_build_shortest demo_session))"
    by (simp_all add: demo_session_cmds cli_build_shortest_def)
  have fields: "c_command (cmd_data ?c) = ''show''" "c_command (cmd_data ?d) = ''set''"
    "c_mode (cmd_data ?c) = 0" "c_mode (cmd_data ?d) = 0" "c_privilege (cmd_data ?c) = 0" "c_privilege (cmd_data ?d) = 0"
    "c_command_type (cmd_data ?c) = CLI_REGULAR_COMMAND" "c_command_type (cmd_data ?d) = CLI_REGULAR_COMMAND"
    by (subst data, simp add: demo_session_cmds new_command_def)+
  have "c_command (cmd_data ?c) = c_command (cmd_data ?d)"
    by (rule abbreviations_unambiguous [OF mem, of "''s''"])
      (use a in \<open>simp_all add: fields ids visible_def demo_session_cmds plain_name_def to_lower_def del: One_nat_def\<close>)
  then show False by (simp add: fields del: One_nat_def)
qed

text \<open>C13: A command is found only for whom it is meant: whatever the words, and also when the search
falls back to another mode, the command a stage is matched with is of the kind asked for and asks
for no more privilege than the session has.\<close>

theorem located_command_allowed:
  assumes "cli_int_locate_command e n type 0 (cli_commands s) st s = Some (CLI_OK, st', s')"
    and "distinct_ids (cli_commands s)"
  shows "\<exists>c. st_command st' = Some c \<and> c_command_type (cmd_data c) = type \<and> c_privilege (cmd_data c) \<le> cli_privilege s"
  using locate_allowed [OF assms] tree_commands_self by (auto simp: allowed_def)

theorem located_command_allowed_witness:
  "\<exists>st'. map_option (\<lambda>r. fst (snd r)) (cli_int_locate_command demo_env 1 CLI_REGULAR_COMMAND 0 (cli_commands demo_session)
        (new_stage 0 ([''show''], 1)) demo_session) = Some st' \<and> st_command st' \<noteq> None"
proof -
  have "\<exists>st' s'. cli_int_locate_command demo_env 1 CLI_REGULAR_COMMAND 0 (cli_commands demo_session)
      (new_stage 0 ([''show''], 1)) demo_session = Some (CLI_OK, st', s')"
    by (simp add: demo_session_def cli_zero_def new_command_def new_stage_def word_at_def abbreviates_def strncaseeq_def
        Let_def found_command_def cli_int_parse_optargs_def save_found_def check_required_def missing_optargs_def
        comphelp_empty_def cli_codes numeral_nat)
  then obtain st' s' where l: "cli_int_locate_command demo_env 1 CLI_REGULAR_COMMAND 0 (cli_commands demo_session)
      (new_stage 0 ([''show''], 1)) demo_session = Some (CLI_OK, st', s')" by blast
  have d: "distinct_ids (cli_commands demo_session)"
    by (simp add: demo_session_def distinct_ids_def cli_zero_def)
  from located_command_allowed [OF l d] l show ?thesis by auto
qed

section \<open>Values of options\<close>

text \<open>C24: Setting an option's value and looking it up are inverse: with memory, the value that is found
for the name afterwards is the one set last if it may be given once, it is found for no other name
whose value changes, and removing it leaves nothing to find.\<close>

theorem option_value_roundtrip:
  assumes "cli_set_optarg_value name val False s = (CLI_OK, s')"
  shows "map_option snd (cli_find_optarg_value name None s') = Some val
    \<and> (other \<noteq> name \<longrightarrow> map_option snd (cli_find_optarg_value other None s') = map_option snd (cli_find_optarg_value other None s))
    \<and> cli_find_optarg_value name None (cli_int_unset_optarg_value name s') = None"
proof -
  let ?ps = "cli_found_optargs s"
  have *: "cli_found_optargs s' = (if name \<in> fst ` set ?ps then set_pair ?ps name val else ?ps @ [(name, val)])"
    using assms by (auto simp: cli_set_optarg_value_def Let_def cli_codes split: if_splits prod.splits bool.splits)
  show ?thesis
  proof (cases "name \<in> fst ` set ?ps")
    case True
    then obtain j where "find_pair 0 (set_pair ?ps name val) name None = Some (j, val)" using find_pair_set by metis
    with True * show ?thesis
      by (simp add: cli_find_optarg_value_def cli_int_unset_optarg_value_def find_pair_set_other find_pair_unset)
  next
    case False
    then have "find_pair 0 ?ps name None = None" by (simp add: find_pair_none)
    with False * show ?thesis
      by (simp add: cli_find_optarg_value_def cli_int_unset_optarg_value_def find_pair_append find_pair_unset split: option.split)
  qed
qed

theorem option_value_roundtrip_witness:
  "\<exists>s'. cli_set_optarg_value ''port'' ''80'' False (cli_zero [] ()) = (CLI_OK, s')
     \<and> map_option snd (cli_find_optarg_value ''port'' None s') = Some ''80''"
proof -
  obtain s' where s: "cli_set_optarg_value ''port'' ''80'' False (cli_zero [] ()) = (CLI_OK, s')"
    by (simp add: cli_set_optarg_value_def cli_zero_def)
  from option_value_roundtrip [OF s, of "''x''"] s show ?thesis by blast
qed

end
