(* ===== verification/Demo_Os.thy ===== *)
theory Demo_Os
  imports Bridge_Returns
begin

text \<open>
  A concrete operating system that the hypotheses of the properties hold of, for their witnesses:
  its world is the list of datagrams sent, memory is there below 64 GiB, the network takes
  every datagram, and there is nothing to receive.
\<close>

type_synonym demo_world = "(bytes \<times> sockaddr_in) list"

definition demo_os :: "demo_world os" where
  "demo_os =
     \<lparr>os_malloc = (\<lambda>n w. (n < 2 ^ 36, w)), os_errno = (\<lambda>w. 0), os_socket = (\<lambda>t w. (3, w)),
      os_bind = (\<lambda>fd a w. (0, w)), os_setsockopt = (\<lambda>fd opt v w. (0, w)), os_close = (\<lambda>fd w. w),
      os_sendto = (\<lambda>fd d p w. (int (length d), w @ [(d, p)])),
      os_sendmmsg = (\<lambda>fd ms w. ((int (length ms), map (length \<circ> fst) ms), w @ ms)),
      os_recvfrom = (\<lambda>fd n w. ((-1, [], \<lparr>sin_addr = 0, sin_port = 0\<rparr>), w)),
      os_recvmmsg = (\<lambda>fd k n w. ((-1, []), w)), os_read = (\<lambda>fd n w. ((-1, []), w)),
      os_write = (\<lambda>fd d w. (int (length d), w)), os_writev = (\<lambda>fd ds w. (int (length (concat ds)), w)),
      os_readv = (\<lambda>fd k n w. ((-1, []), w)), os_open = (\<lambda>f w. (4, w)),
      os_ioctl = (\<lambda>fd r i w. ((0, i), w)), os_fcntl = (\<lambda>fd c v w. (0, w)),
      os_listen = (\<lambda>fd n w. (0, w)), os_accept = (\<lambda>fd w. ((-1, \<lparr>sin_addr = 0, sin_port = 0\<rparr>), w)),
      os_thread = (\<lambda>f a w. (0, w)), os_rand = (\<lambda>w. (length w, w)), os_epoll_create = (\<lambda>w. (5, w)),
      os_epoll_ctl = (\<lambda>e fd et w. (0, w)), os_epoll_wait = (\<lambda>fd n t w. ((0, []), w)),
      os_usleep = (\<lambda>us w. w), os_clock = (\<lambda>w. ((0, 1, 0), w)), os_sigusr1 = (\<lambda>w. (False, w))\<rparr>"

lemma demo_mem_ok: "mem_ok (os_malloc demo_os)"
  by (simp add: mem_ok_def demo_os_def)

lemma demo_mem_bounded: "mem_bounded (os_malloc demo_os)"
  by (rule mem_ok_bounded [OF demo_mem_ok])

lemma demo_sends_ok: "sends_ok demo_os"
  by (simp add: sends_ok_def demo_os_def)

lemma demo_logs_sends: "logs_sends demo_os id"
  by (simp add: logs_sends_def demo_os_def)

lemma demo_bursts_ok: "bursts_ok demo_os id"
  by (simp add: bursts_ok_def demo_os_def)

lemmas demo_env = demo_mem_ok demo_mem_bounded demo_sends_ok demo_logs_sends demo_bursts_ok

text \<open>Two peers, and a frame of 60 bytes from one station to another.\<close>

definition demo_peer :: "u16 \<Rightarrow> sockaddr_in" where
  "demo_peer n = \<lparr>sin_addr = 0x0100000A, sin_port = n\<rparr>"

definition demo_mac :: "u8 \<Rightarrow> bytes" where
  "demo_mac n = [2, 0, 0, 0, 0, n]"

definition demo_frame :: "u8 \<Rightarrow> u8 \<Rightarrow> bytes" where
  "demo_frame d s = demo_mac d @ demo_mac s @ [8, 0] @ replicate 46 0"

definition demo_start :: "demo_world bridge" where
  "demo_start = bridge_start 3 []"

lemma demo_frame_in: "frame_in 60 (demo_frame d s)"
  by (simp add: frame_in_def demo_frame_def demo_mac_def)

lemma demo_hdr_in: "hdr_in 60 (demo_frame d s)"
  by (rule frame_in_hdr [OF demo_frame_in])

lemma demo_frame_take: "take 60 (demo_frame d s) = demo_frame d s"
  by (simp add: demo_frame_def demo_mac_def)

lemma length_demo_frame: "length (demo_frame d s) = 60"
  by (simp add: demo_frame_def demo_mac_def)

lemma demo_start_inv: "bridge_inv demo_start"
  by (simp add: demo_start_def bridge_inv_start)

lemma start_room:
  "finite I \<Longrightarrow> finite M \<Longrightarrow> card I \<le> 26 \<Longrightarrow> card M \<le> 26 \<Longrightarrow> room I M (bridge_start sock w)"
  by (simp add: room_def bridge_start_def fdb_room_def stat_room_def fdb_map_empty
      stat_map_empty ut_room_def log2_buckets_def uthash_empty_def [symmetric])
    (simp add: uthash_empty_def)

lemma demo_start_room: "finite I \<Longrightarrow> finite M \<Longrightarrow> card I \<le> 26 \<Longrightarrow> card M \<le> 26 \<Longrightarrow> room I M demo_start"
  unfolding demo_start_def by (rule start_room)

end
