(* ===== verification/Sessions.thy ===== *)
theory Sessions
  imports Session_Facts Commandline Demo_Os
begin

text \<open>The properties of a session: the line editor, the login, the enable password, the history.\<close>

section \<open>The line editor\<close>

text \<open>A session and an empty line for the witnesses.\<close>

definition demo_line :: "string \<Rightarrow> string edit" where
  "demo_line input =
     \<lparr>ed_cmd = zeros CLI_MAX_LINE_LENGTH, ed_l = 0, ed_cursor = 0, ed_lastchar = CHR 0x00, ed_in_history = 0, ed_telnet = 0,
      ed_esc = 0, ed_old = None, ed_username = None, ed_password = None, ed_tm = (1, 0),
      ed_cli = (cli_zero [] input)\<lparr>cli_state := STATE_NORMAL, cli_promptchar := Some ''> ''\<rparr>\<rparr>"

definition typing_env :: "string cli_env" where
  "typing_env =
     \<lparr>env_command = (\<lambda>f name argv argc s. Some (CLI_OK, s)), env_validator = (\<lambda>f n v s. (0, s)),
      env_completor = (\<lambda>f n v ch s. (ch, s)), env_transient = (\<lambda>f n v s. (0, s)), env_print = (\<lambda>f t s. s),
      env_auth = (\<lambda>f u p s. (CLI_ERROR, s)), env_enable = (\<lambda>f p s. (0, s)), env_regular = (\<lambda>f s. (0, s)),
      env_idle = (\<lambda>f s. (CLI_QUIT, s)), env_regcomp = (\<lambda>x i p. True), env_regexec = (\<lambda>x i p t. strstr t p),
      env_regex_bytes = (\<lambda>x i p. []), env_crypt = (\<lambda>a p. None), env_time = (\<lambda>u. (0, u)),
      env_select = (\<lambda>a b u. ((1, a, b), u)),
      env_read = (\<lambda>u. (case u of [] \<Rightarrow> ((0, CHR 0x00), []) | c # cs \<Rightarrow> ((1, c), cs))), env_eintr = (\<lambda>u. False)\<rparr>"

lemma demo_edits: "edits (demo_line input) [] []"
  by (simp add: edits_def demo_line_def hidden_def cli_zero_def CLI_MAX_LINE_LENGTH_def)




text \<open>C12: The line editor refines a text with a cursor. For any sequence of printable characters, deletions of
a character, a word or the rest of the line, and cursor movements, the buffer, the length and the
cursor are those of the text edited in the obvious way, and nothing of the session changes but what
is shown.\<close>

theorem editor_refines_text:
  assumes "edits ed b a" and "\<forall>c \<in> set keys. text_char c"
  shows "\<exists>ed'. type_keys e keys ed = Some ed' \<and> shown_only ed ed'
    \<and> (case fold text_key keys (b, a) of (b', a') \<Rightarrow>
         edits ed' b' a' \<and> cstr (ed_cmd ed') = b' @ a' \<and> ed_cursor ed' = length b' \<and> ed_l ed' = length (b' @ a'))"
  using type_keys_edits [OF assms] edits_cstr by (fastforce simp: edits_def split: prod.splits)

theorem editor_refines_text_witness:
  "\<exists>ed'. type_keys typing_env [CHR ''f'', CHR ''x'', CTRL CHR ''H'', CHR ''b'', CTRL CHR ''B'', CHR ''d''] (demo_line '''') = Some ed'
    \<and> cstr (ed_cmd ed') = ''fdb'' \<and> ed_cursor ed' = 2"
proof -
  let ?keys = "[CHR ''f'', CHR ''x'', CTRL CHR ''H'', CHR ''b'', CTRL CHR ''B'', CHR ''d'']"
  have f: "fold text_key ?keys ([], []) = (''fd'', ''b'')"
    by (simp add: text_key_def ctrl_keys CLI_MAX_LINE_LENGTH_def)
  have "\<forall>c \<in> set ?keys. text_char c" by (simp add: text_char_def printable_def ctrl_keys)
  from editor_refines_text [OF demo_edits this, of typing_env "''''"] show ?thesis unfolding f by auto
qed



section \<open>Login\<close>

text \<open>C8: Nobody gets in without a password. After any number of steps from before the login, whatever the client
sends, a session is still there, with the privilege it had, unless on the way it asked for a password
and the line typed there was accepted, by the list of users or the callback, as the password of the
user name given before.\<close>

theorem login_required:
  assumes "session_reach e ed0 ed" and "fair_callbacks e" and "quiet (ed_cli ed0)" and "outside ed0"
  shows "cli_state (ed_cli ed) \<in> {STATE_LOGIN, STATE_PASSWORD} \<and> cli_privilege (ed_cli ed) = cli_privilege (ed_cli ed0)
    \<or> (\<exists>ed1 ed2 u. session_reach e ed0 ed1 \<and> session_step e ed1 = Some (More, ed2) \<and> session_reach e ed2 ed
        \<and> cli_state (ed_cli ed1) = STATE_PASSWORD \<and> ed_username ed1 = Some u
        \<and> accepts e (cli_users (ed_cli ed0)) (cli_auth_callback (ed_cli ed0)) u (cstr (ed_cmd ed1)))"
  using reach_outside [OF assms] by (auto simp: outside_def)

definition locked_line :: "string edit" where
  "locked_line = (demo_line ''x'')\<lparr>ed_cli := (cli_zero [] ''x'')\<lparr>cli_users := [(''root'', ''$1$salt$hash'')]\<rparr>\<rparr>"

theorem login_required_witness:
  "\<exists>ed. session_step typing_env locked_line = Some (More, ed) \<and> session_reach typing_env locked_line ed
   \<and> cli_state (ed_cli ed) \<in> {STATE_LOGIN, STATE_PASSWORD} \<and> cli_privilege (ed_cli ed) = 0"
proof -
  have q: "quiet (ed_cli locked_line)" and o: "outside locked_line" and f: "fair_callbacks typing_env"
    by (simp_all add: quiet_def outside_def fair_callbacks_def locked_line_def cli_zero_def typing_env_def)
  have n: "\<not> accepts typing_env (cli_users (ed_cli locked_line)) (cli_auth_callback (ed_cli locked_line)) u p" for u p
    by (simp add: accepts_def locked_line_def cli_zero_def pass_matches_def DES_PREFIX_def MD5_PREFIX_def strncaseeq_def
        strneq_def to_lower_def typing_env_def Let_def)
  have p: "cli_privilege (ed_cli locked_line) = 0" by (simp add: locked_line_def cli_zero_def)
  obtain ed where s: "session_step typing_env locked_line = Some (More, ed)"
    by (simp add: session_step_def inner_round_def loop_head_def locked_line_def demo_line_def cli_zero_def
        regular_step_def wait_char_def cli_socket_wait_def typing_env_def with_cli_def edit_key_def
        telnet_filter_def escape_filter_def key_char_def ctrl_keys Let_def key_plain_def insert_char_def CLI_MAX_LINE_LENGTH_def
        hidden_def ed_echo_def)
  then have r: "session_reach typing_env locked_line ed" using reach_first reach_start by metis
  from login_required [OF r f q o] n p r s show ?thesis by auto
qed

text \<open>The way in is the password. A step that leaves the states before the login goes to the normal state,
and the line typed is accepted, by the list of users or the callback, as the password of the user name
given before.\<close>

theorem login_by_password:
  assumes "fair_callbacks e" and "quiet (ed_cli ed)" and "cli_state (ed_cli ed) = STATE_PASSWORD" and "ed_username ed = Some u"
    and "session_step e ed = Some (More, ed1)" and "cli_state (ed_cli ed1) \<notin> {STATE_LOGIN, STATE_PASSWORD}"
  shows "cli_state (ed_cli ed1) = STATE_NORMAL \<and> cli_privilege (ed_cli ed1) = cli_privilege (ed_cli ed)
    \<and> accepts e (cli_users (ed_cli ed)) (cli_auth_callback (ed_cli ed)) u (cstr (ed_cmd ed))"
proof -
  have "outside ed" using assms(3,4) by (simp add: outside_def)
  from step_outside [OF assms(1,2) this assms(5)] assms(4,6) show ?thesis by (auto simp: outside_def)
qed

definition password_line :: "string edit" where
  "password_line = (demo_line [CHR 0x0D])\<lparr>ed_username := Some ''root'',
     ed_cli := (cli_zero [] [CHR 0x0D])\<lparr>cli_state := STATE_PASSWORD, cli_users := [(''root'', '''')]\<rparr>\<rparr>"

lemma password_round:
  "inner_round typing_env password_line = Some (Entered, password_line\<lparr>ed_cli := (ed_cli password_line)
     \<lparr>cli_app := [], cli_transient_mode := 0, cli_disallow_buildmode := False\<rparr>\<rparr>)"
  by (simp add: inner_round_def loop_head_def password_line_def demo_line_def cli_zero_def regular_step_def
      wait_char_def cli_socket_wait_def typing_env_def with_cli_def note_action_def edit_key_def telnet_filter_def
      escape_filter_def key_char_def ctrl_keys ed_echo_def hidden_def Let_def)

theorem login_by_password_witness:
  "\<exists>ed1. session_step typing_env password_line = Some (More, ed1) \<and> cli_state (ed_cli ed1) = STATE_NORMAL"
proof -
  have q: "quiet (ed_cli password_line)" and f: "fair_callbacks typing_env" and st: "cli_state (ed_cli password_line) = STATE_PASSWORD"
    and u: "ed_username password_line = Some ''root''"
    by (simp_all add: quiet_def fair_callbacks_def password_line_def cli_zero_def typing_env_def)
  let ?s = "(ed_cli password_line)\<lparr>cli_app := [], cli_transient_mode := 0, cli_disallow_buildmode := False\<rparr>"
  have p: "cstr (ed_cmd password_line) = ''''"
    by (simp add: password_line_def demo_line_def cstr_def zeros_def)
  have m: "cli_mem ?s = []" by (simp add: password_line_def cli_zero_def)
  have l: "login_allowed typing_env ''root'' '''' ?s = (True, ?s)"
    by (simp add: login_allowed_def password_line_def cli_zero_def pass_matches_def DES_PREFIX_def MD5_PREFIX_def
        strncaseeq_def strneq_def to_lower_def typing_env_def Let_def)
  define ed2 where "ed2 = password_line\<lparr>ed_cli := ?s\<rparr>"
  have *: "cli_state (ed_cli ed2) = STATE_PASSWORD" "cstr (ed_cmd ed2) = ''''" "ed_cli ed2 = ?s" "ed_username ed2 = Some ''root''"
    using st p u by (simp_all add: ed2_def)
  obtain ed3 where e3: "line_entered typing_env ed2 = Some (More, ed3)"
    using * m l by (simp add: line_entered_def line_done_def line_password_def null_text_def)
  have s: "session_step typing_env password_line = Some (More, next_line ed3)"
    using password_round e3 by (simp add: session_step_def ed2_def)
  have d: "entry (next_line ed3) = entry ed3" by simp
  have "cli_state (ed_cli ed3) = STATE_NORMAL"
    using e3 * m l by (auto simp: line_entered_def line_done_def line_password_def null_text_def with_cli_def note_action_def
        cli_reprompt_def cli_time_def split: prod.splits if_splits)
  then have "cli_state (ed_cli (next_line ed3)) = STATE_NORMAL" using d by (simp add: entry_def door_def)
  with login_by_password [OF f q st u s] s show ?thesis by auto
qed

section \<open>The enable password\<close>



lemma set_privilege_state [simp]:
  "cli_privilege (snd (cli_set_privilege p s)) = p" "cli_state (snd (cli_set_privilege p s)) = cli_state s"
  by (auto simp: cli_set_privilege_def cli_set_promptchar_def cli_strdup_def cli_alloc_def cli_build_shortest_def Let_def
      split: list.split)




section \<open>History\<close>

text \<open>C29: The history keeps the last 256 lines. Adding a line, with memory or without, never makes the history
longer than its array; with memory the line is the last entry, unless it repeats the last one while
there is room, and only the oldest entry is ever dropped.\<close>

theorem history_bounded:
  assumes "length (cli_hist s) \<le> MAX_HISTORY" and "cli_add_history cmd s = (rc, s')"
  shows "length (cli_hist s') \<le> MAX_HISTORY
    \<and> (rc = CLI_OK \<longrightarrow> cli_hist s' \<noteq> [] \<and> strcaseeq (last (cli_hist s')) cmd)
    \<and> (\<exists>new. cli_hist s' = drop (if length (cli_hist s) < MAX_HISTORY then 0 else 1) (cli_hist s) @ new \<and> length new \<le> 1)"
proof (cases "length (cli_hist s) < MAX_HISTORY")
  case True
  show ?thesis
  proof (cases "cli_hist s = [] \<or> \<not> strcaseeq (last (cli_hist s)) cmd")
    case True
    with assms \<open>length (cli_hist s) < MAX_HISTORY\<close> show ?thesis
      by (auto simp: cli_add_history_def cli_strdup_def cli_alloc_def cli_codes strcaseeq_def split: list.splits if_splits)
  next
    case False
    with assms True show ?thesis by (auto simp: cli_add_history_def)
  qed
next
  case False
  with assms(1) have n: "length (cli_hist s) = MAX_HISTORY" by simp
  then have "length (tl (cli_hist s)) < MAX_HISTORY" by (simp add: MAX_HISTORY_def)
  with False assms(2) show ?thesis
    by (auto simp: cli_add_history_def cli_strdup_def cli_alloc_def cli_codes strcaseeq_def drop_Suc split: list.splits if_splits)
qed

theorem history_bounded_witness:
  "\<exists>s'. cli_add_history ''show fdb'' (cli_zero [] ()) = (CLI_OK, s') \<and> length (cli_hist s') \<le> MAX_HISTORY"
proof -
  have a: "cli_add_history ''show fdb'' (cli_zero [] ()) = (CLI_OK, (cli_zero [] ())\<lparr>cli_hist := [''show fdb'']\<rparr>)"
    by (simp add: cli_add_history_def cli_zero_def MAX_HISTORY_def)
  have l: "length (cli_hist (cli_zero [] ())) \<le> MAX_HISTORY" by (simp add: cli_zero_def)
  from history_bounded [OF l a] a show ?thesis by blast
qed

section \<open>The server's sessions\<close>

lemma print_door: "quiet s \<Longrightarrow> door (cli_print e t s) = door s"
  by (intro same_ctl_door cli_print_ctl) (simp add: quiet_def)

lemma server_fair: "fair_callbacks (server_env os e)"
proof -
  have "door (snd (regular_callback e s)) = door s" if "quiet s" for s
  proof -
    let ?s = "s\<lparr>cli_app := (cli_app s)\<lparr>app_regular_count := app_regular_count (cli_app s) + 1\<rparr>\<rparr>"
    have "quiet ?s" using that by (simp add: quiet_def)
    then show ?thesis by (simp add: regular_callback_def Let_def print_door)
  qed
  then show ?thesis by (simp add: fair_callbacks_def server_env_def idle_timeout_def print_door)
qed

text \<open>The server's command line is open to admin only. A session as the server sets it up, with its regular
callback and its idle timeout running beside, leaves the password prompt for the normal state only
when the user name given and the line typed are both \<open>admin\<close> up to case, and then without privilege.\<close>

theorem server_login_admin:
  assumes "quiet (ed_cli ed)" and "cli_users (ed_cli ed) = []" and "cli_auth_callback (ed_cli ed) = Some ''check_auth''"
    and "cli_state (ed_cli ed) = STATE_PASSWORD" and "ed_username ed = Some u"
    and "session_step (server_env os e) ed = Some (More, ed1)" and "cli_state (ed_cli ed1) \<notin> {STATE_LOGIN, STATE_PASSWORD}"
  shows "strcaseeq u ''admin'' \<and> strcaseeq (cstr (ed_cmd ed)) ''admin''
    \<and> cli_state (ed_cli ed1) = STATE_NORMAL \<and> cli_privilege (ed_cli ed1) = cli_privilege (ed_cli ed)"
proof -
  have "outside ed" using assms(4,5) by (simp add: outside_def)
  from step_outside [OF server_fair assms(1) this assms(6)] assms(2,3,5,7)
  have "cli_state (ed_cli ed1) = STATE_NORMAL" "cli_privilege (ed_cli ed1) = cli_privilege (ed_cli ed)"
    and a: "accepts (server_env os e) [] (Some ''check_auth'') u (cstr (ed_cmd ed))"
    by (auto simp: outside_def)
  moreover from a have "check_auth u (cstr (ed_cmd ed)) = CLI_OK" by (simp add: accepts_def server_env_def)
  ultimately show ?thesis by (auto simp: check_auth_def cli_codes split: if_splits)
qed

definition server_typing :: "'w os \<Rightarrow> 'w server cli_app cli_env" where
  "server_typing os = server_env os
     \<lparr>env_command = (\<lambda>f name argv argc s. None), env_validator = (\<lambda>f n v s. (0, s)),
      env_completor = (\<lambda>f n v ch s. (ch, s)), env_transient = (\<lambda>f n v s. (0, s)), env_print = (\<lambda>f t s. s),
      env_auth = (\<lambda>f u p s. (CLI_ERROR, s)), env_enable = (\<lambda>f p s. (0, s)), env_regular = (\<lambda>f s. (0, s)),
      env_idle = (\<lambda>f s. (CLI_QUIT, s)), env_regcomp = (\<lambda>x i p. True), env_regexec = (\<lambda>x i p t. strstr t p),
      env_regex_bytes = (\<lambda>x i p. []), env_crypt = (\<lambda>a p. None), env_time = (\<lambda>u. (0, u)),
      env_select = (\<lambda>a b u. ((1, a, b), u)), env_read = (\<lambda>u. ((1, CHR 0x0D), u)), env_eintr = (\<lambda>u. False)\<rparr>"

definition admin_line :: "demo_world server cli_app \<Rightarrow> demo_world server cli_app edit" where
  "admin_line u =
     \<lparr>ed_cmd = ''admin'' @ zeros (CLI_MAX_LINE_LENGTH - 5), ed_l = 5, ed_cursor = 5, ed_lastchar = CHR 0x00, ed_in_history = 0,
      ed_telnet = 0, ed_esc = 0, ed_old = None, ed_username = Some ''admin'', ed_password = None, ed_tm = (1, 0),
      ed_cli = (cli_zero [] u)\<lparr>cli_state := STATE_PASSWORD, cli_auth_callback := Some ''check_auth''\<rparr>\<rparr>"

lemma admin_round:
  "inner_round (server_typing demo_os) (admin_line u) = Some (Entered, (admin_line u)\<lparr>ed_cli := (ed_cli (admin_line u))
     \<lparr>cli_transient_mode := 0, cli_disallow_buildmode := False\<rparr>\<rparr>)"
  by (simp add: inner_round_def loop_head_def admin_line_def cli_zero_def regular_step_def
      wait_char_def cli_socket_wait_def server_typing_def server_env_def with_cli_def note_action_def edit_key_def telnet_filter_def
      escape_filter_def key_char_def ctrl_keys ed_echo_def hidden_def Let_def)

lemma admin_line_door:
  "quiet (ed_cli (admin_line u))" "cli_users (ed_cli (admin_line u)) = []"
  "cli_auth_callback (ed_cli (admin_line u)) = Some ''check_auth''" "cli_state (ed_cli (admin_line u)) = STATE_PASSWORD"
  "ed_username (admin_line u) = Some ''admin''" "cstr (ed_cmd (admin_line u)) = ''admin''"
  by (simp_all add: quiet_def admin_line_def cli_zero_def cstr_def zeros_def)

lemma admin_step:
  "\<exists>ed1. session_step (server_typing demo_os) (admin_line u) = Some (More, ed1) \<and> cli_state (ed_cli ed1) = STATE_NORMAL"
proof -
  let ?os = demo_os
  let ?ed = "admin_line u"
  let ?s = "(ed_cli ?ed)\<lparr>cli_transient_mode := 0, cli_disallow_buildmode := False\<rparr>"
  have m: "cli_mem ?s = []" by (simp add: admin_line_def cli_zero_def)
  have l: "login_allowed (server_typing ?os) ''admin'' ''admin'' ?s = (True, ?s)"
    by (simp add: login_allowed_def admin_line_def cli_zero_def server_typing_def server_env_def check_auth_def strcaseeq_def Let_def)
  define ed2 where "ed2 = ?ed\<lparr>ed_cli := ?s\<rparr>"
  have *: "cli_state (ed_cli ed2) = STATE_PASSWORD" "cstr (ed_cmd ed2) = ''admin''" "ed_cli ed2 = ?s" "ed_username ed2 = Some ''admin''"
    using admin_line_door [of u] by (simp_all add: ed2_def)
  obtain ed3 where e3: "line_entered (server_typing ?os) ed2 = Some (More, ed3)"
    using * m l by (simp add: line_entered_def line_done_def line_password_def null_text_def)
  have s: "session_step (server_typing ?os) ?ed = Some (More, next_line ed3)"
    using admin_round e3 by (simp add: session_step_def ed2_def)
  have "cli_state (ed_cli ed3) = STATE_NORMAL"
    using e3 * m l by (auto simp: line_entered_def line_done_def line_password_def null_text_def with_cli_def note_action_def
        cli_reprompt_def cli_time_def split: prod.splits if_splits)
  then have "cli_state (ed_cli (next_line ed3)) = STATE_NORMAL"
    using next_line_entry [of ed3] by (simp add: entry_def door_def)
  with s show ?thesis by blast
qed

theorem server_login_admin_witness:
  "\<forall>u. \<exists>ed1. session_step (server_typing demo_os) (admin_line u) = Some (More, ed1) \<and> cli_state (ed_cli ed1) = STATE_NORMAL
     \<and> strcaseeq (cstr (ed_cmd (admin_line u))) ''admin''"
proof
  fix u :: "demo_world server cli_app"
  obtain ed1 where s: "session_step (server_typing demo_os) (admin_line u) = Some (More, ed1)" "cli_state (ed_cli ed1) = STATE_NORMAL"
    using admin_step by blast
  from server_login_admin [OF admin_line_door(1-5) s(1) [unfolded server_typing_def]] s
  show "\<exists>ed1. session_step (server_typing demo_os) (admin_line u) = Some (More, ed1) \<and> cli_state (ed_cli ed1) = STATE_NORMAL
     \<and> strcaseeq (cstr (ed_cmd (admin_line u))) ''admin''"
    by auto
qed

end
