(* ===== verification/Forwarding.thy ===== *)
theory Forwarding
  imports Demo_Os
begin

text \<open>
  The properties of the forwarding plane: it is a learning switch, whatever arrives. The
  witnesses run on \<open>demo_os\<close>, with two stations behind two peers.
\<close>

section \<open>Demonstration traffic\<close>

definition demo_ips :: "u32 set" where
  "demo_ips = {0x0100000A}"

definition demo_macs :: "bytes set" where
  "demo_macs = {demo_mac 1, demo_mac 2}"

lemma demo_room: "room demo_ips demo_macs demo_start"
  by (rule demo_start_room) (simp_all add: demo_ips_def demo_macs_def demo_mac_def)

lemma demo_sources [simp]:
  "sin_addr (demo_peer n) \<in> demo_ips" "h_source (demo_frame d 1) \<in> demo_macs" "h_source (demo_frame d 2) \<in> demo_macs"
  by (simp_all add: demo_ips_def demo_peer_def demo_macs_def demo_frame_def demo_mac_def h_source_def ETH_ALEN_def)

definition demo_traffic :: "datagram list" where
  "demo_traffic = [(60, demo_frame 2 1, demo_peer 7), (60, demo_frame 1 2, demo_peer 8)]"

lemma demo_traffic_frames: "\<forall>(len, buf, p) \<in> set demo_traffic. frame_in len buf"
  by (simp add: demo_traffic_def demo_frame_in)

lemma demo_traffic_all:
  "\<forall>(len, buf, p) \<in> set demo_traffic. frame_in len buf \<and> sin_addr p \<in> demo_ips \<and> h_source buf \<in> demo_macs"
  by (simp add: demo_traffic_def demo_frame_in)

lemma demo_learned:
  assumes "wlan_br_handle demo_os 60 (demo_frame 2 1) (demo_peer 7) demo_start = Some s1"
  shows "fdb_map (br_fdb s1) (demo_mac 1) = Some (demo_peer 7)"
proof -
  have "sw_table (switch_of s1) (demo_mac 1) = Some (demo_peer 7)"
    using wlan_br_handle_simulates(1) [OF assms demo_start_inv demo_mem_ok demo_sends_ok demo_logs_sends demo_frame_in]
    by (simp add: sw_step_learns sw_learn_def demo_start_def switch_of_start sw_empty_def)
      (simp add: demo_frame_def demo_mac_def h_source_def ETH_ALEN_def)
  then show ?thesis by (simp add: switch_of_def)
qed

lemma demo_unicast: "\<not> is_multicast_ether_addr (h_dest (demo_frame 1 2))"
  by (simp add: demo_frame_def demo_mac_def h_dest_def ETH_ALEN_def is_multicast_ether_addr_def load_u16_def)

section \<open>One frame\<close>

text \<open>C1: \<open>wlan_br_handle\<close> implements the learning switch. With memory, room in the two hash tables
and a network that takes whole datagrams, the handling of a frame returns, keeps the invariant, and
its effect on the database, the peers, the counters and the datagrams sent is that of one step of
the abstract switch.\<close>

theorem handle_refines_switch:
  assumes "bridge_inv s" and "mem_ok (os_malloc os)" and "sends_ok os" and "logs_sends os sent"
    and "frame_in len buf" and "room I M s" and "sin_addr p \<in> I" and "h_source buf \<in> M"
  shows "\<exists>s'. wlan_br_handle os len buf p s = Some s' \<and> bridge_inv s' \<and> room I M s'
    \<and> switch_of s' = fst (sw_handle p (take (nat len) buf) (switch_of s))
    \<and> sent (br_world s') = sent (br_world s) @ snd (sw_handle p (take (nat len) buf) (switch_of s))"
proof -
  obtain s' where h: "wlan_br_handle os len buf p s = Some s'" "room I M s'"
    using wlan_br_handle_returns [OF assms(1,2,5-8)] by blast
  with wlan_br_handle_invariant(1) [OF h(1) assms(1) mem_ok_bounded [OF assms(2)] frame_in_hdr [OF assms(5)]]
    wlan_br_handle_simulates [OF h(1) assms(1-5)]
  show ?thesis by blast
qed

theorem handle_refines_switch_witness:
  "\<exists>s'. wlan_br_handle demo_os 60 (demo_frame 2 1) (demo_peer 7) demo_start = Some s' \<and> bridge_inv s'
    \<and> switch_of s' = fst (sw_handle (demo_peer 7) (demo_frame 2 1) (switch_of demo_start))"
  using handle_refines_switch [OF demo_start_inv demo_mem_ok demo_sends_ok demo_logs_sends demo_frame_in
      demo_room, of "demo_peer 7" 2 1]
  by (auto simp: demo_frame_take)



text \<open>C11: Nothing about memory or the network is needed for this: whenever the handling of a frame
returns, the invariant holds, no known address has changed its peer, and what was sent is the
unchanged frame, at most once to each peer, only to known peers and never back to the sender.\<close>

theorem handle_safe:
  assumes "wlan_br_handle os len buf p s = Some s'" and "bridge_inv s"
    and "mem_bounded (os_malloc os)" and "logs_sends os sent" and "hdr_in len buf"
  shows "bridge_inv s' \<and> fdb_map (br_fdb s) \<subseteq>\<^sub>m fdb_map (br_fdb s')
    \<and> (\<exists>qs. sent (br_world s') = sent (br_world s) @ map (Pair (take (nat len) buf)) qs
        \<and> distinct qs \<and> p \<notin> set qs \<and> set qs \<subseteq> ran (fdb_map (br_fdb s')))"
  using wlan_br_handle_invariant [OF assms(1-3,5)] wlan_br_handle_sends [OF assms] by blast

theorem handle_safe_witness:
  "\<exists>s' qs. wlan_br_handle demo_os 60 (demo_frame 2 1) (demo_peer 7) demo_start = Some s'
    \<and> br_world s' = map (Pair (demo_frame 2 1)) qs \<and> demo_peer 7 \<notin> set qs"
proof -
  obtain s' where h: "wlan_br_handle demo_os 60 (demo_frame 2 1) (demo_peer 7) demo_start = Some s'"
    using wlan_br_handle_returns [OF demo_start_inv demo_mem_ok demo_frame_in demo_room,
        of "demo_peer 7" 2 1] by auto
  have "br_world demo_start = []" by (simp add: demo_start_def bridge_start_def)
  with handle_safe [OF h demo_start_inv demo_mem_bounded demo_logs_sends demo_hdr_in] h show ?thesis
    by (auto simp: demo_frame_take)
qed

text \<open>First come, first served, for ever: an address learned from one peer stays with that peer
over any run of datagrams, whoever sends frames with this source address later.\<close>

theorem address_stays:
  assumes "handle_all os ds s = Some s'" and "bridge_inv s" and "mem_bounded (os_malloc os)"
    and "\<forall>(len, buf, p) \<in> set ds. hdr_in len buf" and "fdb_map (br_fdb s) mac = Some q"
  shows "fdb_map (br_fdb s') mac = Some q"
  using handle_all_invariant [OF assms(1-4)] assms(5) by (auto simp: map_le_def dom_def)

theorem address_stays_witness:
  "\<exists>s1 s2. wlan_br_handle demo_os 60 (demo_frame 2 1) (demo_peer 7) demo_start = Some s1
    \<and> handle_all demo_os [(60, demo_frame 2 1, demo_peer 8)] s1 = Some s2
    \<and> fdb_map (br_fdb s2) (demo_mac 1) = Some (demo_peer 7)"
proof -
  obtain s1 where h: "wlan_br_handle demo_os 60 (demo_frame 2 1) (demo_peer 7) demo_start = Some s1"
    and r: "room demo_ips demo_macs s1"
    using wlan_br_handle_returns [OF demo_start_inv demo_mem_ok demo_frame_in demo_room,
        of "demo_peer 7" 2 1] by auto
  have inv: "bridge_inv s1"
    by (rule wlan_br_handle_invariant(1) [OF h demo_start_inv demo_mem_bounded demo_hdr_in])
  have fr: "\<forall>(len, buf, p) \<in> set [(60, demo_frame 2 1, demo_peer 8)]. frame_in len buf \<and> sin_addr p \<in> demo_ips
      \<and> h_source buf \<in> demo_macs" by (simp add: demo_frame_in)
  obtain s2 where h2: "handle_all demo_os [(60, demo_frame 2 1, demo_peer 8)] s1 = Some s2"
    using handle_all_returns [OF inv demo_mem_ok r fr] by blast
  from address_stays [OF h2 inv demo_mem_bounded _ demo_learned [OF h]] h h2 show ?thesis by (simp add: demo_hdr_in)
qed

text \<open>A frame to a station that is known goes to the peer it was learned from and to nobody else;
if that is the peer it came from, nothing is sent.\<close>

theorem unicast_only_to_owner:
  assumes "wlan_br_handle os len buf p s = Some s'" and "bridge_inv s"
    and "mem_bounded (os_malloc os)" and "logs_sends os sent" and "frame_in len buf"
    and "\<not> is_multicast_ether_addr (h_dest buf)" and "fdb_map (br_fdb s) (h_dest buf) = Some q"
  shows "sent (br_world s') = sent (br_world s) @ (if q = p then [] else [(take (nat len) buf, q)])"
proof -
  note F = frame_in_facts [OF assms(5)]
  from assms(1) obtain s1 where l: "br_learn os buf p s = Some s1" by (rule wlan_br_handle_learns)
  note L = br_learn_spec [OF l assms(2,3) F(5)]
  have "fdb_map (br_fdb s1) (h_dest buf) = Some q"
    using L(4) assms(7) by (auto simp: map_le_def dom_def)
  then have route: "sw_route (switch_of s1) buf = Some q"
    using assms(6) by (simp add: sw_route_def switch_of_def)
  from assms(1) l L(1) F(1,4) show ?thesis
  proof (cases rule: wlan_br_handle_cases)
    case (one q' r)
    with route L(6) [OF assms(4)] br_send_frame(8) [OF one(3) assms(4)] show ?thesis by simp
  qed (use route L(6) [OF assms(4)] in simp_all)
qed

theorem unicast_only_to_owner_witness:
  "\<exists>s1 s2. wlan_br_handle demo_os 60 (demo_frame 2 1) (demo_peer 7) demo_start = Some s1
    \<and> wlan_br_handle demo_os 60 (demo_frame 1 2) (demo_peer 8) s1 = Some s2
    \<and> br_world s2 = br_world s1 @ [(demo_frame 1 2, demo_peer 7)]"
proof -
  obtain s1 where h: "wlan_br_handle demo_os 60 (demo_frame 2 1) (demo_peer 7) demo_start = Some s1"
    and r: "room demo_ips demo_macs s1"
    using wlan_br_handle_returns [OF demo_start_inv demo_mem_ok demo_frame_in demo_room,
        of "demo_peer 7" 2 1] by auto
  have inv: "bridge_inv s1"
    by (rule wlan_br_handle_invariant(1) [OF h demo_start_inv demo_mem_bounded demo_hdr_in])
  obtain s2 where h2: "wlan_br_handle demo_os 60 (demo_frame 1 2) (demo_peer 8) s1 = Some s2"
    using wlan_br_handle_returns [OF inv demo_mem_ok demo_frame_in r, of "demo_peer 8" 1 2] by auto
  have "fdb_map (br_fdb s1) (h_dest (demo_frame 1 2)) = Some (demo_peer 7)"
    using demo_learned [OF h] by (simp add: demo_frame_def demo_mac_def h_dest_def ETH_ALEN_def)
  from unicast_only_to_owner [OF h2 inv demo_mem_bounded demo_logs_sends demo_frame_in _ this] h h2
  show ?thesis
    by (simp add: demo_unicast demo_frame_take demo_peer_def)
qed

section \<open>Floods\<close>

text \<open>A flood hands the frame once to every peer but the sender, in the order of the list, and
leaves the database, the list and the records of the peers, their flood flags included, as it
found them.\<close>

theorem flood_once_each:
  assumes "bridge_inv s" and "wlan_br_flood os len buf c s = Some s'" and "logs_sends os sent"
  shows "sent (br_world s') = sent (br_world s)
      @ map (Pair (take (nat len) buf)) (filter (\<lambda>q. q \<noteq> c) (ports_of s))
    \<and> distinct (ports_of s) \<and> set (ports_of s) = pa_addr ` set (br_pas s)
    \<and> br_fdb s' = br_fdb s \<and> br_list s' = br_list s \<and> br_pas s' = br_pas s"
  using wlan_br_flood_effect(1) [OF assms] wlan_br_flood_state(1-3) [OF assms(1,2)]
    ports_known(2) [OF assms(1)] ports_pas [OF assms(1)]
  by simp

theorem flood_once_each_witness:
  "\<exists>s1 s2. wlan_br_handle demo_os 60 (demo_frame 2 1) (demo_peer 7) demo_start = Some s1
    \<and> wlan_br_flood demo_os 60 (demo_frame 255 2) (demo_peer 8) s1 = Some s2 \<and> br_pas s2 = br_pas s1"
proof -
  obtain s1 where h: "wlan_br_handle demo_os 60 (demo_frame 2 1) (demo_peer 7) demo_start = Some s1"
    and r: "room demo_ips demo_macs s1"
    using wlan_br_handle_returns [OF demo_start_inv demo_mem_ok demo_frame_in demo_room,
        of "demo_peer 7" 2 1] by auto
  have inv: "bridge_inv s1"
    by (rule wlan_br_handle_invariant(1) [OF h demo_start_inv demo_mem_bounded demo_hdr_in])
  obtain s2 where f: "wlan_br_flood demo_os 60 (demo_frame 255 2) (demo_peer 8) s1 = Some s2"
    using wlan_br_flood_room [OF inv demo_mem_ok r, of "demo_peer 8" 60 "demo_frame 255 2"] by auto
  from flood_once_each [OF inv f demo_logs_sends] h f show ?thesis by blast
qed

section \<open>Bursts\<close>

text \<open>C2: \<open>wlan_br_handle_burst\<close> implements a burst of the switch: it returns, learns from every
frame in turn, counts every frame, sends the floods on the way and the frames for known peers, in
their order, at the end.\<close>

theorem burst_refines_switch:
  assumes "bridge_inv s" and "mem_ok (os_malloc os)" and "sends_ok os" and "logs_sends os sent"
    and "bursts_ok os sent" and "room I M s"
    and "\<forall>i < k. frame_in (int (data_len ! i)) (buf ! i) \<and> sin_addr (peer_addr ! i) \<in> I
      \<and> h_source (buf ! i) \<in> M"
  shows "\<exists>s'. wlan_br_handle_burst os k buf data_len peer_addr s = Some s' \<and> bridge_inv s'
    \<and> (let (sw, now, later) = sw_handle_burst
             (map (\<lambda>i. (peer_addr ! i, take (data_len ! i) (buf ! i))) [0..<k]) (switch_of s)
       in switch_of s' = sw \<and> sent (br_world s') = sent (br_world s) @ now @ later)"
proof -
  obtain s' where h: "wlan_br_handle_burst os k buf data_len peer_addr s = Some s'"
    using wlan_br_handle_burst_room [OF assms(1,2,6,7)] by blast
  from wlan_br_handle_burst_simulates [OF h assms(1-5)] assms(7) h show ?thesis
    by (auto simp: split_beta)
qed

theorem burst_refines_switch_witness:
  "\<exists>s'. wlan_br_handle_burst demo_os 2 [demo_frame 2 1, demo_frame 1 2] [60, 60] [demo_peer 7, demo_peer 8]
      demo_start = Some s' \<and> bridge_inv s'"
proof -
  have "\<forall>i < 2. frame_in (int ([60, 60] ! i)) ([demo_frame 2 1, demo_frame 1 2] ! i)
      \<and> sin_addr ([demo_peer 7, demo_peer 8] ! i) \<in> demo_ips
      \<and> h_source ([demo_frame 2 1, demo_frame 1 2] ! i) \<in> demo_macs"
    by (simp add: less_2_cases_iff demo_frame_in)
  from burst_refines_switch [OF demo_start_inv demo_env(1,3,4,5) demo_room this] show ?thesis by blast
qed

text \<open>Handling frames in a burst instead of one by one changes neither what is learned nor which
datagrams go to whom, only their order.\<close>

theorem burst_delivers_the_same:
  assumes "handle_all os (map (\<lambda>i. (int (data_len ! i), buf ! i, peer_addr ! i)) [0..<k]) s = Some s1"
    and "wlan_br_handle_burst os k buf data_len peer_addr s = Some s2" and "bridge_inv s"
    and "mem_ok (os_malloc os)" and "sends_ok os" and "logs_sends os sent" and "bursts_ok os sent"
    and "\<forall>i < k. frame_in (int (data_len ! i)) (buf ! i)"
  shows "fdb_map (br_fdb s2) = fdb_map (br_fdb s1) \<and> ports_of s2 = ports_of s1
    \<and> mset (sent (br_world s2)) = mset (sent (br_world s1))"
proof -
  let ?ds = "map (\<lambda>i. (int (data_len ! i), buf ! i, peer_addr ! i)) [0..<k]"
  let ?fs = "map (\<lambda>i. (peer_addr ! i, take (data_len ! i) (buf ! i))) [0..<k]"
  have fs: "sw_frames ?ds = ?fs" by (simp add: sw_frames_def)
  have fr: "\<forall>(len, buf, p) \<in> set ?ds. frame_in len buf" using assms(8) by auto
  have A: "switch_of s1 = fst (sw_run ?fs (switch_of s))"
    "sent (br_world s1) = sent (br_world s) @ snd (sw_run ?fs (switch_of s))"
    using handle_all_simulates [OF assms(1,3-6) fr] by (simp_all add: fs)
  have B: "switch_of s2 = fst (sw_handle_burst ?fs (switch_of s))"
    "sent (br_world s2) = sent (br_world s) @ fst (snd (sw_handle_burst ?fs (switch_of s)))
      @ snd (snd (sw_handle_burst ?fs (switch_of s)))"
    using wlan_br_handle_burst_simulates [OF assms(2-8)] by simp_all
  have "sw_table (switch_of s2) = sw_table (switch_of s1)" "sw_ports (switch_of s2) = sw_ports (switch_of s1)"
    "mset (sent (br_world s2)) = mset (sent (br_world s1))"
    using sw_burst_same [OF refl refl, of ?fs "switch_of s"] A B by simp_all
  then show ?thesis by (simp add: switch_of_def)
qed

theorem burst_delivers_the_same_witness:
  "\<exists>s1 s2. handle_all demo_os demo_traffic demo_start = Some s1
    \<and> wlan_br_handle_burst demo_os 2 [demo_frame 2 1, demo_frame 1 2] [60, 60] [demo_peer 7, demo_peer 8]
        demo_start = Some s2
    \<and> mset (br_world s2) = mset (br_world s1)"
proof -
  let ?b = "[demo_frame 2 1, demo_frame 1 2]" and ?p = "[demo_peer 7, demo_peer 8]"
  have fr: "\<forall>i < 2. frame_in (int ([60, 60] ! i)) (?b ! i)
      \<and> sin_addr (?p ! i) \<in> demo_ips \<and> h_source (?b ! i) \<in> demo_macs"
    by (simp add: less_2_cases_iff demo_frame_in)
  obtain s1 where h1: "handle_all demo_os demo_traffic demo_start = Some s1"
    using handle_all_returns [OF demo_start_inv demo_mem_ok demo_room demo_traffic_all] by blast
  obtain s2 where h2: "wlan_br_handle_burst demo_os 2 ?b [60, 60] ?p demo_start = Some s2"
    using wlan_br_handle_burst_room [OF demo_start_inv demo_mem_ok demo_room fr] by blast
  have t: "map (\<lambda>i. (int ([60, 60] ! i), ?b ! i, ?p ! i)) [0..<2] = demo_traffic"
    by (simp add: demo_traffic_def upt_rec [of _ 2])
  from burst_delivers_the_same [OF h1 [folded t] h2 demo_start_inv demo_env(1,3,4,5)] fr h1 h2
  show ?thesis by auto
qed

end
