(* ===== verification/Serving.thy ===== *)
theory Serving
  imports Server Forwarding
begin

text \<open>
  The properties of the server's loops: the socket is emptied and everything in it handled; the
  state stays consistent whatever arrives.
\<close>

section \<open>A network for the witnesses\<close>

text \<open>Its world is the queue of datagrams waiting in the socket and the trace of those sent.\<close>

type_synonym net_world = "(bytes \<times> sockaddr_in) list \<times> (bytes \<times> sockaddr_in) list"

definition net_os :: "net_world os" where
  "net_os =
     \<lparr>os_malloc = (\<lambda>n w. (n < 2 ^ 36, w)), os_errno = (\<lambda>w. if fst w = [] then EAGAIN else 0),
      os_socket = (\<lambda>t w. (3, w)), os_bind = (\<lambda>fd a w. (0, w)), os_setsockopt = (\<lambda>fd opt v w. (0, w)),
      os_close = (\<lambda>fd w. w), os_sendto = (\<lambda>fd d p (q, t). (int (length d), (q, t @ [(d, p)]))),
      os_sendmmsg = (\<lambda>fd ms (q, t). ((int (length ms), map (length \<circ> fst) ms), (q, t @ ms))),
      os_recvfrom = (\<lambda>fd n (q, t). case q of [] \<Rightarrow> ((-1, [], \<lparr>sin_addr = 0, sin_port = 0\<rparr>), (q, t))
        | (d, p) # ds \<Rightarrow> ((int (length (take n d)), take n d, p), (ds, t))),
      os_recvmmsg = (\<lambda>fd k n (q, t). if q = [] then ((-1, []), (q, t))
        else ((int (length (take k q)), map (\<lambda>(d, p). (take n d, p)) (take k q)), (drop k q, t))),
      os_read = (\<lambda>fd n w. ((-1, []), w)), os_write = (\<lambda>fd d w. (int (length d), w)),
      os_writev = (\<lambda>fd ds w. (int (length (concat ds)), w)), os_readv = (\<lambda>fd k n w. ((-1, []), w)),
      os_open = (\<lambda>f w. (4, w)), os_ioctl = (\<lambda>fd r i w. ((0, i), w)), os_fcntl = (\<lambda>fd c v w. (0, w)),
      os_listen = (\<lambda>fd n w. (0, w)), os_accept = (\<lambda>fd w. ((-1, \<lparr>sin_addr = 0, sin_port = 0\<rparr>), w)),
      os_thread = (\<lambda>f a w. (0, w)), os_rand = (\<lambda>w. (7, w)), os_epoll_create = (\<lambda>w. (5, w)),
      os_epoll_ctl = (\<lambda>e fd et w. (0, w)), os_epoll_wait = (\<lambda>fd n t w. ((0, []), w)),
      os_usleep = (\<lambda>us w. w), os_clock = (\<lambda>w. ((0, 1, 0), w)), os_sigusr1 = (\<lambda>w. (False, w))\<rparr>"

lemma net_env:
  "mem_ok (os_malloc net_os)" "sends_ok net_os" "logs_sends net_os snd" "bursts_ok net_os snd"
  by (simp_all add: mem_ok_def sends_ok_def logs_sends_def bursts_ok_def net_os_def split_beta)

lemma net_rx_queue: "rx_queue net_os fst snd"
  by (auto simp: rx_queue_def net_os_def split: list.split)

lemma net_rx_burst: "rx_burst net_os fst snd"
  by (auto simp: rx_burst_def io_keeps_def net_os_def)

lemma net_recv_fits: "recv_fits net_os"
  by (auto simp: recv_fits_def net_os_def dest: in_set_takeD)

text \<open>Two stations talking: three datagrams wait in the socket.\<close>

definition net_queue :: "(bytes \<times> sockaddr_in) list" where
  "net_queue = [(demo_frame 2 1, demo_peer 7), (demo_frame 1 2, demo_peer 8), (demo_frame 255 2, demo_peer 8)]"

definition net_start :: "net_world bridge" where
  "net_start = bridge_start 3 (net_queue, [])"

lemma net_start_inv: "bridge_inv net_start"
  by (simp add: net_start_def bridge_inv_start)

lemma net_start_room: "room demo_ips demo_macs net_start"
  unfolding net_start_def by (rule start_room) (simp_all add: demo_ips_def demo_macs_def demo_mac_def)

lemma net_queue_ok:
  "\<forall>(d, p) \<in> set (fst (br_world net_start)). 14 \<le> length d \<and> length d \<le> 1518 \<and> sin_addr p \<in> demo_ips
     \<and> h_source d \<in> demo_macs"
  by (simp add: net_start_def bridge_start_def net_queue_def) (simp add: demo_frame_def demo_mac_def)

definition empty_bufs :: burst_bufs where
  "empty_bufs = (replicate MAX_NUM (replicate MAX_DATA_LEN 0), replicate MAX_NUM 0,
     replicate MAX_NUM \<lparr>sin_addr = 0, sin_port = 0\<rparr>)"

lemma empty_bufs_ok: "bufs_ok empty_bufs"
  by (simp add: bufs_ok_def empty_bufs_def)

section \<open>Emptying the socket\<close>

text \<open>C16: The receive loop of \<open>server_runing\<close> ends. When the socket holds any number of frames of 14 to
1518 bytes, it handles each of them, in order, as the switch does, stale bytes of longer frames in
the buffer notwithstanding, and leaves the socket empty.\<close>

theorem receive_loop_serves_queue:
  assumes "mem_ok (os_malloc os)" and "sends_ok os" and "logs_sends os sent" and "rx_queue os q sent"
    and "bridge_inv s" and "room I M s" and "length buf = 1518"
    and "\<forall>(d, p) \<in> set (q (br_world s)). 14 \<le> length d \<and> length d \<le> 1518 \<and> sin_addr p \<in> I \<and> h_source d \<in> M"
  shows "\<exists>buf' peer' s'. drain os buf peer s = Some (buf', peer', s') \<and> q (br_world s') = [] \<and> bridge_inv s'
    \<and> switch_of s' = fst (sw_run (queue_frames (q (br_world s))) (switch_of s))
    \<and> sent (br_world s') = sent (br_world s) @ snd (sw_run (queue_frames (q (br_world s))) (switch_of s))"
  by (rule drain_empties [OF assms])

theorem receive_loop_serves_queue_witness:
  "\<exists>buf' peer' s'. drain net_os (replicate 1518 0) (demo_peer 0) net_start = Some (buf', peer', s')
    \<and> fst (br_world s') = [] \<and> snd (br_world s') = snd (sw_run (queue_frames net_queue) (switch_of net_start))"
proof -
  have w: "fst (br_world net_start) = net_queue" "snd (br_world net_start) = []"
    by (simp_all add: net_start_def bridge_start_def)
  have "length (replicate 1518 0 :: bytes) = 1518" by simp
  from receive_loop_serves_queue [OF net_env(1-3) net_rx_queue net_start_inv net_start_room this net_queue_ok,
      of "demo_peer 0"] w
  show ?thesis by auto
qed

text \<open>C3: The receive loop of \<open>server_runing_burst\<close> ends with the socket empty. Reading up to 32 frames
at a time and deferring the unicasts of each burst, it learns exactly what handling the frames one by
one would have taught, and sends exactly the same datagrams, in another order.\<close>

theorem burst_loop_serves_queue:
  assumes "mem_ok (os_malloc os)" and "sends_ok os" and "logs_sends os sent" and "bursts_ok os sent"
    and "rx_burst os q sent" and "bridge_inv s" and "room I M s" and "bufs_ok bufs"
    and "\<forall>(d, p) \<in> set (q (br_world s)). 14 \<le> length d \<and> length d \<le> 1518 \<and> sin_addr p \<in> I \<and> h_source d \<in> M"
  shows "\<exists>bufs' s' new. drain_burst os bufs s = Some (bufs', s') \<and> q (br_world s') = [] \<and> bridge_inv s'
    \<and> fdb_map (br_fdb s') = sw_table (fst (sw_run (queue_frames (q (br_world s))) (switch_of s)))
    \<and> ports_of s' = sw_ports (fst (sw_run (queue_frames (q (br_world s))) (switch_of s)))
    \<and> sent (br_world s') = sent (br_world s) @ new
    \<and> mset new = mset (snd (sw_run (queue_frames (q (br_world s))) (switch_of s)))"
  by (rule drain_burst_empties [OF assms]) (simp_all add: switch_of_def)

theorem burst_loop_serves_queue_witness:
  "\<exists>bufs' s'. drain_burst net_os empty_bufs net_start = Some (bufs', s') \<and> fst (br_world s') = []
    \<and> mset (snd (br_world s')) = mset (snd (sw_run (queue_frames net_queue) (switch_of net_start)))"
proof -
  have w: "fst (br_world net_start) = net_queue" "snd (br_world net_start) = []"
    by (simp_all add: net_start_def bridge_start_def)
  from burst_loop_serves_queue [OF net_env net_rx_burst net_start_inv net_start_room empty_bufs_ok net_queue_ok] w
  show ?thesis by (metis append_Nil)
qed

section \<open>Consistency\<close>

text \<open>Whatever datagrams arrive, of any length and content, whatever memory there is and whenever
SIGUSR1 comes, every state the burst server goes through satisfies the invariant of the forwarding
plane and keeps its 32 receive buffers at their full size.\<close>

theorem server_always_consistent:
  assumes "burst_reach os (bufs0, s0) (bufs, s)" and "mem_bounded (os_malloc os)" and "recv_fits os"
    and "bufs_ok bufs0" and "bridge_inv (sv_bridge s0)"
  shows "bufs_ok bufs \<and> bridge_inv (sv_bridge s)"
  using burst_reach_invariant [OF assms(1-3)] assms(4,5) by (simp add: sv_inv_def)

theorem server_always_consistent_witness:
  "\<exists>bufs s. burst_reach net_os (empty_bufs, server_start (net_queue, [])) (bufs, s)
    \<and> epoll_timeout (sv_stat s) = 1 \<and> bridge_inv (sv_bridge s)"
proof -
  let ?s0 = "server_start (net_queue, [])"
  have "\<exists>s. burst_round net_os (empty_bufs, ?s0) = Some (empty_bufs, s) \<and> epoll_timeout (sv_stat s) = 1"
    by (simp add: burst_round_def net_os_def count_wait_def sv_set_world_def server_start_def epoll_stat_zero_def Let_def)
  then obtain s where s: "burst_round net_os (empty_bufs, ?s0) = Some (empty_bufs, s)" "epoll_timeout (sv_stat s) = 1"
    by blast
  have r: "burst_reach net_os (empty_bufs, ?s0) (empty_bufs, s)"
    by (rule reach_round [OF reach_start _ s(1)]) (simp add: server_start_def)
  have "bridge_inv (sv_bridge ?s0)" by (simp add: server_start_def bridge_inv_start)
  from server_always_consistent [OF r mem_ok_bounded [OF net_env(1)] net_recv_fits empty_bufs_ok this] r s(2)
  show ?thesis by blast
qed

end
