(* ===== verification/System.thy ===== *)
theory System
  imports Session_Keeps Sessions Serving
begin

text \<open>
  The server as a whole: the thread of the bridge (\<open>main.c\<close>) and the threads of the command line
  clients (\<open>cli.c\<close>) over one shared state. The threads are interleaved by turns: a turn of the burst
  loop, the delivery of SIGUSR1, a round of the session of one client. What two threads do to the
  same variable inside a turn, which the code does not guard, is not modelled.
\<close>

section \<open>The environment of a session\<close>

text \<open>
  What a session asks the host for: the time, its own socket, the regular expressions and \<open>crypt\<close> of
  the C library. It acts on the world only.
\<close>

record 'w host =
  host_time :: "'w \<Rightarrow> int \<times> 'w"
  host_select :: "int \<Rightarrow> int \<Rightarrow> 'w \<Rightarrow> (int \<times> int \<times> int) \<times> 'w"
  host_read :: "'w \<Rightarrow> (int \<times> char) \<times> 'w"
  host_eintr :: "'w \<Rightarrow> bool"
  host_regcomp :: "bool \<Rightarrow> bool \<Rightarrow> string \<Rightarrow> bool"
  host_regexec :: "bool \<Rightarrow> bool \<Rightarrow> string \<Rightarrow> string \<Rightarrow> bool"
  host_regex_bytes :: "bool \<Rightarrow> bool \<Rightarrow> string \<Rightarrow> string"
  host_crypt :: "string \<Rightarrow> string \<Rightarrow> string option"

definition on_world :: "('w \<Rightarrow> 'a \<times> 'w) \<Rightarrow> 'w server cli_app \<Rightarrow> 'a \<times> 'w server cli_app" where
  "on_world f u =
     (case f (sv_world (app_main u)) of (r, w) \<Rightarrow> (r, u\<lparr>app_main := sv_set_world w (app_main u)\<rparr>))"

text \<open>
  The callbacks of the library the server installs are those of \<open>server_env\<close>. It installs no
  validator, completor, transient mode or print callback, and these are never called.
\<close>

definition server_base :: "'w host \<Rightarrow> 'w server cli_app cli_env" where
  "server_base h =
     \<lparr>env_command = (\<lambda>f name argv argc s. None), env_validator = (\<lambda>f n v s. (CLI_OK, s)),
      env_completor = (\<lambda>f n v ch s. (ch, s)), env_transient = (\<lambda>f n v s. (0, s)), env_print = (\<lambda>f t s. s),
      env_auth = (\<lambda>f u p s. (CLI_ERROR, s)), env_enable = (\<lambda>f p s. (0, s)), env_regular = (\<lambda>f s. (CLI_OK, s)),
      env_idle = (\<lambda>f s. (CLI_QUIT, s)), env_regcomp = host_regcomp h, env_regexec = host_regexec h,
      env_regex_bytes = host_regex_bytes h, env_crypt = host_crypt h, env_time = on_world (host_time h),
      env_select = (\<lambda>a b. on_world (host_select h a b)), env_read = on_world (host_read h),
      env_eintr = (\<lambda>u. host_eintr h (sv_world (app_main u)))\<rparr>"

section \<open>The shared state\<close>

text \<open>
  \<open>sys_app\<close> holds the state of the bridge and the variables of \<open>cli.c\<close>, \<open>sys_bufs\<close> the buffers of the
  burst loop, \<open>sys_sessions\<close> the clients logged on or logging on, each with its descriptor. The copy
  of the shared state in a session is what the session last saw; it is not looked at.
\<close>

record 'w system =
  sys_app :: "'w server cli_app"
  sys_bufs :: burst_bufs
  sys_sessions :: "(int \<times> 'w server cli_app edit) list"

definition with_app :: "'u \<Rightarrow> 'u edit \<Rightarrow> 'u edit" where
  "with_app u ed = with_cli ed ((ed_cli ed)\<lparr>cli_app := u\<rparr>)"

definition close_client :: "'w os \<Rightarrow> int \<Rightarrow> 'w server cli_app \<Rightarrow> 'w server cli_app" where
  "close_client os fd u = u\<lparr>app_main := sv_set_world (os_close os fd (sv_world (app_main u))) (app_main u)\<rparr>"

text \<open>
  \<open>run_child\<close> up to the first round of its session. \<open>Inl\<close>: the session is over before it begins, for want of memory
  or because of its descriptor. \<open>None\<close>: a NULL pointer is followed.
\<close>

definition session_open ::
  "'w os \<Rightarrow> 'w server cli_app cli_env \<Rightarrow> bool list \<Rightarrow> int \<Rightarrow> 'w server cli_app
     \<Rightarrow> ('w server cli_app + 'w server cli_app edit) option" where
  "session_open os e mem fd u = do {
     cli \<leftarrow> cli_init (server_env os e) mem u;
     s0 \<leftarrow> cli;
     (case loop_prepare (child_login (child_commands (child_settings (server_env os e) s0))) of
        (False, s1) \<Rightarrow> Some (Inl (cli_app s1))
      | (True, s1) \<Rightarrow>
          (let s2 = s1\<lparr>cli_client := True\<rparr> in
           if FD_SETSIZE \<le> fd then Some (Inl (cli_app (cli_error (server_env os e)
             (''CLI_LOOP() called with sockfd > FD_SETSIZE - exiting cli_loop'' @ [CHR 0x0A]) s2)))
           else Some (Inr (session_start (server_env os e) s2))))
   }"

section \<open>Turns\<close>

text \<open>The turns of the sessions: \<open>fd\<close> joins, a round of one that goes on, the last round of one.\<close>

inductive session_turn :: "'w os \<Rightarrow> (int \<Rightarrow> 'w host) \<Rightarrow> 'w system \<Rightarrow> 'w system \<Rightarrow> bool" for os hs where
  turn_refused: "session_open os (server_base (hs fd)) mem fd (sys_app S) = Some (Inl u)
    \<Longrightarrow> session_turn os hs S (S\<lparr>sys_app := close_client os fd u\<rparr>)"
| turn_join: "session_open os (server_base (hs fd)) mem fd (sys_app S) = Some (Inr ed)
    \<Longrightarrow> session_turn os hs S (S\<lparr>sys_app := cli_app (ed_cli ed), sys_sessions := sys_sessions S @ [(fd, ed)]\<rparr>)"
| turn_round: "sys_sessions S = xs @ (fd, ed) # ys
    \<Longrightarrow> session_step (server_env os (server_base (hs fd))) (with_app (sys_app S) ed) = Some (More, ed1)
    \<Longrightarrow> session_turn os hs S (S\<lparr>sys_app := cli_app (ed_cli ed1), sys_sessions := xs @ (fd, ed1) # ys\<rparr>)"
| turn_leave: "sys_sessions S = xs @ (fd, ed) # ys
    \<Longrightarrow> session_step (server_env os (server_base (hs fd))) (with_app (sys_app S) ed) = Some (x, ed1) \<Longrightarrow> x \<noteq> More
    \<Longrightarrow> session_turn os hs S (S\<lparr>sys_app := close_client os fd (cli_app (ed_cli ed1)), sys_sessions := xs @ ys\<rparr>)"

definition set_main :: "'w server \<Rightarrow> 'w system \<Rightarrow> 'w system" where
  "set_main m S = S\<lparr>sys_app := (sys_app S)\<lparr>app_main := m\<rparr>\<rparr>"

inductive bridge_turn :: "'w os \<Rightarrow> 'w system \<Rightarrow> 'w system \<Rightarrow> bool" for os where
  turn_signal: "bridge_turn os S (set_main (deliver_signal os (app_main (sys_app S))) S)"
| turn_bridge: "sv_running (app_main (sys_app S))
    \<Longrightarrow> burst_round os (sys_bufs S, app_main (sys_app S)) = Some (bufs, m)
    \<Longrightarrow> bridge_turn os S ((set_main m S)\<lparr>sys_bufs := bufs\<rparr>)"

inductive system_reach :: "'w os \<Rightarrow> (int \<Rightarrow> 'w host) \<Rightarrow> 'w system \<Rightarrow> 'w system \<Rightarrow> bool" for os hs S0 where
  sys_start: "system_reach os hs S0 S0"
| sys_bridge: "system_reach os hs S0 S \<Longrightarrow> bridge_turn os S S' \<Longrightarrow> system_reach os hs S0 S'"
| sys_session: "system_reach os hs S0 S \<Longrightarrow> session_turn os hs S S' \<Longrightarrow> system_reach os hs S0 S'"

section \<open>What the command line may change\<close>

text \<open>The forwarding plane: all the bridge keeps but its counters, and the descriptors and the flag of its loop.\<close>

definition plane where
  "plane m = (br_fdb (sv_bridge m), br_list (sv_bridge m), br_pas (sv_bridge m), br_sock (sv_bridge m),
     sv_epfd m, sv_udp_fd m, sv_running m)"

text \<open>\<open>steady p c u\<close>: the forwarding plane is \<open>p\<close>, the table of counters is well-formed and counts \<open>c\<close>.\<close>

definition steady where
  "steady p c u \<longleftrightarrow> plane (app_main u) = p \<and> stat_inv (br_stats (sv_bridge (app_main u)))
     \<and> curr_of (br_stats (sv_bridge (app_main u))) = c"

lemma steady_world [simp]: "steady p c (u\<lparr>app_main := sv_set_world w m\<rparr>) = steady p c (u\<lparr>app_main := m\<rparr>)"
  by (simp add: steady_def plane_def sv_set_world_def)

lemma steady_vars [simp]:
  "steady p c (u\<lparr>app_regular_count := n\<rparr>) = steady p c u" "steady p c (u\<lparr>app_log_level := l\<rparr>) = steady p c u"
  "steady p c (u\<lparr>app_main := (app_main u)\<lparr>sv_stat := t\<rparr>\<rparr>) = steady p c u"
  "steady p c (u\<lparr>app_main := app_main u\<rparr>) = steady p c u"
  by (simp_all add: steady_def plane_def)

lemma steady_on_world [simp]: "steady p c (snd (on_world f u)) = steady p c u"
  by (simp add: on_world_def split_beta)

lemma steady_close [simp]: "steady p c (close_client os fd u) = steady p c u"
  by (simp add: close_client_def)

text \<open>The report of the counters writes the previous counters only.\<close>

lemma curr_of_option: "curr_of h ip = (case map_option curr_stat (stat_map h ip) of None \<Rightarrow> zero_stat | Some c \<Rightarrow> c)"
  by (simp add: curr_of_def split: option.split)

lemma stat_modify:
  assumes "stat_inv h" and "a \<in> set (ut_iter h)"
    and "key_ip4_addr e = key_ip4_addr (ut_deref h a)" and "curr_stat e = curr_stat (ut_deref h a)"
  shows "stat_inv (ut_modify a (\<lambda>_. e) h)" and "curr_of (ut_modify a (\<lambda>_. e) h) = curr_of h"
proof -
  from assms(1) have lt: "\<And>b. b \<in> set (app_order h) \<Longrightarrow> b < length (ut_objs h)"
    by (auto simp: stat_inv_def ut_inv_def ut_wf_def)
  have en: "ut_entries (ut_modify a (\<lambda>_. e) h)
      = map (\<lambda>b. (hh_key (ut_objs h ! b), if b = a then e else ut_deref h b)) (app_order h)"
    using lt unfolding ut_entries_def ut_modify_sel
    by (intro map_cong refl) (simp add: ut_modify_nth ut_deref_def)
  have en0: "ut_entries h = map (\<lambda>b. (hh_key (ut_objs h ! b), ut_deref h b)) (app_order h)"
    by (simp add: ut_entries_def ut_deref_def)
  have k0: "hh_key (ut_objs h ! b) = int_key (key_ip4_addr (ut_deref h b))" if "b \<in> set (app_order h)" for b
    using assms(1) that unfolding stat_inv_def en0 by simp
  have "ut_inv (ut_modify a (\<lambda>_. e) h)" using assms(1) by (simp add: stat_inv_def ut.inv_modify)
  moreover have "\<forall>(k, e') \<in> set (ut_entries (ut_modify a (\<lambda>_. e) h)). k = int_key (key_ip4_addr e')"
    unfolding en using k0 assms(3) by auto
  ultimately show "stat_inv (ut_modify a (\<lambda>_. e) h)" by (simp only: stat_inv_def)
  have es: "map_option curr_stat (map_of (map (\<lambda>b. (g b, f b)) as) k) = map_option curr_stat (map_of (map (\<lambda>b. (g b, f' b)) as) k)"
    if "\<And>b. curr_stat (f b) = curr_stat (f' b)" for as k and g :: "nat \<Rightarrow> bytes" and f f'
    using that by (induction as) auto
  have "map_option curr_stat (stat_map (ut_modify a (\<lambda>_. e) h) ip) = map_option curr_stat (stat_map h ip)" for ip
    unfolding stat_map_def en en0 by (rule es) (simp add: assms(4))
  then have "curr_of (ut_modify a (\<lambda>_. e) h) ip = curr_of h ip" for ip
    by (simp add: curr_of_option)
  then show "curr_of (ut_modify a (\<lambda>_. e) h) = curr_of h" by blast
qed

lemma dump_static_steady:
  "dump_static_from clock as h w = (ls, h1, w1) \<Longrightarrow> stat_inv h \<Longrightarrow> set as \<subseteq> set (ut_iter h)
     \<Longrightarrow> stat_inv h1 \<and> curr_of h1 = curr_of h"
proof (induction as arbitrary: h w ls)
  case (Cons a as)
  obtain clk w2 where c: "clock w = (clk, w2)" by fastforce
  obtain r e where t: "throughput_update clk (ut_deref h a) = (r, e)" by fastforce
  let ?h = "ut_modify a (\<lambda>_. e) h"
  from Cons.prems(1) c t obtain ls2 where d: "dump_static_from clock as ?h w2 = (ls2, h1, w1)"
    by (auto simp: Let_def split: prod.split_asm)
  have "key_ip4_addr e = key_ip4_addr (ut_deref h a)" "curr_stat e = curr_stat (ut_deref h a)"
    using t by (auto simp: throughput_update_def Let_def split: prod.split_asm)
  note m = stat_modify [OF Cons.prems(2) _ this]
  have "set as \<subseteq> set (ut_iter ?h)" using Cons.prems(3) by (simp add: ut_iter_def)
  from Cons.IH [OF d m(1) this] m(2) Cons.prems(3) show ?case by simp
qed simp

text \<open>Printing, and the commands of the server.\<close>

interpretation sv_io: app_io "server_base h" "steady p c" for h p c
  by unfold_locales (simp_all add: server_base_def)

lemma steady_set_server:
  assumes "plane (f (app_main (cli_app s))) = plane (app_main (cli_app s))"
    and "br_stats (sv_bridge (f (app_main (cli_app s)))) = br_stats (sv_bridge (app_main (cli_app s)))"
  shows "steady p c (cli_app (set_server f s)) = steady p c (cli_app s)"
  using assms by (simp add: set_server_def steady_def)

lemma show_ip_stat_steady:
  assumes "steady p c (cli_app s)"
  shows "steady p c (cli_app (snd (cmd_show_ip_stat os (server_base h) s)))"
proof -
  let ?b = "sv_bridge (app_main (cli_app s))"
  obtain ls t w where d: "wlan_ip_dump_static os (br_stats ?b) (br_world ?b) = (ls, t, w)" by (metis prod_cases3)
  have "stat_inv t \<and> curr_of t = curr_of (br_stats ?b)"
    using dump_static_steady [OF d [unfolded wlan_ip_dump_static_def]] assms by (simp add: steady_def)
  then have "steady p c (cli_app (set_server (\<lambda>m. m\<lparr>sv_bridge := ?b\<lparr>br_stats := t, br_world := w\<rparr>\<rparr>) s))"
    using assms by (simp add: set_server_def steady_def plane_def)
  with d show ?thesis by (simp add: cmd_show_ip_stat_def Let_def cli_print_fn_def sv_io.fold_app)
qed

lemma server_command_steady:
  assumes "server_command os (server_base h) f n av ac s = Some (rc, s1)" and "steady p c (cli_app s)"
  shows "steady p c (cli_app s1)"
proof -
  have z: "steady p c (cli_app (set_server (\<lambda>m. m\<lparr>sv_stat := t\<rparr>) s))" for t
    using assms(2) by (subst steady_set_server) (simp_all add: plane_def)
  have l: "steady p c (cli_app (snd (set_log_level (server_base h) av ac t)))" if "steady p c (cli_app t)" for t
    using that by (auto simp: set_log_level_def Let_def split: list.split)
  have t: "steady p c (cli_app (snd (cmd_test (server_base h) n av ac s)))"
    using assms(2) by (simp add: cmd_test_def Let_def sv_io.fold_app)
  have st: "cmd_set (server_base h) av ac s = Some (rc, s1) \<Longrightarrow> steady p c (cli_app s1)"
    using assms(2) by (auto simp: cmd_set_def Let_def Option.bind_eq_Some_conv split: if_split_asm)
  have fd: "cmd_show_fdb_list (server_base h) s = Some (rc, s1) \<Longrightarrow> steady p c (cli_app s1)"
    using assms(2) by (auto simp: cmd_show_fdb_list_def cli_print_fn_def sv_io.fold_app)
  from assms(1) show ?thesis
    unfolding server_command_def
    using l [OF z, of epoll_stat_zero] t st fd show_ip_stat_steady [OF assms(2), of os h] assms(2) z [of epoll_stat_zero]
    by (auto simp: cmd_show_epoll_stat_def cmd_clean_epoll_stat_def cmd_set_log_level_def cmd_config_int_exit_def
        split: if_split_asm)
qed

lemma server_env_fields:
  "env_print (server_env os e) = env_print e" "env_time (server_env os e) = env_time e"
  "env_validator (server_env os e) = env_validator e" "env_completor (server_env os e) = env_completor e"
  "env_transient (server_env os e) = env_transient e" "env_select (server_env os e) = env_select e"
  "env_read (server_env os e) = env_read e" "env_command (server_env os e) = server_command os e"
  "env_auth (server_env os e) = (\<lambda>f u p s. (check_auth u p, s))" "env_enable (server_env os e) = (\<lambda>f p s. (check_enable p, s))"
  "env_regular (server_env os e) = (\<lambda>f. regular_callback e)" "env_idle (server_env os e) = (\<lambda>f. idle_timeout e)"
  by (simp_all add: server_env_def)

lemma server_base_fields:
  "env_print (server_base h) = (\<lambda>f t s. s)" "env_time (server_base h) = on_world (host_time h)"
  "env_validator (server_base h) = (\<lambda>f n v s. (CLI_OK, s))" "env_completor (server_base h) = (\<lambda>f n v ch s. (ch, s))"
  "env_transient (server_base h) = (\<lambda>f n v s. (0, s))" "env_select (server_base h) = (\<lambda>a b. on_world (host_select h a b))"
  "env_read (server_base h) = on_world (host_read h)"
  by (simp_all add: server_base_def)

lemma regular_callback_steady: "steady p c (cli_app s) \<Longrightarrow> steady p c (cli_app (snd (regular_callback (server_base h) s)))"
  by (simp add: regular_callback_def Let_def)

interpretation sv: app_keeps "server_env os (server_base h)" "steady p c" for os h p c
  by unfold_locales
    (simp_all only: server_env_fields server_base_fields snd_conv steady_on_world regular_callback_steady
      idle_timeout_def sv_io.cli_print_app server_command_steady)

lemma child_settings_steady: "steady p c (cli_app s) \<Longrightarrow> steady p c (cli_app (child_settings (server_env os (server_base h)) s))"
  unfolding child_settings_def by (intro sv.idle_callback_app) simp

lemma session_open_steady:
  assumes "session_open os (server_base h) mem fd u = Some r" and "steady p c u"
  shows "case r of Inl u1 \<Rightarrow> steady p c u1 | Inr ed \<Rightarrow> steady p c (cli_app (ed_cli ed))"
proof -
  let ?e = "server_env os (server_base h)"
  from assms(1) obtain s0 where i: "cli_init ?e mem u = Some (Some s0)"
    by (auto simp: session_open_def Option.bind_eq_Some_conv)
  obtain ok s1 where l: "loop_prepare (child_login (child_commands (child_settings ?e s0))) = (ok, s1)" by fastforce
  have "steady p c (cli_app (child_settings ?e s0))" using sv.init_app [OF i assms(2)] by (rule child_settings_steady)
  then have "steady p c (cli_app s1)" using sv.prepare_app [OF l] by simp
  then show ?thesis
    using assms(1) i l by (cases ok) (auto simp: session_open_def Let_def sv.session_start_app split: if_split_asm)
qed

lemma session_turn_steady:
  assumes "session_turn os hs S S'" and "steady p c (sys_app S)"
  shows "steady p c (sys_app S')"
  using assms
proof cases
  case (turn_refused fd mem u)
  with session_open_steady [OF turn_refused(2) assms(2)] show ?thesis by simp
next
  case (turn_join fd mem ed)
  with session_open_steady [OF turn_join(2) assms(2)] show ?thesis by simp
next
  case (turn_round xs fd ed ys ed1)
  with sv.session_step_app [OF turn_round(3)] assms(2) show ?thesis by (simp add: with_app_def)
next
  case (turn_leave xs fd ed ys x ed1)
  with sv.session_step_app [OF turn_leave(3)] assms(2) show ?thesis by (simp add: with_app_def)
qed

lemma turn_forwarding:
  assumes "session_turn os hs S S'" and "bridge_inv (sv_bridge (app_main (sys_app S)))"
  shows "plane (app_main (sys_app S')) = plane (app_main (sys_app S))
    \<and> switch_of (sv_bridge (app_main (sys_app S'))) = switch_of (sv_bridge (app_main (sys_app S)))
    \<and> bridge_inv (sv_bridge (app_main (sys_app S'))) \<and> sys_bufs S' = sys_bufs S"
proof -
  let ?b = "sv_bridge (app_main (sys_app S))"
  have "steady (plane (app_main (sys_app S))) (curr_of (br_stats ?b)) (sys_app S)"
    using assms(2) by (simp add: steady_def bridge_inv_def)
  note st = session_turn_steady [OF assms(1) this]
  have "sys_bufs S' = sys_bufs S" using assms(1) by cases simp_all
  with st assms(2) show ?thesis
    by (auto simp: steady_def plane_def switch_of_def ports_of_def bridge_inv_def)
qed

section \<open>The state in every interleaving\<close>

lemma bridge_turn_consistent:
  assumes "bridge_turn os S S'" and "mem_bounded (os_malloc os)" and "recv_fits os"
    and "sv_inv (sys_bufs S, app_main (sys_app S))"
  shows "sv_inv (sys_bufs S', app_main (sys_app S'))"
  using assms(1)
proof cases
  case turn_signal
  then show ?thesis
    using assms(4) by (auto simp: sv_inv_def set_main_def deliver_signal_def usr1_handler_def sv_set_world_def split_beta Let_def)
next
  case (turn_bridge bufs m)
  then show ?thesis using burst_round_invariant [OF turn_bridge(3) assms(2-4)] by (simp add: set_main_def)
qed

lemma system_consistent:
  assumes "system_reach os hs S0 S" and "mem_bounded (os_malloc os)" and "recv_fits os"
    and "sv_inv (sys_bufs S0, app_main (sys_app S0))"
  shows "sv_inv (sys_bufs S, app_main (sys_app S))"
  using assms(1)
proof (induction rule: system_reach.induct)
  case (sys_bridge S S')
  then show ?case using bridge_turn_consistent assms(2,3) by blast
next
  case (sys_session S S')
  then show ?case using turn_forwarding [OF sys_session(2)] by (simp add: sv_inv_def)
qed (rule assms(4))

section \<open>A session among the others\<close>

text \<open>
  The run of a session as it sees it: between its rounds the shared state may become any other.
\<close>

inductive shared_run :: "'u cli_env \<Rightarrow> 'u edit \<Rightarrow> 'u edit \<Rightarrow> bool" for e and ed0 where
  shared_start: "shared_run e ed0 ed0"
| shared_round: "shared_run e ed0 ed \<Longrightarrow> session_step e (with_app u ed) = Some (More, ed1) \<Longrightarrow> shared_run e ed0 ed1"

lemma shared_trans: "shared_run e b c \<Longrightarrow> shared_run e a b \<Longrightarrow> shared_run e a c"
  by (induction rule: shared_run.induct) (auto intro: shared_round)

lemma with_app_same [simp]: "with_app (cli_app (ed_cli ed)) ed = ed"
  by (simp add: with_app_def with_cli_def)

lemma reach_shared: "session_reach e ed0 ed \<Longrightarrow> shared_run e ed0 ed"
proof (induction rule: session_reach.induct)
  case (reach_step ed ed1 ed2)
  then show ?case using shared_round [where u = "cli_app (ed_cli ed1)"] by simp
qed (rule shared_start)

lemma with_app_fields [simp]:
  "outside (with_app u ed) = outside ed" "quiet (ed_cli (with_app u ed)) = quiet (ed_cli ed)"
  "hidden (with_app u ed) = hidden ed" "ed_username (with_app u ed) = ed_username ed" "ed_cmd (with_app u ed) = ed_cmd ed"
  "settings (ed_cli (with_app u ed)) = settings (ed_cli ed)" "cli_privilege (ed_cli (with_app u ed)) = cli_privilege (ed_cli ed)"
  "cli_state (ed_cli (with_app u ed)) = cli_state (ed_cli ed)" "cli_users (ed_cli (with_app u ed)) = cli_users (ed_cli ed)"
  "cli_auth_callback (ed_cli (with_app u ed)) = cli_auth_callback (ed_cli ed)"
  by (simp_all add: with_app_def with_cli_def outside_def quiet_def hidden_def settings_def)

lemma shared_outside:
  assumes "shared_run e ed0 ed" and "fair_callbacks e" and "quiet (ed_cli ed0)" and "outside ed0"
  shows "settings (ed_cli ed) = settings (ed_cli ed0) \<and> cli_privilege (ed_cli ed) = cli_privilege (ed_cli ed0) \<and> outside ed
    \<or> (\<exists>ed1 v ed2 u. shared_run e ed0 ed1 \<and> session_step e (with_app v ed1) = Some (More, ed2) \<and> shared_run e ed2 ed
        \<and> cli_state (ed_cli ed1) = STATE_PASSWORD \<and> ed_username ed1 = Some u
        \<and> accepts e (cli_users (ed_cli ed0)) (cli_auth_callback (ed_cli ed0)) u (cstr (ed_cmd ed1)))"
  using assms(1)
proof (induction rule: shared_run.induct)
  case (shared_round ed1 v ed2)
  from shared_round.IH show ?case
  proof (elim disjE)
    assume "\<exists>d1 v d2 u. shared_run e ed0 d1 \<and> session_step e (with_app v d1) = Some (More, d2) \<and> shared_run e d2 ed1
        \<and> cli_state (ed_cli d1) = STATE_PASSWORD \<and> ed_username d1 = Some u
        \<and> accepts e (cli_users (ed_cli ed0)) (cli_auth_callback (ed_cli ed0)) u (cstr (ed_cmd d1))"
    then show ?case using shared_run.shared_round [OF _ shared_round.hyps(2)] by blast
  next
    assume s: "settings (ed_cli ed1) = settings (ed_cli ed0) \<and> cli_privilege (ed_cli ed1) = cli_privilege (ed_cli ed0) \<and> outside ed1"
    then have "quiet (ed_cli (with_app v ed1))" "outside (with_app v ed1)"
      using assms(3) settings_quiet [of "ed_cli ed1" "ed_cli ed0"] by simp_all
    note o = step_outside [OF assms(2) this shared_round.hyps(2), unfolded with_app_fields]
    show ?case
    proof (cases "outside ed2")
      case True
      then show ?thesis using o s by simp
    next
      case False
      then obtain u where "hidden ed1" "ed_username ed1 = Some u"
        and "accepts e (cli_users (ed_cli ed0)) (cli_auth_callback (ed_cli ed0)) u (cstr (ed_cmd ed1))"
        using o s by (auto simp: settings_def)
      moreover from this(1) s have "cli_state (ed_cli ed1) = STATE_PASSWORD" by (auto simp: hidden_def outside_def)
      ultimately show ?thesis using shared_round.hyps shared_start by blast
    qed
  qed
qed (use assms(4) in simp)

text \<open>A session that has just been opened, as the server sets it up.\<close>

definition waiting :: "'w server cli_app edit \<Rightarrow> bool" where
  "waiting ed \<longleftrightarrow> outside ed \<and> quiet (ed_cli ed) \<and> cli_users (ed_cli ed) = []
     \<and> cli_auth_callback (ed_cli ed) = Some ''check_auth'' \<and> cli_privilege (ed_cli ed) = PRIVILEGE_UNPRIVILEGED"

definition origin :: "'u cli_def \<Rightarrow> (string \<times> string) list \<times> string option" where
  "origin s = (cli_users s, cli_print_cb s)"

lemma origin_alloc [simp]: "origin (snd (cli_alloc s)) = origin s"
  by (simp add: cli_alloc_def origin_def split: list.split)

lemma origin_allocs [simp]: "origin (snd (cli_allocs n s)) = origin s"
proof (induction n arbitrary: s)
  case (Suc n)
  obtain b t where a: "cli_alloc s = (b, t)" by fastforce
  with Suc [of t] origin_alloc [of s] show ?case by (cases b) simp_all
qed simp

lemma origin_strdup [simp]: "origin (snd (cli_strdup t s)) = origin s"
  by (simp add: cli_strdup_def split_beta)

lemma origin_fields [simp]:
  "origin (s\<lparr>cli_next_id := n\<rparr>) = origin s" "origin (s\<lparr>cli_commands := cs\<rparr>) = origin s"
  "origin (s\<lparr>cli_found_optargs := os\<rparr>) = origin s" "origin (s\<lparr>cli_app := u\<rparr>) = origin s" "origin (s\<lparr>cli_mem := m\<rparr>) = origin s"
  "origin (s\<lparr>cli_buf_size := n\<rparr>) = origin s" "origin (s\<lparr>cli_telnet := b\<rparr>) = origin s"
  "origin (s\<lparr>cli_privilege := i\<rparr>) = origin s" "origin (s\<lparr>cli_mode := i\<rparr>) = origin s"
  "origin (s\<lparr>cli_client := b\<rparr>) = origin s" "origin (s\<lparr>cli_timeout_sec := i\<rparr>) = origin s" "origin (s\<lparr>cli_timeout_usec := i\<rparr>) = origin s"
  by (simp_all add: origin_def)

lemma origin_register_core [simp]: "origin (snd (cli_register_command_core p d s)) = origin s"
proof -
  obtain x t where n: "cli_int_command_name p (c_command d) s = (x, t)" by fastforce
  have "origin (snd (cli_int_command_name p (c_command d) s)) = origin s"
    by (simp add: cli_int_command_name_def Let_def split_beta split: option.split del: cli_allocs.simps)
  with n show ?thesis by (cases x) (simp_all add: cli_register_command_core_def Let_def split: option.split)
qed

lemma origin_registers [simp]:
  "origin (snd (cli_register_command p c cb pr m h s)) = origin s"
  "origin (snd (cli_register_filter c i f pr m h s)) = origin s"
proof -
  obtain b t where a: "alloc_command h s = (b, t)" by fastforce
  moreover have "origin (snd (alloc_command h s)) = origin s" by (simp add: alloc_command_def del: cli_allocs.simps)
  ultimately show "origin (snd (cli_register_command p c cb pr m h s)) = origin s"
    and "origin (snd (cli_register_filter c i f pr m h s)) = origin s"
    by (cases b; simp add: cli_register_command_def cli_register_filter_def)+
qed

lemma origin_register_optarg:
  assumes "cli_register_optarg c n fl pr m h g v t s = Some (b, s1)"
  shows "origin s1 = origin s"
proof -
  obtain x t1 where a: "cli_alloc s = (x, t1)" by fastforce
  obtain y t2 where d: "cli_allocs (if h = None then 1 else 2) t1 = (y, t2)" by fastforce
  have "origin t1 = origin s" "origin t2 = origin t1"
    using origin_alloc [of s] a origin_allocs [of "if h = None then 1 else 2" t1] d by simp_all
  with assms a d show ?thesis
    unfolding cli_register_optarg_def by (cases x; cases y) (auto simp: Let_def split: option.split_asm if_split_asm)
qed

lemma origin_filter_optargs: "filter_optargs c os s = Some s1 \<Longrightarrow> origin s1 = origin s"
proof (induction c os s rule: filter_optargs.induct)
  case (2 c name flags descr v os s)
  then show ?case by (fastforce simp: filter_optarg_def Option.bind_eq_Some_conv dest: origin_register_optarg)
qed simp

lemma origin_init_filters: "init_filter_commands fs s = Some (b, s1) \<Longrightarrow> origin s1 = origin s"
proof (induction fs arbitrary: s)
  case (Cons f fs)
  obtain name fn descr os where f: "f = (name, fn, descr, os)" by (metis prod.exhaust)
  obtain c s2 where r: "cli_register_filter name (Some fn) (Some fn) PRIVILEGE_UNPRIVILEGED MODE_ANY (Some descr) s = (c, s2)"
    by fastforce
  have "origin s2 = origin s"
    using origin_registers(2) [of name "Some fn" "Some fn" PRIVILEGE_UNPRIVILEGED MODE_ANY "Some descr" s] r by simp
  with Cons.prems f r show ?case
    by (cases c) (fastforce simp: Option.bind_eq_Some_conv split: if_split_asm dest: Cons.IH origin_filter_optargs)+
qed simp

lemma origin_init_commands [simp]: "origin (snd (init_commands s)) = origin s"
  by (simp only: init_commands_def Let_def split_beta origin_registers)

lemma origin_settings [simp]:
  "origin (cli_set_promptchar p s) = origin s" "origin (cli_set_modestring ms s) = origin s"
  "origin (cli_set_banner b s) = origin s" "origin (cli_set_hostname h s) = origin s"
  by (auto simp: cli_set_promptchar_def cli_set_modestring_def cli_set_banner_def cli_set_hostname_def dup_nonempty_def
      origin_def cli_strdup_def cli_alloc_def split: prod.splits option.splits if_splits list.splits)

lemma origin_build_shortest [simp]: "origin (cli_build_shortest s) = origin s"
  by (simp add: cli_build_shortest_def)

lemma origin_set_privilege [simp]: "origin (snd (cli_set_privilege p s)) = origin s"
  by (simp add: cli_set_privilege_def Let_def)

lemma origin_set_configmode [simp]: "origin (snd (cli_set_configmode m d s)) = origin s"
  by (simp add: cli_set_configmode_def Let_def split: option.split list.split)

lemma origin_time [simp]: "origin (snd (cli_time e s)) = origin s"
  by (simp add: cli_time_def split_beta)

lemma origin_idle [simp]: "origin (cli_set_idle_timeout_callback e n f s) = origin s"
  using origin_time [of e s]
  by (simp add: cli_set_idle_timeout_callback_def cli_set_idle_timeout_def split_beta origin_def)

lemma origin_init:
  assumes "cli_init e mem u = Some (Some s)"
  shows "origin s = ([], None)"
  using assms
proof (cases rule: init_cases)
  case (1 s0 c s1 x s2 s3)
  have "origin s0 = ([], None)" using origin_allocs [of 2 "cli_zero mem u"] 1(1) by (simp add: origin_def cli_zero_def)
  moreover have "origin s1 = origin s0"
    using origin_init_commands [of "s0\<lparr>cli_buf_size := 1024, cli_telnet := True\<rparr>"] 1(2) by simp
  moreover have "origin s2 = origin s1"
    using origin_registers(1) [of "Some c" "''terminal''" "Some Cli_configure_terminal" PRIVILEGE_PRIVILEGED
       MODE_EXEC "Some ''Conlfigure from the terminal''" s1] 1(3) by simp
  ultimately show ?thesis using origin_init_filters [OF 1(4)] by (simp add: 1(5))
qed

lemma origin_child [simp]: "origin (child_commands s) = origin s" "origin (child_settings e s) = origin s"
    "origin (child_login s) = origin s"
proof -
  have x: "origin (exec_command p n f d t) = origin t" for p n f d t by (simp add: exec_command_def)
  show "origin (child_commands s) = origin s"
    by (simp only: child_commands_def Let_def split_beta origin_registers x)
  have "origin (cli_regular_interval 5 (cli_regular (Some ''regular_callback'') (cli_telnet_protocol 1 t))) = origin t" for t :: "'a cli_def"
    by (simp add: cli_regular_interval_def cli_regular_def cli_telnet_protocol_def origin_def)
  then show "origin (child_settings e s) = origin s" by (simp add: child_settings_def)
  show "origin (child_login s) = origin s" by (simp add: child_login_def cli_set_enable_callback_def cli_set_auth_callback_def origin_def)
qed

lemma login_callbacks: "cli_auth_callback (child_login s) = Some ''check_auth''"
  by (simp add: child_login_def cli_set_enable_callback_def cli_set_auth_callback_def)

lemma auth_allocs [simp]: "cli_auth_callback (snd (cli_allocs n s)) = cli_auth_callback s" "cli_state (snd (cli_allocs n s)) = cli_state s"
proof (induction n arbitrary: s)
  case (Suc n)
  { case 1
    obtain b t where "cli_alloc s = (b, t)" by fastforce
    with Suc(1) [of t] show ?case by (cases b) (auto simp: cli_alloc_def split: list.split_asm) }
  { case 2
    obtain b t where "cli_alloc s = (b, t)" by fastforce
    with Suc(2) [of t] show ?case by (cases b) (auto simp: cli_alloc_def split: list.split_asm) }
qed simp_all

lemma prepare_guards:
  assumes "loop_prepare s = (b, s1)"
  shows "cli_state s1 = STATE_LOGIN" "cli_auth_callback s1 = cli_auth_callback s" "origin s1 = origin s"
proof -
  define t where "t = cli_free_history ((cli_build_shortest s)\<lparr>cli_state := STATE_LOGIN\<rparr>)"
  have t: "cli_state t = STATE_LOGIN" "cli_auth_callback t = cli_auth_callback s" "origin t = origin s"
    by (simp_all add: t_def cli_free_history_def cli_build_shortest_def origin_def)
  define u where "u = (if cli_telnet t then sock_write negotiate t else t)"
  have u: "cli_state u = STATE_LOGIN" "cli_auth_callback u = cli_auth_callback s" "origin u = origin s"
    using t by (simp_all add: u_def sock_write_def origin_def)
  have "cli_allocs 2 u = (b, s1)"
    using assms unfolding loop_prepare_def Let_def t_def [symmetric] u_def [symmetric] .
  then have "s1 = snd (cli_allocs 2 u)" by simp
  then show "cli_state s1 = STATE_LOGIN" "cli_auth_callback s1 = cli_auth_callback s" "origin s1 = origin s"
    using u by (simp_all del: cli_allocs.simps)
qed

lemma set_privilege_door:
  "door (snd (cli_set_privilege p s)) = door (s\<lparr>cli_privilege := p\<rparr>)"
  by (auto simp: cli_set_privilege_def Let_def cli_set_promptchar_def cli_strdup_def cli_alloc_def door_def cli_build_shortest_def
      split: list.split)

lemma session_start_waiting:
  assumes "cli_state s = STATE_LOGIN" and "cli_auth_callback s = Some ''check_auth''" and "origin s = ([], None)"
  shows "waiting (session_start e s)"
proof -
  define s1 where "s1 = (case cli_banner s of None \<Rightarrow> s | Some b \<Rightarrow> cli_error e b s)"
  define s2 where "s2 = note_action e s1"
  define s3 where "s3 = (if cli_regular_callback s2 = None then s2
                else (case cli_time e s2 of (t, u) \<Rightarrow> u\<lparr>cli_last_regular := t\<rparr>))"
  define s4 where "s4 = snd (cli_set_configmode MODE_EXEC None (snd (cli_set_privilege PRIVILEGE_UNPRIVILEGED s3)))"
  have q: "quiet s" using assms(3) by (simp add: quiet_def origin_def)
  have 1: "door s1 = door s" by (simp add: s1_def error_door [OF q] split: option.split)
  obtain t u where t: "cli_time e s2 = (t, u)" by fastforce
  have "door s3 = door s" using door_time [OF t] 1 t by (simp add: s3_def s2_def)
  then have d: "door s4 = door (s\<lparr>cli_privilege := PRIVILEGE_UNPRIVILEGED\<rparr>)"
    by (simp add: s4_def set_privilege_door) (simp add: door_def)
  then have "cli_auth_callback s4 = Some ''check_auth''" using assms(2) by (simp add: door_def)
  moreover define ed where "ed = \<lparr>ed_cmd = [], ed_l = 0, ed_cursor = 0, ed_lastchar = CHR 0x00, ed_in_history = 0, ed_telnet = 0,
           ed_esc = 0, ed_old = None, ed_username = None, ed_password = None, ed_tm = (0, 0), ed_cli = s4\<rparr>"
  ultimately have "session_start e s = next_line ed"
    unfolding session_start_def Let_def s1_def [symmetric] s2_def [symmetric] s3_def [symmetric] s4_def [symmetric] ed_def
    by simp
  moreover have "entry (next_line ed) = entry ed" by (rule next_line_entry)
  ultimately have "door (ed_cli (session_start e s)) = door s4" by (simp add: entry_def ed_def)
  with d assms show ?thesis by (simp add: door_def waiting_def outside_def quiet_def origin_def)
qed

lemma session_open_waiting:
  assumes "session_open os e mem fd u = Some (Inr ed)"
  shows "waiting ed"
proof -
  let ?e = "server_env os e"
  from assms obtain s0 where i: "cli_init ?e mem u = Some (Some s0)"
    by (auto simp: session_open_def Option.bind_eq_Some_conv)
  obtain ok s1 where l: "loop_prepare (child_login (child_commands (child_settings ?e s0))) = (ok, s1)" by fastforce
  note g = prepare_guards [OF l]
  have "ed = session_start ?e (s1\<lparr>cli_client := True\<rparr>)"
    using assms i l by (cases ok) (auto simp: session_open_def Let_def split: if_split_asm)
  moreover have "waiting (session_start ?e (s1\<lparr>cli_client := True\<rparr>))"
    using g origin_init [OF i] by (intro session_start_waiting) (simp_all add: login_callbacks)
  ultimately show ?thesis by simp
qed

text \<open>Every session of a reachable state is such a run from where it was opened.\<close>

lemma system_sessions:
  assumes "system_reach os hs S0 S" and "\<forall>(fd, ed) \<in> set (sys_sessions S0). waiting ed"
    and "(fd, ed) \<in> set (sys_sessions S)"
  shows "\<exists>ed0. waiting ed0 \<and> shared_run (server_env os (server_base (hs fd))) ed0 ed"
  using assms(1,3)
proof (induction arbitrary: fd ed rule: system_reach.induct)
  case sys_start
  then show ?case using assms(2) shared_start by fast
next
  case (sys_bridge S S')
  then show ?case by (auto elim!: bridge_turn.cases simp: set_main_def)
next
  case (sys_session S S')
  show ?case using sys_session.hyps(2)
  proof cases
    case (turn_refused fd' mem u)
    with sys_session.prems sys_session.IH [of fd ed] show ?thesis by simp
  next
    case (turn_join fd' mem ed')
    show ?thesis
    proof (cases "(fd, ed) = (fd', ed')")
      case True
      with session_open_waiting [OF turn_join(2)] shared_start show ?thesis by blast
    next
      case False
      have "(fd, ed) \<in> set (sys_sessions S @ [(fd', ed')])" using sys_session.prems unfolding turn_join(1) by simp
      with False have "(fd, ed) \<in> set (sys_sessions S)" by auto
      then show ?thesis by (rule sys_session.IH)
    qed
  next
    case (turn_round xs fd' ed' ys ed1)
    show ?thesis
    proof (cases "(fd, ed) = (fd', ed1)")
      case True
      have "(fd', ed') \<in> set (sys_sessions S)" unfolding turn_round(2) by simp
      then obtain ed0 where w: "waiting ed0" and r: "shared_run (server_env os (server_base (hs fd'))) ed0 ed'"
        using sys_session.IH by blast
      from w shared_round [OF r turn_round(3)] True show ?thesis by auto
    next
      case False
      have "(fd, ed) \<in> set (xs @ (fd', ed1) # ys)" using sys_session.prems unfolding turn_round(1) by simp
      with False have "(fd, ed) \<in> set (sys_sessions S)" unfolding turn_round(2) by auto
      then show ?thesis by (rule sys_session.IH)
    qed
  next
    case (turn_leave xs fd' ed' ys x ed1)
    have "(fd, ed) \<in> set (xs @ ys)" using sys_session.prems unfolding turn_leave(1) by simp
    then have "(fd, ed) \<in> set (sys_sessions S)" unfolding turn_leave(2) by auto
    then show ?thesis by (rule sys_session.IH)
  qed
qed

end
