(* ===== verification/Interleavings.thy ===== *)
theory Interleavings
  imports System
begin

text \<open>
  The properties of the server as a whole, in every interleaving of its threads.
\<close>

section \<open>The thread of a client\<close>

text \<open>The rounds of a session, taken one after the other by the system.\<close>

lemma reach_more: "system_reach os hs S1 S2 \<Longrightarrow> system_reach os hs S0 S1 \<Longrightarrow> system_reach os hs S0 S2"
  by (induction rule: system_reach.induct) (auto intro: system_reach.intros)

lemma loop_is_run:
  assumes "session_loop (server_env os (server_base (hs fd))) ed = Some (x, ed1)"
    and "sys_sessions S = xs @ (fd, ed) # ys" and "cli_app (ed_cli ed) = sys_app S"
  shows "system_reach os hs S (S\<lparr>sys_app := close_client os fd (cli_app (ed_cli ed1)), sys_sessions := xs @ ys\<rparr>)"
proof -
  define P where "P = (\<lambda>e ed (r :: line_end \<times> 'a server cli_app edit). e = server_env os (server_base (hs fd)) \<longrightarrow>
      (\<forall>S :: 'a system. sys_sessions S = xs @ (fd, ed) # ys \<longrightarrow> cli_app (ed_cli ed) = sys_app S
      \<longrightarrow> system_reach os hs S (S\<lparr>sys_app := close_client os fd (cli_app (ed_cli (snd r))), sys_sessions := xs @ ys\<rparr>)))"
  have "P (server_env os (server_base (hs fd))) ed (x, ed1)"
  proof (rule session_loop.raw_induct [OF _ assms(1)])
    fix loop :: "'a server cli_app cli_env \<Rightarrow> 'a server cli_app edit \<Rightarrow> (line_end \<times> 'a server cli_app edit) option" and e ed r
    assume IH: "\<And>e ed r. loop e ed = Some r \<Longrightarrow> P e ed r"
      and "session_step e ed \<bind> (\<lambda>(x, ed1). if x = More then loop e ed1 else Some (x, ed1)) = Some r"
    then obtain y ed2 where st: "session_step e ed = Some (y, ed2)"
      and rest: "(if y = More then loop e ed2 else Some (y, ed2)) = Some r"
      by (auto simp: Option.bind_eq_Some_conv)
    show "P e ed r"
      unfolding P_def
    proof (intro impI allI)
      fix S :: "'a system"
      assume e: "e = server_env os (server_base (hs fd))" and S: "sys_sessions S = xs @ (fd, ed) # ys"
        and u: "cli_app (ed_cli ed) = sys_app S"
      have turn: "session_step (server_env os (server_base (hs fd))) (with_app (sys_app S) ed) = Some (y, ed2)"
        using st e unfolding u [symmetric] with_app_same by simp
      show "system_reach os hs S (S\<lparr>sys_app := close_client os fd (cli_app (ed_cli (snd r))), sys_sessions := xs @ ys\<rparr>)"
      proof (cases "y = More")
        case True
        let ?S = "S\<lparr>sys_app := cli_app (ed_cli ed2), sys_sessions := xs @ (fd, ed2) # ys\<rparr>"
        have one: "system_reach os hs S ?S"
          using sys_session [OF sys_start turn_round [where hs = hs and fd = fd, OF S turn [unfolded True]]] .
        have "P e ed2 r" using rest True by (intro IH) simp
        then have p: "sys_sessions T = xs @ (fd, ed2) # ys \<Longrightarrow> cli_app (ed_cli ed2) = sys_app T \<Longrightarrow>
            system_reach os hs T (T\<lparr>sys_app := close_client os fd (cli_app (ed_cli (snd r))), sys_sessions := xs @ ys\<rparr>)" for T
          unfolding P_def e by blast
        have "system_reach os hs ?S (?S\<lparr>sys_app := close_client os fd (cli_app (ed_cli (snd r))), sys_sessions := xs @ ys\<rparr>)"
          by (rule p) simp_all
        from reach_more [OF this one] show ?thesis by simp
      next
        case False
        then have "snd r = ed2" using rest by auto
        then show ?thesis using sys_session [OF sys_start turn_leave [where hs = hs and fd = fd, OF S turn False]] by simp
      qed
    qed
  qed
  with assms(2,3) show ?thesis unfolding P_def by simp
qed

lemma client_thread_steps:
  "cli_client_thread os e mem fd u = do {
     r \<leftarrow> session_open os e mem fd u;
     u1 \<leftarrow> (case r of Inl u1 \<Rightarrow> Some u1
           | Inr ed \<Rightarrow> map_option (\<lambda>(x, ed1). cli_app (ed_cli ed1)) (session_loop (server_env os e) ed));
     Some (close_client os fd u1)
   }"
proof -
  let ?e = "server_env os e"
  have fin: "snd (cli_done (Some s)) = Some (cli_app s)" for s :: "'a server app_cli"
    by (simp add: cli_done_def)
  show ?thesis
  proof (cases "cli_init ?e mem u")
    case (Some c)
    show ?thesis
    proof (cases c)
      case [simp]: (Some s0)
      obtain ok s1 where l: "loop_prepare (child_login (child_commands (child_settings ?e s0))) = (ok, s1)" by fastforce
      define start where "start = session_start ?e (s1\<lparr>cli_client := True\<rparr>)"
      have i: "cli_init ?e mem u = Some (Some s0)" using \<open>cli_init ?e mem u = Some c\<close> by simp
      show ?thesis
      proof (cases "ok \<and> fd < FD_SETSIZE")
        case True
        then have "session_open os e mem fd u = Some (Inr start)"
          by (simp add: session_open_def i l start_def Let_def)
        moreover have "cli_client_thread os e mem fd u = map_option (\<lambda>(x, ed). close_client os fd (cli_app (ed_cli ed))) (session_loop ?e start)"
          using True
          by (cases "session_loop ?e start") (auto simp: cli_client_thread_def run_child_def child_session_def i l cli_loop_def
              start_def [symmetric] Let_def fin close_client_def)
        ultimately show ?thesis by (cases "session_loop ?e start") auto
      next
        case False
        then show ?thesis
          by (cases ok) (auto simp: cli_client_thread_def run_child_def child_session_def session_open_def i l cli_loop_def
              Let_def fin close_client_def)
      qed
    next
      case None
      with Some show ?thesis by (simp add: cli_client_thread_def run_child_def child_session_def session_open_def)
    qed
  next
    case None
    then show ?thesis by (simp add: cli_client_thread_def run_child_def child_session_def session_open_def)
  qed
qed

lemma thread_run:
  assumes "cli_client_thread os (server_base (hs fd)) mem fd (sys_app S) = Some u"
  shows "system_reach os hs S (S\<lparr>sys_app := u\<rparr>)"
proof -
  from assms obtain r where o: "session_open os (server_base (hs fd)) mem fd (sys_app S) = Some r"
    by (auto simp: client_thread_steps Option.bind_eq_Some_conv)
  show ?thesis
  proof (cases r)
    case (Inl u1)
    with assms o have "u = close_client os fd u1" by (simp add: client_thread_steps)
    then show ?thesis using sys_session [OF sys_start turn_refused [where hs = hs and fd = fd, OF o [unfolded Inl]]] by simp
  next
    case (Inr ed)
    with assms o obtain x ed1 where l: "session_loop (server_env os (server_base (hs fd))) ed = Some (x, ed1)"
      and u: "u = close_client os fd (cli_app (ed_cli ed1))" by (auto simp: client_thread_steps Option.bind_eq_Some_conv)
    let ?S = "S\<lparr>sys_app := cli_app (ed_cli ed), sys_sessions := sys_sessions S @ [(fd, ed)]\<rparr>"
    have 1: "system_reach os hs S ?S" using sys_session [OF sys_start turn_join [where hs = hs and fd = fd, OF o [unfolded Inr]]] .
    have "system_reach os hs ?S (?S\<lparr>sys_app := close_client os fd (cli_app (ed_cli ed1)), sys_sessions := sys_sessions S @ []\<rparr>)"
      by (rule loop_is_run [where hs = hs and fd = fd, OF l]) simp_all
    from reach_more [OF this 1] show ?thesis by (simp add: u)
  qed
qed

section \<open>Sessions for the witnesses\<close>

text \<open>With memory \<open>cli_init\<close> sets up its fifteen commands.\<close>

lemma init_evaluates:
  "case init_commands (cli_zero [] u\<lparr>cli_buf_size := 1024, cli_telnet := True\<rparr>) of
     (None, s) \<Rightarrow> False
   | (Some c, s) \<Rightarrow>
      (case init_filter_commands builtin_filters (snd (cli_register_command (Some c) ''terminal'' (Some Cli_configure_terminal)
                      PRIVILEGE_PRIVILEGED MODE_EXEC (Some ''Conlfigure from the terminal'') s)) of
         None \<Rightarrow> False
       | Some (b, s) \<Rightarrow> b \<and> length (cli_commands s) = 15)"
  by code_simp

lemma init_returns: "\<exists>s. cli_init e [] u = Some (Some s)"
proof -
  obtain c s1 where i: "init_commands (cli_zero [] u\<lparr>cli_buf_size := 1024, cli_telnet := True\<rparr>) = (c, s1)" by fastforce
  obtain x s2 where t: "cli_register_command c ''terminal'' (Some Cli_configure_terminal) PRIVILEGE_PRIVILEGED
                      MODE_EXEC (Some ''Conlfigure from the terminal'') s1 = (x, s2)" by fastforce
  from init_evaluates [of u] i t obtain c' s3 where "c = Some c'" "init_filter_commands builtin_filters s2 = Some (True, s3)"
    by (auto split: option.split_asm)
  moreover have "cli_allocs 2 (cli_zero [] u) = (True, cli_zero [] u)" by (rule cli_allocs_ample) (simp add: cli_zero_def)
  ultimately show ?thesis using i t
    by (simp add: cli_init_def Let_def del: cli_allocs.simps)
qed

text \<open>A client that hangs up.\<close>

definition eof_host :: "'w host" where
  "eof_host = \<lparr>host_time = (\<lambda>w. (0, w)), host_select = (\<lambda>a b w. ((1, a, b), w)), host_read = (\<lambda>w. ((0, CHR 0x00), w)),
     host_eintr = (\<lambda>w. False), host_regcomp = (\<lambda>x i p. True), host_regexec = (\<lambda>x i p t. strstr t p),
     host_regex_bytes = (\<lambda>x i p. []), host_crypt = (\<lambda>a p. None)\<rparr>"

lemma eof_session:
  assumes "waiting ed"
  shows "\<exists>ed1. session_loop (server_env os (server_base eof_host)) ed = Some (Finished, ed1)"
proof -
  let ?e = "server_env os (server_base eof_host)"
  have st: "cli_state (ed_cli ed) \<in> {STATE_LOGIN, STATE_PASSWORD}" using assms by (auto simp: waiting_def outside_def)
  then have "loop_head ed \<noteq> None"
    by (auto simp: loop_head_def state_prompt_def Let_def ed_echo_def ed_write_def sock_write_def)
  then obtain ed0 where h: "loop_head ed = Some ed0" by blast
  have sel: "env_select ?e = (\<lambda>a b u. ((1, a, b), u))" "env_read ?e = (\<lambda>u. ((0, CHR 0x00), u))"
    by (simp_all add: server_env_fields server_base_fields eof_host_def on_world_def sv_set_world_def fun_eq_iff)
  obtain ok s1 where r: "regular_step ?e (ed_cli ed0) = (ok, s1)" by fastforce
  have w: "fst (wait_char ?e (with_cli ed0 s1)) = Lost"
    by (simp add: wait_char_def cli_socket_wait_def sel Let_def)
  have "\<exists>ed1. inner_round ?e ed = Some (Closed, ed1)"
    using h r w by (cases "wait_char ?e (with_cli ed0 s1)"; cases ok) (simp_all add: inner_round_def)
  then obtain ed1 where "session_step ?e ed = Some (Finished, ed1)" by (auto simp: session_step_def)
  then have "session_loop ?e ed = Some (Finished, ed1)" by (subst session_loop.simps) simp
  then show ?thesis by blast
qed

lemma eof_thread: "\<exists>u1. cli_client_thread os (server_base eof_host) [] fd u = Some u1"
proof -
  obtain s0 where i: "cli_init (server_env os (server_base eof_host)) [] u = Some (Some s0)"
    using init_returns [of "server_env os (server_base eof_host)" u] by blast
  obtain ok s1 where l: "loop_prepare (child_login (child_commands (child_settings (server_env os (server_base eof_host)) s0))) = (ok, s1)"
    by fastforce
  have "session_open os (server_base eof_host) [] fd u \<noteq> None"
    using i l by (cases ok) (simp_all add: session_open_def Let_def)
  then obtain r where r: "session_open os (server_base eof_host) [] fd u = Some r" by blast
  show ?thesis
  proof (cases r)
    case (Inr ed)
    then obtain ed1 where "session_loop (server_env os (server_base eof_host)) ed = Some (Finished, ed1)"
      using r eof_session [OF session_open_waiting] by blast
    with Inr show ?thesis by (simp add: client_thread_steps r)
  qed (simp add: client_thread_steps r)
qed

text \<open>The client of \<open>admin_line\<close>: its host is the one of \<open>server_typing\<close>.\<close>

definition typing_host :: "'w host" where
  "typing_host = \<lparr>host_time = (\<lambda>w. (0, w)), host_select = (\<lambda>a b w. ((1, a, b), w)), host_read = (\<lambda>w. ((1, CHR 0x0D), w)),
     host_eintr = (\<lambda>w. False), host_regcomp = (\<lambda>x i p. True), host_regexec = (\<lambda>x i p t. strstr t p),
     host_regex_bytes = (\<lambda>x i p. []), host_crypt = (\<lambda>a p. None)\<rparr>"

lemma on_world_pure: "on_world (Pair r) = Pair r"
  by (simp add: on_world_def sv_set_world_def fun_eq_iff)

lemma typing_env: "server_env os (server_base typing_host) = server_typing os"
  unfolding server_typing_def
  by (intro arg_cong [of _ _ "server_env os"]) (simp add: server_base_def typing_host_def cli_codes on_world_pure)

definition demo_app :: "'w \<Rightarrow> 'w server cli_app" where
  "demo_app w = \<lparr>app_main = server_start w, app_regular_count = 0, app_debug_regular = 0, app_log_level = 0\<rparr>"

definition admin_system :: "demo_world \<Rightarrow> demo_world system" where
  "admin_system w =
     \<lparr>sys_app = demo_app w, sys_bufs = empty_bufs, sys_sessions = [(5, admin_line (demo_app w))]\<rparr>"

lemma admin_waiting: "waiting (admin_line u)"
  using admin_line_door [of u]
  by (simp add: waiting_def outside_def) (simp add: admin_line_def cli_zero_def PRIVILEGE_UNPRIVILEGED_def)

lemma admin_turn:
  "\<exists>ed. session_turn demo_os (\<lambda>fd. typing_host) (admin_system w)
       ((admin_system w)\<lparr>sys_app := cli_app (ed_cli ed), sys_sessions := [(5, ed)]\<rparr>) \<and> cli_state (ed_cli ed) = STATE_NORMAL"
proof -
  obtain ed where s: "session_step (server_typing demo_os) (admin_line (demo_app w)) = Some (More, ed)"
    "cli_state (ed_cli ed) = STATE_NORMAL" using admin_step by blast
  have "with_app (demo_app w) (admin_line (demo_app w)) = admin_line (demo_app w)"
    by (simp add: with_app_def with_cli_def admin_line_def cli_zero_def)
  with s turn_round [of "admin_system w" "[]" 5 "admin_line (demo_app w)" "[]" demo_os "\<lambda>fd. typing_host" ed]
  show ?thesis by (auto simp: admin_system_def typing_env)
qed

section \<open>Properties\<close>



text \<open>C4: In every interleaving of the bridge with any number of command line sessions, whatever arrives at any of the
sockets, the invariant of the forwarding plane holds and the receive buffers keep their size.\<close>

theorem system_always_consistent:
  assumes "system_reach os hs S0 S" and "mem_bounded (os_malloc os)" and "recv_fits os"
    and "bufs_ok (sys_bufs S0)" and "bridge_inv (sv_bridge (app_main (sys_app S0)))"
  shows "bufs_ok (sys_bufs S) \<and> bridge_inv (sv_bridge (app_main (sys_app S)))"
  using system_consistent [OF assms(1-3)] assms(4,5) by (simp add: sv_inv_def)

definition quiet_system :: "net_world system" where
  "quiet_system = \<lparr>sys_app = demo_app (net_queue, []), sys_bufs = empty_bufs, sys_sessions = []\<rparr>"

lemma quiet_bridge_turn:
  "\<exists>S. bridge_turn net_os quiet_system S \<and> epoll_timeout (sv_stat (app_main (sys_app S))) = 1"
proof -
  have "\<exists>m. burst_round net_os (empty_bufs, app_main (demo_app (net_queue, []))) = Some (empty_bufs, m)
      \<and> epoll_timeout (sv_stat m) = 1"
    by (simp add: burst_round_def net_os_def count_wait_def sv_set_world_def demo_app_def server_start_def
        epoll_stat_zero_def Let_def)
  moreover have "sv_running (app_main (sys_app quiet_system))" by (simp add: quiet_system_def demo_app_def server_start_def)
  ultimately show ?thesis using turn_bridge [of quiet_system net_os empty_bufs] by (fastforce simp: quiet_system_def set_main_def)
qed

theorem system_always_consistent_witness:
  "\<exists>S u. bridge_turn net_os quiet_system S \<and> epoll_timeout (sv_stat (app_main (sys_app S))) = 1
     \<and> cli_client_thread net_os (server_base eof_host) [] 5 (sys_app S) = Some u
     \<and> system_reach net_os (\<lambda>fd. eof_host) quiet_system (S\<lparr>sys_app := u\<rparr>) \<and> bridge_inv (sv_bridge (app_main u))"
proof -
  obtain S where S: "bridge_turn net_os quiet_system S" "epoll_timeout (sv_stat (app_main (sys_app S))) = 1"
    using quiet_bridge_turn by blast
  obtain u where u: "cli_client_thread net_os (server_base eof_host) [] 5 (sys_app S) = Some u" using eof_thread by blast
  have r: "system_reach net_os (\<lambda>fd. eof_host) quiet_system (S\<lparr>sys_app := u\<rparr>)"
    using reach_more [OF thread_run [of net_os "\<lambda>fd. eof_host" 5 "[]" S, OF u] sys_bridge [OF sys_start S(1)]] .
  have "bufs_ok (sys_bufs quiet_system)" "bridge_inv (sv_bridge (app_main (sys_app quiet_system)))"
    by (simp_all add: quiet_system_def empty_bufs_ok demo_app_def server_start_def bridge_inv_start)
  from system_always_consistent [OF r mem_ok_bounded [OF net_env(1)] net_recv_fits this] S u r show ?thesis by auto
qed

text \<open>C6: The command line leaves the forwarding to the bridge. However many turns the sessions take, with any commands,
the address table, the peers, their counters as the switch counts them, the socket and the flag of the
event loop stay what they are, and so does the state of the abstract switch.\<close>

theorem sessions_leave_forwarding:
  assumes "(session_turn os hs)\<^sup>*\<^sup>* S S'" and "bridge_inv (sv_bridge (app_main (sys_app S)))"
  shows "plane (app_main (sys_app S')) = plane (app_main (sys_app S))
    \<and> switch_of (sv_bridge (app_main (sys_app S'))) = switch_of (sv_bridge (app_main (sys_app S)))
    \<and> bridge_inv (sv_bridge (app_main (sys_app S'))) \<and> sys_bufs S' = sys_bufs S"
  using assms(1)
proof (induction rule: rtranclp_induct)
  case (step S1 S2)
  then show ?case using turn_forwarding [OF step(2)] by simp
qed (use assms(2) in simp)

theorem sessions_leave_forwarding_witness:
  "\<forall>w. \<exists>ed. cli_state (ed_cli ed) = STATE_NORMAL \<and> session_turn demo_os (\<lambda>fd. typing_host) (admin_system w)
       ((admin_system w)\<lparr>sys_app := cli_app (ed_cli ed), sys_sessions := [(5, ed)]\<rparr>)
     \<and> plane (app_main (cli_app (ed_cli ed))) = plane (server_start w)"
proof
  fix w
  obtain ed where ed: "session_turn demo_os (\<lambda>fd. typing_host) (admin_system w)
       ((admin_system w)\<lparr>sys_app := cli_app (ed_cli ed), sys_sessions := [(5, ed)]\<rparr>)" "cli_state (ed_cli ed) = STATE_NORMAL"
    using admin_turn by blast
  have "bridge_inv (sv_bridge (app_main (sys_app (admin_system w))))"
    by (simp add: admin_system_def demo_app_def server_start_def bridge_inv_start)
  from sessions_leave_forwarding [OF r_into_rtranclp [of "session_turn demo_os (\<lambda>fd. typing_host)", OF ed(1)] this] ed
  show "\<exists>ed. cli_state (ed_cli ed) = STATE_NORMAL \<and> session_turn demo_os (\<lambda>fd. typing_host) (admin_system w)
       ((admin_system w)\<lparr>sys_app := cli_app (ed_cli ed), sys_sessions := [(5, ed)]\<rparr>)
     \<and> plane (app_main (cli_app (ed_cli ed))) = plane (server_start w)" by (auto simp: admin_system_def demo_app_def)
qed

text \<open>C5: Nobody works on the server's command line who is not admin, in any interleaving: a session is still
asking for the user or the password, without privilege, or has come, from where it was opened and through
its own rounds, past a password prompt at which both the name given and the line typed were \<open>admin\<close> up to case.\<close>

theorem every_session_admin:
  assumes "system_reach os hs S0 S" and "\<forall>(fd, ed) \<in> set (sys_sessions S0). waiting ed"
    and "(fd, ed) \<in> set (sys_sessions S)"
  shows "cli_state (ed_cli ed) \<in> {STATE_LOGIN, STATE_PASSWORD} \<and> cli_privilege (ed_cli ed) = PRIVILEGE_UNPRIVILEGED
    \<or> (\<exists>ed0 ed1 v ed2 u. waiting ed0 \<and> shared_run (server_env os (server_base (hs fd))) ed0 ed1
        \<and> session_step (server_env os (server_base (hs fd))) (with_app v ed1) = Some (More, ed2)
        \<and> shared_run (server_env os (server_base (hs fd))) ed2 ed
        \<and> cli_state (ed_cli ed1) = STATE_PASSWORD \<and> ed_username ed1 = Some u
        \<and> strcaseeq u ''admin'' \<and> strcaseeq (cstr (ed_cmd ed1)) ''admin'')"
proof -
  let ?e = "server_env os (server_base (hs fd))"
  obtain ed0 where w: "waiting ed0" and r: "shared_run ?e ed0 ed" using system_sessions [OF assms] by blast
  from w have o: "quiet (ed_cli ed0)" "outside ed0" and us: "cli_users (ed_cli ed0) = []"
    and au: "cli_auth_callback (ed_cli ed0) = Some ''check_auth''" and p: "cli_privilege (ed_cli ed0) = PRIVILEGE_UNPRIVILEGED"
    by (simp_all add: waiting_def)
  have adm: "strcaseeq u ''admin'' \<and> strcaseeq t ''admin''" if "accepts ?e [] (Some ''check_auth'') u t" for u t
    using that by (auto simp: accepts_def server_env_fields check_auth_def cli_codes split: if_splits)
  from shared_outside [OF r server_fair o] show ?thesis
    unfolding us au p using w adm by (fastforce simp: outside_def)
qed

theorem every_session_admin_witness:
  "\<forall>w. \<exists>S ed. system_reach demo_os (\<lambda>fd. typing_host) (admin_system w) S \<and> (5, ed) \<in> set (sys_sessions S)
     \<and> cli_state (ed_cli ed) = STATE_NORMAL \<and> (\<exists>ed1 v ed2 u. session_step (server_env demo_os (server_base typing_host)) (with_app v ed1) = Some (More, ed2)
       \<and> ed_username ed1 = Some u \<and> strcaseeq u ''admin'' \<and> strcaseeq (cstr (ed_cmd ed1)) ''admin'')"
proof
  fix w
  obtain ed where ed: "session_turn demo_os (\<lambda>fd. typing_host) (admin_system w)
       ((admin_system w)\<lparr>sys_app := cli_app (ed_cli ed), sys_sessions := [(5, ed)]\<rparr>)" "cli_state (ed_cli ed) = STATE_NORMAL"
    using admin_turn by blast
  have r: "system_reach demo_os (\<lambda>fd. typing_host) (admin_system w)
       ((admin_system w)\<lparr>sys_app := cli_app (ed_cli ed), sys_sessions := [(5, ed)]\<rparr>)"
    using sys_session [OF sys_start ed(1)] .
  have w: "\<forall>(fd, ed) \<in> set (sys_sessions (admin_system w)). waiting ed"
    by (simp add: admin_system_def admin_waiting)
  have i: "(5, ed) \<in> set (sys_sessions ((admin_system w)\<lparr>sys_app := cli_app (ed_cli ed), sys_sessions := [(5, ed)]\<rparr>))" by simp
  from every_session_admin [OF r w i] ed(2) have "\<exists>ed1 v ed2 u. session_step (server_env demo_os (server_base typing_host)) (with_app v ed1) = Some (More, ed2)
       \<and> ed_username ed1 = Some u \<and> strcaseeq u ''admin'' \<and> strcaseeq (cstr (ed_cmd ed1)) ''admin''" by auto
  with r i ed(2) show "\<exists>S ed. system_reach demo_os (\<lambda>fd. typing_host) (admin_system w) S \<and> (5, ed) \<in> set (sys_sessions S)
     \<and> cli_state (ed_cli ed) = STATE_NORMAL \<and> (\<exists>ed1 v ed2 u. session_step (server_env demo_os (server_base typing_host)) (with_app v ed1) = Some (More, ed2)
       \<and> ed_username ed1 = Some u \<and> strcaseeq u ''admin'' \<and> strcaseeq (cstr (ed_cmd ed1)) ''admin'')"
    by blast
qed

end
