(* ===== verification/Tuntap.thy ===== *)
theory Tuntap
  imports Bridge_Prelude Os_Interface Text Ether
begin

text \<open>
  The TAP device of the client, \<open>wlan_br_client/tuntap.c\<close>: creating and configuring it, reading and
  writing frames. The static variables are the record \<open>tuntap\<close>.
\<close>

section \<open>Creating the device\<close>

definition IFNAMSIZ :: nat where
  "IFNAMSIZ = 16"

definition IFF_TAP :: u16 where
  "IFF_TAP = 0x0002"

definition IFF_NO_PI :: u16 where
  "IFF_NO_PI = 0x1000"

definition IFF_UP :: u16 where
  "IFF_UP = 0x0001"

text \<open>An \<open>ifreq\<close> after \<open>memset\<close>, with the name copied in and its last byte cleared.\<close>

definition ifreq_for :: "string \<Rightarrow> ifreq" where
  "ifreq_for name = \<lparr>ifr_name = take (IFNAMSIZ - 1) name, ifr_flags = 0, ifr_hwaddr = replicate 6 0, ifr_mtu = 0\<rparr>"

text \<open>
  \<open>tap_alloc\<close> returns the descriptor and the device name, which the kernel may have chosen. The
  results of the last two requests are ignored.
\<close>

definition tap_alloc :: "'w os \<Rightarrow> string \<Rightarrow> u16 \<Rightarrow> 'w \<Rightarrow> int \<times> string \<times> 'w" where
  "tap_alloc os dev flags w =
     (let (fd, w1) = os_open os ''/dev/net/tun'' w
      in if fd < 0 then (fd, dev, w1)
         else
           (let ifr = \<lparr>ifr_name = (if dev \<noteq> [] then take IFNAMSIZ dev else []), ifr_flags = flags,
                       ifr_hwaddr = replicate 6 0, ifr_mtu = 0\<rparr>;
                ((err, ifr'), w2) = os_ioctl os fd TUNSETIFF ifr w1
            in if err < 0 then (-1, dev, os_close os fd w2)
               else
                 (let (_, w3) = os_ioctl os fd TUNSETNOCSUM ifr' w2;
                      (_, w4) = os_ioctl os fd TUNSETDEBUG ifr' w3
                  in (fd, ifr_name ifr', w4))))"

fun rand_bytes :: "'w os \<Rightarrow> nat \<Rightarrow> 'w \<Rightarrow> bytes \<times> 'w" where
  "rand_bytes os 0 w = ([], w)"
| "rand_bytes os (Suc n) w =
     (let (r, w1) = os_rand os w; (bs, w2) = rand_bytes os n w1 in (word_of_nat (r mod 256) # bs, w2))"

definition generate_random_mac :: "'w os \<Rightarrow> 'w \<Rightarrow> bytes \<times> 'w" where
  "generate_random_mac os w =
     (let (mac, w1) = rand_bytes os 6 w in (mac[0 := (mac ! 0 AND 0xFE) OR 0x02], w1))"

text \<open>
  The steps of \<open>setup_tuntap_device\<close> on the socket \<open>gen_fd\<close>: MTU, flags, index. The first failure
  ends them; the result tells whether all succeeded.
\<close>

definition configure_interface :: "'w os \<Rightarrow> int \<Rightarrow> string \<Rightarrow> 'w \<Rightarrow> bool \<times> 'w" where
  "configure_interface os gen_fd name w =
     (let ((r1, _), w1) = os_ioctl os gen_fd SIOCSIFMTU ((ifreq_for name)\<lparr>ifr_mtu := 1500\<rparr>) w
      in if r1 < 0 then (False, w1)
         else
           (let ((r2, ifr), w2) = os_ioctl os gen_fd SIOCGIFFLAGS (ifreq_for name) w1
            in if r2 < 0 then (False, w2)
               else
                 (let (ok, w3) =
                    (if ifr_flags ifr AND IFF_UP = 0
                     then (let ((r3, _), w3) = os_ioctl os gen_fd SIOCSIFFLAGS
                                                 (ifr\<lparr>ifr_flags := ifr_flags ifr OR IFF_UP\<rparr>) w2
                           in (0 \<le> r3, w3))
                     else (True, w2))
                  in if \<not> ok then (False, w3)
                     else (let ((r4, _), w4) = os_ioctl os gen_fd SIOCGIFINDEX (ifreq_for name) w3
                           in (0 \<le> r4, w4)))))"

definition setup_tuntap_device :: "'w os \<Rightarrow> string \<Rightarrow> int \<Rightarrow> 'w \<Rightarrow> int \<times> 'w" where
  "setup_tuntap_device os nic_name port w =
     (let (fd, name, w1) = tap_alloc os (snprintf_fit IFNAMSIZ (nic_name @ dec_int port)) (IFF_TAP OR IFF_NO_PI) w
      in if fd < 0 then (-1, w1)
         else
           (let (mac, w2) = generate_random_mac os w1;
                ((r, _), w3) = os_ioctl os fd SIOCSIFHWADDR ((ifreq_for name)\<lparr>ifr_hwaddr := mac\<rparr>) w2
            in if r < 0 then (-1, os_close os fd w3)
               else
                 (let (_, w4) = os_ioctl os fd TUNSETPERSIST (ifreq_for name) w3;
                      (gen_fd, w5) = os_socket os SOCK_DGRAM w4;
                      (ok, w6) = configure_interface os gen_fd name w5
                  in if ok then (fd, os_close os gen_fd w6)
                     else (-1, os_close os fd (os_close os gen_fd w6)))))"

section \<open>The module\<close>

record tuntap =
  tun_fd :: int
  tt_running :: bool

definition create_tuntap :: "'w os \<Rightarrow> string \<Rightarrow> tuntap \<Rightarrow> 'w \<Rightarrow> int \<times> tuntap \<times> 'w" where
  "create_tuntap os nic_name t w =
     (let (fd, w1) = setup_tuntap_device os nic_name 0 w; t1 = t\<lparr>tun_fd := fd\<rparr>
      in if fd \<le> 0 then (-1, t1, w1) else (fd, t1, w1))"

definition destroy_tuntap :: "'w os \<Rightarrow> tuntap \<Rightarrow> 'w \<Rightarrow> tuntap \<times> 'w" where
  "destroy_tuntap os t w =
     (let t1 = t\<lparr>tt_running := False\<rparr>
      in if tun_fd t1 \<noteq> -1 then (t1, os_close os (tun_fd t1) w) else (t1, w))"

definition send_data_use_tuntap :: "'w os \<Rightarrow> int \<Rightarrow> int \<Rightarrow> bytes \<Rightarrow> 'w \<Rightarrow> int \<times> 'w" where
  "send_data_use_tuntap os fd len buf w =
     (let (n, w1) = os_write os fd (take (nat len) buf) w in if n \<noteq> len then (-1, w1) else (n, w1))"

definition read_data_from_tuntap :: "'w os \<Rightarrow> int \<Rightarrow> nat \<Rightarrow> bytes \<Rightarrow> 'w \<Rightarrow> int \<times> bytes \<times> 'w" where
  "read_data_from_tuntap os fd max_len buf w =
     (let ((len, data), w1) = os_read os fd max_len w
      in if len \<le> 0 then (-1, buf, w1) else (len, buf_store data buf, w1))"

text \<open>
  The burst variants. \<open>writev\<close> returns a number of bytes, which is compared with a number of
  messages, and the number of bytes \<open>readv\<close> returns is used to count messages: \<open>None\<close> is the
  access beyond the arrays.
\<close>

definition send_data_use_tuntap_burst ::
  "'w os \<Rightarrow> int \<Rightarrow> nat list \<Rightarrow> bytes list \<Rightarrow> nat \<Rightarrow> 'w \<Rightarrow> int \<times> 'w" where
  "send_data_use_tuntap_burst os fd data_len buf msg_mun w =
     (let (n, w1) = os_writev os fd (map (\<lambda>i. take (data_len ! i) (buf ! i)) [0..<msg_mun]) w
      in if n \<noteq> int msg_mun then (-1, w1) else (n, w1))"

definition read_data_from_tuntap_burst ::
  "'w os \<Rightarrow> int \<Rightarrow> nat \<Rightarrow> nat list \<Rightarrow> bytes list \<Rightarrow> nat \<Rightarrow> 'w \<Rightarrow> (int \<times> nat list \<times> bytes list \<times> 'w) option" where
  "read_data_from_tuntap_burst os fd max_len data_len buf max_msg_mun w =
     (let ((len, data), w1) = os_readv os fd max_msg_mun max_len w
      in if len \<le> 0 then Some (-1, data_len, buf, w1)
         else if nat len > max_msg_mun then None
         else Some (len, map (\<lambda>i. if i < nat len then max_len else data_len ! i) [0..<length data_len],
                    map2 buf_store data (take (length data) buf) @ drop (length data) buf, w1))"

section \<open>Facts\<close>

text \<open>
  The descriptors in use: opening and \<open>socket\<close> add a new one or fail, closing removes one, the
  other calls leave them alone.
\<close>

definition tracks_fds :: "'w os \<Rightarrow> ('w \<Rightarrow> int set) \<Rightarrow> bool" where
  "tracks_fds os fds \<longleftrightarrow>
     (\<forall>f w. let (fd, w') = os_open os f w
       in (fd < 0 \<longrightarrow> fds w' = fds w) \<and> (0 \<le> fd \<longrightarrow> fd \<notin> fds w \<and> fds w' = insert fd (fds w)))
     \<and> (\<forall>t w. let (fd, w') = os_socket os t w
       in (fd < 0 \<longrightarrow> fd = -1 \<and> fds w' = fds w) \<and> (0 \<le> fd \<longrightarrow> fd \<notin> fds w \<and> fds w' = insert fd (fds w)))
     \<and> (\<forall>fd w. fds (os_close os fd w) = fds w - {fd})
     \<and> (\<forall>fd r i w. fds (snd (os_ioctl os fd r i w)) = fds w)
     \<and> (\<forall>w. fds (snd (os_rand os w)) = fds w) \<and> (\<forall>w. -1 \<notin> fds w)"

lemma ioctl_fds: "tracks_fds os fds \<Longrightarrow> os_ioctl os fd r i w = (x, w') \<Longrightarrow> fds w' = fds w"
  unfolding tracks_fds_def by (metis snd_conv)

lemma close_fds: "tracks_fds os fds \<Longrightarrow> fds (os_close os fd w) = fds w - {fd}"
  by (simp add: tracks_fds_def)

lemma open_fds:
  assumes "tracks_fds os fds" and "os_open os f w = (fd, w')"
  shows "fd < 0 \<Longrightarrow> fds w' = fds w" and "0 \<le> fd \<Longrightarrow> fd \<notin> fds w \<and> fds w' = insert fd (fds w)"
  using assms(1) [unfolded tracks_fds_def, THEN conjunct1, rule_format, of f w] assms(2) by auto

lemma socket_fds:
  assumes "tracks_fds os fds" and "os_socket os t w = (fd, w')"
  shows "fds w' - {fd} = fds w" and "0 \<le> fd \<Longrightarrow> fd \<notin> fds w"
  using assms(1) [unfolded tracks_fds_def, THEN conjunct2, THEN conjunct1, rule_format, of t w] assms
  by (auto simp: tracks_fds_def)

lemma rand_fds: "tracks_fds os fds \<Longrightarrow> os_rand os w = (r, w') \<Longrightarrow> fds w' = fds w"
  unfolding tracks_fds_def by (metis snd_conv)

lemma rand_bytes_fds:
  "tracks_fds os fds \<Longrightarrow> rand_bytes os n w = (bs, w') \<Longrightarrow> fds w' = fds w"
proof (induction n arbitrary: w bs)
  case (Suc n)
  then show ?case by (auto split: prod.splits dest!: rand_fds [OF Suc.prems(1)])
qed simp

lemma length_rand_bytes: "rand_bytes os n w = (bs, w') \<Longrightarrow> length bs = n"
  by (induction n arbitrary: w bs) (auto split: prod.splits)

lemma tap_alloc_fds:
  assumes "tracks_fds os fds" and "tap_alloc os dev flags w = (fd, name, w')"
  shows "fd < 0 \<Longrightarrow> fds w' = fds w" and "0 \<le> fd \<Longrightarrow> fd \<notin> fds w \<and> fds w' = insert fd (fds w)"
proof -
  obtain f w1 where o: "os_open os ''/dev/net/tun'' w = (f, w1)" by fastforce
  have "(fd < 0 \<longrightarrow> fds w' = fds w) \<and> (0 \<le> fd \<longrightarrow> fd \<notin> fds w \<and> fds w' = insert fd (fds w))"
    using assms(2) o open_fds [OF assms(1) o] ioctl_fds [OF assms(1)] close_fds [OF assms(1)]
    by (auto simp: tap_alloc_def Let_def split: prod.splits if_splits)
  then show "fd < 0 \<Longrightarrow> fds w' = fds w" and "0 \<le> fd \<Longrightarrow> fd \<notin> fds w \<and> fds w' = insert fd (fds w)" by auto
qed

lemma configure_fds:
  assumes "tracks_fds os fds" and "configure_interface os g name w = (ok, w')"
  shows "fds w' = fds w"
  using assms(2) ioctl_fds [OF assms(1)]
  by (auto simp: configure_interface_def Let_def split: prod.splits if_splits)

lemma setup_fds:
  assumes t: "tracks_fds os fds" and s: "setup_tuntap_device os nic port w = (fd, w')"
  shows "(fd = -1 \<and> fds w' = fds w) \<or> (0 \<le> fd \<and> fd \<notin> fds w \<and> fds w' = insert fd (fds w))"
proof -
  obtain f name w1 where a: "tap_alloc os (snprintf_fit IFNAMSIZ (nic @ dec_int port)) (IFF_TAP OR IFF_NO_PI) w = (f, name, w1)"
    by (metis prod_cases3)
  note A = tap_alloc_fds [OF t a]
  show ?thesis
  proof (cases "f < 0")
    case True
    with s a A show ?thesis by (simp add: setup_tuntap_device_def)
  next
    case False
    obtain mac w2 where m: "generate_random_mac os w1 = (mac, w2)" by fastforce
    then have M: "fds w2 = fds w1"
      by (auto simp: generate_random_mac_def Let_def dest: rand_bytes_fds [OF t] split: prod.splits)
    obtain r i w3 where h: "os_ioctl os f SIOCSIFHWADDR ((ifreq_for name)\<lparr>ifr_hwaddr := mac\<rparr>) w2 = ((r, i), w3)"
      by (metis prod.collapse)
    note H = ioctl_fds [OF t h]
    show ?thesis
    proof (cases "r < 0")
      case True
      with s a m h False A M H close_fds [OF t] show ?thesis by (auto simp: setup_tuntap_device_def Let_def)
    next
      case r: False
      obtain x w4 where p: "os_ioctl os f TUNSETPERSIST (ifreq_for name) w3 = (x, w4)" by fastforce
      obtain g w5 where g: "os_socket os SOCK_DGRAM w4 = (g, w5)" by fastforce
      obtain ok w6 where c: "configure_interface os g name w5 = (ok, w6)" by fastforce
      have "(fd, w') = (if ok then (f, os_close os g w6) else (-1, os_close os f (os_close os g w6)))"
        using s a m h p g c False r by (simp add: setup_tuntap_device_def)
      moreover have "fds w5 - {g} = fds w1" "fds w6 = fds w5"
        using A M H ioctl_fds [OF t p] socket_fds(1) [OF t g] configure_fds [OF t c] by simp_all
      moreover have "f \<notin> fds w" "fds w1 = insert f (fds w)" using A(2) False by simp_all
      moreover have "fds (os_close os g w6) = fds w6 - {g}"
        "fds (os_close os f (os_close os g w6)) = fds w6 - {g} - {f}"
        by (simp_all add: close_fds [OF t])
      ultimately show ?thesis using False by (cases ok) auto
    qed
  qed
qed

end
