(* ===== verification/Inet.thy ===== *)
theory Inet
  imports Text
begin

text \<open>
  \<open>inet_addr\<close> of the C library, which reads the server's address from the command line of the
  client, and its inverse \<open>inet_ntoa\<close>.
\<close>

section \<open>Reading an address\<close>

text \<open>\<open>strtoul(s, &end, 0)\<close> of a string that starts with a digit: hexadecimal after \<open>0x\<close>, octal
after \<open>0\<close>, decimal otherwise.\<close>

definition is_hex :: "char \<Rightarrow> bool" where
  "is_hex c \<longleftrightarrow> is_digit c \<or> 97 \<le> (of_char (to_lower c) :: nat) \<and> (of_char (to_lower c) :: nat) \<le> 102"

definition hex_val :: "char \<Rightarrow> nat" where
  "hex_val c = (if is_digit c then digit_val c else of_char (to_lower c) - 87)"

definition is_octal :: "char \<Rightarrow> bool" where
  "is_octal c \<longleftrightarrow> 48 \<le> (of_char c :: nat) \<and> (of_char c :: nat) \<le> 55"

definition scan_base0 :: "string \<Rightarrow> nat \<times> string" where
  "scan_base0 s =
     (case s of
        c # x # h # r \<Rightarrow>
          if c = CHR ''0'' \<and> to_lower x = CHR ''x'' \<and> is_hex h
          then (foldl (\<lambda>v d. 16 * v + hex_val d) 0 (takeWhile is_hex (h # r)), dropWhile is_hex (h # r))
          else if c = CHR ''0''
          then (foldl (\<lambda>v d. 8 * v + digit_val d) 0 (takeWhile is_octal s), dropWhile is_octal s)
          else (digits_val (takeWhile is_digit s), dropWhile is_digit s)
      | c # r \<Rightarrow>
          if c = CHR ''0''
          then (foldl (\<lambda>v d. 8 * v + digit_val d) 0 (takeWhile is_octal s), dropWhile is_octal s)
          else (digits_val (takeWhile is_digit s), dropWhile is_digit s)
      | [] \<Rightarrow> (0, []))"

definition bswap32 :: "u32 \<Rightarrow> u32" where
  "bswap32 a = push_bit 24 (a AND 0xff) OR push_bit 8 (a AND 0xff00) OR drop_bit 8 (a AND 0xff0000)
     OR drop_bit 24 a"

text \<open>
  One part after the other: every part but the last is a byte, the last one takes the bytes that
  are left. \<open>k\<close> counts the parts that may still follow, \<open>ps\<close> are the bytes read.
\<close>

fun inet_scan :: "nat \<Rightarrow> nat list \<Rightarrow> string \<Rightarrow> u32 option" where
  "inet_scan 0 ps s = None"
| "inet_scan (Suc k) ps s =
     (if s = [] \<or> \<not> is_digit (hd s) then None
      else
        (let (v, r) = scan_base0 s
         in if 2 ^ 32 \<le> v then None
            else if r \<noteq> [] \<and> hd r = CHR ''.''
            then (if k = 0 \<or> 255 < v then None else inet_scan k (ps @ [v]) (tl r))
            else if r \<noteq> [] \<and> \<not> is_space (hd r) then None
            else if 256 ^ (4 - length ps) \<le> v then None
            else Some (foldr (\<lambda>b a. push_bit 8 a OR word_of_nat b) ps 0 OR bswap32 (word_of_nat v))))"

definition INADDR_NONE :: u32 where
  "INADDR_NONE = 0xffffffff"

definition inet_addr :: "string \<Rightarrow> u32" where
  "inet_addr s = (case inet_scan 4 [] s of None \<Rightarrow> INADDR_NONE | Some a \<Rightarrow> a)"

section \<open>Reading back a printed address\<close>

lemma dec_digit_zero: "n < 10 \<Longrightarrow> dec_digit n = CHR ''0'' \<longleftrightarrow> n = 0"
proof -
  assume "n < 10"
  then have "n \<in> {0, 1, 2, 3, 4, 5, 6, 7, 8, 9}" by auto
  then show ?thesis by (auto simp: dec_digit_def)
qed

lemma hd_dec_nat: "hd (dec_nat n) = CHR ''0'' \<longleftrightarrow> n = 0"
proof (induction n rule: dec_nat.induct)
  case (1 n)
  show ?case
  proof (cases "n < 10")
    case True
    then show ?thesis by (simp add: dec_nat.simps [of n] dec_digit_zero)
  next
    case False
    then have "dec_nat n = dec_nat (n div 10) @ [dec_digit (n mod 10)]" by (subst dec_nat.simps) simp
    then have "hd (dec_nat n) = hd (dec_nat (n div 10))" by simp
    moreover have "n div 10 \<noteq> 0" "n \<noteq> 0" using False by simp_all
    ultimately show ?thesis using 1 [OF False] by metis
  qed
qed

lemma hd_dec_nat_digit: "is_digit (hd (dec_nat n))"
  using dec_nat_digits [of n] by (simp add: list.set_sel)

lemma scan_base0_decimal:
  assumes "s \<noteq> []" and "hd s \<noteq> CHR ''0''"
  shows "scan_base0 s = (digits_val (takeWhile is_digit s), dropWhile is_digit s)"
proof -
  obtain c r where s: "s = c # r" using assms(1) by (cases s) auto
  show ?thesis
  proof (cases r)
    case Nil
    with s assms(2) show ?thesis by (simp add: scan_base0_def)
  next
    case (Cons x t)
    with s assms(2) show ?thesis by (cases t) (simp_all add: scan_base0_def)
  qed
qed

lemma scan_base0_dec_nat:
  assumes "r = [] \<or> hd r = CHR ''.''"
  shows "scan_base0 (dec_nat n @ r) = (n, r)"
proof (cases "n = 0")
  case True
  have z: "dec_nat 0 = ''0''" by (simp add: dec_nat.simps [of 0] dec_digit_def)
  show ?thesis
  proof (cases r)
    case Nil
    then show ?thesis unfolding True z by (simp add: scan_base0_def is_octal_def digit_val_def)
  next
    case (Cons x t)
    with assms have "r = CHR ''.'' # t" by simp
    then show ?thesis unfolding True z
      by (cases t) (simp_all add: scan_base0_def is_octal_def digit_val_def to_lower_def)
  qed
next
  case False
  have "takeWhile is_digit r = [] \<and> dropWhile is_digit r = r"
    using assms by (cases r) (auto simp: is_digit_def)
  with dec_nat_digits [of n] have nd: "takeWhile is_digit (dec_nat n @ r) = dec_nat n"
    "dropWhile is_digit (dec_nat n @ r) = r" by simp_all
  have "hd (dec_nat n @ r) \<noteq> CHR ''0''" using False hd_dec_nat [of n] by simp
  then show ?thesis by (subst scan_base0_decimal) (simp_all add: nd digits_val_dec_nat)
qed

lemma mask8: "(0xff :: u32) = mask 8"
  by (simp add: mask_eq_exp_minus_1)

lemma octet_less: "octet a i < 256"
proof -
  have "unat (take_bit 8 x) < 2 ^ 8" for x :: u32
    by (simp only: unsigned_take_bit_eq take_bit_nat_less_exp)
  then show ?thesis unfolding octet_def mask8 take_bit_eq_mask [symmetric] by simp
qed

lemma octet_word: "word_of_nat (octet a i) = take_bit 8 (drop_bit (8 * i) a)"
  unfolding octet_def mask8 take_bit_eq_mask [symmetric] by simp

lemma bswap32_byte: "bswap32 (take_bit 8 x) = push_bit 24 (take_bit 8 x)"
proof -
  have "take_bit 8 x = x AND 0xff" by (simp only: mask8 take_bit_eq_mask)
  moreover have "drop_bit 24 (take_bit 8 x) = 0" by (simp add: drop_bit_take_bit)
  ultimately show ?thesis by (simp add: bswap32_def and.assoc)
qed

lemma octets_compose:
  "foldr (\<lambda>b a. push_bit 8 a OR word_of_nat b) [octet a 0, octet a 1, octet a 2] 0
     OR bswap32 (word_of_nat (octet a 3)) = a"
proof (rule bit_word_eqI)
  fix n assume "n < LENGTH(32)"
  then have n: "n < 32" by simp
  consider "n < 8" | "8 \<le> n" "n < 16" | "16 \<le> n" "n < 24" | "24 \<le> n" by linarith
  then show "bit (foldr (\<lambda>b a. push_bit 8 a OR word_of_nat b) [octet a 0, octet a 1, octet a 2] 0
       OR bswap32 (word_of_nat (octet a 3))) n = bit a n"
    by cases (use n in \<open>auto simp: octet_word bswap32_byte bit_or_iff bit_push_bit_iff bit_drop_bit_eq
        bit_take_bit_iff\<close>)
qed

text \<open>Reading what \<open>inet_ntoa\<close> printed gives the address back.\<close>

lemma inet_addr_ntoa: "inet_addr (inet_ntoa a) = a"
proof -
  let ?o = "octet a"
  have l: "?o i < 256" "\<not> 4294967296 \<le> ?o i" "\<not> 255 < ?o i" for i using octet_less [of a i] by simp_all
  have d: "dec_nat n @ r \<noteq> [] \<and> is_digit (hd (dec_nat n @ r))" for n r
    using hd_dec_nat_digit [of n] by simp
  have s: "scan_base0 (dec_nat n @ CHR ''.'' # r) = (n, CHR ''.'' # r)" for n r
    by (rule scan_base0_dec_nat) simp
  have e: "scan_base0 (dec_nat n) = (n, [])" for n using scan_base0_dec_nat [of "[]" n] by simp
  have step: "inet_scan (Suc (Suc k)) ps (dec_nat (?o i) @ CHR ''.'' # r) = inet_scan (Suc k) (ps @ [?o i]) r"
    for k ps i r
    using l [of i] d [of "?o i" "CHR ''.'' # r"] by (simp add: s)
  have last: "inet_scan (Suc k) [x, y, z] (dec_nat (?o i))
      = Some (foldr (\<lambda>b a. push_bit 8 a OR word_of_nat b) [x, y, z] 0 OR bswap32 (word_of_nat (?o i)))"
    for k i x y z
    using l [of i] hd_dec_nat_digit [of "?o i"] by (simp add: e)
  have four: "(4 :: nat) = Suc (Suc (Suc (Suc 0)))" by simp
  have "inet_scan 4 [] (inet_ntoa a) = Some (foldr (\<lambda>b a. push_bit 8 a OR word_of_nat b) [?o 0, ?o 1, ?o 2] 0
     OR bswap32 (word_of_nat (?o 3)))"
    unfolding four inet_ntoa_def append_Cons append_Nil append_assoc step by (simp only: append_Cons append_Nil last)
  then show ?thesis by (simp only: inet_addr_def octets_compose option.case)
qed

end
