(* ===== verification/Udp_Client.thy ===== *)
theory Udp_Client
  imports Bridge_Prelude Os_Interface Inet Udp
begin

text \<open>
  The client's socket, \<open>wlan_br_client/udp_client.c\<close>. The static variables \<open>udp_sock\<close> and
  \<open>serv_adr\<close> are the record \<open>udp_client\<close>; unlike the server's, the client's receive functions
  throw the sender's address away.
\<close>

record udp_client =
  udp_sock :: int
  serv_adr :: sockaddr_in

definition no_addr :: sockaddr_in where
  "no_addr = \<lparr>sin_addr = 0, sin_port = 0\<rparr>"

definition create_udp_client :: "'w os \<Rightarrow> u16 \<Rightarrow> string \<Rightarrow> udp_client \<Rightarrow> 'w \<Rightarrow> int \<times> udp_client \<times> 'w" where
  "create_udp_client os port server_ip u w =
     (let (fd, w1) = os_socket os SOCK_DGRAM w
      in if fd = -1 then (-1, u\<lparr>udp_sock := fd\<rparr>, w1)
         else (fd, \<lparr>udp_sock = fd, serv_adr = \<lparr>sin_addr = inet_addr server_ip, sin_port = ntohs port\<rparr>\<rparr>, w1))"

definition send_data_use_udp :: "'w os \<Rightarrow> udp_client \<Rightarrow> int \<Rightarrow> bytes \<Rightarrow> 'w \<Rightarrow> int \<times> 'w" where
  "send_data_use_udp os u len buf w =
     (let (sendlen, w1) = os_sendto os (udp_sock u) (take (nat len) buf) (serv_adr u) w
      in if sendlen \<noteq> len then (sendlen, w1) else (sendlen, w1))"

definition send_data_use_udp_burst ::
  "'w os \<Rightarrow> udp_client \<Rightarrow> bytes list \<Rightarrow> nat list \<Rightarrow> nat \<Rightarrow> 'w \<Rightarrow> int \<times> 'w" where
  "send_data_use_udp_burst os u buf data_len msg_num w =
     (let ((retval, _), w1) = os_sendmmsg os (udp_sock u)
            (burst_msgs buf data_len (replicate msg_num (serv_adr u)) msg_num) w
      in if retval \<noteq> int msg_num then (-1, w1) else (retval, w1))"

definition read_data_from_udp :: "'w os \<Rightarrow> udp_client \<Rightarrow> nat \<Rightarrow> bytes \<Rightarrow> 'w \<Rightarrow> int \<times> bytes \<times> 'w" where
  "read_data_from_udp os u max_len buf w =
     (let ((recv_len, data, _), w1) = os_recvfrom os (udp_sock u) max_len w
      in if recv_len \<le> 0 then (-1, buf, w1) else (recv_len, buf_store data buf, w1))"

definition read_data_from_udp_burst ::
  "'w os \<Rightarrow> udp_client \<Rightarrow> nat \<Rightarrow> bytes list \<Rightarrow> nat list \<Rightarrow> nat \<Rightarrow> 'w \<Rightarrow> int \<times> bytes list \<times> nat list \<times> 'w" where
  "read_data_from_udp_burst os u max_len buf data_len max_num w =
     (let ((recv_len, msgs), w1) = os_recvmmsg os (udp_sock u) max_num max_len w
      in if recv_len \<le> 0 then (if os_errno os w1 = EAGAIN then -2 else -1, buf, data_len, w1)
         else
           (let (buf', len', _) = store_msgs (take (nat recv_len) msgs) buf data_len
                                    (replicate max_num no_addr)
            in (recv_len, buf', len', w1)))"

definition destroy_udp_client :: "'w os \<Rightarrow> udp_client \<Rightarrow> 'w \<Rightarrow> udp_client \<times> 'w" where
  "destroy_udp_client os u w =
     (let u1 = u\<lparr>serv_adr := no_addr\<rparr>
      in if udp_sock u1 \<noteq> -1 then (u1\<lparr>udp_sock := -1\<rparr>, os_close os (udp_sock u1) w) else (u1, w))"

end
