(* ===== verification/Client.thy ===== *)
theory Client
  imports Tuntap Udp_Client Server
begin

text \<open>
  The client program, \<open>wlan_br_client/main.c\<close>: it relays frames between the TAP device and the
  server's socket. The loop runs until SIGUSR1 arrives; the threads of the command line interface
  are not part of this theory.
\<close>

section \<open>Options\<close>

text \<open>
  What \<open>getopt_long\<close> returns, call by call: the option character and \<open>optarg\<close>. \<open>-h\<close> leaves the
  program; an argument that does not fit the buffer it is copied into with \<open>strcpy\<close> overruns it.
\<close>

datatype options = Options (opt_server: string) (opt_tap: string) | Usage | Overrun

definition SERVER_IP :: string where
  "SERVER_IP = ''172.16.123.137''"

definition TAP_NAME :: string where
  "TAP_NAME = ''ttap''"

fun parse_options :: "(char \<times> string) list \<Rightarrow> string \<Rightarrow> string \<Rightarrow> options" where
  "parse_options [] server_addr tap_name =
     Options (if server_addr = [] then SERVER_IP else server_addr) (if tap_name = [] then TAP_NAME else tap_name)"
| "parse_options ((c, optarg) # opts) server_addr tap_name =
     (if c = CHR ''h'' then Usage
      else if c = CHR ''s'' then
        (if 20 \<le> length optarg then Overrun else parse_options opts optarg tap_name)
      else if c = CHR ''t'' then
        (if 16 \<le> length optarg then Overrun else parse_options opts server_addr optarg)
      else parse_options opts server_addr tap_name)"

section \<open>The relay\<close>

record 'w client =
  cl_tuntap :: tuntap
  cl_udp :: udp_client
  cl_epfd :: int
  cl_tuntap_fd :: int
  cl_udp_fd :: int
  cl_running :: bool
  cl_stat :: epoll_stat_info
  cl_tuntap_buf :: bytes
  cl_udp_buf :: bytes
  cl_world :: 'w

definition client_usr1_handler :: "'w client \<Rightarrow> 'w client" where
  "client_usr1_handler s = s\<lparr>cl_running := False\<rparr>"

definition client_signal :: "'w os \<Rightarrow> 'w client \<Rightarrow> 'w client" where
  "client_signal os s =
     (let (arrived, w) = os_sigusr1 os (cl_world s); s1 = s\<lparr>cl_world := w\<rparr>
      in if arrived then client_usr1_handler s1 else s1)"

text \<open>A frame from the TAP device goes to the server, a datagram from the server to the device.\<close>

definition relay_tuntap :: "'w os \<Rightarrow> 'w client \<Rightarrow> 'w client" where
  "relay_tuntap os s =
     (let (len, buf, w1) = read_data_from_tuntap os (tun_fd (cl_tuntap s)) (length (cl_tuntap_buf s))
                             (cl_tuntap_buf s) (cl_world s);
          s1 = s\<lparr>cl_tuntap_buf := buf, cl_world := w1\<rparr>
      in if len \<le> 0 then s1
         else (let (_, w2) = send_data_use_udp os (cl_udp s1) len buf w1 in s1\<lparr>cl_world := w2\<rparr>))"

definition relay_udp :: "'w os \<Rightarrow> 'w client \<Rightarrow> 'w client" where
  "relay_udp os s =
     (let (len, buf, w1) = read_data_from_udp os (cl_udp s) (length (cl_udp_buf s)) (cl_udp_buf s) (cl_world s);
          s1 = s\<lparr>cl_udp_buf := buf, cl_world := w1\<rparr>
      in if len \<le> 0 then s1
         else (let (_, w2) = send_data_use_tuntap os (tun_fd (cl_tuntap s1)) len buf w1 in s1\<lparr>cl_world := w2\<rparr>))"

definition client_event :: "'w os \<Rightarrow> epoll_event \<Rightarrow> 'w client \<Rightarrow> 'w client" where
  "client_event os ev s =
     (if ev_in ev then
        (if ev_fd ev = cl_tuntap_fd s then relay_tuntap os s
         else if ev_fd ev = cl_udp_fd s then relay_udp os s else s)
      else s)"

text \<open>One turn of the loop of \<open>runing\<close>, and the loop.\<close>

definition client_round :: "'w os \<Rightarrow> 'w client \<Rightarrow> 'w client" where
  "client_round os s =
     (let ((nfds, evs), w) = os_epoll_wait os (cl_epfd s) 20 2000 (cl_world s);
          s1 = s\<lparr>cl_world := w, cl_stat := count_wait nfds (cl_stat s)\<rparr>
      in if nfds \<le> 0 then s1 else fold (client_event os) (take (nat nfds) evs) s1)"

partial_function (option) client_loop :: "'w os \<Rightarrow> 'w client \<Rightarrow> 'w client option" where
  "client_loop os s =
     (let s0 = client_signal os s
      in if \<not> cl_running s0 then Some s0 else client_loop os (client_round os s0))"

definition runing :: "'w os \<Rightarrow> 'w client \<Rightarrow> 'w client option" where
  "runing os s = client_loop os (s\<lparr>cl_tuntap_buf := replicate 1518 0, cl_udp_buf := replicate 1518 0\<rparr>)"

section \<open>The program\<close>

definition client_start :: "'w \<Rightarrow> 'w client" where
  "client_start w =
     \<lparr>cl_tuntap = \<lparr>tun_fd = -1, tt_running = True\<rparr>, cl_udp = \<lparr>udp_sock = -1, serv_adr = no_addr\<rparr>, cl_epfd = -1,
      cl_tuntap_fd = -1, cl_udp_fd = -1, cl_running = True, cl_stat = epoll_stat_zero, cl_tuntap_buf = [],
      cl_udp_buf = [], cl_world = w\<rparr>"

text \<open>The result is the exit status; \<open>None\<close> is a run that does not end, or overran a buffer.\<close>

definition client_main :: "'w os \<Rightarrow> (char \<times> string) list \<Rightarrow> 'w client \<Rightarrow> (int \<times> 'w client) option" where
  "client_main os opts s =
     (case parse_options opts [] [] of
        Overrun \<Rightarrow> None
      | Usage \<Rightarrow> Some (0, s)
      | Options server_addr tap_name \<Rightarrow>
          (let w0 = cli_main os (cl_world s);
               (tfd, t, w1) = create_tuntap os tap_name (cl_tuntap s) w0;
               s1 = s\<lparr>cl_tuntap := t, cl_tuntap_fd := tfd, cl_world := w1\<rparr>
           in if tfd = -1 then Some (-1, s1)
              else
                (let (ufd, u, w2) = create_udp_client os UDP_PORT server_addr (cl_udp s1) w1;
                     s2 = s1\<lparr>cl_udp := u, cl_udp_fd := ufd, cl_world := w2\<rparr>
                 in if ufd = -1 then Some (-1, s2)
                    else
                      (let (epfd, w3) = os_epoll_create os w2;
                           (_, w4) = os_epoll_ctl os epfd tfd False w3;
                           (_, w5) = os_epoll_ctl os epfd ufd False w4
                       in do {
                            s3 \<leftarrow> runing os (s2\<lparr>cl_epfd := epfd, cl_world := w5\<rparr>);
                            let (t', w6) = destroy_tuntap os (cl_tuntap s3) (cl_world s3);
                            let (u', w7) = destroy_udp_client os (cl_udp s3) w6;
                            Some (0, s3\<lparr>cl_tuntap := t', cl_udp := u', cl_world := w7\<rparr>)
                          }))))"

section \<open>What the relay does to the traffic\<close>

datatype io = Tap_in bytes | Net_out bytes sockaddr_in | Net_in bytes sockaddr_in | Tap_out bytes

text \<open>
  \<open>traces os tr\<close>: the world records the frames read and written. A read that returns data records
  it, a failed one nothing; no other call does.
\<close>

definition traces :: "'w os \<Rightarrow> ('w \<Rightarrow> io list) \<Rightarrow> bool" where
  "traces os tr \<longleftrightarrow>
     (\<forall>fd n w. let ((r, d), w') = os_read os fd n w
       in (r \<le> 0 \<longrightarrow> tr w' = tr w) \<and> (0 < r \<longrightarrow> r = int (length d) \<and> length d \<le> n \<and> tr w' = tr w @ [Tap_in d]))
     \<and> (\<forall>fd n w. let ((r, d, p), w') = os_recvfrom os fd n w
       in (r \<le> 0 \<longrightarrow> tr w' = tr w) \<and> (0 < r \<longrightarrow> r = int (length d) \<and> length d \<le> n \<and> tr w' = tr w @ [Net_in d p]))
     \<and> (\<forall>fd d p w. tr (snd (os_sendto os fd d p w)) = tr w @ [Net_out d p])
     \<and> (\<forall>fd d w. tr (snd (os_write os fd d w)) = tr w @ [Tap_out d])
     \<and> (\<forall>fd n t w. tr (snd (os_epoll_wait os fd n t w)) = tr w)
     \<and> (\<forall>w. tr (snd (os_sigusr1 os w)) = tr w)"

text \<open>A trace in which each frame read is passed on, unchanged, before the next is read.\<close>

inductive relayed :: "sockaddr_in \<Rightarrow> io list \<Rightarrow> bool" for srv where
  relayed_none: "relayed srv []"
| relayed_out: "relayed srv t \<Longrightarrow> relayed srv (t @ [Tap_in d, Net_out d srv])"
| relayed_in: "relayed srv t \<Longrightarrow> relayed srv (t @ [Net_in d p, Tap_out d])"

inductive client_reach :: "'w os \<Rightarrow> 'w client \<Rightarrow> 'w client \<Rightarrow> bool" for os and s0 where
  creach_start: "client_reach os s0 s0"
| creach_signal: "client_reach os s0 s \<Longrightarrow> client_reach os s0 (client_signal os s)"
| creach_round: "client_reach os s0 s \<Longrightarrow> cl_running s \<Longrightarrow> client_reach os s0 (client_round os s)"

lemma relayed_append: "relayed srv t' \<Longrightarrow> relayed srv t \<Longrightarrow> relayed srv (t @ t')"
proof (induction t' rule: relayed.induct)
  case relayed_none
  then show ?case by simp
next
  case (relayed_out t' d)
  then show ?case using relayed.relayed_out [of srv "t @ t'" d] by simp
next
  case (relayed_in t' d p)
  then show ?case using relayed.relayed_in [of srv "t @ t'" d p] by simp
qed

text \<open>The constants of a run: descriptors, server address, buffer sizes.\<close>

definition client_frame :: "'w client \<Rightarrow> 'w client \<Rightarrow> bool" where
  "client_frame s s' \<longleftrightarrow> cl_tuntap s' = cl_tuntap s \<and> cl_udp s' = cl_udp s \<and> cl_tuntap_fd s' = cl_tuntap_fd s
     \<and> cl_udp_fd s' = cl_udp_fd s \<and> cl_epfd s' = cl_epfd s
     \<and> length (cl_tuntap_buf s') = length (cl_tuntap_buf s) \<and> length (cl_udp_buf s') = length (cl_udp_buf s)"

lemma client_frame_refl: "client_frame s s"
  by (simp add: client_frame_def)

lemma client_frame_trans: "client_frame s t \<Longrightarrow> client_frame t u \<Longrightarrow> client_frame s u"
  by (simp add: client_frame_def)

lemma relay_tuntap_step:
  assumes "traces os tr"
  shows "client_frame s (relay_tuntap os s) \<and>
    (\<exists>t. tr (cl_world (relay_tuntap os s)) = tr (cl_world s) @ t \<and> relayed (serv_adr (cl_udp s)) t)"
proof -
  let ?srv = "serv_adr (cl_udp s)" and ?n = "length (cl_tuntap_buf s)"
  obtain r d w1 where rd: "os_read os (tun_fd (cl_tuntap s)) ?n (cl_world s) = ((r, d), w1)"
    by (metis prod.collapse)
  note R = assms [unfolded traces_def, THEN conjunct1, rule_format, of "tun_fd (cl_tuntap s)" ?n "cl_world s"]
  show ?thesis
  proof (cases "r \<le> 0")
    case True
    then show ?thesis using R rd
      by (auto simp: relay_tuntap_def read_data_from_tuntap_def client_frame_def
          intro!: exI [of _ "[]"] relayed_none)
  next
    case False
    then have D: "r = int (length d)" "length d \<le> ?n" "tr w1 = tr (cl_world s) @ [Tap_in d]" using R rd by auto
    obtain x w2 where sd: "os_sendto os (udp_sock (cl_udp s)) d ?srv w1 = (x, w2)" by fastforce
    have "tr w2 = tr w1 @ [Net_out d ?srv]"
      using assms sd unfolding traces_def by (metis snd_conv)
    moreover have "relayed ?srv [Tap_in d, Net_out d ?srv]"
      using relayed_out [OF relayed_none, of ?srv d] by simp
    moreover have "relay_tuntap os s = s\<lparr>cl_tuntap_buf := buf_store d (cl_tuntap_buf s), cl_world := w2\<rparr>"
      using rd False D(1) sd by (simp add: relay_tuntap_def read_data_from_tuntap_def send_data_use_udp_def)
    ultimately show ?thesis using D(2,3) by (auto simp: client_frame_def)
  qed
qed

lemma relay_udp_step:
  assumes "traces os tr"
  shows "client_frame s (relay_udp os s) \<and>
    (\<exists>t. tr (cl_world (relay_udp os s)) = tr (cl_world s) @ t \<and> relayed (serv_adr (cl_udp s)) t)"
proof -
  let ?srv = "serv_adr (cl_udp s)" and ?n = "length (cl_udp_buf s)"
  obtain r d p w1 where rd: "os_recvfrom os (udp_sock (cl_udp s)) ?n (cl_world s) = ((r, d, p), w1)"
    by (metis prod.collapse)
  note R = assms [unfolded traces_def, THEN conjunct2, THEN conjunct1, rule_format,
      of "udp_sock (cl_udp s)" ?n "cl_world s"]
  show ?thesis
  proof (cases "r \<le> 0")
    case True
    then show ?thesis using R rd
      by (auto simp: relay_udp_def read_data_from_udp_def client_frame_def
          intro!: exI [of _ "[]"] relayed_none)
  next
    case False
    then have D: "r = int (length d)" "length d \<le> ?n" "tr w1 = tr (cl_world s) @ [Net_in d p]" using R rd by auto
    obtain x w2 where sd: "os_write os (tun_fd (cl_tuntap s)) d w1 = (x, w2)" by fastforce
    have "tr w2 = tr w1 @ [Tap_out d]"
      using assms sd unfolding traces_def by (metis snd_conv)
    moreover have "relayed ?srv [Net_in d p, Tap_out d]"
      using relayed_in [OF relayed_none, of ?srv d p] by simp
    moreover have "relay_udp os s = s\<lparr>cl_udp_buf := buf_store d (cl_udp_buf s), cl_world := w2\<rparr>"
      using rd False D(1) sd by (simp add: relay_udp_def read_data_from_udp_def send_data_use_tuntap_def)
    ultimately show ?thesis using D(2,3) by (auto simp: client_frame_def)
  qed
qed

definition relays :: "('w \<Rightarrow> io list) \<Rightarrow> 'w client \<Rightarrow> 'w client \<Rightarrow> bool" where
  "relays tr s s' \<longleftrightarrow> client_frame s s'
     \<and> (\<exists>t. tr (cl_world s') = tr (cl_world s) @ t \<and> relayed (serv_adr (cl_udp s)) t)"

lemma relays_refl: "relays tr s s"
  by (auto simp: relays_def client_frame_refl intro!: relayed_none)

lemma relays_trans: "relays tr s t \<Longrightarrow> relays tr t u \<Longrightarrow> relays tr s u"
  by (auto simp: relays_def client_frame_def intro: relayed_append)

lemma client_event_relays:
  assumes "traces os tr"
  shows "relays tr s (client_event os ev s)"
  using relay_tuntap_step [OF assms, of s] relay_udp_step [OF assms, of s] relays_refl [of tr s]
  by (simp add: client_event_def relays_def)

lemma client_round_relays:
  assumes "traces os tr"
  shows "relays tr s (client_round os s)"
proof -
  obtain nfds evs w where e: "os_epoll_wait os (cl_epfd s) 20 2000 (cl_world s) = ((nfds, evs), w)"
    by (metis prod.collapse)
  let ?s1 = "s\<lparr>cl_world := w, cl_stat := count_wait nfds (cl_stat s)\<rparr>"
  have "tr w = tr (cl_world s)" using assms e unfolding traces_def by (metis snd_conv)
  then have r1: "relays tr s ?s1" by (auto simp: relays_def client_frame_def intro!: relayed_none)
  have "relays tr t (fold (client_event os) es t)" for es t
    by (induction es arbitrary: t) (auto intro: relays_refl relays_trans client_event_relays [OF assms])
  with r1 e show ?thesis by (auto simp: client_round_def Let_def intro: relays_trans)
qed

lemma client_signal_relays:
  assumes "traces os tr"
  shows "relays tr s (client_signal os s)"
proof -
  have "tr (snd (os_sigusr1 os (cl_world s))) = tr (cl_world s)" using assms by (simp add: traces_def)
  then show ?thesis
    by (auto simp: client_signal_def client_usr1_handler_def relays_def client_frame_def split_beta Let_def
        intro!: relayed_none)
qed

lemma client_reach_relays:
  assumes "client_reach os s0 s" and "traces os tr"
  shows "relays tr s0 s"
  using assms
  by (induction rule: client_reach.induct)
    (auto intro: relays_refl relays_trans client_signal_relays client_round_relays)

end
