(* ===== verification/Relaying.thy ===== *)
theory Relaying
  imports Client Forwarding
begin

text \<open>The properties of the client: its relay, its device, its command line.\<close>

section \<open>A host for the witnesses\<close>

text \<open>
  Its world holds the frames waiting in the device, the datagrams waiting in the socket, the trace,
  and the descriptors in use. The device is descriptor 4, the socket 3.
\<close>

type_synonym host = "(bytes list \<times> (bytes \<times> sockaddr_in) list) \<times> io list \<times> int set"

definition host_os :: "host os" where
  "host_os =
     \<lparr>os_malloc = (\<lambda>n w. (n < 2 ^ 36, w)), os_errno = (\<lambda>w. 0),
      os_socket = (\<lambda>t (i, tr, fds). if 3 \<in> fds then (-1, (i, tr, fds)) else (3, (i, tr, insert 3 fds))),
      os_bind = (\<lambda>fd a w. (0, w)), os_setsockopt = (\<lambda>fd opt v w. (0, w)),
      os_close = (\<lambda>fd (i, tr, fds). (i, tr, fds - {fd})),
      os_sendto = (\<lambda>fd d p (i, tr, fds). (int (length d), (i, tr @ [Net_out d p], fds))),
      os_sendmmsg = (\<lambda>fd ms w. ((int (length ms), map (length \<circ> fst) ms), w)),
      os_recvfrom = (\<lambda>fd n ((tap, net), tr, fds). case net of
          [] \<Rightarrow> ((-1, [], no_addr), ((tap, net), tr, fds))
        | (d, p) # ds \<Rightarrow> (let d = take n d in if d = [] then ((0, [], p), ((tap, ds), tr, fds))
            else ((int (length d), d, p), ((tap, ds), tr @ [Net_in d p], fds)))),
      os_recvmmsg = (\<lambda>fd k n w. ((-1, []), w)),
      os_read = (\<lambda>fd n ((tap, net), tr, fds). case tap of
          [] \<Rightarrow> ((-1, []), ((tap, net), tr, fds))
        | d # ds \<Rightarrow> (let d = take n d in if d = [] then ((0, []), ((ds, net), tr, fds))
            else ((int (length d), d), ((ds, net), tr @ [Tap_in d], fds)))),
      os_write = (\<lambda>fd d (i, tr, fds). (int (length d), (i, tr @ [Tap_out d], fds))),
      os_writev = (\<lambda>fd ds w. (int (length (concat ds)), w)), os_readv = (\<lambda>fd k n w. ((-1, []), w)),
      os_open = (\<lambda>f (i, tr, fds). if 4 \<in> fds then (-1, (i, tr, fds)) else (4, (i, tr, insert 4 fds))),
      os_ioctl = (\<lambda>fd r i w. ((if fd < 0 then -1 else 0, i), w)), os_fcntl = (\<lambda>fd c v w. (0, w)),
      os_listen = (\<lambda>fd n w. (0, w)), os_accept = (\<lambda>fd w. ((-1, no_addr), w)),
      os_thread = (\<lambda>f a w. (0, w)), os_rand = (\<lambda>w. (7, w)), os_epoll_create = (\<lambda>w. (5, w)),
      os_epoll_ctl = (\<lambda>e fd et w. (0, w)),
      os_epoll_wait = (\<lambda>fd n t w. ((2, [\<lparr>ev_in = True, ev_fd = 4\<rparr>, \<lparr>ev_in = True, ev_fd = 3\<rparr>]), w)),
      os_usleep = (\<lambda>us w. w), os_clock = (\<lambda>w. ((0, 1, 0), w)), os_sigusr1 = (\<lambda>w. (False, w))\<rparr>"

lemma host_simps:
  "os_socket host_os t (i, tr, fds) = (if 3 \<in> fds then (-1, (i, tr, fds)) else (3, (i, tr, insert 3 fds)))"
  "os_open host_os f (i, tr, fds) = (if 4 \<in> fds then (-1, (i, tr, fds)) else (4, (i, tr, insert 4 fds)))"
  "os_close host_os fd (i, tr, fds) = (i, tr, fds - {fd})"
  "os_ioctl host_os fd r q w = ((if fd < 0 then -1 else 0, q), w)"
  "os_rand host_os w = (7, w)"
  "os_sendto host_os fd d p (i, tr, fds) = (int (length d), (i, tr @ [Net_out d p], fds))"
  "os_write host_os fd d (i, tr, fds) = (int (length d), (i, tr @ [Tap_out d], fds))"
  "os_read host_os fd n ((e # tap, net), tr, fds) = (let d = take n e in
     if d = [] then ((0, []), ((tap, net), tr, fds)) else ((int (length d), d), ((tap, net), tr @ [Tap_in d], fds)))"
  "os_recvfrom host_os fd n ((tap, (e, p) # net), tr, fds) = (let d = take n e in
     if d = [] then ((0, [], p), ((tap, net), tr, fds))
     else ((int (length d), d, p), ((tap, net), tr @ [Net_in d p], fds)))"
  "os_epoll_wait host_os fd n tm w = ((2, [\<lparr>ev_in = True, ev_fd = 4\<rparr>, \<lparr>ev_in = True, ev_fd = 3\<rparr>]), w)"
  by (simp_all add: host_os_def)

lemma demo_frame_nonempty: "demo_frame d e \<noteq> []"
  by (simp add: demo_frame_def)

lemma host_relay_tuntap:
  "cl_world s = ((e # tap, net), tr, fds) \<Longrightarrow> e \<noteq> [] \<Longrightarrow> cl_tuntap_buf s \<noteq> [] \<Longrightarrow>
   fst (snd (cl_world (relay_tuntap host_os s))) \<noteq> []"
  by (cases "cl_tuntap_buf s"; cases e)
    (auto simp: relay_tuntap_def read_data_from_tuntap_def send_data_use_udp_def host_simps Let_def split_beta)

lemma host_rand_bytes: "rand_bytes host_os n w = (replicate n 7, w)"
  by (induction n) (simp_all add: host_simps)

lemma host_traces: "traces host_os (\<lambda>w. fst (snd w))"
  by (auto simp: traces_def host_os_def Let_def split: list.split)

definition host_client :: "host client" where
  "host_client = (client_start (([demo_frame 2 1], [(demo_frame 1 2, demo_peer 9)]), [], {3, 4}))
     \<lparr>cl_tuntap := \<lparr>tun_fd = 4, tt_running = True\<rparr>, cl_udp := \<lparr>udp_sock = 3, serv_adr = demo_peer 9\<rparr>,
      cl_tuntap_fd := 4, cl_udp_fd := 3, cl_tuntap_buf := demo_frame 0 0, cl_udp_buf := demo_frame 0 0\<rparr>"

section \<open>The relay\<close>

text \<open>C17: The relay is transparent. In every state the client goes through, what it has done to the
traffic is a sequence of frames passed on: a frame read from the TAP device is sent, unchanged and
whole, to the server before anything else is read; a datagram from the socket is written, unchanged
and whole, to the device; nothing else is sent or written.\<close>

theorem relay_transparent:
  assumes "client_reach os s0 s" and "traces os tr"
  shows "\<exists>t. tr (cl_world s) = tr (cl_world s0) @ t \<and> relayed (serv_adr (cl_udp s0)) t"
  using client_reach_relays [OF assms] by (auto simp: relays_def)

theorem relay_transparent_witness:
  "\<exists>s t. client_reach host_os host_client s \<and> fst (snd (cl_world s)) = t \<and> t \<noteq> [] \<and> relayed (demo_peer 9) t"
proof -
  let ?s = "client_round host_os host_client"
  have r: "client_reach host_os host_client ?s"
    by (rule creach_round [OF creach_start]) (simp add: host_client_def client_start_def)
  have e: "fst (snd (cl_world host_client)) = []" "serv_adr (cl_udp host_client) = demo_peer 9"
    by (simp_all add: host_client_def client_start_def)
  let ?s1 = "host_client\<lparr>cl_stat := count_wait 2 epoll_stat_zero\<rparr>"
  have "?s = client_event host_os \<lparr>ev_in = True, ev_fd = 3\<rparr> (relay_tuntap host_os ?s1)"
    by (simp add: client_round_def client_event_def host_simps host_client_def client_start_def numeral_2_eq_2)
  moreover have "fst (snd (cl_world (relay_tuntap host_os ?s1))) \<noteq> []"
    by (rule host_relay_tuntap)
      (auto simp: host_client_def client_start_def demo_frame_nonempty)
  ultimately have "fst (snd (cl_world ?s)) \<noteq> []"
    using client_event_relays [OF host_traces, of "relay_tuntap host_os ?s1" "\<lparr>ev_in = True, ev_fd = 3\<rparr>"]
    by (auto simp: relays_def)
  with relay_transparent [OF r host_traces] e r show ?thesis by auto
qed

section \<open>The device\<close>

text \<open>C28: Creating the TAP device leaks no descriptor: on every error path all descriptors opened on
the way are closed again, and on success exactly the one returned stays open.\<close>

theorem setup_leaks_nothing:
  assumes "tracks_fds os fds" and "setup_tuntap_device os nic port w = (fd, w')"
  shows "if fd = -1 then fds w' = fds w else 0 \<le> fd \<and> fd \<notin> fds w \<and> fds w' = insert fd (fds w)"
  using setup_fds [OF assms] by auto

lemma host_tracks_fds: "tracks_fds host_os (\<lambda>w. snd (snd w) - {-1})"
  by (auto simp: tracks_fds_def host_os_def)

theorem setup_leaks_nothing_witness:
  "\<exists>w'. setup_tuntap_device host_os ''ttap'' 0 (([], []), [], {}) = (4, w') \<and> snd (snd w') - {-1} = {4}"
proof -
  have "fst (setup_tuntap_device host_os ''ttap'' 0 (([], []), [], {})) = 4"
    by (simp add: setup_tuntap_device_def tap_alloc_def generate_random_mac_def configure_interface_def
        host_simps host_rand_bytes)
  then obtain w' where w: "setup_tuntap_device host_os ''ttap'' 0 (([], []), [], {}) = (4, w')"
    by (metis prod.collapse)
  from setup_leaks_nothing [OF host_tracks_fds w] w show ?thesis by auto
qed

text \<open>C30: The random MAC address of the device is always a valid station address: six bytes, unicast,
locally administered, not zero.\<close>

theorem random_mac_valid:
  assumes "generate_random_mac os w = (mac, w')"
  shows "length mac = 6 \<and> is_valid_ether_addr mac \<and> bit (mac ! 0) 1"
proof -
  obtain bs where b: "rand_bytes os 6 w = (bs, w')" and m: "mac = bs[0 := (bs ! 0 AND 0xFE) OR 0x02]"
    using assms by (auto simp: generate_random_mac_def split: prod.splits)
  then have l: "length bs = 6" by (simp add: length_rand_bytes)
  then obtain x y where bs: "bs = x # y" "length y = 5" by (cases bs) auto
  have fe: "(0xFE :: u8) = NOT 1" by simp
  have "\<not> bit (mac ! 0) 0" "bit (mac ! 0) 1"
    unfolding m bs(1) fe by (simp_all add: bit_simps bit_1_iff)
  then have "mac ! 0 \<noteq> 0" by auto
  then have "mac \<noteq> replicate 6 0" by auto
  with \<open>\<not> bit (mac ! 0) 0\<close> \<open>bit (mac ! 0) 1\<close> l m show ?thesis by (simp add: is_valid_iff)
qed

theorem random_mac_valid_witness:
  "\<exists>mac w'. generate_random_mac host_os (([], []), [], {}) = (mac, w') \<and> is_valid_ether_addr mac"
proof -
  obtain mac w' where g: "generate_random_mac host_os (([], []), [], {}) = (mac, w')"
    by (metis prod.collapse)
  from random_mac_valid [OF g] g show ?thesis by blast
qed

text \<open>\<open>send_data_use_tuntap_burst\<close> reports failure for every burst of Ethernet frames although
\<open>writev\<close> has written all of it, because it compares the number of bytes with the number of frames.\<close>

theorem tuntap_burst_always_fails:
  assumes "\<And>ds w. fst (os_writev os fd ds w) = int (length (concat ds))"
    and "0 < n" and "\<forall>i < n. 14 \<le> data_len ! i \<and> data_len ! i \<le> length (buf ! i)"
  shows "fst (send_data_use_tuntap_burst os fd data_len buf n w) = -1"
proof -
  let ?ds = "map (\<lambda>i. take (data_len ! i) (buf ! i)) [0..<n]"
  have "14 * length ?ds \<le> length (concat ?ds)"
    if "\<forall>d \<in> set ds. 14 \<le> length d" "ds = ?ds" for ds
  proof -
    have "14 * length ds \<le> length (concat ds)" using that(1) by (induction ds) auto
    with that(2) show ?thesis by simp
  qed
  moreover have "\<forall>d \<in> set ?ds. 14 \<le> length d" using assms(3) by auto
  ultimately have "int n \<noteq> int (length (concat ?ds))" using assms(2) by auto
  then show ?thesis using assms(1) [of ?ds w]
    by (auto simp: send_data_use_tuntap_burst_def split: prod.split)
qed

theorem tuntap_burst_always_fails_witness:
  "fst (send_data_use_tuntap_burst host_os 4 [60] [demo_frame 2 1] 1 (([], []), [], {4})) = -1"
  by (rule tuntap_burst_always_fails) (simp_all add: host_os_def demo_frame_def demo_mac_def)

section \<open>The command line\<close>

text \<open>C31: An argument of the client overruns the buffer it is copied into exactly when a server of 20 or
a device name of 16 characters or more is given before any \<open>-h\<close>; otherwise the program goes on or
prints its usage.\<close>

theorem options_overrun_iff:
  "parse_options opts [] [] = Overrun \<longleftrightarrow>
     (\<exists>(c, a) \<in> set (takeWhile (\<lambda>opt. fst opt \<noteq> CHR ''h'') opts).
        c = CHR ''s'' \<and> 20 \<le> length a \<or> c = CHR ''t'' \<and> 16 \<le> length a)"
proof -
  have "parse_options opts s t = Overrun \<longleftrightarrow>
     (\<exists>(c, a) \<in> set (takeWhile (\<lambda>opt. fst opt \<noteq> CHR ''h'') opts).
        c = CHR ''s'' \<and> 20 \<le> length a \<or> c = CHR ''t'' \<and> 16 \<le> length a)" for s t
  proof (induction opts s t rule: parse_options.induct)
    case (2 c a opts s t)
    show ?case
    proof (cases "c = CHR ''h''")
      case False
      then have tw: "takeWhile (\<lambda>opt. fst opt \<noteq> CHR ''h'') ((c, a) # opts)
          = (c, a) # takeWhile (\<lambda>opt. fst opt \<noteq> CHR ''h'') opts" by simp
      consider "c = CHR ''s''" | "c = CHR ''t''" | "c \<noteq> CHR ''s''" "c \<noteq> CHR ''t''" by blast
      then show ?thesis
        unfolding tw by cases (use 2 False in simp_all)
    qed simp
  qed simp
  then show ?thesis .
qed

text \<open>A server given as a printed IPv4 address is the one the client sends its frames to, at the
server's port.\<close>

theorem client_sends_to_given_server:
  assumes "create_udp_client os port (inet_ntoa a) u w = (fd, u', w')" and "fd \<noteq> -1"
    and "os_sendto os fd (take (nat len) buf) \<lparr>sin_addr = a, sin_port = ntohs port\<rparr> w' = (r, w'')"
  shows "send_data_use_udp os u' len buf w' = (r, w'')"
  using assms by (auto simp: create_udp_client_def send_data_use_udp_def inet_addr_ntoa split: prod.splits if_splits)

theorem client_sends_to_given_server_witness:
  "\<exists>u' w' w''. create_udp_client host_os 29870 (inet_ntoa 0x897B10AC) \<lparr>udp_sock = -1, serv_adr = no_addr\<rparr>
      (([], []), [], {}) = (3, u', w')
    \<and> send_data_use_udp host_os u' 60 (demo_frame 2 1) w' = (60, w'')"
proof -
  let ?u = "\<lparr>udp_sock = -1, serv_adr = no_addr\<rparr>" and ?a = "0x897B10AC :: u32"
  obtain u' w' where c: "create_udp_client host_os 29870 (inet_ntoa ?a) ?u (([], []), [], {}) = (3, u', w')"
    by (simp add: create_udp_client_def host_simps)
  obtain i tr f where w': "w' = (i, tr, f)" by (cases w')
  have "os_sendto host_os 3 (take (nat 60) (demo_frame 2 1)) \<lparr>sin_addr = ?a, sin_port = ntohs 29870\<rparr> w'
      = (60, (i, tr @ [Net_out (demo_frame 2 1) \<lparr>sin_addr = ?a, sin_port = ntohs 29870\<rparr>], f))"
    unfolding w' by (simp add: host_simps demo_frame_def demo_mac_def)
  from client_sends_to_given_server [OF c _ this] c show ?thesis by auto
qed

end
