(* ===== verification/Client_Cli.thy ===== *)
theory Client_Cli
  imports Client Server_Cli
begin

text \<open>
  The command line of the client, \<open>wlan_br_client/cli.c\<close>. Its text is that of the server without the
  commands of the bridge, so the commands that do not touch the state of the program are the ones of
  \<open>Server_Cli\<close>; the counters shown and cleared are those of the client.
\<close>

definition CLIENT_CLITEST_PORT :: u16 where "CLIENT_CLITEST_PORT = 8001"

definition set_client :: "('w client \<Rightarrow> 'w client) \<Rightarrow> 'w client app_cli \<Rightarrow> 'w client app_cli" where
  "set_client f s = s\<lparr>cli_app := (cli_app s)\<lparr>app_main := f (app_main (cli_app s))\<rparr>\<rparr>"

definition client_cmd_show_epoll_stat :: "'w client cli_app cli_env \<Rightarrow> 'w client app_cli \<Rightarrow> int \<times> 'w client app_cli" where
  "client_cmd_show_epoll_stat e s = (CLI_OK, cli_print e (epoll_stat_line (cl_stat (app_main (cli_app s)))) s)"

definition client_cmd_clean_epoll_stat :: "'w client cli_app cli_env \<Rightarrow> 'w client app_cli \<Rightarrow> int \<times> 'w client app_cli" where
  "client_cmd_clean_epoll_stat e s =
     (CLI_OK, cli_print e ''clean success.'' (set_client (\<lambda>m. m\<lparr>cl_stat := epoll_stat_zero\<rparr>) s))"

definition client_cmd_set_log_level ::
  "'w client cli_app cli_env \<Rightarrow> string list \<Rightarrow> int \<Rightarrow> 'w client app_cli \<Rightarrow> int \<times> 'w client app_cli" where
  "client_cmd_set_log_level e argv argc s =
     set_log_level e argv argc (set_client (\<lambda>m. m\<lparr>cl_stat := epoll_stat_zero\<rparr>) s)"

definition client_command ::
  "'w client cli_app cli_env \<Rightarrow> string \<Rightarrow> string \<Rightarrow> string list \<Rightarrow> int \<Rightarrow> 'w client app_cli
     \<Rightarrow> (int \<times> 'w client app_cli) option" where
  "client_command e f name argv argc s =
     (if f = ''cmd_test'' then Some (cmd_test e name argv argc s)
      else if f = ''cmd_set'' then cmd_set e argv argc s
      else if f = ''cmd_config_int_exit'' then Some (cmd_config_int_exit s)
      else if f = ''cmd_show_epoll_stat'' then Some (client_cmd_show_epoll_stat e s)
      else if f = ''cmd_clean_epoll_stat'' then Some (client_cmd_clean_epoll_stat e s)
      else if f = ''cmd_set_log_level'' then Some (client_cmd_set_log_level e argv argc s)
      else None)"

definition client_env :: "'w client cli_app cli_env \<Rightarrow> 'w client cli_app cli_env" where
  "client_env e =
     e\<lparr>env_command := client_command e, env_auth := (\<lambda>f u p s. (check_auth u p, s)),
       env_enable := (\<lambda>f p s. (check_enable p, s)), env_regular := (\<lambda>f. regular_callback e),
       env_idle := (\<lambda>f. idle_timeout e)\<rparr>"

definition client_child_commands :: "'u cli_def \<Rightarrow> 'u cli_def" where
  "client_child_commands s0 =
     (let s1 = exec_command None ''test'' ''cmd_test'' None s0;
          (show_c, s2) = cli_register_command None ''show'' None PRIVILEGE_UNPRIVILEGED MODE_EXEC None s1;
          s3 = exec_command show_c ''epoll_stat'' ''cmd_show_epoll_stat'' (Some ''Show epoll statistics'') s2;
          s4 = exec_command show_c ''counters'' ''cmd_test'' (Some ''Show the counters that the system uses'') s3;
          (set_cli, s5) = cli_register_command None ''set'' None PRIVILEGE_UNPRIVILEGED MODE_EXEC None s4;
          s6 = exec_command set_cli ''epoll_stat_clean'' ''cmd_clean_epoll_stat'' (Some ''clean epoll statistics'') s5;
          s7 = exec_command set_cli ''log_level'' ''cmd_set_log_level'' (Some ''set log level 1: info, 2: debug'') s6;
          s8 = exec_command set_cli ''counters'' ''cmd_set'' (Some ''set the counters that the system uses'') s7
      in snd (cli_register_command None ''exit'' (Some (App_command ''cmd_config_int_exit'')) PRIVILEGE_PRIVILEGED
           MODE_CONFIG_INT (Some ''Exit from interface configuration'') s8))"

definition client_run_child ::
  "'w client cli_app cli_env \<Rightarrow> bool list \<Rightarrow> int \<Rightarrow> 'w client cli_app \<Rightarrow> 'w client cli_app option" where
  "client_run_child e mem x u = child_session (client_env e) client_child_commands mem x u"

definition client_cli_client_thread ::
  "'w os \<Rightarrow> 'w client cli_app cli_env \<Rightarrow> bool list \<Rightarrow> int \<Rightarrow> 'w client cli_app \<Rightarrow> 'w client cli_app option" where
  "client_cli_client_thread os e mem connect_fd u =
     map_option (\<lambda>u1. u1\<lparr>app_main := (app_main u1)\<lparr>cl_world := os_close os connect_fd (cl_world (app_main u1))\<rparr>\<rparr>)
       (client_run_child e mem connect_fd u)"

definition client_cli_main_thread :: "'w os \<Rightarrow> 'w \<Rightarrow> (int \<times> 'w) option" where
  "client_cli_main_thread os w = cli_main_thread os CLIENT_CLITEST_PORT w"

end
