(* ===== verification/Parse_Returns.thy ===== *)
theory Parse_Returns
  imports Command_Facts
begin

text \<open>
  The search for the commands of a line and the parsing of their options come to an end with a
  result: the rounds allowed to the loops are enough, and no NULL pointer is followed, when the
  options registered are as the library expects them.
\<close>

section \<open>What is expected\<close>

text \<open>
  Options that do not start build mode, and are checked by functions of the application only when
  the check is made without a value.
\<close>

definition safe_optarg :: "cli_optarg \<Rightarrow> bool" where
  "safe_optarg oa \<longleftrightarrow> \<not> has_flag (oa_flags oa) CLI_CMD_ALLOW_BUILDMODE \<and> oa_validator oa \<noteq> Some Unset_validator
     \<and> (has_flag (oa_flags oa) CLI_CMD_SPOT_CHECK \<longrightarrow> (\<exists>g. oa_validator oa = Some (App_validator g)))"

definition safe_command :: "cli_command \<Rightarrow> bool" where
  "safe_command c \<longleftrightarrow> (\<forall>oa \<in> set (c_optargs (cmd_data c)). safe_optarg oa)
     \<and> c_callback (cmd_data c) \<noteq> Some Buildmode_unset"

text \<open>The checking functions leave the commands, the print callback and build mode alone.\<close>

definition frame where
  "frame s = (cli_commands s, cli_print_cb s, cli_buildmode s)"

definition fair_checks :: "'u cli_env \<Rightarrow> bool" where
  "fair_checks e \<longleftrightarrow> (\<forall>g n v s. frame (snd (env_validator e g n v s)) = frame s)
     \<and> (\<forall>g n v s. frame (snd (env_transient e g n v s)) = frame s)"

definition silent :: "'u cli_def \<Rightarrow> bool" where
  "silent s \<longleftrightarrow> cli_print_cb s = None"

lemma frame_silent: "frame s = frame t \<Longrightarrow> silent s = silent t"
  by (simp add: frame_def silent_def)

lemma frame_simps [simp]:
  "frame (s\<lparr>cli_mem := m\<rparr>) = frame s" "frame (s\<lparr>cli_found_optargs := os\<rparr>) = frame s" "frame (cli_reprompt s) = frame s"
  "frame (s\<lparr>cli_pipeline := p\<rparr>) = frame s"
  by (simp_all add: frame_def cli_reprompt_def)

lemma frame_error: "silent s \<Longrightarrow> frame (cli_error e t s) = frame s"
  using cli_error_ctl [of s e t] by (simp add: silent_def frame_def same_ctlD)

lemma frame_alloc: "cli_alloc s = (b, s1) \<Longrightarrow> frame s1 = frame s"
  by (auto simp: cli_alloc_def split: list.splits)

lemma frame_set_value: "cli_set_optarg_value n v m s = (rc, s1) \<Longrightarrow> frame s1 = frame s"
  by (auto simp: cli_set_optarg_value_def Let_def split: if_splits prod.splits bool.splits dest: frame_alloc)

section \<open>One word\<close>

lemma validator_returns:
  assumes "fair_checks e" and "f \<noteq> Unset_validator" and "v \<noteq> None \<or> (\<exists>g. f = App_validator g)"
  shows "\<exists>rc s1. call_validator e f n v s = Some (rc, s1) \<and> frame s1 = frame s"
proof (cases f)
  case Search_flags_validator
  then obtain w where "v = Some w" using assms(3) by auto
  with Search_flags_validator show ?thesis
    by (cases w) (auto simp: call_validator_def cli_search_flags_validator_def)
next
  case (App_validator g)
  then show ?thesis using assms(1) by (auto simp: call_validator_def fair_checks_def) (metis prod.collapse snd_conv)
qed (use assms in simp)

lemma exact_returns:
  assumes "fair_checks e" and "safe_optarg oa"
  shows "\<exists>b s1. exact_match e oa word s = Some (b, s1) \<and> frame s1 = frame s"
proof (cases word)
  case (Some w)
  define flag where "flag = (if has_flag (oa_flags oa) CLI_CMD_OPTIONAL_FLAG then
                 (case oa_validator oa of
                    None \<Rightarrow> Some (oa_name oa = w, s)
                  | Some f \<Rightarrow> do { (rc, t) \<leftarrow> call_validator e f (Some (oa_name oa)) (Some w) s; Some (rc = CLI_OK, t) })
               else Some (False, s))"
  have v: "\<exists>rc s1. call_validator e f (Some (oa_name oa)) (Some w) s = Some (rc, s1) \<and> frame s1 = frame s"
    if "oa_validator oa = Some f" for f
    using validator_returns [OF assms(1), of f "Some w"] assms(2) that by (auto simp: safe_optarg_def)
  obtain b s1 where "flag = Some (b, s1)" "frame s1 = frame s"
  proof (cases "has_flag (oa_flags oa) CLI_CMD_OPTIONAL_FLAG \<and> oa_validator oa \<noteq> None")
    case True
    then obtain f where f: "oa_validator oa = Some f" by auto
    from v [OF f] obtain rc t where "call_validator e f (Some (oa_name oa)) (Some w) s = Some (rc, t)" "frame t = frame s" by blast
    with True f that [of "rc = CLI_OK" t] show thesis by (simp add: flag_def)
  next
    case False
    then have "flag = Some (has_flag (oa_flags oa) CLI_CMD_OPTIONAL_FLAG \<and> oa_name oa = w, s)" by (auto simp: flag_def)
    with that show thesis by blast
  qed
  then show ?thesis unfolding exact_match_def Some option.case flag_def [symmetric] by auto
qed (auto simp: exact_match_def)

lemma scan_returns:
  assumes "fair_checks e" and "\<forall>oa \<in> set os. safe_optarg oa"
  shows "\<exists>sc s1. scan_optargs e word os cands s = Some (sc, s1) \<and> frame s1 = frame s
    \<and> (\<forall>cs. sc = Candidates cs \<longrightarrow> (\<forall>c \<in> set cs. c \<in> set cands \<or> c \<noteq> [] \<and> set c \<subseteq> set os))"
  using assms(2)
proof (induction os arbitrary: cands s)
  case (Cons oa os)
  have IH: "\<exists>sc s1. scan_optargs e word os cs t = Some (sc, s1) \<and> frame s1 = frame t
      \<and> (\<forall>ds. sc = Candidates ds \<longrightarrow> (\<forall>c \<in> set ds. c \<in> set cs \<or> c \<noteq> [] \<and> set c \<subseteq> set os))" for cs t
    using Cons by auto
  define go where "go = (\<lambda>cs t. if has_flag (oa_flags oa) CLI_CMD_ARGUMENT then Some (Candidates cs, t)
                          else scan_optargs e word os cs t)"
  have go: "\<exists>sc s1. go cs t = Some (sc, s1) \<and> frame s1 = frame t
      \<and> (\<forall>ds. sc = Candidates ds \<longrightarrow> (\<forall>c \<in> set ds. c \<in> set cs \<or> c \<noteq> [] \<and> set c \<subseteq> set os))" for cs t
    unfolding go_def using IH [of cs t] by auto
  show ?case
  proof (cases "applies oa s")
    case False
    with IH [of cands s] show ?thesis by fastforce
  next
    case ap: True
    show ?thesis
    proof (cases "has_flag (oa_flags oa) CLI_CMD_SPOT_CHECK \<and> cands = []")
      case True
      then obtain g where g: "oa_validator oa = Some (App_validator g)" using Cons.prems by (auto simp: safe_optarg_def)
      obtain rc s1 where v: "call_validator e (App_validator g) None None s = Some (rc, s1)" "frame s1 = frame s"
        using validator_returns [OF assms(1), of "App_validator g" None None s] by blast
      from go [of cands s1] obtain sc s2 where r: "go cands s1 = Some (sc, s2)" "frame s2 = frame s1"
        "\<forall>ds. sc = Candidates ds \<longrightarrow> (\<forall>c \<in> set ds. c \<in> set cands \<or> c \<noteq> [] \<and> set c \<subseteq> set os)" by blast
      have u: "scan_optargs e word (oa # os) cands s =
          (if rc \<noteq> CLI_OK then Some (Spot_failed rc, cli_reprompt s1) else go cands s1)"
        using ap True g v by (simp add: Let_def go_def)
      show ?thesis unfolding u using r v(2) by (cases "rc \<noteq> CLI_OK") auto
    next
      case False
      obtain b s1 where x: "exact_match e oa word s = Some (b, s1)" "frame s1 = frame s"
        using exact_returns [OF assms(1)] Cons.prems by (metis list.set_intros(1))
      define add where "add = (case word of None \<Rightarrow> True
                       | Some w \<Rightarrow> has_flag (oa_flags oa) CLI_CMD_ARGUMENT \<or> strncaseeq (length w) (oa_name oa) w)"
      define cs where "cs = (if add then cands @ [oa # os] else cands)"
      from go [of cs s1] obtain sc s2 where r: "go cs s1 = Some (sc, s2)" "frame s2 = frame s1"
        "\<forall>ds. sc = Candidates ds \<longrightarrow> (\<forall>c \<in> set ds. c \<in> set cs \<or> c \<noteq> [] \<and> set c \<subseteq> set os)" by blast
      have u: "scan_optargs e word (oa # os) cands s = (if b then Some (Candidates [oa # os], s1) else go cs s1)"
        using ap False x(1) unfolding go_def cs_def add_def by (auto simp: Let_def split: option.split)
      have sub: "c \<in> set cs \<Longrightarrow> c \<in> set cands \<or> c \<noteq> [] \<and> set c \<subseteq> set (oa # os)" for c
        by (auto simp: cs_def split: if_splits)
      show ?thesis
      proof (cases b)
        case True
        then show ?thesis unfolding u using x(2) by auto
      next
        case False
        have "c \<in> set cands \<or> c \<noteq> [] \<and> set c \<subseteq> set (oa # os)" if "sc = Candidates ds" "c \<in> set ds" for ds c
          using r(3) that sub [of c] by auto
        then show ?thesis unfolding u using False r(1,2) x(2) by (intro exI [of _ sc] exI [of _ s2]) simp
      qed
    qed
  qed
qed simp

text \<open>The parts of a stage the parser does not change.\<close>

definition same_stage :: "cli_pipeline_stage \<Rightarrow> cli_pipeline_stage \<Rightarrow> bool" where
  "same_stage st st' \<longleftrightarrow> st_words st' = st_words st \<and> st_num_words st' = st_num_words st \<and> st_command st' = st_command st"

lemma same_stage_simps [simp]:
  "same_stage st st" "same_stage st (stop_with rc i st)" "same_stage st (st\<lparr>st_status := n\<rparr>)"
  "same_stage st (st\<lparr>st_first_unmatched := m\<rparr>)" "same_stage st (st\<lparr>st_found_optargs := fo\<rparr>)" "same_stage st (st\<lparr>st_error_word := w\<rparr>)"
  by (simp_all add: same_stage_def stop_with_def)

lemma same_stage_trans: "same_stage a b \<Longrightarrow> same_stage b c \<Longrightarrow> same_stage a c"
  by (simp add: same_stage_def)

text \<open>A result that keeps the frame and the stage, and goes on only forward with options from \<open>os\<close>.\<close>

definition steps_on :: "nat \<Rightarrow> cli_optarg list \<Rightarrow> 'u parsing \<Rightarrow> round_end \<Rightarrow> 'u parsing \<Rightarrow> bool" where
  "steps_on i os p r p' \<longleftrightarrow> frame (snd (snd p')) = frame (snd (snd p)) \<and> same_stage (fst p) (fst p')
     \<and> (\<forall>j os'. r = Next j os' \<longrightarrow> i < j \<and> set os' \<subseteq> set os)"

lemma record_returns:
  assumes "i < st_num_words st" and "st_num_words st \<le> length (st_words st)" and "val \<noteq> None"
  shows "\<exists>rc msg s1. record_value e oa st i val s = Some ((rc, msg), s1) \<and> frame s1 = frame s"
proof (cases "has_flag (oa_flags oa) CLI_CMD_REMAINDER_OF_LINE")
  case True
  have "join_args (st_num_words st - i) (drop i (st_words st)) \<noteq> None" using assms(1,2) by (simp add: join_args_def)
  then obtain t where t: "join_args (st_num_words st - i) (drop i (st_words st)) = Some t" by auto
  obtain b s1 where a: "cli_alloc s = (b, s1)" by fastforce
  obtain rc s2 where v: "cli_set_optarg_value (oa_name oa) t False s1 = (rc, s2)" by fastforce
  show ?thesis using True t a v frame_alloc [OF a] frame_set_value [OF v] by (cases b) (simp_all add: record_value_def)
next
  case False
  obtain v where v: "val = Some v" using assms(3) by auto
  obtain rc s1 where r: "cli_set_optarg_value (oa_name oa) v (has_flag (oa_flags oa) CLI_CMD_OPTION_MULTIPLE) s = (rc, s1)" by fastforce
  show ?thesis using False v r frame_set_value [OF r] by (simp add: record_value_def)
qed

lemma after_returns:
  assumes "fair_checks e" and "safe_optarg (hd oas)" and "oas \<noteq> []" and "set oas \<subseteq> set os" and "set optarg \<subseteq> set os" and "0 < incr"
  shows "\<exists>r p'. after_value e oas optarg i incr val (st, ch, s) = Some (r, p') \<and> steps_on i os (st, ch, s) r p'"
proof -
  obtain bad s1 where b: "(case oa_transient_mode (hd oas) of None \<Rightarrow> (False, s)
      | Some f \<Rightarrow> (case env_transient e f (oa_name (hd oas)) val s of (rc, t) \<Rightarrow> (rc \<noteq> 0, t))) = (bad, s1)" by fastforce
  have f: "frame s1 = frame s"
  proof (cases "oa_transient_mode (hd oas)")
    case (Some g)
    then have "s1 = snd (env_transient e g (oa_name (hd oas)) val s)" using b by (auto split: prod.splits)
    then show ?thesis using assms(1) by (simp add: fair_checks_def)
  qed (use b in auto)
  have nb: "\<not> has_flag (oa_flags (hd oas)) CLI_CMD_ALLOW_BUILDMODE" using assms(2) by (simp add: safe_optarg_def)
  have "set (tl oas) \<subseteq> set os" using assms(4) by (meson list.set_sel(2) assms(3) subset_iff)
  then show ?thesis using b f nb assms(5,6) unfolding after_value_def
    by (simp add: Let_def steps_on_def)
qed

lemma take_returns:
  assumes "fair_checks e" and "safe_optarg (hd oas)" and "oas \<noteq> []" and "set oas \<subseteq> set os" and "set optarg \<subseteq> set os"
    and "i < st_num_words st" and "st_num_words st \<le> length (st_words st)" and "silent s"
  shows "\<exists>r p'. take_value e oas optarg CHR 0x00 i (st, ch, s) = Some (r, p') \<and> steps_on i os (st, ch, s) r p'"
proof -
  let ?oa = "hd oas"
  define is_arg where "is_arg = has_flag (oa_flags ?oa) CLI_CMD_OPTIONAL_ARGUMENT"
  define val where "val = word_at (st_words st) (if is_arg then Suc i else i)"
  show ?thesis
  proof (cases "is_arg \<and> val = None")
    case True
    then have "take_value e oas optarg CHR 0x00 i (st, ch, s) = Some (Done, stop_with CLI_MISSING_VALUE i st, ch,
        cli_error e (''Optional argument '' @ null_text (word_at (st_words st) i) @ '' requires a value'') s)"
      by (auto simp: take_value_def Let_def is_arg_def val_def)
    then show ?thesis using assms(8) by (simp add: steps_on_def frame_error)
  next
    case False
    have "word_at (st_words st) i \<noteq> None" using assms(6,7) by (simp add: word_at_def)
    then have v: "val \<noteq> None" using False by (auto simp: val_def)
    define chk where "chk = (case oa_validator ?oa of None \<Rightarrow> Some (CLI_OK, s)
        | Some f \<Rightarrow> call_validator e f (Some (oa_name ?oa)) val s)"
    obtain rc s1 where c: "chk = Some (rc, s1)" "frame s1 = frame s"
    proof (cases "oa_validator ?oa")
      case (Some f)
      with validator_returns [OF assms(1), of f val "Some (oa_name ?oa)" s] v assms(2) that show thesis
        by (auto simp: chk_def safe_optarg_def)
    qed (use that in \<open>simp add: chk_def\<close>)
    have sil: "silent s1" using c(2) assms(8) frame_silent by metis
    obtain rc1 msg s2 where r: "record_value e ?oa st i val s1 = Some ((rc1, msg), s2)" "frame s2 = frame s1"
      using record_returns [OF assms(6,7) v] by metis
    have sil2: "silent s2" using r(2) sil frame_silent by metis
    have pos: "0 < (if is_arg then 2 else 1 :: nat)" by simp
    from after_returns [OF assms(1-5) pos, of i val st ch s2] obtain q p' where
      a: "after_value e oas optarg i (if is_arg then 2 else 1) val (st, ch, s2) = Some (q, p')"
      "steps_on i os (st, ch, s2) q p'" by blast
    have u: "take_value e oas optarg CHR 0x00 i (st, ch, s) =
        (if rc \<noteq> CLI_OK then
           Some (Done, stop_with CLI_ERROR i st, ch,
                  cli_reprompt (cli_error e (nl_unless True @ ''Problem parsing command setting ''
                    @ oa_name ?oa @ '' with value '' @ null_text val) s1))
         else if has_flag (oa_flags ?oa) CLI_CMD_DO_NOT_RECORD then Some (Break, st, ch, s1)
         else if rc1 \<noteq> CLI_OK then
           Some (Done, stop_with CLI_ERROR i st, ch, cli_reprompt (cli_error e (nl_unless True @ msg) s2))
         else Some (q, p'))"
      unfolding take_value_def Let_def prod.case is_arg_def [symmetric] val_def [symmetric] chk_def [symmetric]
      using False r(1) a(1) c(1) by auto
    show ?thesis unfolding u using c(2) r(2) sil sil2 a(2)
      by (cases p') (simp add: steps_on_def frame_error)
  qed
qed

lemma round_returns:
  assumes "fair_checks e" and "\<forall>oa \<in> set os. safe_optarg oa" and "silent s" and "st_command st \<noteq> None"
    and "i < st_num_words st" and "st_num_words st \<le> length (st_words st)"
  shows "\<exists>n r p'. optarg_round e os CHR 0x00 i (st, ch, s) = Some ((n, r), p') \<and> steps_on i os (st, ch, s) r p'"
proof -
  obtain sc s1 where sc: "scan_optargs e (word_at (st_words st) i) os [] s = Some (sc, s1)" and f: "frame s1 = frame s"
    and cs: "\<And>cs c. sc = Candidates cs \<Longrightarrow> c \<in> set cs \<Longrightarrow> c \<noteq> [] \<and> set c \<subseteq> set os"
    using scan_returns [OF assms(1,2), of "word_at (st_words st) i" "[]" s] by auto
  have sil: "silent s1" using f assms(3) frame_silent by metis
  show ?thesis
  proof (cases sc)
    case (Spot_failed rc)
    then show ?thesis using sc f by (simp add: optarg_round_def steps_on_def)
  next
    case (Candidates cands)
    consider "cands = []" | "cands \<noteq> []" "1 < length cands" | "cands \<noteq> []" "\<not> 1 < length cands" by blast
    then show ?thesis
    proof cases
      case 1
      then show ?thesis using sc f Candidates by (simp add: optarg_round_def steps_on_def)
    next
      case 2
      then show ?thesis using sc f Candidates assms(4) sil by (auto simp: optarg_round_def steps_on_def frame_error)
    next
      case 3
      have c: "hd cands \<noteq> []" "set (hd cands) \<subseteq> set os" using cs [OF Candidates] 3 by (simp_all add: hd_in_set)
      then have h: "safe_optarg (hd (hd cands))" using assms(2) by (meson hd_in_set subsetD)
      from take_returns [OF assms(1) h c subset_refl assms(5,6) sil] obtain r p' where
        t: "take_value e (hd cands) os CHR 0x00 i (st, ch, s1) = Some (r, p')" "steps_on i os (st, ch, s1) r p'" by blast
      have "optarg_round e os CHR 0x00 i (st, ch, s) = Some ((length cands, r), p')"
        using sc Candidates 3 t(1) by (simp add: optarg_round_def)
      then show ?thesis using t(2) f by (auto simp: steps_on_def)
    qed
  qed
qed

section \<open>All words\<close>

lemma loop_returns:
  assumes "fair_checks e" and "\<forall>oa \<in> set os. safe_optarg oa" and "silent s" and "st_command st \<noteq> None"
    and "st_num_words st \<le> length (st_words st)" and "st_num_words st - i < n"
  shows "\<exists>l st' ch' s'. optarg_loop e n os CHR 0x00 i (st, ch, s) = Some (l, st', ch', s')
    \<and> frame s' = frame s \<and> same_stage st st'"
  using assms(2-)
proof (induction n arbitrary: os i st ch s)
  case 0
  then show ?case by simp
next
  case (Suc n)
  show ?case
  proof (cases "os = [] \<or> st_num_words st \<le> i")
    case True
    then show ?thesis by auto
  next
    case False
    then have i: "i < st_num_words st" by simp
    from round_returns [OF assms(1) Suc.prems(1-3) i Suc.prems(4)] obtain m r st1 ch1 s1 where
      o: "optarg_round e os CHR 0x00 i (st, ch, s) = Some ((m, r), st1, ch1, s1)" "steps_on i os (st, ch, s) r (st1, ch1, s1)"
      by (metis prod_cases3)
    have s1: "frame s1 = frame s" "same_stage st st1" using o(2) by (simp_all add: steps_on_def)
    show ?thesis
    proof (cases r)
      case (Next j os')
      then have j: "i < j" "set os' \<subseteq> set os" using o(2) by (simp_all add: steps_on_def)
      show ?thesis
      proof (cases "1 < m")
        case True
        then show ?thesis using False o(1) Next s1 by simp
      next
        case m: False
        have "\<forall>oa \<in> set os'. safe_optarg oa" using j(2) Suc.prems(1) by blast
        moreover have "silent s1" using s1(1) Suc.prems(2) frame_silent by metis
        moreover have "st_command st1 \<noteq> None" "st_num_words st1 \<le> length (st_words st1)" "st_num_words st1 - j < n"
          using s1(2) Suc.prems j(1) i by (auto simp: same_stage_def)
        ultimately obtain l st' ch' s' where "optarg_loop e n os' CHR 0x00 j (st1, ch1, s1) = Some (l, st', ch', s')"
          "frame s' = frame s1" "same_stage st1 st'"
          using Suc.IH [of os' s1 st1 j ch1] by blast
        then show ?thesis using False o(1) Next m s1 by (auto intro: same_stage_trans)
      qed
    qed (use False o(1) s1 in auto)
  qed
qed

lemma check_required_frame:
  "silent s \<Longrightarrow> check_required e c lc os (st, ch, s) = (st', ch', s') \<Longrightarrow> frame s' = frame s \<and> same_stage st st'"
  by (auto simp: check_required_def frame_error split: if_splits list.splits)

lemma save_found_frame:
  "cli_buildmode s = None \<Longrightarrow> save_found (st, ch, s) = (st', ch', s') \<Longrightarrow> frame s' = frame s \<and> same_stage st st'"
  by (auto simp: save_found_def)

lemma parse_returns:
  assumes "fair_checks e" and "safe_command c" and "silent s" and "cli_buildmode s = None" and "st_command st \<noteq> None"
    and "st_num_words st \<le> length (st_words st)"
  shows "\<exists>st' ch' s'. cli_int_parse_optargs e c CHR 0x00 (st, ch, s) = Some (st', ch', s') \<and> frame s' = frame s \<and> same_stage st st'"
proof -
  let ?st = "st\<lparr>st_error_word := None\<rparr>" and ?s = "s\<lparr>cli_found_optargs := found_here st s\<rparr>"
  have "\<forall>oa \<in> set (c_optargs (cmd_data c)). safe_optarg oa" using assms(2) by (simp add: safe_command_def)
  moreover have "silent ?s" "st_command ?st \<noteq> None" "st_num_words ?st \<le> length (st_words ?st)"
    "st_num_words ?st - st_first_unmatched st < Suc (st_num_words st)"
    using assms by (simp_all add: silent_def)
  ultimately obtain l st1 ch1 s1 where
    l: "optarg_loop e (Suc (st_num_words st)) (c_optargs (cmd_data c)) CHR 0x00 (st_first_unmatched st) (?st, ch, ?s)
      = Some (l, st1, ch1, s1)" and f1: "frame s1 = frame ?s" "same_stage ?st st1"
    using loop_returns [OF assms(1), of "c_optargs (cmd_data c)" ?s ?st "st_first_unmatched st" "Suc (st_num_words st)" ch] by blast
  have g1: "frame s1 = frame s" "same_stage st st1" using f1 by (simp_all add: same_stage_def)
  have sil: "silent s1" using g1(1) assms(3) frame_silent by metis
  obtain st2 ch2 s2 where c2: "(case l of None \<Rightarrow> (st1, ch1, s1) | Some os \<Rightarrow> check_required e c CHR 0x00 os (st1, ch1, s1)) = (st2, ch2, s2)"
    by (metis prod_cases3)
  have f2: "frame s2 = frame s1" "same_stage st1 st2"
    using c2 check_required_frame [OF sil] by (auto split: option.splits)
  have b2: "cli_buildmode s2 = None" using f2(1) g1(1) assms(4) by (simp add: frame_def)
  obtain st3 ch3 s3 where c3: "save_found (st2, ch2, s2) = (st3, ch3, s3)" by (metis prod_cases3)
  from save_found_frame [OF b2 c3] f2 g1 have "frame s3 = frame s" "same_stage st st3" by (auto intro: same_stage_trans)
  with l c2 c3 show ?thesis by (simp add: cli_int_parse_optargs_def)
qed

section \<open>The command\<close>

definition good :: "'u cli_def \<Rightarrow> bool" where
  "good s \<longleftrightarrow> distinct_ids (cli_commands s) \<and> (\<forall>c \<in> set (tree_commands (cli_commands s)). safe_command c)
     \<and> silent s \<and> cli_buildmode s = None"

lemma good_frame: "frame s = frame t \<Longrightarrow> good s = good t"
  by (simp add: good_def frame_def silent_def)

text \<open>A stage with the same words, and a command that is safe when it is a new one.\<close>

definition same_words :: "cli_pipeline_stage \<Rightarrow> cli_pipeline_stage \<Rightarrow> bool" where
  "same_words st st' \<longleftrightarrow> st_words st' = st_words st \<and> st_num_words st' = st_num_words st
     \<and> (st_command st' = st_command st \<or> (\<exists>c. st_command st' = Some c \<and> safe_command c))"

lemma same_words_trans: "same_words a b \<Longrightarrow> same_words b c \<Longrightarrow> same_words a c"
  by (auto simp: same_words_def)

lemma found_returns:
  assumes "fair_checks e" and "good s" and "safe_command c" and "st_num_words st \<le> length (st_words st)"
  shows "\<exists>rc st' s'. found_command e c i st s = Some (rc, st', s') \<and> good s' \<and> same_words st st'"
proof -
  let ?st = "st\<lparr>st_command := Some c, st_first_unmatched := Suc i, st_first_optarg := Suc i\<rparr>"
  have a: "safe_command c" "silent s" "cli_buildmode s = None" "st_command ?st \<noteq> None" "st_num_words ?st \<le> length (st_words ?st)"
    using assms by (simp_all add: good_def)
  from parse_returns [OF assms(1) a, of comphelp_empty] obtain st' ch' s' where
    p: "cli_int_parse_optargs e c CHR 0x00 (?st, comphelp_empty, s) = Some (st', ch', s')" "frame s' = frame s" "same_stage ?st st'"
    by blast
  then show ?thesis using good_frame [OF p(2)] assms(2,3) by (simp add: found_command_def same_words_def same_stage_def)
qed

lemma good_error: "good s \<Longrightarrow> good (cli_error e t s)"
  using frame_error [of s e t] good_frame by (metis good_def)

lemma configmode_other [simp]:
  "cli_print_cb (snd (cli_set_configmode m d s)) = cli_print_cb s" "cli_buildmode (snd (cli_set_configmode m d s)) = cli_buildmode s"
  by (auto simp: cli_set_configmode_def Let_def cli_build_shortest_def cli_set_modestring_def cli_strdup_def cli_alloc_def
      split: option.split list.split)

lemma same_command_safe: "same_command c d \<Longrightarrow> safe_command d = safe_command c"
  by (auto simp: same_command_def safe_command_def)

lemma good_configmode:
  assumes "good s"
  shows "good (snd (cli_set_configmode m d s))"
proof -
  let ?s1 = "snd (cli_set_configmode m d s)"
  have d: "distinct_ids (cli_commands ?s1)" using assms by (auto simp: good_def intro: set_configmode_ids)
  have "safe_command c" if "c \<in> set (tree_commands (cli_commands ?s1))" for c
  proof -
    have "command_at (cmd_id c) ?s1 = Some c" using find_in_tree [OF d that] by (simp add: command_at_def)
    from set_configmode_at [OF this] obtain c0 where c0: "command_at (cmd_id c) s = Some c0" "same_command c0 c" by blast
    from command_at_member [OF c0(1)] assms have "safe_command c0" by (simp add: good_def)
    with c0(2) show ?thesis by (simp add: same_command_safe)
  qed
  with d assms show ?thesis by (simp add: good_def silent_def)
qed

lemma configmode_at:
  assumes "c \<in> set (tree_commands (cli_commands s))"
  shows "command_at (cmd_id c) (snd (cli_set_configmode m d s)) \<noteq> None"
proof -
  have ids: "cmd_id ` set (tree_commands (cli_commands (cli_build_shortest t))) = cmd_id ` set (tree_commands (cli_commands t))" for t :: "'a cli_def"
  proof -
    have "map cmd_id (tree_commands (cli_commands (cli_build_shortest t))) = map cmd_id (tree_commands (cli_commands t))"
      by (simp add: tree_commands_def cli_build_shortest_def map_concat comp_def shortest_ids)
    then show ?thesis by (metis image_set)
  qed
  obtain t where "cli_commands t = cli_commands s"
    "snd (cli_set_configmode m d s) = cli_build_shortest t \<or> snd (cli_set_configmode m d s) = t"
    using set_configmode_cases [of s m d] by blast
  then have "cmd_id ` set (tree_commands (cli_commands (snd (cli_set_configmode m d s)))) = cmd_id ` set (tree_commands (cli_commands s))"
    using ids [of t] by auto
  then have "cmd_id c \<in> cmd_id ` set (tree_commands (cli_commands (snd (cli_set_configmode m d s))))" using assms by blast
  then show ?thesis by (auto simp: command_at_def first_some_None find_command_None tree_commands_def)
qed

lemma locate_returns:
  assumes "fair_checks e" and "good s" and "set cs \<subseteq> set (tree_commands (cli_commands s))"
    and "i < st_num_words st" and "st_num_words st \<le> length (st_words st)" and "st_num_words st - i \<le> n"
  shows "\<exists>rc st' s'. cli_int_locate_command e n type i cs st s = Some (rc, st', s') \<and> good s' \<and> same_words st st'"
  using assms(2-)
proof (induction n arbitrary: i cs st s)
  case 0
  then show ?case by simp
next
  case (Suc n)
  define tk where "tk = (\<lambda>c u. (let d = cmd_data c in
        if cmd_children c = [] then
          (if c_callback d = None \<and> c_filter d = None
           then Some (CLI_ERROR, st, cli_error e (''No callback for '' @ quoted (c_full_command_name d)) u)
           else found_command e c i st u)
        else if Suc i = st_num_words st then
          (if c_callback d \<noteq> None then found_command e c i st u else Some (CLI_ERROR, st, cli_error e ''Incomplete command'' u))
        else do {
          (rc, st1, u1) \<leftarrow> cli_int_locate_command e n type (Suc i) (cmd_children c) st u;
          if rc \<noteq> CLI_ERROR_ARG then Some (rc, st1, u1)
          else if c_callback d \<noteq> None then found_command e c i st1 u1
          else Some (CLI_ERROR, st1, cli_error e (''Invalid command '' @
              quoted (c_full_command_name d @ '' '' @ null_text (word_at (st_words st1) (Suc i)))) u1)
        }))"
  have tk: "\<exists>rc st' s'. tk c u = Some (rc, st', s') \<and> good s' \<and> same_words st st'"
    if g: "good u" and m: "c \<in> set (tree_commands (cli_commands u))" for c u
  proof -
    have refl: "same_words st st" by (simp add: same_words_def)
    have sf: "safe_command c" using g m by (simp add: good_def)
    obtain rc st' s' where fc: "found_command e c i st u = Some (rc, st', s')" "good s'" "same_words st st'"
      using found_returns [OF assms(1) g sf Suc.prems(4)] by blast
    show ?thesis
    proof (cases "cmd_children c = [] \<or> Suc i = st_num_words st")
      case True
      then show ?thesis using fc good_error [OF g] refl by (auto simp: tk_def Let_def)
    next
      case False
      then have b: "Suc i < st_num_words st" "st_num_words st - Suc i \<le> n" using Suc.prems(3,5) by auto
      from Suc.IH [OF g tree_commands_children [OF m] b(1) Suc.prems(4) b(2)] obtain rc1 st1 u1 where
        l: "cli_int_locate_command e n type (Suc i) (cmd_children c) st u = Some (rc1, st1, u1)" "good u1" "same_words st st1" by blast
      have "st_num_words st1 \<le> length (st_words st1)" using l(3) Suc.prems(4) by (simp add: same_words_def)
      from found_returns [OF assms(1) l(2) sf this, of i] obtain rc2 st2 u2 where
        f2: "found_command e c i st1 u1 = Some (rc2, st2, u2)" "good u2" "same_words st1 st2" by blast
      have "same_words st st2" using l(3) f2(3) by (rule same_words_trans)
      then show ?thesis using False l f2 good_error [OF l(2)] by (auto simp: tk_def Let_def)
    qed
  qed
  obtain w where w: "word_at (st_words st) i = Some w" using Suc.prems(3,4) by (simp add: word_at_def)
  let ?p = "pick_command (cli_mode s) (cli_privilege s) type w cs None None"
  have pick: "c \<in> set (tree_commands (cli_commands s))" if "?p \<in> {Taken c, Again_any c, Again_config c}" for c
  proof -
    have "c \<in> set cs" using that by (rule pick_command_member) auto
    then show ?thesis using Suc.prems(2) by blast
  qed
  have run: "cli_int_locate_command e (Suc n) type i cs st s = (case ?p of Taken c \<Rightarrow> tk c s | Again_any c \<Rightarrow> tk c s
      | Again_config c \<Rightarrow> (let s1 = snd (cli_set_configmode MODE_CONFIG None s)
                           in do { c1 \<leftarrow> command_at (cmd_id c) s1; tk c1 s1 })
      | No_match \<Rightarrow> Some (CLI_ERROR_ARG, st, if i = 0 then cli_error e (''Invalid command '' @ quoted w) s else s))"
    unfolding tk_def using w by simp
  show ?case
  proof (cases ?p)
    case (Taken c)
    then show ?thesis using run tk [OF Suc.prems(1)] pick [of c] by simp
  next
    case (Again_any c)
    then show ?thesis using run tk [OF Suc.prems(1)] pick [of c] by simp
  next
    case (Again_config c)
    let ?s1 = "snd (cli_set_configmode MODE_CONFIG None s)"
    obtain c1 where c1: "command_at (cmd_id c) ?s1 = Some c1" using configmode_at [of c s] pick [of c] Again_config by auto
    from tk [OF good_configmode [OF Suc.prems(1)] command_at_member [OF c1, THEN conjunct1]]
    show ?thesis using run Again_config c1 by simp
  next
    case No_match
    then show ?thesis using run Suc.prems(1) good_error [OF Suc.prems(1)] by (simp add: same_words_def)
  qed
qed

section \<open>The stages\<close>

definition words_there :: "cli_pipeline_stage \<Rightarrow> bool" where
  "words_there st \<longleftrightarrow> st_num_words st \<le> length (st_words st)"

lemma stage_returns:
  assumes "fair_checks e" and "good s" and "st_num_words st \<noteq> 0" and "words_there st"
  shows "\<exists>rc st' s'. validate_stage e i st s = Some (rc, st', s') \<and> good s' \<and> same_words st st'"
proof -
  let ?s = "s\<lparr>cli_found_optargs := []\<rparr>"
  have b: "cli_buildmode s = None" using assms(2) by (simp add: good_def)
  have "good ?s" using assms(2) good_frame [of ?s s] by simp
  moreover have "set (cli_commands ?s) \<subseteq> set (tree_commands (cli_commands ?s))" using tree_commands_self by blast
  ultimately obtain rc st1 s1 where l: "cli_int_locate_command e (st_num_words st) (stage_type i s) 0 (cli_commands s) st ?s = Some (rc, st1, s1)"
    "good s1" "same_words st st1"
    using locate_returns [OF assms(1), of ?s "cli_commands ?s" 0 st "st_num_words st" "stage_type i s"] assms(3,4)
    by (auto simp: words_there_def)
  have "cli_buildmode s1 = None" using l(2) by (simp add: good_def)
  with l b show ?thesis by (simp add: validate_stage_def same_words_def)
qed

lemma stages_return:
  assumes "fair_checks e" and "good s" and "\<forall>st \<in> set (pl_stages p). words_there st" and "n \<le> length (pl_stages p)"
  shows "\<exists>rc p' s'. validate_stages e n p s = Some (rc, p', s') \<and> good s'"
  using assms(2-)
proof (induction n arbitrary: p s)
  case 0
  then show ?case using good_frame [of "s\<lparr>cli_pipeline := None\<rparr>" s] by simp
next
  case (Suc n)
  let ?i = "length (pl_stages p) - Suc n"
  let ?st = "pl_stages p ! ?i" and ?p0 = "p\<lparr>pl_current_stage := Some ?i\<rparr>"
  show ?case
  proof (cases "st_num_words ?st = 0")
    case True
    then show ?thesis using good_error [OF Suc.prems(1)] by (simp add: Let_def)
  next
    case False
    have i: "?i < length (pl_stages p)" using Suc.prems(3) by simp
    have g: "good (s\<lparr>cli_pipeline := Some ?p0\<rparr>)" using Suc.prems(1) good_frame [of "s\<lparr>cli_pipeline := Some ?p0\<rparr>" s] by simp
    have w: "words_there ?st" using i Suc.prems(2) by simp
    from stage_returns [OF assms(1) g False w] obtain rc st1 s1 where
      v: "validate_stage e ?i ?st (s\<lparr>cli_pipeline := Some ?p0\<rparr>) = Some (rc, st1, s1)" "good s1" "same_words ?st st1" by blast
    let ?p1 = "?p0\<lparr>pl_stages := (pl_stages ?p0)[?i := st1]\<rparr>"
    have "words_there st1" using w v(3) by (simp add: words_there_def same_words_def)
    then have "\<forall>st \<in> set (pl_stages ?p1). words_there st" using Suc.prems(2) by (auto dest: set_update_subset_insert [THEN subsetD])
    from Suc.IH [OF v(2) this] Suc.prems(3) obtain rc' p' s' where "validate_stages e n ?p1 s1 = Some (rc', p', s')" "good s'" by auto
    moreover have "good (s1\<lparr>cli_pipeline := None\<rparr>)" using v(2) good_frame [of "s1\<lparr>cli_pipeline := None\<rparr>" s1] by simp
    ultimately show ?thesis using False v(1) by (simp add: Let_def)
  qed
qed

lemma split_stages_head: "\<exists>n rest. split_stages ws = (ws, n) # rest"
  by (induction ws) auto

lemma split_stages_there: "\<forall>(ws, n) \<in> set (split_stages words). n \<le> length ws"
proof (induction words)
  case (Cons w ws)
  obtain n rest where "split_stages ws = (ws, n) # rest" using split_stages_head by blast
  with Cons show ?case by auto
qed simp

lemma generate_there:
  "cli_int_generate_pipeline e line s = (Some p, s1) \<Longrightarrow> (\<forall>st \<in> set (pl_stages p). words_there st)"
proof -
  assume g: "cli_int_generate_pipeline e line s = (Some p, s1)"
  have "pl_stages p = map (\<lambda>(i, q). new_stage i q) (enumerate 0 (split_stages (pl_words p)))"
    using g by (auto simp: cli_int_generate_pipeline_def Let_def split: prod.splits bool.splits if_splits)
  moreover have "q \<in> set (split_stages (pl_words p))" if "(i, q) \<in> set (enumerate 0 (split_stages (pl_words p)))" for i q
    using that by (metis imageI map_snd_enumerate list.set_map snd_conv)
  ultimately show ?thesis using split_stages_there [of "pl_words p"]
    by (fastforce simp: words_there_def new_stage_def)
qed

lemma allocs_frame: "cli_allocs n s = (b, s1) \<Longrightarrow> frame s1 = frame s"
  by (induction n arbitrary: s) (auto split: prod.splits bool.splits dest: frame_alloc)

lemma generate_good:
  assumes "good s" and "cli_int_generate_pipeline e line s = (q, s1)"
  shows "good s1"
proof -
  have "cli_buildmode s = None" using assms(1) by (simp add: good_def)
  then have "frame s1 = frame s"
    using assms(2) by (auto simp: cli_int_generate_pipeline_def Let_def frame_def split: prod.splits bool.splits if_splits
        dest!: frame_alloc allocs_frame)
  then show ?thesis using assms(1) good_frame by blast
qed

lemma validate_returns:
  assumes "fair_checks e" and "good s" and "\<forall>st \<in> set (pl_stages p). words_there st"
  shows "\<exists>rc p' s'. cli_int_validate_pipeline e p s = Some (rc, p', s') \<and> good s'"
proof -
  let ?s = "s\<lparr>cli_pipeline := Some p, cli_found_optargs := []\<rparr>"
  have g: "good ?s" using assms(2) good_frame [of ?s s] by simp
  then show ?thesis using stages_return [OF assms(1) g assms(3) order_refl] by (simp add: cli_int_validate_pipeline_def Let_def)
qed

section \<open>A line without filters\<close>

lemma single_stage:
  assumes "list_all (\<lambda>w. \<not> is_pipe w) ws"
  shows "split_stages ws = [(ws, length ws)]"
  using assms by (induction ws) auto

lemma call_returns:
  assumes "\<forall>g name argv argc s. env_command e g name argv argc s \<noteq> None" and "f \<noteq> Buildmode_unset"
  shows "call_command e f name argv argc s \<noteq> None"
  using assms by (cases f) (simp_all add: call_command_def)

lemma run_stage_returns:
  assumes "\<forall>g name argv argc s. env_command e g name argv argc s \<noteq> None"
    and "st_command (pl_stages p ! 0) = Some c" and "safe_command c" and "c_command_type (cmd_data c) \<noteq> CLI_BUILDMODE_COMMAND"
  shows "run_stage e p s \<noteq> None"
proof (cases "c_callback (cmd_data c)")
  case (Some f)
  then have "f \<noteq> Buildmode_unset" using assms(3) by (auto simp: safe_command_def)
  note r = call_returns [OF assms(1) this]
  show ?thesis using assms(2,4) Some r by (auto simp: run_stage_def Let_def bind_eq_None_conv split: prod.splits)
qed (use assms(2) in \<open>simp add: run_stage_def Let_def\<close>)

lemma run_returns:
  assumes "fair_checks e" and "\<forall>g name argv argc s. env_command e g name argv argc s \<noteq> None" and "good s"
    and "list_all (\<lambda>w. \<not> is_pipe w) (cli_parse_line (dropWhile is_space line) CLI_MAX_LINE_WORDS)"
  shows "cli_run_command e line s \<noteq> None"
proof -
  obtain q s1 where g: "cli_int_generate_pipeline e line s = (q, s1)" by fastforce
  show ?thesis
  proof (cases q)
    case None
    with g show ?thesis by (simp add: cli_run_command_def)
  next
    case (Some p)
    note there = generate_there [OF g [unfolded Some]]
    have g1: "good s1" using generate_good [OF assms(3) g] .
    from validate_returns [OF assms(1) g1 there] obtain rc p' s' where
      v: "cli_int_validate_pipeline e p s1 = Some (rc, p', s')" by blast
    show ?thesis
    proof (cases "rc = CLI_OK")
      case False
      with g Some v show ?thesis by (simp add: cli_run_command_def)
    next
      case ok: True
      have w: "pl_words p = cli_parse_line (dropWhile is_space line) CLI_MAX_LINE_WORDS \<or> pl_words p = []"
        and st: "pl_stages p = map (\<lambda>(i, q). new_stage i q) (enumerate 0 (split_stages (pl_words p)))"
        using g Some by (auto simp: cli_int_generate_pipeline_def Let_def split: prod.splits bool.splits if_splits)
      let ?st = "new_stage 0 (pl_words p, length (pl_words p))"
      have one: "pl_stages p = [?st]" using st single_stage [of "pl_words p"] assms(4) w by auto
      define s0 where "s0 = s1\<lparr>cli_found_optargs := [], cli_pipeline := Some (p\<lparr>pl_current_stage := Some 0\<rparr>)\<rparr>"
      have g0: "good s0" using g1 good_frame [of s0 s1] by (simp add: s0_def)
      have ne: "CLI_ERROR \<noteq> CLI_OK" by (simp add: cli_codes)
      then have nw: "pl_words p \<noteq> []" using v ok by (auto simp: cli_int_validate_pipeline_def Let_def)
      have w0: "st_num_words ?st \<noteq> 0" "words_there ?st" using nw by (simp_all add: new_stage_def words_there_def)
      from stage_returns [OF assms(1) g0 w0] obtain rc1 st1 s2 where
        sr: "validate_stage e 0 ?st s0 = Some (rc1, st1, s2)" "same_words ?st st1" by blast
      have rc1: "rc1 = CLI_OK" and p': "pl_stages p' = [st1]"
        using v ok nw one sr(1) w0 by (auto simp: cli_int_validate_pipeline_def Let_def s0_def split: if_splits)
      have b0: "cli_buildmode s0 = None" using g0 by (simp add: good_def)
      obtain st2 s3 where loc: "cli_int_locate_command e (st_num_words ?st) CLI_REGULAR_COMMAND 0 (cli_commands s0) ?st
          (s0\<lparr>cli_found_optargs := []\<rparr>) = Some (CLI_OK, st2, s3)"
        "st_command st1 = st_command st2"
        using sr(1) rc1 b0 by (auto simp: validate_stage_def stage_type_def Option.bind_eq_Some_conv split: option.splits)
      obtain c where c: "st_command st1 = Some c" "c_command_type (cmd_data c) = CLI_REGULAR_COMMAND"
        using locate_allowed [of e _ _ _ _ _ "s0\<lparr>cli_found_optargs := []\<rparr>", OF loc(1)] loc(2) g0 tree_commands_self by (auto simp: good_def allowed_def)
      have "safe_command c" using sr(2) c(1) by (auto simp: same_words_def new_stage_def)
      then have r: "run_stage e p' u \<noteq> None" for u using run_stage_returns [OF assms(2), of p' c u] p' c by simp
      have "cli_int_execute_pipeline e p' s' \<noteq> None"
        using r p' by (auto simp: cli_int_execute_pipeline_def bind_eq_None_conv split: prod.splits)
      with g Some v ok show ?thesis by (simp add: cli_run_command_def)
    qed
  qed
qed

end
