(* ===== verification/Pipelines.thy ===== *)
theory Pipelines
  imports Filter_Facts Commandline
begin

text \<open>The properties of a command whose output goes through a filter.\<close>

section \<open>A command and a filter\<close>

text \<open>The command \<open>g\<close> of the application prints the lines \<open>ls\<close>.\<close>

definition prints :: "'u cli_env \<Rightarrow> string \<Rightarrow> string list \<Rightarrow> bool" where
  "prints e g ls \<longleftrightarrow> (\<forall>name argv argc s. env_command e g name argv argc s = Some (CLI_OK, cli_print_fn e ls s))"

text \<open>A pipeline of this command and a filter with the function \<open>f\<close>.\<close>

definition piped :: "string \<Rightarrow> filter_fn \<Rightarrow> cli_pipeline_stage \<Rightarrow> cli_pipeline \<Rightarrow> bool" where
  "piped g f flt p \<longleftrightarrow> (\<exists>st c d. pl_stages p = [st, flt] \<and> st_command st = Some c
     \<and> c_callback (cmd_data c) = Some (App_command g) \<and> c_command_type (cmd_data c) = CLI_REGULAR_COMMAND
     \<and> st_command flt = Some d \<and> c_init (cmd_data d) = Some f)"

lemma execute_piped:
  assumes "prints e g ls" and "\<forall>l \<in> set ls. one_line l" and "piped g f flt p" and "ready s"
    and "call_init e f (int (st_num_words flt)) \<lparr>fl_filter = None, fl_data = No_state\<rparr>
      (s\<lparr>cli_filters := [], cli_pipeline := Some (p\<lparr>pl_current_stage := Some 1\<rparr>), cli_found_optargs := st_found_optargs flt\<rparr>)
      = Some ((CLI_OK, filt), s\<lparr>cli_filters := [], cli_pipeline := Some (p\<lparr>pl_current_stage := Some 1\<rparr>),
          cli_found_optargs := st_found_optargs flt\<rparr>)"
    and "filter_text e ls [filt] = (ks, [filt'])"
  shows "\<exists>s'. cli_int_execute_pipeline e p s = Some (CLI_OK, s') \<and> cli_filters s' = [] \<and> cli_pipeline s' = None
    \<and> cli_out s' = cli_out s @ as_lines ks
        @ (case (fl_filter filt', fl_data filt') of (Some Count_filter, Count_state n) \<Rightarrow> dec_int n @ crlf | _ \<Rightarrow> [])"
proof -
  obtain st c d where p: "pl_stages p = [st, flt]" "st_command st = Some c"
     "c_callback (cmd_data c) = Some (App_command g)" "c_command_type (cmd_data c) = CLI_REGULAR_COMMAND"
     "st_command flt = Some d" "c_init (cmd_data d) = Some f"
    using assms(3) unfolding piped_def by blast
  define s1 where "s1 = s\<lparr>cli_filters := [filt], cli_pipeline := Some (p\<lparr>pl_current_stage := Some 1\<rparr>),
      cli_found_optargs := st_found_optargs flt\<rparr>"
  have mem: "cli_mem s = []" using assms(4) by (simp add: ready_def)
  have i: "init_filters e p [1] (s\<lparr>cli_filters := [], cli_pipeline := Some p\<rparr>) = Some (CLI_OK, s1)"
    using assms(5) mem p by (simp add: s1_def)
  have u: "[1..<length (pl_stages p)] = [1]" by (simp add: p(1))
  define s2 where "s2 = s1\<lparr>cli_pipeline := Some (p\<lparr>pl_current_stage := Some 0\<rparr>), cli_found_optargs := st_found_optargs st\<rparr>"
  have r: "run_stage e p s1 = Some (CLI_OK, cli_print_fn e ls s2)"
    using run_stage_app [OF p(2-4), of p e s1] assms(1) p(1) by (simp add: s2_def prints_def)
  have "ready s2" "cli_filters s2 = [filt]" "cli_out s2 = cli_out s" using assms(4) by (simp_all add: s2_def s1_def)
  from cli_prints_ready [OF this(1) assms(2), of e] assms(6) this
  have t: "ready (cli_print_fn e ls s2)" "cli_filters (cli_print_fn e ls s2) = [filt']"
    "cli_out (cli_print_fn e ls s2) = cli_out s @ as_lines ks" by simp_all
  show ?thesis
    using i r t unfolding cli_int_execute_pipeline_def u
    by (auto simp: end_filters_def filter_end_def client_write_def ready_def split: option.splits filter_fn.splits filter_state.splits)
qed

text \<open>C21: A command piped into \<open>count\<close> prints one number, the number of its lines that are not blank, and
nothing else; afterwards the session has no filters.\<close>

theorem count_pipeline:
  assumes "prints e g ls" and "\<forall>l \<in> set ls. one_line l" and "piped g Count_filter flt p" and "ready s" and "st_num_words flt = 1"
  shows "\<exists>s'. cli_int_execute_pipeline e p s = Some (CLI_OK, s') \<and> cli_filters s' = []
    \<and> cli_out s' = cli_out s @ dec_int (int (length (filter (\<lambda>l. \<not> blank l) ls))) @ crlf"
proof -
  let ?s = "s\<lparr>cli_filters := [], cli_pipeline := Some (p\<lparr>pl_current_stage := Some 1\<rparr>), cli_found_optargs := st_found_optargs flt\<rparr>"
  have "cli_mem s = []" using assms(4) by (simp add: ready_def)
  then have i: "call_init e Count_filter (int (st_num_words flt)) \<lparr>fl_filter = None, fl_data = No_state\<rparr> ?s
      = Some ((CLI_OK, count_of 0), ?s)"
    using assms(5) by (simp add: call_init_def cli_count_filter_init_def count_of_def)
  from execute_piped [OF assms(1-4) i count_text] show ?thesis by (auto simp: count_of_def)
qed

text \<open>The session and the pipelines of the witnesses.\<close>

lemma print_same_env:
  assumes "env_regexec e = env_regexec e'" and "env_regex_bytes e = env_regex_bytes e'" and "env_print e = env_print e'"
  shows "cli_print_fn e = cli_print_fn e'"
proof -
  have m: "cli_match_filter e = cli_match_filter e'" using assms by (intro ext) (simp add: cli_match_filter_def split: filter_state.split match_state.split)
  then have "filter_line e = filter_line e'" by (intro ext) (simp add: filter_line_def split: option.split filter_fn.split)
  then have f: "filter_chain e l fs = filter_chain e' l fs" for l fs
    by (induction fs) (auto split: prod.split)
  have "emit_line e = emit_line e'" using assms(3) by (intro ext) (simp add: emit_line_def split: option.split)
  then have l: "print_line e = print_line e'" by (intro ext) (simp add: print_line_def f Let_def split: prod.split)
  have "print_lines e b1 b2 acc cs s = print_lines e' b1 b2 acc cs s" for b1 b2 acc cs and s :: "'a cli_def"
    by (induction cs arbitrary: acc s) (simp_all add: l)
  then have "print_lines e = print_lines e'" by (intro ext)
  then have "cli_print e = cli_print e'" by (intro ext) (simp only: cli_print_def print_mode_def)
  then show ?thesis by (intro ext) (simp add: cli_print_fn_def)
qed

definition demo_text :: "string list" where
  "demo_text = [''eth0 up'', '''', ''tap0 down'']"

definition print_env :: "unit cli_env" where
  "print_env = demo_env\<lparr>env_command := (\<lambda>f name argv argc s. Some (CLI_OK, cli_print_fn demo_env demo_text s))\<rparr>"

lemma demo_prints: "prints print_env g demo_text"
  using print_same_env [of print_env demo_env] by (simp add: prints_def print_env_def)

lemma demo_lines: "\<forall>l \<in> set demo_text. one_line l"
  by (simp add: demo_text_def one_line_def)

definition demo_stage :: "string list \<Rightarrow> optarg_pairs \<Rightarrow> filter_fn \<Rightarrow> cli_pipeline_stage" where
  "demo_stage ws found f = (new_stage 1 (ws, length ws))\<lparr>st_found_optargs := found,
     st_command := Some (Cli_Command 1 ((new_command (hd ws) CLI_FILTER_COMMAND 0 0 None)\<lparr>c_init := Some f\<rparr>) [])\<rparr>"

definition demo_pipeline :: "cli_pipeline_stage \<Rightarrow> cli_pipeline" where
  "demo_pipeline flt = \<lparr>pl_cmdline = [], pl_words = [],
     pl_stages = [(new_stage 0 ([''show''], 1))\<lparr>st_command := Some (Cli_Command 0
       ((new_command ''show'' CLI_REGULAR_COMMAND 0 0 None)\<lparr>c_callback := Some (App_command ''cmd_show'')\<rparr>) [])\<rparr>, flt],
     pl_current_stage = None\<rparr>"

lemma demo_piped: "piped ''cmd_show'' f (demo_stage ws found f) (demo_pipeline (demo_stage ws found f))"
  by (simp add: piped_def demo_pipeline_def demo_stage_def new_command_def)

definition open_session :: "unit cli_def" where
  "open_session = (cli_zero [] ())\<lparr>cli_client := True\<rparr>"

lemma open_ready: "ready open_session"
  by (simp add: ready_def open_session_def cli_zero_def)

theorem count_pipeline_witness:
  "\<exists>s'. cli_int_execute_pipeline print_env (demo_pipeline (demo_stage [''count''] [] Count_filter)) open_session = Some (CLI_OK, s')
     \<and> cli_out s' = dec_int 2 @ crlf"
proof -
  have n: "st_num_words (demo_stage [''count''] [] Count_filter) = 1" by (simp add: demo_stage_def new_stage_def)
  have o: "cli_out open_session = []" by (simp add: open_session_def cli_zero_def)
  have c: "int (length (filter (\<lambda>l. \<not> blank l) demo_text)) = 2" by (simp add: demo_text_def blank_def is_space_def)
  from count_pipeline [OF demo_prints demo_lines demo_piped open_ready n] show ?thesis unfolding o c by auto
qed

definition first_word :: "cli_pipeline_stage \<Rightarrow> string option" where
  "first_word st = word_at (st_words st) 0"

text \<open>C15: A command piped into \<open>include\<close> prints the lines that contain the text, in order, and one piped into
\<open>exclude\<close> the others: together they print every line once.\<close>

theorem match_pipeline:
  assumes "prints e g ls" and "\<forall>l \<in> set ls. one_line l" and "piped g Match_filter flt p" and "ready s"
    and "first_word flt = Some (if invert then ''exclude'' else ''include'')"
    and "map_option snd (get_pair 0 (st_found_optargs flt) ''search_pattern'' None) = Some pat"
  shows "\<exists>s'. cli_int_execute_pipeline e p s = Some (CLI_OK, s') \<and> cli_filters s' = []
    \<and> cli_out s' = cli_out s @ as_lines (filter (\<lambda>l. strstr l pat \<noteq> invert) ls)"
proof -
  let ?s = "s\<lparr>cli_filters := [], cli_pipeline := Some (p\<lparr>pl_current_stage := Some 1\<rparr>), cli_found_optargs := st_found_optargs flt\<rparr>"
  have m: "cli_mem s = []" using assms(4) by (simp add: ready_def)
  have w: "word_at (current_words ?s) 0 = Some (if invert then ''exclude'' else ''include'')"
    using assms(3,5) by (auto simp: current_words_def piped_def first_word_def)
  obtain i where v: "get_pair 0 (st_found_optargs flt) ''search_pattern'' None = Some (i, pat)" using assms(6) by auto
  have i: "call_init e Match_filter (int (st_num_words flt)) \<lparr>fl_filter = None, fl_data = No_state\<rparr> ?s
      = Some ((CLI_OK, match_of invert pat), ?s)"
    using m w v by (cases invert) (simp_all add: call_init_def cli_match_filter_init_def match_of_def cli_get_optarg_value_def)
  from execute_piped [OF assms(1-4) i match_text] show ?thesis by (auto simp: match_of_def)
qed

theorem match_pipeline_witness:
  "\<exists>s'. cli_int_execute_pipeline print_env
       (demo_pipeline (demo_stage [''include'', ''up''] [(''search_pattern'', ''up'')] Match_filter)) open_session = Some (CLI_OK, s')
     \<and> cli_out s' = ''eth0 up'' @ crlf"
proof -
  let ?flt = "demo_stage [''include'', ''up''] [(''search_pattern'', ''up'')] Match_filter"
  have w: "first_word ?flt = Some (if False then ''exclude'' else ''include'')"
    by (simp add: demo_stage_def new_stage_def first_word_def word_at_def)
  have v: "map_option snd (get_pair 0 (st_found_optargs ?flt) ''search_pattern'' None) = Some ''up''"
    by (simp add: demo_stage_def strcaseeq_def)
  have o: "cli_out open_session = []" by (simp add: open_session_def cli_zero_def)
  have f: "filter (\<lambda>l. strstr l ''up'' \<noteq> False) demo_text = [''eth0 up'']" by (simp add: demo_text_def)
  from match_pipeline [OF demo_prints demo_lines demo_piped open_ready w v] show ?thesis unfolding o f by auto
qed

lemma range_text_state:
  "\<exists>ks on'. filter_text e ls [range_of on from until] = (ks, [range_of on' from until])"
proof (induction ls arbitrary: on)
  case (Cons l ls)
  let ?on1 = "(on \<or> strstr l from) \<and> (case until of None \<Rightarrow> True | Some t \<Rightarrow> \<not> strstr l t)"
  have "filter_chain e l [range_of on from until] = (on \<or> strstr l from, [range_of ?on1 from until])"
    by (cases until) (auto simp: filter_line_def cli_range_filter_def range_of_def cli_codes Let_def)
  with Cons [of ?on1] show ?case by auto
qed auto

text \<open>A command piped into \<open>begin\<close> prints its lines from the first that contains the text on; one piped into
\<open>between\<close> prints the stretches from a line with the first text up to the next line with the second.\<close>

theorem range_pipeline:
  assumes "prints e g ls" and "\<forall>l \<in> set ls. one_line l" and "piped g Range_filter flt p" and "ready s"
    and "map_option snd (get_pair 0 (st_found_optargs flt) ''range_start'' None) = Some from"
    and "until = map_option snd (get_pair 0 (st_found_optargs flt) ''range_end'' None)"
  shows "\<exists>s'. cli_int_execute_pipeline e p s = Some (CLI_OK, s') \<and> cli_filters s' = []
    \<and> cli_out s' = cli_out s @ as_lines (case until of None \<Rightarrow> dropWhile (\<lambda>l. \<not> strstr l from) ls
        | Some t \<Rightarrow> between from t False ls)"
proof -
  let ?s = "s\<lparr>cli_filters := [], cli_pipeline := Some (p\<lparr>pl_current_stage := Some 1\<rparr>), cli_found_optargs := st_found_optargs flt\<rparr>"
  have m: "cli_mem s = []" using assms(4) by (simp add: ready_def)
  obtain i where v: "get_pair 0 (st_found_optargs flt) ''range_start'' None = Some (i, from)" using assms(5) by auto
  have i: "call_init e Range_filter (int (st_num_words flt)) \<lparr>fl_filter = None, fl_data = No_state\<rparr> ?s
      = Some ((CLI_OK, range_of False from until), ?s)"
    using m v assms(6) by (simp add: call_init_def cli_range_filter_init_def range_of_def cli_get_optarg_value_def)
  obtain ks on where t: "filter_text e ls [range_of False from until] = (ks, [range_of on from until])"
    using range_text_state by blast
  have "ks = (case until of None \<Rightarrow> dropWhile (\<lambda>l. \<not> strstr l from) ls | Some t \<Rightarrow> between from t False ls)"
    using t begin_text [of e ls False "from"] between_text [of e ls False "from"]
    by (cases until) (auto dest: arg_cong [where f = fst])
  with execute_piped [OF assms(1-4) i t] show ?thesis by (auto simp: range_of_def)
qed

theorem range_pipeline_witness:
  "\<exists>s'. cli_int_execute_pipeline print_env
       (demo_pipeline (demo_stage [''begin'', ''tap''] [(''range_start'', ''tap'')] Range_filter)) open_session = Some (CLI_OK, s')
     \<and> cli_out s' = ''tap0 down'' @ crlf"
proof -
  let ?flt = "demo_stage [''begin'', ''tap''] [(''range_start'', ''tap'')] Range_filter"
  have v: "map_option snd (get_pair 0 (st_found_optargs ?flt) ''range_start'' None) = Some ''tap''"
    and u: "None = map_option snd (get_pair 0 (st_found_optargs ?flt) ''range_end'' None)"
    by (simp_all add: demo_stage_def strcaseeq_def to_lower_def)
  have o: "cli_out open_session = []" by (simp add: open_session_def cli_zero_def)
  have f: "dropWhile (\<lambda>l. \<not> strstr l ''tap'') demo_text = [''tap0 down'']" by (simp add: demo_text_def)
  from range_pipeline [OF demo_prints demo_lines demo_piped open_ready v u] show ?thesis
    unfolding o option.case f by auto
qed

end
