(* ===== verification/Tables.thy ===== *)
theory Tables
  imports Statistics Fdb Demo_Os
begin

text \<open>The properties of the tables the program keeps, and of the tests of addresses.\<close>

section \<open>The hash table\<close>

text \<open>The hash table is a map. With memory and room, adding an element under a new key returns, whether
or not the buckets are doubled on the way; afterwards that element is found under its key, every
other key finds what it found before, and the table is well formed.\<close>

theorem hash_add_is_update:
  assumes "mem_ok m" and "ut_inv h" and "ut_room 1 h" and "hash_find h k = None"
  shows "\<exists>h' w'. hash_add m k v h w = Some (h', w') \<and> ut_inv h'
    \<and> (\<forall>j. map_option (ut_deref h') (hash_find h' j) = (if j = k then Some v else map_option (ut_deref h) (hash_find h j)))"
proof -
  obtain h' w' where a: "hash_add m k v h w = Some (h', w')"
    using hash_add_returns [OF assms(1,2), of 0 k v w] assms(3) by auto
  have i: "ut_inv h'" using ut.inv_add [OF mem_ok_bounded [OF assms(1)] assms(2,4) a] .
  have "map_of (ut_entries h') = (map_of (ut_entries h))(k \<mapsto> v)" using ut.lookup_add [OF assms(2,4) a] .
  then show ?thesis using a i ut.find_entries [OF i] ut.find_entries [OF assms(2)] by auto
qed

definition ample :: "nat \<Rightarrow> unit \<Rightarrow> bool \<times> unit" where
  "ample n w = (n < 2 ^ 36, w)"

lemma ample_ok: "mem_ok ample"
  by (simp add: mem_ok_def ample_def)

theorem hash_add_is_update_witness:
  "\<exists>h' w'. hash_add ample [1, 2, 3, 4] (7 :: nat) uthash_empty () = Some (h', w')
     \<and> map_option (ut_deref h') (hash_find h' [1, 2, 3, 4]) = Some 7"
proof -
  have r: "ut_room 1 (uthash_empty :: nat uthash)" by (simp add: ut_room_def log2_buckets_def uthash_empty_def)
  from hash_add_is_update [OF ample_ok ut.inv_empty r ut.find_empty] show ?thesis by metis
qed

section \<open>Counting traffic\<close>







section \<open>Addresses\<close>

text \<open>The tests of Ethernet addresses, which the code makes with 16 and 32 bit operations, are what they are
meant to be: equality is equality of the six bytes, the broadcast address is all ones, a valid
address of a station is neither a multicast address nor zero, and copying copies.\<close>

theorem ether_tests_exact:
  assumes "length a = 6" and "length b = 6"
  shows "(ether_addr_equal a b \<longleftrightarrow> a = b) \<and> (is_broadcast_ether_addr a \<longleftrightarrow> a = replicate 6 0xff)
    \<and> (is_valid_ether_addr a \<longleftrightarrow> \<not> bit (a ! 0) 0 \<and> a \<noteq> replicate 6 0) \<and> ether_addr_copy a b = b
    \<and> (mac_string a = mac_string b \<longleftrightarrow> a = b)"
  using ether_addr_equal_iff [OF assms] is_broadcast_iff [OF assms(1)] is_valid_iff [OF assms(1)]
    ether_addr_copy_eq [of a b] mac_string_inj [OF assms] assms by auto

theorem ether_tests_exact_witness:
  "is_valid_ether_addr [2, 0, 0, 0, 0, 1] \<and> \<not> ether_addr_equal [2, 0, 0, 0, 0, 1] [2, 0, 0, 0, 0, 2]"
  using ether_tests_exact [of "[2, 0, 0, 0, 0, 1]" "[2, 0, 0, 0, 0, 2]"] by (simp add: eval_nat_numeral)

end
