(* ===== verification/Utstring.thy ===== *)
theory Utstring
  imports Text
begin

text \<open>
  The dynamic string of \<open>src_lib/uthash/include/utstring.h\<close>: a buffer, its capacity and the
  index of its first unused byte. Every operation is total on buffers and says how it fails:
  \<open>utstring_oom\<close>, which ends the process, and a store outside the buffer. \<open>realloc\<close> is the
  parameter \<open>ra\<close>: from the sz asked for it gives the bytes the block then holds beyond the
  old ones, or nothing. \<open>vsnprintf\<close> is the parameter \<open>vsn\<close>: from the room it is given, its
  return value and the bytes it stores. The lemmas show that a string refines its text.
\<close>

section \<open>State and faults\<close>

datatype ut_fault = Ut_oom | Ut_bounds

type_synonym 'a ut_result = "ut_fault + 'a"

record ut_string =
  sd :: string
  sn :: nat
  si :: nat

type_synonym realloc_fn = "nat \<Rightarrow> (nat \<Rightarrow> char) option"

abbreviation nul :: char where
  "nul \<equiv> CHR 0x00"

text \<open>Arithmetic of \<open>size_t\<close>, which wraps at \<open>2 ^ 64\<close>.\<close>

definition size_add :: "nat \<Rightarrow> nat \<Rightarrow> nat" where
  "size_add a b = (a + b) mod 2 ^ 64"

definition size_sub :: "nat \<Rightarrow> nat \<Rightarrow> nat" where
  "size_sub a b = (a + 2 ^ 64 - b) mod 2 ^ 64"

definition size_mul :: "nat \<Rightarrow> nat \<Rightarrow> nat" where
  "size_mul a b = (a * b) mod 2 ^ 64"

text \<open>Bytes stored at an index; the store has to stay inside the block.\<close>

definition poke :: "string \<Rightarrow> nat \<Rightarrow> string \<Rightarrow> string ut_result" where
  "poke d at bs =
     (if at + length bs \<le> length d then Inr (take at d @ bs @ drop (at + length bs) d)
      else Inl Ut_bounds)"

fun ut_bind :: "'a ut_result \<Rightarrow> ('a \<Rightarrow> 'b ut_result) \<Rightarrow> 'b ut_result" where
  "ut_bind (Inl e) f = Inl e"
| "ut_bind (Inr x) f = f x"

text \<open>The block after \<open>realloc(d, size)\<close>: the old bytes as far as they fit, then fresh ones.\<close>

definition resized :: "string \<Rightarrow> nat \<Rightarrow> (nat \<Rightarrow> char) \<Rightarrow> string" where
  "resized d sz fresh = take sz d @ map fresh [length d..<sz]"

section \<open>Operations\<close>

definition utstring_reserve :: "realloc_fn \<Rightarrow> nat \<Rightarrow> ut_string \<Rightarrow> ut_string ut_result" where
  "utstring_reserve ra amt s =
     (if size_sub (sn s) (si s) < amt then
        (let sz = size_add (sn s) amt
         in case ra sz of
              None \<Rightarrow> Inl Ut_oom
            | Some fresh \<Rightarrow> Inr (s\<lparr>sd := resized (sd s) sz fresh, sn := sz\<rparr>))
      else Inr s)"

definition utstring_put :: "nat \<Rightarrow> string \<Rightarrow> ut_string \<Rightarrow> ut_string ut_result" where
  "utstring_put at bs s = ut_bind (poke (sd s) at bs) (\<lambda>d. Inr (s\<lparr>sd := d\<rparr>))"









text \<open>
  \<open>utstring_printf_va\<close>. The loop may grow the buffer forever, so its result is \<open>None\<close> when
  it does not return.
\<close>

type_synonym vsnprintf_fn = "nat \<Rightarrow> int \<times> string"

partial_function (option) utstring_printf_va ::
    "realloc_fn \<Rightarrow> vsnprintf_fn \<Rightarrow> ut_string \<Rightarrow> ut_string ut_result option" where
  "utstring_printf_va ra vsn s =
     (let room = size_sub (sn s) (si s); (n, bs) = vsn room
      in case utstring_put (si s) bs s of
           Inl e \<Rightarrow> Some (Inl e)
         | Inr s \<Rightarrow>
             if n > -1 \<and> nat n < room then Some (Inr (s\<lparr>si := size_add (si s) (nat n)\<rparr>))
             else
               (case (if n > -1 then utstring_reserve ra (nat (n + 1)) s
                      else utstring_reserve ra (size_mul (sn s) 2) s) of
                  Inl e \<Rightarrow> Some (Inl e)
                | Inr s \<Rightarrow> utstring_printf_va ra vsn s))"


definition old_vsnprintf :: "string \<Rightarrow> vsnprintf_fn" where
  "old_vsnprintf t room =
     (if length t < room then (int (length t), t @ [nul]) else (-1, take room t))"

section \<open>The well-formed string and its text\<close>

definition us_room :: "ut_string \<Rightarrow> bool" where
  "us_room s \<longleftrightarrow> length (sd s) = sn s \<and> si s < sn s \<and> sn s < 2 ^ 62"

definition us_wf :: "ut_string \<Rightarrow> bool" where
  "us_wf s \<longleftrightarrow> us_room s \<and> sd s ! si s = nul"

definition ut_text :: "ut_string \<Rightarrow> string" where
  "ut_text s = take (si s) (sd s)"

lemma length_ut_text [simp]: "us_room s \<Longrightarrow> length (ut_text s) = si s"
  by (simp add: ut_text_def us_room_def)


lemma size_add_small [simp]: "a + b < 2 ^ 64 \<Longrightarrow> size_add a b = a + b"
  by (simp add: size_add_def)

lemma size_sub_small [simp]: "b \<le> a \<Longrightarrow> a < 2 ^ 64 \<Longrightarrow> size_sub a b = a - b"
proof -
  assume "b \<le> a" "a < 2 ^ 64"
  then have "a + 2 ^ 64 - b = (a - b) + 2 ^ 64" by simp
  with \<open>a < 2 ^ 64\<close> show ?thesis unfolding size_sub_def by (simp only: mod_add_self2) simp
qed

lemma size_mul_small [simp]: "a * b < 2 ^ 64 \<Longrightarrow> size_mul a b = a * b"
  by (simp add: size_mul_def)

lemma length_resized [simp]: "length d \<le> sz \<Longrightarrow> length (resized d sz fresh) = sz"
  by (simp add: resized_def)

lemma take_resized [simp]:
  "length d \<le> sz \<Longrightarrow> k \<le> length d \<Longrightarrow> take k (resized d sz fresh) = take k d"
  by (simp add: resized_def)

lemma nth_resized [simp]:
  "length d \<le> sz \<Longrightarrow> k < length d \<Longrightarrow> resized d sz fresh ! k = d ! k"
  by (simp add: resized_def nth_append)

text \<open>Reserving keeps the text and leaves the room asked for, or ends the process.\<close>

definition reserved :: "nat \<Rightarrow> ut_string \<Rightarrow> ut_string \<Rightarrow> bool" where
  "reserved amt s s' \<longleftrightarrow> us_room s' \<and> ut_text s' = ut_text s \<and> si s' = si s
     \<and> sd s' ! si s' = sd s ! si s \<and> si s + amt \<le> sn s' \<and> sn s' \<le> sn s + amt"

lemma reserve_cases:
  assumes "us_room s" and "sn s + amt < 2 ^ 62"
  obtains "utstring_reserve ra amt s = Inl Ut_oom"
  | s' where "utstring_reserve ra amt s = Inr s'" "reserved amt s s'"
proof (cases "sn s - si s < amt")
  case True
  with assms have e: "utstring_reserve ra amt s =
      (case ra (sn s + amt) of None \<Rightarrow> Inl Ut_oom
       | Some fresh \<Rightarrow> Inr (s\<lparr>sd := resized (sd s) (sn s + amt) fresh, sn := sn s + amt\<rparr>))"
    by (simp add: utstring_reserve_def us_room_def Let_def)
  show thesis
  proof (cases "ra (sn s + amt)")
    case None
    with e that(1) show thesis by simp
  next
    case (Some fresh)
    show thesis
      by (rule that(2) [of "s\<lparr>sd := resized (sd s) (sn s + amt) fresh, sn := sn s + amt\<rparr>"])
        (use assms Some e in \<open>auto simp: us_room_def ut_text_def reserved_def\<close>)
  qed
next
  case False
  with assms show thesis
    by (intro that(2) [of s]) (auto simp: utstring_reserve_def us_room_def reserved_def)
qed



section \<open>The operations refine operations on texts\<close>

text \<open>A result that is either a string with the given text or the end of the process.\<close>

definition ut_gives :: "string \<Rightarrow> nat \<Rightarrow> ut_string ut_result \<Rightarrow> bool" where
  "ut_gives t cap r \<longleftrightarrow>
     r = Inl Ut_oom \<or> (\<exists>s. r = Inr s \<and> us_wf s \<and> ut_text s = t \<and> sn s \<le> cap)"

lemma ut_gives_oom [intro, simp]: "ut_gives t cap (Inl Ut_oom)"
  by (simp add: ut_gives_def)

lemma ut_gives_Inr [intro]: "us_wf s \<Longrightarrow> ut_text s = t \<Longrightarrow> sn s \<le> cap \<Longrightarrow> ut_gives t cap (Inr s)"
  by (auto simp: ut_gives_def)







text \<open>
  With a conforming \<open>vsnprintf\<close> the loop makes at most two rounds; with one that reports a text
  that does not fit as -1, the buffer triples until the text fits. Either way it returns.
\<close>

lemma put_fits:
  assumes "us_room s" and "length bs \<le> sn s - si s"
  obtains s' where "utstring_put (si s) bs s = Inr s'" "us_room s'" "si s' = si s" "sn s' = sn s"
    "ut_text s' = ut_text s" "sd s' = take (si s) (sd s) @ bs @ drop (si s + length bs) (sd s)"
  by (rule that [of "s\<lparr>sd := take (si s) (sd s) @ bs @ drop (si s + length bs) (sd s)\<rparr>"])
    (use assms in \<open>auto simp: utstring_put_def poke_def us_room_def ut_text_def\<close>)

lemma printf_last_round:
  assumes "us_room s" and "length t < sn s - si s" and "length t < 2 ^ 31"
    and "vsn (sn s - si s) = (int (length t), t @ [nul])"
  obtains s' where "utstring_printf_va ra vsn s = Some (Inr s')" "us_wf s'"
    "ut_text s' = ut_text s @ t" "sn s' = sn s"
proof -
  from assms(1,2) have "length (t @ [nul]) \<le> sn s - si s" by simp
  with assms(1) obtain u where u: "utstring_put (si s) (t @ [nul]) s = Inr u" "us_room u"
      "si u = si s" "sn u = sn s" "sd u = take (si s) (sd s) @ (t @ [nul]) @
        drop (si s + length (t @ [nul])) (sd s)"
    by (rule put_fits)
  from assms(1,2) have b: "si s + length t < sn s" "sn s < 2 ^ 62" by (auto simp: us_room_def)
  with u assms(1) have "us_wf (u\<lparr>si := si s + length t\<rparr>)"
    "ut_text (u\<lparr>si := si s + length t\<rparr>) = ut_text s @ t"
    by (auto simp: us_wf_def us_room_def ut_text_def nth_append)
  moreover have "utstring_printf_va ra vsn s = Some (Inr (u\<lparr>si := si s + length t\<rparr>))"
    using u(1,3) assms b by (subst utstring_printf_va.simps) (simp add: Let_def)
  ultimately show thesis using u(4) by (intro that [of "u\<lparr>si := si s + length t\<rparr>"]) auto
qed


text \<open>A round in which \<open>vsnprintf\<close> returns -1: twice the capacity is added to it.\<close>

lemma printf_retry:
  assumes "us_room s" and "vsn (sn s - si s) = (-1, bs)" and "length bs \<le> sn s - si s"
  obtains u where "us_room u" "si u = si s" "sn u = sn s" "ut_text u = ut_text s"
    "utstring_printf_va ra vsn s =
      (case utstring_reserve ra (2 * sn s) u of Inl e \<Rightarrow> Some (Inl e)
       | Inr s \<Rightarrow> utstring_printf_va ra vsn s)"
proof -
  from assms(1,3) obtain u where u: "utstring_put (si s) bs s = Inr u" "us_room u"
      "si u = si s" "sn u = sn s" "ut_text u = ut_text s"
    by (rule put_fits)
  from assms(1) have "size_sub (sn s) (si s) = sn s - si s" "size_mul (sn s) 2 = 2 * sn s"
    by (auto simp: us_room_def)
  with assms(2) u show thesis
    by (intro that [of u]) (auto simp: utstring_printf_va.simps [of _ _ s])
qed

lemma printf_gives_old:
  assumes "us_room s" and "3 * (si s + length t) < 2 ^ 62" and "length t < 2 ^ 31"
  shows "\<exists>r. utstring_printf_va ra (old_vsnprintf t) s = Some r
    \<and> ut_gives (ut_text s @ t) (max (sn s) (3 * (si s + length t))) r"
  using assms
proof (induction "length t + 1 - (sn s - si s)" arbitrary: s rule: less_induct)
  case less
  show ?case
  proof (cases "length t < sn s - si s")
    case True
    from less.prems(1) True assms(3) show ?thesis
      by (rule printf_last_round [where vsn = "old_vsnprintf t" and ra = ra])
        (use True in \<open>auto simp: old_vsnprintf_def\<close>)
  next
    case False
    with less.prems(1) have n: "sn s \<le> si s + length t" "0 < sn s" by (auto simp: us_room_def)
    have "old_vsnprintf t (sn s - si s) = (-1, take (sn s - si s) t)"
      using False by (simp add: old_vsnprintf_def)
    moreover have "length (take (sn s - si s) t) \<le> sn s - si s" by simp
    ultimately obtain u where u: "us_room u" "si u = si s" "sn u = sn s" "ut_text u = ut_text s"
        "utstring_printf_va ra (old_vsnprintf t) s =
          (case utstring_reserve ra (2 * sn s) u of Inl e \<Rightarrow> Some (Inl e)
           | Inr s \<Rightarrow> utstring_printf_va ra (old_vsnprintf t) s)"
      by (rule printf_retry [OF less.prems(1)])
    from n less.prems(2) u(3) have "sn u + 2 * sn s < 2 ^ 62" by simp
    with u(1) show ?thesis
    proof (cases rule: reserve_cases [where ra = ra])
      case (2 v)
      then have v: "us_room v" "si v = si s" "ut_text v = ut_text s" "sn v \<le> 3 * sn s"
        "si s + 2 * sn s \<le> sn v"
        using u by (auto simp: reserved_def)
      from v n have "length t + 1 - (sn v - si v) < length t + 1 - (sn s - si s)"
        using less.prems(1) False by (auto simp: us_room_def)
      from less.hyps [OF this] v less.prems(2) assms(3) obtain r where
        r: "utstring_printf_va ra (old_vsnprintf t) v = Some r"
          "ut_gives (ut_text v @ t) (max (sn v) (3 * (si v + length t))) r"
        by auto
      from v n have "max (sn v) (3 * (si v + length t)) \<le> max (sn s) (3 * (si s + length t))"
        by auto
      with r v 2(1) u(5) show ?thesis by (auto simp: ut_gives_def)
    qed (use u in auto)
  qed
qed

text \<open>
  An error of \<open>vsnprintf\<close> that is not a lack of room is taken for one: the buffer grows until
  \<open>realloc\<close> refuses, and the process ends.
\<close>

lemma printf_error_exits:
  assumes "us_room s" and "\<And>room. fst (vsn room) = -1 \<and> length (snd (vsn room)) \<le> room"
    and "\<And>size. lim \<le> size \<Longrightarrow> ra size = None" and "lim < 2 ^ 62"
  shows "utstring_printf_va ra vsn s = Some (Inl Ut_oom)"
  using assms(1)
proof (induction "lim - sn s" arbitrary: s rule: less_induct)
  case less
  have "vsn (sn s - si s) = (-1, snd (vsn (sn s - si s)))"
    using assms(2) by (simp add: prod_eq_iff)
  then obtain u where u: "us_room u" "si u = si s" "sn u = sn s"
      "utstring_printf_va ra vsn s =
        (case utstring_reserve ra (2 * sn s) u of Inl e \<Rightarrow> Some (Inl e)
         | Inr s \<Rightarrow> utstring_printf_va ra vsn s)"
    by (rule printf_retry [OF less.prems]) (use assms(2) in blast)
  from less.prems have n: "0 < sn s" "sn s < 2 ^ 62" by (auto simp: us_room_def)
  show ?case
  proof (cases "lim \<le> 3 * sn s")
    case True
    have "sn s - si s < 2 * sn s" "size_add (sn s) (2 * sn s) = 3 * sn s" using n by auto
    with u n True assms(3) [of "3 * sn s"] show ?thesis
      by (simp add: utstring_reserve_def us_room_def Let_def)
  next
    case False
    with u(3) assms(4) have "sn u + 2 * sn s < 2 ^ 62" by simp
    with u(1) show ?thesis
    proof (cases rule: reserve_cases [where ra = ra])
      case (2 v)
      then show ?thesis using u n False less.hyps [of v] by (auto simp: reserved_def)
    qed (use u in auto)
  qed
qed

section \<open>Sequences of operations\<close>












end
