(* ===== verification/Utstring_Kmp.thy ===== *)
theory Utstring_Kmp
  imports Utstring "HOL-Library.Sublist"
begin

text \<open>
  The substring searches of \<open>src_lib/uthash/include/utstring.h\<close>: the Knuth-Morris-Pratt tables
  built from the left and from the right, the two search loops and the two searches of a string
  from a start position. Indices are the code's \<open>long\<close>; every read and write of an array goes
  through \<open>rd\<close> and \<open>wr\<close>, which give nothing outside the array, and a loop that does not return
  gives nothing either, so that a result says that the code returned and stayed inside its
  arrays. The lemmas show that the table built from the left holds the failure function and that
  the loop with it finds the first occurrence.
\<close>

section \<open>Arrays\<close>

definition rd :: "'a list \<Rightarrow> int \<Rightarrow> 'a option" where
  "rd xs i = (if 0 \<le> i \<and> i < int (length xs) then Some (xs ! nat i) else None)"

definition wr :: "'a list \<Rightarrow> int \<Rightarrow> 'a \<Rightarrow> 'a list option" where
  "wr xs i v = (if 0 \<le> i \<and> i < int (length xs) then Some (xs[nat i := v]) else None)"

text \<open>A conversion to \<open>size_t\<close> and one to \<open>long\<close>.\<close>

definition to_size :: "int \<Rightarrow> int" where
  "to_size i = i mod 2 ^ 64"

definition to_long :: "int \<Rightarrow> int" where
  "to_long i = (let u = i mod 2 ^ 64 in if u < 2 ^ 63 then u else u - 2 ^ 64)"

section \<open>Building the tables\<close>

text \<open>The inner loop of the left-to-right functions; \<open>c\<close> is the character compared with.\<close>

partial_function (option) fall_back ::
    "string \<Rightarrow> int list \<Rightarrow> char option \<Rightarrow> int \<Rightarrow> int option" where
  "fall_back p t c j =
     (if j > -1 then do {
        a \<leftarrow> c; b \<leftarrow> rd p j;
        if a \<noteq> b then do { j' \<leftarrow> rd t j; fall_back p t c j' } else Some j
      } else Some j)"

partial_function (option) build_loop ::
    "string \<Rightarrow> int \<Rightarrow> int list \<Rightarrow> int \<Rightarrow> int \<Rightarrow> int list option" where
  "build_loop p m t i j =
     (if i < m then do {
        j \<leftarrow> fall_back p t (rd p i) j;
        let i = i + 1; j = j + 1 in
        if i < m then do {
          a \<leftarrow> rd p i; b \<leftarrow> rd p j;
          t' \<leftarrow> (if a = b then do { v \<leftarrow> rd t j; wr t i v } else wr t i j);
          build_loop p m t' i j
        } else do { t' \<leftarrow> wr t i j; build_loop p m t' i j }
      } else Some t)"

definition utstring_BuildTable :: "string \<Rightarrow> nat \<Rightarrow> int list \<Rightarrow> int list option" where
  "utstring_BuildTable p m t =
     do { t \<leftarrow> wr t 0 (-1); build_loop p (int m) t 0 (-1) }"

text \<open>The same from the right: the entry of position \<open>i\<close> is at index \<open>i + 1\<close>.\<close>

partial_function (option) fall_forward ::
    "string \<Rightarrow> int \<Rightarrow> int list \<Rightarrow> char option \<Rightarrow> int \<Rightarrow> int option" where
  "fall_forward p m t c j =
     (if j < m then do {
        a \<leftarrow> c; b \<leftarrow> rd p j;
        if a \<noteq> b then do { j' \<leftarrow> rd t (j + 1); fall_forward p m t c j' } else Some j
      } else Some j)"

partial_function (option) buildR_loop ::
    "string \<Rightarrow> int \<Rightarrow> int list \<Rightarrow> int \<Rightarrow> int \<Rightarrow> int list option" where
  "buildR_loop p m t i j =
     (if i \<ge> 0 then do {
        j \<leftarrow> fall_forward p m t (rd p i) j;
        let i = i - 1; j = j - 1 in
        if i \<ge> 0 then do {
          a \<leftarrow> rd p i; b \<leftarrow> rd p j;
          t' \<leftarrow> (if a = b then do { v \<leftarrow> rd t (j + 1); wr t (i + 1) v } else wr t (i + 1) j);
          buildR_loop p m t' i j
        } else do { t' \<leftarrow> wr t (i + 1) j; buildR_loop p m t' i j }
      } else Some t)"

definition utstring_BuildTableR :: "string \<Rightarrow> nat \<Rightarrow> int list \<Rightarrow> int list option" where
  "utstring_BuildTableR p m t =
     (let i = to_long (int m - 1); j = i + 1
      in do { t \<leftarrow> wr t (i + 1) j; buildR_loop p (int m) t i j })"

section \<open>The search loops\<close>

text \<open>
  The haystack is the buffer \<open>d\<close> from index \<open>off\<close> on, of length \<open>n\<close>. The bounds of the outer
  loops compare through \<open>int\<close> and \<open>size_t\<close> as the code does.
\<close>

partial_function (option) find_loop ::
    "string \<Rightarrow> int \<Rightarrow> int \<Rightarrow> string \<Rightarrow> int \<Rightarrow> int list \<Rightarrow> int \<Rightarrow> int \<Rightarrow> int option" where
  "find_loop d off n p m t i j =
     (if j < int32 n \<and> to_size (to_size (n - j) + i) \<ge> m then do {
        i \<leftarrow> fall_back p t (rd d (off + j)) i;
        let i = i + 1; j = j + 1 in
        if i \<ge> int32 m then Some (j - i) else find_loop d off n p m t i j
      } else Some (-1))"

definition utstring_find_raw ::
    "string \<Rightarrow> int \<Rightarrow> int \<Rightarrow> string \<Rightarrow> int \<Rightarrow> int list \<Rightarrow> int option" where
  "utstring_find_raw d off n p m t = find_loop d off n p m t 0 0"

partial_function (option) findR_loop ::
    "string \<Rightarrow> int \<Rightarrow> string \<Rightarrow> int \<Rightarrow> int list \<Rightarrow> int \<Rightarrow> int \<Rightarrow> int option" where
  "findR_loop d n p m t i j =
     (if j \<ge> 0 \<and> j \<ge> i then do {
        i \<leftarrow> fall_forward p (int32 m) t (rd d j) i;
        let i = i - 1; j = j - 1 in
        if i < 0 then Some (j + 1) else findR_loop d n p m t i j
      } else Some (-1))"

definition utstring_findR_raw ::
    "string \<Rightarrow> int \<Rightarrow> string \<Rightarrow> int \<Rightarrow> int list \<Rightarrow> int option" where
  "utstring_findR_raw d n p m t = findR_loop d n p m t (to_long (m - 1)) (to_long (n - 1))"

section \<open>Searching a string\<close>

text \<open>\<open>mem\<close> is the block \<open>malloc\<close> gave for the table, with what it held, or nothing.\<close>

definition start_position :: "ut_string \<Rightarrow> int \<Rightarrow> int" where
  "start_position s pos = (if pos < 0 then to_long (int (si s) + pos) else pos)"

definition utstring_find ::
    "ut_string \<Rightarrow> int \<Rightarrow> string \<Rightarrow> nat \<Rightarrow> int list option \<Rightarrow> int option" where
  "utstring_find s pos p m mem =
     (let start = start_position s pos; n = to_long (int (si s) - start)
      in if n \<ge> to_long (int m) \<and> m > 0 then
           (case mem of
              None \<Rightarrow> Some (-1)
            | Some t \<Rightarrow> do {
                t \<leftarrow> utstring_BuildTable p m t;
                r \<leftarrow> utstring_find_raw (sd s) start (to_size n) p (int m) t;
                Some (if r \<ge> 0 then r + start else r) })
         else Some (-1))"

definition utstring_findR ::
    "ut_string \<Rightarrow> int \<Rightarrow> string \<Rightarrow> nat \<Rightarrow> int list option \<Rightarrow> int option" where
  "utstring_findR s pos p m mem =
     (let start = start_position s pos; n = start + 1
      in if n \<ge> to_long (int m) \<and> m > 0 then
           (case mem of
              None \<Rightarrow> Some (-1)
            | Some t \<Rightarrow> do {
                t \<leftarrow> utstring_BuildTableR p m t;
                utstring_findR_raw (sd s) (to_size n) p (int m) t })
         else Some (-1))"

section \<open>Borders and the failure function\<close>

text \<open>The greatest number with a property, as an index: -1 when there is none.\<close>

definition best :: "(nat \<Rightarrow> bool) \<Rightarrow> int \<Rightarrow> bool" where
  "best Q r \<longleftrightarrow> (\<forall>l. Q l \<longrightarrow> int l \<le> r) \<and> (r = -1 \<or> (\<exists>l. r = int l \<and> Q l))"

text \<open>The first \<open>l\<close> characters of the needle are the last ones of \<open>x\<close>.\<close>

definition bord :: "string \<Rightarrow> string \<Rightarrow> nat \<Rightarrow> bool" where
  "bord p x l \<longleftrightarrow> l \<le> length p \<and> suffix (take l p) x"

definition fails :: "string \<Rightarrow> nat \<Rightarrow> int \<Rightarrow> bool" where
  "fails p k f \<longleftrightarrow> best (\<lambda>l. l < k \<and> bord p (take k p) l \<and> p ! l \<noteq> p ! k) f"

definition kmp_table :: "string \<Rightarrow> int list \<Rightarrow> bool" where
  "kmp_table p t \<longleftrightarrow> length t = length p + 1 \<and> (\<forall>k < length p. fails p k (t ! k))
     \<and> best (\<lambda>l. l < length p \<and> bord p p l) (t ! length p)"

lemma best_none [simp]: "best Q (-1) \<longleftrightarrow> (\<forall>l. \<not> Q l)"
  by (auto simp: best_def)

lemma best_int [simp]: "best Q (int k) \<longleftrightarrow> Q k \<and> (\<forall>l. Q l \<longrightarrow> l \<le> k)"
  by (auto simp: best_def)

lemma best_cases:
  assumes "best Q r"
  obtains "r = -1" "\<forall>l. \<not> Q l" | k where "r = int k" "Q k" "\<And>l. Q l \<Longrightarrow> l \<le> k"
  using assms by (auto simp: best_def)

lemma best_cong: "best Q r \<Longrightarrow> (\<And>l. Q l \<longleftrightarrow> R l) \<Longrightarrow> best R r"
  by (auto simp: best_def)

lemma bord_0 [simp]: "bord p x 0"
  by (simp add: bord_def)

lemma bord_length: "bord p x l \<Longrightarrow> l \<le> length x"
  by (auto simp: bord_def suffix_def)

lemma bord_snoc: "bord p (x @ [c]) (Suc l) \<longleftrightarrow> l < length p \<and> bord p x l \<and> p ! l = c"
  by (auto simp: bord_def take_Suc_conv_app_nth)

lemma bord_bord:
  assumes "bord p x l" and "l' \<le> l"
  shows "bord p x l' \<longleftrightarrow> bord p (take l p) l'"
proof -
  from assms(1) have l: "l \<le> length p" "suffix (take l p) x" by (auto simp: bord_def)
  with assms(2) have "length (take l' p) \<le> length (take l p)" by simp
  then have "suffix (take l' p) x \<Longrightarrow> suffix (take l' p) (take l p)"
    using suffix_length_suffix l(2) by blast
  moreover have "suffix (take l' p) (take l p) \<Longrightarrow> suffix (take l' p) x"
    using l(2) suffix_order.trans by blast
  ultimately show ?thesis by (auto simp: bord_def)
qed

lemma best_snoc:
  assumes "best (\<lambda>l. l < i \<and> bord p x l \<and> p ! l = c) r" and "i \<le> length p"
  shows "best (\<lambda>l. l < Suc i \<and> bord p (x @ [c]) l) (r + 1)"
  using assms(1)
proof (cases rule: best_cases)
  case 1
  have "l < Suc i \<and> bord p (x @ [c]) l \<longleftrightarrow> l = 0" for l
    using 1 assms(2) by (cases l) (auto simp: bord_snoc)
  with 1 show ?thesis by (auto simp: best_def)
next
  case (2 k)
  then have "best (\<lambda>l. l < Suc i \<and> bord p (x @ [c]) l) (int (Suc k))"
    using assms(2) unfolding best_int
    by (auto simp: bord_snoc) (metis Suc_le_mono bord_snoc less_Suc_eq_0_disj zero_le)
  with 2 show ?thesis by (simp add: add.commute)
qed

lemma rd_in [simp]: "k < length xs \<Longrightarrow> rd xs (int k) = Some (xs ! k)"
  by (simp add: rd_def)

lemma wr_in [simp]: "k < length xs \<Longrightarrow> wr xs (int k) v = Some (xs[k := v])"
  by (simp add: wr_def)

lemma fall_back_minus [simp]: "fall_back p t c (-1) = Some (-1)"
  by (simp add: fall_back.simps)

text \<open>The inner loop finds the longest border that the character \<open>c\<close> continues.\<close>

lemma fall_back_nat:
  assumes "bord p x l" and "l < length p" and "l < length t"
    and "\<And>k. k \<le> l \<Longrightarrow> fails p k (t ! k)"
  shows "\<exists>r. fall_back p t (Some c) (int l) = Some r
    \<and> best (\<lambda>l'. l' \<le> l \<and> bord p x l' \<and> p ! l' = c) r"
  using assms
proof (induction l rule: less_induct)
  case (less l)
  show ?case
  proof (cases "p ! l = c")
    case True
    have "best (\<lambda>l'. l' \<le> l \<and> bord p x l' \<and> p ! l' = c) (int l)"
      using True less.prems by simp
    moreover have "fall_back p t (Some c) (int l) = Some (int l)"
      using True less.prems by (simp add: fall_back.simps [of _ _ _ "int l"])
    ultimately show ?thesis by blast
  next
    case False
    then have step: "fall_back p t (Some c) (int l) = fall_back p t (Some c) (t ! l)"
      using less.prems by (subst fall_back.simps) simp
    have f: "fails p l (t ! l)" using less.prems(4) by simp
    then show ?thesis unfolding fails_def
    proof (cases rule: best_cases)
      case 1
      have "\<not> (l' \<le> l \<and> bord p x l' \<and> p ! l' = c)" for l'
        using 1 False bord_bord [OF less.prems(1), of l'] by (cases "l' = l") auto
      then show ?thesis unfolding step 1(1) by auto
    next
      case (2 k)
      have kl: "k < l" "bord p x k" using 2 bord_bord [OF less.prems(1), of k] by auto
      obtain r where r: "fall_back p t (Some c) (int k) = Some r"
          "best (\<lambda>l'. l' \<le> k \<and> bord p x l' \<and> p ! l' = c) r"
        using less.IH [OF kl] less.prems(2,3,4) kl(1) by auto
      have "best (\<lambda>l'. l' \<le> l \<and> bord p x l' \<and> p ! l' = c) r"
        using r(2)
      proof (rule best_cong)
        fix l'
        have "bord p x l' \<Longrightarrow> p ! l' = c \<Longrightarrow> l' \<le> l \<Longrightarrow> l' \<le> k"
          using 2(3) [of l'] False bord_bord [OF less.prems(1), of l'] by (cases "l' = l") auto
        then show "l' \<le> k \<and> bord p x l' \<and> p ! l' = c \<longleftrightarrow> l' \<le> l \<and> bord p x l' \<and> p ! l' = c"
          using kl(1) by auto
      qed
      with r(1) show ?thesis unfolding step 2(1) by blast
    qed
  qed
qed

lemma fall_back_best:
  assumes "best (\<lambda>l. l < i \<and> bord p x l) j" and "i \<le> length p" and "i \<le> length t"
    and "\<And>k. k < i \<Longrightarrow> fails p k (t ! k)"
  obtains r where "fall_back p t (Some c) j = Some r"
    "best (\<lambda>l. l < i \<and> bord p x l \<and> p ! l = c) r"
  using assms(1)
proof (cases rule: best_cases)
  case 1
  then show ?thesis by (intro that [of "-1"]) auto
next
  case (2 k)
  then have "bord p x k" "k < length p" "k < length t" "\<And>l. l \<le> k \<Longrightarrow> fails p l (t ! l)"
    using assms by auto
  from fall_back_nat [OF this, of c] obtain r where
    "fall_back p t (Some c) (int k) = Some r" "best (\<lambda>l. l \<le> k \<and> bord p x l \<and> p ! l = c) r"
    by blast
  moreover have "l \<le> k \<and> bord p x l \<and> p ! l = c \<longleftrightarrow> l < i \<and> bord p x l \<and> p ! l = c" for l
    using 2 by auto
  ultimately show ?thesis using 2(1) by (intro that [of r]) (auto elim: best_cong)
qed

section \<open>The table\<close>

definition built :: "string \<Rightarrow> int list \<Rightarrow> nat \<Rightarrow> int \<Rightarrow> bool" where
  "built p t i j \<longleftrightarrow> length t = length p + 1 \<and> i \<le> length p
     \<and> best (\<lambda>l. l < i \<and> bord p (take i p) l) j
     \<and> (\<forall>k. k \<le> i \<longrightarrow> k < length p \<longrightarrow> fails p k (t ! k))
     \<and> (i = length p \<longrightarrow> t ! i = j)"

lemma fails_shortcut:
  assumes "best (\<lambda>l. l < k \<and> bord p (take k p) l) (int j)" and "p ! k = p ! j" and "fails p j f"
  shows "fails p k f"
  using assms(3) unfolding fails_def
proof (rule best_cong)
  fix l
  from assms(1) have j: "j < k" "bord p (take k p) j" "\<And>l. l < k \<Longrightarrow> bord p (take k p) l \<Longrightarrow> l \<le> j"
    by auto
  then show "l < j \<and> bord p (take j p) l \<and> p ! l \<noteq> p ! j
      \<longleftrightarrow> l < k \<and> bord p (take k p) l \<and> p ! l \<noteq> p ! k"
    using bord_bord [OF j(2), of l] j(3) [of l] assms(2) by (cases "l = j") (auto simp: le_less)
qed

lemma fails_direct:
  assumes "best (\<lambda>l. l < k \<and> bord p (take k p) l) (int j)" and "p ! k \<noteq> p ! j"
  shows "fails p k (int j)"
  using assms unfolding fails_def by auto

lemma build_step:
  assumes "built p t i j" and "i < length p"
  obtains j' t' where "build_loop p (int (length p)) t (int i) j
      = build_loop p (int (length p)) t' (int (Suc i)) j'" "built p t' (Suc i) j'"
proof -
  from assms have t: "length t = length p + 1" "best (\<lambda>l. l < i \<and> bord p (take i p) l) j"
    "\<And>k. k \<le> i \<Longrightarrow> fails p k (t ! k)"
    by (auto simp: built_def)
  obtain r where r: "fall_back p t (Some (p ! i)) j = Some r"
      "best (\<lambda>l. l < i \<and> bord p (take i p) l \<and> p ! l = p ! i) r"
    by (rule fall_back_best [OF t(2), of t "p ! i"]) (use t assms(2) in auto)
  have b: "best (\<lambda>l. l < Suc i \<and> bord p (take (Suc i) p) l) (r + 1)"
    using best_snoc [OF r(2)] assms(2) by (simp add: take_Suc_conv_app_nth)
  then obtain k where k: "r + 1 = int k" "k < Suc i"
    by (cases rule: best_cases) (auto dest: spec [of _ 0])
  show thesis
  proof (cases "Suc i < length p")
    case False
    then have m: "Suc i = length p" using assms(2) by simp
    show thesis
    proof (rule that [of "t[Suc i := int k]" "int k"])
      show "build_loop p (int (length p)) t (int i) j
          = build_loop p (int (length p)) (t[Suc i := int k]) (int (Suc i)) (int k)"
        using assms(2) r(1) k(1) t(1) m
        by (subst build_loop.simps) (simp add: Let_def add.commute flip: of_nat_Suc)
      show "built p (t[Suc i := int k]) (Suc i) (int k)"
        using b k t m unfolding built_def by (auto simp: nth_list_update)
    qed
  next
    case True
    define v where "v = (if p ! Suc i = p ! k then t ! k else int k)"
    have v: "fails p (Suc i) v"
      using fails_shortcut [of "Suc i" p k "t ! k"] fails_direct [of "Suc i" p k] b k t(3) [of k]
      by (auto simp: v_def)
    show thesis
    proof (rule that [of "t[Suc i := v]" "int k"])
      show "build_loop p (int (length p)) t (int i) j
          = build_loop p (int (length p)) (t[Suc i := v]) (int (Suc i)) (int k)"
        using assms(2) r(1) k t(1) True
        by (subst build_loop.simps) (simp add: Let_def v_def add.commute flip: of_nat_Suc)
      show "built p (t[Suc i := v]) (Suc i) (int k)"
        using b k t True v unfolding built_def by (auto simp: nth_list_update le_Suc_eq)
    qed
  qed
qed

lemma build_loop_table:
  "built p t i j
    \<Longrightarrow> \<exists>t'. build_loop p (int (length p)) t (int i) j = Some t' \<and> kmp_table p t'"
proof (induction "length p - i" arbitrary: t i j)
  case 0
  then have "i = length p" by (simp add: built_def)
  with 0 show ?case by (auto simp: built_def kmp_table_def build_loop.simps)
next
  case (Suc n)
  then have "i < length p" by simp
  with Suc.prems obtain j' t' where "build_loop p (int (length p)) t (int i) j
      = build_loop p (int (length p)) t' (int (Suc i)) j'" "built p t' (Suc i) j'"
    by (rule build_step)
  with Suc.hyps(1) [of "Suc i" t' j'] Suc.hyps(2) show ?case by auto
qed

lemma build_table:
  assumes "length t = length p + 1"
  obtains t' where "utstring_BuildTable p (length p) t = Some t'" "kmp_table p t'"
proof -
  have w: "wr t 0 (-1) = Some (t[0 := -1])" using assms by (simp add: wr_def)
  have "built p (t[0 := -1]) 0 (-1)"
    using assms by (simp add: built_def fails_def nth_list_update)
  from build_loop_table [OF this] w that show thesis
    by (auto simp: utstring_BuildTable_def)
qed

section \<open>The search finds the first occurrence\<close>

definition occ :: "string \<Rightarrow> string \<Rightarrow> nat \<Rightarrow> bool" where
  "occ p h k \<longleftrightarrow> k + length p \<le> length h \<and> take (length p) (drop k h) = p"

definition first_match :: "string \<Rightarrow> string \<Rightarrow> int \<Rightarrow> bool" where
  "first_match p h r \<longleftrightarrow> r = -1 \<and> (\<forall>k. \<not> occ p h k)
     \<or> (\<exists>k. r = int k \<and> occ p h k \<and> (\<forall>k' < k. \<not> occ p h k'))"

lemma bord_occ:
  assumes "e \<le> length h"
  shows "bord p (take e h) (length p) \<longleftrightarrow> length p \<le> e \<and> occ p h (e - length p)"
proof -
  have "suffix p (take e h) \<longleftrightarrow> length p \<le> e \<and> drop (e - length p) (take e h) = p"
    using assms by (metis length_take min.absorb2 suffix_length_le suffix_take append_take_drop_id
        length_drop diff_diff_cancel suffix_def append_eq_append_conv suffix_drop)
  with assms show ?thesis by (auto simp: bord_def occ_def drop_take)
qed

definition searched :: "string \<Rightarrow> string \<Rightarrow> nat \<Rightarrow> nat \<Rightarrow> bool" where
  "searched p h i j \<longleftrightarrow> j \<le> length h
     \<and> best (\<lambda>l. l < length p \<and> bord p (take j h) l) (int i)
     \<and> (\<forall>e \<le> j. \<not> bord p (take e h) (length p))"

lemma search_done:
  assumes "searched p h i j" and "length h - j + i < length p \<or> j = length h"
  shows "first_match p h (-1)"
proof -
  have "\<not> bord p (take e h) (length p)" if "e \<le> length h" for e
  proof (cases "e \<le> j")
    case False
    show ?thesis
    proof
      assume b: "bord p (take e h) (length p)"
      define l where "l = length p - (e - j)"
      from False that assms have jl: "e - j \<le> length p" "j \<le> length h" "l < length p"
        by (auto simp: searched_def l_def)
      from b have "suffix p (take e h)" by (simp add: bord_def)
      then obtain u where u: "take e h = u @ p" by (auto simp: suffix_def)
      from False that have "take j h = take j (take e h)" by (simp add: min_def)
      moreover from arg_cong [OF u, of length] False that jl
      have "length u \<le> j" "j - length u = l" by (auto simp: l_def)
      ultimately have "take j h = u @ take l p" by (simp add: u)
      then have "bord p (take j h) l" using jl(3) by (auto simp: bord_def suffix_def)
      with assms(1) jl(3) have "l \<le> i" by (auto simp: searched_def)
      with assms(2) False that jl show False by (auto simp: l_def)
    qed
  qed (use assms in \<open>auto simp: searched_def\<close>)
  then have "\<not> occ p h k" for k
    using bord_occ [of "k + length p" h p] by (auto simp: occ_def)
  then show ?thesis by (simp add: first_match_def)
qed

lemma best_0 [simp]: "best Q 0 \<longleftrightarrow> Q 0 \<and> (\<forall>l. Q l \<longrightarrow> l = 0)"
  using best_int [of Q 0] by simp

lemma to_size_small [simp]: "0 \<le> i \<Longrightarrow> i < 2 ^ 64 \<Longrightarrow> to_size i = i"
  by (simp add: to_size_def)

lemma to_long_small [simp]: "- (2 ^ 63) \<le> i \<Longrightarrow> i < 2 ^ 63 \<Longrightarrow> to_long i = i"
proof (cases "0 \<le> i")
  case False
  assume "- (2 ^ 63) \<le> i" "i < 2 ^ 63"
  with False have "i mod 2 ^ 64 = i + 2 ^ 64"
    using mod_pos_pos_trivial [of "i + 2 ^ 64" "2 ^ 64"] by (simp add: mod_add_self2)
  with False \<open>- (2 ^ 63) \<le> i\<close> show ?thesis by (simp add: to_long_def Let_def)
qed (simp add: to_long_def Let_def)

lemma searched_step:
  assumes "searched p h i j" and "j < length h" and "0 < length p"
    and "best (\<lambda>l. l < length p \<and> bord p (take j h) l \<and> p ! l = h ! j) r"
  obtains k where "r + 1 = int k" and
    "k = length p \<Longrightarrow> length p \<le> Suc j \<and> first_match p h (int (Suc j - length p))"
    "k \<noteq> length p \<Longrightarrow> k < length p \<and> searched p h k (Suc j)"
proof -
  have t: "take (Suc j) h = take j h @ [h ! j]" using assms(2) by (simp add: take_Suc_conv_app_nth)
  have b: "best (\<lambda>l. l < Suc (length p) \<and> bord p (take (Suc j) h) l) (r + 1)"
    unfolding t by (rule best_snoc [OF assms(4)]) simp
  then obtain k where k: "r + 1 = int k" "k < Suc (length p)" "bord p (take (Suc j) h) k"
      "\<And>l. l < Suc (length p) \<Longrightarrow> bord p (take (Suc j) h) l \<Longrightarrow> l \<le> k"
    by (cases rule: best_cases) (auto dest: spec [of _ 0])
  from assms(1) have e: "\<not> bord p (take e h) (length p)" if "e \<le> j" for e
    using that by (simp add: searched_def)
  show thesis
  proof (rule that [OF k(1)])
    assume "k = length p"
    with k(3) assms(2) have o: "length p \<le> Suc j" "occ p h (Suc j - length p)"
      using bord_occ [of "Suc j" h p] by auto
    have "\<not> occ p h k'" if "k' < Suc j - length p" for k'
      using e [of "k' + length p"] bord_occ [of "k' + length p" h p] that assms(2)
      by (auto simp: occ_def)
    with o show "length p \<le> Suc j \<and> first_match p h (int (Suc j - length p))"
      unfolding first_match_def by blast
  next
    assume "k \<noteq> length p"
    with k(2) k(4) [of "length p"] have "k < length p" "\<not> bord p (take (Suc j) h) (length p)"
      by auto
    with k(3,4) e assms(2) show "k < length p \<and> searched p h k (Suc j)"
      by (auto simp: searched_def le_Suc_eq)
  qed
qed

lemma find_loop_first:
  assumes "\<And>k. k < length h \<Longrightarrow> rd d (off + int k) = Some (h ! k)" and "kmp_table p t"
    and "length h < 2 ^ 31" and "0 < length p" and "length p < 2 ^ 31" and "i < length p"
    and "searched p h i j"
  shows "\<exists>r. find_loop d off (int (length h)) p (int (length p)) t (int i) (int j) = Some r
    \<and> first_match p h r"
  using assms(6,7)
proof (induction "length h - j" arbitrary: i j rule: less_induct)
  case less
  have j: "j \<le> length h" using less.prems(2) by (simp add: searched_def)
  have i32: "int32 (int (length h)) = int (length h)" "int32 (int (length p)) = int (length p)"
    using assms(3,5) by (simp_all add: int32_small)
  have sz: "to_size (to_size (int (length h) - int j) + int i) = int (length h - j + i)"
    using j less.prems(1) assms(3,5) by (simp add: of_nat_diff)
  show ?case
  proof (cases "j < length h \<and> length p \<le> length h - j + i")
    case False
    with j have "find_loop d off (int (length h)) p (int (length p)) t (int i) (int j) = Some (-1)"
      by (subst find_loop.simps) (auto simp: i32 sz)
    with search_done [OF less.prems(2)] False j show ?thesis by auto
  next
    case True
    have "best (\<lambda>l. l < length p \<and> bord p (take j h) l) (int i)"
      using less.prems(2) by (simp add: searched_def)
    then obtain r where r: "fall_back p t (Some (h ! j)) (int i) = Some r"
        "best (\<lambda>l. l < length p \<and> bord p (take j h) l \<and> p ! l = h ! j) r"
      by (rule fall_back_best [where t = t and c = "h ! j"])
        (use assms(2) in \<open>auto simp: kmp_table_def\<close>)
    obtain k where k: "r + 1 = int k"
      "k = length p \<Longrightarrow> length p \<le> Suc j \<and> first_match p h (int (Suc j - length p))"
      "k \<noteq> length p \<Longrightarrow> k < length p \<and> searched p h k (Suc j)"
      using searched_step [OF less.prems(2) _ assms(4) r(2)] True by blast
    have sj: "int (Suc j) = int j + 1" by simp
    have cond: "int (length p) \<le> int (length h) + int i - int j" using True by linarith
    have step: "find_loop d off (int (length h)) p (int (length p)) t (int i) (int j)
        = (if int k \<ge> int (length p) then Some (int (Suc j) - int k)
           else find_loop d off (int (length h)) p (int (length p)) t (int k) (int (Suc j)))"
      using assms(1) [of j] r(1) k(1) True cond unfolding sj
      by (subst find_loop.simps) (simp add: i32 sz Let_def del: of_nat_Suc)
    show ?thesis
    proof (cases "k = length p")
      case True
      with k(2) step show ?thesis by (auto simp: of_nat_diff)
    next
      case False
      with k(3) True less.hyps [of "Suc j" k] show ?thesis unfolding step by auto
    qed
  qed
qed

lemma find_raw_first:
  assumes "\<And>k. k < length h \<Longrightarrow> rd d (off + int k) = Some (h ! k)" and "kmp_table p t"
    and "length h < 2 ^ 31" and "0 < length p" and "length p < 2 ^ 31"
  obtains r where "utstring_find_raw d off (int (length h)) p (int (length p)) t = Some r"
    "first_match p h r"
proof -
  have "searched p h 0 0"
    using assms(4) by (auto simp: searched_def bord_def)
  from find_loop_first [OF assms(1-5) assms(4) this] that show thesis
    by (auto simp: utstring_find_raw_def)
qed

end
