(* ===== verification/Utstring_Search.thy ===== *)
theory Utstring_Search
  imports Utstring_Kmp
begin

text \<open>
  What the searches of a \<open>UT_string\<close> return. The functions that work from the right are shown
  to be the mirror image of those that work from the left; both searches are then equal to
  trying every position of the text, for the start positions that lie inside it.
\<close>

section \<open>From the right: the mirror image\<close>

text \<open>
  The right-to-left functions do on the needle and the text what the left-to-right ones do on
  their reversals, with index \<open>i\<close> for \<open>m - 1 - i\<close>.
\<close>

definition mirror :: "string \<Rightarrow> int list \<Rightarrow> int list" where
  "mirror p t = map (\<lambda>v. int (length p) - 1 - v) (rev t)"

lemma length_mirror [simp]: "length (mirror p t) = length t"
  by (simp add: mirror_def)

lemma mirror_mirror [simp]: "mirror p (mirror p t) = t"
  by (simp add: mirror_def rev_map comp_def)

lemma rd_rev: "rd (rev xs) i = rd xs (int (length xs) - 1 - i)"
  by (auto simp: rd_def rev_nth nat_diff_distrib' intro!: arg_cong [of _ _ "(!) xs"])

lemma rd_mirror:
  "length t = length p + 1
    \<Longrightarrow> rd (mirror p t) i = map_option (\<lambda>v. int (length p) - 1 - v) (rd t (int (length p) - i))"
  by (auto simp: rd_def mirror_def rev_nth nat_diff_distrib' intro!: arg_cong [of _ _ "(!) t"])

lemma wr_mirror:
  "length t = length p + 1
    \<Longrightarrow> wr (mirror p t) i v
      = map_option (mirror p) (wr t (int (length p) - i) (int (length p) - 1 - v))"
  by (auto simp: wr_def mirror_def rev_map [symmetric] map_update rev_update nat_diff_distrib'
      intro!: arg_cong2 [of _ _ _ _ "list_update (map (\<lambda>v. int (length p) - 1 - v) (rev t))"])

lemma wr_length: "wr xs i v = Some ys \<Longrightarrow> length ys = length xs"
  by (auto simp: wr_def split: if_splits)

lemma fall_forward_mirror:
  assumes "fall_back (rev p) (mirror p t) c j = Some r" and "length t = length p + 1"
  shows "fall_forward p (int (length p)) t c (int (length p) - 1 - j)
    = Some (int (length p) - 1 - r)"
proof -
  have "rev p = rev p \<longrightarrow> mirror p t = mirror p t \<longrightarrow> ?thesis"
  proof (rule fall_back.raw_induct [OF _ assms(1), where P = "\<lambda>q u c j r. q = rev p \<longrightarrow>
      u = mirror p t \<longrightarrow> fall_forward p (int (length p)) t c (int (length p) - 1 - j)
        = Some (int (length p) - 1 - r)"], intro impI)
    fix f q u c j r
    assume IH: "\<And>q u c j r. f q u c j = Some r \<Longrightarrow> q = rev p \<longrightarrow> u = mirror p t \<longrightarrow>
        fall_forward p (int (length p)) t c (int (length p) - 1 - j) = Some (int (length p) - 1 - r)"
      and q: "q = rev p" "u = mirror p t"
      and body: "(if j > -1 then do { a \<leftarrow> c; b \<leftarrow> rd q j;
          if a \<noteq> b then do { j' \<leftarrow> rd u j; f q u c j' } else Some j } else Some j) = Some r"
    have "f q u c (int (length p) - 1 - k) = Some r
        \<Longrightarrow> fall_forward p (int (length p)) t c k = Some (int (length p) - 1 - r)" for k
      using IH [of q u c "int (length p) - 1 - k" r] q by simp
    then show "fall_forward p (int (length p)) t c (int (length p) - 1 - j)
        = Some (int (length p) - 1 - r)"
      using body q assms(2) by (subst fall_forward.simps)
        (auto simp: rd_rev rd_mirror split: if_splits Option.bind_splits)
  qed
  then show ?thesis by simp
qed

lemma buildR_mirror:
  assumes "build_loop (rev p) (int (length p)) (mirror p t) i j = Some r"
    and "length t = length p + 1"
  shows "buildR_loop p (int (length p)) t (int (length p) - 1 - i) (int (length p) - 1 - j)
    = Some (mirror p r)"
proof -
  define m where "m = int (length p)"
  have "\<forall>t. rev p = rev p \<longrightarrow> m = m \<longrightarrow> mirror p t' = mirror p t \<longrightarrow> length t = length p + 1 \<longrightarrow>
      buildR_loop p m t (m - 1 - i) (m - 1 - j) = Some (mirror p r)"
    if "build_loop (rev p) m (mirror p t') i j = Some r" for t'
  proof (rule build_loop.raw_induct [OF _ that, where P = "\<lambda>q n u i j r. \<forall>t. q = rev p \<longrightarrow>
      n = m \<longrightarrow> u = mirror p t \<longrightarrow> length t = length p + 1 \<longrightarrow>
      buildR_loop p m t (m - 1 - i) (m - 1 - j) = Some (mirror p r)"], intro allI impI)
    fix f q n u i j r t
    assume IH: "\<And>q n u i j r. f q n u i j = Some r \<Longrightarrow> \<forall>t. q = rev p \<longrightarrow> n = m \<longrightarrow>
        u = mirror p t \<longrightarrow> length t = length p + 1 \<longrightarrow>
        buildR_loop p m t (m - 1 - i) (m - 1 - j) = Some (mirror p r)"
      and q: "q = rev p" "n = m" "u = mirror p t" and t: "length t = length p + 1"
      and body: "(if i < n then do {
          j \<leftarrow> fall_back q u (rd q i) j;
          let i = i + 1; j = j + 1 in
          if i < n then do {
            a \<leftarrow> rd q i; b \<leftarrow> rd q j;
            t' \<leftarrow> (if a = b then do { v \<leftarrow> rd u j; wr u i v } else wr u i j);
            f q n t' i j
          } else do { t' \<leftarrow> wr u i j; f q n t' i j }
        } else Some u) = Some r"
    show "buildR_loop p m t (m - 1 - i) (m - 1 - j) = Some (mirror p r)"
    proof (cases "i < m")
      case False
      with body q show ?thesis by (subst buildR_loop.simps) auto
    next
      case True
      with body q obtain k where k: "fall_back (rev p) (mirror p t) (rd (rev p) i) j = Some k"
        by (auto split: Option.bind_splits)
      define I K where "I = m - 1 - i" and "K = m - 1 - k"
      have IK: "0 \<le> I" "i + 1 < m \<longleftrightarrow> 0 \<le> I - 1" "m - 1 - (k + 1) = K - 1"
        using True by (auto simp: I_def K_def)
      have rdp: "rd q (i + 1) = rd p (I - 1)" "rd q (k + 1) = rd p (K - 1)"
        using q(1) by (simp_all add: rd_rev I_def K_def m_def)
      have ff: "fall_forward p m t (rd p I) (m - 1 - j) = Some K"
        using fall_forward_mirror [OF k t] by (simp add: rd_rev m_def I_def K_def)
      have w: "wr u (i + 1) v = map_option (mirror p) (wr t I (m - 1 - v))" for v
        using wr_mirror [OF t, of "i + 1" v] q(3) by (simp add: m_def I_def diff_diff_eq add.commute)
      have v: "rd u (k + 1) = map_option (\<lambda>v. m - 1 - v) (rd t K)"
        using rd_mirror [OF t, of "k + 1"] q(3) by (simp add: m_def K_def diff_diff_eq add.commute)
      have IH': "buildR_loop p m s (I - 1) (K - 1) = Some (mirror p r)"
        if "f q n (mirror p s) (i + 1) (k + 1) = Some r" "wr t at x = Some s" for s at x
      proof -
        from t that(2) have "length s = length p + 1" using wr_length by fastforce
        with IH [OF that(1)] q(1,2) show ?thesis by (simp add: I_def K_def diff_diff_eq)
      qed
      have "buildR_loop p m t I (m - 1 - j) = Some (mirror p r)"
      proof (cases "i + 1 < m")
        case False
        with body True k q obtain s where s: "wr u (i + 1) (k + 1) = Some s"
          "f q n s (i + 1) (k + 1) = Some r"
          by (auto simp: Let_def split: Option.bind_splits)
        from s(1) w [of "k + 1"] have "map_option (mirror p) (wr t I (K - 1)) = Some s"
          unfolding IK(3) by simp
        then obtain z where z: "wr t I (K - 1) = Some z" "s = mirror p z" by auto
        with s IH' have "buildR_loop p m z (I - 1) (K - 1) = Some (mirror p r)" by simp
        with False IK ff z show ?thesis by (subst buildR_loop.simps) (simp add: Let_def)
      next
        case Suc: True
        with body True k q obtain a b s where s: "rd q (i + 1) = Some a" "rd q (k + 1) = Some b"
          "(if a = b then do { v \<leftarrow> rd u (k + 1); wr u (i + 1) v } else wr u (i + 1) (k + 1)) = Some s"
          "f q n s (i + 1) (k + 1) = Some r"
          by (auto simp: Let_def split: Option.bind_splits)
        define x where "x = (if a = b then rd t K else Some (K - 1))"
        from s(3) obtain y z where y: "x = Some y" "wr t I y = Some z" "s = mirror p z"
          using w v IK(3) by (auto simp: x_def split: if_splits Option.bind_splits)
        with s IH' have "buildR_loop p m z (I - 1) (K - 1) = Some (mirror p r)" by simp
        with Suc IK ff y s(1,2) rdp show ?thesis
          by (subst buildR_loop.simps) (auto simp: Let_def x_def split: if_splits)
      qed
      then show ?thesis by (simp add: I_def)
    qed
  qed
  with assms show ?thesis by (simp add: m_def)
qed

lemma buildR_table:
  assumes "length t = length p + 1" and "length p < 2 ^ 31"
  obtains t' where "utstring_BuildTableR p (length p) t = Some t'"
    "kmp_table (rev p) (mirror p t')"
proof -
  obtain u where u: "utstring_BuildTable (rev p) (length p) (mirror p t) = Some u"
      "kmp_table (rev p) u"
    using build_table [of "mirror p t" "rev p"] assms(1) by auto
  have w: "wr (mirror p t) 0 (-1) = map_option (mirror p) (wr t (int (length p)) (int (length p)))"
    using wr_mirror [OF assms(1), of 0 "-1"] by simp
  obtain s where s: "wr t (int (length p)) (int (length p)) = Some s" "length s = length p + 1"
    using assms(1) by simp
  from u(1) w s have "build_loop (rev p) (int (length p)) (mirror p s) 0 (-1) = Some u"
    by (simp add: utstring_BuildTable_def)
  from buildR_mirror [OF this s(2)] s(1) assms(2)
  have "utstring_BuildTableR p (length p) t = Some (mirror p u)"
    by (simp add: utstring_BuildTableR_def Let_def)
  with u(2) show thesis by (intro that) auto
qed

section \<open>The search from the right finds the last occurrence\<close>

definition last_occ :: "string \<Rightarrow> string \<Rightarrow> int \<Rightarrow> bool" where
  "last_occ p h r \<longleftrightarrow> r = -1 \<and> (\<forall>k. \<not> occ p h k)
     \<or> (\<exists>k. r = int k \<and> occ p h k \<and> (\<forall>k' > k. \<not> occ p h k'))"

lemma occ_rev:
  assumes "k + length p \<le> length h"
  shows "occ (rev p) (rev h) k \<longleftrightarrow> occ p h (length h - length p - k)"
proof -
  have "take (length p) (drop k (rev h)) = rev (take (length p) (drop (length h - length p - k) h))"
  proof -
    have a: "length (take (length h - k) h) - length p = length h - length p - k"
      "length h - k - (length h - length p - k) = length p"
      using assms by simp_all
    show ?thesis by (simp only: drop_rev take_rev a drop_take)
  qed
  with assms show ?thesis by (auto simp: occ_def)
qed

lemma first_occ_rev:
  assumes "first_match (rev p) (rev h) (int k)"
  shows "k + length p \<le> length h \<and> last_occ p h (int (length h - length p - k))"
proof -
  from assms have k: "occ (rev p) (rev h) k" "\<And>k'. k' < k \<Longrightarrow> \<not> occ (rev p) (rev h) k'"
    by (auto simp: first_match_def)
  then have l: "k + length p \<le> length h" by (simp add: occ_def)
  have "\<not> occ p h k'" if "k' > length h - length p - k" for k'
  proof
    assume o: "occ p h k'"
    then have "k' + length p \<le> length h" by (simp add: occ_def)
    with o that k(2) [of "length h - length p - k'"] occ_rev [of "length h - length p - k'" p h]
    show False by auto
  qed
  with k(1) l show ?thesis unfolding last_occ_def occ_rev [OF l] by blast
qed

lemma no_occ_rev: "first_match (rev p) (rev h) (-1) \<Longrightarrow> last_occ p h (-1)"
proof -
  assume "first_match (rev p) (rev h) (-1)"
  then have n: "\<not> occ (rev p) (rev h) k" for k by (auto simp: first_match_def)
  have "\<not> occ p h k" for k
    using n [of "length h - length p - k"] occ_rev [of "length h - length p - k" p h]
    by (auto simp: occ_def)
  then show ?thesis by (simp add: last_occ_def)
qed

lemma findR_loop_last:
  assumes "\<And>k. k < length h \<Longrightarrow> rd d (int k) = Some (h ! k)" and "kmp_table (rev p) (mirror p t)"
    and "0 < length p" and "length p < 2 ^ 31" and "i < length p" and "searched (rev p) (rev h) i j"
  shows "\<exists>r. findR_loop d (int (length h)) p (int (length p)) t (int (length p) - 1 - int i)
      (int (length h) - 1 - int j) = Some r \<and> last_occ p h r"
  using assms(5,6)
proof (induction "length h - j" arbitrary: i j rule: less_induct)
  case less
  have j: "j \<le> length h" using less.prems(2) by (simp add: searched_def)
  have t: "length t = length p + 1" using assms(2) by (simp add: kmp_table_def)
  have i32: "int32 (int (length p)) = int (length p)" using assms(4) by (simp add: int32_small)
  show ?case
  proof (cases "j < length h \<and> length p \<le> length h - j + i")
    case False
    with j have "findR_loop d (int (length h)) p (int (length p)) t (int (length p) - 1 - int i)
        (int (length h) - 1 - int j) = Some (-1)"
      by (subst findR_loop.simps) auto
    moreover have "first_match (rev p) (rev h) (-1)"
      using search_done [OF less.prems(2)] False j by auto
    ultimately show ?thesis using no_occ_rev by blast
  next
    case True
    then have cond: "int (length h) - 1 - int j \<ge> 0"
      "int (length h) - 1 - int j \<ge> int (length p) - 1 - int i" by linarith+
    have c: "rd d (int (length h) - 1 - int j) = Some (rev h ! j)"
    proof -
      have "int (length h) - 1 - int j = int (length h - Suc j)" using True by simp
      with True show ?thesis using assms(1) [of "length h - Suc j"] by (simp add: rev_nth)
    qed
    have "best (\<lambda>l. l < length (rev p) \<and> bord (rev p) (take j (rev h)) l) (int i)"
      using less.prems(2) by (simp add: searched_def)
    then obtain r where r: "fall_back (rev p) (mirror p t) (Some (rev h ! j)) (int i) = Some r"
        "best (\<lambda>l. l < length (rev p) \<and> bord (rev p) (take j (rev h)) l \<and> rev p ! l = rev h ! j) r"
      by (rule fall_back_best [where t = "mirror p t" and c = "rev h ! j"])
        (use assms(2) in \<open>auto simp: kmp_table_def\<close>)
    have "j < length (rev h)" "0 < length (rev p)" using True assms(3) by auto
    from searched_step [OF less.prems(2) this r(2)] obtain k where k: "r + 1 = int k"
      "k = length p \<Longrightarrow> length p \<le> Suc j \<and> first_match (rev p) (rev h) (int (Suc j - length p))"
      "k \<noteq> length p \<Longrightarrow> k < length p \<and> searched (rev p) (rev h) k (Suc j)"
      by (auto simp: length_rev)
    have step: "findR_loop d (int (length h)) p (int (length p)) t (int (length p) - 1 - int i)
        (int (length h) - 1 - int j)
        = (if int (length p) - 1 - int k < 0 then Some (int (length h) - int (Suc j))
           else findR_loop d (int (length h)) p (int (length p)) t (int (length p) - 1 - int k)
             (int (length h) - 1 - int (Suc j)))"
      using cond c fall_forward_mirror [OF r(1) t]
      by (subst findR_loop.simps) (simp add: i32 Let_def k(1) [symmetric] algebra_simps)
    show ?thesis
    proof (cases "k = length p")
      case True
      with k(2) have f: "length p \<le> Suc j" "first_match (rev p) (rev h) (int (Suc j - length p))"
        by auto
      from first_occ_rev [OF f(2)] f(1) \<open>j < length (rev h)\<close>
      have "last_occ p h (int (length h) - int (Suc j))" by (auto simp: of_nat_diff)
      with step True show ?thesis by auto
    next
      case False
      with k(3) True less.hyps [of "Suc j" k] show ?thesis unfolding step by auto
    qed
  qed
qed

section \<open>What the searches of a string return\<close>

text \<open>The first occurrence at or after a position, and the last one that ends by it.\<close>

definition find_from :: "string \<Rightarrow> string \<Rightarrow> nat \<Rightarrow> int" where
  "find_from p x a =
     (case filter (occ p x) [a..<length x] of [] \<Rightarrow> -1 | k # _ \<Rightarrow> if p = [] then -1 else int k)"

definition find_upto :: "string \<Rightarrow> string \<Rightarrow> nat \<Rightarrow> int" where
  "find_upto p x e =
     (case rev (filter (occ p (take (e + 1) x)) [0..<length x]) of
        [] \<Rightarrow> -1 | k # _ \<Rightarrow> if p = [] then -1 else int k)"

lemma upt_split: "a \<le> k \<Longrightarrow> k < n \<Longrightarrow> [a..<n] = [a..<k] @ k # [Suc k..<n]"
  using upt_add_eq_append [of a k "n - k"] by (simp add: upt_conv_Cons)

lemma filter_first:
  assumes "P k" and "a \<le> k" and "k < n" and "\<And>k'. a \<le> k' \<Longrightarrow> k' < k \<Longrightarrow> \<not> P k'"
  shows "\<exists>ks. filter P [a..<n] = k # ks"
proof -
  from assms(2,3) have "[a..<n] = [a..<k] @ k # [Suc k..<n]"
    by (rule upt_split)
  moreover have "filter P [a..<k] = []" using assms(4) by (auto simp: filter_empty_conv)
  ultimately show ?thesis using assms(1) by simp
qed

lemma filter_last:
  assumes "P k" and "k < n" and "\<And>k'. k < k' \<Longrightarrow> \<not> P k'"
  shows "\<exists>ks. rev (filter P [0..<n]) = k # ks"
proof -
  from assms(2) have "[0..<n] = [0..<k] @ k # [Suc k..<n]"
    by (intro upt_split) auto
  moreover have "filter P [Suc k..<n] = []" using assms(3) by (auto simp: filter_empty_conv)
  ultimately show ?thesis using assms(1) by simp
qed

lemma occ_drop: "p \<noteq> [] \<Longrightarrow> occ p (drop a x) k \<longleftrightarrow> a \<le> length x \<and> occ p x (k + a)"
  by (cases p) (auto simp: occ_def)

lemma occ_lt: "occ p x k \<Longrightarrow> p \<noteq> [] \<Longrightarrow> k < length x"
  by (cases p) (auto simp: occ_def)

lemma first_occ_find_from:
  assumes "first_match p (drop a x) r" and "p \<noteq> []" and "a \<le> length x"
  shows "find_from p x a = (if r \<ge> 0 then r + int a else r)"
  using assms(1) unfolding first_match_def
proof (elim disjE exE conjE)
  assume r: "r = -1" "\<forall>k. \<not> occ p (drop a x) k"
  have "\<not> occ p x k" if "a \<le> k" for k
    using r(2) [rule_format, of "k - a"] that assms(2,3) by (simp add: occ_drop)
  then have "filter (occ p x) [a..<length x] = []" by (auto simp: filter_empty_conv)
  with r show ?thesis by (simp add: find_from_def)
next
  fix k
  assume k: "r = int k" "occ p (drop a x) k" "\<forall>k'<k. \<not> occ p (drop a x) k'"
  have o: "occ p x (k + a)" using k(2) assms(2) by (simp add: occ_drop)
  have n: "\<not> occ p x k'" if "a \<le> k'" "k' < k + a" for k'
    using k(3) [rule_format, of "k' - a"] that assms(2,3) by (simp add: occ_drop)
  from filter_first [of "occ p x" "k + a" a "length x"] o n occ_lt [OF o assms(2)]
  obtain ks where "filter (occ p x) [a..<length x] = (k + a) # ks" by auto
  with k(1) assms(2) show ?thesis by (simp add: find_from_def)
qed

lemma last_occ_find_upto:
  assumes "last_occ p (take (e + 1) x) r" and "p \<noteq> []"
  shows "find_upto p x e = r"
  using assms(1) unfolding last_occ_def
proof (elim disjE exE conjE)
  assume "r = -1" "\<forall>k. \<not> occ p (take (e + 1) x) k"
  then show ?thesis by (simp add: find_upto_def)
next
  fix k
  assume k: "r = int k" "occ p (take (e + 1) x) k" "\<forall>k'>k. \<not> occ p (take (e + 1) x) k'"
  from occ_lt [OF k(2) assms(2)] have "k < length x" by simp
  with filter_last [of "occ p (take (e + 1) x)" k "length x"] k(2,3)
  obtain ks where "rev (filter (occ p (take (e + 1) x)) [0..<length x]) = k # ks" by auto
  with k(1) assms(2) show ?thesis by (simp add: find_upto_def)
qed

text \<open>A search returns -1 at once when the needle is empty or longer than what is searched.\<close>

lemma occ_short: "length h < length p \<Longrightarrow> \<not> occ p h k"
  by (simp add: occ_def)

lemma find_from_short:
  assumes "length x < a + length p \<or> p = []"
  shows "find_from p x a = -1"
proof (cases "p = []")
  case False
  with assms have "\<not> occ p x k" if "a \<le> k" for k using that by (auto simp: occ_def)
  then have "filter (occ p x) [a..<length x] = []" by (auto simp: filter_empty_conv)
  then show ?thesis by (simp add: find_from_def)
qed (simp add: find_from_def split: list.split)

lemma find_upto_short: "e + 1 < length p \<or> p = [] \<Longrightarrow> find_upto p x e = -1"
  by (auto simp: find_upto_def occ_short split: list.split)

lemma start_position_in:
  "- (2 ^ 62) \<le> pos \<Longrightarrow> pos < 2 ^ 62 \<Longrightarrow> si s < 2 ^ 62
    \<Longrightarrow> start_position s pos = (if pos < 0 then int (si s) + pos else pos)"
  by (simp add: start_position_def)

lemma rd_text: "us_room s \<Longrightarrow> k < si s \<Longrightarrow> rd (sd s) (int k) = Some (ut_text s ! k)"
  by (simp add: us_room_def ut_text_def)

text \<open>C37: \<open>utstring_find\<close> with the Knuth-Morris-Pratt table is the search by trying every
  position: for a text of less than 2 GiB and a start position inside it, counted from the end
  when negative, it returns, reads and writes only inside its arrays, and its result is the first
  occurrence at or after the start, or -1. What \<open>malloc\<close> left in the table does not matter.\<close>

theorem utstring_find_first:
  assumes "us_room s" and "si s < 2 ^ 31" and "length p < 2 ^ 31" and "length t = length p + 1"
    and "- int (si s) \<le> pos" and "pos < 2 ^ 62"
  shows "utstring_find s pos p (length p) (Some t)
    = Some (find_from p (ut_text s) (nat (if pos < 0 then int (si s) + pos else pos)))"
proof -
  define a where "a = nat (if pos < 0 then int (si s) + pos else pos)"
  have a: "start_position s pos = int a"
    using assms(2,5,6) by (subst start_position_in) (auto simp: a_def)
  have "int a < 2 ^ 62" using assms(2,5,6) by (auto simp: a_def)
  then have n: "to_long (int (si s) - int a) = int (si s) - int a"
    "to_long (int (length p)) = int (length p)"
    using assms(2,3) by auto
  have "utstring_find s pos p (length p) (Some t) = Some (find_from p (ut_text s) a)"
  proof (cases "p \<noteq> [] \<and> a + length p \<le> si s")
    case False
    then have "find_from p (ut_text s) a = -1"
      using assms(1) by (intro find_from_short) auto
    with False show ?thesis by (auto simp: utstring_find_def a n Let_def)
  next
    case True
    define h where "h = drop a (ut_text s)"
    have h: "length h = si s - a" using assms(1) by (simp add: h_def)
    have hay: "rd (sd s) (int a + int k) = Some (h ! k)" if "k < length h" for k
      using rd_text [OF assms(1), of "a + k"] that h True assms(1) by (simp add: h_def)
    obtain u where u: "utstring_BuildTable p (length p) t = Some u" "kmp_table p u"
      using build_table [OF assms(4)] by blast
    have "length h < 2 ^ 31" "0 < length p" using h assms(2) True by auto
    from find_raw_first [OF hay u(2) this assms(3)] obtain r where
      r: "utstring_find_raw (sd s) (int a) (int (length h)) p (int (length p)) u = Some r"
        "first_match p h r" by blast
    have len: "to_size (int (si s) - int a) = int (length h)"
      using True assms(2) h by (simp add: of_nat_diff)
    show ?thesis
      using u r(1) True first_occ_find_from [OF r(2) [unfolded h_def]] assms(1)
      by (simp add: utstring_find_def a n len Let_def)
  qed
  then show ?thesis by (simp add: a_def)
qed

text \<open>\<open>utstring_findR\<close> finds, under the same conditions, the last occurrence whose last
  character is at or before the start position, or returns -1.\<close>

theorem utstring_findR_last:
  assumes "us_room s" and "si s < 2 ^ 31" and "length p < 2 ^ 31" and "length t = length p + 1"
    and "- int (si s) \<le> pos" and "pos < int (si s)"
  shows "utstring_findR s pos p (length p) (Some t)
    = Some (find_upto p (ut_text s) (nat (if pos < 0 then int (si s) + pos else pos)))"
proof -
  define e where "e = nat (if pos < 0 then int (si s) + pos else pos)"
  have e: "start_position s pos = int e"
    using assms(2,5,6) by (subst start_position_in) (auto simp: e_def)
  have e_lt: "e < si s" using assms(5,6) by (auto simp: e_def nat_less_iff)
  have m: "to_long (int (length p)) = int (length p)" using assms(3) by simp
  have "utstring_findR s pos p (length p) (Some t) = Some (find_upto p (ut_text s) e)"
  proof (cases "p \<noteq> [] \<and> length p \<le> e + 1")
    case False
    then have "find_upto p (ut_text s) e = -1" by (intro find_upto_short) auto
    with False show ?thesis by (auto simp: utstring_findR_def e m Let_def)
  next
    case True
    define h where "h = take (e + 1) (ut_text s)"
    have h: "length h = e + 1" using assms(1) e_lt by (simp add: h_def)
    have hay: "rd (sd s) (int k) = Some (h ! k)" if "k < length h" for k
      using rd_text [OF assms(1), of k] that h e_lt by (simp add: h_def)
    obtain u where u: "utstring_BuildTableR p (length p) t = Some u" "kmp_table (rev p) (mirror p u)"
      using buildR_table [OF assms(4,3)] by blast
    have p: "0 < length p" using True by simp
    have "searched (rev p) (rev h) 0 0" using p by (auto simp: searched_def bord_def)
    from findR_loop_last [OF hay u(2) p assms(3) p this] obtain r where
      r: "findR_loop (sd s) (int (length h)) p (int (length p)) u (int (length p) - 1)
          (int (length h) - 1) = Some r" "last_occ p h r" by auto
    have "utstring_findR_raw (sd s) (int (length h)) p (int (length p)) u = Some r"
      using r(1) assms(2,3) e_lt h by (simp add: utstring_findR_raw_def)
    moreover have "to_size (int e + 1) = int (length h)" using e_lt assms(2) h by simp
    ultimately show ?thesis
      using u(1) True last_occ_find_upto [OF r(2) [unfolded h_def]]
      by (simp add: utstring_findR_def e m Let_def)
  qed
  then show ?thesis by (simp add: e_def)
qed

lemma fall_back_bad: "0 \<le> i \<Longrightarrow> fall_back p t None i = None"
  by (simp add: fall_back.simps)

lemma fall_forward_bad: "i < m \<Longrightarrow> fall_forward p m t None i = None"
  by (simp add: fall_forward.simps)

text \<open>The start position is not checked. A negative one that reaches back beyond the start
  of the text makes \<open>utstring_find\<close> read in front of the buffer.\<close>

theorem find_reads_before_buffer:
  assumes "us_room s" and "p \<noteq> []" and "pos < - int (si s)" and "int (length p) \<le> - pos"
    and "- pos < 2 ^ 31"
  shows "utstring_find s pos p (length p) (Some t) = None"
proof -
  have a: "start_position s pos = int (si s) + pos"
    using assms(1,3,5) by (subst start_position_in) (auto simp: us_room_def)
  have "rd (sd s) (int (si s) + pos) = None" using assms(3) by (simp add: rd_def)
  then have "utstring_find_raw (sd s) (int (si s) + pos) (- pos) p (int (length p)) u = None" for u
    using assms(2-5)
    by (simp add: utstring_find_raw_def find_loop.simps fall_back_bad int32_small)
  with assms(2-5) show ?thesis
    by (auto simp: utstring_find_def a Let_def Option.bind_eq_None_conv)
qed

text \<open>In the same way a start position at or beyond the capacity makes \<open>utstring_findR\<close> read
  behind the buffer.\<close>

theorem findR_reads_behind_buffer:
  assumes "us_room s" and "p \<noteq> []" and "int (sn s) \<le> pos" and "int (length p) \<le> pos + 1"
    and "pos < 2 ^ 31 - 1"
  shows "utstring_findR s pos p (length p) (Some t) = None"
proof -
  have a: "start_position s pos = pos" using assms(3) by (simp add: start_position_def)
  have "rd (sd s) pos = None" using assms(1,3) by (simp add: rd_def us_room_def)
  then have "utstring_findR_raw (sd s) (pos + 1) p (int (length p)) u = None" for u
    using assms(2-5)
    by (simp add: utstring_findR_raw_def findR_loop.simps fall_forward_bad int32_small)
  with assms(2-5) show ?thesis
    by (auto simp: utstring_findR_def a Let_def Option.bind_eq_None_conv)
qed

text \<open>The cast of the text's length to \<open>int\<close>: a text of 2 GiB or more is not searched at all.\<close>

theorem find_misses_large_text:
  assumes "2 ^ 31 \<le> si s" and "si s < 2 ^ 32" and "length p \<le> si s" and "length t = length p + 1"
  shows "utstring_find s 0 p (length p) (Some t) = Some (-1)"
proof (cases "p = []")
  case False
  obtain u where u: "utstring_BuildTable p (length p) t = Some u"
    using build_table [OF assms(4)] by blast
  have "(word_of_int (int (si s)) :: 32 word) = word_of_int (int (si s) - 2 ^ 32)"
    by (simp add: word_of_int_eq_iff take_bit_eq_mod)
  then have "int32 (int (si s)) = int32 (int (si s) - 2 ^ 32)"
    unfolding int32_def by (simp only:)
  also have "\<dots> = int (si s) - 2 ^ 32" using assms(1,2) by (intro int32_small) auto
  finally have "int32 (int (si s)) = int (si s) - 2 ^ 32" .
  with assms(2) have "\<not> 0 < int32 (int (si s))" by simp
  then show ?thesis
    using assms False u
    by (simp add: utstring_find_def start_position_def utstring_find_raw_def find_loop.simps Let_def)
qed (simp add: utstring_find_def Let_def)

section \<open>Examples\<close>

text \<open>The string of the searches in \<open>doc/utstring.txt\<close>, in a buffer of its own.\<close>

definition doc_string :: ut_string where
  "doc_string = \<lparr>sd = ''ABC ABCDAB ABCDABCDABDE'' @ [nul], sn = 24, si = 23\<rparr>"

lemma doc_string_simps [simp]: "us_room doc_string" "si doc_string = 23"
  by (simp_all add: doc_string_def us_room_def)

theorem utstring_find_first_witness:
  "utstring_find doc_string (-9) ''ABC'' 3 (Some [7, 7, 7, 7]) = Some 15"
proof -
  have "find_from ''ABC'' (ut_text doc_string) 14 = 15" by code_simp
  with utstring_find_first [of doc_string "''ABC''" "[7, 7, 7, 7]" "-9"] show ?thesis
    by (simp add: numeral_3_eq_3)
qed

theorem utstring_findR_last_witness:
  "utstring_findR doc_string (-9) ''ABC'' 3 (Some [7, 7, 7, 7]) = Some 11"
proof -
  have "find_upto ''ABC'' (ut_text doc_string) 14 = 11" by code_simp
  with utstring_findR_last [of doc_string "''ABC''" "[7, 7, 7, 7]" "-9"] show ?thesis
    by (simp add: numeral_3_eq_3)
qed

theorem find_reads_before_buffer_witness:
  "utstring_find doc_string (-24) ''ABC'' 3 (Some [7, 7, 7, 7]) = None"
  using find_reads_before_buffer [of doc_string "''ABC''" "-24" "[7, 7, 7, 7]"]
  by (simp add: numeral_3_eq_3)

end
