(* ===== verification/Utlist_Nodes.thy ===== *)
theory Utlist_Nodes
  imports Bridge_Prelude
begin

text \<open>
  The elements of the lists of \<open>src_lib/uthash/include/utlist.h\<close> in a store: an element has an
  address, a value (the caller's fields) and the links \<open>prev\<close> and \<open>next\<close>; NULL is \<open>None\<close>.
  Following or assigning a link of NULL or of an address without an element gives nothing: the
  program would fault. \<open>lseg\<close> and \<open>dseg\<close> say which elements a chain of links visits.
\<close>

record 'v elt =
  el_val :: 'v
  el_prev :: "nat option"
  el_next :: "nat option"

type_synonym ptr = "nat option"
type_synonym 'v store = "nat \<Rightarrow> 'v elt option"

definition get_elt :: "'v store \<Rightarrow> ptr \<Rightarrow> 'v elt option" where
  "get_elt h p = (case p of None \<Rightarrow> None | Some a \<Rightarrow> h a)"

definition get_next :: "'v store \<Rightarrow> ptr \<Rightarrow> ptr option" where
  "get_next h p = map_option el_next (get_elt h p)"

definition get_prev :: "'v store \<Rightarrow> ptr \<Rightarrow> ptr option" where
  "get_prev h p = map_option el_prev (get_elt h p)"

definition get_val :: "'v store \<Rightarrow> ptr \<Rightarrow> 'v option" where
  "get_val h p = map_option el_val (get_elt h p)"

definition set_next :: "'v store \<Rightarrow> ptr \<Rightarrow> ptr \<Rightarrow> 'v store option" where
  "set_next h p q =
     (case p of None \<Rightarrow> None | Some a \<Rightarrow> map_option (\<lambda>n. h(a \<mapsto> n\<lparr>el_next := q\<rparr>)) (h a))"

definition set_prev :: "'v store \<Rightarrow> ptr \<Rightarrow> ptr \<Rightarrow> 'v store option" where
  "set_prev h p q =
     (case p of None \<Rightarrow> None | Some a \<Rightarrow> map_option (\<lambda>n. h(a \<mapsto> n\<lparr>el_prev := q\<rparr>)) (h a))"

section \<open>Chains\<close>

text \<open>\<open>first xs q\<close> is the pointer to the first of \<open>xs\<close>, or \<open>q\<close>; \<open>final p xs\<close> to the last.\<close>

definition first :: "nat list \<Rightarrow> ptr \<Rightarrow> ptr" where
  "first xs q = (case xs of [] \<Rightarrow> q | a # _ \<Rightarrow> Some a)"

definition final :: "ptr \<Rightarrow> nat list \<Rightarrow> ptr" where
  "final p xs = (if xs = [] then p else Some (last xs))"

fun lseg :: "'v store \<Rightarrow> nat list \<Rightarrow> ptr \<Rightarrow> bool" where
  "lseg h [] q = True"
| "lseg h (a # xs) q = ((\<exists>n. h a = Some n \<and> el_next n = first xs q) \<and> lseg h xs q)"

fun dseg :: "'v store \<Rightarrow> ptr \<Rightarrow> nat list \<Rightarrow> ptr \<Rightarrow> bool" where
  "dseg h p [] q = True"
| "dseg h p (a # xs) q =
     ((\<exists>n. h a = Some n \<and> el_prev n = p \<and> el_next n = first xs q) \<and> dseg h (Some a) xs q)"

definition vals :: "'v store \<Rightarrow> nat list \<Rightarrow> 'v list" where
  "vals h xs = map (\<lambda>a. el_val (the (h a))) xs"

lemma first_simps [simp]: "first [] q = q" "first (a # xs) q = Some a"
  by (simp_all add: first_def)

lemma final_simps [simp]: "final p [] = p" "final p (xs @ [a]) = Some a"
  by (simp_all add: final_def)

lemma final_Cons [simp]: "final p (a # xs) = final (Some a) xs"
  by (simp add: final_def)

lemma first_append [simp]: "first (xs @ ys) q = first xs (first ys q)"
  by (cases xs) auto

lemma final_append [simp]: "final p (xs @ ys) = final (final p xs) ys"
  by (auto simp: final_def)

lemma get_elt_simps [simp]: "get_elt h None = None" "get_elt h (Some a) = h a"
  by (simp_all add: get_elt_def)

lemma lseg_append [simp]: "lseg h (xs @ ys) q \<longleftrightarrow> lseg h xs (first ys q) \<and> lseg h ys q"
  by (induction xs) auto

lemma dseg_append [simp]:
  "dseg h p (xs @ ys) q \<longleftrightarrow> dseg h p xs (first ys q) \<and> dseg h (final p xs) ys q"
  by (induction xs arbitrary: p) auto

lemma dseg_lseg: "dseg h p xs q \<Longrightarrow> lseg h xs q"
  by (induction xs arbitrary: p) auto

lemma lseg_frame [simp]: "a \<notin> set xs \<Longrightarrow> lseg (h(a := e)) xs q = lseg h xs q"
  by (induction xs) auto

lemma dseg_frame [simp]: "a \<notin> set xs \<Longrightarrow> dseg (h(a := e)) p xs q = dseg h p xs q"
  by (induction xs arbitrary: p) auto

lemma vals_simps [simp]:
  "vals h [] = []" "vals h (a # xs) = el_val (the (h a)) # vals h xs"
  "vals h (xs @ ys) = vals h xs @ vals h ys"
  by (simp_all add: vals_def)

lemma vals_frame [simp]: "a \<notin> set xs \<Longrightarrow> vals (h(a := e)) xs = vals h xs"
  by (auto simp: vals_def)

lemma vals_keep:
  "h a = Some n \<Longrightarrow> el_val m = el_val n \<Longrightarrow> vals (h(a \<mapsto> m)) xs = vals h xs"
  by (auto simp: vals_def)

text \<open>Assigning the last \<open>next\<close> or the first \<open>prev\<close> of a segment.\<close>

lemma lseg_set_next:
  "lseg h (ys @ [t]) q \<Longrightarrow> t \<notin> set ys \<Longrightarrow> h t = Some m
    \<Longrightarrow> lseg (h(t \<mapsto> m\<lparr>el_next := q'\<rparr>)) (ys @ [t]) q'"
  by auto

lemma dseg_set_next:
  "dseg h p (ys @ [t]) q \<Longrightarrow> t \<notin> set ys \<Longrightarrow> h t = Some m
    \<Longrightarrow> dseg (h(t \<mapsto> m\<lparr>el_next := q'\<rparr>)) p (ys @ [t]) q'"
  by auto

lemma dseg_set_prev:
  "dseg h p (a # zs) q \<Longrightarrow> a \<notin> set zs \<Longrightarrow> h a = Some m
    \<Longrightarrow> dseg (h(a \<mapsto> m\<lparr>el_prev := p'\<rparr>)) p' (a # zs) q"
  by auto

lemma lseg_in: "lseg h xs q \<Longrightarrow> a \<in> set xs \<Longrightarrow> \<exists>n. h a = Some n"
  by (induction xs) auto

lemma dseg_in: "dseg h p xs q \<Longrightarrow> a \<in> set xs \<Longrightarrow> \<exists>n. h a = Some n"
  using dseg_lseg lseg_in by fast

end
