(* ===== verification/Utlist_Sort.thy ===== *)
theory Utlist_Sort
  imports Utlist_Nodes "HOL-Library.Multiset"
begin

text \<open>
  \<open>LL_SORT2\<close>, \<open>DL_SORT2\<close> and \<open>CDL_SORT2\<close> of \<open>src_lib/uthash/include/utlist.h\<close>: the bottom-up
  merge sort that relinks the elements of a list. The three macros are the same loops; \<open>Circular\<close>
  lists also compare a link they follow with the old head, and the doubly linked ones also set
  \<open>prev\<close>. Sizes are \<open>nat\<close>: the macros' \<open>int\<close> does not overflow on a list of fewer than
  \<open>2 ^ 30\<close> elements. The lemmas show that each sorts, is stable and keeps the list well formed.
\<close>

section \<open>The loops\<close>

datatype flavour = Single | Double | Circular

text \<open>The step along the list, which on a circular list ends at the old head.\<close>

definition ls_next :: "flavour \<Rightarrow> ptr \<Rightarrow> 'v store \<Rightarrow> ptr \<Rightarrow> ptr option" where
  "ls_next fl oldhead h q =
     do { n \<leftarrow> get_next h q;
          Some (if fl = Circular \<and> n = oldhead then None else n) }"

text \<open>The \<open>for\<close> loop that steps \<open>insize\<close> places along the list, counting in \<open>psize\<close>.\<close>

fun ls_advance :: "flavour \<Rightarrow> ptr \<Rightarrow> 'v store \<Rightarrow> nat \<Rightarrow> ptr \<Rightarrow> nat \<Rightarrow> (ptr \<times> nat) option" where
  "ls_advance fl oh h 0 q psize = Some (q, psize)"
| "ls_advance fl oh h (Suc k) q psize =
     do { q \<leftarrow> ls_next fl oh h q;
          if q = None then Some (q, psize + 1) else ls_advance fl oh h k q (psize + 1) }"

text \<open>The element \<open>e\<close> becomes the new tail of the merged list.\<close>

definition ls_link ::
    "flavour \<Rightarrow> 'v store \<Rightarrow> ptr \<Rightarrow> ptr \<Rightarrow> ptr \<Rightarrow> ('v store \<times> ptr \<times> ptr) option" where
  "ls_link fl h l tail e =
     do { (h, l) \<leftarrow> (if tail \<noteq> None then do { h \<leftarrow> set_next h tail e; Some (h, l) } else Some (h, e));
          h \<leftarrow> (if fl = Single then Some h else set_prev h e tail);
          Some (h, l, e) }"

partial_function (option) ls_merge ::
    "flavour \<Rightarrow> ('v \<Rightarrow> 'v \<Rightarrow> int) \<Rightarrow> ptr \<Rightarrow> 'v store \<Rightarrow> ptr \<Rightarrow> ptr \<Rightarrow> ptr \<Rightarrow> nat \<Rightarrow> ptr \<Rightarrow> nat
      \<Rightarrow> ('v store \<times> ptr \<times> ptr \<times> ptr) option" where
  "ls_merge fl cmp oh h l tail p psize q qsize =
     (if psize > 0 \<or> qsize > 0 \<and> q \<noteq> None then do {
        from_p \<leftarrow> (if psize = 0 then Some False
                   else if qsize = 0 \<or> q = None then Some True
                   else do { x \<leftarrow> get_val h p; y \<leftarrow> get_val h q; Some (cmp x y \<le> 0) });
        if from_p then do {
          p' \<leftarrow> ls_next fl oh h p;
          (h, l, tail) \<leftarrow> ls_link fl h l tail p;
          ls_merge fl cmp oh h l tail p' (psize - 1) q qsize
        } else do {
          q' \<leftarrow> ls_next fl oh h q;
          (h, l, tail) \<leftarrow> ls_link fl h l tail q;
          ls_merge fl cmp oh h l tail p psize q' (qsize - 1)
        }
      } else Some (h, l, tail, q))"

text \<open>One pass over the list, merging neighbouring runs of \<open>insize\<close> elements.\<close>

partial_function (option) ls_pass ::
    "flavour \<Rightarrow> ('v \<Rightarrow> 'v \<Rightarrow> int) \<Rightarrow> ptr \<Rightarrow> nat \<Rightarrow> 'v store \<Rightarrow> ptr \<Rightarrow> ptr \<Rightarrow> ptr \<Rightarrow> nat
      \<Rightarrow> ('v store \<times> ptr \<times> ptr \<times> nat) option" where
  "ls_pass fl cmp oh insize h l tail p nmerges =
     (if p \<noteq> None then do {
        (q, psize) \<leftarrow> ls_advance fl oh h insize p 0;
        (h, l, tail, q) \<leftarrow> ls_merge fl cmp oh h l tail p psize q insize;
        ls_pass fl cmp oh insize h l tail q (nmerges + 1)
      } else Some (h, l, tail, nmerges))"

text \<open>What each macro does at the end of a pass.\<close>

definition ls_close :: "flavour \<Rightarrow> 'v store \<Rightarrow> ptr \<Rightarrow> ptr \<Rightarrow> 'v store option" where
  "ls_close fl h l tail =
     (case fl of
        Single \<Rightarrow> if tail \<noteq> None then set_next h tail None else Some h
      | Double \<Rightarrow> do { h \<leftarrow> set_prev h l tail; set_next h tail None }
      | Circular \<Rightarrow> do { h \<leftarrow> set_prev h l tail; set_next h tail l })"

partial_function (option) ls_sort ::
    "flavour \<Rightarrow> ('v \<Rightarrow> 'v \<Rightarrow> int) \<Rightarrow> nat \<Rightarrow> 'v store \<Rightarrow> ptr \<Rightarrow> ('v store \<times> ptr) option" where
  "ls_sort fl cmp insize h l =
     do { (h, l', tail, nmerges) \<leftarrow> ls_pass fl cmp l insize h None None l 0;
          h \<leftarrow> ls_close fl h l' tail;
          if nmerges \<le> 1 then Some (h, l') else ls_sort fl cmp (insize * 2) h l' }"

definition ll_sort :: "('v \<Rightarrow> 'v \<Rightarrow> int) \<Rightarrow> 'v store \<Rightarrow> ptr \<Rightarrow> ('v store \<times> ptr) option" where
  "ll_sort cmp h l = (if l \<noteq> None then ls_sort Single cmp 1 h l else Some (h, l))"

definition dl_sort :: "('v \<Rightarrow> 'v \<Rightarrow> int) \<Rightarrow> 'v store \<Rightarrow> ptr \<Rightarrow> ('v store \<times> ptr) option" where
  "dl_sort cmp h l = (if l \<noteq> None then ls_sort Double cmp 1 h l else Some (h, l))"

definition cdl_sort :: "('v \<Rightarrow> 'v \<Rightarrow> int) \<Rightarrow> 'v store \<Rightarrow> ptr \<Rightarrow> ('v store \<times> ptr) option" where
  "cdl_sort cmp h l = (if l \<noteq> None then ls_sort Circular cmp 1 h l else Some (h, l))"

section \<open>Merging as lists\<close>

fun lmerge :: "('a \<Rightarrow> 'a \<Rightarrow> bool) \<Rightarrow> 'a list \<Rightarrow> 'a list \<Rightarrow> 'a list" where
  "lmerge le [] ys = ys"
| "lmerge le xs [] = xs"
| "lmerge le (x # xs) (y # ys) =
     (if le x y then x # lmerge le xs (y # ys) else y # lmerge le (x # xs) ys)"

function lpass :: "('a \<Rightarrow> 'a \<Rightarrow> bool) \<Rightarrow> nat \<Rightarrow> 'a list \<Rightarrow> 'a list" where
  "lpass le k xs =
     (if xs = [] \<or> k = 0 then []
      else lmerge le (take k xs) (take k (drop k xs)) @ lpass le k (drop k (drop k xs)))"
  by pat_completeness auto
termination by (relation "measure (\<lambda>(le, k, xs). length xs)") (auto simp: length_greater_0_conv)

function lruns :: "nat \<Rightarrow> 'a list \<Rightarrow> nat" where
  "lruns k xs = (if xs = [] \<or> k = 0 then 0 else Suc (lruns k (drop k (drop k xs))))"
  by pat_completeness auto
termination by (relation "measure (\<lambda>(k, xs). length xs)") (auto simp: length_greater_0_conv)

declare lpass.simps [simp del] lruns.simps [simp del]

lemma lmerge_Nil2 [simp]: "lmerge le xs [] = xs"
  by (cases xs) auto

lemma mset_lmerge [simp]: "mset (lmerge le xs ys) = mset xs + mset ys"
  by (induction le xs ys rule: lmerge.induct) auto

lemma set_lmerge [simp]: "set (lmerge le xs ys) = set xs \<union> set ys"
  by (metis mset_lmerge set_mset_mset set_mset_union)

lemma length_lmerge [simp]: "length (lmerge le xs ys) = length xs + length ys"
  by (metis mset_lmerge size_mset size_union)

lemma distinct_lmerge [simp]: "distinct (lmerge le xs ys) \<longleftrightarrow> distinct (xs @ ys)"
  using mset_eq_imp_distinct_iff [of "lmerge le xs ys" "xs @ ys"] by simp

lemma mset_take_drop: "mset (take k xs) + mset (drop k xs) = mset xs"
  by (metis append_take_drop_id mset_append)

lemma mset_lpass: "0 < k \<Longrightarrow> mset (lpass le k xs) = mset xs"
proof (induction le k xs rule: lpass.induct)
  case (1 le k xs)
  have "mset xs = mset (take k xs) + (mset (take k (drop k xs)) + mset (drop k (drop k xs)))"
    by (simp only: mset_take_drop)
  with 1 show ?case by (subst lpass.simps) (auto simp: add.assoc)
qed

lemma lruns_le_1: "0 < k \<Longrightarrow> lruns k xs \<le> 1 \<longleftrightarrow> length xs \<le> 2 * k"
  by (subst lruns.simps, subst lruns.simps) auto

text \<open>Merging two sorted runs sorts them, and a pass keeps the order of equal elements.\<close>

lemma lmerge_sorted:
  fixes key :: "'a \<Rightarrow> 'k::linorder"
  assumes "sorted (map key xs)" and "sorted (map key ys)"
  shows "sorted (map key (lmerge (\<lambda>a b. key a \<le> key b) xs ys))"
  using assms by (induction "\<lambda>a b. key a \<le> key b" xs ys rule: lmerge.induct) auto

lemma lmerge_stable:
  fixes key :: "'a \<Rightarrow> 'k::linorder"
  assumes "sorted (map key xs)" and "sorted (map key ys)"
  shows "filter (\<lambda>x. key x = c) (lmerge (\<lambda>a b. key a \<le> key b) xs ys)
    = filter (\<lambda>x. key x = c) xs @ filter (\<lambda>x. key x = c) ys"
  using assms
proof (induction "\<lambda>a b. key a \<le> key b" xs ys rule: lmerge.induct)
  case (3 x xs y ys)
  have "\<not> key x \<le> key y \<Longrightarrow> key y = c \<Longrightarrow> filter (\<lambda>x. key x = c) (x # xs) = []"
    using 3(3) by (auto simp: filter_empty_conv)
  with 3 show ?case by auto
qed auto

lemma sort_key_cong_filter:
  fixes key :: "'a \<Rightarrow> 'k::linorder"
  assumes "mset ys = mset xs" and "\<And>c. filter (\<lambda>x. key x = c) ys = filter (\<lambda>x. key x = c) xs"
  shows "sort_key key ys = sort_key key xs"
proof (rule properties_for_sort_key)
  show "filter (\<lambda>x. key k = key x) (sort_key key xs) = filter (\<lambda>x. key k = key x) ys" for k
    using assms(2) [of "key k"] sort_key_stable [of key "key k" xs] by (simp add: eq_commute)
qed (simp_all add: assms(1))

text \<open>The runs of length \<open>k\<close> of the list are sorted.\<close>

function sorted_runs :: "('a \<Rightarrow> 'k::linorder) \<Rightarrow> nat \<Rightarrow> 'a list \<Rightarrow> bool" where
  "sorted_runs key k xs =
     (if xs = [] \<or> k = 0 then True
      else sorted (map key (take k xs)) \<and> sorted_runs key k (drop k xs))"
  by pat_completeness auto
termination by (relation "measure (\<lambda>(key, k, xs). length xs)") auto

declare sorted_runs.simps [simp del]

lemma sorted_runs_1: "sorted_runs key (Suc 0) xs"
proof (induction xs)
  case (Cons a xs)
  then show ?case by (subst sorted_runs.simps) simp
qed (simp add: sorted_runs.simps)

lemma sorted_runs_step:
  "0 < k \<Longrightarrow> sorted_runs key k xs \<Longrightarrow> sorted (map key (take k xs)) \<and> sorted_runs key k (drop k xs)"
  by (cases "xs = []") (auto simp: sorted_runs.simps [of key k xs] sorted_runs.simps [of key k "[]"])

lemma sorted_runs_split:
  "0 < k \<Longrightarrow> sorted_runs key k xs
    \<Longrightarrow> sorted (map key (take k xs)) \<and> sorted (map key (take k (drop k xs)))
      \<and> sorted_runs key k (drop k (drop k xs))"
  by (blast dest: sorted_runs_step)

lemma lpass_stable:
  fixes key :: "'a \<Rightarrow> 'k::linorder"
  shows "0 < k \<Longrightarrow> sorted_runs key k xs \<Longrightarrow>
    filter (\<lambda>x. key x = c) (lpass (\<lambda>a b. key a \<le> key b) k xs) = filter (\<lambda>x. key x = c) xs"
proof (induction "\<lambda>a b. key a \<le> key b" k xs rule: lpass.induct)
  case (1 k xs)
  have "filter P xs = filter P (take k xs) @ filter P (take k (drop k xs)) @ filter P (drop k (drop k xs))"
    for P by (simp only: flip: filter_append) (simp only: append_take_drop_id)
  with 1 sorted_runs_split [OF 1(2,3)] show ?case
    by (subst lpass.simps) (auto simp: lmerge_stable)
qed

lemma lpass_sorted_runs:
  fixes key :: "'a \<Rightarrow> 'k::linorder"
  shows "0 < k \<Longrightarrow> sorted_runs key k xs
    \<Longrightarrow> sorted_runs key (k * 2) (lpass (\<lambda>a b. key a \<le> key b) k xs)"
proof (induction "\<lambda>a b. key a \<le> key b" k xs rule: lpass.induct)
  case (1 k xs)
  let ?le = "\<lambda>a b. key a \<le> key b"
  let ?m = "lmerge ?le (take k xs) (take k (drop k xs))"
  show ?case
  proof (cases "xs = []")
    case False
    have s: "sorted (map key ?m)" "sorted_runs key k (drop k (drop k xs))"
      using sorted_runs_split [OF 1(2,3)] by (auto simp: lmerge_sorted)
    have l: "length ?m = min (k * 2) (length xs)" by auto
    have e: "lpass ?le k xs = ?m @ lpass ?le k (drop k (drop k xs))"
      using False 1(2) by (subst lpass.simps) simp
    have r: "length xs < k * 2 \<Longrightarrow> lpass ?le k (drop k (drop k xs)) = []"
      by (simp add: lpass.simps)
    have "take (k * 2) (lpass ?le k xs) = ?m \<and> drop (k * 2) (lpass ?le k xs) = lpass ?le k (drop k (drop k xs))"
      using l r unfolding e by (cases "length xs < k * 2") auto
    with 1(1) [OF _ 1(2) s(2)] s(1) False 1(2) show ?thesis
      by (subst sorted_runs.simps) auto
  qed (simp add: lpass.simps sorted_runs.simps)
qed

lemma lpass_sort_key:
  fixes key :: "'a \<Rightarrow> 'k::linorder"
  assumes "0 < k" and "sorted_runs key k xs"
  shows "sort_key key (lpass (\<lambda>a b. key a \<le> key b) k xs) = sort_key key xs"
  by (rule sort_key_cong_filter) (simp_all add: assms mset_lpass lpass_stable)

lemma lpass_last:
  fixes key :: "'a \<Rightarrow> 'k::linorder"
  assumes "0 < k" and "sorted_runs key k xs" and "length xs \<le> 2 * k"
  shows "lpass (\<lambda>a b. key a \<le> key b) k xs = sort_key key xs"
proof -
  let ?ys = "lpass (\<lambda>a b. key a \<le> key b) k xs"
  have "length ?ys = length xs" using mset_lpass [OF assms(1)] by (metis size_mset)
  with lpass_sorted_runs [OF assms(1,2)] assms(1,3) have "sorted (map key ?ys)"
    by (subst (asm) sorted_runs.simps) (auto split: if_splits)
  then show ?thesis using lpass_sort_key [OF assms(1,2)] by (simp add: sort_key_id_if_sorted)
qed

section \<open>The loops as lists\<close>

text \<open>
  \<open>run\<close>: the elements met from \<open>p\<close> on; \<open>path\<close>: the same, up to the end of the list. \<open>merged\<close>:
  the list the merge has built, whose last link still dangles.
\<close>

fun run :: "flavour \<Rightarrow> ptr \<Rightarrow> 'v store \<Rightarrow> ptr \<Rightarrow> nat list \<Rightarrow> bool" where
  "run fl oh h p [] = True"
| "run fl oh h p (a # xs) = (p = Some a \<and> (\<exists>n. ls_next fl oh h p = Some n \<and> run fl oh h n xs))"

fun path :: "flavour \<Rightarrow> ptr \<Rightarrow> 'v store \<Rightarrow> ptr \<Rightarrow> nat list \<Rightarrow> bool" where
  "path fl oh h p [] = (p = None)"
| "path fl oh h p (a # xs) = (p = Some a \<and> (\<exists>n. ls_next fl oh h p = Some n \<and> path fl oh h n xs))"

definition ls_linked :: "flavour \<Rightarrow> 'v store \<Rightarrow> ptr \<Rightarrow> nat list \<Rightarrow> ptr \<Rightarrow> bool" where
  "ls_linked fl h p xs q \<longleftrightarrow> (if fl = Single then lseg h xs q else dseg h p xs q)"

definition merged :: "flavour \<Rightarrow> 'v store \<Rightarrow> ptr \<Rightarrow> ptr \<Rightarrow> nat list \<Rightarrow> bool" where
  "merged fl h l tail os \<longleftrightarrow>
     l = first os None \<and> tail = final None os \<and> (\<exists>q. ls_linked fl h None os q)"

definition valued :: "'v store \<Rightarrow> (nat \<Rightarrow> 'v) \<Rightarrow> nat list \<Rightarrow> bool" where
  "valued h v xs \<longleftrightarrow> (\<forall>a \<in> set xs. \<exists>n. h a = Some n \<and> el_val n = v a)"

lemma valued_set: "set xs \<subseteq> set ys \<Longrightarrow> valued h v ys \<Longrightarrow> valued h v xs"
  by (auto simp: valued_def)

lemma valued_keep:
  "valued h v xs \<Longrightarrow> h a = Some n \<Longrightarrow> el_val m = el_val n \<Longrightarrow> valued (h(a \<mapsto> m)) v xs"
  by (auto simp: valued_def)

lemma ls_next_cong: "h' a = h a \<Longrightarrow> ls_next fl oh h' (Some a) = ls_next fl oh h (Some a)"
  by (simp add: ls_next_def get_next_def)

lemma run_cong: "(\<And>a. a \<in> set xs \<Longrightarrow> h' a = h a) \<Longrightarrow> run fl oh h' p xs = run fl oh h p xs"
proof (induction xs arbitrary: p)
  case (Cons a xs)
  then have "ls_next fl oh h' (Some a) = ls_next fl oh h (Some a)" by (intro ls_next_cong) simp
  moreover have "run fl oh h' n xs = run fl oh h n xs" for n using Cons by simp
  ultimately show ?case by (cases "p = Some a") simp_all
qed simp

lemma path_cong: "(\<And>a. a \<in> set xs \<Longrightarrow> h' a = h a) \<Longrightarrow> path fl oh h' p xs = path fl oh h p xs"
proof (induction xs arbitrary: p)
  case (Cons a xs)
  then have "ls_next fl oh h' (Some a) = ls_next fl oh h (Some a)" by (intro ls_next_cong) simp
  moreover have "path fl oh h' n xs = path fl oh h n xs" for n using Cons by simp
  ultimately show ?case by (cases "p = Some a") simp_all
qed simp

lemma path_None: "path fl oh h None xs \<longleftrightarrow> xs = []"
  by (cases xs) auto

lemma linked_append:
  "ls_linked fl h p (xs @ ys) q \<longleftrightarrow> ls_linked fl h p xs (first ys q) \<and> ls_linked fl h (final p xs) ys q"
  by (simp add: ls_linked_def)

lemma linked_frame [simp]: "a \<notin> set xs \<Longrightarrow> ls_linked fl (h(a := e)) p xs q = ls_linked fl h p xs q"
  by (simp add: ls_linked_def)

text \<open>One element is appended; everything else stays.\<close>

lemma link_merged:
  assumes "merged fl h l tail os" and "h e = Some n" and "e \<notin> set os" and "distinct os"
  obtains h' l' where "ls_link fl h l tail (Some e) = Some (h', l', Some e)"
    "merged fl h' l' (Some e) (os @ [e])" "\<forall>a. a \<notin> set (os @ [e]) \<longrightarrow> h' a = h a"
    "\<forall>v xs. valued h v xs \<longrightarrow> valued h' v xs"
proof (cases os rule: rev_cases)
  case Nil
  define h' where "h' = (if fl = Single then h else h(e \<mapsto> n\<lparr>el_prev := None\<rparr>))"
  show thesis
    by (rule that [of h' "Some e"])
      (use assms Nil in \<open>auto simp: merged_def ls_link_def set_prev_def ls_linked_def h'_def valued_def\<close>)
next
  case (snoc ys t)
  with assms obtain q m where t: "tail = Some t" "l = first os None" "ls_linked fl h None os q" "h t = Some m"
    by (auto simp: merged_def ls_linked_def split: if_splits)
  define h1 where "h1 = h(t \<mapsto> m\<lparr>el_next := Some e\<rparr>)"
  define h' where "h' = (if fl = Single then h1 else h1(e \<mapsto> n\<lparr>el_prev := tail\<rparr>))"
  have te: "t \<noteq> e" using snoc assms(3) by auto
  have l1: "ls_linked fl h1 None os (Some e)"
    using t(3,4) snoc assms(4) by (auto simp: linked_append ls_linked_def h1_def)
  show thesis
  proof (rule that [of h' l])
    show "ls_link fl h l tail (Some e) = Some (h', l, Some e)"
      using t te assms(2) by (simp add: ls_link_def set_next_def set_prev_def h'_def h1_def)
    have "\<exists>q. ls_linked fl h' None (os @ [e]) q"
      using l1 assms(2,3) te t(1) snoc by (auto simp: linked_append h'_def) (auto simp: ls_linked_def h1_def)
    then show "merged fl h' l (Some e) (os @ [e])" using t snoc by (simp add: merged_def)
    show "\<forall>a. a \<notin> set (os @ [e]) \<longrightarrow> h' a = h a"
      using snoc by (auto simp: h'_def h1_def)
    show "\<forall>v xs. valued h v xs \<longrightarrow> valued h' v xs"
      using t(4) assms(2) te by (auto simp: valued_def h'_def h1_def)
  qed
qed

lemma advance_path:
  "path fl oh h p xs \<Longrightarrow> xs \<noteq> [] \<or> k = 0 \<Longrightarrow> \<exists>q. ls_advance fl oh h k p s = Some (q, s + min k (length xs))
    \<and> path fl oh h q (drop k xs) \<and> run fl oh h p (take k xs)"
proof (induction k arbitrary: p xs s)
  case (Suc k)
  then obtain a ys n where xs: "xs = a # ys" "p = Some a" "ls_next fl oh h p = Some n" "path fl oh h n ys"
    by (cases xs) auto
  show ?case
  proof (cases "ys = []")
    case False
    with xs(4) have "n \<noteq> None" by (cases ys) auto
    with Suc.IH [OF xs(4), of "s + 1"] False xs show ?thesis by auto
  qed (use xs in auto)
qed simp

lemma merge_lists:
  fixes cmp :: "'v \<Rightarrow> 'v \<Rightarrow> int"
  assumes "merged fl h l tail os" and "run fl oh h p ps" and "path fl oh h q rs"
    and "distinct (os @ ps @ rs)" and "valued h v (os @ ps @ rs)"
  shows "\<exists>h' l' tail' q'. ls_merge fl cmp oh h l tail p (length ps) q k = Some (h', l', tail', q')
    \<and> merged fl h' l' tail' (os @ lmerge (\<lambda>a b. cmp (v a) (v b) \<le> 0) ps (take k rs))
    \<and> path fl oh h' q' (drop k rs) \<and> (\<forall>xs. valued h v xs \<longrightarrow> valued h' v xs)
    \<and> (\<forall>a. a \<notin> set (os @ ps @ rs) \<longrightarrow> h' a = h a)"
  using assms
proof (induction "length ps + k" arbitrary: h l tail os p ps q rs k rule: less_induct)
  case less
  let ?le = "\<lambda>a b. cmp (v a) (v b) \<le> 0"
  consider (stop) "ps = []" "k = 0 \<or> rs = []" | (left) a ps' where "ps = a # ps'"
      "k = 0 \<or> rs = [] \<or> ?le a (hd rs)"
    | (right) b rs' k' where "rs = b # rs'" "k = Suc k'" "ps = [] \<or> \<not> ?le (hd ps) b"
    by (cases ps; cases rs; cases k) auto
  then show ?case
  proof cases
    case stop
    with less.prems show ?thesis by (auto simp: ls_merge.simps path_None intro!: exI)
  next
    case left
    then obtain n where a: "p = Some a" "ls_next fl oh h p = Some n" "run fl oh h n ps'"
      using less.prems(2) by auto
    obtain m where m: "h a = Some m" "el_val m = v a"
      using less.prems(5) left(1) by (auto simp: valued_def)
    have "a \<notin> set os" "distinct os" using less.prems(4) left(1) by auto
    with less.prems(1) m(1) obtain h1 l1 where s: "ls_link fl h l tail (Some a) = Some (h1, l1, Some a)"
      "merged fl h1 l1 (Some a) (os @ [a])" "\<forall>x. x \<notin> set (os @ [a]) \<longrightarrow> h1 x = h x"
      "\<forall>v xs. valued h v xs \<longrightarrow> valued h1 v xs"
      by (rule link_merged)
    have "run fl oh h1 n ps'" "path fl oh h1 q rs"
      using a(3) less.prems(3,4) left(1) s(3)
      by (subst run_cong [of _ h1 h] path_cong [of _ h1 h]; auto)+
    moreover have "distinct ((os @ [a]) @ ps' @ rs)" using less.prems(4) left(1) by auto
    moreover have "valued h v ((os @ [a]) @ ps' @ rs)"
      using less.prems(5) left(1) by (simp add: valued_def)
    then have "valued h1 v ((os @ [a]) @ ps' @ rs)" using s(4) by blast
    ultimately obtain h' l' t' q' where r: "ls_merge fl cmp oh h1 l1 (Some a) n (length ps') q k = Some (h', l', t', q')"
      "merged fl h' l' t' ((os @ [a]) @ lmerge ?le ps' (take k rs))" "path fl oh h' q' (drop k rs)"
      "\<forall>xs. valued h1 v xs \<longrightarrow> valued h' v xs"
      "\<forall>x. x \<notin> set ((os @ [a]) @ ps' @ rs) \<longrightarrow> h' x = h1 x"
      using less.hyps [of ps' k h1 l1 "Some a" "os @ [a]" n q rs] s(2) left(1) by auto
    have c: "k > 0 \<Longrightarrow> q \<noteq> None \<Longrightarrow> \<exists>y. get_val h q = Some y \<and> cmp (v a) y \<le> 0"
      using less.prems(3,5) left by (cases rs) (auto simp: valued_def get_val_def)
    have "lmerge ?le ps (take k rs) = a # lmerge ?le ps' (take k rs)"
      using left by (cases k; cases rs) auto
    moreover have "ls_merge fl cmp oh h l tail p (length ps) q k
        = ls_merge fl cmp oh h1 l1 (Some a) n (length ps') q k"
      using a m c s(1) left(1)
      by (subst ls_merge.simps) (auto simp: get_val_def)
    ultimately show ?thesis using r s(3,4) left(1) by auto
  next
    case right
    then obtain n where b: "q = Some b" "ls_next fl oh h q = Some n" "path fl oh h n rs'"
      using less.prems(3) by auto
    obtain m where m: "h b = Some m" "el_val m = v b"
      using less.prems(5) right(1) by (auto simp: valued_def)
    have "b \<notin> set os" "distinct os" using less.prems(4) right(1) by auto
    with less.prems(1) m(1) obtain h1 l1 where s: "ls_link fl h l tail (Some b) = Some (h1, l1, Some b)"
      "merged fl h1 l1 (Some b) (os @ [b])" "\<forall>x. x \<notin> set (os @ [b]) \<longrightarrow> h1 x = h x"
      "\<forall>v xs. valued h v xs \<longrightarrow> valued h1 v xs"
      by (rule link_merged)
    have "run fl oh h1 p ps" "path fl oh h1 n rs'"
      using b(3) less.prems(2,4) right(1) s(3)
      by (subst run_cong [of _ h1 h] path_cong [of _ h1 h]; auto)+
    moreover have "distinct ((os @ [b]) @ ps @ rs')" using less.prems(4) right(1) by auto
    moreover have "valued h v ((os @ [b]) @ ps @ rs')"
      using less.prems(5) right(1) by (simp add: valued_def ball_Un)
    then have "valued h1 v ((os @ [b]) @ ps @ rs')" using s(4) by blast
    ultimately obtain h' l' t' q' where r: "ls_merge fl cmp oh h1 l1 (Some b) p (length ps) n k' = Some (h', l', t', q')"
      "merged fl h' l' t' ((os @ [b]) @ lmerge ?le ps (take k' rs'))" "path fl oh h' q' (drop k' rs')"
      "\<forall>xs. valued h1 v xs \<longrightarrow> valued h' v xs"
      "\<forall>x. x \<notin> set ((os @ [b]) @ ps @ rs') \<longrightarrow> h' x = h1 x"
      using less.hyps [of ps k' h1 l1 "Some b" "os @ [b]" p n rs'] s(2) right(2) by auto
    have c: "ps \<noteq> [] \<Longrightarrow> \<exists>x. get_val h p = Some x \<and> \<not> cmp x (v b) \<le> 0"
      using less.prems(2,5) right(3) by (cases ps) (auto simp: valued_def get_val_def)
    have "lmerge ?le ps (take k rs) = b # lmerge ?le ps (take k' rs')"
      using right by (cases ps) auto
    moreover have "ls_merge fl cmp oh h l tail p (length ps) q k
        = ls_merge fl cmp oh h1 l1 (Some b) p (length ps) n k'"
      using b m c s(1) right(2)
      by (subst ls_merge.simps) (auto simp: get_val_def)
    ultimately show ?thesis using r s(3,4) right(1,2) by auto
  qed
qed

lemma pass_lists:
  fixes cmp :: "'v \<Rightarrow> 'v \<Rightarrow> int"
  assumes "0 < k" and "merged fl h l tail os" and "path fl oh h p xs" and "distinct (os @ xs)"
    and "valued h v (os @ xs)"
  shows "\<exists>h' l' tail'. ls_pass fl cmp oh k h l tail p n = Some (h', l', tail', n + lruns k xs)
    \<and> merged fl h' l' tail' (os @ lpass (\<lambda>a b. cmp (v a) (v b) \<le> 0) k xs)
    \<and> (\<forall>ys. valued h v ys \<longrightarrow> valued h' v ys) \<and> (\<forall>a. a \<notin> set (os @ xs) \<longrightarrow> h' a = h a)"
  using assms(2-5)
proof (induction "length xs" arbitrary: h l tail os p xs n rule: less_induct)
  case less
  let ?le = "\<lambda>a b. cmp (v a) (v b) \<le> 0"
  show ?case
  proof (cases "xs = []")
    case True
    with less.prems show ?thesis
      by (auto simp: ls_pass.simps lruns.simps lpass.simps intro!: exI)
  next
    case False
    let ?ps = "take k xs" and ?rs = "drop k xs"
    obtain q where q: "ls_advance fl oh h k p 0 = Some (q, length ?ps)" "path fl oh h q ?rs"
      "run fl oh h p ?ps"
      using advance_path [OF less.prems(2), of k 0] False by (auto simp: min.commute)
    have d: "distinct (os @ ?ps @ ?rs)" "valued h v (os @ ?ps @ ?rs)"
      using less.prems(3,4) by simp_all
    obtain h1 l1 t1 q1 where m: "ls_merge fl cmp oh h l tail p (length ?ps) q k = Some (h1, l1, t1, q1)"
      "merged fl h1 l1 t1 (os @ lmerge ?le ?ps (take k ?rs))" "path fl oh h1 q1 (drop k ?rs)"
      "\<forall>ys. valued h v ys \<longrightarrow> valued h1 v ys" "\<forall>a. a \<notin> set (os @ ?ps @ ?rs) \<longrightarrow> h1 a = h a"
      using merge_lists [OF less.prems(1) q(3,2) d, of cmp k] by blast
    have s: "set xs = set ?ps \<union> set (take k ?rs) \<union> set (drop k ?rs)"
      by (metis append_take_drop_id set_append sup_assoc)
    have "?ps @ take k ?rs @ drop k ?rs = xs" by (simp only: append_take_drop_id)
    then have "distinct (?ps @ take k ?rs @ drop k ?rs)" using less.prems(3) by simp
    then have d1: "distinct ((os @ lmerge ?le ?ps (take k ?rs)) @ drop k ?rs)"
      using less.prems(3) s by (simp only: distinct_append distinct_lmerge set_append set_lmerge) blast
    have v1: "valued h1 v ((os @ lmerge ?le ?ps (take k ?rs)) @ drop k ?rs)"
    proof -
      have "valued h v ((os @ lmerge ?le ?ps (take k ?rs)) @ drop k ?rs)"
        by (rule valued_set [OF _ less.prems(4)])
          (simp only: set_append set_lmerge s Un_assoc order_refl)
      with m(4) show ?thesis by blast
    qed
    have "length (drop k ?rs) < length xs" using False assms(1) by (cases xs) auto
    from less.hyps [OF this m(2,3) d1 v1, of "n + 1"] obtain h' l' t' where r:
      "ls_pass fl cmp oh k h1 l1 t1 q1 (n + 1) = Some (h', l', t', n + 1 + lruns k (drop k ?rs))"
      "merged fl h' l' t' ((os @ lmerge ?le ?ps (take k ?rs)) @ lpass ?le k (drop k ?rs))"
      "\<forall>ys. valued h1 v ys \<longrightarrow> valued h' v ys"
      "\<forall>a. a \<notin> set ((os @ lmerge ?le ?ps (take k ?rs)) @ drop k ?rs) \<longrightarrow> h' a = h1 a"
      by blast
    have "p \<noteq> None" using less.prems(2) False by (cases p) (auto simp: path_None)
    then have "ls_pass fl cmp oh k h l tail p n = Some (h', l', t', n + lruns k xs)"
      using q(1) m(1) r(1) False assms(1) by (simp add: ls_pass.simps [of _ _ _ _ h] lruns.simps [of k xs])
    moreover have "lpass ?le k xs = lmerge ?le ?ps (take k ?rs) @ lpass ?le k (drop k ?rs)"
      using False assms(1) by (subst lpass.simps) simp
    ultimately show ?thesis using r(2-4) m(4,5) s by auto
  qed
qed

section \<open>The three lists and their sorts\<close>

text \<open>A well-formed list of each kind: the elements \<open>xs\<close> from the head on.\<close>

definition ll_list :: "flavour \<Rightarrow> 'v store \<Rightarrow> ptr \<Rightarrow> nat list \<Rightarrow> bool" where
  "ll_list fl h l xs \<longleftrightarrow> distinct xs \<and> l = first xs None
     \<and> ls_linked fl h (final None xs) xs (if fl = Circular then first xs None else None)"

lemma linked_path:
  assumes "ls_linked fl h p xs None"
  shows "path fl oh h (first xs None) xs \<or> fl = Circular"
  using assms
proof (induction xs arbitrary: p)
  case (Cons a xs)
  then show ?case
    by (cases "fl = Circular") (auto simp: ls_linked_def ls_next_def get_next_def split: if_splits)
qed simp

lemma circular_path:
  assumes "dseg h p xs (Some o')" and "o' \<notin> set (tl xs)"
  shows "path Circular (Some o') h (first xs None) xs"
  using assms
proof (induction xs arbitrary: p)
  case (Cons a xs)
  have "path Circular (Some o') h (first xs None) xs"
    using Cons by (cases xs) auto
  moreover have "ls_next Circular (Some o') h (Some a) = Some (first xs None)"
    using Cons.prems by (cases xs) (auto simp: ls_next_def get_next_def)
  ultimately show ?case by simp
qed simp

lemma ll_list_path:
  assumes "ll_list fl h l xs"
  shows "path fl l h l xs"
proof (cases "fl = Circular")
  case True
  with assms show ?thesis
    using circular_path [of h "final None xs" xs "hd xs"]
    by (cases xs) (auto simp: ll_list_def ls_linked_def)
next
  case False
  with assms linked_path show ?thesis by (fastforce simp: ll_list_def)
qed

lemma close_list:
  assumes "merged fl h l tail xs" and "distinct xs" and "xs \<noteq> []"
  shows "\<exists>h'. ls_close fl h l tail = Some h' \<and> ll_list fl h' l xs
    \<and> (\<forall>v ys. valued h v ys \<longrightarrow> valued h' v ys) \<and> (\<forall>a. a \<notin> set xs \<longrightarrow> h' a = h a)"
proof -
  from assms(3) obtain ys t where xs: "xs = ys @ [t]" by (cases xs rule: rev_cases) auto
  from assms(3) obtain a zs where as: "xs = a # zs" by (cases xs) auto
  from assms(1) obtain q where m: "l = first xs None" "tail = final None xs" "ls_linked fl h None xs q"
    unfolding merged_def by blast
  have q: "l = Some a" "tail = Some t" "ls_linked fl h None xs q"
    using m by (simp add: as, simp add: xs, simp)
  then obtain m0 where m0: "h t = Some m0" unfolding xs by (auto simp: ls_linked_def split: if_splits)
  have t: "t \<notin> set ys" using assms(2) by (simp add: xs)
  have a: "a \<notin> set zs" using assms(2) by (simp add: as)
  have "first xs None = Some a" by (simp add: as)
  then have f: "first ys (Some t) = Some a" by (simp add: xs)
  show ?thesis
  proof (cases "fl = Single")
    case True
    with q m0 xs t f assms(2) show ?thesis
      by (auto simp: ls_close_def set_next_def ll_list_def ls_linked_def merged_def valued_def)
  next
    case False
    then have d: "dseg h None (a # zs) q" using q(3) as by (simp add: ls_linked_def)
    then obtain n where n: "h a = Some n" by auto
    define h1 where "h1 = h(a \<mapsto> n\<lparr>el_prev := Some t\<rparr>)"
    from dseg_set_prev [OF d a n] have d1: "dseg h1 (Some t) (ys @ [t]) q"
      using as xs by (simp only: h1_def)
    then obtain m1 where m1: "h1 t = Some m1" by auto
    define e where "e = (if fl = Circular then Some a else None)"
    define h' where "h' = h1(t \<mapsto> m1\<lparr>el_next := e\<rparr>)"
    from dseg_set_next [OF d1 t m1] have "dseg h' (Some t) xs e" by (simp only: h'_def xs)
    moreover have "ls_close fl h l tail = Some h'"
      using False q n m1
      by (cases fl) (auto simp: ls_close_def set_prev_def set_next_def h'_def h1_def e_def)
    moreover have fx: "final None xs = Some t" by (simp add: xs)
    moreover have "(if fl = Circular then first xs None else None) = e" by (simp add: as e_def)
    ultimately have "ll_list fl h' l xs"
      using False assms(2) m(1) by (simp add: ll_list_def ls_linked_def)
    moreover have "valued h' v ys" if "valued h v ys" for v ys
      unfolding h'_def h1_def
      by (rule valued_keep [OF valued_keep [OF that n] m1 [unfolded h1_def]]) simp_all
    moreover have "a \<in> set xs" by (simp add: as)
    then have "\<forall>b. b \<notin> set xs \<longrightarrow> h' b = h b"
      using \<open>final None xs = Some t\<close> by (auto simp: h'_def h1_def final_def split: if_splits)
    ultimately show ?thesis
      using \<open>ls_close fl h l tail = Some h'\<close> by blast
  qed
qed

lemma sort_lists:
  fixes cmp :: "'v \<Rightarrow> 'v \<Rightarrow> int" and key :: "'v \<Rightarrow> 'k::linorder"
  assumes "\<And>x y. cmp x y \<le> 0 \<longleftrightarrow> key x \<le> key y"
    and "0 < k" and "ll_list fl h l xs" and "xs \<noteq> []" and "valued h v xs"
    and "sorted_runs (\<lambda>a. key (v a)) k xs"
  shows "\<exists>h' l'. ls_sort fl cmp k h l = Some (h', l')
    \<and> ll_list fl h' l' (sort_key (\<lambda>a. key (v a)) xs) \<and> valued h' v xs
    \<and> (\<forall>a. a \<notin> set xs \<longrightarrow> h' a = h a)"
  using assms(2-6)
proof (induction "length xs - k" arbitrary: h l xs k rule: less_induct)
  case less
  let ?f = "\<lambda>a. key (v a)"
  let ?ys = "lpass (\<lambda>a b. ?f a \<le> ?f b) k xs"
  have le: "(\<lambda>a b. cmp (v a) (v b) \<le> 0) = (\<lambda>a b. ?f a \<le> ?f b)" using assms(1) by auto
  have m: "merged fl h None None []" by (simp add: merged_def ls_linked_def)
  have d: "distinct xs" using less.prems(2) by (simp add: ll_list_def)
  obtain h1 l1 t1 where p: "ls_pass fl cmp l k h None None l 0 = Some (h1, l1, t1, lruns k xs)"
    "merged fl h1 l1 t1 ?ys" "\<forall>zs. valued h v zs \<longrightarrow> valued h1 v zs" "\<forall>a. a \<notin> set xs \<longrightarrow> h1 a = h a"
    using pass_lists [OF less.prems(1) m ll_list_path [OF less.prems(2)], of v cmp 0] d less.prems(4)
    by (auto simp: le)
  have ys: "mset ?ys = mset xs" by (rule mset_lpass [OF less.prems(1)])
  then have ys': "distinct ?ys" "?ys \<noteq> []" "set ?ys = set xs" "length ?ys = length xs"
    using d less.prems(3) mset_eq_imp_distinct_iff mset_eq_setD mset_eq_length
    by (blast, fastforce, blast, blast)
  obtain h2 where c: "ls_close fl h1 l1 t1 = Some h2" "ll_list fl h2 l1 ?ys"
    "\<forall>v zs. valued h1 v zs \<longrightarrow> valued h2 v zs" "\<forall>a. a \<notin> set ?ys \<longrightarrow> h2 a = h1 a"
    using close_list [OF p(2) ys'(1,2)] by blast
  have step: "ls_sort fl cmp k h l = (if lruns k xs \<le> 1 then Some (h2, l1) else ls_sort fl cmp (k * 2) h2 l1)"
    using p(1) c(1) by (subst ls_sort.simps) simp
  have v2: "valued h2 v xs" using less.prems(4) p(3) c(3) by blast
  show ?case
  proof (cases "lruns k xs \<le> 1")
    case True
    then have "?ys = sort_key ?f xs"
      using lpass_last [OF less.prems(1,5)] lruns_le_1 [OF less.prems(1)] by blast
    with True step c(2,4) v2 p(4) ys'(3) show ?thesis by auto
  next
    case False
    then have "length ?ys - k * 2 < length xs - k" "0 < k * 2"
      using lruns_le_1 [OF less.prems(1), of xs] less.prems(1) ys'(4) by auto
    moreover have "valued h2 v ?ys" using valued_set [OF _ v2] ys'(3) by simp
    ultimately obtain h' l' where "ls_sort fl cmp (k * 2) h2 l1 = Some (h', l')"
      "ll_list fl h' l' (sort_key ?f ?ys)" "valued h' v ?ys" "\<forall>a. a \<notin> set ?ys \<longrightarrow> h' a = h2 a"
      using less.hyps [OF _ _ c(2) ys'(2) _ lpass_sorted_runs [OF less.prems(1,5)]] by blast
    with step False lpass_sort_key [OF less.prems(1,5)] c(4) p(4) ys'(3) show ?thesis
      by (auto simp: valued_def)
  qed
qed

section \<open>The macros\<close>

fun sort_macro :: "flavour \<Rightarrow> ('v \<Rightarrow> 'v \<Rightarrow> int) \<Rightarrow> 'v store \<Rightarrow> ptr \<Rightarrow> ('v store \<times> ptr) option" where
  "sort_macro Single = ll_sort"
| "sort_macro Double = dl_sort"
| "sort_macro Circular = cdl_sort"

lemma map_sort_key: "map f (sort_key (\<lambda>a. g (f a)) xs) = sort_key g (map f xs)"
proof (induction xs)
  case (Cons a xs)
  have "map f (insort_key (\<lambda>a. g (f a)) a ys) = insort_key g (f a) (map f ys)" for ys
    by (induction ys) auto
  with Cons show ?case by simp
qed simp

lemma ll_list_in: "ll_list fl h l xs \<Longrightarrow> a \<in> set xs \<Longrightarrow> \<exists>n. h a = Some n"
  using lseg_in dseg_in by (fastforce simp: ll_list_def ls_linked_def split: if_splits)

lemma sort_macro_list:
  fixes cmp :: "'v \<Rightarrow> 'v \<Rightarrow> int" and key :: "'v \<Rightarrow> 'k::linorder"
  assumes "\<And>x y. cmp x y \<le> 0 \<longleftrightarrow> key x \<le> key y" and "ll_list fl h l xs"
  shows "\<exists>h' l'. sort_macro fl cmp h l = Some (h', l')
    \<and> ll_list fl h' l' (sort_key (\<lambda>a. key (el_val (the (h a)))) xs)
    \<and> (\<forall>a. map_option el_val (h' a) = map_option el_val (h a))
    \<and> (\<forall>a. a \<notin> set xs \<longrightarrow> h' a = h a)"
proof (cases "xs = []")
  case True
  with assms(2) show ?thesis
    by (cases fl) (auto simp: ll_list_def ll_sort_def dl_sort_def cdl_sort_def)
next
  case False
  define v where "v a = el_val (the (h a))" for a
  have v: "valued h v xs" using ll_list_in [OF assms(2)] by (fastforce simp: valued_def v_def)
  have l: "l \<noteq> None" using assms(2) False by (cases xs) (auto simp: ll_list_def)
  have "sorted_runs (\<lambda>a. key (v a)) 1 xs" by (simp add: sorted_runs_1)
  from sort_lists [OF assms(1) zero_less_one assms(2) False v this] obtain h' l' where
    s: "ls_sort fl cmp 1 h l = Some (h', l')" "ll_list fl h' l' (sort_key (\<lambda>a. key (v a)) xs)"
      "valued h' v xs" "\<forall>a. a \<notin> set xs \<longrightarrow> h' a = h a" by blast
  have "sort_macro fl cmp h l = Some (h', l')"
    using s(1) l by (cases fl) (auto simp: ll_sort_def dl_sort_def cdl_sort_def)
  moreover have "map_option el_val (h' a) = map_option el_val (h a)" for a
    using s(3,4) v by (cases "a \<in> set xs") (fastforce simp: valued_def)+
  ultimately show ?thesis using s(2,4) by (auto simp: v_def)
qed

lemma vals_same:
  assumes "\<And>a. map_option el_val (h' a) = map_option el_val (h a)" and "ll_list fl h l xs"
    and "set ys \<subseteq> set xs"
  shows "vals h' ys = vals h ys"
proof -
  have "el_val (the (h' a)) = el_val (the (h a))" if "a \<in> set ys" for a
  proof -
    from that assms(3) ll_list_in [OF assms(2), of a] obtain n where "h a = Some n" by auto
    with assms(1) [of a] show ?thesis by auto
  qed
  then show ?thesis by (simp add: vals_def)
qed

text \<open>C34: the sorting macros of all three kinds of lists return, and sort. With a comparison that
  orders the elements by a key, the list afterwards holds the same elements in the order of
  \<open>sort_key\<close>: sorted, and with equal elements in their old order. It is again a well-formed
  list of its kind, the values are the old ones, and no other element is touched.\<close>

theorem sort_macro_sorts:
  fixes cmp :: "'v \<Rightarrow> 'v \<Rightarrow> int" and key :: "'v \<Rightarrow> 'k::linorder"
  assumes "\<And>x y. cmp x y \<le> 0 \<longleftrightarrow> key x \<le> key y" and "ll_list fl h l xs"
  shows "\<exists>h' l'. sort_macro fl cmp h l = Some (h', l')
    \<and> ll_list fl h' l' (sort_key (\<lambda>a. key (el_val (the (h a)))) xs)
    \<and> vals h' (sort_key (\<lambda>a. key (el_val (the (h a)))) xs) = sort_key key (vals h xs)
    \<and> (\<forall>a. a \<notin> set xs \<longrightarrow> h' a = h a)"
proof -
  let ?ys = "sort_key (\<lambda>a. key (el_val (the (h a)))) xs"
  from sort_macro_list [of cmp key, OF assms] obtain h' l' where s: "sort_macro fl cmp h l = Some (h', l')"
    "ll_list fl h' l' ?ys" "\<forall>a. map_option el_val (h' a) = map_option el_val (h a)"
    "\<forall>a. a \<notin> set xs \<longrightarrow> h' a = h a" by blast
  have "vals h' ?ys = vals h ?ys"
    by (rule vals_same [OF _ assms(2)]) (use s(3) in auto)
  also have "\<dots> = sort_key key (vals h xs)" unfolding vals_def by (rule map_sort_key)
  finally show ?thesis using s by blast
qed

definition three_elements :: "int store" where
  "three_elements = [0 \<mapsto> \<lparr>el_val = 3, el_prev = Some 2, el_next = Some 1\<rparr>,
                     1 \<mapsto> \<lparr>el_val = 1, el_prev = Some 0, el_next = Some 2\<rparr>,
                     2 \<mapsto> \<lparr>el_val = 2, el_prev = Some 1, el_next = Some 0\<rparr>]"

theorem sort_macro_sorts_witness:
  "\<exists>h' l'. cdl_sort (\<lambda>x y. x - y) three_elements (Some 0) = Some (h', l')
    \<and> ll_list Circular h' l' [1, 2, 0] \<and> vals h' [1, 2, 0] = [1, 2, 3]"
proof -
  have "ll_list Circular three_elements (Some 0) [0, 1, 2]"
    by (simp add: ll_list_def ls_linked_def three_elements_def)
  from sort_macro_sorts [OF _ this, of "\<lambda>x y. x - y" "\<lambda>x. x"] show ?thesis
    by (simp add: three_elements_def vals_def) blast
qed

end
