(* ===== verification/Utlist_Ops.thy ===== *)
theory Utlist_Ops
  imports Utlist_Sort
begin

text \<open>
  The other macros of \<open>src_lib/uthash/include/utlist.h\<close> for singly linked (\<open>LL_\<close>), doubly
  linked (\<open>DL_\<close>) and circular doubly linked lists (\<open>CDL_\<close>) over the store of \<open>Utlist_Nodes\<close>,
  one definition per macro with its assignments in their order. A macro that changes the list
  gives the new store and head; \<open>None\<close> is a fault or a failed \<open>assert\<close>. The walks along the
  links are loops that may not return on a broken chain. (\<open>Utlist\<close> has the macros the program
  calls over the representation its model uses.)
\<close>

type_synonym 'v change = "('v store \<times> ptr) option"

definition check :: "bool \<Rightarrow> unit option" where
  "check b = (if b then Some () else None)"

section \<open>Singly linked lists\<close>

definition ll_prepend :: "'v store \<Rightarrow> ptr \<Rightarrow> ptr \<Rightarrow> 'v change" where
  "ll_prepend h head add = do { h \<leftarrow> set_next h add head; Some (h, add) }"

text \<open>The loop \<open>while (_tmp->next) { _tmp = _tmp->next; }\<close>.\<close>

partial_function (option) ll_last :: "'v store \<Rightarrow> ptr \<Rightarrow> ptr option" where
  "ll_last h t = do { n \<leftarrow> get_next h t; if n \<noteq> None then ll_last h n else Some t }"

definition ll_concat :: "'v store \<Rightarrow> ptr \<Rightarrow> ptr \<Rightarrow> 'v change" where
  "ll_concat h head1 head2 =
     (if head1 \<noteq> None then do {
        t \<leftarrow> ll_last h head1; h \<leftarrow> set_next h t head2; Some (h, head1) }
      else Some (h, head2))"

definition ll_append :: "'v store \<Rightarrow> ptr \<Rightarrow> ptr \<Rightarrow> 'v change" where
  "ll_append h head add =
     do { h \<leftarrow> set_next h add None;
          if head \<noteq> None then do { t \<leftarrow> ll_last h head; h \<leftarrow> set_next h t add; Some (h, head) }
          else Some (h, add) }"

text \<open>\<open>LL_LOWER_BOUND2\<close> is the same text as \<open>DL_LOWER_BOUND2\<close>; the circular one ends at the
  head instead of NULL, the parameter \<open>stop\<close>.\<close>

partial_function (option) lower_loop ::
    "('v \<Rightarrow> 'v \<Rightarrow> int) \<Rightarrow> ptr \<Rightarrow> 'v store \<Rightarrow> ptr \<Rightarrow> ptr \<Rightarrow> ptr option" where
  "lower_loop cmp stop h like elt =
     do { n \<leftarrow> get_next h elt;
          if n \<noteq> stop then do {
            x \<leftarrow> get_val h n; y \<leftarrow> get_val h like;
            if cmp x y \<ge> 0 then Some elt else lower_loop cmp stop h like n }
          else Some elt }"

definition lower_bound ::
    "('v \<Rightarrow> 'v \<Rightarrow> int) \<Rightarrow> ptr \<Rightarrow> 'v store \<Rightarrow> ptr \<Rightarrow> ptr \<Rightarrow> ptr option" where
  "lower_bound cmp stop h head like =
     (if head = None then Some None
      else do { x \<leftarrow> get_val h head; y \<leftarrow> get_val h like;
                if cmp x y \<ge> 0 then Some None else lower_loop cmp stop h like head })"

definition ll_lower_bound :: "('v \<Rightarrow> 'v \<Rightarrow> int) \<Rightarrow> 'v store \<Rightarrow> ptr \<Rightarrow> ptr \<Rightarrow> ptr option" where
  "ll_lower_bound cmp = lower_bound cmp None"

definition ll_append_elem :: "'v store \<Rightarrow> ptr \<Rightarrow> ptr \<Rightarrow> ptr \<Rightarrow> 'v change" where
  "ll_append_elem h head el add =
     (if el \<noteq> None then do {
        check (head \<noteq> None); check (add \<noteq> None);
        n \<leftarrow> get_next h el; h \<leftarrow> set_next h add n; h \<leftarrow> set_next h el add; Some (h, head) }
      else ll_prepend h head add)"

definition ll_insert_inorder :: "('v \<Rightarrow> 'v \<Rightarrow> int) \<Rightarrow> 'v store \<Rightarrow> ptr \<Rightarrow> ptr \<Rightarrow> 'v change" where
  "ll_insert_inorder cmp h head add =
     (if head \<noteq> None then do { t \<leftarrow> ll_lower_bound cmp h head add; ll_append_elem h head t add }
      else do { h \<leftarrow> set_next h add None; Some (h, add) })"

text \<open>The loop \<open>while (_tmp->next && (_tmp->next != (el))) { _tmp = _tmp->next; }\<close>.\<close>

partial_function (option) ll_before :: "'v store \<Rightarrow> ptr \<Rightarrow> ptr \<Rightarrow> ptr option" where
  "ll_before h t el =
     do { n \<leftarrow> get_next h t; if n \<noteq> None \<and> n \<noteq> el then ll_before h n el else Some t }"

definition ll_delete :: "'v store \<Rightarrow> ptr \<Rightarrow> ptr \<Rightarrow> 'v change" where
  "ll_delete h head del =
     (if head = del then do { n \<leftarrow> get_next h head; Some (h, n) }
      else do {
        t \<leftarrow> ll_before h head del; n \<leftarrow> get_next h t;
        if n \<noteq> None then do { m \<leftarrow> get_next h del; h \<leftarrow> set_next h t m; Some (h, head) }
        else Some (h, head) })"

text \<open>\<open>LL_COUNT2\<close> and \<open>LL_FOREACH2\<close> (and the \<open>DL_\<close> ones, which are the same text).\<close>

partial_function (option) ll_count_from :: "'v store \<Rightarrow> ptr \<Rightarrow> nat \<Rightarrow> nat option" where
  "ll_count_from h el counter =
     (if el \<noteq> None then do { n \<leftarrow> get_next h el; ll_count_from h n (counter + 1) }
      else Some counter)"

definition ll_count :: "'v store \<Rightarrow> ptr \<Rightarrow> nat option" where
  "ll_count h head = ll_count_from h head 0"

partial_function (option) ll_search_if :: "('v \<Rightarrow> bool) \<Rightarrow> 'v store \<Rightarrow> ptr \<Rightarrow> ptr option" where
  "ll_search_if P h out =
     (if out \<noteq> None then do {
        v \<leftarrow> get_val h out;
        if P v then Some out else do { n \<leftarrow> get_next h out; ll_search_if P h n } }
      else Some None)"

definition ll_search_scalar :: "('v \<Rightarrow> 'f) \<Rightarrow> 'f \<Rightarrow> 'v store \<Rightarrow> ptr \<Rightarrow> ptr option" where
  "ll_search_scalar field val h head = ll_search_if (\<lambda>v. field v = val) h head"

definition ll_search :: "('v \<Rightarrow> 'v \<Rightarrow> int) \<Rightarrow> 'v \<Rightarrow> 'v store \<Rightarrow> ptr \<Rightarrow> ptr option" where
  "ll_search cmp elt h head = ll_search_if (\<lambda>v. cmp v elt = 0) h head"

text \<open>\<open>LL_FOREACH_SAFE2\<close> with the statement \<open>body\<close>, which may change the store and the head.\<close>

partial_function (option) ll_foreach_safe_from ::
    "(ptr \<Rightarrow> 'v store \<times> ptr \<Rightarrow> 'v change) \<Rightarrow> ptr \<Rightarrow> 'v store \<times> ptr \<Rightarrow> 'v change" where
  "ll_foreach_safe_from body el s =
     (if el \<noteq> None then do {
        tmp \<leftarrow> get_next (fst s) el; s \<leftarrow> body el s; ll_foreach_safe_from body tmp s }
      else Some s)"

definition ll_foreach_safe ::
    "(ptr \<Rightarrow> 'v store \<times> ptr \<Rightarrow> 'v change) \<Rightarrow> 'v store \<Rightarrow> ptr \<Rightarrow> 'v change" where
  "ll_foreach_safe body h head = ll_foreach_safe_from body head (h, head)"

definition ll_replace_elem :: "'v store \<Rightarrow> ptr \<Rightarrow> ptr \<Rightarrow> ptr \<Rightarrow> 'v change" where
  "ll_replace_elem h head el add =
     do { check (head \<noteq> None); check (el \<noteq> None); check (add \<noteq> None);
          n \<leftarrow> get_next h el; h \<leftarrow> set_next h add n;
          if head = el then Some (h, add)
          else do {
            t \<leftarrow> ll_before h head el; n \<leftarrow> get_next h t;
            if n \<noteq> None then do { h \<leftarrow> set_next h t add; Some (h, head) } else Some (h, head) } }"

definition ll_prepend_elem :: "'v store \<Rightarrow> ptr \<Rightarrow> ptr \<Rightarrow> ptr \<Rightarrow> 'v change" where
  "ll_prepend_elem h head el add =
     (if el \<noteq> None then do {
        check (head \<noteq> None); check (add \<noteq> None);
        h \<leftarrow> set_next h add el;
        if head = el then Some (h, add)
        else do {
          t \<leftarrow> ll_before h head el; n \<leftarrow> get_next h t;
          if n \<noteq> None then do { h \<leftarrow> set_next h t add; Some (h, head) } else Some (h, head) } }
      else ll_append h head add)"

section \<open>Doubly linked lists\<close>

definition dl_prepend :: "'v store \<Rightarrow> ptr \<Rightarrow> ptr \<Rightarrow> 'v change" where
  "dl_prepend h head add =
     do { h \<leftarrow> set_next h add head;
          h \<leftarrow> (if head \<noteq> None then do {
                  p \<leftarrow> get_prev h head; h \<leftarrow> set_prev h add p; set_prev h head add }
                else set_prev h add add);
          Some (h, add) }"

definition dl_append :: "'v store \<Rightarrow> ptr \<Rightarrow> ptr \<Rightarrow> 'v change" where
  "dl_append h head add =
     (if head \<noteq> None then do {
        p \<leftarrow> get_prev h head; h \<leftarrow> set_prev h add p;
        p \<leftarrow> get_prev h head; h \<leftarrow> set_next h p add;
        h \<leftarrow> set_prev h head add; h \<leftarrow> set_next h add None; Some (h, head) }
      else do { h \<leftarrow> set_prev h add add; h \<leftarrow> set_next h add None; Some (h, add) })"

definition dl_lower_bound :: "('v \<Rightarrow> 'v \<Rightarrow> int) \<Rightarrow> 'v store \<Rightarrow> ptr \<Rightarrow> ptr \<Rightarrow> ptr option" where
  "dl_lower_bound cmp = lower_bound cmp None"

definition dl_append_elem :: "'v store \<Rightarrow> ptr \<Rightarrow> ptr \<Rightarrow> ptr \<Rightarrow> 'v change" where
  "dl_append_elem h head el add =
     (if el \<noteq> None then do {
        check (head \<noteq> None); check (add \<noteq> None);
        n \<leftarrow> get_next h el; h \<leftarrow> set_next h add n; h \<leftarrow> set_prev h add el;
        h \<leftarrow> set_next h el add; n \<leftarrow> get_next h add;
        h \<leftarrow> (if n \<noteq> None then set_prev h n add else set_prev h head add);
        Some (h, head) }
      else dl_prepend h head add)"

definition dl_insert_inorder :: "('v \<Rightarrow> 'v \<Rightarrow> int) \<Rightarrow> 'v store \<Rightarrow> ptr \<Rightarrow> ptr \<Rightarrow> 'v change" where
  "dl_insert_inorder cmp h head add =
     (if head \<noteq> None then do { t \<leftarrow> dl_lower_bound cmp h head add; dl_append_elem h head t add }
      else do { h \<leftarrow> set_prev h add add; h \<leftarrow> set_next h add None; Some (h, add) })"

definition dl_concat :: "'v store \<Rightarrow> ptr \<Rightarrow> ptr \<Rightarrow> 'v change" where
  "dl_concat h head1 head2 =
     (if head2 \<noteq> None then
        if head1 \<noteq> None then do {
          t \<leftarrow> get_prev h head2; p \<leftarrow> get_prev h head1; h \<leftarrow> set_prev h head2 p;
          p \<leftarrow> get_prev h head1; h \<leftarrow> set_next h p head2; h \<leftarrow> set_prev h head1 t;
          Some (h, head1) }
        else Some (h, head2)
      else Some (h, head1))"

definition dl_delete :: "'v store \<Rightarrow> ptr \<Rightarrow> ptr \<Rightarrow> 'v change" where
  "dl_delete h head del =
     do { check (head \<noteq> None); p \<leftarrow> get_prev h del; check (p \<noteq> None);
          if p = del then Some (h, None)
          else if del = head then do {
            n \<leftarrow> get_next h del; check (n \<noteq> None); h \<leftarrow> set_prev h n p;
            n \<leftarrow> get_next h del; Some (h, n) }
          else do {
            n \<leftarrow> get_next h del; h \<leftarrow> set_next h p n;
            n \<leftarrow> get_next h del; p \<leftarrow> get_prev h del;
            h \<leftarrow> (if n \<noteq> None then set_prev h n p else set_prev h head p);
            Some (h, head) } }"

definition dl_replace_elem :: "'v store \<Rightarrow> ptr \<Rightarrow> ptr \<Rightarrow> ptr \<Rightarrow> 'v change" where
  "dl_replace_elem h head el add =
     do { check (head \<noteq> None); check (el \<noteq> None); check (add \<noteq> None);
          if head = el then do {
            n \<leftarrow> get_next h el; h \<leftarrow> set_next h add n;
            n \<leftarrow> get_next h el;
            if n = None then do { h \<leftarrow> set_prev h add add; Some (h, add) }
            else do {
              p \<leftarrow> get_prev h el; h \<leftarrow> set_prev h add p;
              n \<leftarrow> get_next h add; h \<leftarrow> set_prev h n add; Some (h, add) } }
          else do {
            n \<leftarrow> get_next h el; h \<leftarrow> set_next h add n;
            p \<leftarrow> get_prev h el; h \<leftarrow> set_prev h add p;
            p \<leftarrow> get_prev h add; h \<leftarrow> set_next h p add;
            n \<leftarrow> get_next h el;
            if n = None then do { h \<leftarrow> set_prev h head add; Some (h, head) }
            else do { n \<leftarrow> get_next h add; h \<leftarrow> set_prev h n add; Some (h, head) } } }"

definition dl_prepend_elem :: "'v store \<Rightarrow> ptr \<Rightarrow> ptr \<Rightarrow> ptr \<Rightarrow> 'v change" where
  "dl_prepend_elem h head el add =
     (if el \<noteq> None then do {
        check (head \<noteq> None); check (add \<noteq> None);
        h \<leftarrow> set_next h add el; p \<leftarrow> get_prev h el; h \<leftarrow> set_prev h add p; h \<leftarrow> set_prev h el add;
        if head = el then Some (h, add)
        else do { p \<leftarrow> get_prev h add; h \<leftarrow> set_next h p add; Some (h, head) } }
      else dl_append h head add)"

section \<open>Circular doubly linked lists\<close>

text \<open>\<open>CDL_APPEND2\<close> and \<open>CDL_PREPEND2\<close> differ in the head they leave.\<close>

definition cd_link :: "'v store \<Rightarrow> ptr \<Rightarrow> ptr \<Rightarrow> 'v store option" where
  "cd_link h head add =
     (if head \<noteq> None then do {
        p \<leftarrow> get_prev h head; h \<leftarrow> set_prev h add p; h \<leftarrow> set_next h add head;
        h \<leftarrow> set_prev h head add; p \<leftarrow> get_prev h add; set_next h p add }
      else do { h \<leftarrow> set_prev h add add; set_next h add add })"

definition cd_append :: "'v store \<Rightarrow> ptr \<Rightarrow> ptr \<Rightarrow> 'v change" where
  "cd_append h head add =
     do { h \<leftarrow> cd_link h head add; Some (h, if head \<noteq> None then head else add) }"

definition cd_prepend :: "'v store \<Rightarrow> ptr \<Rightarrow> ptr \<Rightarrow> 'v change" where
  "cd_prepend h head add = do { h \<leftarrow> cd_link h head add; Some (h, add) }"

definition cd_lower_bound :: "('v \<Rightarrow> 'v \<Rightarrow> int) \<Rightarrow> 'v store \<Rightarrow> ptr \<Rightarrow> ptr \<Rightarrow> ptr option" where
  "cd_lower_bound cmp h head = lower_bound cmp head h head"

definition cd_append_elem :: "'v store \<Rightarrow> ptr \<Rightarrow> ptr \<Rightarrow> ptr \<Rightarrow> 'v change" where
  "cd_append_elem h head el add =
     (if el \<noteq> None then do {
        check (head \<noteq> None); check (add \<noteq> None);
        n \<leftarrow> get_next h el; h \<leftarrow> set_next h add n; h \<leftarrow> set_prev h add el;
        h \<leftarrow> set_next h el add; n \<leftarrow> get_next h add; h \<leftarrow> set_prev h n add; Some (h, head) }
      else cd_prepend h head add)"

definition cd_insert_inorder :: "('v \<Rightarrow> 'v \<Rightarrow> int) \<Rightarrow> 'v store \<Rightarrow> ptr \<Rightarrow> ptr \<Rightarrow> 'v change" where
  "cd_insert_inorder cmp h head add =
     (if head \<noteq> None then do { t \<leftarrow> cd_lower_bound cmp h head add; cd_append_elem h head t add }
      else do { h \<leftarrow> set_next h add add; h \<leftarrow> set_prev h add add; Some (h, add) })"

definition cd_delete :: "'v store \<Rightarrow> ptr \<Rightarrow> ptr \<Rightarrow> 'v change" where
  "cd_delete h head del =
     do { n \<leftarrow> (if head = del then get_next h head else Some None);
          if head = del \<and> n = head then Some (h, None)
          else do {
            n \<leftarrow> get_next h del; p \<leftarrow> get_prev h del; h \<leftarrow> set_prev h n p;
            p \<leftarrow> get_prev h del; n \<leftarrow> get_next h del; h \<leftarrow> set_next h p n;
            n \<leftarrow> get_next h del; Some (h, if del = head then n else head) } }"

text \<open>\<open>CDL_FOREACH2\<close>, which stops when the next element is the head.\<close>

definition cd_step :: "'v store \<Rightarrow> ptr \<Rightarrow> ptr \<Rightarrow> ptr option" where
  "cd_step h head el = do { n \<leftarrow> get_next h el; Some (if n = head then None else n) }"

partial_function (option) cd_count_from :: "'v store \<Rightarrow> ptr \<Rightarrow> ptr \<Rightarrow> nat \<Rightarrow> nat option" where
  "cd_count_from h head el counter =
     (if el \<noteq> None then do { n \<leftarrow> cd_step h head el; cd_count_from h head n (counter + 1) }
      else Some counter)"

definition cd_count :: "'v store \<Rightarrow> ptr \<Rightarrow> nat option" where
  "cd_count h head = cd_count_from h head head 0"

partial_function (option) cd_search_if :: "('v \<Rightarrow> bool) \<Rightarrow> 'v store \<Rightarrow> ptr \<Rightarrow> ptr \<Rightarrow> ptr option" where
  "cd_search_if P h head out =
     (if out \<noteq> None then do {
        v \<leftarrow> get_val h out;
        if P v then Some out else do { n \<leftarrow> cd_step h head out; cd_search_if P h head n } }
      else Some None)"

definition cd_search_scalar :: "('v \<Rightarrow> 'f) \<Rightarrow> 'f \<Rightarrow> 'v store \<Rightarrow> ptr \<Rightarrow> ptr option" where
  "cd_search_scalar field val h head = cd_search_if (\<lambda>v. field v = val) h head head"

definition cd_search :: "('v \<Rightarrow> 'v \<Rightarrow> int) \<Rightarrow> 'v \<Rightarrow> 'v store \<Rightarrow> ptr \<Rightarrow> ptr option" where
  "cd_search cmp elt h head = cd_search_if (\<lambda>v. cmp v elt = 0) h head head"

definition cd_replace_elem :: "'v store \<Rightarrow> ptr \<Rightarrow> ptr \<Rightarrow> ptr \<Rightarrow> 'v change" where
  "cd_replace_elem h head el add =
     do { check (head \<noteq> None); check (el \<noteq> None); check (add \<noteq> None);
          n \<leftarrow> get_next h el;
          if n = el then do { h \<leftarrow> set_next h add add; h \<leftarrow> set_prev h add add; Some (h, add) }
          else do {
            h \<leftarrow> set_next h add n; p \<leftarrow> get_prev h el; h \<leftarrow> set_prev h add p;
            n \<leftarrow> get_next h add; h \<leftarrow> set_prev h n add;
            p \<leftarrow> get_prev h add; h \<leftarrow> set_next h p add;
            Some (h, if head = el then add else head) } }"

definition cd_prepend_elem :: "'v store \<Rightarrow> ptr \<Rightarrow> ptr \<Rightarrow> ptr \<Rightarrow> 'v change" where
  "cd_prepend_elem h head el add =
     (if el \<noteq> None then do {
        check (head \<noteq> None); check (add \<noteq> None);
        h \<leftarrow> set_next h add el; p \<leftarrow> get_prev h el; h \<leftarrow> set_prev h add p; h \<leftarrow> set_prev h el add;
        p \<leftarrow> get_prev h add; h \<leftarrow> set_next h p add;
        Some (h, if head = el then add else head) }
      else cd_append h head add)"

end
