(* ===== verification/Utlist_Refine.thy ===== *)
theory Utlist_Refine
  imports Utlist_Ops
begin

text \<open>
  The macros of \<open>Utlist_Ops\<close> and the sorts of \<open>Utlist_Sort\<close> refine operations on plain lists:
  one lemma per macro and kind of list says what it makes of a well-formed list, and a sequence
  of operations computes the same as the sequence of the list operations.
\<close>

section \<open>One macro at a time\<close>

text \<open>\<open>changes_to\<close>: the macro returns, the list then holds \<open>ys\<close>, and only elements of \<open>A\<close> have
  new links.\<close>

lemma ends_cases:
  obtains "xs = []" | a where "xs = [a]" | a ys b where "xs = a # ys @ [b]"
proof (cases xs)
  case (Cons a zs)
  with that(2,3) show thesis by (cases zs rule: rev_cases) auto
qed (use that(1) in auto)

definition changes_to :: "flavour \<Rightarrow> 'v store \<Rightarrow> nat set \<Rightarrow> nat list \<Rightarrow> 'v change \<Rightarrow> bool" where
  "changes_to fl h A ys r \<longleftrightarrow> (\<exists>h' l'. r = Some (h', l') \<and> ll_list fl h' l' ys
     \<and> (\<forall>a. a \<notin> A \<longrightarrow> h' a = h a) \<and> (\<forall>a. map_option el_val (h' a) = map_option el_val (h a)))"

named_theorems link_defs \<open>reading and assigning links, unfolded to compute\<close>
lemmas [link_defs] = set_next_def set_prev_def get_next_def get_prev_def check_def
lemmas [link_defs] = ll_list_def ls_linked_def changes_to_def

lemma dl_prepend_to:
  "ll_list Double h l xs \<Longrightarrow> h a = Some n \<Longrightarrow> a \<notin> set xs
    \<Longrightarrow> changes_to Double h (insert a (set xs)) (a # xs) (dl_prepend h l (Some a))"
  by (cases xs) (auto simp: link_defs dl_prepend_def)

lemma dl_append_to:
  "ll_list Double h l xs \<Longrightarrow> h a = Some n \<Longrightarrow> a \<notin> set xs
    \<Longrightarrow> changes_to Double h (insert a (set xs)) (xs @ [a]) (dl_append h l (Some a))"
  by (cases xs rule: ends_cases) (auto simp: link_defs dl_append_def)

lemma dl_append_elem_to:
  "ll_list Double h l (ys @ e # zs) \<Longrightarrow> h a = Some n \<Longrightarrow> a \<notin> set (ys @ e # zs)
    \<Longrightarrow> changes_to Double h (insert a (set (ys @ e # zs))) (ys @ e # a # zs)
      (dl_append_elem h l (Some e) (Some a))"
  by (cases ys; cases zs) (auto simp: link_defs dl_append_elem_def)


lemma dl_prepend_elem_to:
  "ll_list Double h l (ys @ e # zs) \<Longrightarrow> h a = Some n \<Longrightarrow> a \<notin> set (ys @ e # zs)
    \<Longrightarrow> changes_to Double h (insert a (set (ys @ e # zs))) (ys @ a # e # zs)
      (dl_prepend_elem h l (Some e) (Some a))"
  by (cases ys rule: ends_cases; cases zs) (auto simp: link_defs dl_prepend_elem_def)

lemma dl_replace_elem_to:
  "ll_list Double h l (ys @ e # zs) \<Longrightarrow> h a = Some n \<Longrightarrow> a \<notin> set (ys @ e # zs)
    \<Longrightarrow> changes_to Double h (insert a (set (ys @ e # zs))) (ys @ a # zs)
      (dl_replace_elem h l (Some e) (Some a))"
  by (cases ys rule: ends_cases; cases zs rule: ends_cases) (auto simp: link_defs dl_replace_elem_def)

lemma dl_delete_to:
  "ll_list Double h l (ys @ e # zs)
    \<Longrightarrow> changes_to Double h (set (ys @ e # zs)) (ys @ zs) (dl_delete h l (Some e))"
  by (cases ys rule: ends_cases; cases zs rule: ends_cases) (auto simp: link_defs dl_delete_def)

lemma cd_prepend_to:
  "ll_list Circular h l xs \<Longrightarrow> h a = Some n \<Longrightarrow> a \<notin> set xs
    \<Longrightarrow> changes_to Circular h (insert a (set xs)) (a # xs) (cd_prepend h l (Some a))"
  by (cases xs rule: ends_cases) (auto simp: link_defs cd_prepend_def cd_link_def)

lemma cd_append_to:
  "ll_list Circular h l xs \<Longrightarrow> h a = Some n \<Longrightarrow> a \<notin> set xs
    \<Longrightarrow> changes_to Circular h (insert a (set xs)) (xs @ [a]) (cd_append h l (Some a))"
  by (cases xs rule: ends_cases) (auto simp: link_defs cd_append_def cd_link_def)

lemma cd_append_elem_to:
  "ll_list Circular h l (ys @ e # zs) \<Longrightarrow> h a = Some n \<Longrightarrow> a \<notin> set (ys @ e # zs)
    \<Longrightarrow> changes_to Circular h (insert a (set (ys @ e # zs))) (ys @ e # a # zs)
      (cd_append_elem h l (Some e) (Some a))"
  by (cases ys; cases zs) (auto simp: link_defs cd_append_elem_def)

lemma cd_prepend_elem_to:
  "ll_list Circular h l (ys @ e # zs) \<Longrightarrow> h a = Some n \<Longrightarrow> a \<notin> set (ys @ e # zs)
    \<Longrightarrow> changes_to Circular h (insert a (set (ys @ e # zs))) (ys @ a # e # zs)
      (cd_prepend_elem h l (Some e) (Some a))"
  by (cases ys rule: ends_cases; cases zs rule: ends_cases) (auto simp: link_defs cd_prepend_elem_def)

lemma cd_replace_elem_to:
  "ll_list Circular h l (ys @ e # zs) \<Longrightarrow> h a = Some n \<Longrightarrow> a \<notin> set (ys @ e # zs)
    \<Longrightarrow> changes_to Circular h (insert a (set (ys @ e # zs))) (ys @ a # zs)
      (cd_replace_elem h l (Some e) (Some a))"
  by (cases ys rule: ends_cases; cases zs rule: ends_cases) (auto simp: link_defs cd_replace_elem_def)

lemma cd_delete_to:
  "ll_list Circular h l (ys @ e # zs)
    \<Longrightarrow> changes_to Circular h (set (ys @ e # zs)) (ys @ zs) (cd_delete h l (Some e))"
  by (cases ys rule: ends_cases; cases zs rule: ends_cases) (auto simp: link_defs cd_delete_def)

text \<open>The singly linked lists walk to the place.\<close>

lemma ll_last_lseg:
  "lseg h (xs @ [t]) None \<Longrightarrow> ll_last h (first (xs @ [t]) None) = Some (Some t)"
proof (induction xs)
  case (Cons a xs)
  then show ?case by (cases xs) (auto simp: ll_last.simps [of _ "Some a"] get_next_def)
qed (auto simp: ll_last.simps get_next_def)

lemma ll_before_lseg:
  "lseg h (xs @ t # e # zs) q \<Longrightarrow> e \<notin> set (t # xs) \<Longrightarrow>
    ll_before h (first (xs @ [t]) None) (Some e) = Some (Some t)"
proof (induction xs)
  case (Cons a xs)
  then show ?case by (cases xs) (auto simp: ll_before.simps [of _ "Some a"] get_next_def)
qed (auto simp: ll_before.simps get_next_def)

lemma ll_prepend_to:
  "ll_list Single h l xs \<Longrightarrow> h a = Some n \<Longrightarrow> a \<notin> set xs
    \<Longrightarrow> changes_to Single h (insert a (set xs)) (a # xs) (ll_prepend h l (Some a))"
  by (auto simp: link_defs ll_prepend_def)

lemma ll_append_to:
  assumes "ll_list Single h l xs" and "h a = Some n" and "a \<notin> set xs"
  shows "changes_to Single h (insert a (set xs)) (xs @ [a]) (ll_append h l (Some a))"
proof (cases xs rule: rev_cases)
  case (snoc ys t)
  have "lseg (h(a \<mapsto> n\<lparr>el_next := None\<rparr>)) (ys @ [t]) None" "l = first (ys @ [t]) None"
    using assms snoc by (auto simp: ll_list_def ls_linked_def)
  from ll_last_lseg [OF this(1)] this(2) show ?thesis
    using assms snoc by (cases ys) (auto simp: link_defs ll_append_def)
qed (use assms in \<open>auto simp: link_defs ll_append_def\<close>)

lemma ll_append_elem_to:
  "ll_list Single h l (ys @ e # zs) \<Longrightarrow> h a = Some n \<Longrightarrow> a \<notin> set (ys @ e # zs)
    \<Longrightarrow> changes_to Single h (insert a (set (ys @ e # zs))) (ys @ e # a # zs)
      (ll_append_elem h l (Some e) (Some a))"
  by (cases ys) (auto simp: link_defs ll_append_elem_def)

lemma ll_prepend_elem_to:
  assumes "ll_list Single h l (ys @ e # zs)" and "h a = Some n" and "a \<notin> set (ys @ e # zs)"
  shows "changes_to Single h (insert a (set (ys @ e # zs))) (ys @ a # e # zs)
    (ll_prepend_elem h l (Some e) (Some a))"
proof (cases ys rule: rev_cases)
  case (snoc xs t)
  have "lseg (h(a \<mapsto> n\<lparr>el_next := Some e\<rparr>)) (xs @ t # e # zs) None" "e \<notin> set (t # xs)"
    "l = first (xs @ [t]) None"
    using assms snoc by (auto simp: ll_list_def ls_linked_def)
  from ll_before_lseg [OF this(1,2)] this(3) show ?thesis
    using assms snoc by (cases xs) (auto simp: link_defs ll_prepend_elem_def)
qed (use assms in \<open>auto simp: link_defs ll_prepend_elem_def\<close>)

lemma ll_replace_elem_to:
  assumes "ll_list Single h l (ys @ e # zs)" and "h a = Some n" and "a \<notin> set (ys @ e # zs)"
  shows "changes_to Single h (insert a (set (ys @ e # zs))) (ys @ a # zs)
    (ll_replace_elem h l (Some e) (Some a))"
proof (cases ys rule: rev_cases)
  case (snoc xs t)
  have "lseg (h(a \<mapsto> n\<lparr>el_next := first zs None\<rparr>)) (xs @ t # e # zs) None" "e \<notin> set (t # xs)"
    "l = first (xs @ [t]) None"
    using assms snoc by (auto simp: ll_list_def ls_linked_def)
  from ll_before_lseg [OF this(1,2)] this(3) show ?thesis
    using assms snoc by (cases xs) (auto simp: link_defs ll_replace_elem_def)
qed (use assms in \<open>auto simp: link_defs ll_replace_elem_def\<close>)

lemma ll_delete_to:
  assumes "ll_list Single h l (ys @ e # zs)"
  shows "changes_to Single h (set (ys @ e # zs)) (ys @ zs) (ll_delete h l (Some e))"
proof (cases ys rule: rev_cases)
  case (snoc xs t)
  have "lseg h (xs @ t # e # zs) None" "e \<notin> set (t # xs)" "l = first (xs @ [t]) None"
    using assms snoc by (auto simp: ll_list_def ls_linked_def)
  from ll_before_lseg [OF this(1,2)] this(3) show ?thesis
    using assms snoc by (cases xs) (auto simp: link_defs ll_delete_def)
qed (use assms in \<open>auto simp: link_defs ll_delete_def\<close>)

section \<open>Ordered insertion\<close>

lemma lower_loop_lseg:
  fixes cmp :: "'v \<Rightarrow> 'v \<Rightarrow> int"
  assumes "lseg h (e # zs) stop" and "stop \<notin> Some ` set zs" and "h a = Some n"
  shows "lower_loop cmp stop h (Some a) (Some e)
    = Some (final (Some e) (takeWhile (\<lambda>b. cmp (el_val (the (h b))) (el_val n) < 0) zs))"
  using assms(1,2)
proof (induction zs arbitrary: e)
  case (Cons b zs)
  then obtain m where "h b = Some m" by auto
  with Cons assms(3) show ?case
    by (subst lower_loop.simps) (auto simp: get_next_def get_val_def)
qed (auto simp: lower_loop.simps get_next_def)

lemma lower_bound_list:
  fixes cmp :: "'v \<Rightarrow> 'v \<Rightarrow> int"
  assumes "ll_list fl h l xs" and "h a = Some n" and "stop = (if fl = Circular then l else None)"
  shows "lower_bound cmp stop h l (Some a)
    = Some (final None (takeWhile (\<lambda>b. cmp (el_val (the (h b))) (el_val n) < 0) xs))"
proof (cases xs)
  case (Cons e zs)
  then have l: "l = Some e" "lseg h (e # zs) stop" "distinct (e # zs)"
    using assms dseg_lseg by (fastforce simp: ll_list_def ls_linked_def split: if_splits)+
  then obtain m where "h e = Some m" by auto
  moreover have "stop \<notin> Some ` set zs" using assms(3) l(1,3) by (auto split: if_splits)
  ultimately show ?thesis
    using lower_loop_lseg [OF l(2) _ assms(2), of cmp] assms(2) l(1) Cons
    by (simp add: lower_bound_def get_val_def)
qed (use assms in \<open>auto simp: lower_bound_def ll_list_def\<close>)

text \<open>Insertion behind the element that \<open>LOWER_BOUND\<close> finds.\<close>

lemma insert_to:
  fixes cmp :: "'v \<Rightarrow> 'v \<Rightarrow> int"
  assumes "ll_list fl h l xs" and "h a = Some n" and "a \<notin> set xs" and "xs \<noteq> []"
    and "\<And>xs. ll_list fl h l xs \<Longrightarrow> a \<notin> set xs
      \<Longrightarrow> changes_to fl h (insert a (set xs)) (a # xs) (ap None)"
    and "\<And>ys e zs. ll_list fl h l (ys @ e # zs) \<Longrightarrow> a \<notin> set (ys @ e # zs)
      \<Longrightarrow> changes_to fl h (insert a (set (ys @ e # zs))) (ys @ e # a # zs) (ap (Some e))"
  shows "changes_to fl h (insert a (set xs))
    (takeWhile (\<lambda>b. cmp (el_val (the (h b))) (el_val n) < 0) xs @ a #
     dropWhile (\<lambda>b. cmp (el_val (the (h b))) (el_val n) < 0) xs)
    (do { t \<leftarrow> lower_bound cmp (if fl = Circular then l else None) h l (Some a); ap t })"
proof -
  let ?P = "\<lambda>b. cmp (el_val (the (h b))) (el_val n) < 0"
  have e: "xs = takeWhile ?P xs @ dropWhile ?P xs" by simp
  show ?thesis
  proof (cases "takeWhile ?P xs" rule: rev_cases)
    case Nil
    then have "dropWhile ?P xs = xs" using e by simp
    then show ?thesis using assms(5) [OF assms(1,3)] Nil
      by (simp add: lower_bound_list [OF assms(1,2)])
  next
    case (snoc ys t)
    then have x: "xs = ys @ t # dropWhile ?P xs" using e by simp
    show ?thesis
      using assms(6) [of ys t "dropWhile ?P xs"] assms(1,3) snoc x
      by (simp add: lower_bound_list [OF assms(1,2)] flip: x)
  qed
qed

definition list_insert :: "('v \<Rightarrow> 'v \<Rightarrow> int) \<Rightarrow> flavour \<Rightarrow> 'v store \<Rightarrow> ptr \<Rightarrow> ptr \<Rightarrow> 'v change" where
  "list_insert cmp fl = (case fl of Single \<Rightarrow> ll_insert_inorder cmp
     | Double \<Rightarrow> dl_insert_inorder cmp | Circular \<Rightarrow> cd_insert_inorder cmp)"

lemma insert_inorder_to:
  fixes cmp :: "'v \<Rightarrow> 'v \<Rightarrow> int"
  assumes "ll_list fl h l xs" and "h a = Some n" and "a \<notin> set xs"
  shows "changes_to fl h (insert a (set xs))
    (takeWhile (\<lambda>b. cmp (el_val (the (h b))) (el_val n) < 0) xs @ a #
     dropWhile (\<lambda>b. cmp (el_val (the (h b))) (el_val n) < 0) xs)
    (list_insert cmp fl h l (Some a))"
proof (cases "xs = []")
  case True
  with assms show ?thesis
    by (cases fl) (auto simp: list_insert_def ll_insert_inorder_def dl_insert_inorder_def
        cd_insert_inorder_def link_defs)
next
  case False
  with assms(1) have l: "l \<noteq> None" by (cases xs) (auto simp: ll_list_def)
  show ?thesis
  proof (cases fl)
    case Single
    have "changes_to Single h (insert a (set xs)) (a # xs) (ll_append_elem h l None (Some a))"
      if "ll_list Single h l xs" "a \<notin> set xs" for xs
      using ll_prepend_to [OF that(1) assms(2) that(2)] by (simp add: ll_append_elem_def)
    with insert_to [OF assms False, of "\<lambda>t. ll_append_elem h l t (Some a)" cmp]
      ll_append_elem_to [where h = h and a = a and n = n, OF _ assms(2)] Single l show ?thesis
      by (simp add: list_insert_def ll_insert_inorder_def ll_lower_bound_def)
  next
    case Double
    have "changes_to Double h (insert a (set xs)) (a # xs) (dl_append_elem h l None (Some a))"
      if "ll_list Double h l xs" "a \<notin> set xs" for xs
      using dl_prepend_to [OF that(1) assms(2) that(2)] by (simp add: dl_append_elem_def)
    with insert_to [OF assms False, of "\<lambda>t. dl_append_elem h l t (Some a)" cmp]
      dl_append_elem_to [where h = h and a = a and n = n, OF _ assms(2)] Double l show ?thesis
      by (simp add: list_insert_def dl_insert_inorder_def dl_lower_bound_def)
  next
    case Circular
    have "changes_to Circular h (insert a (set xs)) (a # xs) (cd_append_elem h l None (Some a))"
      if "ll_list Circular h l xs" "a \<notin> set xs" for xs
      using cd_prepend_to [OF that(1) assms(2) that(2)] by (simp add: cd_append_elem_def)
    with insert_to [OF assms False, of "\<lambda>t. cd_append_elem h l t (Some a)" cmp]
      cd_append_elem_to [where h = h and a = a and n = n, OF _ assms(2)] Circular l show ?thesis
      by (simp add: list_insert_def cd_insert_inorder_def cd_lower_bound_def)
  qed
qed

section \<open>Concatenation\<close>

lemma ll_concat_to:
  assumes "ll_list Single h l1 xs" and "ll_list Single h l2 ys" and "set xs \<inter> set ys = {}"
  shows "changes_to Single h (set xs) (xs @ ys) (ll_concat h l1 l2)"
proof (cases xs rule: rev_cases)
  case (snoc zs t)
  have "lseg h (zs @ [t]) None" "l1 = first (zs @ [t]) None"
    using assms(1) snoc by (auto simp: ll_list_def ls_linked_def)
  from ll_last_lseg [OF this(1)] this(2) show ?thesis
    using assms snoc by (cases zs) (auto simp: link_defs ll_concat_def)
qed (use assms in \<open>auto simp: link_defs ll_concat_def\<close>)

lemma dl_concat_to:
  "ll_list Double h l1 xs \<Longrightarrow> ll_list Double h l2 ys \<Longrightarrow> set xs \<inter> set ys = {}
    \<Longrightarrow> changes_to Double h (set xs \<union> set ys) (xs @ ys) (dl_concat h l1 l2)"
  by (cases xs rule: ends_cases; cases ys rule: ends_cases) (auto simp: link_defs dl_concat_def)

section \<open>Reading\<close>

lemma ll_count_lseg:
  "lseg h xs None \<Longrightarrow> ll_count_from h (first xs None) c = Some (c + length xs)"
  by (induction xs arbitrary: c) (auto simp: ll_count_from.simps get_next_def)

lemma ll_search_lseg:
  "lseg h xs None
    \<Longrightarrow> ll_search_if P h (first xs None) = Some (List.find (\<lambda>a. P (el_val (the (h a)))) xs)"
  by (induction xs) (auto simp: ll_search_if.simps get_next_def get_val_def)

lemma cd_walk_step:
  "lseg h (a # xs) (Some o') \<Longrightarrow> o' \<notin> set xs \<Longrightarrow> cd_step h (Some o') (Some a) = Some (first xs None)"
  by (cases xs) (auto simp: cd_step_def get_next_def)

lemma cd_count_lseg:
  "lseg h xs (Some o') \<Longrightarrow> o' \<notin> set (tl xs)
    \<Longrightarrow> cd_count_from h (Some o') (first xs None) c = Some (c + length xs)"
proof (induction xs arbitrary: c)
  case (Cons a xs)
  have "cd_step h (Some o') (Some a) = Some (first xs None)"
    using Cons.prems by (intro cd_walk_step) auto
  moreover have "o' \<notin> set (tl xs)" using Cons.prems by (cases xs) auto
  ultimately show ?case using Cons by (simp add: cd_count_from.simps [of _ _ "Some a"])
qed (simp add: cd_count_from.simps)

lemma cd_search_lseg:
  "lseg h xs (Some o') \<Longrightarrow> o' \<notin> set (tl xs)
    \<Longrightarrow> cd_search_if P h (Some o') (first xs None)
      = Some (List.find (\<lambda>a. P (el_val (the (h a)))) xs)"
proof (induction xs)
  case (Cons a xs)
  have "cd_step h (Some o') (Some a) = Some (first xs None)"
    using Cons.prems by (intro cd_walk_step) auto
  moreover have "o' \<notin> set (tl xs)" using Cons.prems by (cases xs) auto
  ultimately show ?case using Cons
    by (auto simp: cd_search_if.simps [of _ _ _ "Some a"] get_val_def)
qed (simp add: cd_search_if.simps)

definition list_count :: "flavour \<Rightarrow> 'v store \<Rightarrow> ptr \<Rightarrow> nat option" where
  "list_count fl = (if fl = Circular then cd_count else ll_count)"

definition list_find :: "flavour \<Rightarrow> ('v \<Rightarrow> 'v \<Rightarrow> int) \<Rightarrow> 'v \<Rightarrow> 'v store \<Rightarrow> ptr \<Rightarrow> ptr option" where
  "list_find fl = (if fl = Circular then cd_search else ll_search)"

lemma list_read:
  assumes "ll_list fl h l xs"
  shows "list_count fl h l = Some (length xs)"
    and "list_find fl cmp x h l = Some (List.find (\<lambda>a. cmp (el_val (the (h a))) x = 0) xs)"
proof -
  have c: "fl = Circular \<Longrightarrow> xs \<noteq> [] \<Longrightarrow> l = Some (hd xs) \<and> lseg h xs (Some (hd xs)) \<and> hd xs \<notin> set (tl xs)"
    using assms dseg_lseg by (cases xs) (fastforce simp: ll_list_def ls_linked_def)+
  have s: "fl \<noteq> Circular \<Longrightarrow> l = first xs None \<and> lseg h xs None"
    using assms dseg_lseg by (fastforce simp: ll_list_def ls_linked_def split: if_splits)
  have n: "xs = [] \<Longrightarrow> l = None" using assms by (simp add: ll_list_def)
  show "list_count fl h l = Some (length xs)"
    using c s n ll_count_lseg [of h xs 0] cd_count_lseg [of h xs "hd xs" 0]
    by (cases "fl = Circular"; cases xs)
      (auto simp: list_count_def ll_count_def cd_count_def cd_count_from.simps)
  show "list_find fl cmp x h l = Some (List.find (\<lambda>a. cmp (el_val (the (h a))) x = 0) xs)"
    using c s n ll_search_lseg [of h xs "\<lambda>v. cmp v x = 0"]
      cd_search_lseg [of h xs "hd xs" "\<lambda>v. cmp v x = 0"]
    by (cases "fl = Circular"; cases xs)
      (auto simp: list_find_def ll_search_def cd_search_def cd_search_if.simps)
qed

section \<open>Deleting while walking\<close>

definition list_delete :: "flavour \<Rightarrow> 'v store \<Rightarrow> ptr \<Rightarrow> ptr \<Rightarrow> 'v change" where
  "list_delete fl = (case fl of Single \<Rightarrow> ll_delete | Double \<Rightarrow> dl_delete | Circular \<Rightarrow> cd_delete)"

lemma delete_to:
  "ll_list fl h l (ys @ e # zs)
    \<Longrightarrow> changes_to fl h (set (ys @ e # zs)) (ys @ zs) (list_delete fl h l (Some e))"
  using ll_delete_to dl_delete_to cd_delete_to by (cases fl) (fastforce simp: list_delete_def)+

lemma foreach_safe_deletes:
  assumes "ll_list fl h l xs" and "fl \<noteq> Circular"
  shows "\<exists>h'. ll_foreach_safe_from (\<lambda>el (h, head). list_delete fl h head el) l (h, l) = Some (h', None)"
  using assms(1)
proof (induction xs arbitrary: h l)
  case (Cons a xs)
  then have a: "l = Some a" "get_next h (Some a) = Some (first xs None)"
    using assms(2) dseg_lseg [of h _ "a # xs"]
    by (fastforce simp: ll_list_def ls_linked_def get_next_def split: if_splits)+
  from delete_to [of fl h l "[]" a xs] Cons.prems obtain h' l' where
    d: "list_delete fl h l (Some a) = Some (h', l')" "ll_list fl h' l' xs"
    by (auto simp: changes_to_def)
  then have "l' = first xs None" by (simp add: ll_list_def)
  with Cons.IH [OF d(2)] a d(1) show ?case
    by (subst ll_foreach_safe_from.simps) auto
qed (auto simp: ll_list_def ll_foreach_safe_from.simps)

section \<open>Sequences of operations\<close>

text \<open>An operation names the element it adds and, where it has one, the element it is about.\<close>

datatype list_op =
  Op_prepend nat
| Op_append nat
| Op_append_elem nat nat
| Op_prepend_elem nat nat
| Op_replace_elem nat nat
| Op_delete nat
| Op_insert_inorder nat
| Op_sort

definition list_prepend :: "flavour \<Rightarrow> 'v store \<Rightarrow> ptr \<Rightarrow> ptr \<Rightarrow> 'v change" where
  "list_prepend fl =
     (case fl of Single \<Rightarrow> ll_prepend | Double \<Rightarrow> dl_prepend | Circular \<Rightarrow> cd_prepend)"

definition list_append :: "flavour \<Rightarrow> 'v store \<Rightarrow> ptr \<Rightarrow> ptr \<Rightarrow> 'v change" where
  "list_append fl =
     (case fl of Single \<Rightarrow> ll_append | Double \<Rightarrow> dl_append | Circular \<Rightarrow> cd_append)"

definition list_append_elem :: "flavour \<Rightarrow> 'v store \<Rightarrow> ptr \<Rightarrow> ptr \<Rightarrow> ptr \<Rightarrow> 'v change" where
  "list_append_elem fl = (case fl of Single \<Rightarrow> ll_append_elem
     | Double \<Rightarrow> dl_append_elem | Circular \<Rightarrow> cd_append_elem)"

definition list_prepend_elem :: "flavour \<Rightarrow> 'v store \<Rightarrow> ptr \<Rightarrow> ptr \<Rightarrow> ptr \<Rightarrow> 'v change" where
  "list_prepend_elem fl = (case fl of Single \<Rightarrow> ll_prepend_elem
     | Double \<Rightarrow> dl_prepend_elem | Circular \<Rightarrow> cd_prepend_elem)"

definition list_replace_elem :: "flavour \<Rightarrow> 'v store \<Rightarrow> ptr \<Rightarrow> ptr \<Rightarrow> ptr \<Rightarrow> 'v change" where
  "list_replace_elem fl = (case fl of Single \<Rightarrow> ll_replace_elem
     | Double \<Rightarrow> dl_replace_elem | Circular \<Rightarrow> cd_replace_elem)"

fun list_step :: "flavour \<Rightarrow> ('v \<Rightarrow> 'v \<Rightarrow> int) \<Rightarrow> list_op \<Rightarrow> 'v store \<Rightarrow> ptr \<Rightarrow> 'v change" where
  "list_step fl cmp (Op_prepend a) h l = list_prepend fl h l (Some a)"
| "list_step fl cmp (Op_append a) h l = list_append fl h l (Some a)"
| "list_step fl cmp (Op_append_elem e a) h l = list_append_elem fl h l (Some e) (Some a)"
| "list_step fl cmp (Op_prepend_elem e a) h l = list_prepend_elem fl h l (Some e) (Some a)"
| "list_step fl cmp (Op_replace_elem e a) h l = list_replace_elem fl h l (Some e) (Some a)"
| "list_step fl cmp (Op_delete e) h l = list_delete fl h l (Some e)"
| "list_step fl cmp (Op_insert_inorder a) h l = list_insert cmp fl h l (Some a)"
| "list_step fl cmp Op_sort h l = sort_macro fl cmp h l"

fun list_run :: "flavour \<Rightarrow> ('v \<Rightarrow> 'v \<Rightarrow> int) \<Rightarrow> list_op list \<Rightarrow> 'v store \<Rightarrow> ptr \<Rightarrow> 'v change" where
  "list_run fl cmp [] h l = Some (h, l)"
| "list_run fl cmp (op # ops) h l =
     do { (h, l) \<leftarrow> list_step fl cmp op h l; list_run fl cmp ops h l }"

text \<open>The operations on plain lists: \<open>f a\<close> is the key of the element \<open>a\<close>.\<close>

definition put_at :: "'a \<Rightarrow> 'a list \<Rightarrow> 'a list \<Rightarrow> 'a list" where
  "put_at e new xs = takeWhile (\<lambda>b. b \<noteq> e) xs @ new @ tl (dropWhile (\<lambda>b. b \<noteq> e) xs)"

fun list_spec :: "(nat \<Rightarrow> 'k::linorder) \<Rightarrow> list_op \<Rightarrow> nat list \<Rightarrow> nat list" where
  "list_spec f (Op_prepend a) xs = a # xs"
| "list_spec f (Op_append a) xs = xs @ [a]"
| "list_spec f (Op_append_elem e a) xs = put_at e [e, a] xs"
| "list_spec f (Op_prepend_elem e a) xs = put_at e [a, e] xs"
| "list_spec f (Op_replace_elem e a) xs = put_at e [a] xs"
| "list_spec f (Op_delete e) xs = put_at e [] xs"
| "list_spec f (Op_insert_inorder a) xs =
     takeWhile (\<lambda>b. f b < f a) xs @ a # dropWhile (\<lambda>b. f b < f a) xs"
| "list_spec f Op_sort xs = sort_key f xs"

text \<open>What an operation relies on: it adds an element that exists and is not in the list, and the
  element it is about is in the list.\<close>

fun op_ok :: "nat set \<Rightarrow> nat list \<Rightarrow> list_op \<Rightarrow> bool" where
  "op_ok D xs (Op_prepend a) = (a \<in> D \<and> a \<notin> set xs)"
| "op_ok D xs (Op_append a) = (a \<in> D \<and> a \<notin> set xs)"
| "op_ok D xs (Op_append_elem e a) = (e \<in> set xs \<and> a \<in> D \<and> a \<notin> set xs)"
| "op_ok D xs (Op_prepend_elem e a) = (e \<in> set xs \<and> a \<in> D \<and> a \<notin> set xs)"
| "op_ok D xs (Op_replace_elem e a) = (e \<in> set xs \<and> a \<in> D \<and> a \<notin> set xs)"
| "op_ok D xs (Op_delete e) = (e \<in> set xs)"
| "op_ok D xs (Op_insert_inorder a) = (a \<in> D \<and> a \<notin> set xs)"
| "op_ok D xs Op_sort = True"

fun ops_ok :: "(nat \<Rightarrow> 'k::linorder) \<Rightarrow> nat set \<Rightarrow> nat list \<Rightarrow> list_op list \<Rightarrow> bool" where
  "ops_ok f D xs [] = True"
| "ops_ok f D xs (op # ops) = (op_ok D xs op \<and> ops_ok f D (list_spec f op xs) ops)"

definition keyed :: "('v \<Rightarrow> 'v \<Rightarrow> int) \<Rightarrow> ('v \<Rightarrow> 'k::linorder) \<Rightarrow> bool" where
  "keyed cmp key \<longleftrightarrow>
     (\<forall>x y. (cmp x y \<le> 0 \<longleftrightarrow> key x \<le> key y) \<and> (cmp x y < 0 \<longleftrightarrow> key x < key y))"

definition elt_key :: "('v \<Rightarrow> 'k) \<Rightarrow> 'v store \<Rightarrow> nat \<Rightarrow> 'k" where
  "elt_key key h a = key (el_val (the (h a)))"

lemma put_at_split: "e \<notin> set ys \<Longrightarrow> put_at e new (ys @ e # zs) = ys @ new @ zs"
  by (simp add: put_at_def takeWhile_append2 dropWhile_append2 takeWhile_append dropWhile_append)

text \<open>What \<open>changes_to\<close> leaves to say: keys and allocation stay.\<close>

definition step_to :: "flavour \<Rightarrow> 'v store \<Rightarrow> nat list \<Rightarrow> 'v change \<Rightarrow> bool" where
  "step_to fl h ys r \<longleftrightarrow> (\<exists>h' l'. r = Some (h', l') \<and> ll_list fl h' l' ys
     \<and> (\<forall>a. map_option el_val (h' a) = map_option el_val (h a)))"

lemma changes_step: "changes_to fl h A ys r \<Longrightarrow> step_to fl h ys r"
  by (auto simp: changes_to_def step_to_def)

lemma split_at:
  assumes "ll_list fl h l xs" and "e \<in> set xs"
  obtains ys zs where "xs = ys @ e # zs" "e \<notin> set ys" "\<And>new. put_at e new xs = ys @ new @ zs"
proof -
  from assms(2) obtain ys zs where "xs = ys @ e # zs" "e \<notin> set ys" by (meson split_list_first)
  with that show thesis by (simp add: put_at_split)
qed

lemma sort_step:
  fixes cmp :: "'v \<Rightarrow> 'v \<Rightarrow> int" and key :: "'v \<Rightarrow> 'k::linorder"
  assumes "keyed cmp key" and "ll_list fl h l xs"
  shows "step_to fl h (sort_key (elt_key key h) xs) (sort_macro fl cmp h l)"
proof -
  have "elt_key key h = (\<lambda>a. key (el_val (the (h a))))" by (auto simp: elt_key_def)
  with sort_macro_list [of cmp key fl h l xs] assms show ?thesis
    unfolding step_to_def keyed_def by auto
qed

lemma step_refines:
  fixes cmp :: "'v \<Rightarrow> 'v \<Rightarrow> int" and key :: "'v \<Rightarrow> 'k::linorder"
  assumes "keyed cmp key" and l: "ll_list fl h l xs" and ok: "op_ok (dom h) xs op"
  shows "step_to fl h (list_spec (elt_key key h) op xs) (list_step fl cmp op h l)"
proof (cases op)
  case (Op_prepend a)
  with ok l ll_prepend_to dl_prepend_to cd_prepend_to show ?thesis
    by (cases fl) (fastforce simp: list_prepend_def dom_def intro!: changes_step)+
next
  case (Op_append a)
  with ok l ll_append_to dl_append_to cd_append_to show ?thesis
    by (cases fl) (fastforce simp: list_append_def dom_def intro!: changes_step)+
next
  case (Op_append_elem e a)
  with ok l obtain ys zs n where s: "xs = ys @ e # zs" "put_at e [e, a] xs = ys @ [e, a] @ zs"
    "h a = Some n" "a \<notin> set xs" by (auto elim: split_at)
  with Op_append_elem l show ?thesis
    using ll_append_elem_to [of h l ys e zs a n] dl_append_elem_to [of h l ys e zs a n]
      cd_append_elem_to [of h l ys e zs a n]
    by (cases fl) (auto simp: list_append_elem_def intro!: changes_step)
next
  case (Op_prepend_elem e a)
  with ok l obtain ys zs n where s: "xs = ys @ e # zs" "put_at e [a, e] xs = ys @ [a, e] @ zs"
    "h a = Some n" "a \<notin> set xs" by (auto elim: split_at)
  with Op_prepend_elem l show ?thesis
    using ll_prepend_elem_to [of h l ys e zs a n] dl_prepend_elem_to [of h l ys e zs a n]
      cd_prepend_elem_to [of h l ys e zs a n]
    by (cases fl) (auto simp: list_prepend_elem_def intro!: changes_step)
next
  case (Op_replace_elem e a)
  with ok l obtain ys zs n where s: "xs = ys @ e # zs" "put_at e [a] xs = ys @ [a] @ zs"
    "h a = Some n" "a \<notin> set xs" by (auto elim: split_at)
  with Op_replace_elem l show ?thesis
    using ll_replace_elem_to [of h l ys e zs a n] dl_replace_elem_to [of h l ys e zs a n]
      cd_replace_elem_to [of h l ys e zs a n]
    by (cases fl) (auto simp: list_replace_elem_def intro!: changes_step)
next
  case (Op_delete e)
  with ok l obtain ys zs where "xs = ys @ e # zs" "put_at e [] xs = ys @ [] @ zs"
    by (auto elim: split_at)
  with Op_delete l delete_to [of fl h l ys e zs] show ?thesis by (auto intro!: changes_step)
next
  case (Op_insert_inorder a)
  with ok obtain n where n: "h a = Some n" "a \<notin> set xs" by auto
  have "(\<lambda>b. cmp (el_val (the (h b))) (el_val n) < 0) = (\<lambda>b. elt_key key h b < elt_key key h a)"
    using assms(1) n by (auto simp: keyed_def elt_key_def)
  with insert_inorder_to [OF l n, of cmp] Op_insert_inorder show ?thesis
    by (auto intro!: changes_step)
next
  case Op_sort
  with sort_step [OF assms(1) l] show ?thesis by simp
qed

lemma run_to:
  fixes cmp :: "'v \<Rightarrow> 'v \<Rightarrow> int" and key :: "'v \<Rightarrow> 'k::linorder"
  assumes "keyed cmp key" and "ll_list fl h l xs" and "ops_ok (elt_key key h) (dom h) xs ops"
  shows "step_to fl h (fold (list_spec (elt_key key h)) ops xs) (list_run fl cmp ops h l)"
  using assms(2,3)
proof (induction ops arbitrary: h l xs)
  case (Cons op ops)
  then have "op_ok (dom h) xs op" by simp
  from step_refines [OF assms(1) Cons.prems(1) this] obtain h' l' where
    s: "list_step fl cmp op h l = Some (h', l')" "ll_list fl h' l' (list_spec (elt_key key h) op xs)"
      "\<forall>a. map_option el_val (h' a) = map_option el_val (h a)"
    by (auto simp: step_to_def)
  have n: "h' a = None \<longleftrightarrow> h a = None" for a using s(3) by (metis map_option_is_None)
  then have d: "dom h' = dom h" by (auto simp: dom_def)
  have k: "elt_key key h' = elt_key key h"
  proof
    show "elt_key key h' a = elt_key key h a" for a
      using s(3) [rule_format, of a] n [of a] by (cases "h a"; cases "h' a") (auto simp: elt_key_def)
  qed
  from Cons.IH [OF s(2)] Cons.prems(2) d k s(1,3) show ?case
    by (auto simp: step_to_def)
qed (simp add: step_to_def)

text \<open>C35: the list macros refine lists. Whatever sequence of additions, replacements, deletions,
  ordered insertions and sorts is applied to a well-formed singly linked, doubly linked or circular
  list, every one returns without following NULL, and the list afterwards holds the elements
  that the same operations give on a plain list; it is well formed, no value has changed, the
  count is its length and a search finds its first match.\<close>

theorem list_run_refines:
  fixes cmp :: "'v \<Rightarrow> 'v \<Rightarrow> int" and key :: "'v \<Rightarrow> 'k::linorder"
  assumes "keyed cmp key" and "ll_list fl h l xs" and "ops_ok (elt_key key h) (dom h) xs ops"
  shows "\<exists>h' l'. list_run fl cmp ops h l = Some (h', l')
    \<and> ll_list fl h' l' (fold (list_spec (elt_key key h)) ops xs)
    \<and> (\<forall>a. map_option el_val (h' a) = map_option el_val (h a))
    \<and> list_count fl h' l' = Some (length (fold (list_spec (elt_key key h)) ops xs))
    \<and> list_find fl cmp x h' l' = Some (List.find (\<lambda>a. cmp (el_val (the (h' a))) x = 0)
        (fold (list_spec (elt_key key h)) ops xs))"
proof -
  from run_to [OF assms] obtain h' l' where r: "list_run fl cmp ops h l = Some (h', l')"
    "ll_list fl h' l' (fold (list_spec (elt_key key h)) ops xs)"
    "\<forall>a. map_option el_val (h' a) = map_option el_val (h a)" unfolding step_to_def by blast
  with list_read [OF r(2)] show ?thesis by simp
qed

theorem list_run_refines_witness:
  "\<exists>h' l'. list_run Double (\<lambda>x y. x - y) [Op_append 0, Op_prepend 1, Op_sort, Op_insert_inorder 2,
       Op_delete 0] three_elements None = Some (h', l')
    \<and> ll_list Double h' l' [1, 2] \<and> list_count Double h' l' = Some 2"
proof -
  have "keyed (\<lambda>x y. x - y :: int) (\<lambda>x. x)" by (simp add: keyed_def)
  moreover have "ll_list Double three_elements None []" by (simp add: ll_list_def ls_linked_def)
  moreover have "ops_ok (elt_key (\<lambda>x. x) three_elements) (dom three_elements) []
      [Op_append 0, Op_prepend 1, Op_sort, Op_insert_inorder 2, Op_delete 0]"
    by (simp add: three_elements_def elt_key_def put_at_def)
  moreover have "fold (list_spec (elt_key (\<lambda>x. x) three_elements))
      [Op_append 0, Op_prepend 1, Op_sort, Op_insert_inorder 2, Op_delete 0] [] = [1, 2]"
    by (simp add: three_elements_def elt_key_def put_at_def)
  ultimately show ?thesis
    using list_run_refines [of "\<lambda>x y. x - y" "\<lambda>x. x" Double three_elements None "[]"
        "[Op_append 0, Op_prepend 1, Op_sort, Op_insert_inorder 2, Op_delete 0]" 0]
    by (auto simp: numeral_2_eq_2 simp del: list_run.simps)
qed

end
