(* ===== verification/Utstack.thy ===== *)
theory Utstack
  imports Utlist_Refine
begin

text \<open>
  The stack of \<open>src_lib/uthash/include/utstack.h\<close>, a singly linked list over the store of
  \<open>Utlist_Nodes\<close>: what is pushed is popped in reverse order, and popping an empty stack follows
  NULL.
\<close>

definition stack_top :: "ptr \<Rightarrow> ptr" where
  "stack_top head = head"

definition stack_empty :: "ptr \<Rightarrow> bool" where
  "stack_empty head \<longleftrightarrow> head = None"

definition stack_push :: "'v store \<Rightarrow> ptr \<Rightarrow> ptr \<Rightarrow> 'v change" where
  "stack_push h head add = do { h \<leftarrow> set_next h add head; Some (h, add) }"

text \<open>The new head and the result.\<close>

definition stack_pop :: "'v store \<Rightarrow> ptr \<Rightarrow> (ptr \<times> ptr) option" where
  "stack_pop h head = do { n \<leftarrow> get_next h head; Some (n, head) }"

partial_function (option) stack_count_from :: "'v store \<Rightarrow> ptr \<Rightarrow> nat \<Rightarrow> nat option" where
  "stack_count_from h el counter =
     (if el \<noteq> None then do { n \<leftarrow> get_next h el; stack_count_from h n (counter + 1) }
      else Some counter)"

definition stack_count :: "'v store \<Rightarrow> ptr \<Rightarrow> nat option" where
  "stack_count h head = stack_count_from h head 0"

text \<open>Several pushes, and pops until the stack is empty; \<open>stack_drain\<close> lists what is popped.\<close>

fun stack_pushes :: "nat list \<Rightarrow> 'v store \<Rightarrow> ptr \<Rightarrow> 'v change" where
  "stack_pushes [] h head = Some (h, head)"
| "stack_pushes (a # as) h head =
     do { (h, head) \<leftarrow> stack_push h head (Some a); stack_pushes as h head }"

partial_function (option) stack_drain :: "'v store \<Rightarrow> ptr \<Rightarrow> ptr list option" where
  "stack_drain h head =
     (if stack_empty head then Some []
      else do { (head, r) \<leftarrow> stack_pop h head; rs \<leftarrow> stack_drain h head; Some (r # rs) })"

lemma stack_pushes_list:
  "ll_list Single h l xs \<Longrightarrow> distinct as \<Longrightarrow> set as \<subseteq> dom h - set xs
    \<Longrightarrow> \<exists>h' l'. stack_pushes as h l = Some (h', l') \<and> ll_list Single h' l' (rev as @ xs)"
proof (induction as arbitrary: h l xs)
  case (Cons a as)
  then obtain n where n: "h a = Some n" "a \<notin> set xs" by auto
  let ?h = "h(a \<mapsto> n\<lparr>el_next := l\<rparr>)"
  have p: "stack_push h l (Some a) = Some (?h, Some a)" using n by (simp add: stack_push_def set_next_def)
  have l: "ll_list Single ?h (Some a) (a # xs)"
    using Cons.prems(1) n by (auto simp: ll_list_def ls_linked_def)
  have s: "set as \<subseteq> dom ?h - set (a # xs)" using Cons.prems(2,3) by auto
  have "distinct as" using Cons.prems(2) by simp
  from Cons.IH [OF l this s] obtain h' l' where "stack_pushes as ?h (Some a) = Some (h', l')"
    "ll_list Single h' l' (rev as @ a # xs)" by blast
  with p show ?case by simp
qed simp

lemma stack_drain_lseg: "lseg h xs None \<Longrightarrow> stack_drain h (first xs None) = Some (map Some xs)"
  by (induction xs) (auto simp: stack_drain.simps stack_empty_def stack_pop_def get_next_def)

lemma stack_count_lseg:
  "lseg h xs None \<Longrightarrow> stack_count_from h (first xs None) c = Some (c + length xs)"
  by (induction xs arbitrary: c) (auto simp: stack_count_from.simps get_next_def)

lemma stack_lifo:
  assumes "ll_list Single h l xs" and "distinct as" and "set as \<subseteq> dom h - set xs"
  obtains h' l' where "stack_pushes as h l = Some (h', l')"
    "stack_drain h' l' = Some (map Some (rev as @ xs))"
    "stack_count h' l' = Some (length as + length xs)"
proof -
  from stack_pushes_list [OF assms] obtain h' l' where
    p: "stack_pushes as h l = Some (h', l')" "ll_list Single h' l' (rev as @ xs)" by blast
  then have "l' = first (rev as @ xs) None" "lseg h' (rev as @ xs) None"
    by (auto simp: ll_list_def ls_linked_def)
  then have "stack_drain h' l' = Some (map Some (rev as @ xs))"
    "stack_count h' l' = Some (length as + length xs)"
    using stack_drain_lseg [of h' "rev as @ xs"] stack_count_lseg [of h' "rev as @ xs" 0]
    by (simp_all add: stack_count_def)
  with p(1) show thesis by (rule that)
qed

lemma stack_pop_empty: "stack_pop h None = None"
  by (simp add: stack_pop_def get_next_def)

end
