(* ===== verification/Utringbuffer.thy ===== *)
theory Utringbuffer
  imports Bridge_Prelude
begin

text \<open>
  The ring buffer of \<open>src_lib/uthash/include/utringbuffer.h\<close>. A slot holds one element; the
  element's address is its slot number. The caller's \<open>copy\<close> and \<open>dtor\<close> functions are
  parameters: \<open>copy\<close> gives the element made from the argument, and the elements handed to \<open>dtor\<close>
  are logged in \<open>rb_dead\<close>. \<open>unsigned\<close> arithmetic is written out where the macros compute indices.
  A pointer computation or a store outside the \<open>n\<close> slots gives nothing.
\<close>

section \<open>State and operations\<close>

record 'a ut_icd =
  icd_init :: "'a option"
  icd_copy :: "('a \<Rightarrow> 'a) option"
  icd_dtor :: bool
  icd_zero :: 'a

record 'a ut_ring =
  rb_i :: nat
  rb_n :: nat
  rb_f :: bool
  rb_icd :: "'a ut_icd"
  rb_d :: "'a list"
  rb_dead :: "'a list"

text \<open>\<open>mem\<close>: what the block of \<open>malloc\<close> holds, nothing when there is none; it is not checked.\<close>

definition utringbuffer_init :: "nat \<Rightarrow> 'a ut_icd \<Rightarrow> 'a list option \<Rightarrow> 'a ut_ring" where
  "utringbuffer_init n icd mem =
     \<lparr>rb_i = 0, rb_n = n, rb_f = False, rb_icd = icd,
      rb_d = (if n \<noteq> 0 then (case mem of Some d \<Rightarrow> d | None \<Rightarrow> []) else []), rb_dead = []\<rparr>"

definition utringbuffer_len :: "'a ut_ring \<Rightarrow> nat" where
  "utringbuffer_len a = (if rb_f a then rb_n a else rb_i a)"

definition utringbuffer_empty :: "'a ut_ring \<Rightarrow> bool" where
  "utringbuffer_empty a \<longleftrightarrow> rb_i a = 0 \<and> \<not> rb_f a"

definition utringbuffer_full :: "'a ut_ring \<Rightarrow> bool" where
  "utringbuffer_full a \<longleftrightarrow> rb_f a"

definition rb_real_idx :: "'a ut_ring \<Rightarrow> nat \<Rightarrow> nat" where
  "rb_real_idx a j = (if rb_f a then ((j + rb_i a) mod 2 ^ 32) mod rb_n a else j)"

definition utringbuffer_eltptr :: "'a ut_ring \<Rightarrow> nat \<Rightarrow> nat option" where
  "utringbuffer_eltptr a j = (if j < utringbuffer_len a then Some (rb_real_idx a j) else None)"

text \<open>The element in a slot; reading outside the block is a fault.\<close>

definition rb_slot :: "'a ut_ring \<Rightarrow> nat \<Rightarrow> 'a option" where
  "rb_slot a j = (if j < length (rb_d a) then Some (rb_d a ! j) else None)"

definition rb_dtor :: "nat \<Rightarrow> 'a ut_ring \<Rightarrow> 'a ut_ring option" where
  "rb_dtor j a = do { x \<leftarrow> rb_slot a j; Some (a\<lparr>rb_dead := rb_dead a @ [x]\<rparr>) }"

text \<open>The destructor loop of \<open>utringbuffer_clear\<close>, from \<open>_ut_i\<close> on up to \<open>m\<close>.\<close>

fun rb_dtors :: "nat \<Rightarrow> nat \<Rightarrow> 'a ut_ring \<Rightarrow> 'a ut_ring option" where
  "rb_dtors 0 j a = Some a"
| "rb_dtors (Suc k) j a =
     do { p \<leftarrow> utringbuffer_eltptr a j; a \<leftarrow> rb_dtor p a; rb_dtors k (j + 1) a }"

definition utringbuffer_clear :: "'a ut_ring \<Rightarrow> 'a ut_ring option" where
  "utringbuffer_clear a =
     do { a \<leftarrow> (if icd_dtor (rb_icd a) then rb_dtors (if rb_f a then rb_n a else rb_i a) 0 a
                else Some a);
          Some (a\<lparr>rb_i := 0, rb_f := False\<rparr>) }"

definition utringbuffer_done :: "'a ut_ring \<Rightarrow> 'a ut_ring option" where
  "utringbuffer_done a = do { a \<leftarrow> utringbuffer_clear a; Some (a\<lparr>rb_d := [], rb_n := 0\<rparr>) }"

definition utringbuffer_push_back :: "'a \<Rightarrow> 'a ut_ring \<Rightarrow> 'a ut_ring option" where
  "utringbuffer_push_back p a =
     do { a \<leftarrow> (if icd_dtor (rb_icd a) \<and> rb_f a then rb_dtor (rb_i a) a else Some a);
          let x = (case icd_copy (rb_icd a) of Some copy \<Rightarrow> copy p | None \<Rightarrow> p) in
          if rb_i a < length (rb_d a) then
            (let a = a\<lparr>rb_d := (rb_d a)[rb_i a := x], rb_i := rb_i a + 1\<rparr>
             in Some (if rb_i a = rb_n a then a\<lparr>rb_i := 0, rb_f := True\<rparr> else a))
          else None }"

text \<open>From the address of an element to its index, and the walk over the elements.\<close>

definition rb_fake_idx :: "'a ut_ring \<Rightarrow> nat \<Rightarrow> nat" where
  "rb_fake_idx a j = (if rb_f a then (j + rb_n a - rb_i a) mod rb_n a else j)"

definition utringbuffer_eltidx :: "'a ut_ring \<Rightarrow> nat \<Rightarrow> nat" where
  "utringbuffer_eltidx a e = rb_fake_idx a e"

definition utringbuffer_front :: "'a ut_ring \<Rightarrow> nat option" where
  "utringbuffer_front a = utringbuffer_eltptr a 0"

definition utringbuffer_back :: "'a ut_ring \<Rightarrow> nat option" where
  "utringbuffer_back a =
     (if utringbuffer_empty a then None else utringbuffer_eltptr a (utringbuffer_len a - 1))"

definition utringbuffer_next :: "'a ut_ring \<Rightarrow> nat option \<Rightarrow> nat option" where
  "utringbuffer_next a e =
     (case e of None \<Rightarrow> utringbuffer_front a
      | Some e \<Rightarrow> utringbuffer_eltptr a (utringbuffer_eltidx a e + 1))"

text \<open>The index before 0 is the largest \<open>unsigned long\<close>.\<close>

definition utringbuffer_prev :: "'a ut_ring \<Rightarrow> nat option \<Rightarrow> nat option" where
  "utringbuffer_prev a e =
     (case e of None \<Rightarrow> utringbuffer_back a
      | Some e \<Rightarrow> utringbuffer_eltptr a ((utringbuffer_eltidx a e + (2 ^ 64 - 1)) mod 2 ^ 64))"

section \<open>A queue that forgets\<close>

fun push_all :: "('a \<Rightarrow> 'q \<Rightarrow> 'q option) \<Rightarrow> 'a list \<Rightarrow> 'q \<Rightarrow> 'q option" where
  "push_all push [] q = Some q"
| "push_all push (x # xs) q = do { q \<leftarrow> push x q; push_all push xs q }"

text \<open>What a bounded queue promises, and what follows of a sequence of pushes.\<close>

locale forgetful_queue =
  fixes push :: "'a \<Rightarrow> 'q \<Rightarrow> 'q option"
    and list :: "'q \<Rightarrow> 'b list"
    and made :: "'q \<Rightarrow> 'a \<Rightarrow> 'b"
    and cap :: "'q \<Rightarrow> nat"
    and inv :: "'q \<Rightarrow> bool"
  assumes push_keeps: "inv q \<Longrightarrow> \<exists>q'. push x q = Some q' \<and> inv q' \<and> cap q' = cap q \<and> made q' = made q
      \<and> list q' = (if length (list q) = cap q then tl (list q) else list q) @ [made q x]"
    and list_bounded: "inv q \<Longrightarrow> length (list q) \<le> cap q"
    and cap_pos: "inv q \<Longrightarrow> 0 < cap q"
begin

lemma pushes_keep_last:
  assumes "inv q"
  shows "\<exists>q'. push_all push xs q = Some q' \<and> inv q' \<and> cap q' = cap q
    \<and> list q' = (let ys = list q @ map (made q) xs in drop (length ys - cap q) ys)"
  using assms
proof (induction xs arbitrary: q)
  case Nil
  then show ?case using list_bounded by simp
next
  case (Cons x xs)
  obtain q1 where q1: "push x q = Some q1" "inv q1" "cap q1 = cap q" "made q1 = made q"
    "list q1 = (if length (list q) = cap q then tl (list q) else list q) @ [made q x]"
    using push_keeps [OF Cons.prems] by blast
  have "drop (length ys - cap q) ys = drop (length zs - cap q) zs"
    if "ys = list q1 @ map (made q) xs" "zs = list q @ map (made q) (x # xs)" for ys zs
  proof (cases "length (list q) = cap q")
    case True
    then obtain b bs where l: "list q = b # bs" using cap_pos [OF Cons.prems] by (cases "list q") auto
    then have z: "zs = b # ys" "cap q \<le> length ys" using True q1(5) that by auto
    then show ?thesis by (simp add: Suc_diff_le)
  next
    case False
    then have "ys = zs" using q1(5) that by simp
    then show ?thesis by simp
  qed
  with Cons.IH [OF q1(2)] q1 show ?case by (auto simp: Let_def)
qed

end

section \<open>The ring buffer is one\<close>

definition rb_wf :: "'a ut_ring \<Rightarrow> bool" where
  "rb_wf a \<longleftrightarrow> length (rb_d a) = rb_n a \<and> rb_i a < rb_n a \<and> rb_n a \<le> 2 ^ 31"

definition rb_list :: "'a ut_ring \<Rightarrow> 'a list" where
  "rb_list a = (if rb_f a then drop (rb_i a) (rb_d a) @ take (rb_i a) (rb_d a)
    else take (rb_i a) (rb_d a))"

definition rb_made :: "'a ut_ring \<Rightarrow> 'a \<Rightarrow> 'a" where
  "rb_made a x = (case icd_copy (rb_icd a) of Some copy \<Rightarrow> copy x | None \<Rightarrow> x)"

lemma length_rb_list: "rb_wf a \<Longrightarrow> length (rb_list a) = utringbuffer_len a"
  by (simp add: rb_wf_def rb_list_def utringbuffer_len_def)

lemma push_back:
  assumes "rb_wf a"
  shows "\<exists>a'. utringbuffer_push_back x a = Some a' \<and> rb_wf a' \<and> rb_n a' = rb_n a \<and> rb_icd a' = rb_icd a
    \<and> rb_list a' = (if length (rb_list a) = rb_n a then tl (rb_list a) else rb_list a) @ [rb_made a x]
    \<and> rb_dead a' = rb_dead a @ (if icd_dtor (rb_icd a) \<and> length (rb_list a) = rb_n a
        then [hd (rb_list a)] else [])"
proof -
  have d: "length (rb_d a) = rb_n a" "rb_i a < rb_n a" using assms by (auto simp: rb_wf_def)
  have t: "drop (rb_i a) (rb_d a) = rb_d a ! rb_i a # drop (Suc (rb_i a)) (rb_d a)"
    using d by (simp add: Cons_nth_drop_Suc)
  define dead where "dead = rb_dead a @ (if icd_dtor (rb_icd a) \<and> rb_f a then [rb_d a ! rb_i a] else [])"
  define a1 where "a1 = a\<lparr>rb_d := (rb_d a)[rb_i a := rb_made a x], rb_dead := dead,
    rb_i := (if Suc (rb_i a) = rb_n a then 0 else Suc (rb_i a)),
    rb_f := (rb_f a \<or> Suc (rb_i a) = rb_n a)\<rparr>"
  have p: "utringbuffer_push_back x a = Some a1"
    using d by (auto simp: utringbuffer_push_back_def rb_dtor_def rb_slot_def a1_def dead_def
        rb_made_def Let_def split: option.splits)
  have full: "length (rb_list a) = rb_n a \<longleftrightarrow> rb_f a" using d by (auto simp: rb_list_def)
  have "rb_list a1 = (if rb_f a then tl (rb_list a) else rb_list a) @ [rb_made a x]"
    using d t by (auto simp: rb_list_def a1_def take_Suc_conv_app_nth list_update_append1
        upd_conv_take_nth_drop)
  moreover have "rb_f a \<Longrightarrow> hd (rb_list a) = rb_d a ! rb_i a" using t by (simp add: rb_list_def)
  ultimately show ?thesis
    using p full d assms by (intro exI [of _ a1]) (auto simp: rb_wf_def a1_def dead_def)
qed

interpretation rq: forgetful_queue utringbuffer_push_back rb_list rb_made rb_n rb_wf
proof unfold_locales
  show "\<exists>q'. utringbuffer_push_back x q = Some q' \<and> rb_wf q' \<and> rb_n q' = rb_n q \<and> rb_made q' = rb_made q
      \<and> rb_list q' = (if length (rb_list q) = rb_n q then tl (rb_list q) else rb_list q) @ [rb_made q x]"
    if "rb_wf q" for x and q :: "'a ut_ring"
    using push_back [OF that, of x] by (auto simp: rb_made_def fun_eq_iff)
qed (auto simp: rb_wf_def rb_list_def)

text \<open>Destroyed and stored elements together are the elements ever made, in their order.\<close>

lemma pushes_account:
  assumes "rb_wf a" and "push_all utringbuffer_push_back xs a = Some a'" and "icd_dtor (rb_icd a)"
  shows "rb_dead a' @ rb_list a' = rb_dead a @ rb_list a @ map (rb_made a) xs"
  using assms
proof (induction xs arbitrary: a)
  case (Cons x xs)
  obtain b where b: "utringbuffer_push_back x a = Some b" "rb_wf b" "rb_icd b = rb_icd a"
    "rb_list b = (if length (rb_list a) = rb_n a then tl (rb_list a) else rb_list a) @ [rb_made a x]"
    "rb_dead b = rb_dead a @ (if length (rb_list a) = rb_n a then [hd (rb_list a)] else [])"
    using push_back [OF Cons.prems(1), of x] Cons.prems(3) by auto
  have "rb_list a \<noteq> []" if "length (rb_list a) = rb_n a"
    using that Cons.prems(1) by (auto simp: rb_wf_def)
  then have "rb_dead b @ rb_list b = rb_dead a @ rb_list a @ [rb_made a x]" using b(4,5) by auto
  moreover have "rb_made b = rb_made a" using b(3) by (simp add: rb_made_def fun_eq_iff)
  ultimately show ?case using Cons.IH [OF b(2)] Cons.prems(2,3) b(1,3) by simp
qed simp

section \<open>Reading\<close>

lemma real_idx:
  assumes "rb_wf a" and "j < utringbuffer_len a"
  shows "utringbuffer_eltptr a j = Some (rb_real_idx a j)"
    and "rb_slot a (rb_real_idx a j) = Some (rb_list a ! j)"
    and "utringbuffer_eltidx a (rb_real_idx a j) = j"
proof -
  have d: "length (rb_d a) = rb_n a" "rb_i a < rb_n a" "rb_n a \<le> 2 ^ 31"
    using assms(1) by (auto simp: rb_wf_def)
  have j: "rb_f a \<Longrightarrow> j < rb_n a" "\<not> rb_f a \<Longrightarrow> j < rb_i a"
    using assms(2) by (auto simp: utringbuffer_len_def)
  show "utringbuffer_eltptr a j = Some (rb_real_idx a j)"
    using assms(2) by (simp add: utringbuffer_eltptr_def)
  show "rb_slot a (rb_real_idx a j) = Some (rb_list a ! j)"
    "utringbuffer_eltidx a (rb_real_idx a j) = j"
  proof (atomize (full), cases "rb_f a")
    case True
    then have w: "(j + rb_i a) mod 2 ^ 32 = j + rb_i a" using d j by simp
    show "rb_slot a (rb_real_idx a j) = Some (rb_list a ! j) \<and> utringbuffer_eltidx a (rb_real_idx a j) = j"
    proof (cases "j + rb_i a < rb_n a")
      case False
      then have "(j + rb_i a) mod rb_n a = j + rb_i a - rb_n a"
        using True d j by (simp add: mod_if)
      with False True w d j show ?thesis
        by (auto simp: rb_slot_def rb_real_idx_def rb_list_def utringbuffer_eltidx_def rb_fake_idx_def
            nth_append)
    qed (use True w d j in \<open>auto simp: rb_slot_def rb_real_idx_def rb_list_def
        utringbuffer_eltidx_def rb_fake_idx_def nth_append add.commute\<close>)
  qed (use d j in \<open>auto simp: rb_slot_def rb_real_idx_def rb_list_def utringbuffer_eltidx_def
      rb_fake_idx_def\<close>)
qed

text \<open>The walk with \<open>utringbuffer_next\<close> or \<open>utringbuffer_prev\<close> from NULL to NULL.\<close>

partial_function (option) rb_walk ::
    "('a ut_ring \<Rightarrow> nat option \<Rightarrow> nat option) \<Rightarrow> 'a ut_ring \<Rightarrow> nat option \<Rightarrow> 'a list option" where
  "rb_walk step a e =
     (case step a e of
        None \<Rightarrow> Some []
      | Some s \<Rightarrow> do { x \<leftarrow> rb_slot a s; xs \<leftarrow> rb_walk step a (Some s); Some (x # xs) })"

lemma rb_walk_next_from:
  assumes "rb_wf a"
  shows "j < utringbuffer_len a
    \<Longrightarrow> rb_walk utringbuffer_next a (Some (rb_real_idx a j)) = Some (drop (Suc j) (rb_list a))"
proof (induction "utringbuffer_len a - j" arbitrary: j rule: less_induct)
  case less
  have n: "utringbuffer_next a (Some (rb_real_idx a j)) = utringbuffer_eltptr a (Suc j)"
    using real_idx(3) [OF assms less.prems] by (simp add: utringbuffer_next_def)
  show ?case
  proof (cases "Suc j < utringbuffer_len a")
    case True
    with less.hyps [of "Suc j"] less.prems real_idx [OF assms True] n length_rb_list [OF assms]
    show ?thesis by (subst rb_walk.simps) (simp add: Cons_nth_drop_Suc)
  next
    case False
    with n length_rb_list [OF assms] show ?thesis
      by (subst rb_walk.simps) (simp add: utringbuffer_eltptr_def)
  qed
qed

lemma walk_next:
  assumes "rb_wf a"
  shows "rb_walk utringbuffer_next a None = Some (rb_list a)"
proof (cases "utringbuffer_len a")
  case 0
  with length_rb_list [OF assms] show ?thesis
    by (subst rb_walk.simps) (simp add: utringbuffer_next_def utringbuffer_front_def utringbuffer_eltptr_def)
next
  case (Suc n)
  then have z: "0 < utringbuffer_len a" by simp
  have "rb_list a = rb_list a ! 0 # drop (Suc 0) (rb_list a)"
    using z length_rb_list [OF assms] by (metis Cons_nth_drop_Suc drop0)
  with real_idx [OF assms z] rb_walk_next_from [OF assms z] show ?thesis
    by (subst rb_walk.simps) (simp add: utringbuffer_next_def utringbuffer_front_def)
qed

lemma rb_walk_prev_from:
  assumes "rb_wf a"
  shows "j < utringbuffer_len a
    \<Longrightarrow> rb_walk utringbuffer_prev a (Some (rb_real_idx a j)) = Some (rev (take j (rb_list a)))"
proof (induction j)
  case 0
  have "\<not> 2 ^ 64 - 1 < utringbuffer_len a"
    using assms by (auto simp: rb_wf_def utringbuffer_len_def)
  with real_idx(3) [OF assms 0] show ?case
    by (subst rb_walk.simps) (simp add: utringbuffer_prev_def utringbuffer_eltptr_def)
next
  case (Suc j)
  then have j: "j < utringbuffer_len a" by simp
  have "j < 2 ^ 64" using j assms by (auto simp: rb_wf_def utringbuffer_len_def split: if_splits)
  then have "(Suc j + (2 ^ 64 - 1)) mod 2 ^ 64 = j" by simp
  then have "utringbuffer_prev a (Some (rb_real_idx a (Suc j))) = utringbuffer_eltptr a j"
    using real_idx(3) [OF assms Suc.prems] by (simp add: utringbuffer_prev_def)
  with real_idx [OF assms j] Suc.IH [OF j] j length_rb_list [OF assms] show ?case
    by (subst rb_walk.simps) (simp add: take_Suc_conv_app_nth)
qed

lemma walk_prev:
  assumes "rb_wf a"
  shows "rb_walk utringbuffer_prev a None = Some (rev (rb_list a))"
proof (cases "utringbuffer_len a")
  case 0
  then have "utringbuffer_empty a" using assms
    by (auto simp: utringbuffer_empty_def utringbuffer_len_def rb_wf_def split: if_splits)
  with 0 length_rb_list [OF assms] show ?thesis
    by (subst rb_walk.simps) (simp add: utringbuffer_prev_def utringbuffer_back_def)
next
  case (Suc n)
  then have z: "n < utringbuffer_len a" and e: "\<not> utringbuffer_empty a"
    by (auto simp: utringbuffer_empty_def utringbuffer_len_def split: if_splits)
  have "rb_list a = take n (rb_list a) @ [rb_list a ! n]"
    using Suc length_rb_list [OF assms] by (simp flip: take_Suc_conv_app_nth)
  from arg_cong [OF this, of rev]
  have r: "rev (rb_list a) = rb_list a ! n # rev (take n (rb_list a))" by simp
  have "utringbuffer_prev a None = utringbuffer_eltptr a n"
    using Suc e by (simp add: utringbuffer_prev_def utringbuffer_back_def)
  with real_idx [OF assms z] rb_walk_prev_from [OF assms z] show ?thesis
    unfolding r by (subst rb_walk.simps) simp
qed

section \<open>Clearing\<close>

lemma rb_dtors_list:
  "rb_wf a \<Longrightarrow> k + j = utringbuffer_len a
    \<Longrightarrow> rb_dtors k j a = Some (a\<lparr>rb_dead := rb_dead a @ drop j (rb_list a)\<rparr>)"
proof (induction k arbitrary: j a)
  case 0
  then show ?case using length_rb_list [of a] by simp
next
  case (Suc k)
  then have j: "j < utringbuffer_len a" by simp
  let ?b = "a\<lparr>rb_dead := rb_dead a @ [rb_list a ! j]\<rparr>"
  have same: "rb_wf ?b = rb_wf a" "utringbuffer_len ?b = utringbuffer_len a" "rb_list ?b = rb_list a"
    by (simp_all add: rb_wf_def utringbuffer_len_def rb_list_def)
  have "rb_dtor (rb_real_idx a j) a = Some ?b"
    using real_idx(2) [OF Suc.prems(1) j] by (simp add: rb_dtor_def)
  with real_idx(1) [OF Suc.prems(1) j] Suc.IH [of ?b "Suc j"] Suc.prems same j
    length_rb_list [OF Suc.prems(1)]
  show ?case by (simp add: Cons_nth_drop_Suc)
qed

lemma clear_list:
  assumes "rb_wf a"
  shows "\<exists>a'. utringbuffer_clear a = Some a' \<and> rb_wf a' \<and> rb_list a' = []
    \<and> rb_dead a' = rb_dead a @ (if icd_dtor (rb_icd a) then rb_list a else [])"
proof -
  have "rb_dtors (if rb_f a then rb_n a else rb_i a) 0 a
      = Some (a\<lparr>rb_dead := rb_dead a @ rb_list a\<rparr>)"
    using rb_dtors_list [OF assms, of _ 0] by (simp add: utringbuffer_len_def)
  with assms show ?thesis
    by (auto simp: utringbuffer_clear_def rb_wf_def rb_list_def)
qed

section \<open>Properties\<close>

lemma init_wf:
  "length d = n \<Longrightarrow> 0 < n \<Longrightarrow> n \<le> 2 ^ 31 \<Longrightarrow>
    rb_wf (utringbuffer_init n icd (Some d)) \<and> rb_list (utringbuffer_init n icd (Some d)) = []"
  by (simp add: utringbuffer_init_def rb_wf_def rb_list_def)

text \<open>C39: a ring buffer holds the last \<open>n\<close> elements pushed, oldest first. Pushing never leaves the
  block; \<open>utringbuffer_len\<close> is the number of elements held; walking with \<open>utringbuffer_next\<close>
  meets them in order and with \<open>utringbuffer_prev\<close> in reverse; and with a destructor each element
  that was ever pushed is held or has been destroyed, once, the oldest first.\<close>

theorem utringbuffer_keeps_last:
  assumes "length d = n" and "0 < n" and "n \<le> 2 ^ 31"
    and "ys = map (rb_made (utringbuffer_init n icd (Some d))) xs"
  shows "\<exists>a. push_all utringbuffer_push_back xs (utringbuffer_init n icd (Some d)) = Some a
    \<and> utringbuffer_len a = min n (length xs)
    \<and> rb_walk utringbuffer_next a None = Some (drop (length ys - n) ys)
    \<and> rb_walk utringbuffer_prev a None = Some (rev (drop (length ys - n) ys))
    \<and> (icd_dtor icd \<longrightarrow> rb_dead a = take (length ys - n) ys)"
proof -
  let ?a = "utringbuffer_init n icd (Some d)"
  have i: "rb_wf ?a" "rb_list ?a = []" "rb_n ?a = n" "rb_icd ?a = icd" "rb_dead ?a = []"
    using init_wf [OF assms(1-3), of icd] by (auto simp: utringbuffer_init_def)
  from rq.pushes_keep_last [OF i(1), of xs] i(2,3) assms(4) obtain a where
    a: "push_all utringbuffer_push_back xs ?a = Some a" "rb_wf a" "rb_list a = drop (length ys - n) ys"
    by (auto simp: Let_def)
  have "icd_dtor icd \<Longrightarrow> rb_dead a @ drop (length ys - n) ys = ys"
    using pushes_account [OF i(1) a(1)] i a(3) assms(4) by simp
  then have "icd_dtor icd \<Longrightarrow> rb_dead a @ drop (length ys - n) ys
      = take (length ys - n) ys @ drop (length ys - n) ys" by simp
  then have "icd_dtor icd \<Longrightarrow> rb_dead a = take (length ys - n) ys" by blast
  moreover have "utringbuffer_len a = min n (length xs)"
    using length_rb_list [OF a(2)] a(3) assms(4) by auto
  ultimately show ?thesis using a walk_next [OF a(2)] walk_prev [OF a(2)] by auto
qed

theorem utringbuffer_keeps_last_witness:
  "\<exists>a. push_all utringbuffer_push_back [1, 2, 3, 4, 5 :: int]
       (utringbuffer_init 3 \<lparr>icd_init = None, icd_copy = None, icd_dtor = True, icd_zero = 0\<rparr>
         (Some [7, 7, 7])) = Some a
    \<and> rb_walk utringbuffer_next a None = Some [3, 4, 5] \<and> rb_dead a = [1, 2]"
  using utringbuffer_keeps_last [of "[7, 7, 7]" 3
      "map (rb_made (utringbuffer_init 3 \<lparr>icd_init = None, icd_copy = None, icd_dtor = True,
         icd_zero = 0\<rparr> (Some [7, 7, 7 :: int]))) [1, 2, 3, 4, 5]"
      "\<lparr>icd_init = None, icd_copy = None, icd_dtor = True, icd_zero = 0\<rparr>" "[1, 2, 3, 4, 5]"]
  by (auto simp: rb_made_def utringbuffer_init_def simp del: push_all.simps)

text \<open>The result of \<open>malloc\<close> is not checked: without memory the first push stores through NULL.\<close>

lemma utringbuffer_no_memory: "utringbuffer_push_back x (utringbuffer_init n icd None) = None"
  by (simp add: utringbuffer_push_back_def utringbuffer_init_def)

end
