(* ===== verification/Utarray.thy ===== *)
theory Utarray
  imports Utstring Utringbuffer
begin

text \<open>
  The dynamic array of \<open>src_lib/uthash/include/utarray.h\<close>. Elements are whole slots; the caller's
  \<open>init\<close>, \<open>copy\<close> and \<open>dtor\<close> functions are parameters (\<open>icd\<close>), and the elements handed to
  \<open>dtor\<close> are logged. \<open>i\<close> and \<open>n\<close> are \<open>unsigned\<close> and wrap at \<open>2 ^ 32\<close>. \<open>ra\<close> is \<open>realloc\<close>: from
  the number of slots asked for, what the slots beyond the old ones hold, or nothing. A result
  is \<open>None\<close> when the code does not return, or a fault: \<open>utarray_oom\<close>, or an access outside the
  block.
\<close>

section \<open>State and results\<close>

record 'a ut_array =
  ua_i :: nat
  ua_n :: nat
  ua_icd :: "'a ut_icd"
  ua_d :: "'a list"
  ua_dead :: "'a list"

type_synonym 'a ua_alloc = "nat \<Rightarrow> (nat \<Rightarrow> 'a) option"
type_synonym 'a ua_result = "'a ut_array ut_result option"

definition ua_u32 :: "int \<Rightarrow> nat" where
  "ua_u32 x = nat (x mod 2 ^ 32)"

fun ua_bind :: "'a ua_result \<Rightarrow> ('a ut_array \<Rightarrow> 'a ua_result) \<Rightarrow> 'a ua_result" where
  "ua_bind None f = None"
| "ua_bind (Some (Inl e)) f = Some (Inl e)"
| "ua_bind (Some (Inr a)) f = f a"

abbreviation ua_ok :: "'a ut_array \<Rightarrow> 'a ua_result" where
  "ua_ok a \<equiv> Some (Inr a)"

abbreviation ua_fault :: "'a ua_result" where
  "ua_fault \<equiv> Some (Inl Ut_bounds)"

text \<open>\<open>memcpy\<close> or \<open>memset\<close> of slots, and \<open>memmove\<close> within the block.\<close>

definition ua_store :: "nat \<Rightarrow> 'a list \<Rightarrow> 'a ut_array \<Rightarrow> 'a ua_result" where
  "ua_store j xs a =
     (if j + length xs \<le> length (ua_d a) then
        ua_ok (a\<lparr>ua_d := take j (ua_d a) @ xs @ drop (j + length xs) (ua_d a)\<rparr>)
      else ua_fault)"

definition ua_memmove :: "nat \<Rightarrow> nat \<Rightarrow> nat \<Rightarrow> 'a ut_array \<Rightarrow> 'a ua_result" where
  "ua_memmove to frm len a =
     (if frm + len \<le> length (ua_d a) then ua_store to (take len (drop frm (ua_d a))) a else ua_fault)"

text \<open>The destructor of a slot, and of the slots from \<open>j\<close> on.\<close>

definition ua_dtor :: "nat \<Rightarrow> 'a ut_array \<Rightarrow> 'a ua_result" where
  "ua_dtor j a =
     (if j < length (ua_d a) then ua_ok (a\<lparr>ua_dead := ua_dead a @ [ua_d a ! j]\<rparr>) else ua_fault)"

fun ua_dtors :: "nat \<Rightarrow> nat \<Rightarrow> 'a ut_array \<Rightarrow> 'a ua_result" where
  "ua_dtors 0 j a = ua_ok a"
| "ua_dtors (Suc k) j a = ua_bind (ua_dtor j a) (ua_dtors k (j + 1))"

definition ua_copied :: "'a ut_icd \<Rightarrow> 'a \<Rightarrow> 'a" where
  "ua_copied icd x = (case icd_copy icd of Some copy \<Rightarrow> copy x | None \<Rightarrow> x)"

definition ua_fresh :: "'a ut_icd \<Rightarrow> 'a" where
  "ua_fresh icd = (case icd_init icd of Some x \<Rightarrow> x | None \<Rightarrow> icd_zero icd)"

section \<open>Operations\<close>

definition utarray_init :: "'a ut_icd \<Rightarrow> 'a ut_array" where
  "utarray_init icd = \<lparr>ua_i = 0, ua_n = 0, ua_icd = icd, ua_d = [], ua_dead = []\<rparr>"

definition utarray_new :: "bool \<Rightarrow> 'a ut_icd \<Rightarrow> 'a ua_result" where
  "utarray_new cell icd = (if cell then ua_ok (utarray_init icd) else Some (Inl Ut_oom))"

text \<open>\<open>utarray_eltptr\<close> and the address of a slot without the test.\<close>

definition utarray_len :: "'a ut_array \<Rightarrow> nat" where
  "utarray_len a = ua_i a"

definition utarray_eltptr :: "'a ut_array \<Rightarrow> nat \<Rightarrow> nat option" where
  "utarray_eltptr a j = (if j < ua_i a then Some j else None)"

definition utarray_done :: "'a ut_array \<Rightarrow> 'a ua_result" where
  "utarray_done a =
     (if ua_n a \<noteq> 0 then
        ua_bind (if icd_dtor (ua_icd a) then ua_dtors (ua_i a) 0 a else ua_ok a)
          (\<lambda>a. ua_ok (a\<lparr>ua_d := [], ua_n := 0\<rparr>))
      else ua_ok (a\<lparr>ua_n := 0\<rparr>))"

text \<open>The doubling loop of \<open>utarray_reserve\<close>.\<close>

partial_function (option) ua_grow :: "nat \<Rightarrow> nat \<Rightarrow> nat option" where
  "ua_grow need n =
     (if need > n then ua_grow need (if n \<noteq> 0 then ua_u32 (2 * int n) else 8) else Some n)"

definition utarray_reserve :: "'a ua_alloc \<Rightarrow> nat \<Rightarrow> 'a ut_array \<Rightarrow> 'a ua_result" where
  "utarray_reserve ra by a =
     (if ua_u32 (int (ua_i a) + int by) > ua_n a then
        (case ua_grow (ua_u32 (int (ua_i a) + int by)) (ua_n a) of
           None \<Rightarrow> None
         | Some n \<Rightarrow>
             (case ra n of
                None \<Rightarrow> Some (Inl Ut_oom)
              | Some fresh \<Rightarrow>
                  ua_ok (a\<lparr>ua_n := n,
                    ua_d := take n (ua_d a) @ map fresh [length (ua_d a)..<n]\<rparr>)))
      else ua_ok a)"

definition utarray_push_back :: "'a ua_alloc \<Rightarrow> 'a \<Rightarrow> 'a ut_array \<Rightarrow> 'a ua_result" where
  "utarray_push_back ra p a =
     ua_bind (utarray_reserve ra 1 a) (\<lambda>a.
       ua_bind (ua_store (ua_i a) [ua_copied (ua_icd a) p] a) (\<lambda>a.
         ua_ok (a\<lparr>ua_i := ua_u32 (int (ua_i a) + 1)\<rparr>)))"

definition utarray_pop_back :: "'a ut_array \<Rightarrow> 'a ua_result" where
  "utarray_pop_back a =
     (let a = a\<lparr>ua_i := ua_u32 (int (ua_i a) - 1)\<rparr>
      in if icd_dtor (ua_icd a) then ua_dtor (ua_i a) a else ua_ok a)"

definition utarray_extend_back :: "'a ua_alloc \<Rightarrow> 'a ut_array \<Rightarrow> 'a ua_result" where
  "utarray_extend_back ra a =
     ua_bind (utarray_reserve ra 1 a) (\<lambda>a.
       ua_bind (ua_store (ua_i a) [ua_fresh (ua_icd a)] a) (\<lambda>a.
         ua_ok (a\<lparr>ua_i := ua_u32 (int (ua_i a) + 1)\<rparr>)))"

definition utarray_resize :: "'a ua_alloc \<Rightarrow> nat \<Rightarrow> 'a ut_array \<Rightarrow> 'a ua_result" where
  "utarray_resize ra num a =
     ua_bind
       (if ua_i a > num then
          if icd_dtor (ua_icd a) then ua_dtors (ua_i a - num) num a else ua_ok a
        else if ua_i a < num then
          ua_bind (utarray_reserve ra (num - ua_i a) a) (\<lambda>a.
            ua_store (ua_i a) (replicate (num - ua_i a) (ua_fresh (ua_icd a))) a)
        else ua_ok a)
       (\<lambda>a. ua_ok (a\<lparr>ua_i := num\<rparr>))"

definition utarray_insert :: "'a ua_alloc \<Rightarrow> 'a \<Rightarrow> nat \<Rightarrow> 'a ut_array \<Rightarrow> 'a ua_result" where
  "utarray_insert ra p j a =
     ua_bind (if j > ua_i a then utarray_resize ra j a else ua_ok a) (\<lambda>a.
     ua_bind (utarray_reserve ra 1 a) (\<lambda>a.
     ua_bind (if j < ua_i a then ua_memmove (j + 1) j (ua_i a - j) a else ua_ok a) (\<lambda>a.
     ua_bind (ua_store j [ua_copied (ua_icd a) p] a) (\<lambda>a.
       ua_ok (a\<lparr>ua_i := ua_u32 (int (ua_i a) + 1)\<rparr>)))))"

text \<open>\<open>w\<close> is a different array; its elements are copied one by one, or in a block.\<close>

definition utarray_inserta :: "'a ua_alloc \<Rightarrow> 'a ut_array \<Rightarrow> nat \<Rightarrow> 'a ut_array \<Rightarrow> 'a ua_result" where
  "utarray_inserta ra w j a =
     (if utarray_len w = 0 then ua_ok a
      else
        ua_bind (if j > ua_i a then utarray_resize ra j a else ua_ok a) (\<lambda>a.
        ua_bind (utarray_reserve ra (utarray_len w) a) (\<lambda>a.
        ua_bind (if j < ua_i a then ua_memmove (j + utarray_len w) j (ua_i a - j) a else ua_ok a) (\<lambda>a.
        ua_bind (if ua_i w \<le> length (ua_d w)
                 then ua_store j (map (ua_copied (ua_icd a)) (take (ua_i w) (ua_d w))) a else ua_fault) (\<lambda>a.
          ua_ok (a\<lparr>ua_i := ua_u32 (int (ua_i a) + int (utarray_len w))\<rparr>))))))"

definition utarray_concat :: "'a ua_alloc \<Rightarrow> 'a ut_array \<Rightarrow> 'a ut_array \<Rightarrow> 'a ua_result" where
  "utarray_concat ra src dst = utarray_inserta ra src (utarray_len dst) dst"

text \<open>The destructor loop of \<open>utarray_erase\<close> takes NULL for an index that is not in the array.\<close>

fun ua_erase_dtors :: "nat \<Rightarrow> nat \<Rightarrow> 'a ut_array \<Rightarrow> 'a ua_result" where
  "ua_erase_dtors 0 j a = ua_ok a"
| "ua_erase_dtors (Suc k) j a =
     (case utarray_eltptr a j of
        None \<Rightarrow> ua_fault
      | Some e \<Rightarrow> ua_bind (ua_dtor e a) (ua_erase_dtors k (j + 1)))"

definition utarray_erase :: "nat \<Rightarrow> nat \<Rightarrow> 'a ut_array \<Rightarrow> 'a ua_result" where
  "utarray_erase pos len a =
     ua_bind (if icd_dtor (ua_icd a) then ua_erase_dtors len pos a else ua_ok a) (\<lambda>a.
     ua_bind (if ua_i a > pos + len then ua_memmove pos (pos + len) (ua_i a - (pos + len)) a
              else ua_ok a) (\<lambda>a.
       ua_ok (a\<lparr>ua_i := ua_u32 (int (ua_i a) - int len)\<rparr>)))"

definition utarray_clear :: "'a ut_array \<Rightarrow> 'a ua_result" where
  "utarray_clear a =
     (if ua_i a > 0 then
        ua_bind (if icd_dtor (ua_icd a) then ua_dtors (ua_i a) 0 a else ua_ok a) (\<lambda>a.
          ua_ok (a\<lparr>ua_i := 0\<rparr>))
      else ua_ok a)"

definition utarray_renew :: "bool \<Rightarrow> 'a ut_icd \<Rightarrow> 'a ut_array option \<Rightarrow> 'a ua_result" where
  "utarray_renew cell u a = (case a of Some a \<Rightarrow> utarray_clear a | None \<Rightarrow> utarray_new cell u)"

text \<open>\<open>qsort\<close> of the C library, and the walk over the elements; an element is its slot.\<close>

definition utarray_sort :: "('a list \<Rightarrow> 'a list) \<Rightarrow> 'a ut_array \<Rightarrow> 'a ua_result" where
  "utarray_sort qs a =
     (if ua_i a \<le> length (ua_d a)
      then ua_ok (a\<lparr>ua_d := qs (take (ua_i a) (ua_d a)) @ drop (ua_i a) (ua_d a)\<rparr>) else ua_fault)"

definition utarray_front :: "'a ut_array \<Rightarrow> nat option" where
  "utarray_front a = (if ua_i a \<noteq> 0 then Some 0 else None)"

definition utarray_back :: "'a ut_array \<Rightarrow> nat option" where
  "utarray_back a = (if ua_i a \<noteq> 0 then Some (ua_i a - 1) else None)"

definition utarray_next :: "'a ut_array \<Rightarrow> nat option \<Rightarrow> nat option" where
  "utarray_next a e =
     (case e of None \<Rightarrow> utarray_front a
      | Some e \<Rightarrow> if ua_i a \<noteq> e + 1 then Some (e + 1) else None)"

definition utarray_prev :: "'a ut_array \<Rightarrow> nat option \<Rightarrow> nat option" where
  "utarray_prev a e =
     (case e of None \<Rightarrow> utarray_back a | Some e \<Rightarrow> if e \<noteq> 0 then Some (e - 1) else None)"

end
