(* ===== verification/Utarray_Refine.thy ===== *)
theory Utarray_Refine
  imports Utarray
begin

text \<open>
  The dynamic array of \<open>Utarray\<close> refines a list: what each operation makes of an array that holds
  \<open>xs\<close>, and what a sequence of operations makes of it. A request of more than \<open>2 ^ 31\<close> slots is
  shown to hang.
\<close>

section \<open>The well-formed array\<close>

text \<open>The array holds \<open>xs\<close>, has \<open>tail\<close> in the slots to spare and has destroyed \<open>dd\<close>.\<close>

definition ua_arr :: "'a ut_icd \<Rightarrow> 'a list \<Rightarrow> 'a list \<Rightarrow> 'a list \<Rightarrow> 'a ut_array" where
  "ua_arr icd xs tail dd =
     \<lparr>ua_i = length xs, ua_n = length xs + length tail, ua_icd = icd, ua_d = xs @ tail, ua_dead = dd\<rparr>"

definition ua_is :: "'a ut_icd \<Rightarrow> 'a list \<Rightarrow> 'a list \<Rightarrow> 'a ut_array \<Rightarrow> bool" where
  "ua_is icd xs dd a \<longleftrightarrow> (\<exists>tail. a = ua_arr icd xs tail dd \<and> length xs + length tail < 2 ^ 32)"

text \<open>The result of an operation is the end of the process or an array with a property.\<close>

definition ua_post :: "('a ut_array \<Rightarrow> bool) \<Rightarrow> 'a ua_result \<Rightarrow> bool" where
  "ua_post P r \<longleftrightarrow> r = Some (Inl Ut_oom) \<or> (\<exists>a. r = ua_ok a \<and> P a)"

lemma ua_post_ok [simp]: "ua_post P (ua_ok a) = P a"
  by (auto simp: ua_post_def)

lemma ua_post_oom [simp]: "ua_post P (Some (Inl Ut_oom))"
  by (simp add: ua_post_def)

lemma ua_post_bind:
  "ua_post P m \<Longrightarrow> (\<And>a. P a \<Longrightarrow> ua_post Q (f a)) \<Longrightarrow> ua_post Q (ua_bind m f)"
  unfolding ua_post_def by (elim disjE exE conjE) simp_all

lemma ua_post_mono: "ua_post P r \<Longrightarrow> (\<And>a. P a \<Longrightarrow> Q a) \<Longrightarrow> ua_post Q r"
  by (auto simp: ua_post_def)

lemma ua_u32_small [simp]: "0 \<le> x \<Longrightarrow> x < 2 ^ 32 \<Longrightarrow> ua_u32 x = nat x"
  by (simp add: ua_u32_def)

lemma ua_arr_simps [simp]:
  "ua_i (ua_arr icd xs tail dd) = length xs" "ua_n (ua_arr icd xs tail dd) = length xs + length tail"
  "ua_icd (ua_arr icd xs tail dd) = icd" "ua_d (ua_arr icd xs tail dd) = xs @ tail"
  "ua_dead (ua_arr icd xs tail dd) = dd"
  by (simp_all add: ua_arr_def)

lemma ua_isI:
  "ua_d a = xs @ tail \<Longrightarrow> ua_i a = length xs \<Longrightarrow> ua_n a = length xs + length tail \<Longrightarrow> ua_icd a = icd
    \<Longrightarrow> ua_dead a = dd \<Longrightarrow> length xs + length tail < 2 ^ 32 \<Longrightarrow> ua_is icd xs dd a"
  unfolding ua_is_def ua_arr_def by (intro exI [of _ tail]) simp

lemma ua_is_arr: "length xs + length tail < 2 ^ 32 \<Longrightarrow> ua_is icd xs dd (ua_arr icd xs tail dd)"
  unfolding ua_is_def by blast

lemma take_apart:
  assumes "k \<le> length xs"
  obtains us vs where "xs = us @ vs" "length us = k"
  using assms that [of "take k xs" "drop k xs"] by simp

section \<open>Growing\<close>

lemma grow_enough:
  assumes "need \<le> 2 ^ 31"
  shows "n < 2 ^ 32 \<Longrightarrow> \<exists>n'. ua_grow need n = Some n' \<and> need \<le> n' \<and> n \<le> n' \<and> n' < 2 ^ 32"
proof (induction "need - n" arbitrary: n rule: less_induct)
  case less
  show ?case
  proof (cases "need > n")
    case True
    define m where "m = (if n \<noteq> 0 then ua_u32 (2 * int n) else 8)"
    have "n \<noteq> 0 \<Longrightarrow> m = 2 * n" using True assms by (simp add: m_def nat_mult_distrib)
    then have m: "n < m" "m < 2 ^ 32" using True assms by (cases "n = 0"; simp add: m_def)+
    have "need - m < need - n" using diff_less_mono2 [OF m(1) True] .
    from less.hyps [OF this m(2)] obtain n' where
      "ua_grow need m = Some n'" "need \<le> n'" "m \<le> n'" "n' < 2 ^ 32" by blast
    moreover have "ua_grow need n = ua_grow need m" using True by (subst ua_grow.simps) (simp add: m_def)
    ultimately show ?thesis using m by auto
  qed (use less.prems in \<open>auto simp: ua_grow.simps\<close>)
qed

text \<open>Above \<open>2 ^ 31\<close> slots the doubled capacity wraps to 0 and the loop never ends.\<close>

lemma grow_forever:
  assumes "2 ^ 31 < need" and "n = 0 \<or> (\<exists>k \<le> 31. n = 2 ^ k)"
  shows "ua_grow need n = None"
proof (rule ccontr)
  assume "ua_grow need n \<noteq> None"
  then obtain r where r: "ua_grow need n = Some r" by blast
  have "2 ^ 31 < need \<longrightarrow> (n = 0 \<or> (\<exists>k \<le> 31. n = 2 ^ k)) \<longrightarrow> False"
  proof (rule ua_grow.raw_induct [OF _ r, where P = "\<lambda>need n r. 2 ^ 31 < need
      \<longrightarrow> (n = 0 \<or> (\<exists>k \<le> 31. n = 2 ^ k)) \<longrightarrow> False"], intro impI)
    fix f need n r
    assume IH: "\<And>need n r. f need n = Some r
        \<Longrightarrow> 2 ^ 31 < need \<longrightarrow> (n = 0 \<or> (\<exists>k \<le> 31. n = 2 ^ k)) \<longrightarrow> False"
      and body: "(if need > n then f need (if n \<noteq> 0 then ua_u32 (2 * int n) else 8) else Some n) = Some r"
      and need: "(2 ^ 31 :: nat) < need" and n: "n = 0 \<or> (\<exists>k \<le> 31. n = (2 ^ k :: nat))"
    have "n \<le> 2 ^ 31" using n power_increasing [of _ 31 "2 :: nat"] by auto
    with body need have s: "f need (if n \<noteq> 0 then ua_u32 (2 * int n) else 8) = Some r" by (auto split: if_splits)
    have "(if n \<noteq> 0 then ua_u32 (2 * int n) else 8) = 0
        \<or> (\<exists>k \<le> 31. (if n \<noteq> 0 then ua_u32 (2 * int n) else 8) = (2 ^ k :: nat))"
    proof (cases "n = 0")
      case True
      have "(8 :: nat) = 2 ^ 3" by simp
      with True show ?thesis by (intro disjI2 exI [of _ 3]) simp
    next
      case False
      with n obtain k where k: "k \<le> 31" "n = 2 ^ k" by blast
      show ?thesis
      proof (cases "k = 31")
        case True
        with k show ?thesis by (simp add: ua_u32_def)
      next
        case False
        with k have "int (2 ^ Suc k) < 2 ^ 32"
          using power_increasing [of "Suc k" 31 "2 :: int"] by simp
        with k False show ?thesis by (intro disjI2 exI [of _ "Suc k"]) (simp add: nat_mult_distrib nat_power_eq)
      qed
    qed
    with IH [OF s] need show False by blast
  qed
  with assms show False by blast
qed

lemma reserve_post:
  assumes "ua_is icd xs dd a" and "length xs + by \<le> 2 ^ 31"
  shows "ua_post (\<lambda>b. \<exists>t1 t2. b = ua_arr icd xs (t1 @ t2) dd \<and> length t1 = by
    \<and> length xs + by + length t2 < 2 ^ 32) (utarray_reserve ra by a)"
proof -
  from assms(1) obtain tail where a: "a = ua_arr icd xs tail dd" "length xs + length tail < 2 ^ 32"
    unfolding ua_is_def by blast
  have u: "ua_u32 (int (length xs) + int by) = length xs + by" using assms(2) by simp
  have e: "\<exists>t1 t2. ua_arr icd xs tl dd = ua_arr icd xs (t1 @ t2) dd \<and> length t1 = by
      \<and> length xs + by + length t2 < 2 ^ 32"
    if "by \<le> length tl" "length xs + length tl < 2 ^ 32" for tl
    using that by (intro exI [of _ "take by tl"] exI [of _ "drop by tl"]) simp
  obtain n' where g: "ua_grow (length xs + by) (length xs + length tail) = Some n'"
    "length xs + by \<le> n'" "length xs + length tail \<le> n'" "n' < 2 ^ 32"
    using grow_enough [OF assms(2) a(2)] by blast
  show ?thesis
  proof (cases "length xs + by > length xs + length tail")
    case False
    with a u e [of tail] show ?thesis by (simp add: utarray_reserve_def)
  next
    case True
    show ?thesis
    proof (cases "ra n'")
      case (Some fresh)
      define tl where "tl = tail @ map fresh [length xs + length tail..<n']"
      have "by \<le> length tl" "length xs + length tl < 2 ^ 32" using g by (auto simp: tl_def)
      moreover have "utarray_reserve ra by a = ua_ok (ua_arr icd xs tl dd)"
        using True a u g Some by (simp add: utarray_reserve_def ua_arr_def tl_def)
      ultimately show ?thesis using e by simp
    qed (use True a u g in \<open>simp add: utarray_reserve_def\<close>)
  qed
qed

section \<open>One operation at a time\<close>

lemma dtors_ok:
  "j + k \<le> length (ua_d a)
    \<Longrightarrow> ua_dtors k j a = ua_ok (a\<lparr>ua_dead := ua_dead a @ take k (drop j (ua_d a))\<rparr>)"
proof (induction k arbitrary: j a)
  case (Suc k)
  then have j: "j < length (ua_d a)" by simp
  have "take (Suc k) (drop j (ua_d a)) = ua_d a ! j # take k (drop (Suc j) (ua_d a))"
    using j by (simp flip: Cons_nth_drop_Suc)
  with Suc j show ?case by (simp add: ua_dtor_def)
qed simp

lemma push_post:
  assumes "ua_is icd xs dd a" and "length xs < 2 ^ 31"
  shows "ua_post (ua_is icd (xs @ [ua_copied icd p]) dd) (utarray_push_back ra p a)"
proof -
  have "length xs + 1 \<le> 2 ^ 31" using assms(2) by simp
  show ?thesis
    unfolding utarray_push_back_def
  proof (rule ua_post_bind [OF reserve_post [OF assms(1) \<open>length xs + 1 \<le> 2 ^ 31\<close>]], elim exE conjE)
  fix b t1 t2 assume b: "b = ua_arr icd xs (t1 @ t2) dd" "length t1 = 1" "length xs + 1 + length t2 < 2 ^ 32"
  then show "ua_post (ua_is icd (xs @ [ua_copied icd p]) dd)
      (ua_bind (ua_store (ua_i b) [ua_copied (ua_icd b) p] b) (\<lambda>a. ua_ok (a\<lparr>ua_i := ua_u32 (int (ua_i a) + 1)\<rparr>)))"
    by (auto simp: ua_store_def nat_add_distrib intro!: ua_isI [of _ _ t2])
  qed
qed

lemma extend_post:
  assumes "ua_is icd xs dd a" and "length xs < 2 ^ 31"
  shows "ua_post (ua_is icd (xs @ [ua_fresh icd]) dd) (utarray_extend_back ra a)"
proof -
  have "length xs + 1 \<le> 2 ^ 31" using assms(2) by simp
  show ?thesis
    unfolding utarray_extend_back_def
  proof (rule ua_post_bind [OF reserve_post [OF assms(1) \<open>length xs + 1 \<le> 2 ^ 31\<close>]], elim exE conjE)
  fix b t1 t2 assume b: "b = ua_arr icd xs (t1 @ t2) dd" "length t1 = 1" "length xs + 1 + length t2 < 2 ^ 32"
  then show "ua_post (ua_is icd (xs @ [ua_fresh icd]) dd)
      (ua_bind (ua_store (ua_i b) [ua_fresh (ua_icd b)] b) (\<lambda>a. ua_ok (a\<lparr>ua_i := ua_u32 (int (ua_i a) + 1)\<rparr>)))"
    by (auto simp: ua_store_def nat_add_distrib intro!: ua_isI [of _ _ t2])
  qed
qed

lemma pop_post:
  assumes "ua_is icd xs dd a" and "xs \<noteq> []"
  shows "ua_post (ua_is icd (butlast xs) (dd @ (if icd_dtor icd then [last xs] else [])))
    (utarray_pop_back a)"
proof -
  from assms(2) obtain ys y where xs: "xs = ys @ [y]" by (cases xs rule: rev_cases) auto
  from assms(1) obtain tail where a: "a = ua_arr icd xs tail dd" "length xs + length tail < 2 ^ 32"
    unfolding ua_is_def by blast
  show ?thesis using a xs
    by (auto simp: utarray_pop_back_def ua_dtor_def nth_append intro!: ua_isI [of _ _ "y # tail"])
qed

lemma clear_post:
  assumes "ua_is icd xs dd a"
  shows "ua_post (ua_is icd [] (dd @ (if icd_dtor icd then xs else []))) (utarray_clear a)"
proof -
  from assms(1) obtain tail where a: "a = ua_arr icd xs tail dd" "length xs + length tail < 2 ^ 32"
    unfolding ua_is_def by blast
  then show ?thesis
    by (auto simp: utarray_clear_def dtors_ok intro!: ua_isI [of _ _ "xs @ tail"])
qed

lemma resize_post:
  assumes "ua_is icd xs dd a" and "num \<le> 2 ^ 31"
  shows "ua_post (ua_is icd (take num xs @ replicate (num - length xs) (ua_fresh icd))
      (dd @ (if icd_dtor icd then drop num xs else []))) (utarray_resize ra num a)"
proof -
  from assms(1) obtain tail where a: "a = ua_arr icd xs tail dd" "length xs + length tail < 2 ^ 32"
    unfolding ua_is_def by blast
  show ?thesis
  proof (cases "length xs < num")
    case False
    then obtain us vs where "xs = us @ vs" "length us = num" by (meson take_apart not_less)
    with a show ?thesis
      by (auto simp: utarray_resize_def dtors_ok intro!: ua_isI [of _ _ "vs @ tail"])
  next
    case True
    define cnt where "cnt = num - length xs"
    have post: "ua_post (\<lambda>b. \<exists>t1 t2. b = ua_arr icd xs (t1 @ t2) dd \<and> length t1 = cnt
        \<and> length xs + cnt + length t2 < 2 ^ 32) (utarray_reserve ra cnt a)"
      using reserve_post [OF assms(1), of cnt ra] True assms(2) by (simp add: cnt_def)
    have "ua_post (ua_is icd (xs @ replicate cnt (ua_fresh icd)) dd)
      (ua_bind (ua_bind (utarray_reserve ra cnt a) (\<lambda>a.
            ua_store (ua_i a) (replicate (num - ua_i a) (ua_fresh (ua_icd a))) a))
        (\<lambda>a. ua_ok (a\<lparr>ua_i := num\<rparr>)))"
    proof (rule ua_post_bind [where P = "\<lambda>b. ua_is icd (xs @ replicate cnt (ua_fresh icd)) dd
          (b\<lparr>ua_i := num\<rparr>)"], rule ua_post_bind [OF post], elim exE conjE)
      fix b t1 t2 assume "b = ua_arr icd xs (t1 @ t2) dd" "length t1 = cnt" "length xs + cnt + length t2 < 2 ^ 32"
      with True show "ua_post (\<lambda>b. ua_is icd (xs @ replicate cnt (ua_fresh icd)) dd (b\<lparr>ua_i := num\<rparr>))
          (ua_store (ua_i b) (replicate (num - ua_i b) (ua_fresh (ua_icd b))) b)"
        by (auto simp: ua_store_def cnt_def intro!: ua_isI [of _ _ t2])
    qed simp
    with True a show ?thesis by (auto simp: utarray_resize_def cnt_def)
  qed
qed

text \<open>Opening a gap at \<open>j\<close> and filling it; both insertions end with this.\<close>

lemma gap_post:
  assumes "b = ua_arr icd (us @ vs) (t1 @ t2) dd" and "length t1 = n" and "length ws = n"
    and "length (us @ vs) + n + length t2 < 2 ^ 32"
    and "\<And>b. ua_icd b = icd \<Longrightarrow> st b = ua_store (length us) ws b"
  shows "ua_post (ua_is icd (us @ ws @ vs) dd)
    (ua_bind (if length us < ua_i b then ua_memmove (length us + n) (length us) (ua_i b - length us) b
              else ua_ok b) (\<lambda>b.
     ua_bind (st b) (\<lambda>b. ua_ok (b\<lparr>ua_i := ua_u32 (int (ua_i b) + int n)\<rparr>))))"
proof -
  let ?b = "b\<lparr>ua_d := us @ take n (vs @ t1) @ vs @ t2\<rparr>"
  have m: "(if length us < ua_i b then ua_memmove (length us + n) (length us) (ua_i b - length us) b
      else ua_ok b) = ua_ok ?b"
    using assms(1,2) by (cases "vs = []") (auto simp: ua_memmove_def ua_store_def ua_arr_def)
  have "length (take n (vs @ t1)) = n" using assms(2) by simp
  then have "ua_store (length us) ws ?b = ua_ok (b\<lparr>ua_d := us @ ws @ vs @ t2\<rparr>)"
    using assms(3) by (simp add: ua_store_def)
  then have st: "st ?b = ua_ok (b\<lparr>ua_d := us @ ws @ vs @ t2\<rparr>)"
    using assms(1,5) by simp
  show ?thesis unfolding m ua_bind.simps st
    using assms(1-4) by (auto simp: nat_add_distrib intro!: ua_isI [of _ _ t2])
qed

definition padded :: "'a ut_icd \<Rightarrow> nat \<Rightarrow> 'a list \<Rightarrow> 'a list" where
  "padded icd j xs = xs @ replicate (j - length xs) (ua_fresh icd)"

lemma pad_post:
  assumes "ua_is icd xs dd a" and "j \<le> 2 ^ 31"
  shows "ua_post (ua_is icd (padded icd j xs) dd)
    (if j > ua_i a then utarray_resize ra j a else ua_ok a)"
proof -
  have "ua_i a = length xs" using assms(1) by (auto simp: ua_is_def)
  with resize_post [OF assms, of ra] assms(1) show ?thesis
    by (cases "length xs < j"; cases "icd_dtor icd") (simp_all add: padded_def)
qed

lemma length_padded: "length (padded icd j xs) = max j (length xs)"
  by (simp add: padded_def)

lemma insert_post:
  assumes "ua_is icd xs dd a" and "max j (length xs) + 1 \<le> 2 ^ 31"
  shows "ua_post (ua_is icd (take j (padded icd j xs) @ [ua_copied icd p] @ drop j (padded icd j xs)) dd)
    (utarray_insert ra p j a)"
proof -
  have j: "j \<le> length (padded icd j xs)" "j \<le> 2 ^ 31" using assms(2) by (simp_all add: length_padded)
  from j(1) obtain us vs where p: "padded icd j xs = us @ vs" "length us = j" by (rule take_apart)
  have le: "length (us @ vs) + 1 \<le> 2 ^ 31" using assms(2) length_padded [of icd j xs] p(1) by simp
  have "ua_post (ua_is icd (us @ [ua_copied icd p] @ vs) dd) (utarray_insert ra p j a)"
    unfolding utarray_insert_def
  proof (rule ua_post_bind [OF pad_post [OF assms(1) j(2)]])
    fix c assume "ua_is icd (padded icd j xs) dd c"
    then have c: "ua_is icd (us @ vs) dd c" using p(1) by simp
    show "ua_post (ua_is icd (us @ [ua_copied icd p] @ vs) dd)
      (ua_bind (utarray_reserve ra 1 c) (\<lambda>a.
       ua_bind (if j < ua_i a then ua_memmove (j + 1) j (ua_i a - j) a else ua_ok a) (\<lambda>a.
       ua_bind (ua_store j [ua_copied (ua_icd a) p] a) (\<lambda>a. ua_ok (a\<lparr>ua_i := ua_u32 (int (ua_i a) + 1)\<rparr>)))))"
    proof (rule ua_post_bind [OF reserve_post [OF c le]], elim exE conjE)
      fix b t1 t2 assume "b = ua_arr icd (us @ vs) (t1 @ t2) dd" "length t1 = 1"
        "length (us @ vs) + 1 + length t2 < 2 ^ 32"
      from gap_post [OF this(1,2) _ this(3), of "[ua_copied icd p]" "\<lambda>a. ua_store j [ua_copied (ua_icd a) p] a"]
      show "ua_post (ua_is icd (us @ [ua_copied icd p] @ vs) dd)
        (ua_bind (if j < ua_i b then ua_memmove (j + 1) j (ua_i b - j) b else ua_ok b) (\<lambda>a.
         ua_bind (ua_store j [ua_copied (ua_icd a) p] a) (\<lambda>a. ua_ok (a\<lparr>ua_i := ua_u32 (int (ua_i a) + 1)\<rparr>))))"
        using p(2) by (simp cong: if_cong)
    qed
  qed
  then show ?thesis using p by simp
qed

lemma inserta_post:
  assumes "ua_is icd xs dd a" and "ua_is icd' ws dd' w" and "max j (length xs) + length ws \<le> 2 ^ 31"
  shows "ua_post (ua_is icd (if ws = [] then xs else take j (padded icd j xs) @ map (ua_copied icd) ws
      @ drop j (padded icd j xs)) dd) (utarray_inserta ra w j a)"
proof -
  from assms(2) obtain tail where w: "w = ua_arr icd' ws tail dd'" by (auto simp: ua_is_def)
  show ?thesis
  proof (cases "ws = []")
    case True
    with w assms(1) show ?thesis by (simp add: utarray_inserta_def utarray_len_def)
  next
    case False
    have j: "j \<le> length (padded icd j xs)" "j \<le> 2 ^ 31" using assms(3) by (simp_all add: length_padded)
    from j(1) obtain us vs where p: "padded icd j xs = us @ vs" "length us = j" by (rule take_apart)
    have le: "length (us @ vs) + length ws \<le> 2 ^ 31" using assms(3) length_padded [of icd j xs] p(1) by simp
    let ?st = "\<lambda>a. if ua_i w \<le> length (ua_d w)
      then ua_store j (map (ua_copied (ua_icd a)) (take (ua_i w) (ua_d w))) a else ua_fault"
    have "ua_post (ua_is icd (us @ map (ua_copied icd) ws @ vs) dd) (utarray_inserta ra w j a)"
      unfolding utarray_inserta_def
    proof (simp only: utarray_len_def w ua_arr_simps length_0_conv False if_False,
        rule ua_post_bind [OF pad_post [OF assms(1) j(2)]])
      fix c assume "ua_is icd (padded icd j xs) dd c"
      then have c: "ua_is icd (us @ vs) dd c" using p(1) by simp
      show "ua_post (ua_is icd (us @ map (ua_copied icd) ws @ vs) dd)
        (ua_bind (utarray_reserve ra (length ws) c) (\<lambda>a.
         ua_bind (if j < ua_i a then ua_memmove (j + length ws) j (ua_i a - j) a else ua_ok a) (\<lambda>a.
         ua_bind (if length ws \<le> length (ws @ tail)
             then ua_store j (map (ua_copied (ua_icd a)) (take (length ws) (ws @ tail))) a else ua_fault)
          (\<lambda>a. ua_ok (a\<lparr>ua_i := ua_u32 (int (ua_i a) + int (length ws))\<rparr>)))))"
      proof (rule ua_post_bind [OF reserve_post [OF c le]], elim exE conjE)
        fix b t1 t2 assume "b = ua_arr icd (us @ vs) (t1 @ t2) dd" "length t1 = length ws"
          "length (us @ vs) + length ws + length t2 < 2 ^ 32"
        from gap_post [OF this(1,2) _ this(3), of "map (ua_copied icd) ws"
            "\<lambda>a. ua_store j (map (ua_copied (ua_icd a)) ws) a"]
        show "ua_post (ua_is icd (us @ map (ua_copied icd) ws @ vs) dd)
         (ua_bind (if j < ua_i b then ua_memmove (j + length ws) j (ua_i b - j) b else ua_ok b) (\<lambda>a.
          ua_bind (if length ws \<le> length (ws @ tail)
             then ua_store j (map (ua_copied (ua_icd a)) (take (length ws) (ws @ tail))) a else ua_fault)
          (\<lambda>a. ua_ok (a\<lparr>ua_i := ua_u32 (int (ua_i a) + int (length ws))\<rparr>))))"
          using p(2) by (simp cong: if_cong)
      qed
    qed
    then show ?thesis using p False by simp
  qed
qed

lemma erase_dtors_ok:
  "j + k \<le> length xs \<Longrightarrow> ua_erase_dtors k j (ua_arr icd xs tail dd)
    = ua_ok (ua_arr icd xs tail (dd @ take k (drop j xs)))"
proof (induction k arbitrary: j dd)
  case (Suc k)
  then have j: "j < length xs" by simp
  have "take (Suc k) (drop j xs) = xs ! j # take k (drop (Suc j) xs)"
    using j by (simp flip: Cons_nth_drop_Suc)
  moreover have "ua_dtor j (ua_arr icd xs tail dd) = ua_ok (ua_arr icd xs tail (dd @ [xs ! j]))"
    using j by (simp add: ua_dtor_def ua_arr_def nth_append)
  ultimately show ?case using Suc j by (simp add: utarray_eltptr_def)
qed simp

lemma erase_post:
  assumes "ua_is icd xs dd a" and "pos + len \<le> length xs"
  shows "ua_post (ua_is icd (take pos xs @ drop (pos + len) xs)
      (dd @ (if icd_dtor icd then take len (drop pos xs) else []))) (utarray_erase pos len a)"
proof -
  from assms(1) obtain tail where a: "a = ua_arr icd xs tail dd" "length xs + length tail < 2 ^ 32"
    unfolding ua_is_def by blast
  from assms(2) obtain us rs where r: "xs = us @ rs" "length us = pos" by (meson add_leD1 take_apart)
  with assms(2) have "len \<le> length rs" by simp
  then obtain ms vs where m: "rs = ms @ vs" "length ms = len" by (rule take_apart)
  define dd' where "dd' = dd @ (if icd_dtor icd then take len (drop pos xs) else [])"
  let ?b = "ua_arr icd xs tail dd'"
  have d: "(if icd_dtor (ua_icd a) then ua_erase_dtors len pos a else ua_ok a) = ua_ok ?b"
    using a(1) erase_dtors_ok [OF assms(2)] by (simp add: dd'_def)
  have v: "(if ua_i ?b > pos + len then ua_memmove pos (pos + len) (ua_i ?b - (pos + len)) ?b else ua_ok ?b)
      = ua_ok (?b\<lparr>ua_d := us @ vs @ drop (length us + length vs) (xs @ tail)\<rparr>)"
    using r m by (cases "vs = []") (auto simp: ua_memmove_def ua_store_def ua_arr_def)
  have "ua_post (ua_is icd (us @ vs) dd') (utarray_erase pos len a)"
    unfolding utarray_erase_def d ua_bind.simps v
    using a(2) r m by (auto intro!: ua_isI [of _ _ "drop (length us + length vs) (xs @ tail)"])
  with r m show ?thesis by (simp add: dd'_def)
qed

lemma sort_post:
  assumes "ua_is icd xs dd a" and "length (qs xs) = length xs"
  shows "ua_post (ua_is icd (qs xs) dd) (utarray_sort qs a)"
  using assms by (auto simp: ua_is_def utarray_sort_def ua_arr_def)

section \<open>Sequences of operations\<close>

datatype 'a arr_op =
  Arr_push 'a
| Arr_pop
| Arr_extend
| Arr_insert 'a nat
| Arr_inserta "'a ut_array" nat
| Arr_concat "'a ut_array"
| Arr_resize nat
| Arr_erase nat nat
| Arr_clear
| Arr_sort "'a list \<Rightarrow> 'a list"

fun arr_step :: "'a ua_alloc \<Rightarrow> 'a arr_op \<Rightarrow> 'a ut_array \<Rightarrow> 'a ua_result" where
  "arr_step ra (Arr_push p) a = utarray_push_back ra p a"
| "arr_step ra Arr_pop a = utarray_pop_back a"
| "arr_step ra Arr_extend a = utarray_extend_back ra a"
| "arr_step ra (Arr_insert p j) a = utarray_insert ra p j a"
| "arr_step ra (Arr_inserta w j) a = utarray_inserta ra w j a"
| "arr_step ra (Arr_concat w) a = utarray_concat ra w a"
| "arr_step ra (Arr_resize k) a = utarray_resize ra k a"
| "arr_step ra (Arr_erase pos len) a = utarray_erase pos len a"
| "arr_step ra Arr_clear a = utarray_renew True (ua_icd a) (Some a)"
| "arr_step ra (Arr_sort qs) a = utarray_sort qs a"

fun arr_run :: "'a ua_alloc \<Rightarrow> 'a arr_op list \<Rightarrow> 'a ut_array \<Rightarrow> 'a ua_result" where
  "arr_run ra [] a = ua_ok a"
| "arr_run ra (op # ops) a = ua_bind (arr_step ra op a) (arr_run ra ops)"

text \<open>The same on lists: the new elements, and what is destroyed.\<close>

definition ua_elems :: "'a ut_array \<Rightarrow> 'a list" where
  "ua_elems w = take (ua_i w) (ua_d w)"

definition spliced :: "'a ut_icd \<Rightarrow> nat \<Rightarrow> 'a list \<Rightarrow> 'a list \<Rightarrow> 'a list" where
  "spliced icd j ws xs =
     (if ws = [] then xs
      else take j (padded icd j xs) @ map (ua_copied icd) ws @ drop j (padded icd j xs))"

fun arr_spec :: "'a ut_icd \<Rightarrow> 'a arr_op \<Rightarrow> 'a list \<Rightarrow> 'a list" where
  "arr_spec icd (Arr_push p) xs = xs @ [ua_copied icd p]"
| "arr_spec icd Arr_pop xs = butlast xs"
| "arr_spec icd Arr_extend xs = xs @ [ua_fresh icd]"
| "arr_spec icd (Arr_insert p j) xs = spliced icd j [p] xs"
| "arr_spec icd (Arr_inserta w j) xs = spliced icd j (ua_elems w) xs"
| "arr_spec icd (Arr_concat w) xs = spliced icd (length xs) (ua_elems w) xs"
| "arr_spec icd (Arr_resize k) xs = take k xs @ replicate (k - length xs) (ua_fresh icd)"
| "arr_spec icd (Arr_erase pos len) xs = take pos xs @ drop (pos + len) xs"
| "arr_spec icd Arr_clear xs = []"
| "arr_spec icd (Arr_sort qs) xs = qs xs"

fun arr_drops :: "'a arr_op \<Rightarrow> 'a list \<Rightarrow> 'a list" where
  "arr_drops Arr_pop xs = [last xs]"
| "arr_drops (Arr_resize k) xs = drop k xs"
| "arr_drops (Arr_erase pos len) xs = take len (drop pos xs)"
| "arr_drops Arr_clear xs = xs"
| "arr_drops op xs = []"

text \<open>What an operation relies on; no array may need more than \<open>2 ^ 31\<close> slots.\<close>

fun arr_ok :: "'a arr_op \<Rightarrow> 'a list \<Rightarrow> bool" where
  "arr_ok Arr_pop xs = (xs \<noteq> [])"
| "arr_ok (Arr_insert p j) xs = (max j (length xs) + 1 \<le> 2 ^ 31)"
| "arr_ok (Arr_inserta w j) xs = ((\<exists>icd ws dd. ua_is icd ws dd w)
     \<and> max j (length xs) + ua_i w \<le> 2 ^ 31)"
| "arr_ok (Arr_concat w) xs = ((\<exists>icd ws dd. ua_is icd ws dd w) \<and> length xs + ua_i w \<le> 2 ^ 31)"
| "arr_ok (Arr_resize k) xs = (k \<le> 2 ^ 31)"
| "arr_ok (Arr_erase pos len) xs = (pos + len \<le> length xs)"
| "arr_ok Arr_clear xs = True"
| "arr_ok (Arr_sort qs) xs = (length (qs xs) = length xs)"
| "arr_ok op xs = (length xs < 2 ^ 31)"

fun arrs_ok :: "'a ut_icd \<Rightarrow> 'a arr_op list \<Rightarrow> 'a list \<Rightarrow> bool" where
  "arrs_ok icd [] xs = True"
| "arrs_ok icd (op # ops) xs = (arr_ok op xs \<and> arrs_ok icd ops (arr_spec icd op xs))"

fun arrs_drops :: "'a ut_icd \<Rightarrow> 'a arr_op list \<Rightarrow> 'a list \<Rightarrow> 'a list" where
  "arrs_drops icd [] xs = []"
| "arrs_drops icd (op # ops) xs = arr_drops op xs @ arrs_drops icd ops (arr_spec icd op xs)"

lemma ua_elems_is: "ua_is icd ws dd w \<Longrightarrow> ua_elems w = ws \<and> ua_i w = length ws \<and> ua_dead w = dd"
  by (auto simp: ua_is_def ua_elems_def)

lemma step_post:
  assumes a: "ua_is icd xs dd a" and ok: "arr_ok op xs"
  shows "ua_post (ua_is icd (arr_spec icd op xs) (dd @ (if icd_dtor icd then arr_drops op xs else [])))
    (arr_step ra op a)"
proof (cases op)
  case (Arr_insert p j)
  with insert_post [OF a, where ra = ra and p = p and j = j] ok show ?thesis by (simp add: spliced_def)
next
  case (Arr_inserta w j)
  with ok obtain icd' ws dd' where w: "ua_is icd' ws dd' w" by auto
  with Arr_inserta inserta_post [OF a w, where ra = ra and j = j] ua_elems_is [OF w] ok show ?thesis
    by (cases "ws = []") (simp_all add: spliced_def)
next
  case (Arr_concat w)
  with ok obtain icd' ws dd' where w: "ua_is icd' ws dd' w" by auto
  have "utarray_len a = length xs" using a by (auto simp: ua_is_def utarray_len_def)
  with Arr_concat inserta_post [OF a w, where ra = ra and j = "length xs"] ua_elems_is [OF w] ok show ?thesis
    by (cases "ws = []") (simp_all add: spliced_def utarray_concat_def)
qed (use a ok push_post [OF a] pop_post [OF a] extend_post [OF a] resize_post [OF a] erase_post [OF a]
      clear_post [OF a] sort_post [OF a] in \<open>auto simp: utarray_renew_def\<close>)

lemma arr_run_post:
  "ua_is icd xs dd a \<Longrightarrow> arrs_ok icd ops xs \<Longrightarrow>
    ua_post (ua_is icd (fold (arr_spec icd) ops xs) (dd @ (if icd_dtor icd then arrs_drops icd ops xs else [])))
      (arr_run ra ops a)"
proof (induction ops arbitrary: xs dd a)
  case (Cons op ops)
  then have "arr_ok op xs" by simp
  from ua_post_bind [OF step_post [OF Cons.prems(1) this, of ra], where f = "arr_run ra ops"]
    Cons.IH Cons.prems(2)
  show ?case by (fastforce simp: if_distrib cong: if_cong)
qed simp

section \<open>Walking over the elements\<close>

partial_function (option) ua_walk ::
    "('a ut_array \<Rightarrow> nat option \<Rightarrow> nat option) \<Rightarrow> 'a ut_array \<Rightarrow> nat option \<Rightarrow> 'a list option" where
  "ua_walk step a e =
     (case step a e of
        None \<Rightarrow> Some []
      | Some s \<Rightarrow>
          if s < length (ua_d a) then do { xs \<leftarrow> ua_walk step a (Some s); Some (ua_d a ! s # xs) }
          else None)"

lemma ua_walk_next_from:
  "j < length xs \<Longrightarrow> ua_walk utarray_next (ua_arr icd xs tail dd) (Some j) = Some (drop (Suc j) xs)"
proof (induction "length xs - j" arbitrary: j rule: less_induct)
  case less
  show ?case
  proof (cases "Suc j < length xs")
    case True
    with less show ?thesis
      by (subst ua_walk.simps) (simp add: utarray_next_def nth_append Cons_nth_drop_Suc)
  next
    case False
    with less.prems have "Suc j = length xs" by simp
    then show ?thesis by (subst ua_walk.simps) (simp add: utarray_next_def)
  qed
qed

lemma ua_walk_prev_from:
  "j < length xs \<Longrightarrow> ua_walk utarray_prev (ua_arr icd xs tail dd) (Some j) = Some (rev (take j xs))"
proof (induction j)
  case (Suc j)
  have "utarray_prev (ua_arr icd xs tail dd) (Some (Suc j)) = Some j" by (simp add: utarray_prev_def)
  with Suc show ?case
    by (subst ua_walk.simps) (simp add: nth_append take_Suc_conv_app_nth)
qed (subst ua_walk.simps, simp add: utarray_prev_def)

lemma ua_walks:
  assumes "ua_is icd xs dd a"
  shows "ua_walk utarray_next a None = Some xs" and "ua_walk utarray_prev a None = Some (rev xs)"
proof -
  from assms obtain tail where a: "a = ua_arr icd xs tail dd" by (auto simp: ua_is_def)
  have n: "utarray_next a None = (if xs = [] then None else Some 0)"
    "utarray_prev a None = (if xs = [] then None else Some (length xs - 1))"
    using a by (simp_all add: utarray_next_def utarray_prev_def utarray_front_def utarray_back_def)
  show "ua_walk utarray_next a None = Some xs"
  proof (cases "xs = []")
    case False
    then have z: "0 < length xs" by simp
    then have "xs = xs ! 0 # drop (Suc 0) xs" by (metis Cons_nth_drop_Suc drop0)
    with False a n(1) ua_walk_next_from [OF z, of icd tail dd] z show ?thesis
      by (subst ua_walk.simps) (simp add: nth_append)
  qed (subst ua_walk.simps, simp add: n)
  show "ua_walk utarray_prev a None = Some (rev xs)"
  proof (cases xs rule: rev_cases)
    case (snoc ys y)
    then have z: "length xs - 1 < length xs" by simp
    with snoc a n(2) ua_walk_prev_from [OF z, of icd tail dd] show ?thesis
      by (subst ua_walk.simps) (simp add: nth_append)
  qed (subst ua_walk.simps, simp add: n)
qed

section \<open>Properties\<close>

text \<open>C38: a dynamic array refines a list. Whatever sequence of operations follows \<open>utarray_new\<close>,
  as long as no more than \<open>2 ^ 31\<close> slots are needed, the program ends through \<open>utarray_oom\<close> or
  the array holds what the operations make of a list: pushes, insertions that may lie behind the
  end, whole arrays spliced in, erasures, resizing, sorting. Walking with \<open>utarray_next\<close> and
  \<open>utarray_prev\<close> meets the elements in order and in reverse, and with a destructor exactly the
  elements taken out have been destroyed, in that order.\<close>

theorem utarray_refines_list:
  assumes "utarray_new cell icd = ua_ok a" and "arrs_ok icd ops []"
    and "xs = fold (arr_spec icd) ops []"
  shows "arr_run ra ops a = Some (Inl Ut_oom)
    \<or> (\<exists>a'. arr_run ra ops a = ua_ok a' \<and> ua_elems a' = xs \<and> utarray_len a' = length xs
         \<and> ua_walk utarray_next a' None = Some xs \<and> ua_walk utarray_prev a' None = Some (rev xs)
         \<and> ua_dead a' = (if icd_dtor icd then arrs_drops icd ops [] else []))"
proof -
  have "ua_is icd [] [] a"
    using assms(1) by (auto simp: utarray_new_def utarray_init_def intro!: ua_isI [of _ _ "[]"] split: if_splits)
  from arr_run_post [OF this assms(2), of ra] consider (oom) "arr_run ra ops a = Some (Inl Ut_oom)"
    | (array) a' where "arr_run ra ops a = ua_ok a'"
      "ua_is icd xs (if icd_dtor icd then arrs_drops icd ops [] else []) a'"
    unfolding ua_post_def assms(3) by auto
  then show ?thesis
  proof cases
    case array
    from ua_walks [OF array(2)] ua_elems_is [OF array(2)] array(1) show ?thesis
      by (simp add: utarray_len_def)
  qed simp
qed

theorem utarray_refines_list_witness:
  "\<exists>a. utarray_new True \<lparr>icd_init = None, icd_copy = None, icd_dtor = True, icd_zero = 0 :: int\<rparr> = ua_ok a
    \<and> (arr_run (\<lambda>_. Some (\<lambda>_. 7)) [Arr_push 1, Arr_push 2, Arr_insert 3 0, Arr_erase 1 1, Arr_pop] a
         = Some (Inl Ut_oom)
      \<or> (\<exists>a'. arr_run (\<lambda>_. Some (\<lambda>_. 7)) [Arr_push 1, Arr_push 2, Arr_insert 3 0, Arr_erase 1 1, Arr_pop] a
         = ua_ok a' \<and> ua_elems a' = [3] \<and> ua_dead a' = [1, 2]))"
proof -
  let ?icd = "\<lparr>icd_init = None, icd_copy = None, icd_dtor = True, icd_zero = 0 :: int\<rparr>"
  let ?ops = "[Arr_push 1, Arr_push 2, Arr_insert 3 0, Arr_erase 1 1, Arr_pop]"
  have "utarray_new True ?icd = ua_ok (utarray_init ?icd)" by (simp add: utarray_new_def)
  moreover have k: "arrs_ok ?icd ?ops []" "[3] = fold (arr_spec ?icd) ?ops []"
    and d: "arrs_drops ?icd ?ops [] = [1, 2]"
    by (simp_all add: spliced_def padded_def ua_copied_def)
  ultimately show ?thesis
    using utarray_refines_list [OF _ k, of True "utarray_init ?icd" "\<lambda>_. Some (\<lambda>_. 7)"]
    unfolding d by (metis (no_types, lifting) ut_array.select_convs ut_icd.select_convs(3))
qed

text \<open>C40: asking a new array for more than \<open>2 ^ 31\<close> slots never returns: the capacity doubles
  from 8 to \<open>2 ^ 31\<close> and then wraps to 0, for ever.\<close>

theorem utarray_resize_hangs:
  assumes "2 ^ 31 < num" and "num < 2 ^ 32"
  shows "utarray_resize ra num (utarray_init icd) = None"
proof -
  have "ua_u32 (int num) = num" using assms(2) by simp
  then show ?thesis
    using assms grow_forever [of num 0]
    by (simp add: utarray_resize_def utarray_reserve_def utarray_init_def)
qed

theorem utarray_resize_hangs_witness:
  "\<forall>ra. utarray_resize ra (2 ^ 31 + 1)
     (utarray_init \<lparr>icd_init = None, icd_copy = None, icd_dtor = False, icd_zero = 0 :: int\<rparr>) = None"
  by (intro allI utarray_resize_hangs) simp_all

end
