(* ===== verification/Uthash_Links.thy ===== *)
theory Uthash_Links
  imports Uthash Utlist_Sort
begin

text \<open>
  The macros of \<open>src_lib/uthash/include/uthash.h\<close> with the links of the hash handles as they are
  in memory; in \<open>Uthash\<close> chains and application order are lists. The handle of the element at an
  address is held in two stores: \<open>lk_app\<close> has \<open>prev\<close> and \<open>next\<close> with the caller's element, \<open>lk_bkt\<close> has
  \<open>hh_prev\<close> and \<open>hh_next\<close> with the key and the hash value. Following NULL gives \<open>None\<close>, as does
  \<open>uthash_fatal\<close>. \<open>lk_tbl\<close> is the table all handles point to. Elements that are not in the table
  are in the stores too, with whatever links they have.
\<close>

section \<open>State\<close>

type_synonym key_hash = "bytes \<times> u32"

record lk_bucket =
  lk_first :: ptr
  lk_count :: u32
  lk_mult :: u32

record lk_table =
  lk_buckets :: "lk_bucket list"
  lk_num :: u32
  lk_log2 :: u32
  lk_items :: u32
  lk_tail :: ptr
  lk_ideal :: u32
  lk_nonideal :: u32
  lk_ineff :: u32
  lk_noexpand :: u32

record 'e lk_hash =
  lk_app :: "'e store"
  lk_bkt :: "key_hash store"
  lk_head :: ptr
  lk_tbl :: "lk_table option"

definition set_val :: "'v store \<Rightarrow> ptr \<Rightarrow> 'v \<Rightarrow> 'v store option" where
  "set_val h p v =
     (case p of None \<Rightarrow> None | Some a \<Rightarrow> map_option (\<lambda>n. h(a \<mapsto> n\<lparr>el_val := v\<rparr>)) (h a))"

text \<open>A bucket of the array, or a fault.\<close>

definition bucket_at :: "lk_bucket list \<Rightarrow> nat \<Rightarrow> lk_bucket option" where
  "bucket_at bs i = (if i < length bs then Some (bs ! i) else None)"

definition lk_empty_bucket :: lk_bucket where
  "lk_empty_bucket = \<lparr>lk_first = None, lk_count = 0, lk_mult = 0\<rparr>"

section \<open>Buckets\<close>

partial_function (option) lk_find_in_bkt :: "key_hash store \<Rightarrow> bytes \<Rightarrow> u32 \<Rightarrow> ptr \<Rightarrow> ptr option" where
  "lk_find_in_bkt h key hv out =
     (if out \<noteq> None then do {
        (k, v) \<leftarrow> get_val h out;
        if v = hv \<and> length k = length key \<and> k = key then Some out
        else do { n \<leftarrow> get_next h out; lk_find_in_bkt h key hv n }
      } else Some None)"

text \<open>The handle \<open>a\<close> goes to the front of the chain.\<close>

definition lk_push :: "key_hash store \<Rightarrow> lk_bucket \<Rightarrow> ptr \<Rightarrow> (key_hash store \<times> lk_bucket) option" where
  "lk_push h b a =
     do { h \<leftarrow> set_next h a (lk_first b); h \<leftarrow> set_prev h a None;
          h \<leftarrow> (if lk_first b \<noteq> None then set_prev h (lk_first b) a else Some h);
          Some (h, b\<lparr>lk_first := a\<rparr>) }"

text \<open>The loops of \<open>HASH_EXPAND_BUCKETS\<close> over the handles of a bucket and over the old buckets.\<close>

partial_function (option) lk_move_chain ::
    "u32 \<Rightarrow> u32 \<Rightarrow> ptr \<Rightarrow> key_hash store \<Rightarrow> lk_bucket list \<Rightarrow> u32
      \<Rightarrow> (key_hash store \<times> lk_bucket list \<times> u32) option" where
  "lk_move_chain nb ideal thh h bs nonideal =
     (if thh \<noteq> None then do {
        nxt \<leftarrow> get_next h thh;
        (k, hv) \<leftarrow> get_val h thh;
        let i = hash_to_bkt hv nb;
        b \<leftarrow> bucket_at bs i;
        let c = lk_count b + 1;
        let over = (ideal < c);
        let nonideal = (if over then nonideal + 1 else nonideal);
        let m = (if over \<and> lk_mult b * ideal < c then lk_mult b + 1 else lk_mult b);
        (h, b) \<leftarrow> lk_push h (b\<lparr>lk_count := c, lk_mult := m\<rparr>) thh;
        lk_move_chain nb ideal nxt h (bs[i := b]) nonideal
      } else Some (h, bs, nonideal))"

fun lk_move_chains ::
    "u32 \<Rightarrow> u32 \<Rightarrow> lk_bucket list \<Rightarrow> key_hash store \<Rightarrow> lk_bucket list \<Rightarrow> u32
      \<Rightarrow> (key_hash store \<times> lk_bucket list \<times> u32) option" where
  "lk_move_chains nb ideal [] h bs nonideal = Some (h, bs, nonideal)"
| "lk_move_chains nb ideal (b # old) h bs nonideal =
     do { (h, bs, nonideal) \<leftarrow> lk_move_chain nb ideal (lk_first b) h bs nonideal;
          lk_move_chains nb ideal old h bs nonideal }"

definition lk_expand ::
    "'w allocator \<Rightarrow> key_hash store \<Rightarrow> lk_table \<Rightarrow> 'w \<Rightarrow> (key_hash store \<times> lk_table \<times> 'w) option" where
  "lk_expand malloc h t w =
     (let n = unat (lk_num t) * 2;
          (ok, w') = malloc (sizeof_UT_hash_bucket * n) w
      in if \<not> ok then None
         else do {
           let ideal = drop_bit (unat (lk_log2 t + 1)) (lk_items t)
                 + (if lk_items t AND (lk_num t * 2 - 1) \<noteq> 0 then 1 else 0);
           (h, bs, nonideal) \<leftarrow> lk_move_chains (lk_num t * 2) ideal (lk_buckets t) h
             (replicate n lk_empty_bucket) 0;
           let ineff = (if drop_bit 1 (lk_items t) < nonideal then lk_ineff t + 1 else 0);
           Some (h, t\<lparr>lk_buckets := bs, lk_num := lk_num t * 2, lk_log2 := lk_log2 t + 1,
                     lk_ideal := ideal, lk_nonideal := nonideal, lk_ineff := ineff,
                     lk_noexpand := (if 1 < ineff then 1 else lk_noexpand t)\<rparr>, w') })"

definition lk_add_to_bkt ::
    "'w allocator \<Rightarrow> nat \<Rightarrow> ptr \<Rightarrow> key_hash store \<Rightarrow> lk_table \<Rightarrow> 'w
      \<Rightarrow> (key_hash store \<times> lk_table \<times> 'w) option" where
  "lk_add_to_bkt malloc i a h t w =
     do { b \<leftarrow> bucket_at (lk_buckets t) i;
          (h, b) \<leftarrow> lk_push h (b\<lparr>lk_count := lk_count b + 1\<rparr>) a;
          let t = t\<lparr>lk_buckets := (lk_buckets t)[i := b]\<rparr>;
          if (lk_mult b + 1) * 10 \<le> lk_count b \<and> lk_noexpand t = 0
          then lk_expand malloc h t w else Some (h, t, w) }"

definition lk_del_in_bkt :: "key_hash store \<Rightarrow> lk_bucket \<Rightarrow> ptr \<Rightarrow> (key_hash store \<times> lk_bucket) option" where
  "lk_del_in_bkt h b a =
     do { n \<leftarrow> get_next h a; p \<leftarrow> get_prev h a;
          let b = b\<lparr>lk_count := lk_count b - 1\<rparr>;
          let b = (if lk_first b = a then b\<lparr>lk_first := n\<rparr> else b);
          h \<leftarrow> (if p \<noteq> None then set_next h p n else Some h);
          h \<leftarrow> (if n \<noteq> None then set_prev h n p else Some h);
          Some (h, b) }"

section \<open>The table\<close>

definition lk_make_table :: "'w allocator \<Rightarrow> ptr \<Rightarrow> 'w \<Rightarrow> (lk_table \<times> 'w) option" where
  "lk_make_table malloc a w =
     (let (ok, w') = malloc sizeof_UT_hash_table w
      in if \<not> ok then None
         else (let (ok', w'') = malloc (32 * sizeof_UT_hash_bucket) w'
               in if \<not> ok' then None
                  else Some (\<lparr>lk_buckets = replicate 32 lk_empty_bucket, lk_num = 32, lk_log2 = 5,
                              lk_items = 0, lk_tail = a, lk_ideal = 0, lk_nonideal = 0,
                              lk_ineff = 0, lk_noexpand = 0\<rparr>, w'')))"

definition lk_find_byhashvalue :: "bytes \<Rightarrow> u32 \<Rightarrow> 'e lk_hash \<Rightarrow> ptr option" where
  "lk_find_byhashvalue key hv L =
     (if lk_head L \<noteq> None then do {
        t \<leftarrow> lk_tbl L;
        b \<leftarrow> bucket_at (lk_buckets t) (hash_to_bkt hv (lk_num t));
        lk_find_in_bkt (lk_bkt L) key hv (lk_first b)
      } else Some None)"

definition lk_find :: "bytes \<Rightarrow> 'e lk_hash \<Rightarrow> ptr option" where
  "lk_find key L = lk_find_byhashvalue key (hash_jen key) L"

definition lk_append_list :: "'e store \<Rightarrow> lk_table \<Rightarrow> ptr \<Rightarrow> ('e store \<times> lk_table) option" where
  "lk_append_list h t a =
     do { h \<leftarrow> set_next h a None; h \<leftarrow> set_prev h a (lk_tail t); h \<leftarrow> set_next h (lk_tail t) a;
          Some (h, t\<lparr>lk_tail := a\<rparr>) }"

definition lk_add_to_table ::
    "'w allocator \<Rightarrow> u32 \<Rightarrow> ptr \<Rightarrow> 'e lk_hash \<Rightarrow> 'w \<Rightarrow> ('e lk_hash \<times> 'w) option" where
  "lk_add_to_table malloc hv a L w =
     do { t \<leftarrow> lk_tbl L;
          let t = t\<lparr>lk_items := lk_items t + 1\<rparr>;
          (h, t, w) \<leftarrow> lk_add_to_bkt malloc (hash_to_bkt hv (lk_num t)) a (lk_bkt L) t w;
          Some (L\<lparr>lk_bkt := h, lk_tbl := Some t\<rparr>, w) }"

text \<open>The first element starts the table: no neighbours, a new table, the head.\<close>

definition lk_start ::
    "'w allocator \<Rightarrow> ptr \<Rightarrow> 'e lk_hash \<Rightarrow> 'w \<Rightarrow> ('e lk_hash \<times> 'w) option" where
  "lk_start malloc a L w =
     do { app \<leftarrow> set_next (lk_app L) a None; app \<leftarrow> set_prev app a None;
          (t, w) \<leftarrow> lk_make_table malloc a w;
          Some (L\<lparr>lk_app := app, lk_head := a, lk_tbl := Some t\<rparr>, w) }"

definition lk_add_byhashvalue ::
    "'w allocator \<Rightarrow> bytes \<Rightarrow> u32 \<Rightarrow> ptr \<Rightarrow> 'e lk_hash \<Rightarrow> 'w \<Rightarrow> ('e lk_hash \<times> 'w) option" where
  "lk_add_byhashvalue malloc key hv a L w =
     do { h \<leftarrow> set_val (lk_bkt L) a (key, hv);
          let L = L\<lparr>lk_bkt := h\<rparr>;
          (L, w) \<leftarrow> (if lk_head L = None then lk_start malloc a L w
                    else do { t \<leftarrow> lk_tbl L; (app, t) \<leftarrow> lk_append_list (lk_app L) t a;
                              Some (L\<lparr>lk_app := app, lk_tbl := Some t\<rparr>, w) });
          lk_add_to_table malloc hv a L w }"

definition lk_add :: "'w allocator \<Rightarrow> bytes \<Rightarrow> ptr \<Rightarrow> 'e lk_hash \<Rightarrow> 'w \<Rightarrow> ('e lk_hash \<times> 'w) option" where
  "lk_add malloc key a L w = lk_add_byhashvalue malloc key (hash_jen key) a L w"

text \<open>\<open>HASH_AKBI_INNER_LOOP\<close>: the first element that is greater than the new one.\<close>

partial_function (option) lk_inner_loop ::
    "('e \<Rightarrow> 'e \<Rightarrow> int) \<Rightarrow> 'e store \<Rightarrow> ptr \<Rightarrow> ptr \<Rightarrow> ptr option" where
  "lk_inner_loop cmp h add iter =
     do { x \<leftarrow> get_val h iter; y \<leftarrow> get_val h add;
          if cmp x y > 0 then Some iter
          else do { n \<leftarrow> get_next h iter;
                    if n \<noteq> None then lk_inner_loop cmp h add n else Some None } }"

definition lk_add_byhashvalue_inorder ::
    "'w allocator \<Rightarrow> ('e \<Rightarrow> 'e \<Rightarrow> int) \<Rightarrow> bytes \<Rightarrow> u32 \<Rightarrow> ptr \<Rightarrow> 'e lk_hash \<Rightarrow> 'w
      \<Rightarrow> ('e lk_hash \<times> 'w) option" where
  "lk_add_byhashvalue_inorder malloc cmp key hv a L w =
     do { h \<leftarrow> set_val (lk_bkt L) a (key, hv);
          let L = L\<lparr>lk_bkt := h\<rparr>;
          (L, w) \<leftarrow> (if lk_head L = None then lk_start malloc a L w
             else do {
               iter \<leftarrow> lk_inner_loop cmp (lk_app L) a (lk_head L);
               if iter \<noteq> None then do {
                 app \<leftarrow> set_next (lk_app L) a iter;
                 p \<leftarrow> get_prev app iter;
                 app \<leftarrow> set_prev app a p;
                 (app, head) \<leftarrow> (if p \<noteq> None then do { app \<leftarrow> set_next app p a; Some (app, lk_head L) }
                                else Some (app, a));
                 app \<leftarrow> set_prev app iter a;
                 Some (L\<lparr>lk_app := app, lk_head := head\<rparr>, w)
               } else do {
                 t \<leftarrow> lk_tbl L; (app, t) \<leftarrow> lk_append_list (lk_app L) t a;
                 Some (L\<lparr>lk_app := app, lk_tbl := Some t\<rparr>, w) } });
          lk_add_to_table malloc hv a L w }"

definition lk_delete :: "ptr \<Rightarrow> 'e lk_hash \<Rightarrow> 'e lk_hash option" where
  "lk_delete a L =
     do { p \<leftarrow> get_prev (lk_app L) a; n \<leftarrow> get_next (lk_app L) a;
          if p = None \<and> n = None then Some (L\<lparr>lk_head := None, lk_tbl := None\<rparr>)
          else do {
            t \<leftarrow> lk_tbl L;
            let t = (if a = lk_tail t then t\<lparr>lk_tail := p\<rparr> else t);
            (app, head) \<leftarrow> (if p \<noteq> None then do { app \<leftarrow> set_next (lk_app L) p n; Some (app, lk_head L) }
                           else Some (lk_app L, n));
            app \<leftarrow> (if n \<noteq> None then set_prev app n p else Some app);
            (k, hv) \<leftarrow> get_val (lk_bkt L) a;
            let i = hash_to_bkt hv (lk_num t);
            b \<leftarrow> bucket_at (lk_buckets t) i;
            (h, b) \<leftarrow> lk_del_in_bkt (lk_bkt L) b a;
            Some (L\<lparr>lk_app := app, lk_bkt := h, lk_head := head,
              lk_tbl := Some (t\<lparr>lk_buckets := (lk_buckets t)[i := b], lk_items := lk_items t - 1\<rparr>)\<rparr>) } }"

text \<open>\<open>HASH_REPLACE\<close> and \<open>HASH_REPLACE_INORDER\<close> also tell which element was replaced.\<close>

definition lk_replace_byhashvalue ::
    "'w allocator \<Rightarrow> bytes \<Rightarrow> u32 \<Rightarrow> ptr \<Rightarrow> 'e lk_hash \<Rightarrow> 'w \<Rightarrow> (ptr \<times> 'e lk_hash \<times> 'w) option" where
  "lk_replace_byhashvalue malloc key hv a L w =
     do { r \<leftarrow> lk_find_byhashvalue key hv L;
          L \<leftarrow> (if r \<noteq> None then lk_delete r L else Some L);
          (L, w) \<leftarrow> lk_add_byhashvalue malloc key hv a L w;
          Some (r, L, w) }"

definition lk_replace_byhashvalue_inorder ::
    "'w allocator \<Rightarrow> ('e \<Rightarrow> 'e \<Rightarrow> int) \<Rightarrow> bytes \<Rightarrow> u32 \<Rightarrow> ptr \<Rightarrow> 'e lk_hash \<Rightarrow> 'w
      \<Rightarrow> (ptr \<times> 'e lk_hash \<times> 'w) option" where
  "lk_replace_byhashvalue_inorder malloc cmp key hv a L w =
     do { r \<leftarrow> lk_find_byhashvalue key hv L;
          L \<leftarrow> (if r \<noteq> None then lk_delete r L else Some L);
          (L, w) \<leftarrow> lk_add_byhashvalue_inorder malloc cmp key hv a L w;
          Some (r, L, w) }"

definition lk_clear :: "'e lk_hash \<Rightarrow> 'e lk_hash" where
  "lk_clear L = (if lk_head L \<noteq> None then L\<lparr>lk_head := None, lk_tbl := None\<rparr> else L)"

definition lk_cnt :: "'e lk_hash \<Rightarrow> u32 option" where
  "lk_cnt L = (if lk_head L \<noteq> None then map_option lk_items (lk_tbl L) else Some 0)"

text \<open>\<open>HASH_OVERHEAD\<close>: a handle is 56 bytes.\<close>

definition lk_overhead :: "'e lk_hash \<Rightarrow> nat option" where
  "lk_overhead L =
     (if lk_head L \<noteq> None
      then map_option (\<lambda>t. unat (lk_items t) * 56 + unat (lk_num t) * sizeof_UT_hash_bucket
             + sizeof_UT_hash_table) (lk_tbl L)
      else Some 0)"

section \<open>Sorting, selecting, iterating\<close>

text \<open>\<open>HASH_SRT\<close>: the passes of \<open>DL_SORT\<close> over \<open>prev\<close> and \<open>next\<close>; the head's \<open>prev\<close> stays NULL.\<close>

partial_function (option) lk_sort_loop ::
    "('e \<Rightarrow> 'e \<Rightarrow> int) \<Rightarrow> nat \<Rightarrow> 'e store \<Rightarrow> ptr \<Rightarrow> ('e store \<times> ptr \<times> ptr) option" where
  "lk_sort_loop cmp insize h l =
     do { (h, l, tail, nmerges) \<leftarrow> ls_pass Double cmp None insize h None None l 0;
          h \<leftarrow> (if tail \<noteq> None then set_next h tail None else Some h);
          if nmerges \<le> 1 then Some (h, l, tail) else lk_sort_loop cmp (insize * 2) h l }"

definition lk_sort :: "('e \<Rightarrow> 'e \<Rightarrow> int) \<Rightarrow> 'e lk_hash \<Rightarrow> 'e lk_hash option" where
  "lk_sort cmp L =
     (if lk_head L \<noteq> None then do {
        (h, l, tail) \<leftarrow> lk_sort_loop cmp 1 (lk_app L) (lk_head L);
        t \<leftarrow> lk_tbl L;
        Some (L\<lparr>lk_app := h, lk_head := l, lk_tbl := Some (t\<lparr>lk_tail := tail\<rparr>)\<rparr>)
      } else Some L)"

text \<open>
  \<open>HASH_SELECT\<close>: the second handle of the same elements is that of the table \<open>dst\<close>; \<open>last\<close> is the
  element selected before. The item is counted after it has been added to its bucket.
\<close>

definition lk_select_elt ::
    "'w allocator \<Rightarrow> 'e lk_hash \<Rightarrow> ptr \<Rightarrow> ptr \<Rightarrow> 'e lk_hash \<Rightarrow> 'w \<Rightarrow> ('e lk_hash \<times> 'w) option" where
  "lk_select_elt malloc src a lst dst w =
     do { (k, hv) \<leftarrow> get_val (lk_bkt src) a;
          h \<leftarrow> set_val (lk_bkt dst) a (k, hv);
          app \<leftarrow> set_prev (lk_app dst) a lst; app \<leftarrow> set_next app a None;
          app \<leftarrow> (if lst \<noteq> None then set_next app lst a else Some app);
          let dst = dst\<lparr>lk_app := app, lk_bkt := h\<rparr>;
          (dst, w) \<leftarrow> (if lk_head dst = None
             then do { (t, w) \<leftarrow> lk_make_table malloc a w;
                       Some (dst\<lparr>lk_head := a, lk_tbl := Some t\<rparr>, w) }
             else Some (dst, w));
          t \<leftarrow> lk_tbl dst;
          (h, t, w) \<leftarrow> lk_add_to_bkt malloc (hash_to_bkt hv (lk_num t)) a (lk_bkt dst) t w;
          Some (dst\<lparr>lk_bkt := h, lk_tbl := Some (t\<lparr>lk_items := lk_items t + 1\<rparr>)\<rparr>, w) }"

partial_function (option) lk_select_chain ::
    "'w allocator \<Rightarrow> ('e \<Rightarrow> bool) \<Rightarrow> 'e lk_hash \<Rightarrow> ptr \<Rightarrow> ptr \<Rightarrow> 'e lk_hash \<Rightarrow> 'w
      \<Rightarrow> (ptr \<times> 'e lk_hash \<times> 'w) option" where
  "lk_select_chain malloc P src a lst dst w =
     (if a \<noteq> None then do {
        x \<leftarrow> get_val (lk_app src) a;
        (lst, dst, w) \<leftarrow> (if P x then do { (dst, w) \<leftarrow> lk_select_elt malloc src a lst dst w;
                                          Some (a, dst, w) }
                         else Some (lst, dst, w));
        n \<leftarrow> get_next (lk_bkt src) a;
        lk_select_chain malloc P src n lst dst w
      } else Some (lst, dst, w))"

fun lk_select_chains ::
    "'w allocator \<Rightarrow> ('e \<Rightarrow> bool) \<Rightarrow> 'e lk_hash \<Rightarrow> lk_bucket list \<Rightarrow> ptr \<Rightarrow> 'e lk_hash \<Rightarrow> 'w
      \<Rightarrow> ('e lk_hash \<times> 'w) option" where
  "lk_select_chains malloc P src [] lst dst w = Some (dst, w)"
| "lk_select_chains malloc P src (b # bs) lst dst w =
     do { (lst, dst, w) \<leftarrow> lk_select_chain malloc P src (lk_first b) lst dst w;
          lk_select_chains malloc P src bs lst dst w }"

definition lk_select ::
    "'w allocator \<Rightarrow> ('e \<Rightarrow> bool) \<Rightarrow> 'e lk_hash \<Rightarrow> 'e lk_hash \<Rightarrow> 'w \<Rightarrow> ('e lk_hash \<times> 'w) option" where
  "lk_select malloc P src dst w =
     (if lk_head src \<noteq> None
      then do { t \<leftarrow> lk_tbl src; lk_select_chains malloc P src (lk_buckets t) None dst w }
      else Some (dst, w))"

text \<open>\<open>HASH_ITER\<close>: the next element is read before the body \<open>f\<close> runs on the present one.\<close>

partial_function (option) lk_iter_from ::
    "(nat \<Rightarrow> 'e lk_hash \<Rightarrow> 'e lk_hash option) \<Rightarrow> ptr \<Rightarrow> ptr \<Rightarrow> 'e lk_hash \<Rightarrow> 'e lk_hash option" where
  "lk_iter_from f el tmp L =
     (case el of
        None \<Rightarrow> Some L
      | Some a \<Rightarrow> do {
          L \<leftarrow> f a L;
          n \<leftarrow> (if tmp \<noteq> None then get_next (lk_app L) tmp else Some None);
          lk_iter_from f tmp n L })"

definition lk_iter ::
    "(nat \<Rightarrow> 'e lk_hash \<Rightarrow> 'e lk_hash option) \<Rightarrow> 'e lk_hash \<Rightarrow> 'e lk_hash option" where
  "lk_iter f L =
     do { n \<leftarrow> (if lk_head L \<noteq> None then get_next (lk_app L) (lk_head L) else Some None);
          lk_iter_from f (lk_head L) n L }"

section \<open>The consistency check\<close>

text \<open>\<open>HASH_FSCK\<close>: false where the code reports an error and exits.\<close>

partial_function (option) fsck_chain :: "key_hash store \<Rightarrow> ptr \<Rightarrow> ptr \<Rightarrow> u32 \<Rightarrow> (bool \<times> u32) option" where
  "fsck_chain h prev thh cnt =
     (if thh \<noteq> None then do {
        p \<leftarrow> get_prev h thh; n \<leftarrow> get_next h thh;
        if prev \<noteq> p then Some (False, cnt) else fsck_chain h thh n (cnt + 1)
      } else Some (True, cnt))"

fun fsck_buckets :: "key_hash store \<Rightarrow> lk_bucket list \<Rightarrow> u32 \<Rightarrow> (bool \<times> u32) option" where
  "fsck_buckets h [] cnt = Some (True, cnt)"
| "fsck_buckets h (b # bs) cnt =
     do { (ok, n) \<leftarrow> fsck_chain h None (lk_first b) 0;
          if \<not> ok \<or> lk_count b \<noteq> n then Some (False, cnt + n)
          else fsck_buckets h bs (cnt + n) }"

partial_function (option) fsck_app :: "'e store \<Rightarrow> ptr \<Rightarrow> ptr \<Rightarrow> u32 \<Rightarrow> (bool \<times> u32) option" where
  "fsck_app h prev thh cnt =
     (if thh \<noteq> None then do {
        p \<leftarrow> get_prev h thh; n \<leftarrow> get_next h thh;
        if prev \<noteq> p then Some (False, cnt + 1) else fsck_app h thh n (cnt + 1)
      } else Some (True, cnt))"

definition lk_fsck :: "'e lk_hash \<Rightarrow> bool option" where
  "lk_fsck L =
     (if lk_head L \<noteq> None then do {
        t \<leftarrow> lk_tbl L;
        (ok, cnt) \<leftarrow> fsck_buckets (lk_bkt L) (take (unat (lk_num t)) (lk_buckets t)) 0;
        if \<not> ok \<or> cnt \<noteq> lk_items t then Some False
        else do {
          (ok, cnt) \<leftarrow> fsck_app (lk_app L) None (lk_head L) 0;
          Some (ok \<and> cnt = lk_items t) }
      } else Some True)"

end
