(* ===== verification/Uthash_Refine.thy ===== *)
theory Uthash_Refine
  imports Uthash_Links
begin

text \<open>
  The macros on links refine the hash table of \<open>Uthash\<close>, whose chains and application order are
  lists: a table of links stands for a table over the addresses of its elements.
\<close>

section \<open>Chains\<close>

text \<open>What no operation changes: which elements there are and what they hold.\<close>

definition same_vals :: "'v store \<Rightarrow> 'v store \<Rightarrow> bool" where
  "same_vals h h' \<longleftrightarrow> (\<forall>a. map_option el_val (h' a) = map_option el_val (h a))"

lemma same_vals_refl [simp]: "same_vals h h"
  by (simp add: same_vals_def)

lemma same_vals_trans: "same_vals h h' \<Longrightarrow> same_vals h' h'' \<Longrightarrow> same_vals h h''"
  by (simp add: same_vals_def)

lemma same_vals_upd: "h a = Some n \<Longrightarrow> el_val m = el_val n \<Longrightarrow> same_vals h (h(a \<mapsto> m))"
  by (simp add: same_vals_def)

lemma same_vals_el: "same_vals h h' \<Longrightarrow> h a = Some n \<Longrightarrow> \<exists>m. h' a = Some m \<and> el_val m = el_val n"
  by (metis (no_types, lifting) same_vals_def map_option_eq_Some option.simps(9))

lemma same_vals_the: "same_vals h h' \<Longrightarrow> h a \<noteq> None \<Longrightarrow> el_val (the (h' a)) = el_val (the (h a))"
  by (auto dest: same_vals_el)

definition untouched :: "nat set \<Rightarrow> 'v store \<Rightarrow> 'v store \<Rightarrow> bool" where
  "untouched S h h' \<longleftrightarrow> (\<forall>a. a \<notin> S \<longrightarrow> h' a = h a)"

lemma untouched_trans:
  "untouched S h h' \<Longrightarrow> untouched T h' h'' \<Longrightarrow> S \<union> T \<subseteq> U \<Longrightarrow> untouched U h h''"
  by (fastforce simp: untouched_def)

lemma untouched_mono: "untouched S h h' \<Longrightarrow> S \<subseteq> T \<Longrightarrow> untouched T h h'"
  by (auto simp: untouched_def)

lemma dseg_cong: "(\<And>a. a \<in> set xs \<Longrightarrow> h' a = h a) \<Longrightarrow> dseg h' p xs q = dseg h p xs q"
  by (induction xs arbitrary: p) auto

lemma lseg_cong: "(\<And>a. a \<in> set xs \<Longrightarrow> h' a = h a) \<Longrightarrow> lseg h' xs q = lseg h xs q"
  by (induction xs) auto

lemma dseg_untouched:
  "untouched S h h' \<Longrightarrow> set xs \<inter> S = {} \<Longrightarrow> dseg h' p xs q = dseg h p xs q"
  by (rule dseg_cong) (auto simp: untouched_def)

lemma lseg_untouched:
  "untouched S h h' \<Longrightarrow> set xs \<inter> S = {} \<Longrightarrow> lseg h' xs q = lseg h xs q"
  by (rule lseg_cong) (auto simp: untouched_def)

lemma distinct_thirds:
  assumes "distinct ((xs @ ys) @ zs)"
  shows "distinct (xs @ zs)" and "set ys \<inter> (set xs \<union> set zs) = {}"
  using assms by auto

lemma disjoint_part: "B \<subseteq> C \<Longrightarrow> A \<inter> C = {} \<Longrightarrow> A \<inter> B = {}"
  by blast

text \<open>Assigning the link behind a segment, or in front of it.\<close>

lemma behind:
  assumes "dseg h p xs q" and "distinct xs" and "xs \<noteq> []"
  obtains h' where "set_next h (final None xs) q' = Some h'" "dseg h' p xs q'" "same_vals h h'"
    "untouched {last xs} h h'"
proof -
  obtain ys t where xs: "xs = ys @ [t]" using assms(3) by (cases xs rule: rev_cases) auto
  with assms(1) obtain m where m: "h t = Some m" by auto
  let ?h = "h(t \<mapsto> m\<lparr>el_next := q'\<rparr>)"
  have "dseg ?h p xs q'" unfolding xs by (rule dseg_set_next) (use assms xs m in auto)
  with m xs show thesis
    by (intro that [of ?h]) (auto simp: set_next_def untouched_def intro: same_vals_upd)
qed

lemma in_front:
  assumes "dseg h p xs q" and "distinct xs" and "xs \<noteq> []"
  obtains h' where "set_prev h (first xs None) p' = Some h'" "dseg h' p' xs q" "same_vals h h'"
    "untouched {hd xs} h h'"
proof -
  obtain a ys where xs: "xs = a # ys" using assms(3) by (cases xs) auto
  with assms(1) obtain m where m: "h a = Some m" by auto
  let ?h = "h(a \<mapsto> m\<lparr>el_prev := p'\<rparr>)"
  have "dseg ?h p' xs q" unfolding xs by (rule dseg_set_prev) (use assms xs m in auto)
  with m xs show thesis
    by (intro that [of ?h]) (auto simp: set_prev_def untouched_def intro: same_vals_upd)
qed

text \<open>Taking an element out of a segment.\<close>

lemma unlink:
  assumes "dseg h None (ys @ a # zs) None" and "distinct (ys @ a # zs)"
  obtains h1 h2 where "get_next h (Some a) = Some (first zs None)"
    "get_prev h (Some a) = Some (final None ys)"
    "ys = [] \<and> h1 = h \<or> ys \<noteq> [] \<and> set_next h (final None ys) (first zs None) = Some h1"
    "zs = [] \<and> h2 = h1 \<or> zs \<noteq> [] \<and> set_prev h1 (first zs None) (final None ys) = Some h2"
    "dseg h2 None (ys @ zs) None" "same_vals h h2" "untouched (set (ys @ zs)) h h2"
proof -
  from assms(1) obtain n where n: "h a = Some n" "el_prev n = final None ys" "el_next n = first zs None"
    and y: "dseg h None ys (Some a)" and z: "dseg h (Some a) zs None" by auto
  obtain h1 where h1: "ys = [] \<and> h1 = h \<or> ys \<noteq> [] \<and> set_next h (final None ys) (first zs None) = Some h1"
    "dseg h1 None ys (first zs None)" "same_vals h h1" "untouched (set ys) h h1"
  proof (cases "ys = []")
    case True
    then show thesis by (intro that [of h]) (simp_all add: untouched_def)
  next
    case False
    have dy: "distinct ys" using assms(2) by simp
    from False obtain h1 where "set_next h (final None ys) (first zs None) = Some h1"
      "dseg h1 None ys (first zs None)" "same_vals h h1" "untouched {last ys} h h1"
      using behind [OF y] dy by metis
    with False show thesis by (intro that [of h1]) (auto elim: untouched_mono)
  qed
  have z1: "dseg h1 (Some a) zs None"
    using z h1(4) assms(2) by (subst dseg_untouched) auto
  obtain h2 where h2: "zs = [] \<and> h2 = h1 \<or> zs \<noteq> [] \<and> set_prev h1 (first zs None) (final None ys) = Some h2"
    "dseg h2 (final None ys) zs None" "same_vals h1 h2" "untouched (set zs) h1 h2"
  proof (cases "zs = []")
    case True
    then show thesis by (intro that [of h1]) (simp_all add: untouched_def)
  next
    case False
    have "distinct zs" using assms(2) by simp
    from in_front [OF z1 this False] obtain h2 where
      "set_prev h1 (first zs None) (final None ys) = Some h2"
      "dseg h2 (final None ys) zs None" "same_vals h1 h2" "untouched {hd zs} h1 h2" by metis
    with False show thesis by (intro that [of h2]) (auto elim: untouched_mono)
  qed
  have "dseg h2 None ys (first zs None)"
    using h1(2) h2(4) assms(2) by (subst dseg_untouched) auto
  with h2(2) have "dseg h2 None (ys @ zs) None" by simp
  moreover have "untouched (set (ys @ zs)) h h2" by (rule untouched_trans [OF h1(4) h2(4)]) auto
  ultimately show thesis
    using n h1(1) h2(1) same_vals_trans [OF h1(3) h2(3)]
    by (intro that) (auto simp: get_next_def get_prev_def)
qed

section \<open>Buckets\<close>

lemma lk_push_list:
  assumes "dseg h None c None" and "distinct (a # c)" and "lk_first b = first c None" and "h a = Some n"
  obtains h' where "lk_push h b (Some a) = Some (h', b\<lparr>lk_first := Some a\<rparr>)"
    "dseg h' None (a # c) None" "same_vals h h'" "untouched (set (a # c)) h h'"
proof -
  let ?n = "n\<lparr>el_next := first c None, el_prev := None\<rparr>"
  let ?h = "h(a \<mapsto> ?n)"
  obtain h0 where h0: "set_next h (Some a) (first c None) = Some h0" "set_prev h0 (Some a) None = Some ?h"
    using assms(4) by (auto simp: set_next_def set_prev_def)
  have s1: "same_vals h ?h" "untouched {a} h ?h"
    using assms(4) by (auto simp: untouched_def intro: same_vals_upd)
  have d1: "dseg ?h None c None" using assms(1,2) by simp
  obtain h2 where h2: "(if first c None \<noteq> None then set_prev ?h (first c None) (Some a) else Some ?h) = Some h2"
    "dseg h2 (Some a) c None" "same_vals ?h h2" "untouched (set c) ?h h2"
  proof (cases "c = []")
    case True
    then show thesis by (intro that [of ?h]) (simp_all add: untouched_def)
  next
    case False
    have "distinct c" using assms(2) by simp
    from in_front [OF d1 this False] obtain h2 where
      h2: "set_prev ?h (first c None) (Some a) = Some h2" "dseg h2 (Some a) c None" "same_vals ?h h2"
      "untouched {hd c} ?h h2" by metis
    have "untouched (set c) ?h h2" using False by (intro untouched_mono [OF h2(4)]) simp
    moreover have "first c None \<noteq> None" using False by (cases c) simp_all
    ultimately show thesis using h2(1-3) by (intro that [of h2]) (simp_all only: if_True not_False_eq_True)
  qed
  have "h2 a = Some ?n" using h2(4) assms(2) by (simp add: untouched_def)
  with h2(2) have "dseg h2 None (a # c) None" by simp
  moreover have "lk_push h b (Some a) = Some (h2, b\<lparr>lk_first := Some a\<rparr>)"
    unfolding lk_push_def assms(3) using h0 h2(1) by (simp only: Option.bind.simps)
  moreover have "untouched (set (a # c)) h h2" by (rule untouched_trans [OF s1(2) h2(4)]) auto
  ultimately show thesis using same_vals_trans [OF s1(1) h2(3)] by (intro that)
qed

lemma lk_del_list:
  assumes "dseg h None c None" and "distinct c" and "lk_first b = first c None" and "a \<in> set c"
  obtains h' where
    "lk_del_in_bkt h b (Some a)
      = Some (h', b\<lparr>lk_count := lk_count b - 1, lk_first := first (remove1 a c) None\<rparr>)"
    "dseg h' None (remove1 a c) None" "same_vals h h'" "untouched (set c) h h'"
proof -
  from assms(4) obtain ys zs where c: "c = ys @ a # zs" by (meson split_list)
  with assms(2) have r: "remove1 a c = ys @ zs" by (simp add: remove1_append)
  from assms(1,2) obtain h1 h2 where u: "get_next h (Some a) = Some (first zs None)"
    "get_prev h (Some a) = Some (final None ys)"
    "ys = [] \<and> h1 = h \<or> ys \<noteq> [] \<and> set_next h (final None ys) (first zs None) = Some h1"
    "zs = [] \<and> h2 = h1 \<or> zs \<noteq> [] \<and> set_prev h1 (first zs None) (final None ys) = Some h2"
    "dseg h2 None (ys @ zs) None" "same_vals h h2" "untouched (set (ys @ zs)) h h2"
    unfolding c by (rule unlink)
  have f: "(lk_first b = Some a) = (ys = [])"
    using assms(2,3) by (cases ys) (auto simp: c)
  have "lk_del_in_bkt h b (Some a)
      = Some (h2, b\<lparr>lk_count := lk_count b - 1, lk_first := first (ys @ zs) None\<rparr>)"
    using u(1-4) f assms(3)
    by (cases ys; cases zs) (auto simp: lk_del_in_bkt_def c final_def)
  with u(5-7) r show thesis by (intro that [of h2]) (auto simp: c elim: untouched_mono)
qed

text \<open>A bucket of links over the addresses \<open>adr\<close> of the elements on a chain.\<close>

definition chain_sim :: "(nat \<Rightarrow> nat) \<Rightarrow> key_hash store \<Rightarrow> lk_bucket \<Rightarrow> ut_bucket \<Rightarrow> bool" where
  "chain_sim adr h b u \<longleftrightarrow>
     (let c = map adr (hh_chain u)
      in lk_first b = first c None \<and> dseg h None c None \<and> lk_count b = bkt_count u
         \<and> lk_mult b = expand_mult u)"

abbreviation chain_elts :: "(nat \<Rightarrow> nat) \<Rightarrow> ut_bucket list \<Rightarrow> nat list" where
  "chain_elts adr us \<equiv> map adr (concat (map hh_chain us))"

text \<open>The element at \<open>adr i\<close> holds the key and the hash value of entry \<open>i\<close>.\<close>

definition lk_keyed :: "(nat \<Rightarrow> nat) \<Rightarrow> 'e ut_obj list \<Rightarrow> key_hash store \<Rightarrow> nat set \<Rightarrow> bool" where
  "lk_keyed adr os h S \<longleftrightarrow>
     (\<forall>i \<in> S. map_option el_val (h (adr i)) = Some (hh_key (os ! i), hh_hashv (os ! i)))"

lemma lk_keyed_same: "lk_keyed adr os h S \<Longrightarrow> same_vals h h' \<Longrightarrow> lk_keyed adr os h' S"
  by (simp add: lk_keyed_def same_vals_def)

lemma chain_sim_untouched:
  "untouched S h h' \<Longrightarrow> adr ` set (hh_chain u) \<inter> S = {} \<Longrightarrow> chain_sim adr h b u
    \<Longrightarrow> chain_sim adr h' b u"
  using dseg_untouched [of S h h' "map adr (hh_chain u)"] by (auto simp: chain_sim_def Let_def)

lemma concat_update:
  "i < length us \<Longrightarrow> mset (concat (map f (us[i := u]))) + mset (f (us ! i))
    = mset (concat (map f us)) + mset (f u)"
  by (induction us arbitrary: i) (auto split: nat.splits)

lemma concat_nth:
  "i < length us \<Longrightarrow> j < length us \<Longrightarrow> i \<noteq> j \<Longrightarrow> distinct (concat (map f us))
    \<Longrightarrow> set (f (us ! i)) \<inter> set (f (us ! j)) = {}"
proof (induction us arbitrary: i j)
  case (Cons u us)
  have "set (f (us ! k)) \<subseteq> set (concat (map f us))" if "k < length us" for k
    using nth_mem [OF that] by auto
  with Cons show ?case by (cases i; cases j) (fastforce, fastforce, fastforce, auto)
qed simp

text \<open>One bucket changes, with its own elements and those that come to it.\<close>

lemma chain_sim_update:
  assumes "list_all2 (chain_sim adr h) bs us" and "i < length us"
    and "distinct (chain_elts adr us)" and "untouched S h h'" and "chain_sim adr h' b u"
    and "S \<inter> set (chain_elts adr us) \<subseteq> adr ` set (hh_chain (us ! i))"
  shows "list_all2 (chain_sim adr h') (bs[i := b]) (us[i := u])"
proof (rule list_all2_all_nthI)
  from assms(1) show "length (bs[i := b]) = length (us[i := u])" by (auto dest: list_all2_lengthD)
  fix j assume "j < length (bs[i := b])"
  with assms(1) have j: "j < length us" "j < length bs" by (auto dest: list_all2_lengthD)
  show "chain_sim adr h' (bs[i := b] ! j) (us[i := u] ! j)"
  proof (cases "j = i")
    case True
    with assms(5) j show ?thesis by simp
  next
    case False
    have "distinct (concat (map (\<lambda>u. map adr (hh_chain u)) us))"
      using assms(3) by (simp add: map_concat comp_def)
    from concat_nth [OF assms(2) j(1) _ this] False
    have "adr ` set (hh_chain (us ! i)) \<inter> adr ` set (hh_chain (us ! j)) = {}" by auto
    moreover have "adr ` set (hh_chain (us ! j)) \<subseteq> set (chain_elts adr us)"
      using nth_mem [OF j(1)] by auto
    ultimately have "adr ` set (hh_chain (us ! j)) \<inter> S = {}" using assms(6) by blast
    then have "chain_sim adr h' (bs ! j) (us ! j)"
      using chain_sim_untouched [OF assms(4)] list_all2_nthD [OF assms(1) j(2)] by blast
    with False show ?thesis by simp
  qed
qed

section \<open>Moving handles to new buckets\<close>

lemma expand_move_elts:
  assumes "i = hash_to_bkt (hh_hashv (os ! x)) nb" and "i < length us"
  obtains u m n' where "expand_move os nb ideal x (us, n) = (us[i := u], n')"
    "u = \<lparr>hh_chain = x # hh_chain (us ! i), bkt_count = bkt_count (us ! i) + 1, expand_mult = m\<rparr>"
    "mset (chain_elts adr (us[i := u])) = add_mset (adr x) (mset (chain_elts adr us))"
proof -
  obtain u m n' where u: "expand_move os nb ideal x (us, n) = (us[i := u], n')"
    "u = \<lparr>hh_chain = x # hh_chain (us ! i), bkt_count = bkt_count (us ! i) + 1, expand_mult = m\<rparr>"
    using assms(1) by (simp add: expand_move_def Let_def)
  have "mset (concat (map hh_chain (us[i := u]))) + mset (hh_chain (us ! i))
      = mset (concat (map hh_chain us)) + mset (hh_chain u)"
    by (rule concat_update [OF assms(2)])
  then have "mset (concat (map hh_chain (us[i := u]))) = add_mset x (mset (concat (map hh_chain us)))"
    by (simp add: u(2))
  then have "mset (chain_elts adr (us[i := u])) = add_mset (adr x) (mset (chain_elts adr us))"
    by simp
  with u that show thesis by blast
qed

lemma move_chain:
  assumes "list_all2 (chain_sim adr h) bs us" and "lseg h (map adr xs) None"
    and "distinct (map adr xs @ chain_elts adr us)" and "lk_keyed adr os h (set xs)"
    and "\<And>hv. hash_to_bkt hv nb < length us"
  shows "\<exists>h' bs' us' n'. lk_move_chain nb ideal (first (map adr xs) None) h bs n = Some (h', bs', n')
    \<and> fold (expand_move os nb ideal) xs (us, n) = (us', n') \<and> list_all2 (chain_sim adr h') bs' us'
    \<and> same_vals h h' \<and> untouched (adr ` set xs \<union> set (chain_elts adr us)) h h'
    \<and> mset (chain_elts adr us') = mset (map adr xs) + mset (chain_elts adr us)
    \<and> length us' = length us"
  using assms
proof (induction xs arbitrary: h bs us n)
  case Nil
  then show ?case by (simp add: lk_move_chain.simps untouched_def)
next
  case (Cons x xs)
  let ?i = "hash_to_bkt (hh_hashv (os ! x)) nb" and ?c = "\<lambda>u. map adr (hh_chain u)"
  have i: "?i < length us" "?i < length bs"
    using Cons.prems(1,5) by (auto dest: list_all2_lengthD)
  have sim: "chain_sim adr h (bs ! ?i) (us ! ?i)" by (rule list_all2_nthD [OF Cons.prems(1) i(2)])
  from Cons.prems(2) obtain e where e: "h (adr x) = Some e" "el_next e = first (map adr xs) None" by auto
  with Cons.prems(4) have v: "get_val h (Some (adr x)) = Some (hh_key (os ! x), hh_hashv (os ! x))"
    by (simp add: lk_keyed_def get_val_def)
  obtain u m n' where u: "expand_move os nb ideal x (us, n) = (us[?i := u], n')"
    "u = \<lparr>hh_chain = x # hh_chain (us ! ?i), bkt_count = bkt_count (us ! ?i) + 1, expand_mult = m\<rparr>"
    "mset (chain_elts adr (us[?i := u])) = add_mset (adr x) (mset (chain_elts adr us))"
    by (rule expand_move_elts [OF refl i(1)])
  have du: "distinct (chain_elts adr us)" "adr x \<notin> set (chain_elts adr us)" using Cons.prems(3) by auto
  have sub: "adr ` set (hh_chain (us ! ?i)) \<subseteq> set (chain_elts adr us)" using nth_mem [OF i(1)] by auto
  have "distinct (concat (map ?c us))" using du(1) by (simp add: map_concat comp_def)
  then have "distinct (?c (us ! ?i))" using i(1) by (simp add: distinct_concat_iff)
  then have dc: "distinct (adr x # ?c (us ! ?i))" using du(2) sub by auto
  define b where "b = (bs ! ?i)\<lparr>lk_count := bkt_count u, lk_mult := m\<rparr>"
  from sim have "dseg h None (?c (us ! ?i)) None" "lk_first b = first (?c (us ! ?i)) None"
    by (simp_all add: chain_sim_def Let_def b_def)
  from lk_push_list [OF this(1) dc this(2) e(1)] obtain h1 where
    h1: "lk_push h b (Some (adr x)) = Some (h1, b\<lparr>lk_first := Some (adr x)\<rparr>)"
      "dseg h1 None (adr x # ?c (us ! ?i)) None" "same_vals h h1"
      "untouched (set (adr x # ?c (us ! ?i))) h h1" by blast
  let ?bs = "bs[?i := b\<lparr>lk_first := Some (adr x)\<rparr>]" and ?us = "us[?i := u]"
  have "chain_sim adr h1 (b\<lparr>lk_first := Some (adr x)\<rparr>) u"
    using h1(2) u(2) by (simp add: chain_sim_def b_def)
  from chain_sim_update [OF Cons.prems(1) i(1) du(1) h1(4) this] du(2)
  have l1: "list_all2 (chain_sim adr h1) ?bs ?us" by auto
  have "set (adr x # ?c (us ! ?i)) \<subseteq> insert (adr x) (set (chain_elts adr us))"
    unfolding list.set set_map [of adr "hh_chain (us ! ?i)"] using sub by (rule insert_mono)
  moreover have "set (map adr xs) \<inter> insert (adr x) (set (chain_elts adr us)) = {}"
    using Cons.prems(3) by auto
  ultimately have dis: "set (map adr xs) \<inter> set (adr x # ?c (us ! ?i)) = {}" by (rule disjoint_part)
  from Cons.prems(2) have l2: "lseg h1 (map adr xs) None"
    using lseg_untouched [OF h1(4) dis] by simp
  have "mset (map adr xs @ chain_elts adr ?us) = mset (map adr (x # xs) @ chain_elts adr us)"
    using u(3) by simp
  then have l3: "distinct (map adr xs @ chain_elts adr ?us)"
    using Cons.prems(3) mset_eq_imp_distinct_iff by blast
  have l4: "lk_keyed adr os h1 (set xs)"
    using lk_keyed_same [OF Cons.prems(4) h1(3)] by (simp add: lk_keyed_def)
  obtain h' bs' us' n'' where r: "lk_move_chain nb ideal (first (map adr xs) None) h1 ?bs n' = Some (h', bs', n'')"
    "fold (expand_move os nb ideal) xs (?us, n') = (us', n'')" "list_all2 (chain_sim adr h') bs' us'"
    "same_vals h1 h'" "untouched (adr ` set xs \<union> set (chain_elts adr ?us)) h1 h'"
    "mset (chain_elts adr us') = mset (map adr xs) + mset (chain_elts adr ?us)" "length us' = length ?us"
    using Cons.IH [OF l1 l2 l3 l4, of n'] Cons.prems(5) unfolding length_list_update by blast
  have step: "lk_move_chain nb ideal (Some (adr x)) h bs n
      = lk_move_chain nb ideal (first (map adr xs) None) h1 ?bs n'"
  proof -
    have "b = (bs ! ?i)\<lparr>lk_count := lk_count (bs ! ?i) + 1,
        lk_mult := (if ideal < lk_count (bs ! ?i) + 1 \<and> lk_mult (bs ! ?i) * ideal < lk_count (bs ! ?i) + 1
                   then lk_mult (bs ! ?i) + 1 else lk_mult (bs ! ?i))\<rparr>"
      "n' = (if ideal < lk_count (bs ! ?i) + 1 then n + 1 else n)"
      using u(1,2) sim i(1)
      by (auto simp: b_def expand_move_def Let_def chain_sim_def dest!: arg_cong [where f = "\<lambda>us. us ! ?i"])
    then show ?thesis
      using v e i(2) h1(1) by (subst lk_move_chain.simps) (simp add: bucket_at_def get_next_def Let_def)
  qed
  have "set (chain_elts adr ?us) = insert (adr x) (set (chain_elts adr us))"
    using arg_cong [OF u(3), of set_mset] by simp
  then have "untouched (adr ` set (x # xs) \<union> set (chain_elts adr us)) h h'"
    using sub by (intro untouched_trans [OF h1(4) r(5)]) auto
  with r step u(1,3) same_vals_trans [OF h1(3) r(4)] show ?case by simp
qed

lemma move_chains:
  assumes "list_all2 (\<lambda>b u. lk_first b = first (map adr (hh_chain u)) None
      \<and> lseg h (map adr (hh_chain u)) None) olds ous"
    and "list_all2 (chain_sim adr h) bs us" and "distinct (chain_elts adr ous @ chain_elts adr us)"
    and "lk_keyed adr os h (set (concat (map hh_chain ous)))" and "\<And>hv. hash_to_bkt hv nb < length us"
  shows "\<exists>h' bs' us' n'. lk_move_chains nb ideal olds h bs n = Some (h', bs', n')
    \<and> fold (expand_move os nb ideal) (concat (map hh_chain ous)) (us, n) = (us', n')
    \<and> list_all2 (chain_sim adr h') bs' us' \<and> same_vals h h'
    \<and> untouched (set (chain_elts adr ous) \<union> set (chain_elts adr us)) h h'"
  using assms
proof (induction ous arbitrary: olds h bs us n rule: list.induct)
  case Nil
  from Nil.prems(1) have "olds = []" by simp
  then show ?case using Nil.prems(2) by (simp add: untouched_def)
next
  case (Cons u ous)
  let ?xs = "hh_chain u"
  from Cons.prems(1) obtain b olds' where o: "olds = b # olds'"
    and f: "lk_first b = first (map adr ?xs) None" "lseg h (map adr ?xs) None"
    and rest: "list_all2 (\<lambda>b u. lk_first b = first (map adr (hh_chain u)) None
      \<and> lseg h (map adr (hh_chain u)) None) olds' ous"
    by (auto simp: list_all2_Cons2)
  have "chain_elts adr (u # ous) = map adr ?xs @ chain_elts adr ous" by simp
  note apart = distinct_thirds [OF Cons.prems(3) [unfolded this]]
  have d: "distinct (map adr ?xs @ chain_elts adr us)" by (rule apart(1))
  have k: "lk_keyed adr os h (set ?xs)" using Cons.prems(4) by (simp add: lk_keyed_def)
  obtain h1 bs1 us1 n1 where m: "lk_move_chain nb ideal (lk_first b) h bs n = Some (h1, bs1, n1)"
    "fold (expand_move os nb ideal) ?xs (us, n) = (us1, n1)" "list_all2 (chain_sim adr h1) bs1 us1"
    "same_vals h h1" "untouched (adr ` set ?xs \<union> set (chain_elts adr us)) h h1"
    "mset (chain_elts adr us1) = mset (map adr ?xs) + mset (chain_elts adr us)" "length us1 = length us"
    using move_chain [OF Cons.prems(2) f(2) d k Cons.prems(5), of ideal n] unfolding f(1) by blast
  have away: "set (map adr (hh_chain v)) \<inter> (adr ` set ?xs \<union> set (chain_elts adr us)) = {}"
    if "v \<in> set ous" for v
  proof -
    have "set (map adr (hh_chain v)) \<subseteq> set (chain_elts adr ous)" using that by auto
    with apart(2) show ?thesis unfolding set_map [of adr ?xs] by blast
  qed
  have l1: "list_all2 (\<lambda>b u. lk_first b = first (map adr (hh_chain u)) None
      \<and> lseg h1 (map adr (hh_chain u)) None) olds' ous"
    using rest
    by (rule list.rel_mono_strong) (use lseg_untouched [OF m(5) away] in simp)
  have "mset (chain_elts adr ous @ chain_elts adr us1) = mset (chain_elts adr (u # ous) @ chain_elts adr us)"
    using m(6) by simp
  then have l2: "distinct (chain_elts adr ous @ chain_elts adr us1)"
    using Cons.prems(3) mset_eq_imp_distinct_iff by blast
  have l3: "lk_keyed adr os h1 (set (concat (map hh_chain ous)))"
    using lk_keyed_same [OF Cons.prems(4) m(4)] by (simp add: lk_keyed_def)
  obtain h' bs' us' n' where r: "lk_move_chains nb ideal olds' h1 bs1 n1 = Some (h', bs', n')"
    "fold (expand_move os nb ideal) (concat (map hh_chain ous)) (us1, n1) = (us', n')"
    "list_all2 (chain_sim adr h') bs' us'" "same_vals h1 h'"
    "untouched (set (chain_elts adr ous) \<union> set (chain_elts adr us1)) h1 h'"
    using Cons.IH [OF l1 m(3) l2 l3, of n1] Cons.prems(5) unfolding m(7) by blast
  have "set (chain_elts adr us1) = adr ` set ?xs \<union> set (chain_elts adr us)"
    using arg_cong [OF m(6), of set_mset] by simp
  then have "untouched (set (chain_elts adr (u # ous)) \<union> set (chain_elts adr us)) h h'"
    by (intro untouched_trans [OF m(5) r(5)]) auto
  with r m(1,2) o same_vals_trans [OF m(4) r(4)] show ?case by simp
qed

section \<open>The table\<close>

definition tbl_sim :: "(nat \<Rightarrow> nat) \<Rightarrow> key_hash store \<Rightarrow> lk_table \<Rightarrow> ut_table \<Rightarrow> bool" where
  "tbl_sim adr h t u \<longleftrightarrow>
     list_all2 (chain_sim adr h) (lk_buckets t) (buckets u)
     \<and> lk_num t = num_buckets u \<and> lk_log2 t = log2_num_buckets u \<and> lk_items t = num_items u
     \<and> lk_ideal t = ideal_chain_maxlen u \<and> lk_nonideal t = nonideal_items u
     \<and> lk_ineff t = ineff_expands u \<and> lk_noexpand t = noexpand u"

lemma chain_sim_empty [simp]: "chain_sim adr h lk_empty_bucket empty_bucket"
  by (simp add: chain_sim_def lk_empty_bucket_def empty_bucket_def)

lemma make_table_sim:
  "(case hash_make_table malloc w of
      None \<Rightarrow> lk_make_table malloc a w = None
    | Some (u, w') \<Rightarrow> \<exists>t. lk_make_table malloc a w = Some (t, w') \<and> tbl_sim adr h t u \<and> lk_tail t = a
        \<and> buckets u = replicate 32 empty_bucket)"
  by (auto simp: hash_make_table_def lk_make_table_def tbl_sim_def list_all2_conv_all_nth
      split: option.splits prod.splits if_splits)

text \<open>The number of buckets of the doubled table.\<close>

lemma expand_sim:
  assumes "tbl_sim adr h t u" and "distinct (chain_elts adr (buckets u))"
    and "lk_keyed adr os h (set (concat (map hh_chain (buckets u))))"
    and "fst (malloc (sizeof_UT_hash_bucket * (unat (num_buckets u) * 2)) w)
      \<longrightarrow> (\<forall>hv. hash_to_bkt hv (num_buckets u * 2) < unat (num_buckets u) * 2)"
  shows "(case hash_expand_buckets malloc os u w of
      None \<Rightarrow> lk_expand malloc h t w = None
    | Some (u', w') \<Rightarrow> \<exists>h' t'. lk_expand malloc h t w = Some (h', t', w') \<and> tbl_sim adr h' t' u'
        \<and> lk_tail t' = lk_tail t \<and> same_vals h h' \<and> untouched (set (chain_elts adr (buckets u))) h h')"
proof -
  let ?m = "unat (num_buckets u) * 2"
  let ?nb = "num_buckets u * 2"
  let ?ideal = "drop_bit (unat (log2_num_buckets u + 1)) (num_items u)
      + (if num_items u AND (?nb - 1) \<noteq> 0 then 1 else 0)"
  obtain ok w' where ok: "malloc (sizeof_UT_hash_bucket * ?m) w = (ok, w')" by fastforce
  note s = assms(1) [unfolded tbl_sim_def]
  show ?thesis
  proof (cases ok)
    case False
    with ok s show ?thesis by (simp add: hash_expand_buckets_def lk_expand_def Let_def)
  next
    case True
    with ok assms(4) have idx: "hash_to_bkt hv ?nb < length (replicate ?m empty_bucket)" for hv by simp
    have c: "chain_elts adr (replicate ?m empty_bucket) = []" by (simp add: empty_bucket_def)
    have "list_all2 (\<lambda>b u. lk_first b = first (map adr (hh_chain u)) None
        \<and> lseg h (map adr (hh_chain u)) None) (lk_buckets t) (buckets u)"
      using s by (auto elim!: list.rel_mono_strong simp: chain_sim_def Let_def intro: dseg_lseg)
    moreover have "list_all2 (chain_sim adr h) (replicate ?m lk_empty_bucket) (replicate ?m empty_bucket)"
      by (simp add: list_all2_conv_all_nth)
    moreover have "distinct (chain_elts adr (buckets u) @ chain_elts adr (replicate ?m empty_bucket))"
      unfolding c using assms(2) by simp
    ultimately obtain h' bs' us' n' where
      r: "lk_move_chains ?nb ?ideal (lk_buckets t) h (replicate ?m lk_empty_bucket) 0 = Some (h', bs', n')"
        "fold (expand_move os ?nb ?ideal) (concat (map hh_chain (buckets u))) (replicate ?m empty_bucket, 0)
          = (us', n')"
        "list_all2 (chain_sim adr h') bs' us'" "same_vals h h'"
        "untouched (set (chain_elts adr (buckets u)) \<union> set (chain_elts adr (replicate ?m empty_bucket))) h h'"
      using move_chains [OF _ _ _ assms(3) idx, of "lk_buckets t" "replicate ?m lk_empty_bucket" ?ideal 0]
      by blast
    have "untouched (set (chain_elts adr (buckets u))) h h'" using r(5) unfolding c by simp
    with ok True s r(1-4) show ?thesis
      by (simp add: hash_expand_buckets_def lk_expand_def Let_def tbl_sim_def)
  qed
qed

text \<open>The indices of the doubled table, which memory bounds.\<close>

lemma expand_indices:
  assumes "mem_bounded malloc" and "unat (log2_num_buckets u) < 32"
    and "num_buckets u = 2 ^ unat (log2_num_buckets u)"
    and "fst (malloc (sizeof_UT_hash_bucket * (unat (num_buckets u) * 2)) w)"
  shows "hash_to_bkt hv (num_buckets u * 2) < unat (num_buckets u) * 2"
proof -
  let ?l = "unat (log2_num_buckets u)"
  have un: "unat (num_buckets u) = 2 ^ ?l" using assms(2,3) by (simp add: unat_two_power)
  have "sizeof_UT_hash_bucket * (unat (num_buckets u) * 2) < 2 ^ 36"
    using assms(1,4) unfolding mem_bounded_def by blast
  then have "(2::nat) ^ Suc ?l < 2 ^ 32" by (simp add: sizeof_UT_hash_bucket_def un)
  then have l: "Suc ?l < 32" by (simp only: power_strict_increasing_iff)
  have "num_buckets u * 2 = 2 ^ Suc ?l" using assms(3) by simp
  with hash_to_bkt_less [OF l, of hv] show ?thesis by (simp add: un)
qed

lemma add_to_bkt_sim:
  assumes "mem_bounded malloc" and "tbl_sim adr h t u" and "unat (log2_num_buckets u) < 32"
    and "num_buckets u = 2 ^ unat (log2_num_buckets u)"
    and "length (buckets u) = 2 ^ unat (log2_num_buckets u)"
    and "bkts_hold os (num_buckets u) (buckets u) S" and "x \<notin> S" and "inj_on adr (insert x S)"
    and "lk_keyed adr os h (insert x S)" and "i = hash_to_bkt (hh_hashv (os ! x)) (num_buckets u)"
  shows "(case hash_add_to_bkt malloc os u i x w of
      None \<Rightarrow> lk_add_to_bkt malloc i (Some (adr x)) h t w = None
    | Some (u', w') \<Rightarrow> \<exists>h' t'. lk_add_to_bkt malloc i (Some (adr x)) h t w = Some (h', t', w')
        \<and> tbl_sim adr h' t' u' \<and> lk_tail t' = lk_tail t \<and> same_vals h h'
        \<and> untouched (adr ` insert x S) h h')"
proof -
  let ?c = "map adr (hh_chain (buckets u ! i))"
  have idx: "hash_to_bkt hv (num_buckets u) < length (buckets u)" for hv
    using assms(3-5) hash_to_bkt_less [OF assms(3)] by simp
  have ch: "set (concat (map hh_chain (buckets u))) = S" "distinct (concat (map hh_chain (buckets u)))"
    by (rule chains_of_buckets [OF assms(6) idx])+
  have sim: "list_all2 (chain_sim adr h) (lk_buckets t) (buckets u)"
    using assms(2) by (simp add: tbl_sim_def)
  have i: "i < length (buckets u)" "i < length (lk_buckets t)"
    using idx [of "hh_hashv (os ! x)"] list_all2_lengthD [OF sim] by (simp_all add: assms(10))
  have elts: "set (chain_elts adr (buckets u)) = adr ` S" unfolding set_map ch(1) ..
  have inj: "inj_on adr S" "adr x \<notin> adr ` S" using assms(7,8) by (auto simp: inj_on_def)
  then have du: "distinct (chain_elts adr (buckets u))" using ch by (simp add: distinct_map)
  have hc: "set (hh_chain (buckets u ! i)) \<subseteq> S" "distinct (hh_chain (buckets u ! i))"
    using assms(6) i(1) by (auto simp: bkts_hold_def)
  then have dc: "distinct (adr x # ?c)" using inj by (auto simp: distinct_map intro: inj_on_subset)
  define b where "b = (lk_buckets t ! i)\<lparr>lk_count := lk_count (lk_buckets t ! i) + 1\<rparr>"
  have "chain_sim adr h (lk_buckets t ! i) (buckets u ! i)" by (rule list_all2_nthD [OF sim i(2)])
  then have c: "dseg h None ?c None" "lk_first b = first ?c None"
    "lk_count b = bkt_count (buckets u ! i) + 1" "lk_mult b = expand_mult (buckets u ! i)"
    by (simp_all add: chain_sim_def Let_def b_def)
  from assms(9) obtain e where e: "h (adr x) = Some e" by (auto simp: lk_keyed_def)
  from lk_push_list [OF c(1) dc c(2) e] obtain h1 where
    p: "lk_push h b (Some (adr x)) = Some (h1, b\<lparr>lk_first := Some (adr x)\<rparr>)"
      "dseg h1 None (adr x # ?c) None" "same_vals h h1" "untouched (set (adr x # ?c)) h h1" by blast
  define v where "v = (buckets u ! i)\<lparr>hh_chain := x # hh_chain (buckets u ! i),
      bkt_count := bkt_count (buckets u ! i) + 1\<rparr>"
  have "chain_sim adr h1 (b\<lparr>lk_first := Some (adr x)\<rparr>) v"
    using p(2) c(3,4) by (simp add: chain_sim_def v_def)
  moreover have "set (adr x # ?c) \<inter> set (chain_elts adr (buckets u)) \<subseteq> adr ` set (hh_chain (buckets u ! i))"
    unfolding elts using inj(2) by auto
  ultimately have bs: "list_all2 (chain_sim adr h1)
      ((lk_buckets t)[i := b\<lparr>lk_first := Some (adr x)\<rparr>]) ((buckets u)[i := v])"
    by (intro chain_sim_update [OF sim i(1) du p(4)])
  define t1 where "t1 = t\<lparr>lk_buckets := (lk_buckets t)[i := b\<lparr>lk_first := Some (adr x)\<rparr>]\<rparr>"
  define u1 where "u1 = u\<lparr>buckets := (buckets u)[i := v]\<rparr>"
  have t1: "tbl_sim adr h1 t1 u1" "lk_tail t1 = lk_tail t"
    using assms(2) bs by (simp_all add: tbl_sim_def t1_def u1_def)
  have lk: "lk_add_to_bkt malloc i (Some (adr x)) h t w
      = (if (expand_mult v + 1) * 10 \<le> bkt_count v \<and> noexpand u1 = 0
         then lk_expand malloc h1 t1 w else Some (h1, t1, w))"
    using p(1) i(2) c(3,4) t1(1)
    by (simp add: lk_add_to_bkt_def bucket_at_def b_def [symmetric] t1_def [symmetric] v_def tbl_sim_def)
       (auto simp: t1_def)
  have ut: "hash_add_to_bkt malloc os u i x w
      = (if (expand_mult v + 1) * 10 \<le> bkt_count v \<and> noexpand u1 = 0
         then hash_expand_buckets malloc os u1 w else Some (u1, w))"
    by (simp add: hash_add_to_bkt_def Let_def v_def u1_def)
  have S1: "untouched (adr ` insert x S) h h1"
    by (rule untouched_mono [OF p(4)]) (use hc(1) in auto)
  show ?thesis
  proof (cases "(expand_mult v + 1) * 10 \<le> bkt_count v \<and> noexpand u1 = 0")
    case False
    with lk ut t1 p(3) S1 show ?thesis by auto
  next
    case True
    have h1: "bkts_hold os (num_buckets u) ((buckets u)[i := v]) (insert x S)"
      by (rule bkts_hold_push [OF assms(6,7,10) i(1)]) (simp_all add: v_def)
    have idx1: "hash_to_bkt hv (num_buckets u) < length ((buckets u)[i := v])" for hv using idx by simp
    have ch1: "set (concat (map hh_chain (buckets u1))) = insert x S"
      "distinct (concat (map hh_chain (buckets u1)))"
      using chains_of_buckets [OF h1 idx1] by (simp_all add: u1_def)
    have du1: "distinct (chain_elts adr (buckets u1))"
      using ch1 assms(8) by (simp add: distinct_map)
    have k1: "lk_keyed adr os h1 (set (concat (map hh_chain (buckets u1))))"
      unfolding ch1(1) by (rule lk_keyed_same [OF assms(9) p(3)])
    have m: "fst (malloc (sizeof_UT_hash_bucket * (unat (num_buckets u1) * 2)) w)
      \<longrightarrow> (\<forall>hv. hash_to_bkt hv (num_buckets u1 * 2) < unat (num_buckets u1) * 2)"
      using expand_indices [of malloc u1 w] assms(1,3,4) by (simp add: u1_def)
    have elts1: "set (chain_elts adr (buckets u1)) = adr ` insert x S" unfolding set_map ch1(1) ..
    note ex = expand_sim [of adr h1 t1 u1 os malloc w, OF t1(1) du1 k1 m, unfolded elts1]
    show ?thesis
    proof (cases "hash_expand_buckets malloc os u1 w")
      case None
      with ex have "lk_expand malloc h1 t1 w = None" by simp
      with None True show ?thesis by (simp add: lk ut)
    next
      case (Some r)
      obtain u' w' where r: "r = (u', w')" by fastforce
      from ex Some r obtain h' t' where e: "lk_expand malloc h1 t1 w = Some (h', t', w')"
        "tbl_sim adr h' t' u'" "lk_tail t' = lk_tail t1" "same_vals h1 h'"
        "untouched (adr ` insert x S) h1 h'" by auto
      have "same_vals h h'" by (rule same_vals_trans [OF p(3) e(4)])
      moreover have "untouched (adr ` insert x S) h h'" by (rule untouched_trans [OF S1 e(5)]) simp
      ultimately show ?thesis using Some r True e(1-3) t1(2) by (simp add: lk ut)
    qed
  qed
qed

end
