(* ===== verification/Uthash_Order.thy ===== *)
theory Uthash_Order
  imports Uthash_Refine
begin

text \<open>
  The macros of \<open>Uthash_Links\<close> on whole tables. \<open>lk_links_ok\<close> relates a table of links to a table of
  \<open>Uthash\<close> whose elements are addresses; \<open>lk_holds L kas\<close> says that \<open>L\<close> has the entries \<open>kas\<close>, pairs of
  a key and the address of an element, in application order. Every macro is then an operation on
  that list.
\<close>

section \<open>The relation\<close>

definition lk_links_ok :: "'e lk_hash \<Rightarrow> nat uthash \<Rightarrow> bool" where
  "lk_links_ok L h \<longleftrightarrow>
     (let adr = ut_deref h; os = map adr (app_order h)
      in distinct os \<and> lk_head L = first os None \<and> dseg (lk_app L) None os None
         \<and> lk_keyed adr (ut_objs h) (lk_bkt L) (set (app_order h))
         \<and> (case ut_tbl h of None \<Rightarrow> True
            | Some u \<Rightarrow> \<exists>t. lk_tbl L = Some t \<and> tbl_sim adr (lk_bkt L) t u \<and> lk_tail t = final None os))"

definition lk_holds :: "'e lk_hash \<Rightarrow> (bytes \<times> nat) list \<Rightarrow> bool" where
  "lk_holds L kas \<longleftrightarrow> (\<exists>h. ut_inv h \<and> ut_entries h = kas \<and> lk_links_ok L h)"

text \<open>An element in memory, with any handle.\<close>

definition in_memory :: "'e lk_hash \<Rightarrow> nat \<Rightarrow> bool" where
  "in_memory L a \<longleftrightarrow> lk_app L a \<noteq> None \<and> lk_bkt L a \<noteq> None"

text \<open>What the macros leave alone: the elements, and which handles there are.\<close>

definition same_elts :: "'e lk_hash \<Rightarrow> 'e lk_hash \<Rightarrow> bool" where
  "same_elts L L' \<longleftrightarrow>
     same_vals (lk_app L) (lk_app L') \<and> (\<forall>a. lk_bkt L' a = None \<longleftrightarrow> lk_bkt L a = None)"

lemma same_vals_None: "same_vals h h' \<Longrightarrow> h' a = None \<longleftrightarrow> h a = None"
  by (metis map_option_is_None same_vals_def)

lemma same_elts_trans: "same_elts L L' \<Longrightarrow> same_elts L' L'' \<Longrightarrow> same_elts L L''"
  by (auto simp: same_elts_def intro: same_vals_trans)

lemma same_elts_memory: "same_elts L L' \<Longrightarrow> in_memory L' a \<longleftrightarrow> in_memory L a"
  unfolding same_elts_def in_memory_def by (metis same_vals_None)

definition val_of :: "'e lk_hash \<Rightarrow> nat \<Rightarrow> 'e" where
  "val_of L a = el_val (the (lk_app L a))"

lemma same_elts_val: "same_elts L L' \<Longrightarrow> in_memory L a \<Longrightarrow> val_of L' a = val_of L a"
  by (simp add: same_elts_def in_memory_def val_of_def same_vals_the)

lemma snd_entries: "map snd (ut_entries h) = map (ut_deref h) (app_order h)"
  by (simp add: ut_entries_def ut_deref_def comp_def)

lemma lk_links_ok_entries: "lk_links_ok L h \<Longrightarrow> distinct (map snd (ut_entries h))"
  by (simp add: lk_links_ok_def Let_def snd_entries)

section \<open>Lookup, counting, clearing\<close>

lemma find_in_bkt_sim:
  assumes "lseg h (map adr c) None" and "lk_keyed adr os h (set c)"
  shows "lk_find_in_bkt h key hv (first (map adr c) None)
    = Some (map_option adr (hash_find_in_bkt os c key hv))"
  using assms
proof (induction c)
  case Nil
  then show ?case by (simp add: lk_find_in_bkt.simps)
next
  case (Cons x c)
  then obtain e where e: "h (adr x) = Some e" "el_next e = first (map adr c) None"
    "el_val e = (hh_key (os ! x), hh_hashv (os ! x))" by (auto simp: lk_keyed_def)
  have "lk_keyed adr os h (set c)" using Cons.prems(2) by (simp add: lk_keyed_def)
  with Cons e show ?case
    by (subst lk_find_in_bkt.simps) (auto simp: get_val_def get_next_def)
qed

lemma find_sim:
  assumes "ut_inv h" and "lk_links_ok L h"
  shows "lk_find key L = Some (map_option (ut_deref h) (hash_find h key))"
proof (cases "ut_tbl h")
  case None
  with assms show ?thesis
    by (auto simp: lk_find_def lk_find_byhashvalue_def hash_find_def hash_find_byhashvalue_def
        ut_inv_def ut_wf_def lk_links_ok_def Let_def)
next
  case (Some u)
  let ?adr = "ut_deref h" and ?i = "hash_to_bkt (hash_jen key) (num_buckets u)"
  from assms Some obtain t where t: "lk_tbl L = Some t" "tbl_sim ?adr (lk_bkt L) t u"
    by (auto simp: lk_links_ok_def Let_def)
  from assms(1) Some have wf: "tbl_wf (ut_objs h) (app_order h) u" "app_order h \<noteq> []"
    by (auto simp: ut_inv_def ut_wf_def)
  have i: "?i < length (buckets u)" by (rule tbl_wf_bucket(1) [OF wf(1)])
  then have i': "?i < length (lk_buckets t)"
    using t(2) by (auto simp: tbl_sim_def dest: list_all2_lengthD)
  have "chain_sim ?adr (lk_bkt L) (lk_buckets t ! ?i) (buckets u ! ?i)"
    using t(2) i' list_all2_nthD by (auto simp: tbl_sim_def)
  then have c: "lk_first (lk_buckets t ! ?i) = first (map ?adr (hh_chain (buckets u ! ?i))) None"
    "lseg (lk_bkt L) (map ?adr (hh_chain (buckets u ! ?i))) None"
    by (auto simp: chain_sim_def Let_def intro: dseg_lseg)
  have "lk_keyed ?adr (ut_objs h) (lk_bkt L) (set (hh_chain (buckets u ! ?i)))"
    using assms(2) tbl_wf_bucket(2) [OF wf(1)] by (auto simp: lk_links_ok_def Let_def lk_keyed_def)
  from find_in_bkt_sim [OF c(2) this] have
    "lk_find_in_bkt (lk_bkt L) key (hash_jen key) (lk_first (lk_buckets t ! ?i))
      = Some (map_option ?adr (hash_find h key))"
    using Some c(1) by (simp add: hash_find_def hash_find_byhashvalue_def)
  moreover have "lk_head L \<noteq> None"
    using assms(2) wf(2) by (cases "app_order h") (auto simp: lk_links_ok_def Let_def)
  moreover have "lk_num t = num_buckets u" using t(2) by (simp add: tbl_sim_def)
  ultimately show ?thesis
    using t(1) i' by (simp add: lk_find_def lk_find_byhashvalue_def bucket_at_def)
qed

lemma holds_find:
  assumes "lk_holds L kas"
  shows "lk_find key L = Some (map_of kas key)"
proof -
  from assms obtain h where h: "ut_inv h" "ut_entries h = kas" "lk_links_ok L h"
    by (auto simp: lk_holds_def)
  with find_sim [OF h(1,3)] hash_find_map_of [OF h(1), of key] show ?thesis by simp
qed

lemma holds_count:
  assumes "lk_holds L kas"
  shows "lk_cnt L = Some (of_nat (length kas))"
proof -
  from assms obtain h where h: "ut_inv h" "ut_entries h = kas" "lk_links_ok L h"
    by (auto simp: lk_holds_def)
  then have "length kas = length (app_order h)" by (auto simp: ut_entries_def)
  with h show ?thesis
    by (cases "app_order h")
      (auto simp: lk_cnt_def lk_links_ok_def Let_def ut_inv_def ut_wf_def tbl_wf_def tbl_sim_def
        split: option.splits)
qed

lemma holds_empty: "lk_head L = None \<Longrightarrow> lk_holds L []"
  unfolding lk_holds_def
  by (rule exI [of _ uthash_empty])
    (simp add: ut_inv_def ut_wf_def uthash_empty_def ut_entries_def lk_links_ok_def lk_keyed_def)

lemma holds_clear: "lk_holds (lk_clear L) []"
  by (rule holds_empty) (simp add: lk_clear_def)

lemma holds_head: "lk_holds L kas \<Longrightarrow> lk_head L = first (map snd kas) None"
  by (auto simp: lk_holds_def lk_links_ok_def Let_def snd_entries)

lemma holds_dseg: "lk_holds L kas \<Longrightarrow> dseg (lk_app L) None (map snd kas) None"
  by (auto simp: lk_holds_def lk_links_ok_def Let_def snd_entries)

lemma holds_distinct:
  "lk_holds L kas \<Longrightarrow> distinct (map fst kas)" "lk_holds L kas \<Longrightarrow> distinct (map snd kas)"
  by (auto simp: lk_holds_def ut_inv_def dest: lk_links_ok_entries)

section \<open>Adding\<close>

lemma tbl_sim_cong:
  assumes "tbl_sim adr h t u" and "untouched S h h'"
    and "\<And>i. i \<in> set (concat (map hh_chain (buckets u))) \<Longrightarrow> adr' i = adr i \<and> adr i \<notin> S"
  shows "tbl_sim adr' h' t u"
proof -
  have "list_all2 (chain_sim adr' h') (lk_buckets t) (buckets u)"
  proof (rule list_all2_all_nthI)
    from assms(1) show l: "length (lk_buckets t) = length (buckets u)"
      by (auto simp: tbl_sim_def dest: list_all2_lengthD)
    fix j assume j: "j < length (lk_buckets t)"
    with assms(1) have c: "chain_sim adr h (lk_buckets t ! j) (buckets u ! j)"
      by (auto simp: tbl_sim_def list_all2_conv_all_nth)
    have "set (hh_chain (buckets u ! j)) \<subseteq> set (concat (map hh_chain (buckets u)))"
      using nth_mem [OF j [unfolded l]] by auto
    with assms(3) have i: "adr' i = adr i" "adr i \<notin> S" if "i \<in> set (hh_chain (buckets u ! j))" for i
      using that by blast+
    then have m: "map adr' (hh_chain (buckets u ! j)) = map adr (hh_chain (buckets u ! j))" by simp
    have "adr ` set (hh_chain (buckets u ! j)) \<inter> S = {}" using i(2) by auto
    from chain_sim_untouched [OF assms(2) this c]
    show "chain_sim adr' h' (lk_buckets t ! j) (buckets u ! j)" by (simp add: chain_sim_def m)
  qed
  with assms(1) show ?thesis by (simp add: tbl_sim_def)
qed

lemma append_list:
  assumes "dseg h None os None" and "distinct os" and "os \<noteq> []" and "lk_tail t = final None os"
    and "a \<notin> set os" and "h a = Some e"
  obtains h' where "lk_append_list h t (Some a) = Some (h', t\<lparr>lk_tail := Some a\<rparr>)"
    "dseg h' None (os @ [a]) None" "same_vals h h'"
proof -
  let ?e = "e\<lparr>el_next := None, el_prev := final None os\<rparr>"
  let ?h = "h(a \<mapsto> ?e)"
  obtain h0 where h0: "set_next h (Some a) None = Some h0" "set_prev h0 (Some a) (final None os) = Some ?h"
    using assms(6) by (auto simp: set_next_def set_prev_def)
  have "dseg ?h None os None" using assms(1,5) by simp
  from behind [OF this assms(2,3)] obtain h' where
    h': "set_next ?h (final None os) (Some a) = Some h'" "dseg h' None os (Some a)" "same_vals ?h h'"
      "untouched {last os} ?h h'" by metis
  have "a \<noteq> last os" using assms(3,5) last_in_set [of os] by blast
  then have "h' a = Some ?e" using h'(4) by (simp add: untouched_def)
  with h'(2) have "dseg h' None (os @ [a]) None" by simp
  moreover have "lk_append_list h t (Some a) = Some (h', t\<lparr>lk_tail := Some a\<rparr>)"
    unfolding lk_append_list_def assms(4) using h0 h'(1) by simp
  moreover have "same_vals h ?h" using assms(6) by (rule same_vals_upd) simp
  then have "same_vals h h'" using h'(3) by (rule same_vals_trans)
  ultimately show thesis by (intro that)
qed

text \<open>The second half of an insertion: the new entry \<open>x\<close> is in the order already.\<close>

lemma add_to_table_sim:
  fixes h :: "nat uthash"
  defines "x \<equiv> length (ut_objs h)"
  assumes "mem_bounded malloc" and "tbl_wf os (app_order h) u" and "set (app_order h) \<subseteq> {..<x}"
    and "lk_tbl L = Some t" and "tbl_sim adr (lk_bkt L) t u" and "hv = hh_hashv (os ! x)"
    and "mset as = mset (app_order h @ [x])" and "distinct (map adr as)"
    and "lk_keyed adr os (lk_bkt L) (set as)" and "adr = (\<lambda>i. elt (os ! i))"
    and "lk_head L = first (map adr as) None" and "dseg (lk_app L) None (map adr as) None"
    and "lk_tail t = final None (map adr as)"
  shows "case hash_add_to_table malloc os u hv x w of
      None \<Rightarrow> lk_add_to_table malloc hv (Some (adr x)) L w = None
    | Some (u', w') \<Rightarrow> \<exists>L'. lk_add_to_table malloc hv (Some (adr x)) L w = Some (L', w')
        \<and> lk_links_ok L' \<lparr>ut_objs = os, app_order = as, ut_tbl = Some u'\<rparr> \<and> same_elts L L'"
proof -
  let ?u = "u\<lparr>num_items := num_items u + 1\<rparr>" and ?t = "t\<lparr>lk_items := lk_items t + 1\<rparr>"
  let ?i = "hash_to_bkt hv (num_buckets u)" and ?S = "set (app_order h)"
  have as: "set as = insert x ?S" using arg_cong [OF assms(8), of set_mset] by simp
  have x: "x \<notin> ?S" using assms(4) by auto
  have inj: "inj_on adr (insert x ?S)" using assms(9) unfolding as [symmetric] distinct_map by blast
  have k: "lk_keyed adr os (lk_bkt L) (insert x ?S)" using assms(10) by (simp add: as)
  have sim: "tbl_sim adr (lk_bkt L) ?t ?u" using assms(6) by (simp add: tbl_sim_def)
  have w: "unat (log2_num_buckets ?u) < 32" "num_buckets ?u = 2 ^ unat (log2_num_buckets ?u)"
    "length (buckets ?u) = 2 ^ unat (log2_num_buckets ?u)" "bkts_hold os (num_buckets ?u) (buckets ?u) ?S"
    using assms(3) unfolding tbl_wf_def by simp_all metis
  have n: "lk_num t = num_buckets u" using assms(6) by (simp add: tbl_sim_def)
  have i: "?i = hash_to_bkt (hh_hashv (os ! x)) (num_buckets ?u)" by (simp add: assms(7))
  note c = add_to_bkt_sim [OF assms(2) sim w x inj k i, of w]
  have ut: "hash_add_to_table malloc os u hv x w = hash_add_to_bkt malloc os ?u ?i x w"
    by (simp add: hash_add_to_table_def Let_def)
  have lk: "lk_add_to_table malloc hv (Some (adr x)) L w
      = do { (h, t, w) \<leftarrow> lk_add_to_bkt malloc ?i (Some (adr x)) (lk_bkt L) ?t w;
             Some (L\<lparr>lk_bkt := h, lk_tbl := Some t\<rparr>, w) }"
    using assms(5) n by (simp add: lk_add_to_table_def Let_def)
  show ?thesis
  proof (cases "hash_add_to_bkt malloc os ?u ?i x w")
    case None
    with c show ?thesis by (simp add: ut lk)
  next
    case (Some r)
    obtain u' w' where r: "r = (u', w')" by fastforce
    from c Some r obtain h' t' where a: "lk_add_to_bkt malloc ?i (Some (adr x)) (lk_bkt L) ?t w = Some (h', t', w')"
      "tbl_sim adr h' t' u'" "lk_tail t' = lk_tail ?t" "same_vals (lk_bkt L) h'" by auto
    let ?L = "L\<lparr>lk_bkt := h', lk_tbl := Some t'\<rparr>"
    have ad: "ut_deref \<lparr>ut_objs = os, app_order = as, ut_tbl = Some u'\<rparr> = adr"
      by (rule ext) (simp add: ut_deref_def assms(11))
    have "lk_links_ok ?L \<lparr>ut_objs = os, app_order = as, ut_tbl = Some u'\<rparr>"
      unfolding lk_links_ok_def Let_def ad
      using assms(9,12-14) a(2,3) lk_keyed_same [OF assms(10) a(4)] by simp
    moreover have "same_elts L ?L" using same_vals_None [OF a(4)] by (simp add: same_elts_def)
    ultimately show ?thesis using Some r a(1) by (simp add: ut lk)
  qed
qed

text \<open>The order has got the element \<open>a\<close> between \<open>os1\<close> and \<open>os2\<close>, or the table was started with it.\<close>

definition placed ::
    "'w allocator \<Rightarrow> nat \<Rightarrow> 'e lk_hash \<Rightarrow> nat list \<Rightarrow> nat list \<Rightarrow> 'w \<Rightarrow> ('e lk_hash \<times> 'w) option \<Rightarrow> bool" where
  "placed malloc a L os1 os2 w r \<longleftrightarrow>
     (if lk_head L = None then r = lk_start malloc (Some a) L w
      else \<exists>app head t. lk_tbl L = Some t \<and> head = first (os1 @ a # os2) None
        \<and> r = Some (L\<lparr>lk_app := app, lk_head := head,
              lk_tbl := Some (t\<lparr>lk_tail := final None (os1 @ a # os2)\<rparr>)\<rparr>, w)
        \<and> dseg app None (os1 @ a # os2) None \<and> same_vals (lk_app L) app)"

lemma start_sim:
  assumes "lk_app L a = Some e"
  shows "\<exists>app. dseg app None [a] None \<and> same_vals (lk_app L) app
    \<and> lk_start malloc (Some a) L w = (case lk_make_table malloc (Some a) w of None \<Rightarrow> None
        | Some (t, w) \<Rightarrow> Some (L\<lparr>lk_app := app, lk_head := Some a, lk_tbl := Some t\<rparr>, w))"
proof -
  let ?h = "(lk_app L)(a \<mapsto> e\<lparr>el_next := None, el_prev := None\<rparr>)"
  obtain h0 where h0: "set_next (lk_app L) (Some a) None = Some h0" "set_prev h0 (Some a) None = Some ?h"
    using assms by (auto simp: set_next_def set_prev_def)
  have "lk_start malloc (Some a) L w = (case lk_make_table malloc (Some a) w of None \<Rightarrow> None
        | Some (t, w) \<Rightarrow> Some (L\<lparr>lk_app := ?h, lk_head := Some a, lk_tbl := Some t\<rparr>, w))"
    unfolding lk_start_def h0 Option.bind.simps
    by (cases "lk_make_table malloc (Some a) w") (simp_all add: split_beta)
  moreover have "same_vals (lk_app L) ?h" using assms by (rule same_vals_upd) simp
  moreover have "dseg ?h None [a] None" by simp
  ultimately show ?thesis by blast
qed

lemma add_common:
  fixes h :: "nat uthash"
  assumes "mem_bounded malloc" and "ut_inv h" and "lk_links_ok L h" and "in_memory L a"
    and "a \<notin> set (map (ut_deref h) (app_order h))" and "app_order h = ps @ qs"
    and "set_val (lk_bkt L) (Some a) (key, hash_jen key) = Some B"
    and "placed malloc a (L\<lparr>lk_bkt := B\<rparr>) (map (ut_deref h) ps) (map (ut_deref h) qs) w r"
  shows "case hash_add malloc key a h w of
      None \<Rightarrow> do { (L, w) \<leftarrow> r; lk_add_to_table malloc (hash_jen key) (Some a) L w } = None
    | Some (h', w') \<Rightarrow> \<exists>L'. do { (L, w) \<leftarrow> r; lk_add_to_table malloc (hash_jen key) (Some a) L w } = Some (L', w')
        \<and> lk_links_ok L' (h'\<lparr>app_order := ps @ length (ut_objs h) # qs\<rparr>) \<and> same_elts L L'"
proof -
  let ?x = "length (ut_objs h)" and ?hv = "hash_jen key" and ?adr0 = "ut_deref h"
  let ?os = "ut_objs h @ [\<lparr>hh_key = key, hh_hashv = ?hv, elt = a\<rparr>]"
  let ?as = "ps @ ?x # qs"
  define adr where "adr = (\<lambda>i. elt (?os ! i))"
  from assms(4) obtain e m where mem: "lk_app L a = Some e" "lk_bkt L a = Some m"
    by (auto simp: in_memory_def)
  with assms(7) have B: "B = (lk_bkt L)(a \<mapsto> m\<lparr>el_val := (key, ?hv)\<rparr>)" by (simp add: set_val_def)
  have lt: "set (app_order h) \<subseteq> {..<?x}" using assms(2) by (simp add: ut_inv_def ut_wf_def)
  have adr: "adr ?x = a" "\<And>i. i \<in> set (app_order h) \<Longrightarrow> adr i = ?adr0 i"
    using lt by (auto simp: adr_def ut_deref_def nth_append)
  have os: "\<And>i. i \<in> set (app_order h) \<Longrightarrow> ?os ! i = ut_objs h ! i" using lt by (auto simp: nth_append)
  have mp: "map adr ps = map ?adr0 ps" "map adr qs = map ?adr0 qs" using adr(2) assms(6) by simp_all
  note L = assms(3) [unfolded lk_links_ok_def Let_def]
  have d: "distinct (map adr ?as)" using L assms(5) by (auto simp: mp adr(1) assms(6))
  have k0: "lk_keyed ?adr0 (ut_objs h) (lk_bkt L) (set (app_order h))" using L by blast
  have k: "lk_keyed adr ?os B (set ?as)"
    unfolding lk_keyed_def
  proof
    fix i assume "i \<in> set ?as"
    then consider "i = ?x" | "i \<in> set (app_order h)" by (auto simp: assms(6))
    then show "map_option el_val (B (adr i)) = Some (hh_key (?os ! i), hh_hashv (?os ! i))"
    proof cases
      case 1
      then show ?thesis by (simp add: adr(1) B)
    next
      case 2
      then have "?adr0 i \<noteq> a" using assms(5) by auto
      with 2 k0 show ?thesis by (simp add: lk_keyed_def adr(2) os B)
    qed
  qed
  have ms: "mset ?as = mset (app_order h @ [?x])" by (simp add: assms(6))
  have se: "same_elts L M" if "same_elts (L\<lparr>lk_bkt := B, lk_app := app, lk_head := hd, lk_tbl := t\<rparr>) M"
    "same_vals (lk_app L) app" for app hd t M
    using that mem(2) by (auto simp: same_elts_def B intro: same_vals_trans)
  have ad: "hash_add malloc key a h w
      = (case (case ut_tbl h of None \<Rightarrow> hash_make_table malloc w | Some t \<Rightarrow> Some (t, w)) of
           None \<Rightarrow> None
         | Some (u, w) \<Rightarrow> (case hash_add_to_table malloc ?os u ?hv ?x w of None \<Rightarrow> None
             | Some (u', w') \<Rightarrow> Some (\<lparr>ut_objs = ?os, app_order = app_order h @ [?x], ut_tbl = Some u'\<rparr>, w')))"
    by (auto simp: hash_add_def hash_add_keyptr_byhashvalue_def Let_def split: option.splits)
  have main: ?thesis
    if u: "(case ut_tbl h of None \<Rightarrow> hash_make_table malloc w | Some t \<Rightarrow> Some (t, w)) = Some (u, w1)"
      and r: "r = Some (L\<lparr>lk_bkt := B, lk_app := app, lk_head := first (map adr ?as) None, lk_tbl := Some t\<rparr>, w1)"
      and t: "tbl_sim adr B t u" "lk_tail t = final None (map adr ?as)"
      and app: "dseg app None (map adr ?as) None" "same_vals (lk_app L) app"
      and wf: "tbl_wf ?os (app_order h) u" for u w1 app t
  proof -
    let ?L = "L\<lparr>lk_bkt := B, lk_app := app, lk_head := first (map adr ?as) None, lk_tbl := Some t\<rparr>"
    have hv: "?hv = hh_hashv (?os ! ?x)" by simp
    have c: "case hash_add_to_table malloc ?os u ?hv ?x w1 of
        None \<Rightarrow> lk_add_to_table malloc ?hv (Some (adr ?x)) ?L w1 = None
      | Some (u', w') \<Rightarrow> \<exists>L'. lk_add_to_table malloc ?hv (Some (adr ?x)) ?L w1 = Some (L', w')
          \<and> lk_links_ok L' \<lparr>ut_objs = ?os, app_order = ?as, ut_tbl = Some u'\<rparr> \<and> same_elts ?L L'"
      by (rule add_to_table_sim [OF assms(1) wf lt _ _ hv ms d _ adr_def]) (use t k app in simp_all)
    show ?thesis
    proof (cases "hash_add_to_table malloc ?os u ?hv ?x w1")
      case None
      with c show ?thesis by (simp add: ad u r adr(1))
    next
      case (Some q)
      obtain u' w' where q: "q = (u', w')" by fastforce
      from c Some q obtain L' where L': "lk_add_to_table malloc ?hv (Some a) ?L w1 = Some (L', w')"
        "lk_links_ok L' \<lparr>ut_objs = ?os, app_order = ?as, ut_tbl = Some u'\<rparr>" "same_elts ?L L'"
        by (auto simp: adr(1))
      have "same_elts L L'" by (rule se [OF L'(3) app(2)])
      with Some q L'(1,2) show ?thesis by (simp add: ad u r)
    qed
  qed
  show ?thesis
  proof (cases "ut_tbl h")
    case None
    then have e: "app_order h = []" "lk_head L = None"
      using assms(2) L by (auto simp: ut_inv_def ut_wf_def)
    have r: "r = lk_start malloc (Some a) (L\<lparr>lk_bkt := B\<rparr>) w" using assms(8) e by (simp add: placed_def)
    obtain app where app: "dseg app None [a] None" "same_vals (lk_app L) app"
      "lk_start malloc (Some a) (L\<lparr>lk_bkt := B\<rparr>) w = (case lk_make_table malloc (Some a) w of None \<Rightarrow> None
        | Some (t, w) \<Rightarrow> Some ((L\<lparr>lk_bkt := B\<rparr>)\<lparr>lk_app := app, lk_head := Some a, lk_tbl := Some t\<rparr>, w))"
      using start_sim [of "L\<lparr>lk_bkt := B\<rparr>" a e malloc w] mem(1) by auto
    note mk = make_table_sim [where malloc = malloc and w = w and a = "Some a" and adr = adr and h = B]
    show ?thesis
    proof (cases "hash_make_table malloc w")
      case None
      with mk show ?thesis using \<open>ut_tbl h = None\<close> app(3) by (simp add: ad r)
    next
      case (Some q)
      obtain u w1 where q: "q = (u, w1)" by fastforce
      with mk Some obtain t where t: "lk_make_table malloc (Some a) w = Some (t, w1)" "tbl_sim adr B t u"
        "lk_tail t = Some a" by auto
      have "tbl_wf ?os (app_order h) u" using Some q e by (simp add: hash_make_table_wf)
      moreover have "map adr ?as = [a]" using e assms(6) adr(1) by simp
      ultimately show ?thesis
        using Some q \<open>ut_tbl h = None\<close> app t by (intro main [where u = u and ?w1.0 = w1 and app = app and t = t]) (simp_all add: r)
    qed
  next
    case (Some u)
    with L obtain t where t: "lk_tbl L = Some t" "tbl_sim ?adr0 (lk_bkt L) t u" by auto
    from assms(2) Some have wf: "tbl_wf (ut_objs h) (app_order h) u" "app_order h \<noteq> []"
      by (auto simp: ut_inv_def ut_wf_def)
    have wf': "tbl_wf ?os (app_order h) u" by (rule tbl_wf_objs_append [OF wf(1) lt])
    have hd: "lk_head L \<noteq> None" using L wf(2) by (cases "app_order h") auto
    obtain app where r: "r = Some (L\<lparr>lk_bkt := B, lk_app := app, lk_head := first (map adr ?as) None,
          lk_tbl := Some (t\<lparr>lk_tail := final None (map adr ?as)\<rparr>)\<rparr>, w)"
      and app: "dseg app None (map adr ?as) None" "same_vals (lk_app L) app"
      using assms(8) hd t(1) by (auto simp: placed_def mp adr(1))
    have "untouched {a} (lk_bkt L) B" by (simp add: untouched_def B)
    moreover have "set (concat (map hh_chain (buckets u))) = set (app_order h)"
      using wf(1) tbl_wf_bucket(1) [OF wf(1)] by (intro chains_of_buckets) (auto simp: tbl_wf_def)
    ultimately have "tbl_sim adr B t u"
      using assms(5) adr(2) by (intro tbl_sim_cong [OF t(2)]) auto
    then have "tbl_sim adr B (t\<lparr>lk_tail := final None (map adr ?as)\<rparr>) u" by (simp add: tbl_sim_def)
    then show ?thesis using main [OF _ r _ _ app wf'] Some by simp
  qed
qed

text \<open>At the end, and before the first greater element.\<close>

lemma lk_links_ok_tbl:
  assumes "ut_inv h" and "lk_links_ok L h"
  shows "lk_head L = None \<longleftrightarrow> app_order h = []"
    and "app_order h \<noteq> [] \<Longrightarrow> \<exists>t. lk_tbl L = Some t \<and> lk_tail t = final None (map (ut_deref h) (app_order h))"
proof -
  show "lk_head L = None \<longleftrightarrow> app_order h = []"
    using assms(2) by (cases "app_order h") (auto simp: lk_links_ok_def Let_def)
  show "\<exists>t. lk_tbl L = Some t \<and> lk_tail t = final None (map (ut_deref h) (app_order h))"
    if "app_order h \<noteq> []"
    using assms that by (auto simp: lk_links_ok_def Let_def ut_inv_def ut_wf_def split: option.splits)
qed

lemma placed_append:
  assumes "ut_inv h" and "lk_links_ok L h" and "in_memory L a"
    and "a \<notin> set (map (ut_deref h) (app_order h))"
  shows "placed malloc a (L\<lparr>lk_bkt := B\<rparr>) (map (ut_deref h) (app_order h)) [] w
    (if lk_head L = None then lk_start malloc (Some a) (L\<lparr>lk_bkt := B\<rparr>) w
     else do { t \<leftarrow> lk_tbl L; (app, t) \<leftarrow> lk_append_list (lk_app L) t (Some a);
               Some (L\<lparr>lk_bkt := B, lk_app := app, lk_tbl := Some t\<rparr>, w) })"
proof (cases "app_order h = []")
  case True
  then show ?thesis using lk_links_ok_tbl(1) [OF assms(1,2)] by (simp add: placed_def)
next
  case False
  let ?os = "map (ut_deref h) (app_order h)"
  obtain t where t: "lk_tbl L = Some t" "lk_tail t = final None ?os"
    using lk_links_ok_tbl(2) [OF assms(1,2) False] by blast
  from assms(3) obtain e where e: "lk_app L a = Some e" by (auto simp: in_memory_def)
  note L = assms(2) [unfolded lk_links_ok_def Let_def]
  have os: "dseg (lk_app L) None ?os None" "distinct ?os" "?os \<noteq> []" "lk_head L = first ?os None"
    using L False by blast+
  obtain app where app: "lk_append_list (lk_app L) t (Some a) = Some (app, t\<lparr>lk_tail := Some a\<rparr>)"
    "dseg app None (?os @ [a]) None" "same_vals (lk_app L) app"
    using append_list [OF os(1-3) t(2) assms(4) e] by metis
  have "first (?os @ [a]) None = lk_head L" using os(3,4) by (cases "app_order h") simp_all
  then have "L\<lparr>lk_bkt := B, lk_app := app, lk_tbl := Some (t\<lparr>lk_tail := Some a\<rparr>)\<rparr>
      = L\<lparr>lk_bkt := B, lk_app := app, lk_head := first (?os @ [a]) None, lk_tbl := Some (t\<lparr>lk_tail := Some a\<rparr>)\<rparr>"
    by (intro lk_hash.equality) simp_all
  with t(1) app lk_links_ok_tbl(1) [OF assms(1,2)] False show ?thesis
    by (auto simp: placed_def)
qed

lemma inner_loop:
  assumes "lseg h os None" and "os \<noteq> []" and "get_val h (Some a) = Some y"
  shows "lk_inner_loop cmp h (Some a) (first os None)
    = Some (first (dropWhile (\<lambda>b. cmp (el_val (the (h b))) y \<le> 0) os) None)"
  using assms(1,2)
proof (induction os)
  case (Cons b os)
  then obtain e where e: "h b = Some e" "el_next e = first os None" by auto
  then have g: "get_val h (Some b) = Some (el_val e)" "get_next h (Some b) = Some (first os None)"
    by (simp_all add: get_val_def get_next_def)
  show ?case
  proof (cases "cmp (el_val e) y > 0")
    case True
    with e(1) g assms(3) show ?thesis by (subst lk_inner_loop.simps) simp
  next
    case False
    with e(1) g assms(3) Cons show ?thesis by (subst lk_inner_loop.simps; cases os) auto
  qed
qed simp

lemma insert_before:
  assumes "dseg h None (ps @ q # qs) None" and "distinct (ps @ q # qs)" and "a \<notin> set (ps @ q # qs)"
    and "h a = Some e"
  obtains h1 h2 h3 h4 where "set_next h (Some a) (Some q) = Some h1" "get_prev h1 (Some q) = Some (final None ps)"
    "set_prev h1 (Some a) (final None ps) = Some h2"
    "ps = [] \<and> h3 = h2 \<or> ps \<noteq> [] \<and> set_next h2 (final None ps) (Some a) = Some h3"
    "set_prev h3 (Some q) (Some a) = Some h4" "dseg h4 None (ps @ a # q # qs) None" "same_vals h h4"
proof -
  let ?e = "e\<lparr>el_next := Some q, el_prev := final None ps\<rparr>"
  let ?h2 = "h(a \<mapsto> ?e)"
  obtain h1 where h1: "set_next h (Some a) (Some q) = Some h1" "set_prev h1 (Some a) (final None ps) = Some ?h2"
    "\<forall>b. b \<noteq> a \<longrightarrow> h1 b = h b"
    using assms(4) by (auto simp: set_next_def set_prev_def)
  have "get_prev h1 (Some q) = Some (final None ps)"
    using assms(1,3) h1(3) by (auto simp: get_prev_def)
  moreover have d2: "dseg ?h2 None ps (Some q)" "dseg ?h2 (final None ps) (q # qs) None"
    using assms(1,3) by auto
  obtain h3 where h3: "ps = [] \<and> h3 = ?h2 \<or> ps \<noteq> [] \<and> set_next ?h2 (final None ps) (Some a) = Some h3"
    "dseg h3 None ps (Some a)" "same_vals ?h2 h3" "untouched (set ps) ?h2 h3"
  proof (cases "ps = []")
    case True
    then show thesis by (intro that [of ?h2]) (simp_all add: untouched_def)
  next
    case False
    have "distinct ps" using assms(2) by simp
    from behind [OF d2(1) this False] obtain h3 where
      "set_next ?h2 (final None ps) (Some a) = Some h3" "dseg h3 None ps (Some a)" "same_vals ?h2 h3"
      "untouched {last ps} ?h2 h3" by metis
    with False show thesis by (intro that [of h3]) (auto elim: untouched_mono)
  qed
  have d3: "dseg h3 (final None ps) (q # qs) None"
    using d2(2) h3(4) assms(2) by (subst dseg_untouched) auto
  have "distinct (q # qs)" using assms(2) by simp
  from in_front [OF d3 this] obtain h4 where
    h4: "set_prev h3 (Some q) (Some a) = Some h4" "dseg h4 (Some a) (q # qs) None" "same_vals h3 h4"
      "untouched {q} h3 h4" by auto
  have "dseg h4 None ps (Some a)" using h3(2) h4(4) assms(2) by (subst dseg_untouched) auto
  moreover have "h4 a = Some ?e" using h3(4) h4(4) assms(3) by (simp add: untouched_def)
  ultimately have "dseg h4 None (ps @ a # q # qs) None" using h4(2) by simp
  moreover have "same_vals h ?h2" using assms(4) by (rule same_vals_upd) simp
  then have "same_vals h h4" using h3(3) h4(3) same_vals_trans by blast
  ultimately show thesis using h1(1,2) h3(1) h4(1) \<open>get_prev h1 (Some q) = _\<close> by (intro that)
qed

text \<open>The list of addresses after an insertion in order.\<close>

definition not_greater :: "('e \<Rightarrow> 'e \<Rightarrow> int) \<Rightarrow> 'e lk_hash \<Rightarrow> nat \<Rightarrow> nat \<Rightarrow> bool" where
  "not_greater cmp L a b \<longleftrightarrow> cmp (val_of L b) (val_of L a) \<le> 0"

lemma placed_inorder:
  assumes "ut_inv h" and "lk_links_ok L h" and "in_memory L a"
    and "a \<notin> set (map (ut_deref h) (app_order h))"
    and P_def: "P = (\<lambda>i. not_greater cmp L a (ut_deref h i))"
  shows "\<exists>r. lk_add_byhashvalue_inorder malloc cmp key hv (Some a) L w
      = do { B \<leftarrow> set_val (lk_bkt L) (Some a) (key, hv); (L, w) \<leftarrow> r B; lk_add_to_table malloc hv (Some a) L w }
    \<and> (\<forall>B. placed malloc a (L\<lparr>lk_bkt := B\<rparr>) (map (ut_deref h) (takeWhile P (app_order h)))
          (map (ut_deref h) (dropWhile P (app_order h))) w (r B))"
proof -
  define r where "r B = (let L = L\<lparr>lk_bkt := B\<rparr> in if lk_head L = None then lk_start malloc (Some a) L w
     else do {
       iter \<leftarrow> lk_inner_loop cmp (lk_app L) (Some a) (lk_head L);
       if iter \<noteq> None then do {
         app \<leftarrow> set_next (lk_app L) (Some a) iter;
         p \<leftarrow> get_prev app iter;
         app \<leftarrow> set_prev app (Some a) p;
         (app, head) \<leftarrow> (if p \<noteq> None then do { app \<leftarrow> set_next app p (Some a); Some (app, lk_head L) }
                        else Some (app, Some a));
         app \<leftarrow> set_prev app iter (Some a);
         Some (L\<lparr>lk_app := app, lk_head := head\<rparr>, w)
       } else do {
         t \<leftarrow> lk_tbl L; (app, t) \<leftarrow> lk_append_list (lk_app L) t (Some a);
         Some (L\<lparr>lk_app := app, lk_tbl := Some t\<rparr>, w) } })" for B
  have "placed malloc a (L\<lparr>lk_bkt := B\<rparr>) (map (ut_deref h) (takeWhile P (app_order h)))
          (map (ut_deref h) (dropWhile P (app_order h))) w (r B)" for B
  proof (cases "app_order h = []")
    case True
    then show ?thesis using lk_links_ok_tbl(1) [OF assms(1,2)] by (simp add: placed_def r_def)
  next
    case False
    let ?os = "map (ut_deref h) (app_order h)"
    let ?Q = "\<lambda>b. cmp (el_val (the (lk_app L b))) (val_of L a) \<le> 0"
    obtain t where t: "lk_tbl L = Some t" "lk_tail t = final None ?os"
      using lk_links_ok_tbl(2) [OF assms(1,2) False] by blast
    from assms(3) obtain e where e: "lk_app L a = Some e" by (auto simp: in_memory_def)
    note L = assms(2) [unfolded lk_links_ok_def Let_def]
    have os: "dseg (lk_app L) None ?os None" "distinct ?os" "?os \<noteq> []" "lk_head L = first ?os None"
      using L False by blast+
    have P: "P = (\<lambda>i. ?Q (ut_deref h i))" by (simp add: P_def not_greater_def val_of_def)
    have pq: "map (ut_deref h) (takeWhile P (app_order h)) = takeWhile ?Q ?os"
      "map (ut_deref h) (dropWhile P (app_order h)) = dropWhile ?Q ?os"
      by (simp_all add: P takeWhile_map dropWhile_map comp_def)
    have "get_val (lk_app L) (Some a) = Some (val_of L a)" using e by (simp add: get_val_def val_of_def)
    from inner_loop [OF dseg_lseg [OF os(1)] os(3) this]
    have it: "lk_inner_loop cmp (lk_app L) (Some a) (lk_head L) = Some (first (dropWhile ?Q ?os) None)"
      using os(4) by simp
    have hd: "lk_head L \<noteq> None" using lk_links_ok_tbl(1) [OF assms(1,2)] False by simp
    show ?thesis
    proof (cases "dropWhile ?Q ?os")
      case Nil
      then have "takeWhile ?Q ?os = ?os" by (simp add: takeWhile_eq_all_conv dropWhile_eq_Nil_conv)
      moreover have "r B = (if lk_head L = None then lk_start malloc (Some a) (L\<lparr>lk_bkt := B\<rparr>) w
          else do { t \<leftarrow> lk_tbl L; (app, t) \<leftarrow> lk_append_list (lk_app L) t (Some a);
               Some (L\<lparr>lk_bkt := B, lk_app := app, lk_tbl := Some t\<rparr>, w) })"
        using it Nil by (simp add: r_def Let_def)
      ultimately show ?thesis
        using placed_append [OF assms(1-4), of malloc B w] by (simp only: pq Nil)
    next
      case (Cons q qs)
      let ?ps = "takeWhile ?Q ?os"
      have split: "?os = ?ps @ q # qs" using takeWhile_dropWhile_id [of ?Q ?os] Cons by simp
      have d: "dseg (lk_app L) None (?ps @ q # qs) None" "distinct (?ps @ q # qs)" "a \<notin> set (?ps @ q # qs)"
        using os(1,2) assms(4) unfolding split [symmetric] by blast+
      obtain h1 h2 h3 h4 where i: "set_next (lk_app L) (Some a) (Some q) = Some h1"
        "get_prev h1 (Some q) = Some (final None ?ps)" "set_prev h1 (Some a) (final None ?ps) = Some h2"
        "?ps = [] \<and> h3 = h2 \<or> ?ps \<noteq> [] \<and> set_next h2 (final None ?ps) (Some a) = Some h3"
        "set_prev h3 (Some q) (Some a) = Some h4" "dseg h4 None (?ps @ a # q # qs) None" "same_vals (lk_app L) h4"
        by (rule insert_before [OF d e])
      have "(final None ?ps = None) = (?ps = [])" by (simp add: final_def)
      moreover have "first (?ps @ a # q # qs) None = (if ?ps = [] then Some a else lk_head L)"
        using os(4) split by (cases ?ps) auto
      ultimately have "r B = Some (L\<lparr>lk_bkt := B, lk_app := h4, lk_head := first (?ps @ a # q # qs) None\<rparr>, w)"
        using hd it Cons i(1-5) by (auto simp: r_def Let_def)
      moreover have "final None (?ps @ a # q # qs) = final None (?ps @ q # qs)" by simp
      then have "final None (?ps @ a # q # qs) = lk_tail t" unfolding split [symmetric] t(2) .
      then have "L\<lparr>lk_bkt := B, lk_app := h4, lk_head := first (?ps @ a # q # qs) None\<rparr>
          = L\<lparr>lk_bkt := B, lk_app := h4, lk_head := first (?ps @ a # q # qs) None,
              lk_tbl := Some (t\<lparr>lk_tail := final None (?ps @ a # q # qs)\<rparr>)\<rparr>"
        using t(1) by (intro lk_hash.equality) simp_all
      ultimately show ?thesis
        unfolding pq Cons placed_def using hd t(1) i(6,7) by auto
    qed
  qed
  moreover have "lk_add_byhashvalue_inorder malloc cmp key hv (Some a) L w
      = do { B \<leftarrow> set_val (lk_bkt L) (Some a) (key, hv); (L, w) \<leftarrow> r B; lk_add_to_table malloc hv (Some a) L w }"
    by (simp add: lk_add_byhashvalue_inorder_def r_def Let_def)
  ultimately show ?thesis by blast
qed

end
