(* ===== verification/Uthash_Tables.thy ===== *)
theory Uthash_Tables
  imports Uthash_Order
begin

text \<open>
  The macros of \<open>uthash.h\<close> on a table of links, each as an operation on the list of its entries:
  adding at the end and in order, deleting, replacing, sorting, iterating, and the consistency
  check, which a table never fails.
\<close>

section \<open>Adding\<close>

lemma reorder_inv:
  assumes "ut_inv h" and "mset as = mset (app_order h)"
  shows "ut_inv (h\<lparr>app_order := as\<rparr>)"
proof -
  have "set as = set (app_order h)" "length as = length (app_order h)" "as = [] \<longleftrightarrow> app_order h = []"
    using assms(2) mset_eq_setD mset_eq_length by (blast, blast, metis mset_zero_iff)
  moreover have "distinct (map f as) \<longleftrightarrow> distinct (map f (app_order h))" for f :: "nat \<Rightarrow> 'x"
    by (rule mset_eq_imp_distinct_iff) (simp add: assms(2))
  moreover have "distinct as \<longleftrightarrow> distinct (app_order h)"
    by (rule mset_eq_imp_distinct_iff [OF assms(2)])
  ultimately show ?thesis
    using assms(1) by (auto simp: ut_inv_def ut_wf_def tbl_wf_def ut_entries_def comp_def split: option.splits)
qed

lemma map_fst_entries: "map fst (ut_entries h) = map (\<lambda>i. hh_key (ut_objs h ! i)) (app_order h)"
  by (simp add: ut_entries_def comp_def)

text \<open>The insertion of \<open>a\<close> at a place of the order, and what it returns.\<close>

lemma hash_add_shape:
  assumes "hash_add malloc key a h w = Some (h', w')"
  shows "app_order h' = app_order h @ [length (ut_objs h)]"
    and "ut_objs h' = ut_objs h @ [\<lparr>hh_key = key, hh_hashv = hash_jen key, elt = a\<rparr>]"
  using assms by (auto simp: hash_add_def hash_add_keyptr_byhashvalue_def Let_def Option.bind_eq_Some_conv)

lemma add_at:
  assumes "mem_bounded malloc" and "ut_inv h" and "lk_links_ok L h" and "in_memory L a"
    and "a \<notin> set (map (ut_deref h) (app_order h))" and "key \<notin> set (map fst (ut_entries h))"
    and "app_order h = ps @ qs" and "set_val (lk_bkt L) (Some a) (key, hash_jen key) = Some B"
    and "placed malloc a (L\<lparr>lk_bkt := B\<rparr>) (map (ut_deref h) ps) (map (ut_deref h) qs) w r"
  defines "res \<equiv> do { (L, w) \<leftarrow> r; lk_add_to_table malloc (hash_jen key) (Some a) L w }"
  shows "res = None \<longleftrightarrow> hash_add malloc key a h w = None"
    and "hash_add malloc key a h w = Some (h', w') \<Longrightarrow> \<exists>L' h''. res = Some (L', w') \<and> lk_links_ok L' h''
      \<and> ut_inv h'' \<and> ut_tbl h'' = ut_tbl h' \<and> same_elts L L'
      \<and> ut_entries h'' = take (length ps) (ut_entries h) @ (key, a) # drop (length ps) (ut_entries h)"
proof -
  note c = add_common [OF assms(1-5) assms(7-9), folded res_def]
  have inv: "ut_inv h'" "ut_entries h' = ut_entries h @ [(key, a)]"
    if h': "hash_add malloc key a h w = Some (h', w')" for h' w'
  proof -
    have "hash_find h key = None"
      using assms(6) hash_find_map_of [OF assms(2), of key] by (simp add: map_of_eq_None_iff [symmetric])
    from hash_add_inv [OF assms(1,2) this h'] show "ut_inv h'" .
    show "ut_entries h' = ut_entries h @ [(key, a)]"
      using assms(2) h' by (intro hash_add_entries) (simp_all add: ut_inv_def)
  qed
  show "res = None \<longleftrightarrow> hash_add malloc key a h w = None"
    using c by (cases "hash_add malloc key a h w") auto
  assume h': "hash_add malloc key a h w = Some (h', w')"
  let ?x = "length (ut_objs h)"
  let ?h = "h'\<lparr>app_order := ps @ ?x # qs\<rparr>"
  from c h' obtain L' where L': "res = Some (L', w')" "lk_links_ok L' ?h" "same_elts L L'" by auto
  have "mset (ps @ ?x # qs) = mset (app_order h')" by (simp add: hash_add_shape [OF h'] assms(7))
  then have "ut_inv ?h" by (rule reorder_inv [OF inv(1) [OF h']])
  moreover have lt: "\<And>i. i \<in> set (app_order h) \<Longrightarrow> i < ?x" using assms(2) by (auto simp: ut_inv_def ut_wf_def)
  then have "ut_entries ?h = take (length ps) (ut_entries h) @ (key, a) # drop (length ps) (ut_entries h)"
    using assms(7) by (simp add: ut_entries_def hash_add_shape [OF h'] nth_append)
  ultimately show "\<exists>L' h''. res = Some (L', w') \<and> lk_links_ok L' h''
      \<and> ut_inv h'' \<and> ut_tbl h'' = ut_tbl h' \<and> same_elts L L'
      \<and> ut_entries h'' = take (length ps) (ut_entries h) @ (key, a) # drop (length ps) (ut_entries h)"
    using L' by (intro exI [of _ L'] exI [of _ ?h]) simp
qed

definition lk_room :: "nat \<Rightarrow> 'e lk_hash \<Rightarrow> bool" where
  "lk_room k L \<longleftrightarrow>
     5 + k \<le> 31 \<and> (lk_head L \<noteq> None \<longrightarrow> unat (lk_log2 (the (lk_tbl L))) + k \<le> 31)"

lemma lk_room_iff:
  assumes "ut_inv h" and "lk_links_ok L h"
  shows "lk_room k L \<longleftrightarrow> 5 + k \<le> 31 \<and> ut_room k h"
proof (cases "ut_tbl h")
  case None
  with assms(1) have "app_order h = []" by (simp add: ut_inv_def ut_wf_def)
  with None show ?thesis
    using lk_links_ok_tbl(1) [OF assms] by (simp add: lk_room_def ut_room_def log2_buckets_def)
next
  case (Some u)
  with assms(1) have "app_order h \<noteq> []" by (simp add: ut_inv_def ut_wf_def)
  with Some show ?thesis
    using lk_links_ok_tbl(1) [OF assms] assms(2)
    by (auto simp: lk_room_def ut_room_def log2_buckets_def lk_links_ok_def Let_def tbl_sim_def)
qed

lemma lk_room_Suc: "lk_room (Suc k) L \<Longrightarrow> lk_room k L"
  by (auto simp: lk_room_def)

text \<open>What both insertions share, from the place of the new entry on.\<close>

lemma holds_add_at:
  assumes "mem_bounded malloc" and "ut_inv h" and "ut_entries h = kas" and "lk_links_ok L h"
    and "in_memory L a" and "a \<notin> snd ` set kas" and "key \<notin> fst ` set kas"
    and "app_order h = ps @ qs" and "set_val (lk_bkt L) (Some a) (key, hash_jen key) = Some B"
    and "placed malloc a (L\<lparr>lk_bkt := B\<rparr>) (map (ut_deref h) ps) (map (ut_deref h) qs) w r"
  defines "res \<equiv> do { (L, w) \<leftarrow> r; lk_add_to_table malloc (hash_jen key) (Some a) L w }"
  shows "res = Some (L', w') \<Longrightarrow>
      lk_holds L' (take (length ps) kas @ (key, a) # drop (length ps) kas) \<and> same_elts L L'"
    and "mem_ok malloc \<Longrightarrow> lk_room (Suc k) L \<Longrightarrow> \<exists>L' w'. res = Some (L', w') \<and> lk_room k L'"
proof -
  have a: "a \<notin> set (map (ut_deref h) (app_order h))" "key \<notin> set (map fst (ut_entries h))"
    using assms(3,6,7) by (simp_all add: snd_entries [symmetric])
  note c = add_at [OF assms(1,2,4,5) a assms(8-10), folded res_def]
  show "lk_holds L' (take (length ps) kas @ (key, a) # drop (length ps) kas) \<and> same_elts L L'"
    if res: "res = Some (L', w')"
  proof -
    from res c(1) obtain h1 w1 where h: "hash_add malloc key a h w = Some (h1, w1)" by fastforce
    from c(2) [OF h] res assms(3) show ?thesis by (auto simp: lk_holds_def)
  qed
  show "\<exists>L' w'. res = Some (L', w') \<and> lk_room k L'" if ok: "mem_ok malloc" "lk_room (Suc k) L"
  proof -
    obtain h1 w1 where h: "hash_add malloc key a h w = Some (h1, w1)" "ut_room k h1"
      using hash_add_returns [OF ok(1) assms(2)] ok(2) lk_room_iff [OF assms(2,4)] by blast
    from c(2) [OF h(1)] obtain L' h2 where L': "res = Some (L', w1)" "lk_links_ok L' h2" "ut_inv h2"
      "ut_tbl h2 = ut_tbl h1" by blast
    moreover have "5 + k \<le> 31" using ok(2) by (simp add: lk_room_def)
    ultimately show ?thesis
      using h(2) lk_room_iff [OF L'(3,2), of k] by (simp add: ut_room_def log2_buckets_def)
  qed
qed

lemma set_val_memory: "in_memory L a \<Longrightarrow> \<exists>B. set_val (lk_bkt L) (Some a) v = Some B"
  by (auto simp: in_memory_def set_val_def)

lemma holds_add:
  assumes "mem_bounded malloc" and "lk_holds L kas" and "in_memory L a"
    and "a \<notin> snd ` set kas" and "key \<notin> fst ` set kas"
  shows "lk_add malloc key (Some a) L w = Some (L', w') \<Longrightarrow>
      lk_holds L' (kas @ [(key, a)]) \<and> same_elts L L'"
    and "mem_ok malloc \<Longrightarrow> lk_room (Suc k) L
      \<Longrightarrow> \<exists>L' w'. lk_add malloc key (Some a) L w = Some (L', w') \<and> lk_room k L'"
proof -
  from assms(2) obtain h where h: "ut_inv h" "ut_entries h = kas" "lk_links_ok L h"
    by (auto simp: lk_holds_def)
  obtain B where B: "set_val (lk_bkt L) (Some a) (key, hash_jen key) = Some B"
    using set_val_memory [OF assms(3)] by blast
  define r where "r = (if lk_head L = None then lk_start malloc (Some a) (L\<lparr>lk_bkt := B\<rparr>) w
     else do { t \<leftarrow> lk_tbl L; (app, t) \<leftarrow> lk_append_list (lk_app L) t (Some a);
               Some (L\<lparr>lk_bkt := B, lk_app := app, lk_tbl := Some t\<rparr>, w) })"
  have a: "a \<notin> set (map (ut_deref h) (app_order h))"
    using assms(4) h(2) by (simp add: snd_entries [symmetric])
  have p: "placed malloc a (L\<lparr>lk_bkt := B\<rparr>) (map (ut_deref h) (app_order h)) (map (ut_deref h) []) w r"
    unfolding r_def using placed_append [OF h(1,3) assms(3) a, of malloc B w] by simp
  have l: "length (app_order h) = length kas" using h(2) by (auto simp: ut_entries_def)
  have eq: "lk_add malloc key (Some a) L w
      = do { (L, w) \<leftarrow> r; lk_add_to_table malloc (hash_jen key) (Some a) L w }"
    by (simp add: lk_add_def lk_add_byhashvalue_def B r_def Let_def)
  note c = holds_add_at [OF assms(1) h assms(3-5) append_Nil2 [symmetric] B p, folded eq]
  show "lk_add malloc key (Some a) L w = Some (L', w') \<Longrightarrow>
      lk_holds L' (kas @ [(key, a)]) \<and> same_elts L L'"
    using c(1) by (simp add: l)
  show "mem_ok malloc \<Longrightarrow> lk_room (Suc k) L
      \<Longrightarrow> \<exists>L' w'. lk_add malloc key (Some a) L w = Some (L', w') \<and> lk_room k L'"
    by (rule c(2))
qed

text \<open>The place of \<open>a\<close> among the entries.\<close>

definition in_order ::
    "('e \<Rightarrow> 'e \<Rightarrow> int) \<Rightarrow> 'e lk_hash \<Rightarrow> bytes \<Rightarrow> nat \<Rightarrow> (bytes \<times> nat) list \<Rightarrow> (bytes \<times> nat) list" where
  "in_order cmp L key a kas =
     takeWhile (\<lambda>x. not_greater cmp L a (snd x)) kas @ (key, a)
       # dropWhile (\<lambda>x. not_greater cmp L a (snd x)) kas"

lemma holds_add_inorder:
  assumes "mem_bounded malloc" and "lk_holds L kas" and "in_memory L a"
    and "a \<notin> snd ` set kas" and "key \<notin> fst ` set kas"
  shows "lk_add_byhashvalue_inorder malloc cmp key (hash_jen key) (Some a) L w = Some (L', w') \<Longrightarrow>
      lk_holds L' (in_order cmp L key a kas) \<and> same_elts L L'"
    and "mem_ok malloc \<Longrightarrow> lk_room (Suc k) L \<Longrightarrow> \<exists>L' w'.
      lk_add_byhashvalue_inorder malloc cmp key (hash_jen key) (Some a) L w = Some (L', w') \<and> lk_room k L'"
proof -
  from assms(2) obtain h where h: "ut_inv h" "ut_entries h = kas" "lk_links_ok L h"
    by (auto simp: lk_holds_def)
  let ?P = "\<lambda>i. not_greater cmp L a (ut_deref h i)" and ?Q = "\<lambda>x. not_greater cmp L a (snd x)"
  obtain B where B: "set_val (lk_bkt L) (Some a) (key, hash_jen key) = Some B"
    using set_val_memory [OF assms(3)] by blast
  have a: "a \<notin> set (map (ut_deref h) (app_order h))"
    using assms(4) h(2) by (simp add: snd_entries [symmetric])
  obtain r where r: "lk_add_byhashvalue_inorder malloc cmp key (hash_jen key) (Some a) L w
      = do { B \<leftarrow> set_val (lk_bkt L) (Some a) (key, hash_jen key); (L, w) \<leftarrow> r B;
             lk_add_to_table malloc (hash_jen key) (Some a) L w }"
    "placed malloc a (L\<lparr>lk_bkt := B\<rparr>) (map (ut_deref h) (takeWhile ?P (app_order h)))
          (map (ut_deref h) (dropWhile ?P (app_order h))) w (r B)"
    using placed_inorder [OF h(1,3) assms(3) a refl, of malloc cmp key "hash_jen key" w] by blast
  have eq: "lk_add_byhashvalue_inorder malloc cmp key (hash_jen key) (Some a) L w
      = do { (L, w) \<leftarrow> r B; lk_add_to_table malloc (hash_jen key) (Some a) L w }"
    unfolding r(1) B by simp
  have kas: "kas = map (\<lambda>i. (hh_key (ut_objs h ! i), ut_deref h i)) (app_order h)"
    unfolding h(2) [symmetric] ut_entries_def ut_deref_def ..
  have "takeWhile ?Q kas = map (\<lambda>i. (hh_key (ut_objs h ! i), ut_deref h i)) (takeWhile ?P (app_order h))"
    unfolding kas by (simp add: takeWhile_map comp_def)
  then have n: "length (takeWhile ?P (app_order h)) = length (takeWhile ?Q kas)" by simp
  have td: "take (length (takeWhile ?P (app_order h))) kas @ (key, a)
      # drop (length (takeWhile ?P (app_order h))) kas = in_order cmp L key a kas"
    unfolding n by (simp add: in_order_def takeWhile_eq_take [symmetric] dropWhile_eq_drop [symmetric])
  note c = holds_add_at [OF assms(1) h assms(3-5) takeWhile_dropWhile_id [symmetric] B r(2), folded eq]
  show "lk_add_byhashvalue_inorder malloc cmp key (hash_jen key) (Some a) L w = Some (L', w') \<Longrightarrow>
      lk_holds L' (in_order cmp L key a kas) \<and> same_elts L L'"
    using c(1) unfolding td .
  show "mem_ok malloc \<Longrightarrow> lk_room (Suc k) L \<Longrightarrow> \<exists>L' w'.
      lk_add_byhashvalue_inorder malloc cmp key (hash_jen key) (Some a) L w = Some (L', w') \<and> lk_room k L'"
    by (rule c(2))
qed

section \<open>Deleting\<close>

lemma of_nat_pred: "n \<noteq> 0 \<Longrightarrow> of_nat n - 1 = (of_nat (n - 1) :: u32)"
  by (cases n) simp_all

lemma bkts_hold_remove:
  assumes "bkts_hold os nb bs S" and "x \<in> S" and "i = hash_to_bkt (hh_hashv (os ! x)) nb" and "i < length bs"
    and "hh_chain b = remove1 x (hh_chain (bs ! i))" and "bkt_count b = bkt_count (bs ! i) - 1"
  shows "bkts_hold os nb (bs[i := b]) (S - {x})"
  unfolding bkts_hold_def
proof (intro allI impI)
  fix j assume "j < length (bs[i := b])"
  then have j: "j < length bs" by simp
  with assms(1) have hj: "distinct (hh_chain (bs ! j))"
    "set (hh_chain (bs ! j)) = {a \<in> S. hash_to_bkt (hh_hashv (os ! a)) nb = j}"
    "bkt_count (bs ! j) = of_nat (length (hh_chain (bs ! j)))"
    by (auto simp: bkts_hold_def)
  show "distinct (hh_chain (bs[i := b] ! j))
      \<and> set (hh_chain (bs[i := b] ! j)) = {a \<in> S - {x}. hash_to_bkt (hh_hashv (os ! a)) nb = j}
      \<and> bkt_count (bs[i := b] ! j) = of_nat (length (hh_chain (bs[i := b] ! j)))"
  proof (cases "j = i")
    case True
    have x: "x \<in> set (hh_chain (bs ! i))" using hj(2) assms(2,3) True by simp
    then have "length (hh_chain (bs ! i)) \<noteq> 0" by auto
    from of_nat_pred [OF this] True hj x assms(4-6) show ?thesis by (auto simp: length_remove1 set_remove1_eq)
  next
    case False
    then have "{a \<in> S - {x}. hash_to_bkt (hh_hashv (os ! a)) nb = j}
        = {a \<in> S. hash_to_bkt (hh_hashv (os ! a)) nb = j}" using assms(3) by auto
    with False hj show ?thesis by simp
  qed
qed

lemma hash_delete_inv:
  assumes "ut_inv h" and "x \<in> set (app_order h)"
  shows "ut_inv (hash_delete x h)" and "app_order (hash_delete x h) = remove1 x (app_order h)"
    and "ut_objs (hash_delete x h) = ut_objs h"
proof -
  from assms obtain u where u: "ut_tbl h = Some u" "tbl_wf (ut_objs h) (app_order h) u"
    by (auto simp: ut_inv_def ut_wf_def split: option.splits)
  show o: "app_order (hash_delete x h) = remove1 x (app_order h)"
    and ob: "ut_objs (hash_delete x h) = ut_objs h"
    using u(1) by (auto simp: hash_delete_def Let_def)
  have d: "distinct (app_order h)" using assms(1) by (simp add: ut_inv_def ut_wf_def)
  have "distinct (map (\<lambda>i. hh_key (ut_objs h ! i)) (app_order h))"
    using assms(1) by (simp add: ut_inv_def map_fst_entries)
  then have k: "distinct (map fst (ut_entries (hash_delete x h)))"
    unfolding map_fst_entries o ob by (auto simp: distinct_map intro: inj_on_subset set_remove1_subset)
  show "ut_inv (hash_delete x h)"
  proof (cases "app_order h = [x]")
    case True
    then have "hash_delete x h = h\<lparr>app_order := [], ut_tbl := None\<rparr>" using u(1) by (simp add: hash_delete_def)
    then show ?thesis by (simp add: ut_inv_def ut_wf_def ut_entries_def)
  next
    case False
    let ?i = "hash_to_bkt (hh_hashv (ut_objs h ! x)) (num_buckets u)"
    let ?b = "(buckets u ! ?i)\<lparr>hh_chain := remove1 x (hh_chain (buckets u ! ?i)),
        bkt_count := bkt_count (buckets u ! ?i) - 1\<rparr>"
    let ?u = "u\<lparr>buckets := (buckets u)[?i := ?b], num_items := num_items u - 1\<rparr>"
    have i: "?i < length (buckets u)" by (rule tbl_wf_bucket(1) [OF u(2)])
    have t: "ut_tbl (hash_delete x h) = Some ?u"
      using u(1) False i by (simp add: hash_delete_def hash_del_in_bkt_def modify_at_def Let_def)
    have hold: "bkts_hold (ut_objs h) (num_buckets u) (buckets u) (set (app_order h))"
      using u(2) unfolding tbl_wf_def by blast
    have "bkts_hold (ut_objs h) (num_buckets u) ((buckets u)[?i := ?b]) (set (app_order h) - {x})"
      by (rule bkts_hold_remove [OF hold assms(2) refl i]) simp_all
    moreover have "length (app_order h) \<noteq> 0" using assms(2) by auto
    note of_nat_pred [OF this]
    ultimately have "tbl_wf (ut_objs h) (remove1 x (app_order h)) ?u"
      using u(2) assms(2) d by (simp add: tbl_wf_def length_remove1 set_remove1_eq)
    moreover have "remove1 x (app_order h) \<noteq> []"
      using False assms(2) by (cases "app_order h") (auto split: if_splits)
    ultimately show ?thesis
      using assms(1) t k d set_remove1_subset [of x "app_order h"]
      by (auto simp: ut_inv_def ut_wf_def o ob)
  qed
qed

lemma remove1_map:
  "inj_on f (set xs) \<Longrightarrow> x \<in> set xs \<Longrightarrow> map f (remove1 x xs) = remove1 (f x) (map f xs)"
  by (induction xs) (auto simp: inj_on_def)

text \<open>The bucket of a deleted element.\<close>

lemma del_in_bkt_sim:
  assumes "tbl_sim adr h t u" and "tbl_wf os as u" and "x \<in> set as" and "inj_on adr (set as)"
    and "i = hash_to_bkt (hh_hashv (os ! x)) (num_buckets u)"
  obtains b h' b' where "bucket_at (lk_buckets t) i = Some b" "lk_del_in_bkt h b (Some (adr x)) = Some (h', b')"
    "tbl_sim adr h' (t\<lparr>lk_buckets := (lk_buckets t)[i := b'], lk_items := lk_items t - 1\<rparr>)
       ((hash_del_in_bkt u i x)\<lparr>num_items := num_items u - 1\<rparr>)" "same_vals h h'"
proof -
  have sim: "list_all2 (chain_sim adr h) (lk_buckets t) (buckets u)" using assms(1) by (simp add: tbl_sim_def)
  have i: "i < length (buckets u)" unfolding assms(5) by (rule tbl_wf_bucket(1) [OF assms(2)])
  then have i': "i < length (lk_buckets t)" using list_all2_lengthD [OF sim] by simp
  have ch: "set (concat (map hh_chain (buckets u))) = set as" "distinct (concat (map hh_chain (buckets u)))"
    using chains_of_buckets [of os "num_buckets u" "buckets u" "set as"] tbl_wf_bucket(1) [OF assms(2)] assms(2)
    unfolding tbl_wf_def by blast+
  then have du: "distinct (chain_elts adr (buckets u))" using assms(4) by (simp add: distinct_map)
  let ?c = "hh_chain (buckets u ! i)" and ?b = "lk_buckets t ! i"
  have c: "set ?c = {a \<in> set as. hash_to_bkt (hh_hashv (os ! a)) (num_buckets u) = i}" "distinct ?c"
    using assms(2) i by (auto simp: tbl_wf_def bkts_hold_def)
  then have x: "x \<in> set ?c" and inj: "inj_on adr (set ?c)"
    using assms(3-5) by (auto intro: inj_on_subset)
  have "chain_sim adr h ?b (buckets u ! i)" by (rule list_all2_nthD [OF sim i'])
  then have b: "dseg h None (map adr ?c) None" "lk_first ?b = first (map adr ?c) None"
    "lk_count ?b = bkt_count (buckets u ! i)" "lk_mult ?b = expand_mult (buckets u ! i)"
    by (simp_all add: chain_sim_def Let_def)
  have "distinct (map adr ?c)" "adr x \<in> set (map adr ?c)" using c(2) inj x by (simp_all add: distinct_map)
  from lk_del_list [OF b(1) this(1) b(2) this(2)] obtain h' where h':
    "lk_del_in_bkt h ?b (Some (adr x)) = Some (h', ?b\<lparr>lk_count := lk_count ?b - 1,
        lk_first := first (remove1 (adr x) (map adr ?c)) None\<rparr>)"
    "dseg h' None (remove1 (adr x) (map adr ?c)) None" "same_vals h h'" "untouched (set (map adr ?c)) h h'" .
  let ?b' = "?b\<lparr>lk_count := lk_count ?b - 1, lk_first := first (remove1 (adr x) (map adr ?c)) None\<rparr>"
  let ?v = "(buckets u ! i)\<lparr>hh_chain := remove1 x ?c, bkt_count := bkt_count (buckets u ! i) - 1\<rparr>"
  have "chain_sim adr h' ?b' ?v"
    using h'(2) b(3,4) remove1_map [OF inj x] by (simp add: chain_sim_def)
  from chain_sim_update [OF sim i du h'(4) this]
  have "list_all2 (chain_sim adr h') ((lk_buckets t)[i := ?b']) ((buckets u)[i := ?v])" by simp
  moreover have "hash_del_in_bkt u i x = u\<lparr>buckets := (buckets u)[i := ?v]\<rparr>"
    using i by (simp add: hash_del_in_bkt_def modify_at_def)
  ultimately have "tbl_sim adr h' (t\<lparr>lk_buckets := (lk_buckets t)[i := ?b'], lk_items := lk_items t - 1\<rparr>)
       ((hash_del_in_bkt u i x)\<lparr>num_items := num_items u - 1\<rparr>)"
    using assms(1) by (simp add: tbl_sim_def)
  with h'(1,3) i' that show thesis by (simp add: bucket_at_def)
qed

lemma delete_sim:
  assumes "ut_inv h" and "lk_links_ok L h" and "x \<in> set (app_order h)"
  shows "\<exists>L'. lk_delete (Some (ut_deref h x)) L = Some L' \<and> lk_links_ok L' (hash_delete x h) \<and> same_elts L L'"
proof -
  let ?adr = "ut_deref h" and ?a = "ut_deref h x"
  note inv = hash_delete_inv [OF assms(1,3)]
  note L = assms(2) [unfolded lk_links_ok_def Let_def]
  from assms(1,3) obtain u where u: "ut_tbl h = Some u" "tbl_wf (ut_objs h) (app_order h) u"
    by (auto simp: ut_inv_def ut_wf_def split: option.splits)
  with L obtain t where t: "lk_tbl L = Some t" "tbl_sim ?adr (lk_bkt L) t u"
    "lk_tail t = final None (map ?adr (app_order h))" by auto
  from assms(3) obtain ys zs where o: "app_order h = ys @ x # zs" by (meson split_list)
  have "distinct (app_order h)" using assms(1) by (simp add: ut_inv_def ut_wf_def)
  then have r: "remove1 x (app_order h) = ys @ zs" by (simp add: o remove1_append)
  have ad: "ut_deref (hash_delete x h) = ?adr" by (rule ext) (simp add: ut_deref_def inv(3))
  let ?ys = "map ?adr ys" and ?zs = "map ?adr zs"
  have os: "dseg (lk_app L) None (?ys @ ?a # ?zs) None" "distinct (?ys @ ?a # ?zs)"
    "lk_head L = first (?ys @ ?a # ?zs) None"
    using L by (simp_all add: o)
  obtain h1 h2 where k: "get_next (lk_app L) (Some ?a) = Some (first ?zs None)"
    "get_prev (lk_app L) (Some ?a) = Some (final None ?ys)"
    "?ys = [] \<and> h1 = lk_app L \<or> ?ys \<noteq> [] \<and> set_next (lk_app L) (final None ?ys) (first ?zs None) = Some h1"
    "?zs = [] \<and> h2 = h1 \<or> ?zs \<noteq> [] \<and> set_prev h1 (first ?zs None) (final None ?ys) = Some h2"
    "dseg h2 None (?ys @ ?zs) None" "same_vals (lk_app L) h2"
    using unlink [OF os(1,2)] by metis
  have kd: "lk_keyed ?adr (ut_objs h) (lk_bkt L) (set (ys @ zs))" using L by (simp add: lk_keyed_def o)
  show ?thesis
  proof (cases "ys = [] \<and> zs = []")
    case True
    then have "lk_delete (Some ?a) L = Some (L\<lparr>lk_head := None, lk_tbl := None\<rparr>)"
      using k(1,2) by (simp add: lk_delete_def)
    moreover have "hash_delete x h = h\<lparr>app_order := [], ut_tbl := None\<rparr>"
      using True u(1) o by (simp add: hash_delete_def)
    ultimately show ?thesis by (simp add: lk_links_ok_def same_elts_def lk_keyed_def)
  next
    case False
    let ?i = "hash_to_bkt (hh_hashv (ut_objs h ! x)) (num_buckets u)"
    let ?t = "t\<lparr>lk_tail := final None (?ys @ ?zs)\<rparr>"
    have inj: "inj_on ?adr (set (app_order h))" using L by (simp add: distinct_map)
    have "tbl_sim ?adr (lk_bkt L) ?t u" using t(2) by (simp add: tbl_sim_def)
    from del_in_bkt_sim [OF this u(2) assms(3) inj refl] obtain b h' b' where
      d: "bucket_at (lk_buckets ?t) ?i = Some b" "lk_del_in_bkt (lk_bkt L) b (Some ?a) = Some (h', b')"
      "tbl_sim ?adr h' (?t\<lparr>lk_buckets := (lk_buckets ?t)[?i := b'], lk_items := lk_items ?t - 1\<rparr>)
         ((hash_del_in_bkt u ?i x)\<lparr>num_items := num_items u - 1\<rparr>)" "same_vals (lk_bkt L) h'" .
    have "lk_keyed ?adr (ut_objs h) (lk_bkt L) (set (app_order h))" using L by blast
    then have v: "get_val (lk_bkt L) (Some ?a) = Some (hh_key (ut_objs h ! x), hh_hashv (ut_objs h ! x))"
      using assms(3) by (simp add: lk_keyed_def get_val_def)
    have n: "(final None ?ys = None \<and> first ?zs None = None) = False"
      using False by (auto simp: final_def first_def split: list.splits)
    have tl: "(if Some ?a = lk_tail t then t\<lparr>lk_tail := final None ?ys\<rparr> else t) = ?t"
    proof (cases "zs = []")
      case True
      then show ?thesis by (simp add: t(3) o)
    next
      case False
      then have "Some ?a \<noteq> lk_tail t" using os(2) last_in_set [of ?zs] by (auto simp: t(3) o final_def)
      moreover have "final None (?ys @ ?zs) = lk_tail t" using False by (simp add: t(3) o final_def)
      ultimately show ?thesis by simp
    qed
    have hd: "(if final None ?ys \<noteq> None
        then do { app \<leftarrow> set_next (lk_app L) (final None ?ys) (first ?zs None); Some (app, lk_head L) }
        else Some (lk_app L, first ?zs None)) = Some (h1, first (?ys @ ?zs) None)"
      using k(3) os(3) by (cases ys) (auto simp: final_def)
    have pv: "(if first ?zs None \<noteq> None then set_prev h1 (first ?zs None) (final None ?ys) else Some h1) = Some h2"
      using k(4) by (cases zs) auto
    have nb: "lk_num ?t = num_buckets u" using t(2) by (simp add: tbl_sim_def)
    let ?L = "L\<lparr>lk_app := h2, lk_bkt := h', lk_head := first (?ys @ ?zs) None,
        lk_tbl := Some (?t\<lparr>lk_buckets := (lk_buckets ?t)[?i := b'], lk_items := lk_items ?t - 1\<rparr>)\<rparr>"
    have "lk_delete (Some ?a) L = Some ?L"
      unfolding lk_delete_def k(1,2) Option.bind.simps n t(1) Let_def tl hd pv v prod.case if_False nb d(1,2) ..
    moreover have "ut_tbl (hash_delete x h) = Some ((hash_del_in_bkt u ?i x)\<lparr>num_items := num_items u - 1\<rparr>)"
      using u(1) False o by (auto simp: hash_delete_def Let_def hash_del_in_bkt_def append_eq_Cons_conv)
    then have "lk_links_ok ?L (hash_delete x h)"
      using os(2) k(5) d(3) lk_keyed_same [OF kd d(4)]
      by (simp add: lk_links_ok_def Let_def ad inv(2,3) r)
    moreover have "same_elts L ?L" using k(6) same_vals_None [OF d(4)] by (simp add: same_elts_def)
    ultimately show ?thesis by blast
  qed
qed

lemma holds_delete:
  assumes "lk_holds L kas" and "a \<in> snd ` set kas"
  shows "\<exists>L'. lk_delete (Some a) L = Some L' \<and> lk_holds L' (filter (\<lambda>x. snd x \<noteq> a) kas) \<and> same_elts L L'"
proof -
  from assms(1) obtain h where h: "ut_inv h" "ut_entries h = kas" "lk_links_ok L h"
    by (auto simp: lk_holds_def)
  have "a \<in> set (map snd (ut_entries h))" using assms(2) h(2) by simp
  then obtain x where x: "x \<in> set (app_order h)" "ut_deref h x = a" unfolding snd_entries by auto
  obtain L' where L': "lk_delete (Some a) L = Some L'" "lk_links_ok L' (hash_delete x h)" "same_elts L L'"
    using delete_sim [OF h(1,3) x(1)] x(2) by blast
  note inv = hash_delete_inv [OF h(1) x(1)]
  have "inj_on (ut_deref h) (set (app_order h))" "distinct (app_order h)"
    using lk_links_ok_entries [OF h(3)] unfolding snd_entries distinct_map by blast+
  then have "remove1 x (app_order h) = filter (\<lambda>i. ut_deref h i \<noteq> a) (app_order h)"
    using x by (auto simp: distinct_remove1_removeAll removeAll_filter_not_eq inj_on_def intro!: filter_cong)
  then have "ut_entries (hash_delete x h) = filter (\<lambda>x. snd x \<noteq> a) kas"
    unfolding h(2) [symmetric] by (simp add: ut_entries_def inv filter_map comp_def ut_deref_def)
  with L' inv(1) show ?thesis by (auto simp: lk_holds_def)
qed

text \<open>A deletion leaves the room there is.\<close>

lemma delete_room:
  assumes "lk_delete a L = Some L'" and "lk_room k L" and "lk_head L \<noteq> None"
  shows "lk_room k L'"
  using assms by (auto simp: lk_delete_def lk_room_def Let_def Option.bind_eq_Some_conv split: if_splits)

lemma entries_of_key:
  assumes "lk_holds L kas" and "(key, b) \<in> set kas"
  shows "filter (\<lambda>x. snd x \<noteq> b) kas = filter (\<lambda>x. fst x \<noteq> key) kas"
proof (rule filter_cong [OF refl])
  fix x assume x: "x \<in> set kas"
  have "inj_on fst (set kas)" "inj_on snd (set kas)"
    using holds_distinct [OF assms(1)] by (simp_all add: distinct_map)
  with x assms(2) show "(snd x \<noteq> b) = (fst x \<noteq> key)"
    by (metis fst_conv inj_on_def snd_conv)
qed

text \<open>\<open>HASH_FIND\<close> and then \<open>HASH_DELETE\<close> of what was found.\<close>

definition lk_drop :: "bytes \<Rightarrow> 'e lk_hash \<Rightarrow> 'e lk_hash option" where
  "lk_drop key L = do { r \<leftarrow> lk_find key L; if r \<noteq> None then lk_delete r L else Some L }"

lemma holds_drop:
  assumes "lk_holds L kas"
  shows "\<exists>L'. lk_drop key L = Some L' \<and> lk_holds L' (filter (\<lambda>x. fst x \<noteq> key) kas) \<and> same_elts L L'
    \<and> (\<forall>k. lk_room k L \<longrightarrow> lk_room k L')"
proof (cases "map_of kas key")
  case None
  then have "filter (\<lambda>x. fst x \<noteq> key) kas = kas" by (auto simp: map_of_eq_None_iff intro!: filter_True)
  with None show ?thesis
    using assms holds_find [OF assms, of key] by (simp add: lk_drop_def same_elts_def)
next
  case (Some b)
  then have b: "(key, b) \<in> set kas" by (rule map_of_SomeD)
  then have "b \<in> snd ` set kas" by force
  from holds_delete [OF assms this] obtain L' where L': "lk_delete (Some b) L = Some L'"
    "lk_holds L' (filter (\<lambda>x. snd x \<noteq> b) kas)" "same_elts L L'" by blast
  have "lk_drop key L = Some L'" using L'(1) Some holds_find [OF assms, of key] by (simp add: lk_drop_def)
  moreover have "lk_head L \<noteq> None" using holds_head [OF assms] b by (cases kas) auto
  ultimately show ?thesis
    using L' delete_room [OF L'(1)] entries_of_key [OF assms b] by auto
qed

lemma replace_is_drop:
  "lk_replace_byhashvalue malloc key (hash_jen key) a L w
    = do { r \<leftarrow> lk_find key L; L \<leftarrow> lk_drop key L; (L, w) \<leftarrow> lk_add malloc key a L w; Some (r, L, w) }"
  by (cases "lk_find key L") (simp_all add: lk_replace_byhashvalue_def lk_drop_def lk_find_def lk_add_def)

lemma replace_inorder_is_drop:
  "lk_replace_byhashvalue_inorder malloc cmp key (hash_jen key) a L w
    = do { r \<leftarrow> lk_find key L; L \<leftarrow> lk_drop key L;
           (L, w) \<leftarrow> lk_add_byhashvalue_inorder malloc cmp key (hash_jen key) a L w; Some (r, L, w) }"
  by (cases "lk_find key L") (simp_all add: lk_replace_byhashvalue_inorder_def lk_drop_def lk_find_def)

end
