(* ===== verification/Uthash_Runs.thy ===== *)
theory Uthash_Runs
  imports Uthash_Tables
begin

text \<open>
  Sorting a hash table, iterating over it while deleting, its consistency check, and sequences of
  operations on it.
\<close>

section \<open>Sorting\<close>

lemma linked_dseg: "ls_linked Double h p xs q = dseg h p xs q"
  by (simp add: ls_linked_def)

lemma sort_loop:
  fixes cmp :: "'v \<Rightarrow> 'v \<Rightarrow> int" and key :: "'v \<Rightarrow> 'k::linorder"
  assumes "\<And>x y. cmp x y \<le> 0 \<longleftrightarrow> key x \<le> key y"
    and "0 < k" and "dseg h None xs None" and "distinct xs" and "xs \<noteq> []" and "valued h v xs"
    and "sorted_runs (\<lambda>a. key (v a)) k xs"
  shows "\<exists>h'. lk_sort_loop cmp k h (first xs None)
      = Some (h', first (sort_key (\<lambda>a. key (v a)) xs) None, final None (sort_key (\<lambda>a. key (v a)) xs))
    \<and> dseg h' None (sort_key (\<lambda>a. key (v a)) xs) None \<and> valued h' v xs
    \<and> (\<forall>a. a \<notin> set xs \<longrightarrow> h' a = h a)"
  using assms(2-7)
proof (induction "length xs - k" arbitrary: h xs k rule: less_induct)
  case less
  let ?f = "\<lambda>a. key (v a)"
  let ?ys = "lpass (\<lambda>a b. ?f a \<le> ?f b) k xs"
  have le: "(\<lambda>a b. cmp (v a) (v b) \<le> 0) = (\<lambda>a b. ?f a \<le> ?f b)" using assms(1) by auto
  have m: "merged Double h None None []" by (simp add: merged_def ls_linked_def)
  have "path Double None h (first xs None) xs"
    using linked_path [of Double h None xs None] less.prems(2) by (simp add: linked_dseg)
  then obtain h1 l1 t1 where p: "ls_pass Double cmp None k h None None (first xs None) 0 = Some (h1, l1, t1, lruns k xs)"
    "merged Double h1 l1 t1 ?ys" "\<forall>zs. valued h v zs \<longrightarrow> valued h1 v zs" "\<forall>a. a \<notin> set xs \<longrightarrow> h1 a = h a"
    using pass_lists [OF less.prems(1) m, of None "first xs None" xs v cmp 0] less.prems(3,5)
    by (auto simp: le)
  have ys: "mset ?ys = mset xs" by (rule mset_lpass [OF less.prems(1)])
  then have ys': "distinct ?ys" "?ys \<noteq> []" "set ?ys = set xs" "length ?ys = length xs"
    using less.prems(3,4) mset_eq_imp_distinct_iff mset_eq_setD mset_eq_length
    by (blast, fastforce, blast, blast)
  from p(2) obtain q where q: "l1 = first ?ys None" "t1 = final None ?ys" "dseg h1 None ?ys q"
    by (auto simp: merged_def linked_dseg)
  from behind [OF q(3) ys'(1,2)] obtain h2 where
    c: "set_next h1 (final None ?ys) None = Some h2" "dseg h2 None ?ys None" "same_vals h1 h2"
      "untouched {last ?ys} h1 h2" by metis
  have step: "lk_sort_loop cmp k h (first xs None) = (if lruns k xs \<le> 1 then Some (h2, l1, t1)
      else lk_sort_loop cmp (k * 2) h2 l1)"
    using p(1) c(1) q(2) ys'(2) by (subst lk_sort_loop.simps) (simp add: final_def)
  have "valued h1 v xs" using less.prems(5) p(3) by blast
  then have v2: "valued h2 v xs" using same_vals_el [OF c(3)] unfolding valued_def by metis
  have away: "\<forall>a. a \<notin> set xs \<longrightarrow> h2 a = h a"
    using p(4) c(4) last_in_set [OF ys'(2)] unfolding ys'(3) untouched_def by (metis singletonD)
  show ?case
  proof (cases "lruns k xs \<le> 1")
    case True
    then have "?ys = sort_key ?f xs"
      using lpass_last [OF less.prems(1,6)] lruns_le_1 [OF less.prems(1)] by blast
    with True step c(2) q(1,2) v2 away show ?thesis by auto
  next
    case False
    then have k: "length ?ys - k * 2 < length xs - k" "0 < k * 2"
      using lruns_le_1 [OF less.prems(1), of xs] less.prems(1) ys'(4) by auto
    have "valued h2 v ?ys" using valued_set [OF _ v2] ys'(3) by simp
    from less.hyps [OF k c(2) ys'(1,2) this lpass_sorted_runs [OF less.prems(1,6)]] obtain h' where
      "lk_sort_loop cmp (k * 2) h2 (first ?ys None)
        = Some (h', first (sort_key ?f ?ys) None, final None (sort_key ?f ?ys))"
      "dseg h' None (sort_key ?f ?ys) None" "valued h' v ?ys" "\<forall>a. a \<notin> set ?ys \<longrightarrow> h' a = h2 a" by blast
    with step False lpass_sort_key [OF less.prems(1,6)] q(1) away ys'(3) show ?thesis
      by (auto simp: valued_def)
  qed
qed

lemma holds_sort:
  fixes key :: "'e \<Rightarrow> 'k::linorder"
  assumes "\<And>x y. cmp x y \<le> 0 \<longleftrightarrow> key x \<le> key y" and "lk_holds L kas"
  shows "\<exists>L'. lk_sort cmp L = Some L' \<and> lk_holds L' (sort_key (\<lambda>x. key (val_of L (snd x))) kas)
    \<and> same_elts L L' \<and> (\<forall>k. lk_room k L \<longrightarrow> lk_room k L')"
proof -
  from assms(2) obtain h where h: "ut_inv h" "ut_entries h = kas" "lk_links_ok L h"
    by (auto simp: lk_holds_def)
  show ?thesis
  proof (cases "app_order h = []")
    case True
    then have "lk_sort cmp L = Some L" "kas = []"
      using lk_links_ok_tbl(1) [OF h(1,3)] h(2) by (auto simp: lk_sort_def ut_entries_def)
    with assms(2) show ?thesis by (simp add: same_elts_def)
  next
    case False
    let ?os = "map (ut_deref h) (app_order h)" and ?v = "val_of L"
    let ?f = "\<lambda>a. key (?v a)"
    note L = h(3) [unfolded lk_links_ok_def Let_def]
    obtain t where t: "lk_tbl L = Some t" using lk_links_ok_tbl(2) [OF h(1,3) False] by blast
    have os: "dseg (lk_app L) None ?os None" "distinct ?os" "?os \<noteq> []" "lk_head L = first ?os None"
      using L False by blast+
    have v: "valued (lk_app L) ?v ?os" using dseg_in [OF os(1)] by (fastforce simp: valued_def val_of_def)
    have "sorted_runs ?f 1 ?os" by (simp add: sorted_runs_1)
    from sort_loop [OF assms(1) zero_less_one os(1-3) v this] obtain h' where
      s: "lk_sort_loop cmp 1 (lk_app L) (lk_head L)
          = Some (h', first (sort_key ?f ?os) None, final None (sort_key ?f ?os))"
        "dseg h' None (sort_key ?f ?os) None" "valued h' ?v ?os" "\<forall>a. a \<notin> set ?os \<longrightarrow> h' a = lk_app L a"
      unfolding os(4) by blast
    let ?L = "L\<lparr>lk_app := h', lk_head := first (sort_key ?f ?os) None,
        lk_tbl := Some (t\<lparr>lk_tail := final None (sort_key ?f ?os)\<rparr>)\<rparr>"
    let ?as = "sort_key (\<lambda>i. ?f (ut_deref h i)) (app_order h)"
    let ?h = "h\<lparr>app_order := ?as\<rparr>"
    have ad: "ut_deref ?h = ut_deref h" by (rule ext) (simp add: ut_deref_def)
    have m: "map (ut_deref h) ?as = sort_key ?f ?os" by (rule map_sort_key)
    have "lk_sort cmp L = Some ?L"
      using s(1) t lk_links_ok_tbl(1) [OF h(1,3)] False by (simp add: lk_sort_def)
    moreover have "ut_inv ?h" by (rule reorder_inv [OF h(1)]) simp
    moreover have "lk_links_ok ?L ?h"
      using L os(2) s(2) t by (auto simp: lk_links_ok_def Let_def ad m tbl_sim_def split: option.splits)
    moreover have "ut_entries ?h = sort_key (\<lambda>x. ?f (snd x)) kas"
    proof -
      let ?g = "\<lambda>i. (hh_key (ut_objs h ! i), elt (ut_objs h ! i))"
      have "ut_entries ?h = map ?g (sort_key (\<lambda>i. (\<lambda>x. ?f (snd x)) (?g i)) (app_order h))"
        by (simp add: ut_entries_def ut_deref_def)
      also have "\<dots> = sort_key (\<lambda>x. ?f (snd x)) (map ?g (app_order h))" by (rule map_sort_key)
      finally show ?thesis using h(2) by (simp add: ut_entries_def)
    qed
    moreover have "same_vals (lk_app L) h'"
      unfolding same_vals_def
    proof
      fix a show "map_option el_val (h' a) = map_option el_val (lk_app L a)"
        using s(3,4) v by (cases "a \<in> set ?os") (fastforce simp: valued_def)+
    qed
    moreover have "lk_room k ?L" if "lk_room k L" for k
      using that t lk_links_ok_tbl(1) [OF h(1,3)] False by (simp add: lk_room_def)
    ultimately show ?thesis by (auto simp: lk_holds_def same_elts_def)
  qed
qed

section \<open>The consistency check\<close>

lemma fsck_chain_ok:
  "dseg h p c None \<Longrightarrow> fsck_chain h p (first c None) n = Some (True, n + of_nat (length c))"
proof (induction c arbitrary: p n)
  case Nil
  then show ?case by (simp add: fsck_chain.simps)
next
  case (Cons a c)
  then have "get_prev h (Some a) = Some p" "get_next h (Some a) = Some (first c None)"
    by (auto simp: get_prev_def get_next_def)
  with Cons show ?case by (subst fsck_chain.simps) (simp add: algebra_simps)
qed

lemma fsck_app_ok:
  "dseg h p c None \<Longrightarrow> fsck_app h p (first c None) n = Some (True, n + of_nat (length c))"
proof (induction c arbitrary: p n)
  case Nil
  then show ?case by (simp add: fsck_app.simps)
next
  case (Cons a c)
  then have "get_prev h (Some a) = Some p" "get_next h (Some a) = Some (first c None)"
    by (auto simp: get_prev_def get_next_def)
  with Cons show ?case by (subst fsck_app.simps) (simp add: algebra_simps)
qed

lemma fsck_buckets_ok:
  assumes "list_all2 (chain_sim adr h) bs us" and "\<forall>u \<in> set us. bkt_count u = of_nat (length (hh_chain u))"
  shows "fsck_buckets h bs n = Some (True, n + of_nat (length (concat (map hh_chain us))))"
  using assms
proof (induction bs arbitrary: us n)
  case Nil
  then show ?case by simp
next
  case (Cons b bs)
  then obtain u us' where u: "us = u # us'" "chain_sim adr h b u" "list_all2 (chain_sim adr h) bs us'"
    by (auto simp: list_all2_Cons1)
  with Cons have "lk_count b = of_nat (length (hh_chain u))"
    "dseg h None (map adr (hh_chain u)) None" "lk_first b = first (map adr (hh_chain u)) None"
    by (auto simp: chain_sim_def Let_def)
  with Cons u show ?case using fsck_chain_ok [of h None "map adr (hh_chain u)" 0]
    by (simp add: algebra_simps)
qed

lemma holds_fsck:
  assumes "lk_holds L kas"
  shows "lk_fsck L = Some True"
proof -
  from assms obtain h where h: "ut_inv h" "ut_entries h = kas" "lk_links_ok L h"
    by (auto simp: lk_holds_def)
  show ?thesis
  proof (cases "ut_tbl h")
    case None
    then have "app_order h = []" using h(1) by (simp add: ut_inv_def ut_wf_def)
    then show ?thesis using lk_links_ok_tbl(1) [OF h(1,3)] by (simp add: lk_fsck_def)
  next
    case (Some u)
    note L = h(3) [unfolded lk_links_ok_def Let_def]
    from L Some obtain t where t: "lk_tbl L = Some t" "tbl_sim (ut_deref h) (lk_bkt L) t u" by auto
    from h(1) Some have wf: "tbl_wf (ut_objs h) (app_order h) u" "app_order h \<noteq> []" "distinct (app_order h)"
      by (auto simp: ut_inv_def ut_wf_def)
    have w: "unat (log2_num_buckets u) < 32" "num_buckets u = 2 ^ unat (log2_num_buckets u)"
      "length (buckets u) = 2 ^ unat (log2_num_buckets u)" "num_items u = of_nat (length (app_order h))"
      "bkts_hold (ut_objs h) (num_buckets u) (buckets u) (set (app_order h))"
      using wf(1) unfolding tbl_wf_def by blast+
    have ch: "set (concat (map hh_chain (buckets u))) = set (app_order h)"
      "distinct (concat (map hh_chain (buckets u)))"
      by (rule chains_of_buckets [OF w(5) tbl_wf_bucket(1) [OF wf(1)]])+
    then have len: "length (concat (map hh_chain (buckets u))) = length (app_order h)"
      using wf(3) by (metis distinct_card)
    have sim: "list_all2 (chain_sim (ut_deref h) (lk_bkt L)) (lk_buckets t) (buckets u)"
      "lk_num t = num_buckets u" "lk_items t = num_items u"
      using t(2) by (simp_all add: tbl_sim_def)
    have cnt: "\<forall>v \<in> set (buckets u). bkt_count v = of_nat (length (hh_chain v))"
      using w(5) by (auto simp: bkts_hold_def set_conv_nth)
    have "take (unat (lk_num t)) (lk_buckets t) = lk_buckets t"
      using list_all2_lengthD [OF sim(1)] w(1-3) by (simp add: sim(2) unat_two_power)
    moreover have "fsck_buckets (lk_bkt L) (lk_buckets t) 0 = Some (True, lk_items t)"
      using fsck_buckets_ok [OF sim(1) cnt, of 0] by (simp add: len sim(3) w(4) del: length_concat)
    moreover have "fsck_app (lk_app L) None (lk_head L) 0 = Some (True, lk_items t)"
      using L fsck_app_ok [of "lk_app L" None "map (ut_deref h) (app_order h)" 0] by (simp add: sim(3) w(4))
    ultimately show ?thesis using t(1) by (simp add: lk_fsck_def)
  qed
qed

section \<open>Iterating\<close>

lemma holds_next:
  assumes "lk_holds L ((k, a) # kas)"
  shows "get_next (lk_app L) (Some a) = Some (first (map snd kas) None)"
  using holds_dseg [OF assms] by (auto simp: get_next_def)

text \<open>The loop that frees a table: every element is deleted while the iteration is at it.\<close>

lemma iter_deletes:
  assumes "lk_holds L kas"
  shows "\<exists>L'. lk_iter (\<lambda>a. lk_delete (Some a)) L = Some L' \<and> lk_holds L' [] \<and> same_elts L L'"
proof -
  have loop: "\<exists>L'. lk_iter_from (\<lambda>a. lk_delete (Some a)) (first (map snd kas) None)
      (first (map snd (tl kas)) None) L = Some L' \<and> lk_holds L' [] \<and> same_elts L L'"
    if "lk_holds L kas" for L kas
    using that
  proof (induction kas arbitrary: L)
    case Nil
    then show ?case by (simp add: lk_iter_from.simps same_elts_def)
  next
    case (Cons x kas)
    obtain k a where x: "x = (k, a)" by fastforce
    from holds_delete [OF Cons.prems, of a] obtain L1 where
      L1: "lk_delete (Some a) L = Some L1" "lk_holds L1 (filter (\<lambda>y. snd y \<noteq> a) (x # kas))" "same_elts L L1"
      by (auto simp: x)
    have "a \<notin> snd ` set kas" using holds_distinct(2) [OF Cons.prems] by (simp add: x)
    then have "filter (\<lambda>y. snd y \<noteq> a) (x # kas) = kas" by (force simp: x intro: filter_True)
    with L1(2) have h1: "lk_holds L1 kas" by simp
    have n: "(if first (map snd kas) None \<noteq> None then get_next (lk_app L1) (first (map snd kas) None) else Some None)
        = Some (first (map snd (tl kas)) None)"
      using holds_next [of L1 "fst (hd kas)" "snd (hd kas)" "tl kas"] h1 by (cases kas) auto
    obtain L' where "lk_iter_from (\<lambda>a. lk_delete (Some a)) (first (map snd kas) None)
        (first (map snd (tl kas)) None) L1 = Some L'" "lk_holds L' []" "same_elts L1 L'"
      using Cons.IH [OF h1] by blast
    moreover have "lk_iter_from (\<lambda>a. lk_delete (Some a)) (first (map snd (x # kas)) None)
        (first (map snd (tl (x # kas))) None) L
      = lk_iter_from (\<lambda>a. lk_delete (Some a)) (first (map snd kas) None) (first (map snd (tl kas)) None) L1"
      using L1(1) n by (subst lk_iter_from.simps; cases kas) (simp_all add: x)
    ultimately show ?case using same_elts_trans [OF L1(3)] by auto
  qed
  have hd: "lk_head L = first (map snd kas) None" by (rule holds_head [OF assms])
  have "(if lk_head L \<noteq> None then get_next (lk_app L) (lk_head L) else Some None)
      = Some (first (map snd (tl kas)) None)"
    using holds_next [of L "fst (hd kas)" "snd (hd kas)" "tl kas"] assms unfolding hd by (cases kas) auto
  with loop [OF assms] show ?thesis by (simp add: lk_iter_def hd)
qed

section \<open>Sequences of operations\<close>

datatype hash_op =
  Op_add bytes nat
| Op_inorder bytes nat
| Op_delete bytes
| Op_replace bytes nat
| Op_replace_inorder bytes nat
| Op_sort

fun lk_op ::
    "'w allocator \<Rightarrow> ('e \<Rightarrow> 'e \<Rightarrow> int) \<Rightarrow> hash_op \<Rightarrow> 'e lk_hash \<Rightarrow> 'w \<Rightarrow> ('e lk_hash \<times> 'w) option" where
  "lk_op malloc cmp (Op_add k a) L w = lk_add malloc k (Some a) L w"
| "lk_op malloc cmp (Op_inorder k a) L w = lk_add_byhashvalue_inorder malloc cmp k (hash_jen k) (Some a) L w"
| "lk_op malloc cmp (Op_delete k) L w = map_option (\<lambda>L. (L, w)) (lk_drop k L)"
| "lk_op malloc cmp (Op_replace k a) L w =
     map_option snd (lk_replace_byhashvalue malloc k (hash_jen k) (Some a) L w)"
| "lk_op malloc cmp (Op_replace_inorder k a) L w =
     map_option snd (lk_replace_byhashvalue_inorder malloc cmp k (hash_jen k) (Some a) L w)"
| "lk_op malloc cmp Op_sort L w = map_option (\<lambda>L. (L, w)) (lk_sort cmp L)"

fun lk_run ::
    "'w allocator \<Rightarrow> ('e \<Rightarrow> 'e \<Rightarrow> int) \<Rightarrow> hash_op list \<Rightarrow> 'e lk_hash \<Rightarrow> 'w \<Rightarrow> ('e lk_hash \<times> 'w) option" where
  "lk_run malloc cmp [] L w = Some (L, w)"
| "lk_run malloc cmp (op # ops) L w = do { (L, w) \<leftarrow> lk_op malloc cmp op L w; lk_run malloc cmp ops L w }"

text \<open>The same on the list of entries; \<open>val\<close> tells what the elements hold.\<close>

definition without :: "bytes \<Rightarrow> (bytes \<times> nat) list \<Rightarrow> (bytes \<times> nat) list" where
  "without k kas = filter (\<lambda>x. fst x \<noteq> k) kas"

definition entered ::
    "('e \<Rightarrow> 'k::linorder) \<Rightarrow> (nat \<Rightarrow> 'e) \<Rightarrow> bytes \<Rightarrow> nat \<Rightarrow> (bytes \<times> nat) list \<Rightarrow> (bytes \<times> nat) list" where
  "entered key val k a kas =
     takeWhile (\<lambda>x. key (val (snd x)) \<le> key (val a)) kas @ (k, a)
       # dropWhile (\<lambda>x. key (val (snd x)) \<le> key (val a)) kas"

fun entries_op ::
    "('e \<Rightarrow> 'k::linorder) \<Rightarrow> (nat \<Rightarrow> 'e) \<Rightarrow> hash_op \<Rightarrow> (bytes \<times> nat) list \<Rightarrow> (bytes \<times> nat) list" where
  "entries_op key val (Op_add k a) kas = kas @ [(k, a)]"
| "entries_op key val (Op_inorder k a) kas = entered key val k a kas"
| "entries_op key val (Op_delete k) kas = without k kas"
| "entries_op key val (Op_replace k a) kas = without k kas @ [(k, a)]"
| "entries_op key val (Op_replace_inorder k a) kas = entered key val k a (without k kas)"
| "entries_op key val Op_sort kas = sort_key (\<lambda>x. key (val (snd x))) kas"

text \<open>A key is added once, an element is in the table once.\<close>

fun hash_op_ok :: "hash_op \<Rightarrow> (bytes \<times> nat) list \<Rightarrow> bool" where
  "hash_op_ok (Op_add k a) kas = (k \<notin> fst ` set kas \<and> a \<notin> snd ` set kas)"
| "hash_op_ok (Op_inorder k a) kas = (k \<notin> fst ` set kas \<and> a \<notin> snd ` set kas)"
| "hash_op_ok (Op_delete k) kas = True"
| "hash_op_ok (Op_replace k a) kas = (a \<notin> snd ` set (without k kas))"
| "hash_op_ok (Op_replace_inorder k a) kas = (a \<notin> snd ` set (without k kas))"
| "hash_op_ok Op_sort kas = True"

fun op_elts :: "hash_op \<Rightarrow> nat set" where
  "op_elts (Op_add k a) = {a}"
| "op_elts (Op_inorder k a) = {a}"
| "op_elts (Op_replace k a) = {a}"
| "op_elts (Op_replace_inorder k a) = {a}"
| "op_elts op = {}"

fun run_ok :: "('e \<Rightarrow> 'k::linorder) \<Rightarrow> (nat \<Rightarrow> 'e) \<Rightarrow> hash_op list \<Rightarrow> (bytes \<times> nat) list \<Rightarrow> bool" where
  "run_ok key val [] kas = True"
| "run_ok key val (op # ops) kas = (hash_op_ok op kas \<and> run_ok key val ops (entries_op key val op kas))"

lemma holds_memory:
  assumes "lk_holds L kas" and "a \<in> snd ` set kas"
  shows "in_memory L a"
proof -
  from assms(1) obtain h where h: "ut_entries h = kas" "lk_links_ok L h" by (auto simp: lk_holds_def)
  have "a \<in> set (map snd (ut_entries h))" using assms(2) h(1) by simp
  then obtain i where i: "i \<in> set (app_order h)" "a = ut_deref h i" unfolding snd_entries by auto
  have "lk_app L a \<noteq> None"
    using dseg_in [OF holds_dseg [OF assms(1)], of a] assms(2) by auto
  moreover have "lk_bkt L a \<noteq> None" using h(2) i by (auto simp: lk_links_ok_def Let_def lk_keyed_def)
  ultimately show ?thesis by (simp add: in_memory_def)
qed

definition vals_are :: "(nat \<Rightarrow> 'e) \<Rightarrow> 'e lk_hash \<Rightarrow> bool" where
  "vals_are val L \<longleftrightarrow> (\<forall>a. in_memory L a \<longrightarrow> val_of L a = val a)"

lemma vals_are_same: "vals_are val L \<Longrightarrow> same_elts L L' \<Longrightarrow> vals_are val L'"
  by (simp add: vals_are_def same_elts_memory same_elts_val)

lemma in_order_entered:
  fixes key :: "'e \<Rightarrow> 'k::linorder"
  assumes "\<And>x y. cmp x y \<le> 0 \<longleftrightarrow> key x \<le> key y" and "lk_holds L kas" and "vals_are val L" and "in_memory L a"
  shows "in_order cmp L k a kas = entered key val k a kas"
proof -
  have "not_greater cmp L a (snd x) = (key (val (snd x)) \<le> key (val a))" if "x \<in> set kas" for x
    using holds_memory [OF assms(2), of "snd x"] that assms(1,3,4) by (auto simp: not_greater_def vals_are_def)
  then show ?thesis
    by (simp add: in_order_def entered_def cong: takeWhile_cong dropWhile_cong)
qed

text \<open>Each operation, first what it gives, then that it returns.\<close>

lemma without_sub: "x \<in> set (without k kas) \<Longrightarrow> x \<in> set kas"
  by (simp add: without_def)

lemma without_key: "k \<notin> fst ` set (without k kas)"
  by (auto simp: without_def)

lemma sort_key_vals:
  assumes "\<And>x. x \<in> set xs \<Longrightarrow> f x = g x"
  shows "sort_key f xs = sort_key g xs"
proof -
  have "insort_key f x ys = insort_key g x ys" if "f x = g x" "\<forall>y \<in> set ys. f y = g y" for x ys
    using that by (induction ys) auto
  then show ?thesis using assms by (induction xs) auto
qed

lemma holds_without:
  assumes "lk_holds L kas"
  obtains L1 where "lk_drop k L = Some L1" "lk_holds L1 (without k kas)" "same_elts L L1"
    "\<And>n. lk_room n L \<Longrightarrow> lk_room n L1"
  using holds_drop [OF assms, of k] unfolding without_def by blast

lemma op_holds:
  fixes key :: "'e \<Rightarrow> 'k::linorder"
  assumes "\<And>x y. cmp x y \<le> 0 \<longleftrightarrow> key x \<le> key y" and "mem_bounded malloc" and "lk_holds L kas"
    and "vals_are val L" and "hash_op_ok op kas" and "\<forall>a \<in> op_elts op. in_memory L a"
    and "lk_op malloc cmp op L w = Some (L', w')"
  shows "lk_holds L' (entries_op key val op kas) \<and> same_elts L L'"
proof (cases op)
  case (Op_add k a)
  with assms holds_add(1) [OF assms(2,3), where a = a and key = k and w = w and L' = L' and w' = w'] show ?thesis by simp
next
  case (Op_inorder k a)
  then have m: "in_memory L a" using assms(6) by simp
  with Op_inorder assms holds_add_inorder(1) [OF assms(2,3) m, where key = k and cmp = cmp and w = w and L' = L' and w' = w']
    in_order_entered [where cmp = cmp and key = key and k = k, OF assms(1,3,4) m] show ?thesis by simp
next
  case (Op_delete k)
  from assms(3) obtain L1 where "lk_drop k L = Some L1" "lk_holds L1 (without k kas)" "same_elts L L1"
    by (rule holds_without)
  with Op_delete assms(7) show ?thesis by simp
next
  case (Op_replace k a)
  from assms(3) obtain L1 where L1: "lk_drop k L = Some L1" "lk_holds L1 (without k kas)" "same_elts L L1"
    by (rule holds_without)
  then have m: "in_memory L1 a" using assms(6) Op_replace by (simp add: same_elts_memory)
  from Op_replace assms(7) L1(1) holds_find [OF assms(3), of k]
  have "lk_add malloc k (Some a) L1 w = Some (L', w')"
    by (auto simp: replace_is_drop Option.bind_eq_Some_conv)
  with holds_add(1) [OF assms(2) L1(2) m _ without_key] assms(5) Op_replace
  have "lk_holds L' (without k kas @ [(k, a)])" "same_elts L1 L'" by auto
  with Op_replace same_elts_trans [OF L1(3)] show ?thesis by simp
next
  case (Op_replace_inorder k a)
  from assms(3) obtain L1 where L1: "lk_drop k L = Some L1" "lk_holds L1 (without k kas)" "same_elts L L1"
    by (rule holds_without)
  then have m: "in_memory L1 a" using assms(6) Op_replace_inorder by (simp add: same_elts_memory)
  from Op_replace_inorder assms(7) L1(1) holds_find [OF assms(3), of k]
  have "lk_add_byhashvalue_inorder malloc cmp k (hash_jen k) (Some a) L1 w = Some (L', w')"
    by (auto simp: replace_inorder_is_drop Option.bind_eq_Some_conv)
  with holds_add_inorder(1) [OF assms(2) L1(2) m _ without_key] assms(5) Op_replace_inorder
  have "lk_holds L' (in_order cmp L1 k a (without k kas))" "same_elts L1 L'" by auto
  with Op_replace_inorder same_elts_trans [OF L1(3)] show ?thesis
    using in_order_entered [where cmp = cmp and key = key and k = k, OF assms(1) L1(2) vals_are_same [OF assms(4) L1(3)] m] by simp
next
  case Op_sort
  from holds_sort [where cmp = cmp and key = key, OF assms(1,3)] obtain L1 where L1: "lk_sort cmp L = Some L1"
    "lk_holds L1 (sort_key (\<lambda>x. key (val_of L (snd x))) kas)" "same_elts L L1" by blast
  have "val_of L (snd x) = val (snd x)" if "x \<in> set kas" for x
    using holds_memory [OF assms(3), of "snd x"] that assms(4) by (simp add: vals_are_def)
  then have "key (val_of L (snd x)) = key (val (snd x))" if "x \<in> set kas" for x using that by simp
  then have "sort_key (\<lambda>x. key (val_of L (snd x))) kas = sort_key (\<lambda>x. key (val (snd x))) kas"
    by (rule sort_key_vals)
  with L1 Op_sort assms(7) show ?thesis by simp
qed

lemma op_returns:
  fixes key :: "'e \<Rightarrow> 'k::linorder"
  assumes "\<And>x y. cmp x y \<le> 0 \<longleftrightarrow> key x \<le> key y" and "mem_ok malloc" and "lk_holds L kas"
    and "hash_op_ok op kas" and "\<forall>a \<in> op_elts op. in_memory L a" and "lk_room (Suc n) L"
  shows "\<exists>L' w'. lk_op malloc cmp op L w = Some (L', w') \<and> lk_room n L'"
proof (cases op)
  case (Op_add k a)
  with assms holds_add(2) [OF mem_ok_bounded [OF assms(2)] assms(3) _ _ _ assms(2,6)] show ?thesis by simp
next
  case (Op_inorder k a)
  with assms holds_add_inorder(2) [OF mem_ok_bounded [OF assms(2)] assms(3) _ _ _ assms(2,6)]
  show ?thesis by simp
next
  case (Op_delete k)
  obtain L1 where L1: "lk_drop k L = Some L1" "\<And>n. lk_room n L \<Longrightarrow> lk_room n L1"
    using holds_without [OF assms(3)] by metis
  have "lk_room n L1" by (rule L1(2) [OF lk_room_Suc [OF assms(6)]])
  with L1(1) Op_delete show ?thesis by simp
next
  case (Op_replace k a)
  obtain L1 where L1: "lk_drop k L = Some L1" "lk_holds L1 (without k kas)" "same_elts L L1" "lk_room (Suc n) L1"
    using holds_without [OF assms(3)] assms(6) by metis
  then have m: "in_memory L1 a" using assms(5) Op_replace by (simp add: same_elts_memory)
  from holds_add(2) [OF mem_ok_bounded [OF assms(2)] L1(2) m _ without_key assms(2) L1(4), where w = w] assms(4) Op_replace
  obtain L' w' where "lk_add malloc k (Some a) L1 w = Some (L', w')" "lk_room n L'" by auto
  with Op_replace L1(1) holds_find [OF assms(3), of k] show ?thesis by (simp add: replace_is_drop)
next
  case (Op_replace_inorder k a)
  obtain L1 where L1: "lk_drop k L = Some L1" "lk_holds L1 (without k kas)" "same_elts L L1" "lk_room (Suc n) L1"
    using holds_without [OF assms(3)] assms(6) by metis
  then have m: "in_memory L1 a" using assms(5) Op_replace_inorder by (simp add: same_elts_memory)
  from holds_add_inorder(2) [OF mem_ok_bounded [OF assms(2)] L1(2) m _ without_key assms(2) L1(4), where w = w and cmp = cmp] assms(4) Op_replace_inorder
  obtain L' w' where "lk_add_byhashvalue_inorder malloc cmp k (hash_jen k) (Some a) L1 w = Some (L', w')"
    "lk_room n L'" by auto
  with Op_replace_inorder L1(1) holds_find [OF assms(3), of k] show ?thesis
    by (simp add: replace_inorder_is_drop)
next
  case Op_sort
  from holds_sort [where cmp = cmp and key = key, OF assms(1,3)] lk_room_Suc [OF assms(6)] show ?thesis using Op_sort by fastforce
qed

lemma run_holds:
  fixes key :: "'e \<Rightarrow> 'k::linorder"
  assumes "\<And>x y. cmp x y \<le> 0 \<longleftrightarrow> key x \<le> key y" and "mem_bounded malloc" and "lk_holds L kas"
    and "vals_are val L" and "run_ok key val ops kas" and "\<forall>op \<in> set ops. \<forall>a \<in> op_elts op. in_memory L a"
    and "lk_run malloc cmp ops L w = Some (L', w')"
  shows "lk_holds L' (fold (entries_op key val) ops kas) \<and> same_elts L L'"
  using assms(3-7)
proof (induction ops arbitrary: L kas w)
  case (Cons op ops)
  from Cons.prems(5) obtain L1 w1 where 1: "lk_op malloc cmp op L w = Some (L1, w1)"
    "lk_run malloc cmp ops L1 w1 = Some (L', w')" by (auto simp: Option.bind_eq_Some_conv)
  have h: "lk_holds L1 (entries_op key val op kas)" "same_elts L L1"
    using op_holds [where cmp = cmp and key = key, OF assms(1,2) Cons.prems(1,2) _ _ 1(1)] Cons.prems(3,4) by auto
  have "lk_holds L' (fold (entries_op key val) ops (entries_op key val op kas)) \<and> same_elts L1 L'"
    using Cons.prems(3,4)
    by (intro Cons.IH [OF h(1) vals_are_same [OF Cons.prems(2) h(2)] _ _ 1(2)])
      (simp_all add: same_elts_memory [OF h(2)])
  with same_elts_trans [OF h(2)] show ?case by simp
qed (simp add: same_elts_def)

lemma hash_run_returns:
  fixes key :: "'e \<Rightarrow> 'k::linorder"
  assumes "\<And>x y. cmp x y \<le> 0 \<longleftrightarrow> key x \<le> key y" and "mem_ok malloc" and "lk_holds L kas"
    and "vals_are val L" and "run_ok key val ops kas" and "\<forall>op \<in> set ops. \<forall>a \<in> op_elts op. in_memory L a"
    and "lk_room (length ops) L"
  shows "lk_run malloc cmp ops L w \<noteq> None"
  using assms(3-7)
proof (induction ops arbitrary: L kas w)
  case (Cons op ops)
  from op_returns [where cmp = cmp and key = key and op = op and n = "length ops" and w = w, OF assms(1,2) Cons.prems(1)] Cons.prems(3-5)
  obtain L1 w1 where 1: "lk_op malloc cmp op L w = Some (L1, w1)" "lk_room (length ops) L1" by auto
  have h: "lk_holds L1 (entries_op key val op kas)" "same_elts L L1"
    using op_holds [where cmp = cmp and key = key, OF assms(1) mem_ok_bounded [OF assms(2)] Cons.prems(1,2) _ _ 1(1)] Cons.prems(3,4) by auto
  have "lk_run malloc cmp ops L1 w1 \<noteq> None"
    using Cons.prems(3,4)
    by (intro Cons.IH [OF h(1) vals_are_same [OF Cons.prems(2) h(2)] _ _ 1(2)])
      (simp_all add: same_elts_memory [OF h(2)])
  with 1(1) show ?case by simp
qed simp

text \<open>C32: the hash table on its links refines a list of entries. Whatever sequence of \<open>HASH_ADD\<close>,
  \<open>HASH_ADD_INORDER\<close>, \<open>HASH_DELETE\<close> after \<open>HASH_FIND\<close>, \<open>HASH_REPLACE\<close>, \<open>HASH_REPLACE_INORDER\<close> and
  \<open>HASH_SORT\<close> runs from the empty table, with distinct keys and elements: if it returns, a lookup finds
  what the list of entries says, the count is right, the links in application order visit the
  entries in order, forward and backward, the consistency check passes, and deleting the elements
  while iterating empties the table. It returns when memory suffices and the buckets have room.\<close>

theorem hash_links_refine:
  fixes cmp :: "'e \<Rightarrow> 'e \<Rightarrow> int" and key :: "'e \<Rightarrow> 'k::linorder"
  assumes "\<And>x y. cmp x y \<le> 0 \<longleftrightarrow> key x \<le> key y" and "lk_head L = None"
    and "run_ok key (val_of L) ops []" and "\<forall>op \<in> set ops. \<forall>a \<in> op_elts op. in_memory L a"
    and "mem_bounded malloc" and "kas = fold (entries_op key (val_of L)) ops []"
  shows "(\<forall>L' w'. lk_run malloc cmp ops L w = Some (L', w') \<longrightarrow>
        (\<forall>k. lk_find k L' = Some (map_of kas k)) \<and> lk_cnt L' = Some (of_nat (length kas))
        \<and> lk_head L' = first (map snd kas) None \<and> dseg (lk_app L') None (map snd kas) None
        \<and> lk_fsck L' = Some True \<and> same_vals (lk_app L) (lk_app L')
        \<and> (\<exists>L''. lk_iter (\<lambda>a. lk_delete (Some a)) L' = Some L'' \<and> lk_head L'' = None))
    \<and> (mem_ok malloc \<and> length ops \<le> 26 \<longrightarrow> lk_run malloc cmp ops L w \<noteq> None)"
proof (intro conjI allI impI)
  have e: "lk_holds L []" "vals_are (val_of L) L" using assms(2) by (auto simp: holds_empty vals_are_def)
  fix L' w' assume "lk_run malloc cmp ops L w = Some (L', w')"
  from run_holds [where cmp = cmp and key = key, OF assms(1,5) e assms(3,4) this]
  have h: "lk_holds L' kas" "same_elts L L'" by (simp_all add: assms(6))
  show "lk_find k L' = Some (map_of kas k)" for k by (rule holds_find [OF h(1)])
  show "lk_cnt L' = Some (of_nat (length kas))" by (rule holds_count [OF h(1)])
  show "lk_head L' = first (map snd kas) None" by (rule holds_head [OF h(1)])
  show "dseg (lk_app L') None (map snd kas) None" by (rule holds_dseg [OF h(1)])
  show "lk_fsck L' = Some True" by (rule holds_fsck [OF h(1)])
  show "same_vals (lk_app L) (lk_app L')" using h(2) by (simp add: same_elts_def)
  show "\<exists>L''. lk_iter (\<lambda>a. lk_delete (Some a)) L' = Some L'' \<and> lk_head L'' = None"
    using iter_deletes [OF h(1)] holds_head by fastforce
next
  have e: "lk_holds L []" "vals_are (val_of L) L" using assms(2) by (auto simp: holds_empty vals_are_def)
  assume m: "mem_ok malloc \<and> length ops \<le> 26"
  with assms(2) have "lk_room (length ops) L" by (simp add: lk_room_def)
  with m show "lk_run malloc cmp ops L w \<noteq> None"
    by (intro hash_run_returns [where cmp = cmp and key = key, OF assms(1) _ e assms(3,4)]) simp_all
qed

text \<open>Three elements in memory, with the values 7, 3 and 5.\<close>

definition three_in_memory :: "int lk_hash" where
  "three_in_memory =
     \<lparr>lk_app = (\<lambda>a. if a < 3 then Some \<lparr>el_val = [7, 3, 5] ! a, el_prev = None, el_next = None\<rparr> else None),
      lk_bkt = (\<lambda>a. if a < 3 then Some \<lparr>el_val = ([], 0), el_prev = None, el_next = None\<rparr> else None),
      lk_head = None, lk_tbl = None\<rparr>"

lemma three_values: "a < 3 \<Longrightarrow> val_of three_in_memory a = [7, 3, 5] ! a" "a < 3 \<Longrightarrow> in_memory three_in_memory a"
  by (simp_all add: val_of_def in_memory_def three_in_memory_def)

theorem hash_links_refine_witness:
  "\<exists>L' w'. lk_run (\<lambda>n w. (n < 2 ^ 36, w)) (\<lambda>x y. x - y)
      [Op_add [1] 0, Op_inorder [2] 1, Op_replace [1] 2, Op_sort, Op_delete [2]] three_in_memory () = Some (L', w')
    \<and> lk_find [1] L' = Some (Some 2) \<and> lk_find [2] L' = Some None \<and> lk_cnt L' = Some 1"
proof -
  let ?m = "\<lambda>n (w::unit). (n < 2 ^ 36, w)"
    and ?ops = "[Op_add [1] 0, Op_inorder [2] 1, Op_replace [1] 2, Op_sort, Op_delete [2]]"
  have "run_ok id (val_of three_in_memory) ?ops []"
    by (simp add: entered_def without_def three_values)
  moreover have kas: "fold (entries_op id (val_of three_in_memory)) ?ops [] = [([1], 2)]"
    by (simp add: entered_def without_def three_values)
  moreover have "lk_head three_in_memory = None" by (simp add: three_in_memory_def)
  moreover have "\<forall>op \<in> set ?ops. \<forall>a \<in> op_elts op. in_memory three_in_memory a" by (simp add: three_values)
  moreover have "mem_ok ?m" by (simp add: mem_ok_def)
  ultimately show ?thesis
    using hash_links_refine [where cmp = "\<lambda>x y. x - y" and key = "id :: int \<Rightarrow> int" and malloc = ?m
        and L = three_in_memory and ops = ?ops and w = "()", OF _ _ _ _ mem_ok_bounded refl]
    by fastforce
qed

section \<open>Selecting\<close>

text \<open>\<open>HASH_SELECT\<close> sets the tail of the new table once, for the first element.\<close>

definition tail_is_head :: "'e lk_hash \<Rightarrow> bool" where
  "tail_is_head L \<longleftrightarrow> (lk_head L \<noteq> None \<longrightarrow> (\<exists>t. lk_tbl L = Some t \<and> lk_tail t = lk_head L))"

lemma expand_tail: "lk_expand malloc h t w = Some (h', t', w') \<Longrightarrow> lk_tail t' = lk_tail t"
  by (cases "malloc (sizeof_UT_hash_bucket * (unat (lk_num t) * 2)) w")
    (auto simp: lk_expand_def Let_def Option.bind_eq_Some_conv split: if_splits)

lemma add_to_bkt_tail:
  "lk_add_to_bkt malloc i a h t w = Some (h', t', w') \<Longrightarrow> lk_tail t' = lk_tail t"
  unfolding lk_add_to_bkt_def Let_def
  by (auto simp: Option.bind_eq_Some_conv dest: expand_tail split: if_splits)

lemma make_table_tail: "lk_make_table malloc a w = Some (t, w') \<Longrightarrow> lk_tail t = a"
  by (auto simp: lk_make_table_def split: if_splits prod.splits)

lemma select_elt_tail:
  "lk_select_elt malloc src a lst dst w = Some (dst', w') \<Longrightarrow> tail_is_head dst \<Longrightarrow> tail_is_head dst'"
  by (auto simp: lk_select_elt_def tail_is_head_def Let_def Option.bind_eq_Some_conv
      dest!: add_to_bkt_tail make_table_tail split: if_splits)

lemma select_chain_tail:
  assumes "lk_select_chain malloc P src a lst dst w = Some r" and "tail_is_head dst"
  shows "tail_is_head (fst (snd r))"
proof -
  have "(\<lambda>((((((malloc, P), src), a), lst), dst), w) r. tail_is_head dst \<longrightarrow> tail_is_head (fst (snd r)))
      ((((((malloc, P), src), a), lst), dst), w) r"
  proof (rule lk_select_chain.raw_induct [OF _ assms(1)], goal_cases)
    case step: (1 loop malloc P src a lst dst w r)
    show ?case
      unfolding prod.case
    proof
      assume d: "tail_is_head dst"
      show "tail_is_head (fst (snd r))"
      proof (cases "a = None")
        case True
        with step(2) d show ?thesis by auto
      next
        case False
        with step(2) obtain x lst1 dst1 w1 n where
          s: "(if P x then do { (dst, w) \<leftarrow> lk_select_elt malloc src a lst dst w; Some (a, dst, w) }
             else Some (lst, dst, w)) = Some (lst1, dst1, w1)" "loop malloc P src n lst1 dst1 w1 = Some r"
          by (auto simp: Option.bind_eq_Some_conv)
        from s(1) d have "tail_is_head dst1"
          by (auto simp: Option.bind_eq_Some_conv split: if_splits dest: select_elt_tail)
        with step(1) [OF s(2)] show ?thesis by simp
      qed
    qed
  qed
  with assms(2) show ?thesis by simp
qed

lemma select_chains_tail:
  "lk_select_chains malloc P src bs lst dst w = Some (dst', w') \<Longrightarrow> tail_is_head dst \<Longrightarrow> tail_is_head dst'"
proof (induction bs arbitrary: lst dst w)
  case (Cons b bs)
  from Cons.prems(1) obtain lst1 dst1 w1 where
    s: "lk_select_chain malloc P src (lk_first b) lst dst w = Some (lst1, dst1, w1)"
      "lk_select_chains malloc P src bs lst1 dst1 w1 = Some (dst', w')"
    by (auto simp: Option.bind_eq_Some_conv)
  have "tail_is_head dst1" using select_chain_tail [OF s(1) Cons.prems(2)] by simp
  with Cons.IH [OF s(2)] show ?case .
qed simp

text \<open>C33: \<open>HASH_SELECT\<close> leaves the tail of the new table at the first selected element. An element
  added to the table afterwards becomes the successor of the first one and has none itself: in
  application order the table has two elements, however many were selected.\<close>

theorem select_breaks_order:
  assumes "lk_head dst = None" and "lk_select malloc P src dst w = Some (dst1, w1)"
    and "lk_head dst1 = Some b" and "a \<noteq> b" and "lk_add_byhashvalue malloc k hv (Some a) dst1 w1 = Some (dst2, w2)"
  shows "lk_head dst2 = Some b \<and> get_next (lk_app dst2) (Some b) = Some (Some a)
    \<and> get_next (lk_app dst2) (Some a) = Some None"
proof -
  have "tail_is_head dst1"
    using assms(1,2) select_chains_tail [of malloc P src _ None dst w dst1 w1]
    by (auto simp: lk_select_def tail_is_head_def Option.bind_eq_Some_conv split: if_splits)
  with assms(3) obtain t where t: "lk_tbl dst1 = Some t" "lk_tail t = Some b" by (auto simp: tail_is_head_def)
  from assms(5) obtain B where B: "set_val (lk_bkt dst1) (Some a) (k, hv) = Some B"
    by (auto simp: lk_add_byhashvalue_def Option.bind_eq_Some_conv)
  with assms(3,5) t(1) obtain app t1 where app: "lk_append_list (lk_app dst1) t (Some a) = Some (app, t1)"
    and add: "lk_add_to_table malloc hv (Some a) (dst1\<lparr>lk_bkt := B, lk_app := app, lk_tbl := Some t1\<rparr>) w1
      = Some (dst2, w2)"
    by (auto simp: lk_add_byhashvalue_def Let_def Option.bind_eq_Some_conv)
  from add have "lk_app dst2 = app" "lk_head dst2 = Some b"
    using assms(3) by (auto simp: lk_add_to_table_def Let_def Option.bind_eq_Some_conv)
  moreover from app t(2) assms(4) have "get_next app (Some b) = Some (Some a)" "get_next app (Some a) = Some None"
    by (auto simp: lk_append_list_def set_next_def set_prev_def get_next_def Option.bind_eq_Some_conv)
  ultimately show ?thesis by simp
qed

text \<open>Two elements selected and a third one added: the count is 3, the walk visits two.\<close>

definition always :: "unit allocator" where
  "always n w = (True, w)"

definition select_and_add :: "(int lk_hash \<times> int lk_hash) option" where
  "select_and_add =
     do { (src, w) \<leftarrow> lk_add_byhashvalue always [1] 1 (Some 0) three_in_memory ();
          (src, w) \<leftarrow> lk_add_byhashvalue always [2] 2 (Some 1) src w;
          (dst, w) \<leftarrow> lk_select always (\<lambda>x. True) src three_in_memory w;
          (dst2, w) \<leftarrow> lk_add_byhashvalue always [3] 3 (Some 2) dst w;
          Some (dst, dst2) }"

declare lk_select_chain.simps [code]

lemma selected:
  "map_option (\<lambda>(dst, dst2). (lk_head dst, lk_cnt dst, lk_cnt dst2)) select_and_add
    = Some (Some 0, Some 2, Some 3)"
  by code_simp

theorem select_breaks_order_witness:
  "\<exists>dst dst2. select_and_add = Some (dst, dst2) \<and> lk_cnt dst = Some 2 \<and> lk_cnt dst2 = Some 3
    \<and> get_next (lk_app dst2) (lk_head dst2) = Some (Some 2) \<and> get_next (lk_app dst2) (Some 2) = Some None"
proof -
  obtain dst dst2 where d: "select_and_add = Some (dst, dst2)" "lk_head dst = Some 0" "lk_cnt dst = Some 2"
    "lk_cnt dst2 = Some 3"
    using selected by (cases select_and_add) auto
  then obtain src w w1 w2 where
    "lk_select always (\<lambda>x. True) src three_in_memory w = Some (dst, w1)"
    "lk_add_byhashvalue always [3] 3 (Some 2) dst w1 = Some (dst2, w2)"
    by (auto simp: select_and_add_def Option.bind_eq_Some_conv)
  from select_breaks_order [OF _ this(1) d(2) _ this(2)]
  have "lk_head dst2 = Some 0 \<and> get_next (lk_app dst2) (Some 0) = Some (Some 2)
      \<and> get_next (lk_app dst2) (Some 2) = Some None" by (simp add: three_in_memory_def)
  with d(1,3,4) show ?thesis by (intro exI [of _ dst] exI [of _ dst2]) simp
qed

end
