(* ===== verification/Uthash_Variants.thy ===== *)
theory Uthash_Variants
  imports Uthash
begin

text \<open>
  What \<open>uthash.h\<close> can be built with in place of the defaults: the other hash functions, and the
  Bloom filter of \<open>HASH_BLOOM\<close>, which never denies a hash value that was added.
\<close>

unbundle bit_operations_syntax

section \<open>The other hash functions\<close>

fun hash_ber_from :: "u32 \<Rightarrow> bytes \<Rightarrow> u32" where
  "hash_ber_from h [] = h"
| "hash_ber_from h (b # k) = hash_ber_from ((push_bit 5 h + h) + ucast b) k"

definition hash_ber :: "bytes \<Rightarrow> u32" where
  "hash_ber k = hash_ber_from 0 k"

fun hash_sax_from :: "u32 \<Rightarrow> bytes \<Rightarrow> u32" where
  "hash_sax_from h [] = h"
| "hash_sax_from h (b # k) = hash_sax_from (h XOR (push_bit 5 h + drop_bit 2 h + ucast b)) k"

definition hash_sax :: "bytes \<Rightarrow> u32" where
  "hash_sax k = hash_sax_from 0 k"

fun hash_fnv_from :: "u32 \<Rightarrow> bytes \<Rightarrow> u32" where
  "hash_fnv_from h [] = h"
| "hash_fnv_from h (b # k) = hash_fnv_from ((h XOR ucast b) * 16777619) k"

definition hash_fnv :: "bytes \<Rightarrow> u32" where
  "hash_fnv k = hash_fnv_from 2166136261 k"

fun hash_oat_from :: "u32 \<Rightarrow> bytes \<Rightarrow> u32" where
  "hash_oat_from h [] = h"
| "hash_oat_from h (b # k) =
     (let h = h + ucast b; h = h + push_bit 10 h; h = h XOR drop_bit 6 h in hash_oat_from h k)"

definition hash_oat :: "bytes \<Rightarrow> u32" where
  "hash_oat k =
     (let h = hash_oat_from 0 k; h = h + push_bit 3 h; h = h XOR drop_bit 11 h in h + push_bit 15 h)"

definition get16bits :: "u8 \<Rightarrow> u8 \<Rightarrow> u32" where
  "get16bits b0 b1 = push_bit 8 (ucast b1) + ucast b0"

text \<open>The main loop of \<open>HASH_SFH\<close>, four bytes a round, and the end cases.\<close>

fun hash_sfh_from :: "u32 \<Rightarrow> bytes \<Rightarrow> u32" where
  "hash_sfh_from h (b0 # b1 # b2 # b3 # k) =
     (let h = h + get16bits b0 b1;
          tmp = push_bit 11 (get16bits b2 b3) XOR h;
          h = push_bit 16 h XOR tmp
      in hash_sfh_from (h + drop_bit 11 h) k)"
| "hash_sfh_from h [b0, b1, b2] =
     (let h = h + get16bits b0 b1; h = h XOR push_bit 16 h; h = h XOR push_bit 18 (ucast b2)
      in h + drop_bit 11 h)"
| "hash_sfh_from h [b0, b1] =
     (let h = h + get16bits b0 b1; h = h XOR push_bit 11 h in h + drop_bit 17 h)"
| "hash_sfh_from h [b0] = (let h = h + ucast b0; h = h XOR push_bit 10 h in h + drop_bit 1 h)"
| "hash_sfh_from h [] = h"

definition hash_sfh :: "bytes \<Rightarrow> u32" where
  "hash_sfh k =
     (let h = hash_sfh_from 0xcafebabe k;
          h = h XOR push_bit 3 h; h = h + drop_bit 5 h; h = h XOR push_bit 4 h;
          h = h + drop_bit 17 h; h = h XOR push_bit 25 h
      in h + drop_bit 6 h)"

text \<open>The Bernstein hash is the number the bytes stand for in base 33.\<close>

lemma hash_ber_base: "hash_ber_from h k = foldl (\<lambda>h b. 33 * h + ucast b) h k"
proof (induction k arbitrary: h)
  case (Cons b k)
  have "push_bit 5 h + h = 33 * h" by (simp add: push_bit_eq_mult)
  with Cons show ?case by simp
qed simp

lemma hash_fnv_append: "hash_fnv_from h (k @ l) = hash_fnv_from (hash_fnv_from h k) l"
  by (induction k arbitrary: h) simp_all

section \<open>The Bloom filter\<close>

definition bloom_bytelen :: "nat \<Rightarrow> nat" where
  "bloom_bytelen nbits = 2 ^ nbits div 8 + (if 2 ^ nbits mod 8 \<noteq> (0::nat) then 1 else 0)"

definition bloom_make :: "nat \<Rightarrow> bytes" where
  "bloom_make nbits = replicate (bloom_bytelen nbits) 0"

definition bloom_bitset :: "bytes \<Rightarrow> nat \<Rightarrow> bytes" where
  "bloom_bitset bv idx = bv[idx div 8 := bv ! (idx div 8) OR push_bit (idx mod 8) 1]"

definition bloom_bittest :: "bytes \<Rightarrow> nat \<Rightarrow> bool" where
  "bloom_bittest bv idx \<longleftrightarrow> bv ! (idx div 8) AND push_bit (idx mod 8) 1 \<noteq> 0"

definition bloom_idx :: "nat \<Rightarrow> u32 \<Rightarrow> nat" where
  "bloom_idx nbits hashv = unat (hashv AND ucast (push_bit nbits 1 - 1 :: u64))"

definition bloom_add :: "nat \<Rightarrow> u32 \<Rightarrow> bytes \<Rightarrow> bytes" where
  "bloom_add nbits hashv bv = bloom_bitset bv (bloom_idx nbits hashv)"

definition bloom_test :: "nat \<Rightarrow> bytes \<Rightarrow> u32 \<Rightarrow> bool" where
  "bloom_test nbits bv hashv = bloom_bittest bv (bloom_idx nbits hashv)"

lemma bloom_idx_bound:
  assumes "nbits \<le> 32"
  shows "bloom_idx nbits hashv < 2 ^ nbits"
proof -
  have "push_bit nbits 1 - 1 = (mask nbits :: u64)" by (simp add: mask_eq_exp_minus_1 push_bit_eq_mult)
  moreover have "ucast (mask nbits :: u64) = (mask nbits :: u32)"
    using assms by (intro bit_word_eqI) (auto simp: bit_simps)
  ultimately have "bloom_idx nbits hashv = unat (take_bit nbits hashv)"
    by (simp add: bloom_idx_def take_bit_eq_mask)
  then show ?thesis by (simp add: unsigned_take_bit_eq)
qed

lemma bloom_index_in:
  assumes "nbits \<le> 32"
  shows "bloom_idx nbits hashv div 8 < bloom_bytelen nbits"
proof -
  have "2 ^ nbits \<le> 8 * bloom_bytelen nbits"
    using div_mult_mod_eq [of "2 ^ nbits :: nat" 8] mod_less_divisor [of 8 "2 ^ nbits"]
    by (auto simp: bloom_bytelen_def)
  with bloom_idx_bound [OF assms, of hashv] show ?thesis by (simp add: less_mult_imp_div_less mult.commute)
qed

lemma bittest_bit: "bloom_bittest bv idx \<longleftrightarrow> bit (bv ! (idx div 8)) (idx mod 8)"
proof -
  have "(b AND push_bit j 1 \<noteq> 0) = bit b j" if "j < 8" for b :: u8 and j
    using that by (simp add: bit_iff_and_push_bit_not_eq_0)
  then show ?thesis by (simp add: bloom_bittest_def)
qed

lemma bitset_bittest:
  assumes "idx div 8 < length bv"
  shows "bloom_bittest (bloom_bitset bv idx) j \<longleftrightarrow> j = idx \<or> bloom_bittest bv j"
proof -
  have "idx mod 8 < 8" "j mod 8 < 8" by simp_all
  moreover have "j = idx \<longleftrightarrow> j div 8 = idx div 8 \<and> j mod 8 = idx mod 8"
    by (metis div_mult_mod_eq)
  ultimately show ?thesis
    using assms by (auto simp: bittest_bit bloom_bitset_def bit_simps nth_list_update)
qed

text \<open>No false negatives; a value not added is denied unless it shares its bits with one that was.\<close>

lemma bloom_added:
  assumes "nbits \<le> 32"
  shows "bloom_test nbits (fold (bloom_add nbits) hs (bloom_make nbits)) hv
    \<longleftrightarrow> bloom_idx nbits hv \<in> bloom_idx nbits ` set hs"
proof -
  have "bloom_test nbits (fold (bloom_add nbits) hs bv) hv
      \<longleftrightarrow> bloom_idx nbits hv \<in> bloom_idx nbits ` set hs \<or> bloom_test nbits bv hv"
    if "length bv = bloom_bytelen nbits" for bv
    using that
  proof (induction hs arbitrary: bv)
    case (Cons h hs)
    have "length (bloom_add nbits h bv) = bloom_bytelen nbits"
      using Cons.prems by (simp add: bloom_add_def bloom_bitset_def)
    moreover have "bloom_test nbits (bloom_add nbits h bv) hv
        \<longleftrightarrow> bloom_idx nbits hv = bloom_idx nbits h \<or> bloom_test nbits bv hv"
      using bitset_bittest [of "bloom_idx nbits h" bv] bloom_index_in [OF assms, of h] Cons.prems
      by (simp add: bloom_test_def bloom_add_def)
    ultimately show ?case using Cons.IH by auto
  qed simp
  moreover have "\<not> bloom_test nbits (bloom_make nbits) hv"
    using bloom_index_in [OF assms, of hv] by (simp add: bloom_test_def bittest_bit bloom_make_def)
  moreover have "length (bloom_make nbits) = bloom_bytelen nbits" by (simp add: bloom_make_def)
  ultimately show ?thesis by blast
qed

text \<open>\<open>HASH_FIND_BYHASHVALUE\<close> asks the filter first, which changes no answer.\<close>

definition bloom_find :: "nat \<Rightarrow> bytes \<Rightarrow> 'e uthash \<Rightarrow> bytes \<Rightarrow> nat option" where
  "bloom_find nbits bv h key = (if bloom_test nbits bv (hash_jen key) then hash_find h key else None)"

theorem bloom_find_same:
  assumes "nbits \<le> 32" and "ut_wf h" and "\<forall>a \<in> set (app_order h). hh_hashv (ut_objs h ! a) \<in> set hs"
  shows "bloom_find nbits (fold (bloom_add nbits) hs (bloom_make nbits)) h key = hash_find h key"
proof (cases "hash_find h key")
  case (Some a)
  with hash_find_Some [OF assms(2)] have "a \<in> set (app_order h)" "hh_key (ut_objs h ! a) = key" by blast+
  with assms(2,3) have "hash_jen key \<in> set hs" by (auto simp: ut_wf_def)
  with Some show ?thesis by (simp add: bloom_find_def bloom_added [OF assms(1)])
qed (simp add: bloom_find_def)

end
